(* ===== verification/Prelude.thy ===== *)
theory Prelude
  imports Main "HOL-Library.Word"
begin

unbundle bit_operations_syntax

text \<open>
  Shared vocabulary of the development: the widths of the C integers, the conversions that
  C performs silently, the error numbers of the kernel, byte order, and the few facts on
  lists that several components need.

  Conventions. A C integer whose wrap-around can matter is a word, or a \<^typ>\<open>nat\<close> or
  \<^typ>\<open>int\<close> with the conversion written out (\<open>to_u16\<close>, \<open>to_u32\<close>,
  \<open>to_s32\<close>). A buffer is a list of bytes. Kernel functions return a negative error
  number on failure; where a function also returns a useful non-negative value, the model
  returns an \<^typ>\<open>int\<close> with the same meaning.
\<close>

section \<open>Integer widths\<close>

type_synonym u8 = "8 word"
type_synonym u16 = "16 word"
type_synonym u32 = "32 word"
type_synonym bytes = "8 word list"

definition to_u16 :: "int \<Rightarrow> nat" where
  "to_u16 i = nat (i mod 65536)"

definition to_u32 :: "int \<Rightarrow> nat" where
  "to_u32 i = nat (i mod 4294967296)"

definition to_s32 :: "int \<Rightarrow> int" where
  "to_s32 i = (i + 2147483648) mod 4294967296 - 2147483648"

section \<open>Error numbers\<close>

abbreviation (input) EPERM :: int where "EPERM \<equiv> 1"
abbreviation (input) EIO :: int where "EIO \<equiv> 5"
abbreviation (input) ENOMEM :: int where "ENOMEM \<equiv> 12"
abbreviation (input) EINVAL :: int where "EINVAL \<equiv> 22"
abbreviation (input) ENOSPC :: int where "ENOSPC \<equiv> 28"
abbreviation (input) EUCLEAN :: int where "EUCLEAN \<equiv> 117"

section \<open>Collections of facts\<close>

named_theorems width_simps \<open>conversions between C integer widths\<close>
named_theorems buf_simps \<open>reading and overwriting buffers\<close>

lemma to_u16_lt [simp]: "to_u16 i < 65536"
  by (simp add: to_u16_def)

lemma to_u16_id [width_simps]: "0 \<le> i \<Longrightarrow> i < 65536 \<Longrightarrow> to_u16 i = nat i"
  by (simp add: to_u16_def)

lemma to_u16_of_nat [width_simps]: "n < 65536 \<Longrightarrow> to_u16 (int n) = n"
  by (simp add: to_u16_def)

lemma to_u32_lt [simp]: "to_u32 i < 4294967296"
  by (simp add: to_u32_def)

lemma to_u32_0 [simp]: "to_u32 0 = 0"
  by (simp add: to_u32_def)

lemma to_u32_of_nat [width_simps]: "n < 4294967296 \<Longrightarrow> to_u32 (int n) = n"
  by (simp add: to_u32_def)

lemma to_s32_id [width_simps]: "-2147483648 \<le> i \<Longrightarrow> i < 2147483648 \<Longrightarrow> to_s32 i = i"
  by (simp add: to_s32_def)

lemma to_s32_range: "-2147483648 \<le> to_s32 i \<and> to_s32 i < 2147483648"
  unfolding to_s32_def by (smt (verit) pos_mod_bound pos_mod_sign)

section \<open>Buffers\<close>

text \<open>
  \<open>overlay old new\<close> is the buffer \<open>old\<close> after the bytes \<open>new\<close> were stored at its
  beginning. \<open>byte_at buf i\<close> reads one byte. Nothing is claimed of an access outside the
  buffer: the well-formedness conditions of the components exclude it, or the model of the
  component reports it as a fault.
\<close>

definition overlay :: "'a list \<Rightarrow> 'a list \<Rightarrow> 'a list" where
  "overlay old new = take (length old) new @ drop (length new) old"

definition byte_at :: "bytes \<Rightarrow> nat \<Rightarrow> u8" where
  "byte_at buf i = (if i < length buf then buf ! i else 0)"

lemma length_overlay [simp]: "length (overlay old new) = length old"
  by (simp add: overlay_def)

lemma overlay_Nil [simp]: "overlay old [] = old"
  by (simp add: overlay_def)

lemma overlay_full [buf_simps]: "length new = length old \<Longrightarrow> overlay old new = new"
  by (simp add: overlay_def)

lemma byte_at_in [buf_simps]: "i < length buf \<Longrightarrow> byte_at buf i = buf ! i"
  by (simp add: byte_at_def)

section \<open>Byte order\<close>

definition le16 :: "nat \<Rightarrow> bytes" where
  "le16 n = [of_nat n, of_nat (n div 256)]"

definition of_le16 :: "bytes \<Rightarrow> nat" where
  "of_le16 bs = unat (byte_at bs 0) + 256 * unat (byte_at bs 1)"

lemma length_le16 [simp]: "length (le16 n) = 2"
  by (simp add: le16_def)

lemma of_le16_le16 [simp]: "n < 65536 \<Longrightarrow> of_le16 (le16 n @ xs) = n"
proof -
  assume n: "n < 65536"
  have "n mod 256 + 256 * ((n div 256) mod 256) = n"
    using n by (simp add: div_less)
  then show ?thesis
    by (simp add: of_le16_def le16_def byte_at_def unat_of_nat)
qed

text \<open>32 bit words in memory, little and big endian.\<close>

definition le32 :: "u32 \<Rightarrow> bytes" where
  "le32 w = [ucast w, ucast (drop_bit 8 w), ucast (drop_bit 16 w), ucast (drop_bit 24 w)]"

definition u32_of4 :: "u8 \<Rightarrow> u8 \<Rightarrow> u8 \<Rightarrow> u8 \<Rightarrow> u32" where
  "u32_of4 a b c d = ucast a OR push_bit 8 (ucast b) OR push_bit 16 (ucast c) OR push_bit 24 (ucast d)"

definition u32_at :: "bytes \<Rightarrow> nat \<Rightarrow> u32" where
  "u32_at buf i = u32_of4 (byte_at buf i) (byte_at buf (i + 1)) (byte_at buf (i + 2)) (byte_at buf (i + 3))"

definition be32_at :: "bytes \<Rightarrow> nat \<Rightarrow> u32" where
  "be32_at buf i = u32_of4 (byte_at buf (i + 3)) (byte_at buf (i + 2)) (byte_at buf (i + 1)) (byte_at buf i)"

lemma length_le32 [simp]: "length (le32 w) = 4"
  by (simp add: le32_def)

lemma u32_of4_le32:
  "u32_of4 (ucast w) (ucast (drop_bit 8 w)) (ucast (drop_bit 16 w)) (ucast (drop_bit 24 w)) = w"
proof (rule bit_word_eqI)
  fix n assume n: "n < LENGTH(32)"
  consider "n < 8" | "8 \<le> n" "n < 16" | "16 \<le> n" "n < 24" | "24 \<le> n" by linarith
  then show "bit (u32_of4 (ucast w) (ucast (drop_bit 8 w)) (ucast (drop_bit 16 w))
      (ucast (drop_bit 24 w))) n = bit w n"
    using n by cases (auto simp: u32_of4_def bit_simps)
qed

text \<open>\<open>store_at buf i bs\<close> is the buffer after the bytes \<open>bs\<close> were stored at index \<open>i\<close>.\<close>

definition store_at :: "'a list \<Rightarrow> nat \<Rightarrow> 'a list \<Rightarrow> 'a list" where
  "store_at buf i bs = take i buf @ bs @ drop (i + length bs) buf"

lemma length_store_at [simp]: "i + length bs \<le> length buf \<Longrightarrow> length (store_at buf i bs) = length buf"
  by (simp add: store_at_def)

lemma nth_store_at:
  "i + length bs \<le> length buf \<Longrightarrow> k < length buf \<Longrightarrow> store_at buf i bs ! k =
     (if i \<le> k \<and> k < i + length bs then bs ! (k - i) else buf ! k)"
  by (auto simp: store_at_def nth_append min_def)

lemma take_drop_store_at:
  "i + length bs \<le> length buf \<Longrightarrow> take (length bs) (drop i (store_at buf i bs)) = bs"
  by (simp add: store_at_def)

section \<open>Cyclic redundancy checks\<close>

text \<open>
  The 32 bit cyclic redundancy check bit by bit, as the kernel and the tools compute it with
  tables. A table of a linear function is spanned by the values at the powers of two.
\<close>

definition crc32_step :: "u32 \<Rightarrow> u32" where
  "crc32_step v = drop_bit 1 v XOR (if odd v then 0xedb88320 else 0)"

definition crc32_ref :: "u32 \<Rightarrow> bytes \<Rightarrow> u32" where
  "crc32_ref v bs = fold (\<lambda>b v. (crc32_step ^^ 8) (v XOR ucast b)) bs v"

fun xor_span :: "'a::len word list \<Rightarrow> 'a word list" where
  "xor_span [] = [0]"
| "xor_span (b # bs) = (let t = xor_span bs in t @ map (\<lambda>x. x XOR b) t)"

lemma length_xor_span: "length (xor_span bs) = 2 ^ length bs"
  by (induction bs) (simp_all add: Let_def)

lemma xor_disjoint_bit:
  assumes "j < 2 ^ n"
  shows "(of_nat (2 ^ n + j) :: 'a::len word) = of_nat j XOR of_nat (2 ^ n)"
proof -
  have "\<not> bit j n" using assms(1) by (simp add: bit_iff_odd)
  then have "\<not> bit (of_nat j :: 'a word) n" by (simp add: bit_of_nat_iff)
  then have "(of_nat j :: 'a word) AND of_nat (2 ^ n) = 0"
    by (intro bit_word_eqI) (auto simp: bit_and_iff bit_exp_iff)
  then have "of_nat j + (of_nat (2 ^ n) :: 'a word) = of_nat j XOR of_nat (2 ^ n)"
    by (metis disjunctive_xor_eq_or disjunctive_add_eq_or)
  then show ?thesis by (simp add: add.commute)
qed

lemma xor_span_linear:
  fixes f :: "'a::len word \<Rightarrow> 'b::len word"
  assumes f: "\<And>a b. f (a XOR b) = f a XOR f b" and "n \<le> LENGTH('a)" "m < 2 ^ n"
  shows "xor_span (map (\<lambda>k. f (of_nat (2 ^ k))) (rev [0..<n])) ! m = f (of_nat m)"
  using assms(2,3)
proof (induction n arbitrary: m)
  case 0
  have "f 0 = 0" using f[of 0 0] by simp
  then show ?case using 0 by simp
next
  case (Suc n)
  let ?T = "xor_span (map (\<lambda>k. f (of_nat (2 ^ k))) (rev [0..<n]))"
  have len: "length ?T = 2 ^ n" by (simp add: length_xor_span)
  show ?case
  proof (cases "m < 2 ^ n")
    case True
    then show ?thesis using Suc len by (simp add: Let_def nth_append)
  next
    case False
    then obtain j where m: "m = 2 ^ n + j" by (metis le_Suc_ex not_less)
    then have j: "j < 2 ^ n" using Suc.prems by simp
    have "f (of_nat m) = ?T ! j XOR f (of_nat (2 ^ n))"
      using Suc.IH[of j] Suc.prems(1) j f by (simp only: m xor_disjoint_bit)
    then show ?thesis using m j len by (simp add: Let_def nth_append)
  qed
qed

section \<open>Lists\<close>

lemma sorted_list_upt_filter_lt:
  "i < j \<Longrightarrow> j < length (filter P [a..<b]) \<Longrightarrow> filter P [a..<b] ! i < filter P [a..<b] ! j"
proof -
  assume ij: "i < j" "j < length (filter P [a..<b])"
  have "sorted_wrt (<) (filter P [a..<b])"
    by (intro sorted_wrt_filter) (simp add: sorted_wrt_upt)
  then show ?thesis
    using ij by (simp add: sorted_wrt_iff_nth_less)
qed

lemma nth_list_update_if:
  "xs[i := v] ! j = (if i = j \<and> i < length xs then v else xs ! j)"
  by (cases "i < length xs") (auto simp: nth_list_update list_update_beyond)

section \<open>Blocks of addresses\<close>

lemma in_block_iff:
  assumes "0 < (B::nat)"
  shows "q * B \<le> y \<and> y < q * B + B \<longleftrightarrow> y div B = q"
proof
  assume "q * B \<le> y \<and> y < q * B + B"
  then show "y div B = q" by (intro div_nat_eqI) (simp_all add: mult.commute)
next
  assume "y div B = q"
  then show "q * B \<le> y \<and> y < q * B + B"
    using assms dividend_less_div_times[of B y] div_times_less_eq_dividend[of y B] by auto
qed

end
