(* ===== verification/Bmt_Core.thy ===== *)
theory Bmt_Core
  imports Prelude
begin

text \<open>
  The bad block management layer of the MediaTek NAND driver: the common part
  (\<^verbatim>\<open>mtk_bmt.c\<close>, \<^verbatim>\<open>mtk_bmt.h\<close>).

  The layer sits between the MTD core and a raw NAND driver. Its state is the global
  \<^verbatim>\<open>struct bmt_desc bmtd\<close> and the \<^verbatim>\<open>struct mtd_info\<close> it is attached to; both are
  fields of one record here, together with the state \<open>dev\<close> of the chip. The raw driver is
  not part of the sources: its five callbacks are the record \<open>nand_ops\<close>, a parameter of
  every definition that calls them. The table of functions \<^verbatim>\<open>struct mtk_bmt_ops\<close> that
  selects one of the three mapping schemes is the record \<open>mtk_bmt_ops\<close>.

  Left out: messages, debugfs registration, and memory allocation failures other than the
  ones the code reports.
\<close>

section \<open>The raw NAND driver\<close>

text \<open>
  \<^verbatim>\<open>struct mtd_oob_ops\<close>, split into the request and what the driver reports back. The
  buffers are byte lists: \<open>rq_dat\<close> and \<open>rq_oob\<close> are what a write is given,
  \<open>rr_dat\<close> and \<open>rr_oob\<close> what a read stored.
\<close>

record oob_rq =
  rq_mode :: nat
  rq_ooboffs :: nat
  rq_ooblen :: nat
  rq_len :: nat
  rq_dat :: bytes
  rq_oob :: bytes

record rd_res =
  rr_ret :: int
  rr_retlen :: nat
  rr_oobretlen :: nat
  rr_dat :: bytes
  rr_oob :: bytes

record wr_res =
  wr_ret :: int
  wr_retlen :: nat
  wr_oobretlen :: nat

record 'd nand_ops =
  nd_read_oob :: "'d \<Rightarrow> nat \<Rightarrow> oob_rq \<Rightarrow> rd_res \<times> 'd"
  nd_write_oob :: "'d \<Rightarrow> nat \<Rightarrow> oob_rq \<Rightarrow> wr_res \<times> 'd"
  nd_erase :: "'d \<Rightarrow> nat \<Rightarrow> nat \<Rightarrow> int \<times> 'd"
  nd_block_isbad :: "'d \<Rightarrow> nat \<Rightarrow> int \<times> 'd"
  nd_block_markbad :: "'d \<Rightarrow> nat \<Rightarrow> int \<times> 'd"

definition MTD_OPS_PLACE_OOB :: nat where
  "MTD_OPS_PLACE_OOB = 0"

definition mtd_is_bitflip :: "int \<Rightarrow> bool" where
  "mtd_is_bitflip err \<longleftrightarrow> err = - EUCLEAN"

section \<open>State\<close>

text \<open>
  The tables of the version 2 scheme (\<^verbatim>\<open>struct bbmt\<close>, \<^verbatim>\<open>struct bbbt\<close> with the
  trailing \<^verbatim>\<open>bmt_tbl\<close>).
\<close>

record bbmt =
  bm_block :: nat
  bm_mapped :: nat

record bbbt =
  bb_signature :: bytes
  bb_version :: nat
  bb_tbl :: "nat list"
  bmt_tbl :: "bbmt list"

text \<open>
  A callback slot of \<^verbatim>\<open>struct mtd_info\<close> holds either a function of the raw driver or
  the function of this layer that replaces it.
\<close>

datatype mtd_cb = CbRaw | CbBmt

record mtd_cbs =
  cb_read_oob :: mtd_cb
  cb_write_oob :: mtd_cb
  cb_erase :: mtd_cb
  cb_block_isbad :: mtd_cb
  cb_block_markbad :: mtd_cb

datatype bmt_scheme = SchemeV2 | SchemeNmbm | SchemeBbt

text \<open>
  The instance of the NMBM scheme and the structures it stores on the chip. Fields of
  stored structures and counters are words; block addresses and sizes are natural numbers.
  The member \<^verbatim>\<open>page_cache\<close> points to \<^verbatim>\<open>bmtd.data_buf\<close> and is that field here; the
  padding of the signature is the member of that name and the four bytes that align the
  structure.
\<close>

record nmbm_header =
  nh_magic :: u32
  nh_version :: u32
  nh_size :: u32
  nh_checksum :: u32

record nmbm_signature =
  sg_header :: nmbm_header
  sg_nand_size :: "64 word"
  sg_block_size :: u32
  sg_page_size :: u32
  sg_spare_size :: u32
  sg_mgmt_start_pb :: u32
  sg_max_try_count :: u8
  sg_padding :: bytes

record nmbm_info_table_header =
  it_header :: nmbm_header
  it_write_count :: u32
  it_state_table_off :: u32
  it_mapping_table_off :: u32
  it_padding :: u32

record nmbm_instance =
  rawpage_size :: nat
  rawblock_size :: nat
  rawchip_size :: nat
  signature :: nmbm_signature
  info_table_cache :: bytes
  info_table_size :: nat
  info_table_spare_blocks :: nat
  info_table :: nmbm_info_table_header
  block_state :: "u32 list"
  block_state_changed :: u32
  state_table_size :: nat
  block_mapping :: "int list"
  block_mapping_changed :: u32
  mapping_table_size :: nat
  protected :: bool
  block_count :: nat
  data_block_count :: nat
  mgmt_start_ba :: nat
  main_table_ba :: nat
  backup_table_ba :: nat
  mapping_blocks_ba :: nat
  mapping_blocks_top_ba :: nat
  signature_ba :: nat
  max_ratio :: nat
  max_reserved_blocks :: nat
  empty_page_ecc_ok :: bool
  force_create :: bool

text \<open>The instance of all zeros: fresh memory, and what stands for no instance.\<close>

definition zero_header :: nmbm_header where
  "zero_header = \<lparr>nh_magic = 0, nh_version = 0, nh_size = 0, nh_checksum = 0\<rparr>"

definition zero_instance :: nmbm_instance where
  "zero_instance =
     \<lparr>rawpage_size = 0, rawblock_size = 0, rawchip_size = 0,
      signature = \<lparr>sg_header = zero_header, sg_nand_size = 0, sg_block_size = 0, sg_page_size = 0,
                   sg_spare_size = 0, sg_mgmt_start_pb = 0, sg_max_try_count = 0,
                   sg_padding = replicate 7 0\<rparr>,
      info_table_cache = [], info_table_size = 0, info_table_spare_blocks = 0,
      info_table = \<lparr>it_header = zero_header, it_write_count = 0, it_state_table_off = 0,
                    it_mapping_table_off = 0, it_padding = 0\<rparr>,
      block_state = [], block_state_changed = 0, state_table_size = 0, block_mapping = [],
      block_mapping_changed = 0, mapping_table_size = 0, protected = False, block_count = 0,
      data_block_count = 0, mgmt_start_ba = 0, main_table_ba = 0, backup_table_ba = 0,
      mapping_blocks_ba = 0, mapping_blocks_top_ba = 0, signature_ba = 0, max_ratio = 0,
      max_reserved_blocks = 0, empty_page_ecc_ok = False, force_create = False\<rparr>"

text \<open>
  The static data of the EcoNet scheme (\<^verbatim>\<open>en75_bmt.c\<close>, \<^verbatim>\<open>struct en75_bmt_m\<close> without the
  pointer to \<^verbatim>\<open>bmtd\<close>): the two tables as they are stored, the blocks of the reserve area,
  the ranges in which blocks may be replaced. \<open>em_workspace\<close> is the table of the static
  variable of \<^verbatim>\<open>try_parse_bbt\<close>; \<open>em_fault\<close> is set when the code stores behind the end of an
  array.
\<close>

record en75_bbt =
  ft_signature :: bytes
  ft_checksum :: nat
  ft_version :: nat
  ft_size :: nat
  ft_reserved :: bytes
  ft_table :: "nat list"

record en75_bmt =
  mt_signature :: bytes
  mt_version :: nat
  mt_bad_count :: nat
  mt_size :: nat
  mt_checksum :: nat
  mt_reserved :: bytes
  mt_table :: "(nat \<times> nat) list"

datatype block_status = BS_INVALID | BS_AVAILABLE | BS_BAD | BS_MAPPED | BS_BMT | BS_BBT | BS_NEED_ERASE

record block_info =
  bi_index :: nat
  bi_status :: block_status

record en75_bmt_m =
  em_bbt :: en75_bbt
  em_bbt_table_size :: nat
  em_bmt :: en75_bmt
  em_rblocks :: "block_info list"
  em_reserve_area_begin :: nat
  em_can_remap_ranges :: "(nat \<times> nat) list"
  em_bbt_dirty :: int
  em_bmt_dirty :: int
  em_can_write_factory_bbt :: bool
  em_workspace :: "nat list"
  em_fault :: bool

definition zero_en75 :: en75_bmt_m where
  "zero_en75 =
     \<lparr>em_bbt = \<lparr>ft_signature = replicate 4 0, ft_checksum = 0, ft_version = 0, ft_size = 0,
                ft_reserved = [0, 0], ft_table = replicate 1000 0\<rparr>,
      em_bbt_table_size = 0,
      em_bmt = \<lparr>mt_signature = replicate 3 0, mt_version = 0, mt_bad_count = 0, mt_size = 0,
                mt_checksum = 0, mt_reserved = replicate 13 0, mt_table = replicate 256 (0, 0)\<rparr>,
      em_rblocks = [], em_reserve_area_begin = 0, em_can_remap_ranges = [], em_bbt_dirty = 0,
      em_bmt_dirty = 0, em_can_write_factory_bbt = False, em_workspace = replicate 1000 0, em_fault = False\<rparr>"

text \<open>
  The members \<^verbatim>\<open>bbt\<close> and \<^verbatim>\<open>ni\<close> share their memory in the source; only the one of the
  selected scheme is used. They are two fields here.
\<close>

record 'd bmt_st =
  dev :: 'd
  \<comment> \<open>\<^verbatim>\<open>struct mtd_info\<close>\<close>
  mtd_size :: nat
  mtd_erasesize :: nat
  mtd_writesize :: nat
  mtd_oobsize :: nat
  mtd_bitflip_threshold :: nat
  mtd_ecc_strength :: nat
  mtd_ops :: mtd_cbs
  \<comment> \<open>\<^verbatim>\<open>struct bmt_desc\<close>\<close>
  attached :: bool
  scheme :: "bmt_scheme option"
  saved_ops :: "mtd_cbs option"
  bbt_buf :: bytes
  data_buf :: bytes
  bbt :: "bbbt option"
  ni :: nmbm_instance
  table_size :: nat
  pg_size :: nat
  blk_size :: nat
  pg_shift :: nat
  blk_shift :: nat
  pool_lba :: nat
  pool_pba :: nat
  bb_max :: nat
  total_blks :: nat
  bmt_blk_idx :: nat
  bmt_pgs :: nat
  remap_range :: "(nat \<times> nat) list"
  oob_offset :: nat
  \<comment> \<open>static data of \<^verbatim>\<open>en75_bmt.c\<close>\<close>
  en75 :: en75_bmt_m

type_synonym 'd remap_fn = "nat \<Rightarrow> nat \<Rightarrow> int \<Rightarrow> 'd bmt_st \<Rightarrow> bool \<times> 'd bmt_st"

record 'd mtk_bmt_ops =
  op_sig :: bytes
  op_remap_block :: "'d remap_fn"
  op_unmap_block :: "nat \<Rightarrow> 'd bmt_st \<Rightarrow> 'd bmt_st"
  op_get_mapping_block :: "int \<Rightarrow> 'd bmt_st \<Rightarrow> int"
  op_debug :: "nat \<Rightarrow> 'd bmt_st \<Rightarrow> int \<times> 'd bmt_st"

section \<open>NAND operation wrappers\<close>

definition blk_pg :: "'d bmt_st \<Rightarrow> nat \<Rightarrow> nat" where
  "blk_pg s block = to_u32 (int (block * 2 ^ (blk_shift s - pg_shift s)))"

text \<open>
  \<^verbatim>\<open>bbt_nand_read\<close>: returns the error code (bit flips are only logged), the bytes stored
  in the data and out-of-band buffers, and the new state. The page address is computed in
  32 bits.
\<close>

definition bbt_nand_read ::
  "'d nand_ops \<Rightarrow> nat \<Rightarrow> nat \<Rightarrow> nat \<Rightarrow> 'd bmt_st \<Rightarrow> int \<times> bytes \<times> bytes \<times> 'd bmt_st" where
  "bbt_nand_read nd page dat_len fdm_len s =
     (let (r, d) = nd_read_oob nd (dev s) (to_u32 (int (page * 2 ^ pg_shift s)))
            \<lparr>rq_mode = MTD_OPS_PLACE_OOB, rq_ooboffs = oob_offset s, rq_ooblen = fdm_len,
             rq_len = dat_len, rq_dat = [], rq_oob = []\<rparr>
      in (if rr_ret r < 0 then rr_ret r else 0, rr_dat r, rr_oob r, s\<lparr>dev := d\<rparr>))"

definition bbt_nand_erase :: "'d nand_ops \<Rightarrow> nat \<Rightarrow> 'd bmt_st \<Rightarrow> int \<times> 'd bmt_st" where
  "bbt_nand_erase nd block s =
     (let (ret, d) = nd_erase nd (dev s) (block * 2 ^ blk_shift s) (blk_size s)
      in (ret, s\<lparr>dev := d\<rparr>))"

definition OOB_SIGNATURE_OFFSET :: nat where
  "OOB_SIGNATURE_OFFSET = 1"

definition write_bmt ::
  "'d nand_ops \<Rightarrow> bytes \<Rightarrow> nat \<Rightarrow> bytes \<Rightarrow> 'd bmt_st \<Rightarrow> int \<times> 'd bmt_st" where
  "write_bmt nd sig block dat s =
     (let (r, d) = nd_write_oob nd (dev s) (block * 2 ^ blk_shift s)
            \<lparr>rq_mode = MTD_OPS_PLACE_OOB, rq_ooboffs = OOB_SIGNATURE_OFFSET + oob_offset s,
             rq_ooblen = length sig, rq_len = bmt_pgs s * 2 ^ pg_shift s,
             rq_dat = dat, rq_oob = sig\<rparr>
      in (wr_ret r, s\<lparr>dev := d\<rparr>))"

text \<open>
  \<^verbatim>\<open>bbt_nand_copy\<close>: copies a block page by page. The write request of each page is set
  up with an out-of-band length of zero; the source stores the length that was read into the
  request only after the write was issued.
\<close>

fun bbt_nand_copy_loop ::
  "'d nand_ops \<Rightarrow> nat \<Rightarrow> nat \<Rightarrow> nat \<Rightarrow> nat \<Rightarrow> nat \<Rightarrow> int \<Rightarrow> 'd bmt_st \<Rightarrow> int \<times> 'd bmt_st" where
  "bbt_nand_copy_loop nd 0 pages src dest offset max_offset s = (0, s)"
| "bbt_nand_copy_loop nd (Suc n) pages src dest offset max_offset s =
     (if int offset \<ge> max_offset then (0, s)
      else
        (let (r, d) = nd_read_oob nd (dev s) (src + offset)
               \<lparr>rq_mode = MTD_OPS_PLACE_OOB, rq_ooboffs = 0,
                rq_ooblen = min (mtd_oobsize s div pages) 64, rq_len = pg_size s,
                rq_dat = [], rq_oob = []\<rparr>;
             s1 = s\<lparr>dev := d, data_buf := overlay (data_buf s) (rr_dat r)\<rparr>
         in if rr_ret r < 0 \<and> \<not> mtd_is_bitflip (rr_ret r) then (rr_ret r, s1)
            else if rr_retlen r = 0 then (0, s1)
            else
              (let (w, d') = nd_write_oob nd (dev s1) (dest + offset)
                     \<lparr>rq_mode = MTD_OPS_PLACE_OOB, rq_ooboffs = 0, rq_ooblen = 0,
                      rq_len = pg_size s, rq_dat = take (pg_size s) (data_buf s1),
                      rq_oob = rr_oob r\<rparr>;
                   s2 = s1\<lparr>dev := d'\<rparr>
               in if wr_ret w < 0 then (wr_ret w, s2)
                  else bbt_nand_copy_loop nd n pages src dest (offset + rr_retlen r)
                         max_offset s2)))"

definition bbt_nand_copy ::
  "'d nand_ops \<Rightarrow> nat \<Rightarrow> nat \<Rightarrow> int \<Rightarrow> 'd bmt_st \<Rightarrow> int \<times> 'd bmt_st" where
  "bbt_nand_copy nd dest_blk src_blk max_offset s =
     (let pages = blk_size s div 2 ^ pg_shift s
      in bbt_nand_copy_loop nd pages pages (src_blk * 2 ^ blk_shift s)
           (dest_blk * 2 ^ blk_shift s) 0 max_offset s)"

section \<open>Remapping range\<close>

text \<open>
  \<^verbatim>\<open>mapping_block_in_range\<close> returns the two output parameters when the result is true.
  Without a range in the device tree they are block numbers; with one they are the byte
  addresses of the range that holds the block.
\<close>

fun find_range :: "nat \<Rightarrow> (nat \<times> nat) list \<Rightarrow> (int \<times> int) option" where
  "find_range addr [] = None"
| "find_range addr ((lo, hi) # rs) =
     (if addr < lo \<or> addr \<ge> hi then find_range addr rs
      else Some (to_s32 (int lo), to_s32 (int hi)))"

definition mapping_block_in_range :: "int \<Rightarrow> 'd bmt_st \<Rightarrow> (int \<times> int) option" where
  "mapping_block_in_range block s =
     (let addr = to_u32 (block * 2 ^ blk_shift s)
      in if remap_range s = [] then Some (0, int (total_blks s))
         else find_range addr (remap_range s))"

definition mtk_bmt_remap_block ::
  "'d mtk_bmt_ops \<Rightarrow> nat \<Rightarrow> nat \<Rightarrow> int \<Rightarrow> 'd bmt_st \<Rightarrow> bool \<times> 'd bmt_st" where
  "mtk_bmt_remap_block ops block mapped_block copy_len s =
     (case mapping_block_in_range (to_s32 (int block)) s of
        None \<Rightarrow> (False, s)
      | Some _ \<Rightarrow> op_remap_block ops (to_u16 (int block)) (to_u16 (int mapped_block)) copy_len s)"

section \<open>Reading\<close>

text \<open>
  The variables of \<^verbatim>\<open>mtk_bmt_read\<close> that live across iterations: the caller's
  \<^verbatim>\<open>ops->retlen\<close> and \<^verbatim>\<open>ops->oobretlen\<close>, the out-of-band window of
  \<^verbatim>\<open>cur_ops\<close>, the address and the status. The data pointers of \<^verbatim>\<open>cur_ops\<close>
  advance by what was read, so the buffers filled so far are \<open>rl_dat\<close> and \<open>rl_oob\<close>.
\<close>

record rd_loop =
  rl_from :: nat
  rl_retlen :: nat
  rl_oobretlen :: nat
  rl_dat :: bytes
  rl_oob :: bytes
  rl_ooboffs :: nat
  rl_ooblen :: nat
  rl_ret :: int
  rl_max_bitflips :: int
  rl_retry :: nat

definition rd_result :: "rd_loop \<Rightarrow> int" where
  "rd_result l = (if rl_ret l < 0 then rl_ret l else rl_max_bitflips l)"

text \<open>
  One iteration of the loop. \<open>Inl\<close> leaves the function with a result, \<open>Inr\<close> goes
  on. The bit flip threshold is unsigned, so the comparison converts the driver's result. Here
  and in the step of a write, a request has less than 4 GiB, so \<^verbatim>\<open>min_t(u32, ...)\<close> truncates
  nothing, and the driver does not report more out-of-band bytes than were asked for.
\<close>

definition mtk_bmt_read_step ::
  "'d nand_ops \<Rightarrow> 'd mtk_bmt_ops \<Rightarrow> oob_rq \<Rightarrow> rd_loop \<Rightarrow> 'd bmt_st \<Rightarrow>
   (int \<times> rd_loop + rd_loop) \<times> 'd bmt_st" where
  "mtk_bmt_read_step nd ops rq l s =
     (let offset = rl_from l mod blk_size s;
          block = to_u32 (int (rl_from l div 2 ^ blk_shift s));
          cur_block = op_get_mapping_block ops (to_s32 (int block)) s
      in if cur_block < 0 then (Inl (- EIO, l), s)
         else
           (let cur_from = nat cur_block * 2 ^ blk_shift s + offset;
                cur_len = min (mtd_erasesize s - offset) (rq_len rq - rl_retlen l);
                (r, d) = nd_read_oob nd (dev s) cur_from
                  (rq\<lparr>rq_ooboffs := rl_ooboffs l, rq_ooblen := rl_ooblen l, rq_len := cur_len\<rparr>);
                s1 = s\<lparr>dev := d\<rparr>;
                cur_ret = rr_ret r;
                l1 = (if cur_ret < 0 then l\<lparr>rl_ret := cur_ret\<rparr>
                      else l\<lparr>rl_max_bitflips := max (rl_max_bitflips l) cur_ret\<rparr>)
            in if cur_ret < 0 \<and> \<not> mtd_is_bitflip cur_ret then
                 (let (ok, s2) = mtk_bmt_remap_block ops block (nat cur_block)
                                   (int (mtd_erasesize s)) s1
                  in if ok then
                       (if rl_retry l1 < 10
                        then (Inr (l1\<lparr>rl_retry := rl_retry l1 + 1\<rparr>), s2)
                        else (let l2 = l1\<lparr>rl_retry := rl_retry l1 + 1\<rparr>
                              in (Inl (rd_result l2, l2), s2)))
                     else (Inl (rd_result l1, l1), s2))
               else
                 (let s2 = (if mtd_bitflip_threshold s \<noteq> 0 \<and>
                               to_u32 cur_ret \<ge> mtd_bitflip_threshold s
                            then snd (mtk_bmt_remap_block ops block (nat cur_block)
                                        (int (mtd_erasesize s)) s1)
                            else s1)
                  in (Inr (l1\<lparr>rl_retlen := rl_retlen l1 + rr_retlen r,
                              rl_oobretlen := rl_oobretlen l1 + rr_oobretlen r,
                              rl_ooboffs := 0,
                              rl_dat := rl_dat l1 @ take (rr_retlen r) (rr_dat r),
                              rl_oob := rl_oob l1 @ take (rr_oobretlen r) (rr_oob r),
                              rl_ooblen := rl_ooblen l1 - rr_oobretlen r,
                              rl_from := rl_from l1 +
                                (if cur_len = 0 then mtd_erasesize s - offset else cur_len),
                              rl_retry := 0\<rparr>), s2))))"

text \<open>
  The loop. It runs on fuel, because nothing in the code bounds it when the driver reports
  success without any progress; \<^term>\<open>None\<close> means that the fuel ran out.
\<close>

fun mtk_bmt_read_loop ::
  "nat \<Rightarrow> 'd nand_ops \<Rightarrow> 'd mtk_bmt_ops \<Rightarrow> oob_rq \<Rightarrow> rd_loop \<Rightarrow> 'd bmt_st \<Rightarrow>
   (int \<times> rd_loop \<times> 'd bmt_st) option" where
  "mtk_bmt_read_loop 0 nd ops rq l s = None"
| "mtk_bmt_read_loop (Suc fuel) nd ops rq l s =
     (if rl_retlen l < rq_len rq \<or> rl_oobretlen l < rq_ooblen rq then
        (case mtk_bmt_read_step nd ops rq l s of
           (Inl (ret, l'), s') \<Rightarrow> Some (ret, l', s')
         | (Inr l', s') \<Rightarrow> mtk_bmt_read_loop fuel nd ops rq l' s')
      else Some (rd_result l, l, s))"

definition mtk_bmt_read ::
  "nat \<Rightarrow> 'd nand_ops \<Rightarrow> 'd mtk_bmt_ops \<Rightarrow> nat \<Rightarrow> oob_rq \<Rightarrow> 'd bmt_st \<Rightarrow>
   (int \<times> rd_loop \<times> 'd bmt_st) option" where
  "mtk_bmt_read fuel nd ops from rq s =
     mtk_bmt_read_loop fuel nd ops rq
       \<lparr>rl_from = from, rl_retlen = 0, rl_oobretlen = 0, rl_dat = [], rl_oob = [],
        rl_ooboffs = rq_ooboffs rq, rl_ooblen = rq_ooblen rq, rl_ret = 0,
        rl_max_bitflips = 0, rl_retry = 0\<rparr> s"

section \<open>Writing\<close>

record wr_loop =
  wl_to :: nat
  wl_retlen :: nat
  wl_oobretlen :: nat
  wl_ooboffs :: nat
  wl_ooblen :: nat
  wl_retry :: nat

definition mtk_bmt_write_step ::
  "'d nand_ops \<Rightarrow> 'd mtk_bmt_ops \<Rightarrow> oob_rq \<Rightarrow> wr_loop \<Rightarrow> 'd bmt_st \<Rightarrow>
   (int + wr_loop) \<times> 'd bmt_st" where
  "mtk_bmt_write_step nd ops rq l s =
     (let offset = wl_to l mod blk_size s;
          block = to_u32 (int (wl_to l div 2 ^ blk_shift s));
          cur_block = op_get_mapping_block ops (to_s32 (int block)) s
      in if cur_block < 0 then (Inl (- EIO), s)
         else
           (let cur_to = nat cur_block * 2 ^ blk_shift s + offset;
                cur_len = min (blk_size s - offset) (rq_len rq - wl_retlen l);
                (r, d) = nd_write_oob nd (dev s) cur_to
                  (rq\<lparr>rq_ooboffs := wl_ooboffs l, rq_ooblen := wl_ooblen l, rq_len := cur_len,
                      rq_dat := drop (wl_retlen l) (rq_dat rq),
                      rq_oob := drop (wl_oobretlen l) (rq_oob rq)\<rparr>);
                s1 = s\<lparr>dev := d\<rparr>
            in if wr_ret r < 0 then
                 (let (ok, s2) = mtk_bmt_remap_block ops block (nat cur_block) (int offset) s1
                  in if ok \<and> wl_retry l < 10
                     then (Inr (l\<lparr>wl_retry := wl_retry l + 1\<rparr>), s2)
                     else (Inl (wr_ret r), s2))
               else
                 (Inr (l\<lparr>wl_retlen := wl_retlen l + wr_retlen r,
                         wl_oobretlen := wl_oobretlen l + wr_oobretlen r,
                         wl_ooboffs := 0,
                         wl_ooblen := wl_ooblen l - wr_oobretlen r,
                         wl_to := wl_to l +
                           (if cur_len = 0 then mtd_erasesize s - offset else cur_len),
                         wl_retry := 0\<rparr>), s1)))"

fun mtk_bmt_write_loop ::
  "nat \<Rightarrow> 'd nand_ops \<Rightarrow> 'd mtk_bmt_ops \<Rightarrow> oob_rq \<Rightarrow> wr_loop \<Rightarrow> 'd bmt_st \<Rightarrow>
   (int \<times> wr_loop \<times> 'd bmt_st) option" where
  "mtk_bmt_write_loop 0 nd ops rq l s = None"
| "mtk_bmt_write_loop (Suc fuel) nd ops rq l s =
     (if wl_retlen l < rq_len rq \<or> wl_oobretlen l < rq_ooblen rq then
        (case mtk_bmt_write_step nd ops rq l s of
           (Inl ret, s') \<Rightarrow> Some (ret, l, s')
         | (Inr l', s') \<Rightarrow> mtk_bmt_write_loop fuel nd ops rq l' s')
      else Some (0, l, s))"

definition mtk_bmt_write ::
  "nat \<Rightarrow> 'd nand_ops \<Rightarrow> 'd mtk_bmt_ops \<Rightarrow> nat \<Rightarrow> oob_rq \<Rightarrow> 'd bmt_st \<Rightarrow>
   (int \<times> wr_loop \<times> 'd bmt_st) option" where
  "mtk_bmt_write fuel nd ops to rq s =
     mtk_bmt_write_loop fuel nd ops rq
       \<lparr>wl_to = to, wl_retlen = 0, wl_oobretlen = 0, wl_ooboffs = rq_ooboffs rq,
        wl_ooblen = rq_ooblen rq, wl_retry = 0\<rparr> s"

section \<open>Erasing\<close>

text \<open>
  \<^verbatim>\<open>mtk_bmt_mtd_erase\<close>. The mask \<^verbatim>\<open>~mtd->erasesize_mask\<close> is a 32 bit value, so the
  start address loses its upper half. The result is what the last driver call returned; it
  starts as the argument \<open>ret0\<close>, because the variable of the source has no initial value.
  The second component is \<^verbatim>\<open>instr->fail_addr\<close> when the loop gives up.
\<close>

definition erase_start :: "'d bmt_st \<Rightarrow> nat \<Rightarrow> nat" where
  "erase_start s a = a mod 4294967296 - (a mod 4294967296) mod mtd_erasesize s"

fun mtk_bmt_erase_loop ::
  "nat \<Rightarrow> 'd nand_ops \<Rightarrow> 'd mtk_bmt_ops \<Rightarrow> nat \<Rightarrow> nat \<Rightarrow> nat \<Rightarrow> int \<Rightarrow> 'd bmt_st \<Rightarrow>
   (int \<times> nat option \<times> 'd bmt_st) option" where
  "mtk_bmt_erase_loop 0 nd ops start_addr end_addr retry ret s = None"
| "mtk_bmt_erase_loop (Suc fuel) nd ops start_addr end_addr retry ret s =
     (if start_addr < end_addr then
        (let orig_block = to_u16 (int (start_addr div 2 ^ blk_shift s));
             block = op_get_mapping_block ops (int orig_block) s
         in if block < 0 then Some (- EIO, None, s)
            else
              (let (r, d) = nd_erase nd (dev s) (nat block * 2 ^ blk_shift s) (blk_size s);
                   s1 = s\<lparr>dev := d\<rparr>
               in if r \<noteq> 0 then
                    (let (ok, s2) = mtk_bmt_remap_block ops orig_block (nat block) 0 s1
                     in if ok \<and> retry < 10
                        then mtk_bmt_erase_loop fuel nd ops start_addr end_addr (retry + 1) r s2
                        else Some (r, Some start_addr, s2))
                  else mtk_bmt_erase_loop fuel nd ops (start_addr + mtd_erasesize s) end_addr
                         0 r s1))
      else Some (ret, None, s))"

definition mtk_bmt_mtd_erase ::
  "nat \<Rightarrow> 'd nand_ops \<Rightarrow> 'd mtk_bmt_ops \<Rightarrow> nat \<Rightarrow> nat \<Rightarrow> int \<Rightarrow> 'd bmt_st \<Rightarrow>
   (int \<times> nat option \<times> 'd bmt_st) option" where
  "mtk_bmt_mtd_erase fuel nd ops addr len ret0 s =
     mtk_bmt_erase_loop fuel nd ops (erase_start s addr) (addr + len) 0 ret0 s"

section \<open>Bad block queries\<close>

function mtk_bmt_isbad_loop ::
  "'d nand_ops \<Rightarrow> 'd mtk_bmt_ops \<Rightarrow> nat \<Rightarrow> nat \<Rightarrow> 'd bmt_st \<Rightarrow> int \<times> 'd bmt_st" where
  "mtk_bmt_isbad_loop nd ops orig_block retry s =
     (let block = to_u16 (op_get_mapping_block ops (int orig_block) s);
          (ret, d) = nd_block_isbad nd (dev s) (block * 2 ^ blk_shift s);
          s1 = s\<lparr>dev := d\<rparr>
      in if ret \<noteq> 0 then
           (let (ok, s2) = mtk_bmt_remap_block ops orig_block block (int (blk_size s)) s1
            in if ok \<and> retry < 10 then mtk_bmt_isbad_loop nd ops orig_block (retry + 1) s2
               else (ret, s2))
         else (ret, s1))"
  by pat_completeness auto
termination
  by (relation "measure (\<lambda>(nd, ops, b, retry, s). 10 - retry)") auto

declare mtk_bmt_isbad_loop.simps [simp del]

definition mtk_bmt_block_isbad ::
  "'d nand_ops \<Rightarrow> 'd mtk_bmt_ops \<Rightarrow> nat \<Rightarrow> 'd bmt_st \<Rightarrow> int \<times> 'd bmt_st" where
  "mtk_bmt_block_isbad nd ops ofs s =
     mtk_bmt_isbad_loop nd ops (to_u16 (int (ofs div 2 ^ blk_shift s))) 0 s"

definition mtk_bmt_block_markbad ::
  "'d nand_ops \<Rightarrow> 'd mtk_bmt_ops \<Rightarrow> nat \<Rightarrow> 'd bmt_st \<Rightarrow> int \<times> 'd bmt_st" where
  "mtk_bmt_block_markbad nd ops ofs s =
     (let orig_block = to_u16 (int (ofs div 2 ^ blk_shift s));
          block = op_get_mapping_block ops (int orig_block) s
      in if block < 0 then (- EIO, s)
         else
           (let s1 = snd (mtk_bmt_remap_block ops orig_block (nat block) (int (blk_size s)) s);
                (ret, d) = nd_block_markbad nd (dev s1) (nat block * 2 ^ blk_shift s1)
            in (ret, s1\<lparr>dev := d\<rparr>)))"

section \<open>The debugfs controls\<close>

definition mtk_bmt_debug_repair ::
  "'d nand_ops \<Rightarrow> 'd mtk_bmt_ops \<Rightarrow> nat \<Rightarrow> 'd bmt_st \<Rightarrow> int \<times> 'd bmt_st" where
  "mtk_bmt_debug_repair nd ops val s =
     (let block = to_s32 (int (val div 2 ^ blk_shift s));
          prev_block = op_get_mapping_block ops block s
      in if prev_block < 0 then (- EIO, s)
         else
           (let s1 = op_unmap_block ops (to_u16 block) s;
                new_block = op_get_mapping_block ops block s1
            in if new_block < 0 then (- EIO, s1)
               else if prev_block = new_block then (0, s1)
               else
                 (let s2 = snd (bbt_nand_erase nd (to_u16 new_block) s1);
                      s3 = snd (bbt_nand_copy nd (to_u16 new_block) (to_u16 prev_block)
                                  (int (blk_size s2)) s2)
                  in (0, s3))))"

definition mtk_bmt_debug_mark_good ::
  "'d mtk_bmt_ops \<Rightarrow> nat \<Rightarrow> 'd bmt_st \<Rightarrow> int \<times> 'd bmt_st" where
  "mtk_bmt_debug_mark_good ops val s =
     (0, op_unmap_block ops (to_u16 (int (val div 2 ^ blk_shift s))) s)"

definition mtk_bmt_debug_mark_bad ::
  "'d mtk_bmt_ops \<Rightarrow> nat \<Rightarrow> 'd bmt_st \<Rightarrow> int \<times> 'd bmt_st" where
  "mtk_bmt_debug_mark_bad ops val s =
     (let block = to_u32 (int (val div 2 ^ blk_shift s));
          cur_block = op_get_mapping_block ops (to_s32 (int block)) s
      in if cur_block < 0 then (- EIO, s)
         else (0, snd (mtk_bmt_remap_block ops block (nat cur_block) (int (blk_size s)) s)))"

section \<open>Attaching and detaching\<close>

text \<open>
  The device tree node is a record of the properties the code asks for. The initialisation
  of the chosen scheme is an argument.
\<close>

record dt_node =
  dt_bmt_v2 :: bool
  dt_nmbm :: bool
  dt_bbt :: bool
  dt_remap_range :: "(nat \<times> nat) list"
  dt_oobsize :: "nat option"
  dt_pool_size :: "nat option"
  dt_oob_offset :: "nat option"
  dt_table_size :: "nat option"
  dt_max_ratio :: "nat option"
  dt_max_reserved_blocks :: "nat option"
  dt_empty_page_ecc_protected :: bool
  dt_force_create :: bool

fun ffs :: "nat \<Rightarrow> nat" where
  "ffs n = (if n = 0 then 0 else if odd n then 1 else 1 + ffs (n div 2))"

declare ffs.simps [simp del]

definition mtk_bmt_replace_ops :: "'d bmt_st \<Rightarrow> 'd bmt_st" where
  "mtk_bmt_replace_ops s =
     s\<lparr>saved_ops := Some (mtd_ops s),
       mtd_ops := \<lparr>cb_read_oob = CbBmt, cb_write_oob = CbBmt, cb_erase = CbBmt,
                   cb_block_isbad = CbBmt, cb_block_markbad = CbBmt\<rparr>\<rparr>"

text \<open>\<^verbatim>\<open>n << shift\<close> is computed as an \<^verbatim>\<open>int\<close> and stored in 64 bits.\<close>

definition size_of_blocks :: "nat \<Rightarrow> nat \<Rightarrow> nat" where
  "size_of_blocks n sh = nat (to_s32 (int (n * 2 ^ sh)) mod 18446744073709551616)"

definition mtk_bmt_detach :: "'d bmt_st \<Rightarrow> 'd bmt_st" where
  "mtk_bmt_detach s =
     (if \<not> attached s then s
      else
        s\<lparr>mtd_ops := (case saved_ops s of Some c \<Rightarrow> c | None \<Rightarrow> mtd_ops s),
          mtd_size := size_of_blocks (total_blks s) (blk_shift s),
          attached := False, scheme := None, saved_ops := None, bbt_buf := [], data_buf := [],
          bbt := None, ni := zero_instance, table_size := 0, pg_size := 0, blk_size := 0, pg_shift := 0,
          blk_shift := 0, pool_lba := 0, pool_pba := 0, bb_max := 0, total_blks := 0,
          bmt_blk_idx := 0, bmt_pgs := 0, remap_range := [], oob_offset := 0\<rparr>)"

definition choose_scheme :: "dt_node \<Rightarrow> bmt_scheme option" where
  "choose_scheme np =
     (if dt_bmt_v2 np then Some SchemeV2
      else if dt_nmbm np then Some SchemeNmbm
      else if dt_bbt np then Some SchemeBbt
      else None)"

definition mtk_bmt_attach ::
  "(bmt_scheme \<Rightarrow> dt_node \<Rightarrow> 'd bmt_st \<Rightarrow> int \<times> 'd bmt_st) \<Rightarrow> bool \<Rightarrow> dt_node option \<Rightarrow>
   'd bmt_st \<Rightarrow> int \<times> 'd bmt_st" where
  "mtk_bmt_attach init alloc_ok np s =
     (if attached s then (- ENOSPC, s)
      else case np of None \<Rightarrow> (0, s) | Some np \<Rightarrow>
        (case choose_scheme np of None \<Rightarrow> (0, s) | Some sch \<Rightarrow>
           (let s1 = mtk_bmt_replace_ops
                       (s\<lparr>scheme := Some sch, remap_range := dt_remap_range np, attached := True\<rparr>);
                s2 = (case dt_oobsize np of None \<Rightarrow> s1
                      | Some n \<Rightarrow> if n < mtd_oobsize s1 then s1\<lparr>mtd_oobsize := n\<rparr> else s1);
                s3 = s2\<lparr>blk_size := mtd_erasesize s2, blk_shift := ffs (mtd_erasesize s2) - 1,
                        pg_size := mtd_writesize s2, pg_shift := ffs (mtd_writesize s2) - 1\<rparr>;
                s4 = s3\<lparr>total_blks := to_u16 (int (mtd_size s3 div 2 ^ blk_shift s3))\<rparr>
            in if \<not> alloc_ok then (- 1, mtk_bmt_detach s4)
               else
                 (let s5 = s4\<lparr>data_buf := replicate (pg_size s4 + mtd_oobsize s4) (- 1)\<rparr>;
                      (ret, s6) = init sch np s5
                  in if ret \<noteq> 0 then (ret, mtk_bmt_detach s6) else (0, s6)))))"

section \<open>What a chip promises\<close>

text \<open>
  The content of a chip is a function \<open>mem\<close> from addresses to bytes. A chip is reliable when
  reads return the content and leave it, writes to erased bytes store their data and nothing
  else, erasing a range sets its bytes to \<^verbatim>\<open>0xff\<close> and nothing else, and none of them
  fails. Nothing is promised of a write to bytes that are not erased.
\<close>

definition reads_ok :: "'d nand_ops \<Rightarrow> ('d \<Rightarrow> nat \<Rightarrow> u8) \<Rightarrow> bool" where
  "reads_ok nd mem \<longleftrightarrow>
     (\<forall>d a rq r d'. nd_read_oob nd d a rq = (r, d') \<longrightarrow>
        rr_ret r = 0 \<and> rr_retlen r = rq_len rq \<and>
        rr_dat r = map (mem d) [a..<a + rq_len rq] \<and> mem d' = mem d)"

definition writes_ok :: "'d nand_ops \<Rightarrow> ('d \<Rightarrow> nat \<Rightarrow> u8) \<Rightarrow> bool" where
  "writes_ok nd mem \<longleftrightarrow>
     (\<forall>d a rq w d'. nd_write_oob nd d a rq = (w, d') \<longrightarrow>
        rq_len rq \<le> length (rq_dat rq) \<longrightarrow>
        (\<forall>x. a \<le> x \<and> x < a + rq_len rq \<longrightarrow> mem d x = - 1) \<longrightarrow>
        wr_ret w = 0 \<and> wr_retlen w = rq_len rq \<and>
        mem d' = (\<lambda>x. if a \<le> x \<and> x < a + rq_len rq then rq_dat rq ! (x - a) else mem d x))"

definition erases_ok :: "'d nand_ops \<Rightarrow> ('d \<Rightarrow> nat \<Rightarrow> u8) \<Rightarrow> bool" where
  "erases_ok nd mem \<longleftrightarrow>
     (\<forall>d a n e d'. nd_erase nd d a n = (e, d') \<longrightarrow>
        e = 0 \<and> mem d' = (\<lambda>x. if a \<le> x \<and> x < a + n then - 1 else mem d x))"

definition reliable_chip :: "'d nand_ops \<Rightarrow> ('d \<Rightarrow> nat \<Rightarrow> u8) \<Rightarrow> bool" where
  "reliable_chip nd mem \<longleftrightarrow> reads_ok nd mem \<and> writes_ok nd mem \<and> erases_ok nd mem"

text \<open>The geometry that \<^verbatim>\<open>mtk_bmt_attach\<close> computes for a chip of at most 4 GiB.\<close>

definition bmt_geometry :: "'d bmt_st \<Rightarrow> bool" where
  "bmt_geometry s \<longleftrightarrow>
     blk_size s = 2 ^ blk_shift s \<and> mtd_erasesize s = 2 ^ blk_shift s \<and>
     total_blks s < 65536 \<and> total_blks s * 2 ^ blk_shift s \<le> 4294967296"

text \<open>
  The logical device: the physical address behind a logical one, and the byte that the layer
  presents at a logical address.
\<close>

definition bmt_phys :: "'d mtk_bmt_ops \<Rightarrow> 'd bmt_st \<Rightarrow> nat \<Rightarrow> nat" where
  "bmt_phys ops s x =
     nat (op_get_mapping_block ops (int (x div 2 ^ blk_shift s)) s) * 2 ^ blk_shift s
     + x mod 2 ^ blk_shift s"

definition bmt_logical ::
  "'d mtk_bmt_ops \<Rightarrow> ('d \<Rightarrow> nat \<Rightarrow> u8) \<Rightarrow> 'd bmt_st \<Rightarrow> nat \<Rightarrow> u8" where
  "bmt_logical ops mem s x = mem (dev s) (bmt_phys ops s x)"

lemma reliable_read:
  assumes "reliable_chip nd mem" "nd_read_oob nd d a rq = (r, d')"
  shows "rr_ret r = 0 \<and> rr_retlen r = rq_len rq \<and>
         rr_dat r = map (mem d) [a..<a + rq_len rq] \<and> mem d' = mem d"
  using assms unfolding reliable_chip_def reads_ok_def by blast

lemma reliable_write:
  assumes "reliable_chip nd mem" "nd_write_oob nd d a rq = (w, d')"
    and "rq_len rq \<le> length (rq_dat rq)"
    and "\<And>x. a \<le> x \<Longrightarrow> x < a + rq_len rq \<Longrightarrow> mem d x = - 1"
  shows "wr_ret w = 0 \<and> wr_retlen w = rq_len rq \<and>
         mem d' = (\<lambda>x. if a \<le> x \<and> x < a + rq_len rq then rq_dat rq ! (x - a) else mem d x)"
  using assms unfolding reliable_chip_def writes_ok_def by blast

lemma reliable_erase:
  assumes "reliable_chip nd mem" "nd_erase nd d a n = (e, d')"
  shows "e = 0 \<and> mem d' = (\<lambda>x. if a \<le> x \<and> x < a + n then - 1 else mem d x)"
  using assms unfolding reliable_chip_def erases_ok_def by blast

lemma bmt_geometry_dev [simp]: "bmt_geometry (s\<lparr>dev := d\<rparr>) = bmt_geometry s"
  by (simp add: bmt_geometry_def)

section \<open>Chips with local effects\<close>

text \<open>
  What is promised of a chip that may fail: reading and the bad block marks leave the data
  alone, writing and erasing change only the bytes of their range, whether they succeed or
  not, and a read that succeeds delivers what was asked for.
\<close>

definition local_chip :: "'d nand_ops \<Rightarrow> ('d \<Rightarrow> nat \<Rightarrow> u8) \<Rightarrow> bool" where
  "local_chip nd mem \<longleftrightarrow>
     (\<forall>d a rq. mem (snd (nd_read_oob nd d a rq)) = mem d) \<and>
     (\<forall>d a. mem (snd (nd_block_isbad nd d a)) = mem d) \<and>
     (\<forall>d a. mem (snd (nd_block_markbad nd d a)) = mem d) \<and>
     (\<forall>d a rq x. \<not> (a \<le> x \<and> x < a + rq_len rq) \<longrightarrow> mem (snd (nd_write_oob nd d a rq)) x = mem d x) \<and>
     (\<forall>d a n x. \<not> (a \<le> x \<and> x < a + n) \<longrightarrow> mem (snd (nd_erase nd d a n)) x = mem d x) \<and>
     (\<forall>d a rq. 0 \<le> rr_ret (fst (nd_read_oob nd d a rq)) \<or> mtd_is_bitflip (rr_ret (fst (nd_read_oob nd d a rq))) \<longrightarrow>
        rr_retlen (fst (nd_read_oob nd d a rq)) = rq_len rq)"

text \<open>Copying a block changes only the destination.\<close>

lemma copy_loop_mem:
  assumes "local_chip nd mem" "0 < pg_size s" "pg_size s dvd B" "mx \<le> int B" "pg_size s dvd ofs"
    and "\<not> (dest \<le> x \<and> x < dest + B)"
  shows "mem (dev (snd (bbt_nand_copy_loop nd n pages src dest ofs mx s))) x = mem (dev s) x"
  using assms
proof (induction n arbitrary: ofs s)
  case (Suc n)
  define rq where "rq = \<lparr>rq_mode = MTD_OPS_PLACE_OOB, rq_ooboffs = 0,
      rq_ooblen = min (mtd_oobsize s div pages) 64, rq_len = pg_size s, rq_dat = [], rq_oob = []\<rparr>"
  obtain r d where rd: "nd_read_oob nd (dev s) (src + ofs) rq = (r, d)" by fastforce
  define s1 where "s1 = s\<lparr>dev := d, data_buf := overlay (data_buf s) (rr_dat r)\<rparr>"
  define wq where "wq = \<lparr>rq_mode = MTD_OPS_PLACE_OOB, rq_ooboffs = 0, rq_ooblen = 0, rq_len = pg_size s,
      rq_dat = take (pg_size s) (data_buf s1), rq_oob = rr_oob r\<rparr>"
  obtain w d' where wr: "nd_write_oob nd d (dest + ofs) wq = (w, d')" by fastforce
  have m1: "mem d = mem (dev s)"
    using Suc.prems(1) rd unfolding local_chip_def by (metis snd_conv)
  show ?case
  proof (cases "int ofs \<ge> mx \<or> (rr_ret r < 0 \<and> \<not> mtd_is_bitflip (rr_ret r)) \<or> rr_retlen r = 0")
    case True
    then show ?thesis by (auto simp: Let_def rd rq_def[symmetric] s1_def[symmetric] m1) (auto simp: s1_def m1)
  next
    case False
    have len: "rr_retlen r = pg_size s"
    proof -
      have "0 \<le> rr_ret (fst (nd_read_oob nd (dev s) (src + ofs) rq)) \<or>
          mtd_is_bitflip (rr_ret (fst (nd_read_oob nd (dev s) (src + ofs) rq)))"
        using False rd by auto
      then have "rr_retlen (fst (nd_read_oob nd (dev s) (src + ofs) rq)) = rq_len rq"
        using Suc.prems(1) unfolding local_chip_def by blast
      then show ?thesis using rd by (simp add: rq_def)
    qed
    have "ofs + pg_size s \<le> B"
    proof -
      obtain i k where "ofs = pg_size s * i" "B = pg_size s * k" using Suc.prems(3,5) by blast
      moreover have "ofs < B" using False Suc.prems(4) by linarith
      ultimately show ?thesis using Suc.prems(2) mult_le_mono2[of "Suc i" k "pg_size s"] by simp
    qed
    then have "\<not> (dest + ofs \<le> x \<and> x < dest + ofs + rq_len wq)"
      using Suc.prems(6) by (auto simp: wq_def)
    then have "mem (snd (nd_write_oob nd d (dest + ofs) wq)) x = mem d x"
      using Suc.prems(1) unfolding local_chip_def by blast
    then have m2: "mem d' x = mem (dev s) x" using wr m1 by simp
    have IH: "mem (dev (snd (bbt_nand_copy_loop nd n pages src dest (ofs + pg_size s) mx (s1\<lparr>dev := d'\<rparr>)))) x
        = mem (dev (s1\<lparr>dev := d'\<rparr>)) x"
      using Suc.prems by (intro Suc.IH) (simp_all add: s1_def)
    have "dev s1 = d" "pg_size s1 = pg_size s" by (simp_all add: s1_def)
    then have "bbt_nand_copy_loop nd (Suc n) pages src dest ofs mx s =
       (if wr_ret w < 0 then (wr_ret w, s1\<lparr>dev := d'\<rparr>)
        else bbt_nand_copy_loop nd n pages src dest (ofs + pg_size s) mx (s1\<lparr>dev := d'\<rparr>))"
      using False len by (auto simp add: Let_def rd rq_def[symmetric] s1_def[symmetric] wr wq_def[symmetric])
    then show ?thesis using IH m2 by simp
  qed
qed simp

section \<open>The interface to the mapping schemes\<close>

text \<open>
  What the common code needs of a mapping scheme: the logical blocks below \<open>nblk\<close> are
  mapped injectively into the chip, and the mapping is a function of the tables alone.
\<close>

locale bmt_backend =
  fixes ops :: "'d mtk_bmt_ops"
    and inv :: "'d bmt_st \<Rightarrow> bool"
    and nblk :: "'d bmt_st \<Rightarrow> nat"
  assumes nblk_le: "inv s \<Longrightarrow> nblk s \<le> total_blks s"
    and mapping_lt: "inv s \<Longrightarrow> x < nblk s \<Longrightarrow>
          0 \<le> op_get_mapping_block ops (int x) s \<and>
          op_get_mapping_block ops (int x) s < int (total_blks s)"
    and mapping_inj: "inv s \<Longrightarrow> x < nblk s \<Longrightarrow> y < nblk s \<Longrightarrow>
          op_get_mapping_block ops (int x) s = op_get_mapping_block ops (int y) s \<Longrightarrow> x = y"
    and mapping_dev: "op_get_mapping_block ops b (s\<lparr>dev := d\<rparr>) = op_get_mapping_block ops b s"
    and inv_dev: "inv s \<Longrightarrow> inv (s\<lparr>dev := d\<rparr>)"
    and nblk_dev: "nblk (s\<lparr>dev := d\<rparr>) = nblk s"
begin

lemma phys_dev [simp]: "bmt_phys ops (s\<lparr>dev := d\<rparr>) = bmt_phys ops s"
  by (simp add: bmt_phys_def mapping_dev fun_eq_iff)

lemma logical_dev [simp]:
  "mem d = mem (dev s) \<Longrightarrow> bmt_logical ops mem (s\<lparr>dev := d\<rparr>) = bmt_logical ops mem s"
  by (simp add: bmt_logical_def fun_eq_iff)

lemma phys_inj:
  assumes "inv s" "x < nblk s * 2 ^ blk_shift s" "y < nblk s * 2 ^ blk_shift s"
    and eq: "bmt_phys ops s x = bmt_phys ops s y"
  shows "x = y"
proof -
  let ?B = "2 ^ blk_shift s :: nat"
  have xb: "x div ?B < nblk s" "y div ?B < nblk s"
    using assms(2,3) by (simp_all add: less_mult_imp_div_less)
  have "bmt_phys ops s x div ?B = bmt_phys ops s y div ?B"
    "bmt_phys ops s x mod ?B = bmt_phys ops s y mod ?B"
    using eq by simp_all
  then have m: "x mod ?B = y mod ?B"
    and "nat (op_get_mapping_block ops (int (x div ?B)) s)
       = nat (op_get_mapping_block ops (int (y div ?B)) s)"
    by (simp_all add: bmt_phys_def)
  then have "op_get_mapping_block ops (int (x div ?B)) s
       = op_get_mapping_block ops (int (y div ?B)) s"
    using mapping_lt[OF assms(1) xb(1)] mapping_lt[OF assms(1) xb(2)] by linarith
  then have "x div ?B = y div ?B"
    by (rule mapping_inj[OF assms(1) xb])
  with m show ?thesis by (metis div_mult_mod_eq)
qed

lemma phys_block:
  assumes "a div 2 ^ blk_shift s = x div 2 ^ blk_shift s" "a \<le> x"
  shows "bmt_phys ops s x = bmt_phys ops s a + (x - a)"
proof -
  let ?B = "2 ^ blk_shift s :: nat"
  have "x = x div ?B * ?B + x mod ?B" "a = x div ?B * ?B + a mod ?B"
    using assms(1) by (metis div_mult_mod_eq)+
  then have "x mod ?B = a mod ?B + (x - a)" using assms(2) by linarith
  then show ?thesis using assms(1) by (simp add: bmt_phys_def)
qed

lemma same_block:
  assumes "k < 2 ^ blk_shift s - a mod 2 ^ blk_shift s"
  shows "(a + k) div 2 ^ blk_shift s = (a :: nat) div 2 ^ blk_shift (s :: 'd bmt_st)"
proof -
  let ?B = "2 ^ blk_shift s :: nat"
  have "a mod ?B + k < ?B" using assms by linarith
  then have "k < ?B" "(a mod ?B + k) div ?B = 0" by simp_all
  then show ?thesis by (subst div_add1_eq) simp
qed

lemma logical_chunk:
  assumes "n \<le> 2 ^ blk_shift s - a mod 2 ^ blk_shift s"
  shows "map (mem (dev s)) [bmt_phys ops s a..<bmt_phys ops s a + n]
       = map (bmt_logical ops mem s) [a..<a + n]"
proof (rule nth_equalityI)
  fix k assume "k < length (map (mem (dev s)) [bmt_phys ops s a..<bmt_phys ops s a + n])"
  then have k: "k < n" by simp
  then have "(a + k) div 2 ^ blk_shift s = a div 2 ^ blk_shift s"
    using assms by (intro same_block) linarith
  from phys_block[OF this[symmetric]] k
  show "map (mem (dev s)) [bmt_phys ops s a..<bmt_phys ops s a + n] ! k
      = map (bmt_logical ops mem s) [a..<a + n] ! k"
    by (simp add: bmt_logical_def)
qed simp

text \<open>The address arithmetic shared by the loops.\<close>

lemma block_of_address:
  assumes "inv s" "bmt_geometry s" "a < nblk s * 2 ^ blk_shift s"
  shows "to_u32 (int (a div 2 ^ blk_shift s)) = a div 2 ^ blk_shift s"
    and "to_s32 (int (a div 2 ^ blk_shift s)) = int (a div 2 ^ blk_shift s)"
    and "to_u16 (int (a div 2 ^ blk_shift s)) = a div 2 ^ blk_shift s"
    and "\<not> op_get_mapping_block ops (int (a div 2 ^ blk_shift s)) s < 0"
    and "a mod blk_size s = a mod 2 ^ blk_shift s"
    and "nat (op_get_mapping_block ops (int (a div 2 ^ blk_shift s)) s) * 2 ^ blk_shift s
         + a mod 2 ^ blk_shift s = bmt_phys ops s a"
proof -
  have b: "a div 2 ^ blk_shift s < nblk s"
    using assms(3) by (simp add: less_mult_imp_div_less)
  moreover have "nblk s < 65536"
    using nblk_le[OF assms(1)] assms(2) by (simp add: bmt_geometry_def)
  ultimately have lt: "a div 2 ^ blk_shift s < 65536" by linarith
  then show "to_u32 (int (a div 2 ^ blk_shift s)) = a div 2 ^ blk_shift s"
    and "to_s32 (int (a div 2 ^ blk_shift s)) = int (a div 2 ^ blk_shift s)"
    and "to_u16 (int (a div 2 ^ blk_shift s)) = a div 2 ^ blk_shift s"
    by (simp_all add: to_u32_of_nat to_u16_of_nat to_s32_id)
  show "\<not> op_get_mapping_block ops (int (a div 2 ^ blk_shift s)) s < 0"
    using mapping_lt[OF assms(1) b] by simp
  show "a mod blk_size s = a mod 2 ^ blk_shift s"
    using assms(2) by (simp add: bmt_geometry_def)
  show "nat (op_get_mapping_block ops (int (a div 2 ^ blk_shift s)) s) * 2 ^ blk_shift s
         + a mod 2 ^ blk_shift s = bmt_phys ops s a"
    by (simp add: bmt_phys_def)
qed

definition chunk :: "'d bmt_st \<Rightarrow> nat \<Rightarrow> nat \<Rightarrow> nat" where
  "chunk s a n = min (2 ^ blk_shift s - a mod 2 ^ blk_shift s) n"

lemma chunk_pos: "0 < n \<Longrightarrow> 0 < chunk s a n"
  by (simp add: chunk_def)

lemma read_step:
  assumes chip: "reliable_chip nd mem" and s: "inv s" "bmt_geometry s"
    and a: "rl_from l < nblk s * 2 ^ blk_shift s" and n: "rl_retlen l < rq_len rq"
    and ok: "rl_ret l = 0" "rl_max_bitflips l = 0"
  obtains l' d' where
    "mtk_bmt_read_step nd ops rq l s = (Inr l', s\<lparr>dev := d'\<rparr>)"
    "mem d' = mem (dev s)" "rl_ret l' = 0" "rl_max_bitflips l' = 0"
    "rl_from l' = rl_from l + chunk s (rl_from l) (rq_len rq - rl_retlen l)"
    "rl_retlen l' = rl_retlen l + chunk s (rl_from l) (rq_len rq - rl_retlen l)"
    "rl_dat l' = rl_dat l @ map (bmt_logical ops mem s)
       [rl_from l..<rl_from l + chunk s (rl_from l) (rq_len rq - rl_retlen l)]"
proof -
  define c where "c = chunk s (rl_from l) (rq_len rq - rl_retlen l)"
  have c: "min (mtd_erasesize s - rl_from l mod 2 ^ blk_shift s) (rq_len rq - rl_retlen l) = c"
    using s(2) by (simp add: c_def chunk_def bmt_geometry_def)
  have cpos: "c \<noteq> 0" using chunk_pos[of "rq_len rq - rl_retlen l" s] n by (simp add: c_def)
  define rq' where "rq' = rq\<lparr>rq_ooboffs := rl_ooboffs l, rq_ooblen := rl_ooblen l, rq_len := c\<rparr>"
  obtain r d' where rd: "nd_read_oob nd (dev s) (bmt_phys ops s (rl_from l)) rq' = (r, d')"
    by fastforce
  have R: "rr_ret r = 0" "rr_retlen r = c" "mem d' = mem (dev s)"
    "rr_dat r = map (mem (dev s)) [bmt_phys ops s (rl_from l)..<bmt_phys ops s (rl_from l) + c]"
    using reliable_read[OF chip rd] by (simp_all add: rq'_def)
  have dat: "rr_dat r = map (bmt_logical ops mem s) [rl_from l..<rl_from l + c]"
    unfolding R(4) by (rule logical_chunk) (simp add: c_def chunk_def)
  define l' where "l' = l\<lparr>rl_max_bitflips := max (rl_max_bitflips l) 0,
      rl_retlen := rl_retlen l + c, rl_oobretlen := rl_oobretlen l + rr_oobretlen r,
      rl_ooboffs := 0, rl_dat := rl_dat l @ take c (rr_dat r),
      rl_oob := rl_oob l @ take (rr_oobretlen r) (rr_oob r),
      rl_ooblen := rl_ooblen l - rr_oobretlen r, rl_from := rl_from l + c, rl_retry := 0\<rparr>"
  have "mtk_bmt_read_step nd ops rq l s = (Inr l', s\<lparr>dev := d'\<rparr>)"
    using R cpos ok
    by (auto simp: mtk_bmt_read_step_def Let_def block_of_address[OF s a] c rd rq'_def[symmetric]
        l'_def)
  then show ?thesis
    by (rule that) (simp_all add: l'_def R(3) dat ok flip: c_def)
qed

lemma read_loop:
  assumes "reliable_chip nd mem" and "inv s" "bmt_geometry s"
    and "rl_from l + (rq_len rq - rl_retlen l) \<le> nblk s * 2 ^ blk_shift s"
    and "rl_retlen l \<le> rq_len rq" and "rl_ret l = 0" "rl_max_bitflips l = 0"
    and "rq_ooblen rq = 0" and "rq_len rq - rl_retlen l < fuel"
  shows "\<exists>l' d'. mtk_bmt_read_loop fuel nd ops rq l s = Some (0, l', s\<lparr>dev := d'\<rparr>) \<and>
      mem d' = mem (dev s) \<and> rl_retlen l' = rq_len rq \<and>
      rl_dat l' = rl_dat l @ map (bmt_logical ops mem s)
        [rl_from l..<rl_from l + (rq_len rq - rl_retlen l)]"
  using assms
proof (induction fuel arbitrary: l s)
  case 0
  then show ?case by simp
next
  case (Suc fuel)
  show ?case
  proof (cases "rl_retlen l < rq_len rq")
    case False
    then have "mtk_bmt_read_loop (Suc fuel) nd ops rq l s = Some (0, l, s\<lparr>dev := dev s\<rparr>)"
      using Suc.prems by (simp add: rd_result_def)
    then show ?thesis using False Suc.prems by fastforce
  next
    case True
    define c where "c = chunk s (rl_from l) (rq_len rq - rl_retlen l)"
    have c: "0 < c" "c \<le> rq_len rq - rl_retlen l"
      using chunk_pos[of "rq_len rq - rl_retlen l" s] True by (auto simp: c_def chunk_def)
    have a: "rl_from l < nblk s * 2 ^ blk_shift s" using Suc.prems(4) True by linarith
    obtain l1 d1 where st: "mtk_bmt_read_step nd ops rq l s = (Inr l1, s\<lparr>dev := d1\<rparr>)"
      "mem d1 = mem (dev s)" "rl_ret l1 = 0" "rl_max_bitflips l1 = 0"
      "rl_from l1 = rl_from l + c" "rl_retlen l1 = rl_retlen l + c"
      "rl_dat l1 = rl_dat l @ map (bmt_logical ops mem s) [rl_from l..<rl_from l + c]"
      using read_step[OF Suc.prems(1-3) a True Suc.prems(6,7)] unfolding c_def by metis
    have "\<exists>l' d'. mtk_bmt_read_loop fuel nd ops rq l1 (s\<lparr>dev := d1\<rparr>)
          = Some (0, l', s\<lparr>dev := d1\<rparr>\<lparr>dev := d'\<rparr>) \<and>
        mem d' = mem (dev (s\<lparr>dev := d1\<rparr>)) \<and> rl_retlen l' = rq_len rq \<and>
        rl_dat l' = rl_dat l1 @ map (bmt_logical ops mem (s\<lparr>dev := d1\<rparr>))
          [rl_from l1..<rl_from l1 + (rq_len rq - rl_retlen l1)]"
      using Suc.prems st c by (intro Suc.IH) (simp_all add: inv_dev nblk_dev)
    moreover have "[rl_from l..<rl_from l + (rq_len rq - rl_retlen l)]
        = [rl_from l..<rl_from l + c] @ [rl_from l + c..<rl_from l + (rq_len rq - rl_retlen l)]"
      using c upt_add_eq_append[of "rl_from l" "rl_from l + c" "rq_len rq - rl_retlen l - c"]
      by simp
    ultimately show ?thesis
      using st c True by (auto simp: add.commute)
  qed
qed

lemma write_step:
  assumes chip: "reliable_chip nd mem" and s: "inv s" "bmt_geometry s"
    and a: "wl_to l < nblk s * 2 ^ blk_shift s" and n: "wl_retlen l < rq_len rq"
    and len: "rq_len rq \<le> length (rq_dat rq)"
    and blank: "\<And>x. wl_to l \<le> x \<Longrightarrow> x < wl_to l + (rq_len rq - wl_retlen l) \<Longrightarrow>
                  bmt_logical ops mem s x = - 1"
    and room: "wl_to l + (rq_len rq - wl_retlen l) \<le> nblk s * 2 ^ blk_shift s"
  obtains l' d' where
    "mtk_bmt_write_step nd ops rq l s = (Inr l', s\<lparr>dev := d'\<rparr>)"
    "wl_to l' = wl_to l + chunk s (wl_to l) (rq_len rq - wl_retlen l)"
    "wl_retlen l' = wl_retlen l + chunk s (wl_to l) (rq_len rq - wl_retlen l)"
    "\<And>x. x < nblk s * 2 ^ blk_shift s \<Longrightarrow> bmt_logical ops mem (s\<lparr>dev := d'\<rparr>) x =
       (if wl_to l \<le> x \<and> x < wl_to l + chunk s (wl_to l) (rq_len rq - wl_retlen l)
        then rq_dat rq ! (wl_retlen l + (x - wl_to l)) else bmt_logical ops mem s x)"
proof -
  define c where "c = chunk s (wl_to l) (rq_len rq - wl_retlen l)"
  let ?p = "bmt_phys ops s (wl_to l)"
  have c: "min (blk_size s - wl_to l mod 2 ^ blk_shift s) (rq_len rq - wl_retlen l) = c"
    using s(2) by (simp add: c_def chunk_def bmt_geometry_def)
  have cpos: "c \<noteq> 0" using chunk_pos[of "rq_len rq - wl_retlen l" s] n by (simp add: c_def)
  have cle: "c \<le> rq_len rq - wl_retlen l" "c \<le> 2 ^ blk_shift s - wl_to l mod 2 ^ blk_shift s"
    by (simp_all add: c_def chunk_def)
  define rq' where "rq' = rq\<lparr>rq_ooboffs := wl_ooboffs l, rq_ooblen := wl_ooblen l, rq_len := c,
    rq_dat := drop (wl_retlen l) (rq_dat rq), rq_oob := drop (wl_oobretlen l) (rq_oob rq)\<rparr>"
  obtain w d' where wr: "nd_write_oob nd (dev s) ?p rq' = (w, d')"
    by fastforce
  have ph: "bmt_phys ops s (wl_to l + k) = ?p + k" if "k < c" for k
    using phys_block[OF same_block[symmetric], of k s "wl_to l"] that cle by simp
  have "mem (dev s) x = - 1" if "?p \<le> x" "x < ?p + rq_len rq'" for x
  proof -
    have "x - ?p < c" using that cpos by (simp add: rq'_def)
    then show ?thesis
      using blank[of "wl_to l + (x - ?p)"] ph[of "x - ?p"] cle that by (simp add: bmt_logical_def)
  qed
  moreover have "rq_len rq' \<le> length (rq_dat rq')" using len cle n by (simp add: rq'_def)
  ultimately have W: "wr_ret w = 0" "wr_retlen w = c"
    "mem d' = (\<lambda>x. if ?p \<le> x \<and> x < ?p + c then drop (wl_retlen l) (rq_dat rq) ! (x - ?p)
                   else mem (dev s) x)"
    using reliable_write[OF chip wr] unfolding rq'_def by (simp_all cong: if_cong)
  define l' where "l' = l\<lparr>wl_retlen := wl_retlen l + c,
      wl_oobretlen := wl_oobretlen l + wr_oobretlen w, wl_ooboffs := 0,
      wl_ooblen := wl_ooblen l - wr_oobretlen w, wl_to := wl_to l + c, wl_retry := 0\<rparr>"
  have L: "bmt_logical ops mem (s\<lparr>dev := d'\<rparr>) x =
       (if wl_to l \<le> x \<and> x < wl_to l + c then rq_dat rq ! (wl_retlen l + (x - wl_to l))
        else bmt_logical ops mem s x)" if x: "x < nblk s * 2 ^ blk_shift s" for x
  proof (cases "wl_to l \<le> x \<and> x < wl_to l + c")
    case True
    then obtain k where k: "x = wl_to l + k" "k < c"
      by (metis le_Suc_ex nat_add_left_cancel_less)
    then show ?thesis using len cle n ph[OF k(2)] by (simp add: bmt_logical_def W(3))
  next
    case False
    have "\<not> (?p \<le> bmt_phys ops s x \<and> bmt_phys ops s x < ?p + c)"
    proof
      assume "?p \<le> bmt_phys ops s x \<and> bmt_phys ops s x < ?p + c"
      then obtain k where k: "bmt_phys ops s x = ?p + k" "k < c"
        by (metis le_Suc_ex nat_add_left_cancel_less)
      then have "bmt_phys ops s x = bmt_phys ops s (wl_to l + k)" using ph by simp
      then have "x = wl_to l + k" using phys_inj[OF s(1) x] room cle k by simp
      with False k show False by simp
    qed
    with False show ?thesis by (auto simp: bmt_logical_def W(3))
  qed
  have "mtk_bmt_write_step nd ops rq l s = (Inr l', s\<lparr>dev := d'\<rparr>)"
    using W cpos
    by (simp add: mtk_bmt_write_step_def Let_def block_of_address[OF s a] c wr rq'_def[symmetric]
        l'_def)
  then show ?thesis
    by (rule that) (simp_all add: l'_def c_def[symmetric] L)
qed

lemma write_loop:
  assumes "reliable_chip nd mem" and "inv s" "bmt_geometry s"
    and "wl_to l + (rq_len rq - wl_retlen l) \<le> nblk s * 2 ^ blk_shift s"
    and "wl_retlen l \<le> rq_len rq" and "rq_len rq \<le> length (rq_dat rq)"
    and "rq_ooblen rq = 0" and "rq_len rq - wl_retlen l < fuel"
    and "\<And>x. wl_to l \<le> x \<Longrightarrow> x < wl_to l + (rq_len rq - wl_retlen l) \<Longrightarrow>
           bmt_logical ops mem s x = - 1"
  shows "\<exists>l' d'. mtk_bmt_write_loop fuel nd ops rq l s = Some (0, l', s\<lparr>dev := d'\<rparr>) \<and>
      wl_retlen l' = rq_len rq \<and>
      (\<forall>x < nblk s * 2 ^ blk_shift s. bmt_logical ops mem (s\<lparr>dev := d'\<rparr>) x =
         (if wl_to l \<le> x \<and> x < wl_to l + (rq_len rq - wl_retlen l)
          then rq_dat rq ! (wl_retlen l + (x - wl_to l)) else bmt_logical ops mem s x))"
  using assms
proof (induction fuel arbitrary: l s)
  case 0
  then show ?case by simp
next
  case (Suc fuel)
  show ?case
  proof (cases "wl_retlen l < rq_len rq")
    case False
    then have "mtk_bmt_write_loop (Suc fuel) nd ops rq l s = Some (0, l, s\<lparr>dev := dev s\<rparr>)"
      using Suc.prems by simp
    then show ?thesis using False Suc.prems by fastforce
  next
    case True
    define c where "c = chunk s (wl_to l) (rq_len rq - wl_retlen l)"
    have c: "0 < c" "c \<le> rq_len rq - wl_retlen l"
      using chunk_pos[of "rq_len rq - wl_retlen l" s] True by (auto simp: c_def chunk_def)
    have a: "wl_to l < nblk s * 2 ^ blk_shift s" using Suc.prems(4) True by linarith
    obtain l1 d1 where st: "mtk_bmt_write_step nd ops rq l s = (Inr l1, s\<lparr>dev := d1\<rparr>)"
      "wl_to l1 = wl_to l + c" "wl_retlen l1 = wl_retlen l + c"
      and L: "\<And>x. x < nblk s * 2 ^ blk_shift s \<Longrightarrow> bmt_logical ops mem (s\<lparr>dev := d1\<rparr>) x =
       (if wl_to l \<le> x \<and> x < wl_to l + c
        then rq_dat rq ! (wl_retlen l + (x - wl_to l)) else bmt_logical ops mem s x)"
      using write_step[OF Suc.prems(1-3) a True Suc.prems(6,9,4)] unfolding c_def by metis
    have "\<exists>l' d'. mtk_bmt_write_loop fuel nd ops rq l1 (s\<lparr>dev := d1\<rparr>)
          = Some (0, l', s\<lparr>dev := d1\<rparr>\<lparr>dev := d'\<rparr>) \<and> wl_retlen l' = rq_len rq \<and>
      (\<forall>x < nblk (s\<lparr>dev := d1\<rparr>) * 2 ^ blk_shift (s\<lparr>dev := d1\<rparr>).
         bmt_logical ops mem (s\<lparr>dev := d1\<rparr>\<lparr>dev := d'\<rparr>) x =
         (if wl_to l1 \<le> x \<and> x < wl_to l1 + (rq_len rq - wl_retlen l1)
          then rq_dat rq ! (wl_retlen l1 + (x - wl_to l1))
          else bmt_logical ops mem (s\<lparr>dev := d1\<rparr>) x))"
      using Suc.prems st c L by (intro Suc.IH) (simp_all add: inv_dev nblk_dev)
    then obtain l' d' where
      "mtk_bmt_write_loop fuel nd ops rq l1 (s\<lparr>dev := d1\<rparr>) = Some (0, l', s\<lparr>dev := d'\<rparr>)"
      "wl_retlen l' = rq_len rq"
      and L': "\<And>x. x < nblk s * 2 ^ blk_shift s \<Longrightarrow> bmt_logical ops mem (s\<lparr>dev := d'\<rparr>) x =
         (if wl_to l1 \<le> x \<and> x < wl_to l1 + (rq_len rq - wl_retlen l1)
          then rq_dat rq ! (wl_retlen l1 + (x - wl_to l1))
          else bmt_logical ops mem (s\<lparr>dev := d1\<rparr>) x)"
      by (auto simp: nblk_dev)
    then have "mtk_bmt_write_loop (Suc fuel) nd ops rq l s = Some (0, l', s\<lparr>dev := d'\<rparr>)"
      using st(1) True by simp
    moreover have "bmt_logical ops mem (s\<lparr>dev := d'\<rparr>) x =
         (if wl_to l \<le> x \<and> x < wl_to l + (rq_len rq - wl_retlen l)
          then rq_dat rq ! (wl_retlen l + (x - wl_to l)) else bmt_logical ops mem s x)"
      if "x < nblk s * 2 ^ blk_shift s" for x
      using L'[OF that] L[OF that] st c by (auto intro!: arg_cong[where f = "(!) (rq_dat rq)"])
    ultimately show ?thesis
      using \<open>wl_retlen l' = rq_len rq\<close> by blast
  qed
qed

lemma erase_block_logical:
  assumes chip: "reliable_chip nd mem" and s: "inv s" "bmt_geometry s"
    and k: "k < nblk s"
    and er: "nd_erase nd (dev s) (nat (op_get_mapping_block ops (int k) s) * 2 ^ blk_shift s)
               (blk_size s) = (e, d')"
    and x: "x < nblk s * 2 ^ blk_shift s"
  shows "bmt_logical ops mem (s\<lparr>dev := d'\<rparr>) x =
     (if x div 2 ^ blk_shift s = k then - 1 else bmt_logical ops mem s x)"
proof -
  let ?B = "2 ^ blk_shift s :: nat"
  let ?m = "\<lambda>k. nat (op_get_mapping_block ops (int k) s)"
  have E: "mem d' = (\<lambda>y. if ?m k * ?B \<le> y \<and> y < ?m k * ?B + ?B then - 1 else mem (dev s) y)"
    using reliable_erase[OF chip er] s(2) by (simp add: bmt_geometry_def)
  have xd: "x div ?B < nblk s" using x by (simp add: less_mult_imp_div_less)
  have "bmt_phys ops s x div ?B = ?m (x div ?B)" by (simp add: bmt_phys_def)
  then have "?m k * ?B \<le> bmt_phys ops s x \<and> bmt_phys ops s x < ?m k * ?B + ?B \<longleftrightarrow>
      ?m (x div ?B) = ?m k"
    using in_block_iff[of ?B "?m k" "bmt_phys ops s x"] by simp
  also have "\<dots> \<longleftrightarrow> x div ?B = k"
    using mapping_inj[OF s(1) xd k] mapping_lt[OF s(1) xd] mapping_lt[OF s(1) k]
    by (auto simp: eq_nat_nat_iff)
  finally show ?thesis by (simp add: bmt_logical_def E)
qed

lemma erase_loop:
  assumes "reliable_chip nd mem" and "inv s" "bmt_geometry s"
    and "k + n \<le> nblk s" and "n < fuel"
  shows "\<exists>d'. mtk_bmt_erase_loop fuel nd ops (k * 2 ^ blk_shift s) ((k + n) * 2 ^ blk_shift s)
        0 ret s = Some (if n = 0 then ret else 0, None, s\<lparr>dev := d'\<rparr>) \<and>
      (\<forall>x < nblk s * 2 ^ blk_shift s. bmt_logical ops mem (s\<lparr>dev := d'\<rparr>) x =
         (if k \<le> x div 2 ^ blk_shift s \<and> x div 2 ^ blk_shift s < k + n then - 1
          else bmt_logical ops mem s x))"
  using assms
proof (induction fuel arbitrary: k n s ret)
  case 0
  then show ?case by simp
next
  case (Suc fuel)
  let ?B = "2 ^ blk_shift s :: nat"
  show ?case
  proof (cases n)
    case 0
    have "mtk_bmt_erase_loop (Suc fuel) nd ops (k * ?B) ((k + n) * ?B) 0 ret s
        = Some (ret, None, s\<lparr>dev := dev s\<rparr>)"
      using 0 by simp
    then show ?thesis using 0 by (intro exI[of _ "dev s"]) auto
  next
    case (Suc m)
    have k: "k < nblk s" using Suc.prems(4) Suc by simp
    then have kB: "k * ?B < nblk s * ?B" by simp
    obtain e d1 where er: "nd_erase nd (dev s)
        (nat (op_get_mapping_block ops (int k) s) * ?B) (blk_size s) = (e, d1)"
      by fastforce
    have e: "e = 0" using reliable_erase[OF Suc.prems(1) er] by simp
    note B = block_of_address[OF Suc.prems(2,3) kB, simplified]
    have lt: "k * ?B < (k + n) * ?B" by (rule mult_less_mono1) (simp_all add: Suc)
    have step: "mtk_bmt_erase_loop (Suc fuel) nd ops (k * ?B) ((k + n) * ?B) 0 ret s
        = mtk_bmt_erase_loop fuel nd ops (Suc k * ?B) ((Suc k + m) * ?B) 0 0 (s\<lparr>dev := d1\<rparr>)"
      using Suc.prems(3) B er e lt Suc
      by (auto simp: Let_def bmt_geometry_def add.commute)
    have "\<exists>d'. mtk_bmt_erase_loop fuel nd ops (Suc k * 2 ^ blk_shift (s\<lparr>dev := d1\<rparr>))
        ((Suc k + m) * 2 ^ blk_shift (s\<lparr>dev := d1\<rparr>)) 0 0 (s\<lparr>dev := d1\<rparr>)
        = Some (if m = 0 then 0 else 0, None, s\<lparr>dev := d1\<rparr>\<lparr>dev := d'\<rparr>) \<and>
      (\<forall>x < nblk (s\<lparr>dev := d1\<rparr>) * 2 ^ blk_shift (s\<lparr>dev := d1\<rparr>).
         bmt_logical ops mem (s\<lparr>dev := d1\<rparr>\<lparr>dev := d'\<rparr>) x =
         (if Suc k \<le> x div 2 ^ blk_shift (s\<lparr>dev := d1\<rparr>) \<and>
             x div 2 ^ blk_shift (s\<lparr>dev := d1\<rparr>) < Suc k + m then - 1
          else bmt_logical ops mem (s\<lparr>dev := d1\<rparr>) x))"
      using Suc.prems Suc by (intro Suc.IH) (simp_all add: inv_dev nblk_dev)
    then obtain d' where
      rest: "mtk_bmt_erase_loop fuel nd ops (Suc k * ?B) ((Suc k + m) * ?B) 0 0 (s\<lparr>dev := d1\<rparr>)
        = Some (0, None, s\<lparr>dev := d'\<rparr>)"
      and L: "\<And>x. x < nblk s * ?B \<Longrightarrow> bmt_logical ops mem (s\<lparr>dev := d'\<rparr>) x =
         (if Suc k \<le> x div ?B \<and> x div ?B < Suc k + m then - 1
          else bmt_logical ops mem (s\<lparr>dev := d1\<rparr>) x)"
      by (auto simp: nblk_dev)
    have "bmt_logical ops mem (s\<lparr>dev := d'\<rparr>) x =
        (if k \<le> x div ?B \<and> x div ?B < k + n then - 1 else bmt_logical ops mem s x)"
      if x: "x < nblk s * ?B" for x
      using L[OF x] erase_block_logical[OF Suc.prems(1-3) k er x] Suc by auto
    then show ?thesis using step rest Suc by auto
  qed
qed

text \<open>The contracts of the three operations of the layer on a chip without faults.\<close>

lemma read_contract:
  assumes "reliable_chip nd mem" "inv s" "bmt_geometry s"
    and "from + rq_len rq \<le> nblk s * 2 ^ blk_shift s" "rq_ooblen rq = 0" "rq_len rq < fuel"
  shows "\<exists>l d. mtk_bmt_read fuel nd ops from rq s = Some (0, l, s\<lparr>dev := d\<rparr>) \<and>
     mem d = mem (dev s) \<and> rl_retlen l = rq_len rq \<and>
     rl_dat l = map (bmt_logical ops mem s) [from..<from + rq_len rq]"
  unfolding mtk_bmt_read_def
  by (rule exE[OF read_loop[where l = "\<lparr>rl_from = from, rl_retlen = 0, rl_oobretlen = 0, rl_dat = [],
        rl_oob = [], rl_ooboffs = rq_ooboffs rq, rl_ooblen = rq_ooblen rq, rl_ret = 0,
        rl_max_bitflips = 0, rl_retry = 0\<rparr>", OF assms(1-3)]]) (use assms(4-6) in auto)

lemma write_contract:
  assumes "reliable_chip nd mem" "inv s" "bmt_geometry s"
    and "to + rq_len rq \<le> nblk s * 2 ^ blk_shift s" "rq_len rq \<le> length (rq_dat rq)"
    and "rq_ooblen rq = 0" "rq_len rq < fuel"
    and "\<And>x. to \<le> x \<Longrightarrow> x < to + rq_len rq \<Longrightarrow> bmt_logical ops mem s x = - 1"
  shows "\<exists>l d. mtk_bmt_write fuel nd ops to rq s = Some (0, l, s\<lparr>dev := d\<rparr>) \<and>
     wl_retlen l = rq_len rq \<and>
     (\<forall>x < nblk s * 2 ^ blk_shift s. bmt_logical ops mem (s\<lparr>dev := d\<rparr>) x =
        (if to \<le> x \<and> x < to + rq_len rq then rq_dat rq ! (x - to) else bmt_logical ops mem s x))"
proof -
  define l0 where "l0 = \<lparr>wl_to = to, wl_retlen = 0, wl_oobretlen = 0,
        wl_ooboffs = rq_ooboffs rq, wl_ooblen = rq_ooblen rq, wl_retry = 0\<rparr>"
  have l0: "wl_to l0 = to" "wl_retlen l0 = 0" by (simp_all add: l0_def)
  show ?thesis
    unfolding mtk_bmt_write_def l0_def[symmetric]
    using write_loop[OF assms(1-3), of l0 rq fuel] assms(4-8) by (simp add: l0 cong: if_cong)
qed

lemma erase_contract:
  assumes "reliable_chip nd mem" "inv s" "bmt_geometry s" and "k + n \<le> nblk s" "n < fuel" "0 < n"
  shows "\<exists>d. mtk_bmt_mtd_erase fuel nd ops (k * 2 ^ blk_shift s) (n * 2 ^ blk_shift s) ret0 s
       = Some (0, None, s\<lparr>dev := d\<rparr>) \<and>
     (\<forall>x < nblk s * 2 ^ blk_shift s. bmt_logical ops mem (s\<lparr>dev := d\<rparr>) x =
        (if k \<le> x div 2 ^ blk_shift s \<and> x div 2 ^ blk_shift s < k + n then - 1
         else bmt_logical ops mem s x))"
proof -
  have "k < total_blks s" using assms(4,6) nblk_le[OF assms(2)] by linarith
  then have "k * 2 ^ blk_shift s < total_blks s * 2 ^ blk_shift s" by simp
  then have "k * 2 ^ blk_shift s < 4294967296"
    using assms(3) unfolding bmt_geometry_def by linarith
  then have "erase_start s (k * 2 ^ blk_shift s) = k * 2 ^ blk_shift s"
    using assms(3) by (simp add: erase_start_def bmt_geometry_def)
  then show ?thesis
    using erase_loop[OF assms(1-5), of ret0] assms(6)
    by (simp add: mtk_bmt_mtd_erase_def add_mult_distrib)
qed

end

section \<open>Schemes that survive every failure\<close>

lemma bbt_nand_erase_dev: "\<exists>d. snd (bbt_nand_erase nd blk s) = s\<lparr>dev := d\<rparr>"
  by (auto simp: bbt_nand_erase_def split: prod.split)

lemma write_bmt_dev: "\<exists>d. snd (write_bmt nd sig blk dat s) = s\<lparr>dev := d\<rparr>"
  by (auto simp: write_bmt_def Let_def split: prod.split)

lemma bbt_nand_erase_erasesize [simp]:
  "mtd_erasesize (snd (bbt_nand_erase nd blk s)) = mtd_erasesize s"
  by (rule exE[OF bbt_nand_erase_dev[of nd blk s]]) simp

lemma bbt_nand_copy_loop_scratch:
  "\<exists>x d. snd (bbt_nand_copy_loop nd n pages src dest ofs mx s) = s\<lparr>data_buf := x, dev := d\<rparr>"
proof (induction n arbitrary: ofs s)
  case 0
  show ?case by (intro exI[of _ "data_buf s"] exI[of _ "dev s"]) simp
next
  case (Suc n)
  have same: "\<exists>x d. s = s\<lparr>data_buf := x, dev := d\<rparr>"
    by (intro exI[of _ "data_buf s"] exI[of _ "dev s"]) simp
  have upd: "\<exists>x' d'. s\<lparr>data_buf := x, dev := d\<rparr> = s\<lparr>data_buf := x', dev := d'\<rparr>" for x d
    by blast
  have IH: "\<exists>x' d'. snd (bbt_nand_copy_loop nd n pages src dest ofs' mx (s\<lparr>data_buf := x, dev := d\<rparr>))
      = s\<lparr>data_buf := x', dev := d'\<rparr>" for d x ofs'
    using Suc.IH[of ofs' "s\<lparr>data_buf := x, dev := d\<rparr>"] by simp
  have swap: "s\<lparr>dev := d, data_buf := x\<rparr> = s\<lparr>data_buf := x, dev := d\<rparr>" for d x
    by simp
  show ?case
    using same by (simp add: Let_def IH upd swap split: prod.split)
qed

lemma bbt_nand_copy_scratch:
  "\<exists>x d. snd (bbt_nand_copy nd a b mx s) = s\<lparr>data_buf := x, dev := d\<rparr>"
  unfolding bbt_nand_copy_def Let_def by (rule bbt_nand_copy_loop_scratch)

lemma bbt_nand_copy_erasesize [simp]:
  "mtd_erasesize (snd (bbt_nand_copy nd a b mx s)) = mtd_erasesize s"
proof -
  obtain x d where "snd (bbt_nand_copy nd a b mx s) = s\<lparr>data_buf := x, dev := d\<rparr>"
    using bbt_nand_copy_scratch by metis
  then show ?thesis by simp
qed

text \<open>
  A scheme whose invariant is kept by every change of the mapping, whatever the driver
  answers. Then every operation of the common code keeps it.
\<close>

locale bmt_backend_total = bmt_backend +
  assumes inv_data_buf: "inv s \<Longrightarrow> inv (s\<lparr>data_buf := x\<rparr>)"
    and inv_remap: "inv s \<Longrightarrow> b < 65536 \<Longrightarrow> m < 65536 \<Longrightarrow> inv (snd (op_remap_block ops b m c s))"
    and inv_unmap: "inv s \<Longrightarrow> b < 65536 \<Longrightarrow> inv (op_unmap_block ops b s)"
    and remap_erasesize: "mtd_erasesize (snd (op_remap_block ops b m c s)) = mtd_erasesize s"
begin

lemma erase_returns:
  assumes "0 < E" and "mtd_erasesize s = E" and "e \<le> a + n * E" and "retry \<le> 10"
    and "11 * n + 1 \<le> fuel + retry" "0 < fuel"
  shows "\<exists>r f s'. mtk_bmt_erase_loop fuel nd ops a e retry ret s = Some (r, f, s')"
  using assms
proof (induction fuel arbitrary: a n retry ret s)
  case 0
  then show ?case by simp
next
  case (Suc fuel)
  show ?case
  proof (cases "a < e")
    case False
    then show ?thesis by simp
  next
    case True
    then obtain m where n: "n = Suc m" using Suc.prems(3) by (cases n) auto
    have fuel: "0 < fuel" using Suc.prems(4,5) n by linarith
    have onward: "\<exists>r' f s'. mtk_bmt_erase_loop fuel nd ops (a + E) e 0 r t = Some (r', f, s')"
      if "mtd_erasesize t = E" for r t
      using Suc.prems that n fuel by (intro Suc.IH[where n = m]) simp_all
    have again: "\<exists>r' f s'. mtk_bmt_erase_loop fuel nd ops a e (Suc retry) r t = Some (r', f, s')"
      if "mtd_erasesize t = E" "retry < 10" for r t
      using Suc.prems that fuel by (intro Suc.IH[where n = n]) simp_all
    have E: "mtd_erasesize (snd (mtk_bmt_remap_block ops b m c (s\<lparr>dev := d\<rparr>))) = E" for b m c d
      using Suc.prems(2) by (simp add: mtk_bmt_remap_block_def remap_erasesize split: option.split)
    have E': "mtd_erasesize s2 = E"
      if "mtk_bmt_remap_block ops b m c (s\<lparr>dev := d\<rparr>) = (ok, s2)" for b m c d ok s2
      using E[of b m c d] that by simp
    show ?thesis
      using True
      by (auto simp: Let_def Suc.prems(2) split: prod.split intro!: onward again intro: E')
  qed
qed

lemma remap_inv: "inv s \<Longrightarrow> mtk_bmt_remap_block ops b m c s = (ok, s') \<Longrightarrow> inv s'"
  using inv_remap[of s "to_u16 (int b)" "to_u16 (int m)" c]
  by (auto simp: mtk_bmt_remap_block_def split: option.splits)

lemma remap_inv_snd: "inv s \<Longrightarrow> inv (snd (mtk_bmt_remap_block ops b m c s))"
  using remap_inv by (metis prod.collapse)

lemma read_step_inv: "inv s \<Longrightarrow> mtk_bmt_read_step nd ops rq l s = (x, s') \<Longrightarrow> inv s'"
  by (auto simp: mtk_bmt_read_step_def Let_def inv_dev split: prod.splits if_splits
      dest: remap_inv[rotated] intro: remap_inv_snd)

lemma read_inv: "inv s \<Longrightarrow> mtk_bmt_read_loop fuel nd ops rq l s = Some (r, l', s') \<Longrightarrow> inv s'"
proof (induction fuel arbitrary: l s)
  case (Suc fuel)
  then show ?case
    by (fastforce split: if_splits prod.splits sum.splits dest: read_step_inv)
qed simp

lemma write_step_inv: "inv s \<Longrightarrow> mtk_bmt_write_step nd ops rq l s = (x, s') \<Longrightarrow> inv s'"
  by (auto simp: mtk_bmt_write_step_def Let_def inv_dev split: prod.splits if_splits
      dest: remap_inv[rotated])

lemma write_inv: "inv s \<Longrightarrow> mtk_bmt_write_loop fuel nd ops rq l s = Some (r, l', s') \<Longrightarrow> inv s'"
proof (induction fuel arbitrary: l s)
  case (Suc fuel)
  then show ?case
    by (fastforce split: if_splits prod.splits sum.splits dest: write_step_inv)
qed simp

lemma erase_inv:
  "inv s \<Longrightarrow> mtk_bmt_erase_loop fuel nd ops a e retry ret s = Some (r, f, s') \<Longrightarrow> inv s'"
proof (induction fuel arbitrary: a retry ret s)
  case (Suc fuel)
  then show ?case
    by (auto simp: Let_def inv_dev split: if_splits prod.splits dest: remap_inv[rotated]
        intro: Suc.IH[OF inv_dev])
qed simp

lemma isbad_inv: "inv s \<Longrightarrow> inv (snd (mtk_bmt_isbad_loop nd ops b retry s))"
proof (induction "11 - retry" arbitrary: retry s rule: less_induct)
  case less
  have "inv (snd (mtk_bmt_isbad_loop nd ops b (retry + 1) s2))" if "inv s2" "retry < 10" for s2
    using that by (intro less.hyps) auto
  then show ?case
    using less.prems
    by (subst mtk_bmt_isbad_loop.simps)
      (auto simp: Let_def inv_dev split: prod.split dest: remap_inv[rotated])
qed

lemma markbad_inv: "inv s \<Longrightarrow> inv (snd (mtk_bmt_block_markbad nd ops a s))"
  by (auto simp: mtk_bmt_block_markbad_def Let_def inv_dev remap_inv_snd split: prod.splits)

lemma copy_inv: "inv s \<Longrightarrow> inv (snd (bbt_nand_copy nd a b mx s))"
  using bbt_nand_copy_scratch[of nd a b mx s] by (auto simp: inv_dev inv_data_buf)

lemma erase_wrapper_inv: "inv s \<Longrightarrow> inv (snd (bbt_nand_erase nd a s))"
  using bbt_nand_erase_dev[of nd a s] by (auto simp: inv_dev)

lemma repair_inv: "inv s \<Longrightarrow> inv (snd (mtk_bmt_debug_repair nd ops v s))"
  by (auto simp: mtk_bmt_debug_repair_def Let_def inv_unmap copy_inv erase_wrapper_inv)

end

section \<open>Errors of reads\<close>

lemma read_step_exit:
  "mtk_bmt_read_step nd ops rq l s = (Inl (ret, l'), s') \<Longrightarrow> ret < 0"
  by (auto simp: mtk_bmt_read_step_def Let_def rd_result_def split: prod.splits if_splits)

lemma read_loop_complete:
  "mtk_bmt_read_loop fuel nd ops rq l s = Some (ret, l', s') \<Longrightarrow> 0 \<le> ret \<Longrightarrow>
   rq_len rq \<le> rl_retlen l' \<and> rq_ooblen rq \<le> rl_oobretlen l' \<and> rl_ret l' \<ge> 0"
proof (induction fuel arbitrary: l s)
  case (Suc fuel)
  then show ?case
    by (auto simp: rd_result_def split: if_splits prod.splits sum.splits dest: read_step_exit)
qed simp

section \<open>A chip in memory\<close>

text \<open>
  A chip that is an array of bytes, and a small layout on it: eight blocks of four bytes.
  They show that the conditions of the theorems can be met.
\<close>

definition ram_chip :: "(nat \<Rightarrow> u8) nand_ops" where
  "ram_chip =
     \<lparr>nd_read_oob = (\<lambda>d a rq. (\<lparr>rr_ret = 0, rr_retlen = rq_len rq, rr_oobretlen = rq_ooblen rq,
        rr_dat = map d [a..<a + rq_len rq], rr_oob = replicate (rq_ooblen rq) (- 1)\<rparr>, d)),
      nd_write_oob = (\<lambda>d a rq. (\<lparr>wr_ret = 0, wr_retlen = rq_len rq, wr_oobretlen = rq_ooblen rq\<rparr>,
        \<lambda>x. if a \<le> x \<and> x < a + rq_len rq then rq_dat rq ! (x - a) else d x)),
      nd_erase = (\<lambda>d a n. (0, \<lambda>x. if a \<le> x \<and> x < a + n then - 1 else d x)),
      nd_block_isbad = (\<lambda>d a. (0, d)), nd_block_markbad = (\<lambda>d a. (0, d))\<rparr>"

lemma ram_chip_reliable: "reliable_chip ram_chip (\<lambda>d. d)"
  by (auto simp: reliable_chip_def reads_ok_def writes_ok_def erases_ok_def ram_chip_def)

lemma ram_chip_local: "local_chip ram_chip (\<lambda>d. d)"
  by (auto simp: local_chip_def ram_chip_def)

definition small_st :: "bytes \<Rightarrow> bbbt option \<Rightarrow> (nat \<times> nat) list \<Rightarrow> (nat \<Rightarrow> u8) bmt_st" where
  "small_st buf tbl ranges =
     \<lparr>dev = (\<lambda>_. - 1), mtd_size = 32, mtd_erasesize = 4, mtd_writesize = 2, mtd_oobsize = 8,
      mtd_bitflip_threshold = 0, mtd_ecc_strength = 1,
      mtd_ops = \<lparr>cb_read_oob = CbRaw, cb_write_oob = CbRaw, cb_erase = CbRaw,
                 cb_block_isbad = CbRaw, cb_block_markbad = CbRaw\<rparr>,
      attached = True, scheme = None, saved_ops = None, bbt_buf = buf, data_buf = [],
      bbt = tbl, ni = zero_instance, table_size = 8, pg_size = 2, blk_size = 4, pg_shift = 1, blk_shift = 2,
      pool_lba = 4, pool_pba = 4, bb_max = 8, total_blks = 8, bmt_blk_idx = 3, bmt_pgs = 1,
      remap_range = ranges, oob_offset = 0, en75 = zero_en75\<rparr>"

lemma small_st_sel [simp]:
  "dev (small_st buf tbl ranges) = (\<lambda>_. - 1)" "total_blks (small_st buf tbl ranges) = 8"
  "blk_shift (small_st buf tbl ranges) = 2" "blk_size (small_st buf tbl ranges) = 4"
  "mtd_erasesize (small_st buf tbl ranges) = 4" "mtd_bitflip_threshold (small_st buf tbl ranges) = 0"
  "bbt_buf (small_st buf tbl ranges) = buf" "bbt (small_st buf tbl ranges) = tbl"
  "remap_range (small_st buf tbl ranges) = ranges" "pool_lba (small_st buf tbl ranges) = 4"
  "bmt_blk_idx (small_st buf tbl ranges) = 3" "mtd_size (small_st buf tbl ranges) = 32"
  by (simp_all add: small_st_def)

lemma small_st_geometry: "bmt_geometry (small_st buf tbl ranges)"
  by (simp add: bmt_geometry_def small_st_def)

end
