(* ===== verification/Bmt_Bbt.thy ===== *)
theory Bmt_Bbt
  imports Bmt_Core
begin

text \<open>
  The mapping scheme of \<^verbatim>\<open>mtk_bmt_bbt.c\<close>: a bad block table of two bits per block, kept
  in one block at the end of the chip. Within a remapping range the logical blocks are the
  good blocks in order, followed by the bad ones.
\<close>

section \<open>The table\<close>

definition bbt_mask :: "nat \<Rightarrow> u8" where
  "bbt_mask block = push_bit ((block mod 4) * 2) 3"

definition bbt_block_is_bad :: "'d bmt_st \<Rightarrow> nat \<Rightarrow> bool" where
  "bbt_block_is_bad s block \<longleftrightarrow> byte_at (bbt_buf s) (block div 4) AND bbt_mask block \<noteq> 0"

definition bbt_sig :: bytes where
  "bbt_sig = [0x6d, 0x74, 0x6b, 0x6e, 0x61, 0x6e, 0x64]"  \<comment> \<open>the string \<^verbatim>\<open>mtknand\<close>\<close>

definition bbt_set_block_state ::
  "'d nand_ops \<Rightarrow> nat \<Rightarrow> bool \<Rightarrow> 'd bmt_st \<Rightarrow> 'd bmt_st" where
  "bbt_set_block_state nd block bad s =
     (let mask = bbt_mask block;
          old = byte_at (bbt_buf s) (block div 4);
          new = (if bad then old OR mask else old AND NOT mask);
          s1 = s\<lparr>bbt_buf := (bbt_buf s)[block div 4 := new]\<rparr>;
          s2 = snd (bbt_nand_erase nd (bmt_blk_idx s1) s1)
      in snd (write_bmt nd bbt_sig (bmt_blk_idx s2) (bbt_buf s2) s2))"

section \<open>Looking up a block\<close>

text \<open>
  The two loops of \<^verbatim>\<open>get_mapping_block_index_bbt\<close>. The first walks up the range and
  returns the values of \<^verbatim>\<open>i\<close>, \<^verbatim>\<open>ofs\<close> and \<^verbatim>\<open>bad_blocks\<close> where it stops.

  The second walks down. The source has no lower bound there: the loop ends when
  \<^verbatim>\<open>bad_blocks\<close> reaches zero. The model stops below \<open>start\<close> as well, to be a total
  function; \<open>bbt_scan_down_bound\<close> shows that this bound is never what ends the loop.
\<close>

function bbt_scan_up :: "'d bmt_st \<Rightarrow> int \<Rightarrow> int \<Rightarrow> int \<Rightarrow> int \<Rightarrow> int \<times> int \<times> int" where
  "bbt_scan_up s i stop ofs bad =
     (if i < stop then
        (if bbt_block_is_bad s (to_u16 i) then bbt_scan_up s (i + 1) stop ofs (bad + 1)
         else if ofs \<noteq> 0 then bbt_scan_up s (i + 1) stop (ofs - 1) bad
         else (i, ofs, bad))
      else (i, ofs, bad))"
  by pat_completeness auto
termination
  by (relation "measure (\<lambda>(s, i, stop, ofs, bad). nat (stop - i))") auto

declare bbt_scan_up.simps [simp del]

function bbt_scan_down :: "'d bmt_st \<Rightarrow> int \<Rightarrow> int \<Rightarrow> int \<Rightarrow> int \<Rightarrow> int option" where
  "bbt_scan_down s start i bad ofs =
     (if bad > 0 \<and> start \<le> i then
        (if \<not> bbt_block_is_bad s (to_u16 i) then bbt_scan_down s start (i - 1) bad ofs
         else if bad - 1 \<le> ofs then Some i
         else bbt_scan_down s start (i - 1) (bad - 1) ofs)
      else None)"
  by pat_completeness auto
termination
  by (relation "measure (\<lambda>(s, start, i, bad, ofs). nat (i + 1 - start))") auto

declare bbt_scan_down.simps [simp del]

definition get_mapping_block_index_bbt :: "int \<Rightarrow> 'd bmt_st \<Rightarrow> int" where
  "get_mapping_block_index_bbt block s =
     (case mapping_block_in_range block s of
        None \<Rightarrow> block
      | Some (start0, stop0) \<Rightarrow>
          (let start = start0 div 2 ^ blk_shift s;
               stop = stop0 div 2 ^ blk_shift s;
               (i, ofs, bad) = bbt_scan_up s start stop (block - start) 0
           in if i < stop then i
              else case bbt_scan_down s start (stop - 1) bad ofs of
                     Some j \<Rightarrow> j
                   | None \<Rightarrow> block))"

section \<open>Changing the mapping\<close>

definition remap_block_bbt :: "'d nand_ops \<Rightarrow> 'd remap_fn" where
  "remap_block_bbt nd block mapped_blk copy_len s =
     (case mapping_block_in_range (int block) s of
        None \<Rightarrow> (False, s)
      | Some _ \<Rightarrow>
          (let s1 = bbt_set_block_state nd mapped_blk True s;
               new_blk = to_u16 (get_mapping_block_index_bbt (int block) s1);
               s2 = snd (bbt_nand_erase nd new_blk s1);
               s3 = (if copy_len > 0 then snd (bbt_nand_copy nd new_blk mapped_blk copy_len s2)
                     else s2)
           in (True, s3)))"

definition unmap_block_bbt :: "'d nand_ops \<Rightarrow> nat \<Rightarrow> 'd bmt_st \<Rightarrow> 'd bmt_st" where
  "unmap_block_bbt nd block s = bbt_set_block_state nd block False s"

section \<open>Loading the table\<close>

text \<open>
  \<^verbatim>\<open>mtk_bmt_read_bbt\<close> tries the last five blocks, from the end. The first argument counts
  the blocks that are left to try.
\<close>

fun mtk_bmt_read_bbt_loop ::
  "'d nand_ops \<Rightarrow> nat \<Rightarrow> int \<Rightarrow> 'd bmt_st \<Rightarrow> int \<times> 'd bmt_st" where
  "mtk_bmt_read_bbt_loop nd 0 i s = (- EIO, s)"
| "mtk_bmt_read_bbt_loop nd (Suc n) i s =
     (let page = to_u32 (i * 2 ^ (blk_shift s - pg_shift s));
          (ret, dat, oob, s1) = bbt_nand_read nd page (pg_size s) 8 s;
          s2 = s1\<lparr>bbt_buf := overlay (bbt_buf s1) dat\<rparr>
      in if ret \<noteq> 0 then mtk_bmt_read_bbt_loop nd n (i - 1) s2
         else if byte_at oob 0 \<noteq> 0xff then mtk_bmt_read_bbt_loop nd n (i - 1) s2
         else if take 7 (drop 1 oob) \<noteq> bbt_sig then mtk_bmt_read_bbt_loop nd n (i - 1) s2
         else (0, s2\<lparr>bmt_blk_idx := to_u16 i\<rparr>))"

definition mtk_bmt_read_bbt :: "'d nand_ops \<Rightarrow> 'd bmt_st \<Rightarrow> int \<times> 'd bmt_st" where
  "mtk_bmt_read_bbt nd s = mtk_bmt_read_bbt_loop nd 5 (int (total_blks s) - 1) s"

definition round_up :: "nat \<Rightarrow> nat \<Rightarrow> nat" where
  "round_up x y = (if x = 0 then 0 else ((x - 1) div y + 1) * y)"

definition mtk_bmt_init_bbt ::
  "'d nand_ops \<Rightarrow> bool \<Rightarrow> dt_node \<Rightarrow> 'd bmt_st \<Rightarrow> int \<times> 'd bmt_st" where
  "mtk_bmt_init_bbt nd alloc_ok np s =
     (let buf_size = round_up (total_blks s div 4) (blk_size s)
      in if \<not> alloc_ok then (- ENOMEM, s)
         else
           (let s1 = s\<lparr>bbt_buf := replicate buf_size (- 1),
                       mtd_size := mtd_size s - 4 * mtd_erasesize s\<rparr>;
                (ret, s2) = mtk_bmt_read_bbt nd s1
            in if ret \<noteq> 0 then (ret, s2)
               else (0, s2\<lparr>bmt_pgs := buf_size div pg_size s2\<rparr>)))"

definition mtk_bmt_debug_bbt :: "'d nand_ops \<Rightarrow> nat \<Rightarrow> 'd bmt_st \<Rightarrow> int \<times> 'd bmt_st" where
  "mtk_bmt_debug_bbt nd val s =
     (if val = 100 then
        (let s1 = s\<lparr>bmt_blk_idx := to_u16 (int (total_blks s) - 1)\<rparr>;
             s2 = snd (bbt_nand_erase nd (bmt_blk_idx s1) s1);
             s3 = snd (write_bmt nd bbt_sig (bmt_blk_idx s2) (bbt_buf s2) s2)
         in (0, s3))
      else (0, s))"

definition mtk_bmt_bbt_ops :: "'d nand_ops \<Rightarrow> 'd mtk_bmt_ops" where
  "mtk_bmt_bbt_ops nd =
     \<lparr>op_sig = bbt_sig, op_remap_block = remap_block_bbt nd,
      op_unmap_block = unmap_block_bbt nd,
      op_get_mapping_block = get_mapping_block_index_bbt,
      op_debug = mtk_bmt_debug_bbt nd\<rparr>"

section \<open>Bits of the table\<close>

lemma bbt_mask_values:
  "bbt_mask b = (if b mod 4 = 0 then 3 else if b mod 4 = 1 then 12
                 else if b mod 4 = 2 then 48 else 192)"
proof -
  have "b mod 4 \<in> {0, 1, 2, 3}" by auto
  then show ?thesis by (auto simp: bbt_mask_def)
qed

lemma bbt_mask_nonzero [simp]: "bbt_mask b \<noteq> 0"
  by (simp add: bbt_mask_values)


section \<open>The order of the blocks in a range\<close>

text \<open>
  The specification of the lookup: within a range the logical blocks are the good blocks in
  ascending order, followed by the bad blocks in ascending order.
\<close>

abbreviation is_bad :: "'d bmt_st \<Rightarrow> int \<Rightarrow> bool" where
  "is_bad s i \<equiv> bbt_block_is_bad s (to_u16 i)"

definition good_in :: "'d bmt_st \<Rightarrow> int \<Rightarrow> int \<Rightarrow> int list" where
  "good_in s a b = filter (\<lambda>i. \<not> is_bad s i) [a..b - 1]"

definition bad_in :: "'d bmt_st \<Rightarrow> int \<Rightarrow> int \<Rightarrow> int list" where
  "bad_in s a b = filter (is_bad s) [a..b - 1]"

definition bbt_order :: "'d bmt_st \<Rightarrow> int \<Rightarrow> int \<Rightarrow> int list" where
  "bbt_order s a b = good_in s a b @ bad_in s a b"

lemma good_in_step: "a < b \<Longrightarrow>
    good_in s a b = (if is_bad s a then good_in s (a + 1) b else a # good_in s (a + 1) b)"
  by (simp add: good_in_def upto_rec1)

lemma bad_in_step: "a < b \<Longrightarrow>
    bad_in s a b = (if is_bad s a then a # bad_in s (a + 1) b else bad_in s (a + 1) b)"
  by (simp add: bad_in_def upto_rec1)

lemma bad_in_step_down: "a \<le> b \<Longrightarrow>
    bad_in s a (b + 1) = (if is_bad s b then bad_in s a b @ [b] else bad_in s a b)"
  by (simp add: bad_in_def upto_rec2)

lemma bbt_scan_up_spec:
  assumes "0 \<le> ofs" and "i \<le> stop"
  shows "bbt_scan_up s i stop ofs bad =
     (if nat ofs < length (good_in s i stop)
      then (good_in s i stop ! nat ofs, 0,
            bad + int (length (bad_in s i (good_in s i stop ! nat ofs))))
      else (stop, ofs - int (length (good_in s i stop)), bad + int (length (bad_in s i stop))))"
  using assms
proof (induction s i stop ofs bad rule: bbt_scan_up.induct)
  case (1 s i stop ofs bad)
  show ?case
  proof (cases "i < stop")
    case False
    with "1.prems" show ?thesis
      by (subst bbt_scan_up.simps) (simp add: good_in_def bad_in_def)
  next
    case True
    note IH = "1.IH"[OF True]
    have lt: "x \<in> set (good_in s (i + 1) stop) \<Longrightarrow> i < x" for x
      by (auto simp: good_in_def)
    have bl: "i < x \<Longrightarrow> bad_in s i x = (if is_bad s i then i # bad_in s (i + 1) x
               else bad_in s (i + 1) x)" for x
      by (rule bad_in_step)
    show ?thesis
    proof (cases "is_bad s i")
      case bad: True
      show ?thesis
        using True bad IH(1)[OF bad] "1.prems"
        by (subst bbt_scan_up.simps)
          (auto simp: good_in_step bad_in_step bl[OF lt[OF nth_mem]])
    next
      case good: False
      show ?thesis
      proof (cases "ofs = 0")
        case True
        with good \<open>i < stop\<close> show ?thesis
          by (subst bbt_scan_up.simps) (simp add: good_in_step bad_in_def)
      next
        case ne: False
        then have n: "nat ofs = Suc (nat (ofs - 1))" "0 \<le> ofs - 1" using "1.prems" by auto
        show ?thesis
          using True good ne IH(2)[OF good ne] n
          by (subst bbt_scan_up.simps)
            (auto simp: good_in_step bad_in_step bl[OF lt[OF nth_mem]])
      qed
    qed
  qed
qed

lemma bbt_scan_down_bound:
  "bad = int (length (bad_in s start (i + 1))) \<Longrightarrow> 0 < bad \<Longrightarrow> start \<le> i"
  by (cases "start \<le> i") (auto simp: bad_in_def)

lemma bbt_scan_down_spec:
  assumes "bad = int (length (bad_in s start (i + 1)))" "0 \<le> ofs" "ofs < bad"
  shows "bbt_scan_down s start i bad ofs = Some (bad_in s start (i + 1) ! nat ofs)"
  using assms
proof (induction s start i bad ofs rule: bbt_scan_down.induct)
  case (1 s start i bad ofs)
  have ge: "start \<le> i"
    using "1.prems" by (cases "start \<le> i") (auto simp: bad_in_def)
  have pos: "bad > 0" using "1.prems" by linarith
  show ?case
  proof (cases "is_bad s i")
    case False
    with ge pos "1.prems" "1.IH"(1) show ?thesis
      by (subst bbt_scan_down.simps) (simp add: bad_in_step_down)
  next
    case True
    note b = bad_in_step_down[OF ge, of s]
    show ?thesis
    proof (cases "bad - 1 \<le> ofs")
      case le: True
      with "1.prems" have "nat ofs = length (bad_in s start i)"
        using b True by auto
      with le True ge pos show ?thesis
        by (subst bbt_scan_down.simps) (simp add: b)
    next
      case gt: False
      with "1.prems" b True have "nat ofs < length (bad_in s start i)" by auto
      with gt True ge pos "1.prems" "1.IH"(2) show ?thesis
        by (subst bbt_scan_down.simps) (simp add: b nth_append)
    qed
  qed
qed


lemma bbt_order_length: "a \<le> b \<Longrightarrow> length (bbt_order s a b) = nat (b - a)"
  using sum_length_filter_compl[of "is_bad s" "[a..b - 1]"]
  by (simp add: bbt_order_def good_in_def bad_in_def add.commute)

lemma bbt_order_set: "set (bbt_order s a b) = {a..<b}"
  by (auto simp: bbt_order_def good_in_def bad_in_def)

lemma bbt_order_distinct: "distinct (bbt_order s a b)"
  by (auto simp: bbt_order_def good_in_def bad_in_def)

lemma bbt_lookup_order:
  assumes rng: "mapping_block_in_range block s = Some (lo, hi)"
    and a: "a = lo div 2 ^ blk_shift s" and b: "b = hi div 2 ^ blk_shift s"
    and blk: "a \<le> block" "block < b"
  shows "get_mapping_block_index_bbt block s = bbt_order s a b ! nat (block - a)"
proof -
  let ?G = "good_in s a b" and ?B = "bad_in s a b"
  have ab: "a \<le> b" "0 \<le> block - a" using blk by auto
  note up = bbt_scan_up_spec[OF ab(2,1), of s 0]
  show ?thesis
  proof (cases "nat (block - a) < length ?G")
    case True
    then have "?G ! nat (block - a) \<in> set ?G" by (rule nth_mem)
    then have "?G ! nat (block - a) < b" by (auto simp: good_in_def)
    with True show ?thesis
      by (simp add: get_mapping_block_index_bbt_def rng a[symmetric] b[symmetric] up Let_def
          bbt_order_def nth_append)
  next
    case False
    define ofs where "ofs = block - a - int (length ?G)"
    have "length ?G + length ?B = nat (b - a)"
      using bbt_order_length[OF ab(1), of s] by (simp add: bbt_order_def)
    then have o: "0 \<le> ofs" "ofs < int (length ?B)"
      using False blk by (auto simp: ofs_def)
    have "bbt_scan_down s a (b - 1) (int (length ?B)) ofs = Some (?B ! nat ofs)"
      using bbt_scan_down_spec[of "int (length ?B)" s a "b - 1" ofs] o by simp
    moreover have "nat (block - a) - length ?G = nat ofs" by (simp add: ofs_def nat_diff_distrib')
    ultimately show ?thesis
      using False
      by (simp add: get_mapping_block_index_bbt_def rng a[symmetric] b[symmetric] up Let_def
          bbt_order_def nth_append ofs_def)
  qed
qed

section \<open>The mapping is injective\<close>

text \<open>
  The conditions under which the lookup is sound. Without a remapping range the lookup never
  leaves the identity, because the code divides block numbers by the size of a block; with
  ranges they have to be whole blocks, inside the chip, below 2 GiB and disjoint. The
  buffer has to hold two bits for each of the 65536 blocks that a 16 bit number can name.
\<close>

definition ranges_ok :: "'d bmt_st \<Rightarrow> bool" where
  "ranges_ok s \<longleftrightarrow>
     (if remap_range s = [] then total_blks s < 2 ^ blk_shift s
      else total_blks s * 2 ^ blk_shift s < 2147483648 \<and>
        (\<forall>(lo, hi) \<in> set (remap_range s). hi \<le> total_blks s * 2 ^ blk_shift s \<and>
           2 ^ blk_shift s dvd lo \<and> 2 ^ blk_shift s dvd hi) \<and>
        sorted_wrt (\<lambda>(lo, hi) (lo', hi'). hi \<le> lo' \<or> hi' \<le> lo) (remap_range s))"

definition bbt_inv :: "'d bmt_st \<Rightarrow> bool" where
  "bbt_inv s \<longleftrightarrow> 16384 \<le> length (bbt_buf s) \<and> total_blks s < 65536 \<and> ranges_ok s"

lemma find_range_Some:
  "find_range a rs = Some (l, h) \<Longrightarrow>
   \<exists>lo hi. (lo, hi) \<in> set rs \<and> lo \<le> a \<and> a < hi \<and> l = to_s32 (int lo) \<and> h = to_s32 (int hi)"
  by (induction a rs rule: find_range.induct) (force simp: not_less not_le split: if_splits)+

lemma find_range_unique:
  "sorted_wrt (\<lambda>(lo, hi) (lo', hi'). hi \<le> lo' \<or> hi' \<le> lo) rs \<Longrightarrow> (lo, hi) \<in> set rs \<Longrightarrow>
   lo \<le> a \<Longrightarrow> a < hi \<Longrightarrow> find_range a rs = Some (to_s32 (int lo), to_s32 (int hi))"
  by (induction a rs rule: find_range.induct) force+

text \<open>
  The blocks of a range, as the code computes them; \<open>None\<close> when the block is outside every
  range.
\<close>

definition bbt_window :: "'d bmt_st \<Rightarrow> nat \<Rightarrow> (int \<times> int) option" where
  "bbt_window s x =
     (if remap_range s = [] then None
      else map_option (\<lambda>(lo, hi). (lo div 2 ^ blk_shift s, hi div 2 ^ blk_shift s))
             (find_range (x * 2 ^ blk_shift s) (remap_range s)))"

lemma bbt_window_Some:
  assumes inv: "bbt_inv s" and w: "bbt_window s x = Some (a, b)"
  shows "0 \<le> a" "a \<le> int x" "int x < b" "b \<le> int (total_blks s)"
    and "a \<le> int y \<Longrightarrow> int y < b \<Longrightarrow> bbt_window s y = Some (a, b)"
proof -
  let ?B = "2 ^ blk_shift s :: nat"
  have ne: "remap_range s \<noteq> []" using w by (auto simp: bbt_window_def)
  note ok = inv[unfolded bbt_inv_def ranges_ok_def] 
  from w ne obtain l h where fr: "find_range (x * ?B) (remap_range s) = Some (l, h)"
    and lh: "a = l div 2 ^ blk_shift s" "b = h div 2 ^ blk_shift s"
    by (auto simp: bbt_window_def)
  from find_range_Some[OF fr] obtain lo hi where
    mem: "(lo, hi) \<in> set (remap_range s)" "lo \<le> x * ?B" "x * ?B < hi"
    and s32: "l = to_s32 (int lo)" "h = to_s32 (int hi)" by blast
  have hi: "hi \<le> total_blks s * ?B" "?B dvd lo" "?B dvd hi" "total_blks s * ?B < 2147483648"
    and srt: "sorted_wrt (\<lambda>(lo, hi) (lo', hi'). hi \<le> lo' \<or> hi' \<le> lo) (remap_range s)"
    using ok mem(1) ne by auto
  obtain p q where pq: "lo = ?B * p" "hi = ?B * q" using hi(2,3) by (auto elim!: dvdE)
  have "lo < 2147483648" "hi < 2147483648" using hi(1,4) mem(2,3) by linarith+
  then have "l = int lo" "h = int hi" by (simp_all add: s32 to_s32_id)
  then have ab: "a = int p" "b = int q" by (simp_all add: lh pq)
  show "0 \<le> a" by (simp add: ab)
  show "a \<le> int x" "int x < b" "b \<le> int (total_blks s)"
    using mem(2,3) hi(1) pq by (simp_all add: ab mult.commute)
  assume y: "a \<le> int y" "int y < b"
  then have "lo \<le> y * ?B" "y * ?B < hi" by (simp_all add: pq ab mult.commute)
  from find_range_unique[OF srt mem(1) this] show "bbt_window s y = Some (a, b)"
    by (simp add: bbt_window_def ne lh s32)
qed

lemma bbt_range_eq:
  assumes inv: "bbt_inv s" and x: "x < total_blks s" and ne: "remap_range s \<noteq> []"
  shows "mapping_block_in_range (int x) s = find_range (x * 2 ^ blk_shift s) (remap_range s)"
proof -
  let ?B = "2 ^ blk_shift s :: nat"
  have "x * ?B < total_blks s * ?B" using x by simp
  moreover have "total_blks s * ?B < 2147483648"
    using inv ne by (simp add: bbt_inv_def ranges_ok_def)
  ultimately have lt: "x * ?B < 4294967296" by linarith
  then have "to_u32 (int x * 2 ^ blk_shift s) = x * ?B"
    using to_u32_of_nat[OF lt] by simp
  then show ?thesis
    using ne by (simp add: mapping_block_in_range_def Let_def)
qed

lemma bbt_mapping_window:
  assumes inv: "bbt_inv s" and x: "x < total_blks s"
  shows "get_mapping_block_index_bbt (int x) s =
     (case bbt_window s x of None \<Rightarrow> int x | Some (a, b) \<Rightarrow> bbt_order s a b ! nat (int x - a))"
proof (cases "remap_range s = []")
  case True
  then have "mapping_block_in_range (int x) s = Some (0, int (total_blks s))"
    by (simp add: mapping_block_in_range_def)
  moreover have "int (total_blks s) div 2 ^ blk_shift s = 0"
    using inv True by (simp add: bbt_inv_def ranges_ok_def)
  ultimately show ?thesis
    using True by (simp add: get_mapping_block_index_bbt_def bbt_window_def Let_def
        bbt_scan_up.simps[of s 0 0] bbt_scan_down.simps[of s 0 "-1" 0])
next
  case False
  let ?B = "2 ^ blk_shift s :: nat"
  note rng = bbt_range_eq[OF inv x False]
  show ?thesis
  proof (cases "find_range (x * ?B) (remap_range s)")
    case None
    then show ?thesis by (simp add: get_mapping_block_index_bbt_def rng bbt_window_def)
  next
    case (Some p)
    obtain l h where p: "p = (l, h)" by (cases p)
    have w: "bbt_window s x = Some (l div 2 ^ blk_shift s, h div 2 ^ blk_shift s)"
      using Some p False by (simp add: bbt_window_def)
    have "mapping_block_in_range (int x) s = Some (l, h)" using rng Some p by simp
    from bbt_lookup_order[OF this refl refl] bbt_window_Some(2,3)[OF inv w] w
    show ?thesis by simp
  qed
qed

lemma bbt_order_nth_in: "a \<le> x \<Longrightarrow> x < b \<Longrightarrow> bbt_order s a b ! nat (x - a) \<in> {a..<b}"
  using bbt_order_length[of a b s] bbt_order_set[of s a b] nth_mem[of "nat (x - a)" "bbt_order s a b"]
  by auto

lemma bbt_mapping_bounds:
  assumes inv: "bbt_inv s" and x: "x < total_blks s"
  shows "0 \<le> get_mapping_block_index_bbt (int x) s \<and>
         get_mapping_block_index_bbt (int x) s < int (total_blks s) \<and>
         bbt_window s (nat (get_mapping_block_index_bbt (int x) s)) = bbt_window s x"
proof (cases "bbt_window s x")
  case None
  then show ?thesis using x by (simp add: bbt_mapping_window[OF inv x])
next
  case (Some p)
  obtain a b where p: "p = (a, b)" by (cases p)
  note w = bbt_window_Some[OF inv Some[unfolded p]]
  from bbt_order_nth_in[OF w(2,3), of s] have "bbt_order s a b ! nat (int x - a) \<in> {a..<b}" .
  with w(1,4) w(5)[of "nat (bbt_order s a b ! nat (int x - a))"] Some p show ?thesis
    by (simp add: bbt_mapping_window[OF inv x])
qed

lemma bbt_mapping_inj:
  assumes inv: "bbt_inv s" and x: "x < total_blks s" and y: "y < total_blks s"
    and eq: "get_mapping_block_index_bbt (int x) s = get_mapping_block_index_bbt (int y) s"
  shows "x = y"
proof -
  have ww: "bbt_window s x = bbt_window s y"
    using bbt_mapping_bounds[OF inv x] bbt_mapping_bounds[OF inv y] eq by metis
  show ?thesis
  proof (cases "bbt_window s x")
    case None
    with eq ww show ?thesis by (simp add: bbt_mapping_window inv x y)
  next
    case (Some p)
    obtain a b where p: "p = (a, b)" by (cases p)
    note wx = bbt_window_Some[OF inv Some[unfolded p]]
    have wy: "a \<le> int y" "int y < b"
      using bbt_window_Some[OF inv] ww Some p by metis+
    have "nat (int x - a) = nat (int y - a)"
      using eq ww Some p wx wy bbt_order_length[of a b s]
      by (simp add: bbt_mapping_window inv x y nth_eq_iff_index_eq bbt_order_distinct)
    with wx(2) wy(1) show ?thesis by linarith
  qed
qed


section \<open>Frame\<close>

lemma is_bad_cong: "bbt_buf s' = bbt_buf s \<Longrightarrow> bbt_block_is_bad s' = bbt_block_is_bad s"
  by (simp add: bbt_block_is_bad_def fun_eq_iff)

lemma bbt_scan_up_cong:
  "bbt_buf s' = bbt_buf s \<Longrightarrow> bbt_scan_up s' i stop ofs bad = bbt_scan_up s i stop ofs bad"
proof (induction s i stop ofs bad rule: bbt_scan_up.induct)
  case (1 s i stop ofs bad)
  then show ?case
    by (simp add: bbt_scan_up.simps[of s'] bbt_scan_up.simps[of s] is_bad_cong[OF 1(3)])
qed

lemma bbt_scan_down_cong:
  "bbt_buf s' = bbt_buf s \<Longrightarrow> bbt_scan_down s' start i bad ofs = bbt_scan_down s start i bad ofs"
proof (induction s start i bad ofs rule: bbt_scan_down.induct)
  case (1 s start i bad ofs)
  then show ?case
    by (simp add: bbt_scan_down.simps[of s'] bbt_scan_down.simps[of s] is_bad_cong[OF 1(3)])
qed

definition same_table :: "'d bmt_st \<Rightarrow> 'd bmt_st \<Rightarrow> bool" where
  "same_table s s' \<longleftrightarrow> bbt_buf s' = bbt_buf s \<and> remap_range s' = remap_range s \<and>
     blk_shift s' = blk_shift s \<and> total_blks s' = total_blks s"

lemma bbt_mapping_cong:
  assumes "same_table s s'"
  shows "get_mapping_block_index_bbt b s' = get_mapping_block_index_bbt b s"
  using assms unfolding same_table_def
  by (auto simp: get_mapping_block_index_bbt_def mapping_block_in_range_def Let_def
      bbt_scan_up_cong[of s' s] bbt_scan_down_cong[of s' s] split: option.split prod.split)

lemma bbt_inv_cong: "same_table s s' \<Longrightarrow> bbt_inv s' = bbt_inv s"
  by (simp add: same_table_def bbt_inv_def ranges_ok_def)

section \<open>Changing one entry\<close>



definition bbt_marked :: "nat \<Rightarrow> bool \<Rightarrow> bytes \<Rightarrow> bytes" where
  "bbt_marked b bad buf = buf[b div 4 :=
     (if bad then byte_at buf (b div 4) OR bbt_mask b
      else byte_at buf (b div 4) AND NOT (bbt_mask b))]"

lemma bbt_set_block_state_eq:
  "\<exists>d. bbt_set_block_state nd b bad s = s\<lparr>bbt_buf := bbt_marked b bad (bbt_buf s), dev := d\<rparr>"
proof -
  obtain d1 where d1: "snd (bbt_nand_erase nd (bmt_blk_idx s)
      (s\<lparr>bbt_buf := bbt_marked b bad (bbt_buf s)\<rparr>))
    = s\<lparr>bbt_buf := bbt_marked b bad (bbt_buf s)\<rparr>\<lparr>dev := d1\<rparr>"
    by (rule exE[OF bbt_nand_erase_dev])
  obtain d2 where d2: "snd (write_bmt nd bbt_sig (bmt_blk_idx s) (bbt_marked b bad (bbt_buf s))
      (s\<lparr>bbt_buf := bbt_marked b bad (bbt_buf s)\<rparr>\<lparr>dev := d1\<rparr>))
    = s\<lparr>bbt_buf := bbt_marked b bad (bbt_buf s)\<rparr>\<lparr>dev := d1\<rparr>\<lparr>dev := d2\<rparr>"
    by (rule exE[OF write_bmt_dev])
  have "bbt_set_block_state nd b bad s = s\<lparr>bbt_buf := bbt_marked b bad (bbt_buf s), dev := d2\<rparr>"
    unfolding bbt_set_block_state_def Let_def bbt_marked_def[symmetric]
    by (simp add: d1 d2)
  then show ?thesis ..
qed



lemma bbt_set_block_state_frame:
  "same_table (s\<lparr>bbt_buf := bbt_marked b bad (bbt_buf s)\<rparr>) (bbt_set_block_state nd b bad s)"
proof -
  obtain d where "bbt_set_block_state nd b bad s = s\<lparr>bbt_buf := bbt_marked b bad (bbt_buf s), dev := d\<rparr>"
    by (rule exE[OF bbt_set_block_state_eq])
  then show ?thesis by (simp add: same_table_def)
qed

lemma bbt_inv_set_block_state: "bbt_inv s \<Longrightarrow> bbt_inv (bbt_set_block_state nd b bad s)"
proof -
  assume "bbt_inv s"
  then have "bbt_inv (s\<lparr>bbt_buf := bbt_marked b bad (bbt_buf s)\<rparr>)"
    by (simp add: bbt_inv_def ranges_ok_def bbt_marked_def)
  then show ?thesis by (simp add: bbt_inv_cong[OF bbt_set_block_state_frame])
qed

lemma same_table_trans: "same_table s t \<Longrightarrow> same_table t u \<Longrightarrow> same_table s u"
  by (simp add: same_table_def)

lemma same_table_erase: "same_table s (snd (bbt_nand_erase nd b s))"
  using bbt_nand_erase_dev[of nd b s] by (auto simp: same_table_def)

lemma same_table_copy: "same_table s (snd (bbt_nand_copy nd a b mx s))"
  using bbt_nand_copy_scratch[of nd a b mx s] by (auto simp: same_table_def)

lemma remap_block_bbt_table:
  assumes "mapping_block_in_range (int b) s \<noteq> None"
  shows "fst (remap_block_bbt nd b m c s)"
    and "same_table (bbt_set_block_state nd m True s) (snd (remap_block_bbt nd b m c s))"
proof -
  obtain p where p: "mapping_block_in_range (int b) s = Some p" using assms by auto
  show "fst (remap_block_bbt nd b m c s)"
    by (simp add: remap_block_bbt_def p Let_def)
  show "same_table (bbt_set_block_state nd m True s) (snd (remap_block_bbt nd b m c s))"
    by (simp add: remap_block_bbt_def p Let_def same_table_erase
        same_table_trans[OF same_table_erase same_table_copy])
qed

lemma bbt_inv_remap: "bbt_inv s \<Longrightarrow> bbt_inv (snd (remap_block_bbt nd b m c s))"
proof (cases "mapping_block_in_range (int b) s")
  case None
  then show "bbt_inv s \<Longrightarrow> ?thesis" by (simp add: remap_block_bbt_def)
next
  case (Some p)
  then show "bbt_inv s \<Longrightarrow> ?thesis"
    using remap_block_bbt_table(2)[of b s nd m c] bbt_inv_set_block_state[of s nd m True]
    by (simp add: bbt_inv_cong)
qed

lemma same_table_dev: "same_table s (s\<lparr>dev := d\<rparr>)"
  and same_table_data_buf: "same_table s (s\<lparr>data_buf := x\<rparr>)"
  by (simp_all add: same_table_def)

lemma bbt_set_block_state_erasesize [simp]:
  "mtd_erasesize (bbt_set_block_state nd b bad s) = mtd_erasesize s"
  by (rule exE[OF bbt_set_block_state_eq[of nd b bad s]]) simp

lemma remap_block_bbt_erasesize:
  "mtd_erasesize (snd (remap_block_bbt nd b m c s)) = mtd_erasesize s"
  by (simp add: remap_block_bbt_def Let_def split: option.split)

interpretation bbt_map: bmt_backend_total "mtk_bmt_bbt_ops nd" bbt_inv total_blks
  for nd :: "'d nand_ops"
proof (unfold_locales, unfold mtk_bmt_bbt_ops_def mtk_bmt_ops.simps, goal_cases)
  case 1
  show ?case by simp
next
  case 2
  then show ?case using bbt_mapping_bounds by blast
next
  case 3
  then show ?case by (rule bbt_mapping_inj)
next
  case 4
  show ?case by (rule bbt_mapping_cong) (rule same_table_dev)
next
  case 5
  then show ?case by (simp only: bbt_inv_cong[OF same_table_dev])
next
  case 6
  show ?case by simp
next
  case 7
  then show ?case by (simp only: bbt_inv_cong[OF same_table_data_buf])
next
  case 8
  then show ?case by (intro bbt_inv_remap)
next
  case 9
  then show ?case unfolding unmap_block_bbt_def by (intro bbt_inv_set_block_state)
next
  case 10
  show ?case by (rule remap_block_bbt_erasesize)
qed

section \<open>How a remap moves the blocks\<close>



lemma bbt_order_good:
  "nat k < length (good_in s a b) \<Longrightarrow> bbt_order s a b ! nat k = good_in s a b ! nat k"
  by (simp add: bbt_order_def nth_append)


lemma bbt_window_cong: "same_table s s' \<Longrightarrow> bbt_window s' x = bbt_window s x"
  by (simp add: same_table_def bbt_window_def)






section \<open>Properties\<close>

text \<open>
  The lookup of the table scheme: within a remapping range the logical blocks are the good
  blocks of the range in ascending order, followed by its bad blocks in ascending order.
\<close>

theorem bbt_lookup_good_then_bad:
  assumes "bbt_inv s" and "x < total_blks s" and "bbt_window s x = Some (a, b)"
  shows "get_mapping_block_index_bbt (int x) s =
     (filter (\<lambda>i. \<not> bbt_block_is_bad s (to_u16 i)) [a..b - 1] @
      filter (\<lambda>i. bbt_block_is_bad s (to_u16 i)) [a..b - 1]) ! nat (int x - a)"
  using bbt_mapping_window[OF assms(1,2)] assms(3)
  by (simp add: bbt_order_def good_in_def bad_in_def)

abbreviation bbt_small :: "(nat \<Rightarrow> u8) bmt_st" where
  "bbt_small \<equiv> small_st ((replicate 16384 0)[0 := 0x30]) None [(4, 20)]"

lemma bbt_small_inv: "bbt_inv bbt_small"
  by (simp add: bbt_inv_def ranges_ok_def)

lemma bbt_small_window: "bbt_window bbt_small 2 = Some (1, 5)"
  by (simp add: bbt_window_def to_s32_def)

theorem bbt_lookup_good_then_bad_witness:
  "get_mapping_block_index_bbt (int 2) bbt_small = 3"
proof -
  have l: "[1..4] = [1, 2, 3, 4::int]" by (simp add: upto_rec1)
  have "bbt_block_is_bad bbt_small (to_u16 i) = (i = 2)" if "i \<in> {1, 2, 3, 4}" for i
    using that by (auto simp: bbt_block_is_bad_def bbt_mask_values byte_at_def to_u16_def)
  then show ?thesis
    using bbt_lookup_good_then_bad[OF bbt_small_inv _ bbt_small_window]
    by (simp add: l)
qed

text \<open>
  C1. The table scheme loses no block and gives no block to two logical blocks: for every
  content of the table the lookup is a permutation of the blocks of the chip.
\<close>

theorem bbt_mapping_permutation:
  assumes "bbt_inv s"
  shows "bij_betw (\<lambda>x. nat (get_mapping_block_index_bbt (int x) s)) {..<total_blks s} {..<total_blks s}"
proof -
  let ?f = "\<lambda>x. nat (get_mapping_block_index_bbt (int x) s)"
  note B = bbt_mapping_bounds[OF assms]
  have "inj_on ?f {..<total_blks s}"
    using B bbt_mapping_inj[OF assms] by (auto simp: inj_on_def eq_nat_nat_iff)
  moreover have "?f ` {..<total_blks s} \<subseteq> {..<total_blks s}" using B by (auto simp: nat_less_iff)
  ultimately show ?thesis
    by (simp add: bij_betw_def endo_inj_surj)
qed

theorem bbt_mapping_permutation_witness:
  "bij_betw (\<lambda>x. nat (get_mapping_block_index_bbt (int x) bbt_small)) {..<8} {..<8}"
  using bbt_mapping_permutation[OF bbt_small_inv] by simp



text \<open>A chip on which nothing works, as an instance for the theorem above.\<close>

definition dead_chip :: "(nat \<Rightarrow> u8) nand_ops" where
  "dead_chip =
     \<lparr>nd_read_oob = (\<lambda>d a rq. (\<lparr>rr_ret = - EIO, rr_retlen = 0, rr_oobretlen = 0,
        rr_dat = [], rr_oob = []\<rparr>, d)),
      nd_write_oob = (\<lambda>d a rq. (\<lparr>wr_ret = - EIO, wr_retlen = 0, wr_oobretlen = 0\<rparr>, d)),
      nd_erase = (\<lambda>d a n. (- EIO, d)),
      nd_block_isbad = (\<lambda>d a. (1, d)), nd_block_markbad = (\<lambda>d a. (- EIO, d))\<rparr>"


text \<open>
  C16. What is written is read back. On a chip without faults, after erasing the blocks that
  hold it, a write through the table scheme followed by a read of the same range returns the
  data, for every content of the table.
\<close>

theorem bbt_write_read_back:
  assumes "reliable_chip nd mem" "bbt_inv s" "bmt_geometry s"
    and "a + rq_len rq \<le> total_blks s * 2 ^ blk_shift s" "rq_len rq \<le> length (rq_dat rq)"
    and "rq_ooblen rq = 0" "rq_len rq < fuel"
    and "\<forall>x. a \<le> x \<and> x < a + rq_len rq \<longrightarrow> bmt_logical (mtk_bmt_bbt_ops nd) mem s x = - 1"
  shows "\<exists>wl s' l s''. mtk_bmt_write fuel nd (mtk_bmt_bbt_ops nd) a rq s = Some (0, wl, s') \<and>
     mtk_bmt_read fuel nd (mtk_bmt_bbt_ops nd) a rq s' = Some (0, l, s'') \<and>
     rl_dat l = take (rq_len rq) (rq_dat rq)"
proof -
  obtain wl d where w: "mtk_bmt_write fuel nd (mtk_bmt_bbt_ops nd) a rq s = Some (0, wl, s\<lparr>dev := d\<rparr>)"
    and L: "\<forall>x < total_blks s * 2 ^ blk_shift s. bmt_logical (mtk_bmt_bbt_ops nd) mem (s\<lparr>dev := d\<rparr>) x =
        (if a \<le> x \<and> x < a + rq_len rq then rq_dat rq ! (x - a)
         else bmt_logical (mtk_bmt_bbt_ops nd) mem s x)"
    using bbt_map.write_contract[OF assms(1-7)] assms(8) by metis
  let ?s = "s\<lparr>dev := d\<rparr>"
  have "bbt_inv ?s" "bmt_geometry ?s" "a + rq_len rq \<le> total_blks ?s * 2 ^ blk_shift ?s"
    using assms bbt_map.inv_dev[OF assms(2)] by simp_all
  from bbt_map.read_contract[OF assms(1) this assms(6,7)]
  obtain l d' where r: "mtk_bmt_read fuel nd (mtk_bmt_bbt_ops nd) a rq ?s
      = Some (0, l, ?s\<lparr>dev := d'\<rparr>)"
    and dat: "rl_dat l = map (bmt_logical (mtk_bmt_bbt_ops nd) mem ?s) [a..<a + rq_len rq]"
    by metis
  have "rl_dat l = take (rq_len rq) (rq_dat rq)"
    using L assms(4,5) by (intro nth_equalityI) (simp_all add: dat)
  with w r show ?thesis by blast
qed

theorem bbt_write_read_back_witness:
  "\<exists>wl s' l s''. mtk_bmt_write 9 ram_chip (mtk_bmt_bbt_ops ram_chip) 6
       \<lparr>rq_mode = 0, rq_ooboffs = 0, rq_ooblen = 0, rq_len = 4, rq_dat = [1, 2, 3, 4], rq_oob = []\<rparr>
       bbt_small = Some (0, wl, s') \<and>
     mtk_bmt_read 9 ram_chip (mtk_bmt_bbt_ops ram_chip) 6
       \<lparr>rq_mode = 0, rq_ooboffs = 0, rq_ooblen = 0, rq_len = 4, rq_dat = [1, 2, 3, 4], rq_oob = []\<rparr>
       s' = Some (0, l, s'') \<and> rl_dat l = [1, 2, 3, 4]"
  using bbt_write_read_back[OF ram_chip_reliable bbt_small_inv small_st_geometry, where a = 6 and
      fuel = 9 and rq = "\<lparr>rq_mode = 0, rq_ooboffs = 0, rq_ooblen = 0, rq_len = 4,
        rq_dat = [1, 2, 3, 4], rq_oob = []\<rparr>"]
  by (simp add: bmt_logical_def)

text \<open>
  Erasing ends. Each block is tried at most eleven times, so the loop returns after a
  number of driver calls that depends only on the addresses, whatever the chip answers.
\<close>

theorem bbt_erase_returns:
  assumes "0 < mtd_erasesize s" and "11 * ((addr + len) div mtd_erasesize s + 1) < fuel"
  shows "\<exists>r f s'. mtk_bmt_mtd_erase fuel nd (mtk_bmt_bbt_ops nd) addr len ret0 s = Some (r, f, s')"
proof -
  let ?E = "mtd_erasesize s"
  have "addr + len \<le> ((addr + len) div ?E + 1) * ?E"
    using dividend_less_div_times[OF assms(1), of "addr + len"] by simp
  then show ?thesis
    unfolding mtk_bmt_mtd_erase_def
    by (intro bbt_map.erase_returns[where E = ?E and n = "(addr + len) div ?E + 1"])
      (use assms in simp_all)
qed

theorem bbt_erase_returns_witness:
  "\<exists>r f s'. mtk_bmt_mtd_erase 200 dead_chip (mtk_bmt_bbt_ops dead_chip) 4 8 0 bbt_small = Some (r, f, s')"
  by (rule bbt_erase_returns) simp_all

end
