(* ===== verification/Bmt_V2.thy ===== *)
theory Bmt_V2
  imports Bmt_Bbt
begin

text \<open>
  The mapping scheme of \<^verbatim>\<open>mtk_bmt_v2.c\<close>. A table \<^verbatim>\<open>bb_tbl\<close> maps every logical block
  of the normal area to a physical block; a pool of spare blocks behind the normal area,
  described by \<^verbatim>\<open>bmt_tbl\<close>, supplies replacements and holds the table itself.

  The source keeps both tables in the byte buffer \<^verbatim>\<open>bbt_buf\<close> and reads them through a
  pointer cast. The model keeps the record \<open>bbbt\<close> and converts it with
  \<open>bbbt_bytes\<close> and \<open>bbbt_of_bytes\<close> where the buffer is written to or read from the chip.
\<close>

section \<open>Constants and layout\<close>

definition NO_MAPPED :: nat where "NO_MAPPED = 0"
definition NORMAL_MAPPED :: nat where "NORMAL_MAPPED = 1"
definition BMT_MAPPED :: nat where "BMT_MAPPED = 2"
definition BBPOOL_RATIO :: nat where "BBPOOL_RATIO = 2"
definition BMT_TBL_DEF_VAL :: nat where "BMT_TBL_DEF_VAL = 0"
definition BBMT_VERSION :: nat where "BBMT_VERSION = 2"

definition bmt_sig :: bytes where
  "bmt_sig = [0x62, 0x6d, 0x74]"  \<comment> \<open>the string \<^verbatim>\<open>bmt\<close>\<close>

definition BMT_sig :: bytes where
  "BMT_sig = [0x42, 0x4d, 0x54]"  \<comment> \<open>the string \<^verbatim>\<open>BMT\<close>\<close>

definition bbmt_bytes :: "bbmt \<Rightarrow> bytes" where
  "bbmt_bytes e = le16 (bm_block e) @ le16 (bm_mapped e)"

definition bbbt_bytes :: "bbbt \<Rightarrow> bytes" where
  "bbbt_bytes b =
     bb_signature b @ [of_nat (bb_version b)] @
     concat (map le16 (bb_tbl b)) @ concat (map bbmt_bytes (bmt_tbl b))"

fun parse_u16s :: "nat \<Rightarrow> bytes \<Rightarrow> nat list" where
  "parse_u16s 0 bs = []"
| "parse_u16s (Suc n) bs = of_le16 bs # parse_u16s n (drop 2 bs)"

fun parse_bbmts :: "nat \<Rightarrow> bytes \<Rightarrow> bbmt list" where
  "parse_bbmts 0 bs = []"
| "parse_bbmts (Suc n) bs =
     \<lparr>bm_block = of_le16 bs, bm_mapped = of_le16 (drop 2 bs)\<rparr> # parse_bbmts n (drop 4 bs)"

definition bbbt_of_bytes :: "nat \<Rightarrow> bytes \<Rightarrow> bbbt" where
  "bbbt_of_bytes n bs =
     \<lparr>bb_signature = take 3 bs, bb_version = unat (byte_at bs 3),
      bb_tbl = parse_u16s n (drop 4 bs),
      bmt_tbl = parse_bbmts n (drop (4 + 2 * n) bs)\<rparr>"

definition set_block :: "nat \<Rightarrow> nat \<Rightarrow> bbbt \<Rightarrow> bbbt" where
  "set_block i v b = b\<lparr>bmt_tbl := (bmt_tbl b)[i := (bmt_tbl b ! i)\<lparr>bm_block := v\<rparr>]\<rparr>"

definition set_mapped :: "nat \<Rightarrow> nat \<Rightarrow> bbbt \<Rightarrow> bbbt" where
  "set_mapped i v b = b\<lparr>bmt_tbl := (bmt_tbl b)[i := (bmt_tbl b ! i)\<lparr>bm_mapped := v\<rparr>]\<rparr>"

section \<open>Scanning a chip without a table\<close>

function find_valid_block_loop ::
  "'d nand_ops \<Rightarrow> nat \<Rightarrow> nat \<Rightarrow> 'd bmt_st \<Rightarrow> nat \<times> 'd bmt_st" where
  "find_valid_block_loop nd block loop s =
     (if block \<ge> total_blks s then (0, s)
      else
        (let (ret, dat, fdm, s1) = bbt_nand_read nd (blk_pg s block) (pg_size s) 4 s;
             s2 = s1\<lparr>data_buf := overlay (data_buf s1) dat\<rparr>
         in if ret \<noteq> 0 \<or> byte_at fdm 0 \<noteq> 0xff then
              (if loop \<ge> bb_max s then (0, s2)
               else find_valid_block_loop nd (to_u16 (int block + 1)) (loop + 1) s2)
            else (block, s2)))"
  by pat_completeness auto
termination
  by (relation "measure (\<lambda>(nd, block, loop, s). bb_max s - loop)")
     (auto simp: bbt_nand_read_def Let_def split: prod.splits)

declare find_valid_block_loop.simps [simp del]

definition find_valid_block :: "'d nand_ops \<Rightarrow> nat \<Rightarrow> 'd bmt_st \<Rightarrow> nat \<times> 'd bmt_st" where
  "find_valid_block nd block s = find_valid_block_loop nd block 0 s"

text \<open>
  The two loops of \<^verbatim>\<open>scan_bad_blocks\<close>. The first fills \<^verbatim>\<open>bb_tbl\<close>; its argument counts
  the entries that are left, and \<open>False\<close> is the early return of \<^verbatim>\<open>-1\<close>.
\<close>

fun scan_normal ::
  "'d nand_ops \<Rightarrow> nat \<Rightarrow> nat \<Rightarrow> bbbt \<Rightarrow> 'd bmt_st \<Rightarrow> bool \<times> bbbt \<times> 'd bmt_st" where
  "scan_normal nd 0 i b s = (True, b, s)"
| "scan_normal nd (Suc n) i b s =
     (let (v, s1) = find_valid_block nd (to_u16 (int (bb_tbl b ! (i - 1)) + 1)) s;
          b1 = b\<lparr>bb_tbl := (bb_tbl b)[i := v]\<rparr>
      in if v = 0 then (False, b1, s1) else scan_normal nd n (i + 1) b1 s1)"

text \<open>
  The second fills \<^verbatim>\<open>bmt_tbl\<close> with the good blocks of the pool. The model spends one unit
  of fuel per entry; the blocks found increase, so \<^verbatim>\<open>total_blks\<close> units are enough.
\<close>

fun scan_pool ::
  "'d nand_ops \<Rightarrow> nat \<Rightarrow> nat \<Rightarrow> nat \<Rightarrow> bbbt \<Rightarrow> 'd bmt_st \<Rightarrow> (nat \<times> bbbt \<times> 'd bmt_st) option" where
  "scan_pool nd 0 block i b s = None"
| "scan_pool nd (Suc n) block i b s =
     (let (v, s1) = find_valid_block nd block s
      in if v = 0 then Some (i, b, s1)
         else scan_pool nd n (to_u16 (int v + 1)) (i + 1)
                (set_mapped i NO_MAPPED (set_block i v b)) s1)"

definition scan_bad_blocks ::
  "'d nand_ops \<Rightarrow> bbbt \<Rightarrow> 'd bmt_st \<Rightarrow> (int \<times> bbbt \<times> 'd bmt_st) option" where
  "scan_bad_blocks nd b s =
     (let b0 = b\<lparr>bb_tbl := (bb_tbl b)[0 := 0]\<rparr>;
          (ok, b1, s1) = scan_normal nd (pool_lba s - 1) 1 b0 s
      in if \<not> ok then Some (- 1, b1, s1)
         else
           (let last = max (pool_lba s) 1 - 1;
                s2 = s1\<lparr>pool_pba := to_u16 (int (bb_tbl b1 ! last) + 1)\<rparr>
            in if int (pool_pba s2) \<ge> int (total_blks s2) - 2 then Some (- 1, b1, s2)
               else
                 (case scan_pool nd (total_blks s2 + 1) (pool_pba s2) 0 b1 s2 of
                    None \<Rightarrow> None
                  | Some (i, b2, s3) \<Rightarrow>
                      (let s4 = s3\<lparr>bmt_blk_idx := to_u16 (int i - 1)\<rparr>;
                           b3 = set_mapped (bmt_blk_idx s4) BMT_MAPPED b2
                       in if i < 1 then Some (- 1, b3, s4) else Some (0, b3, s4)))))"

section \<open>Finding and storing the table\<close>

definition is_valid_bmt :: "bytes \<Rightarrow> bytes \<Rightarrow> bool" where
  "is_valid_bmt buf fdm \<longleftrightarrow>
     take 3 buf = BMT_sig \<and> take 3 (drop OOB_SIGNATURE_OFFSET fdm) = bmt_sig \<and>
     unat (byte_at buf 3) = BBMT_VERSION"

fun get_bmt_index_from :: "nat \<Rightarrow> bbmt list \<Rightarrow> nat" where
  "get_bmt_index_from i [] = 0"
| "get_bmt_index_from i (e # es) =
     (if bm_block e = BMT_TBL_DEF_VAL then 0
      else if bm_mapped e = BMT_MAPPED then to_u16 (int i)
      else get_bmt_index_from (i + 1) es)"

definition get_bmt_index :: "bbmt list \<Rightarrow> nat" where
  "get_bmt_index es = get_bmt_index_from 0 es"

text \<open>
  \<^verbatim>\<open>upload_bmt\<close>: the index is an \<^verbatim>\<open>int\<close> that counts down; \<open>65535\<close> is
  \<^verbatim>\<open>(u16)-1\<close>. The whole buffer is written, so the bytes behind the tables are part of it.
\<close>

definition table_image :: "bbbt \<Rightarrow> 'd bmt_st \<Rightarrow> bytes" where
  "table_image b s = overlay (bbt_buf s) (bbbt_bytes b)"

function upload_bmt ::
  "'d nand_ops \<Rightarrow> bbbt \<Rightarrow> int \<Rightarrow> 'd bmt_st \<Rightarrow> nat \<times> bbbt \<times> 'd bmt_st" where
  "upload_bmt nd b n s =
     (if n < 0 \<or> bm_mapped (bmt_tbl b ! nat n) = NORMAL_MAPPED then (65535, b, s)
      else
        (let block = bm_block (bmt_tbl b ! nat n);
             (e, s1) = bbt_nand_erase nd block s
         in if e \<noteq> 0 then upload_bmt nd (set_block (nat n) 0 b) (n - 1) s1
            else
              (let b1 = b\<lparr>bb_signature := BMT_sig, bb_version := BBMT_VERSION\<rparr>;
                   (w, s2) = write_bmt nd bmt_sig block (table_image b1 s1) s1
               in if w \<noteq> 0 then upload_bmt nd (set_block (nat n) 0 b1) (n - 1) s2
                  else (to_u16 n, b1, s2))))"
  by pat_completeness auto
termination
  by (relation "measure (\<lambda>(nd, b, n, s). nat (n + 1))") auto

declare upload_bmt.simps [simp del]

section \<open>Remapping\<close>

fun find_free_in_pool :: "nat \<Rightarrow> nat \<Rightarrow> bbbt \<Rightarrow> nat option" where
  "find_free_in_pool 0 i b = None"
| "find_free_in_pool (Suc n) i b =
     (if bm_block (bmt_tbl b ! i) \<noteq> 0 \<and> bm_mapped (bmt_tbl b ! i) = NO_MAPPED then Some i
      else find_free_in_pool n (i + 1) b)"

definition find_valid_block_in_pool :: "bbbt \<Rightarrow> 'd bmt_st \<Rightarrow> nat \<times> bbbt" where
  "find_valid_block_in_pool b s =
     (if bmt_blk_idx s = 0 then (0, b)
      else case find_free_in_pool (bmt_blk_idx s) 0 b of
             None \<Rightarrow> (0, b)
           | Some i \<Rightarrow> (bm_block (bmt_tbl b ! i), set_mapped i NORMAL_MAPPED b))"

text \<open>The functions below follow the pointer \<^verbatim>\<open>bmtd.bbt\<close>; it is set once the scheme is
  initialised, and without it the model changes nothing.\<close>

definition remap_block_v2 :: "'d nand_ops \<Rightarrow> 'd remap_fn" where
  "remap_block_v2 nd block mapped_block copy_len s =
     (case bbt s of None \<Rightarrow> (False, s) | Some b \<Rightarrow>
        (let (new_block, b1) = find_valid_block_in_pool b s
         in if new_block = 0 then (False, s)
            else
              (let b2 = b1\<lparr>bb_tbl := (bb_tbl b1)[block := new_block]\<rparr>;
                   s1 = snd (bbt_nand_erase nd new_block s);
                   s2 = (if copy_len > 0
                         then snd (bbt_nand_copy nd new_block mapped_block copy_len s1)
                         else s1);
                   (idx, b3, s3) = upload_bmt nd b2 (int (bmt_blk_idx s2)) s2
               in (True, s3\<lparr>bbt := Some b3, bmt_blk_idx := idx\<rparr>))))"

definition get_mapping_block_index_v2 :: "int \<Rightarrow> 'd bmt_st \<Rightarrow> int" where
  "get_mapping_block_index_v2 block s =
     (if block \<ge> int (pool_lba s) then block
      else case mapping_block_in_range block s of
             None \<Rightarrow> block
           | Some _ \<Rightarrow> (case bbt s of None \<Rightarrow> block | Some b \<Rightarrow> int (bb_tbl b ! nat block)))"

definition unmap_block_v2 :: "'d nand_ops \<Rightarrow> nat \<Rightarrow> 'd bmt_st \<Rightarrow> 'd bmt_st" where
  "unmap_block_v2 nd block s =
     (case bbt s of None \<Rightarrow> s | Some b \<Rightarrow>
        (let b1 = b\<lparr>bb_tbl := (bb_tbl b)[block := block]\<rparr>;
             (idx, b2, s1) = upload_bmt nd b1 (int (bmt_blk_idx s)) s
         in s1\<lparr>bbt := Some b2, bmt_blk_idx := idx\<rparr>))"

section \<open>The debug control\<close>

text \<open>
  \<^verbatim>\<open>mtk_bmt_get_mapping_mask\<close>: the pool entries that some logical block of the main area
  uses. The bit mask is a list of indices.
\<close>

fun first_pool_entry :: "nat \<Rightarrow> nat \<Rightarrow> nat \<Rightarrow> bbbt \<Rightarrow> nat option" where
  "first_pool_entry 0 k v b = None"
| "first_pool_entry (Suc n) k v b =
     (if v \<noteq> bm_block (bmt_tbl b ! k) then first_pool_entry n (k + 1) v b else Some k)"

definition mtk_bmt_get_mapping_mask :: "bbbt \<Rightarrow> 'd bmt_st \<Rightarrow> nat list" where
  "mtk_bmt_get_mapping_mask b s =
     List.map_filter
       (\<lambda>i. if bb_tbl b ! i = i then None
            else first_pool_entry (bmt_blk_idx s) 0 (bb_tbl b ! i) b)
       [1..<mtd_size s div 2 ^ blk_shift s]"

fun free_unused :: "nat list \<Rightarrow> nat list \<Rightarrow> bbbt \<Rightarrow> nat \<times> bbbt" where
  "free_unused used [] b = (0, b)"
| "free_unused used (i # is) b =
     (if bm_mapped (bmt_tbl b ! i) \<noteq> NORMAL_MAPPED \<or> i \<in> set used
      then free_unused used is b
      else (let (n, b1) = free_unused used is (set_mapped i NO_MAPPED b) in (n + 1, b1)))"

definition mtk_bmt_debug_v2 ::
  "'d nand_ops \<Rightarrow> bool \<Rightarrow> nat \<Rightarrow> 'd bmt_st \<Rightarrow> int \<times> 'd bmt_st" where
  "mtk_bmt_debug_v2 nd alloc_ok val s =
     (case bbt s of None \<Rightarrow> (0, s) | Some b \<Rightarrow>
        if \<not> alloc_ok then (- ENOMEM, s)
        else if val = 100 then
          (let (n_remap, b1) = free_unused (mtk_bmt_get_mapping_mask b s)
                                 [0..<bmt_blk_idx s + 1] b
           in if n_remap \<noteq> 0 then
                (let (idx, b2, s1) = upload_bmt nd b1 (int (bmt_blk_idx s)) s
                 in (0, s1\<lparr>bbt := Some b2, bmt_blk_idx := idx\<rparr>))
              else (0, s\<lparr>bbt := Some b1\<rparr>))
        else (0, s))"

section \<open>Initialisation\<close>

text \<open>
  The search for a stored table, from the last block down to \<^verbatim>\<open>pool_lba\<close>. The first
  argument counts the blocks that are left. \<^verbatim>\<open>pool_lba\<close> is \<^verbatim>\<open>pmt_block + 2\<close>; if that
  overflowed to 0, the 16 bit index of the source would wrap around instead.
\<close>

fun find_bmt ::
  "'d nand_ops \<Rightarrow> nat \<Rightarrow> nat \<Rightarrow> nat \<Rightarrow> 'd bmt_st \<Rightarrow> 'd bmt_st" where
  "find_bmt nd 0 block bufsz s = s"
| "find_bmt nd (Suc n) block bufsz s =
     (let (ret, dat, fdm, s1) = bbt_nand_read nd (blk_pg s block) bufsz 4 s;
          s2 = s1\<lparr>bbt_buf := overlay (bbt_buf s1) dat\<rparr>
      in if ret \<noteq> 0 then find_bmt nd n (block - 1) bufsz s2
         else if \<not> is_valid_bmt (bbt_buf s2) fdm then find_bmt nd n (block - 1) bufsz s2
         else
           (let b = bbbt_of_bytes (table_size s2) (bbt_buf s2);
                s3 = s2\<lparr>bmt_blk_idx := get_bmt_index (bmt_tbl b)\<rparr>
            in if bmt_blk_idx s3 = 0 then s3 else s3\<lparr>bbt := Some b\<rparr>))"

definition bbt_bufsz :: "nat \<Rightarrow> nat \<Rightarrow> nat" where
  "bbt_bufsz tsize pgsz = round_up (4 + tsize * 4) pgsz"

definition mtk_bmt_init_v2 ::
  "'d nand_ops \<Rightarrow> bool \<Rightarrow> dt_node \<Rightarrow> 'd bmt_st \<Rightarrow> (int \<times> 'd bmt_st) option" where
  "mtk_bmt_init_v2 nd alloc_ok np s =
     (let bmt_pool_size = (case dt_pool_size np of None \<Rightarrow> 80 | Some n \<Rightarrow> n);
          s1 = s\<lparr>oob_offset := (case dt_oob_offset np of None \<Rightarrow> 0 | Some n \<Rightarrow> n),
                 table_size := (case dt_table_size np of None \<Rightarrow> 8192 | Some n \<Rightarrow> n)\<rparr>;
          pmt_block = to_u16 (int (total_blks s1) - int bmt_pool_size - 2);
          bufsz = bbt_bufsz (table_size s1) (pg_size s1);
          s2 = s1\<lparr>mtd_size := size_of_blocks pmt_block (blk_shift s1),
                  pool_lba := to_u16 (int pmt_block + 2),
                  bb_max := total_blks s1 * BBPOOL_RATIO div 100,
                  bmt_pgs := bufsz div 2 ^ pg_shift s1\<rparr>
      in if \<not> alloc_ok then Some (- ENOMEM, s2)
         else
           (let s3 = s2\<lparr>bbt_buf := replicate bufsz (- 1), bbt := None\<rparr>;
                s4 = find_bmt nd (total_blks s3 - pool_lba s3) (total_blks s3 - 1) bufsz s3
            in case bbt s4 of
                 Some _ \<Rightarrow> Some (0, s4)
               | None \<Rightarrow>
                   if total_blks s4 > table_size s4 + table_size s4 * BBPOOL_RATIO div 100
                   then Some (- 1, s4)
                   else
                     (let b0 = (bbbt_of_bytes (table_size s4) (bbt_buf s4))
                                 \<lparr>bmt_tbl := replicate (table_size s4)
                                    \<lparr>bm_block = 0, bm_mapped = 0\<rparr>\<rparr>
                      in case scan_bad_blocks nd b0 s4 of
                           None \<Rightarrow> None
                         | Some (ret, b1, s5) \<Rightarrow>
                             if ret \<noteq> 0 then Some (- 1, s5\<lparr>bbt := Some b1\<rparr>)
                             else
                               (let (idx, b2, s6) =
                                      upload_bmt nd b1 (int (bmt_blk_idx s5)) s5;
                                    s7 = s6\<lparr>bbt := Some b2, bmt_blk_idx := idx\<rparr>
                                in if idx = 65535 then Some (- 1, s7) else Some (0, s7)))))"

definition mtk_bmt_v2_ops :: "'d nand_ops \<Rightarrow> 'd mtk_bmt_ops" where
  "mtk_bmt_v2_ops nd =
     \<lparr>op_sig = bmt_sig, op_remap_block = remap_block_v2 nd,
      op_unmap_block = unmap_block_v2 nd,
      op_get_mapping_block = get_mapping_block_index_v2,
      op_debug = mtk_bmt_debug_v2 nd True\<rparr>"

section \<open>Storing the table\<close>

lemma set_block_simps [simp]:
  "bb_tbl (set_block i v b) = bb_tbl b"
  "length (bmt_tbl (set_block i v b)) = length (bmt_tbl b)"
  "j \<noteq> i \<Longrightarrow> bmt_tbl (set_block i v b) ! j = bmt_tbl b ! j"
  by (simp_all add: set_block_def)

lemma set_mapped_simps [simp]:
  "bb_tbl (set_mapped i v b) = bb_tbl b"
  "length (bmt_tbl (set_mapped i v b)) = length (bmt_tbl b)"
  "j \<noteq> i \<Longrightarrow> bmt_tbl (set_mapped i v b) ! j = bmt_tbl b ! j"
  by (simp_all add: set_mapped_def)

definition upload_frame :: "bbbt \<Rightarrow> int \<Rightarrow> 'd bmt_st \<Rightarrow> nat \<times> bbbt \<times> 'd bmt_st \<Rightarrow> bool" where
  "upload_frame b n s r \<longleftrightarrow> (case r of (idx, b', s') \<Rightarrow>
     (\<exists>d. s' = s\<lparr>dev := d\<rparr>) \<and> bb_tbl b' = bb_tbl b \<and>
     length (bmt_tbl b') = length (bmt_tbl b) \<and>
     (\<forall>i. n < int i \<longrightarrow> bmt_tbl b' ! i = bmt_tbl b ! i) \<and>
     (idx \<noteq> 65535 \<longrightarrow> int idx \<le> n \<and> (\<forall>i \<le> idx. bmt_tbl b' ! i = bmt_tbl b ! i) \<and>
        (\<forall>i. idx < i \<and> int i \<le> n \<longrightarrow> bm_block (bmt_tbl b' ! i) = 0)))"

lemma upload_frame_step:
  assumes "upload_frame b1 (n - 1) s1 r" and "s1 = s\<lparr>dev := d\<rparr>"
    and "bb_tbl b1 = bb_tbl b" "length (bmt_tbl b1) = length (bmt_tbl b)"
    and "\<And>j. int j \<noteq> n \<Longrightarrow> bmt_tbl b1 ! j = bmt_tbl b ! j"
    and "0 \<le> n" "bm_block (bmt_tbl b1 ! nat n) = 0"
  shows "upload_frame b n s r"
proof -
  obtain idx b' s' where r: "r = (idx, b', s')" by (cases r)
  note A = assms(1)[unfolded upload_frame_def r prod.case]
  have "bmt_tbl b' ! nat n = bmt_tbl b1 ! nat n" using A assms(6) by auto
  then have z: "bm_block (bmt_tbl b' ! nat n) = 0" using assms(7) by simp
  have "bm_block (bmt_tbl b' ! i) = 0" if "idx < i" "int i \<le> n" "idx \<noteq> 65535" for i
    using that A z by (cases "int i = n") auto
  moreover have "bmt_tbl b' ! i = bmt_tbl b ! i" if "n < int i" for i
    using that A assms(5)[of i] by auto
  moreover have "int idx \<le> n \<and> (\<forall>i \<le> idx. bmt_tbl b' ! i = bmt_tbl b ! i)" if "idx \<noteq> 65535"
    using that A assms(5) by auto
  ultimately show ?thesis
    using A assms(2-4) unfolding upload_frame_def r prod.case by auto
qed

lemma upload_bmt_frame:
  "n < 65535 \<Longrightarrow> n < int (length (bmt_tbl b)) \<Longrightarrow> upload_frame b n s (upload_bmt nd b n s)"
proof (induction nd b n s rule: upload_bmt.induct)
  case (1 nd b n s)
  show ?case
  proof (cases "n < 0 \<or> bm_mapped (bmt_tbl b ! nat n) = NORMAL_MAPPED")
    case True
    then show ?thesis
      by (subst upload_bmt.simps) (auto simp: upload_frame_def intro: exI[of _ "dev s"])
  next
    case go: False
    let ?blk = "bm_block (bmt_tbl b ! nat n)"
    obtain e s1 where er: "bbt_nand_erase nd ?blk s = (e, s1)" by fastforce
    obtain d1 where s1: "s1 = s\<lparr>dev := d1\<rparr>" using bbt_nand_erase_dev[of nd ?blk s] er by auto
    show ?thesis
    proof (cases "e = 0")
      case False
      have "upload_frame (set_block (nat n) 0 b) (n - 1) s1
          (upload_bmt nd (set_block (nat n) 0 b) (n - 1) s1)"
        using "1.IH"(1)[OF go refl er[symmetric] refl False] "1.prems" by simp
      then have "upload_frame b n s (upload_bmt nd (set_block (nat n) 0 b) (n - 1) s1)"
        using go "1.prems"(2)
        by (elim upload_frame_step[where ?b1.0 = "set_block (nat n) 0 b"]) (auto simp: s1 set_block_def)
      then show ?thesis
        using go False er by (subst upload_bmt.simps) simp
    next
      case True
      define b1 where "b1 = b\<lparr>bb_signature := BMT_sig, bb_version := BBMT_VERSION\<rparr>"
      obtain w s2 where wr: "write_bmt nd bmt_sig ?blk (table_image b1 s1) s1 = (w, s2)"
        by fastforce
      obtain d2 where s2: "s2 = s\<lparr>dev := d2\<rparr>"
        using write_bmt_dev[of nd bmt_sig ?blk "table_image b1 s1" s1] wr s1 by auto
      show ?thesis
      proof (cases "w = 0")
        case False
        have "upload_frame (set_block (nat n) 0 b1) (n - 1) s2
            (upload_bmt nd (set_block (nat n) 0 b1) (n - 1) s2)"
          using "1.IH"(2)[OF go refl er[symmetric] refl _ b1_def wr[symmetric] refl False]
            "1.prems" True by (simp add: b1_def)
        then have "upload_frame b n s (upload_bmt nd (set_block (nat n) 0 b1) (n - 1) s2)"
          using go "1.prems"(2)
          by (elim upload_frame_step[where ?b1.0 = "set_block (nat n) 0 b1"])
            (auto simp: b1_def s2 set_block_def)
        then show ?thesis
          using go False True er wr by (subst upload_bmt.simps) (simp add: b1_def[symmetric])
      next
        case w0: True
        then have "upload_bmt nd b n s = (to_u16 n, b1, s2)"
          using go True er wr by (subst upload_bmt.simps) (simp add: b1_def[symmetric])
        then show ?thesis
          using go "1.prems" s2 by (auto simp: upload_frame_def b1_def to_u16_id)
      qed
    qed
  qed
qed

section \<open>The invariant of the tables\<close>

text \<open>
  \<open>v2_map\<close> is the physical block of a logical block of the normal area. A pool entry is free
  when \<^verbatim>\<open>find_valid_block_in_pool\<close> would take it.
\<close>

definition v2_map :: "'d bmt_st \<Rightarrow> nat \<Rightarrow> nat" where
  "v2_map s x = nat (get_mapping_block_index_v2 (int x) s)"

definition pool_free :: "bbbt \<Rightarrow> nat \<Rightarrow> bool" where
  "pool_free b i \<longleftrightarrow> bm_block (bmt_tbl b ! i) \<noteq> 0 \<and> bm_mapped (bmt_tbl b ! i) = NO_MAPPED"

definition pool_block :: "bbbt \<Rightarrow> nat \<Rightarrow> nat" where
  "pool_block b i = bm_block (bmt_tbl b ! i)"

definition v2_tables_ok :: "bbbt \<Rightarrow> 'd bmt_st \<Rightarrow> bool" where
  "v2_tables_ok b s \<longleftrightarrow>
     pool_lba s \<le> length (bb_tbl b) \<and> pool_lba s \<le> total_blks s \<and>
     bmt_blk_idx s < length (bmt_tbl b) \<and> length (bmt_tbl b) \<le> 65535 \<and>
     (\<forall>x < pool_lba s. v2_map s x < total_blks s) \<and> inj_on (v2_map s) {..<pool_lba s} \<and>
     (\<forall>i < bmt_blk_idx s. pool_free b i \<longrightarrow>
        pool_block b i < total_blks s \<and> pool_block b i \<notin> v2_map s ` {..<pool_lba s}) \<and>
     inj_on (pool_block b) {i. i < bmt_blk_idx s \<and> pool_free b i}"

definition v2_inv :: "'d bmt_st \<Rightarrow> bool" where
  "v2_inv s \<longleftrightarrow> (case bbt s of None \<Rightarrow> False | Some b \<Rightarrow> v2_tables_ok b s)"

lemma v2_mapping_nonneg: "0 \<le> get_mapping_block_index_v2 (int x) s"
  by (auto simp: get_mapping_block_index_v2_def split: option.split)

lemma find_free_in_pool_Some:
  "find_free_in_pool n i b = Some j \<Longrightarrow> i \<le> j \<and> j < i + n \<and> pool_free b j"
  by (induction n i b rule: find_free_in_pool.induct) (auto simp: pool_free_def split: if_splits)

lemma mapping_block_in_range_frame:
  "remap_range s' = remap_range s \<Longrightarrow> total_blks s' = total_blks s \<Longrightarrow> blk_shift s' = blk_shift s \<Longrightarrow>
   mapping_block_in_range x s' = mapping_block_in_range x s"
  by (simp add: mapping_block_in_range_def)

definition same_layout :: "'d bmt_st \<Rightarrow> 'd bmt_st \<Rightarrow> bool" where
  "same_layout s s' \<longleftrightarrow> remap_range s' = remap_range s \<and> total_blks s' = total_blks s \<and>
     blk_shift s' = blk_shift s \<and> pool_lba s' = pool_lba s"

lemma v2_map_update:
  assumes "same_layout s s'" "bbt s = Some b" "bbt s' = Some b'"
    and "bb_tbl b' = (bb_tbl b)[k := v]" "x < pool_lba s" "pool_lba s \<le> length (bb_tbl b)"
  shows "v2_map s' x = (if x = k \<and> mapping_block_in_range (int x) s \<noteq> None then v else v2_map s x)"
  using assms mapping_block_in_range_frame[of s' s "int x"]
  by (auto simp: same_layout_def v2_map_def get_mapping_block_index_v2_def nth_list_update_if
      split: option.split)


lemma remap_block_v2_cases:
  assumes b: "bbt s = Some b" and r: "remap_block_v2 nd k m c s = (ok, s')"
    and idx: "bmt_blk_idx s < length (bmt_tbl b)" "length (bmt_tbl b) \<le> 65535"
  shows "(\<not> ok \<and> s' = s) \<or>
    (\<exists>j b'. ok \<and> j < bmt_blk_idx s \<and> pool_free b j \<and> bbt s' = Some b' \<and> same_layout s s' \<and>
       bb_tbl b' = (bb_tbl b)[k := pool_block b j] \<and> length (bmt_tbl b') = length (bmt_tbl b) \<and>
       (bmt_blk_idx s' \<noteq> 65535 \<longrightarrow> bmt_blk_idx s' \<le> bmt_blk_idx s \<and>
          (\<forall>i \<le> bmt_blk_idx s'. bmt_tbl b' ! i = bmt_tbl (set_mapped j NORMAL_MAPPED b) ! i)))"
proof (cases "fst (find_valid_block_in_pool b s) = 0")
  case True
  then show ?thesis
    using r b by (auto simp: remap_block_v2_def split: prod.splits)
next
  case False
  then obtain j where j: "find_free_in_pool (bmt_blk_idx s) 0 b = Some j"
    and fv: "find_valid_block_in_pool b s = (pool_block b j, set_mapped j NORMAL_MAPPED b)"
    by (auto simp: find_valid_block_in_pool_def pool_block_def split: if_splits option.splits)
  have j': "j < bmt_blk_idx s" "pool_free b j" using find_free_in_pool_Some[OF j] by auto
  define b2 where "b2 = (set_mapped j NORMAL_MAPPED b)\<lparr>bb_tbl := (bb_tbl b)[k := pool_block b j]\<rparr>"
  define s1 where "s1 = snd (bbt_nand_erase nd (pool_block b j) s)"
  define s2 where "s2 = (if c > 0 then snd (bbt_nand_copy nd (pool_block b j) m c s1) else s1)"
  obtain i b3 s3 where up: "upload_bmt nd b2 (int (bmt_blk_idx s2)) s2 = (i, b3, s3)"
    by (metis prod_cases3)
  have "\<exists>d. s1 = s\<lparr>dev := d\<rparr>" unfolding s1_def by (rule bbt_nand_erase_dev)
  then have sc: "\<exists>x d. s2 = s\<lparr>data_buf := x, dev := d\<rparr>"
  proof (cases "c > 0")
    case True
    obtain d where s1: "s1 = s\<lparr>dev := d\<rparr>" using \<open>\<exists>d. s1 = s\<lparr>dev := d\<rparr>\<close> ..
    obtain x d' where "snd (bbt_nand_copy nd (pool_block b j) m c s1) = s1\<lparr>data_buf := x, dev := d'\<rparr>"
      using bbt_nand_copy_scratch by metis
    then have "s2 = s\<lparr>data_buf := x, dev := d'\<rparr>" using True s1 by (simp add: s2_def)
    then show ?thesis by blast
  next
    case False
    with \<open>\<exists>d. s1 = s\<lparr>dev := d\<rparr>\<close> show ?thesis
      by (auto simp: s2_def intro!: exI[of _ "data_buf s"])
  qed
  have ok: "ok" and s': "s' = s3\<lparr>bbt := Some b3, bmt_blk_idx := i\<rparr>"
    using r b fv False up
    by (simp_all add: remap_block_v2_def Let_def s1_def[symmetric] s2_def[symmetric]
        b2_def[symmetric])
  have i2: "bmt_blk_idx s2 = bmt_blk_idx s" using sc by auto
  have "upload_frame b2 (int (bmt_blk_idx s)) s2 (i, b3, s3)"
    using upload_bmt_frame[of "int (bmt_blk_idx s)" b2 s2 nd] idx up i2 by (simp add: b2_def)
  then have U: "\<exists>d. s3 = s2\<lparr>dev := d\<rparr>" "bb_tbl b3 = (bb_tbl b)[k := pool_block b j]"
    "length (bmt_tbl b3) = length (bmt_tbl b)"
    "i \<noteq> 65535 \<Longrightarrow> i \<le> bmt_blk_idx s \<and>
       (\<forall>n \<le> i. bmt_tbl b3 ! n = bmt_tbl (set_mapped j NORMAL_MAPPED b) ! n)"
    by (auto simp: upload_frame_def b2_def)
  have "same_layout s s'" using U(1) sc s' by (auto simp: same_layout_def)
  with ok j' U s' show ?thesis by auto
qed

lemma remap_block_v2_tables:
  assumes inv: "v2_inv s" and r: "remap_block_v2 nd k m c s = (ok, s')"
    and idx: "bmt_blk_idx s' \<noteq> 65535"
  shows "v2_inv s'"
proof -
  obtain b where b: "bbt s = Some b" and T: "v2_tables_ok b s"
    using inv by (auto simp: v2_inv_def split: option.splits)
  note T' = T[unfolded v2_tables_ok_def]
  from remap_block_v2_cases[OF b r] T'
  consider "s' = s" | (new) j b' where "j < bmt_blk_idx s" "pool_free b j" "bbt s' = Some b'"
      "same_layout s s'" "bb_tbl b' = (bb_tbl b)[k := pool_block b j]"
      "length (bmt_tbl b') = length (bmt_tbl b)" "bmt_blk_idx s' \<le> bmt_blk_idx s"
      "\<And>i. i \<le> bmt_blk_idx s' \<Longrightarrow> bmt_tbl b' ! i = bmt_tbl (set_mapped j NORMAL_MAPPED b) ! i"
    using idx by blast
  then show ?thesis
  proof cases
    case 1
    then show ?thesis using inv by simp
  next
    case new
    let ?v = "pool_block b j"
    have lay: "pool_lba s' = pool_lba s" "total_blks s' = total_blks s"
      using new(4) by (auto simp: same_layout_def)
    have len: "pool_lba s \<le> length (bb_tbl b)" using T' by blast
    have jl: "j < length (bmt_tbl b)" using new(1) T' by linarith
    have v: "?v < total_blks s" "?v \<notin> v2_map s ` {..<pool_lba s}" using T' new(1,2) by auto
    have map: "v2_map s' x = (if x = k \<and> mapping_block_in_range (int x) s \<noteq> None then ?v else v2_map s x)"
      if "x < pool_lba s" for x
      using v2_map_update[OF new(4) b new(3,5) that len] .
    have img: "v2_map s' ` {..<pool_lba s} \<subseteq> insert ?v (v2_map s ` {..<pool_lba s})"
      using map by auto
    have inj: "inj_on (v2_map s') {..<pool_lba s}"
    proof (rule inj_onI)
      fix x y assume xy: "x \<in> {..<pool_lba s}" "y \<in> {..<pool_lba s}" "v2_map s' x = v2_map s' y"
      have "v2_map s x \<noteq> ?v" "v2_map s y \<noteq> ?v" using v(2) xy(1,2) by (metis imageI)+
      with xy map[of x] map[of y] have "x = y \<or> v2_map s x = v2_map s y"
        by (auto split: if_splits)
      then show "x = y" using T' xy by (auto dest: inj_onD)
    qed
    have free: "pool_free b' i \<longleftrightarrow> pool_free b i \<and> i \<noteq> j" "pool_block b' i = pool_block b i"
      if "i < bmt_blk_idx s'" for i
    proof -
      have e: "bmt_tbl b' ! i = bmt_tbl (set_mapped j NORMAL_MAPPED b) ! i"
        using new(8) that by simp
      show "pool_free b' i \<longleftrightarrow> pool_free b i \<and> i \<noteq> j"
        using e jl by (cases "i = j") (auto simp: pool_free_def set_mapped_def NORMAL_MAPPED_def
          NO_MAPPED_def)
      show "pool_block b' i = pool_block b i"
        using e jl by (cases "i = j") (auto simp: pool_block_def set_mapped_def)
    qed
    have dist: "pool_block b i \<noteq> ?v" if "i < bmt_blk_idx s" "pool_free b i" "i \<noteq> j" for i
      using T' that new(1,2) unfolding inj_on_def by blast
    have "v2_tables_ok b' s'"
      unfolding v2_tables_ok_def lay
    proof (intro conjI allI impI)
      show "pool_lba s \<le> length (bb_tbl b')" using len new(5) by simp
      show "pool_lba s \<le> total_blks s" using T' by blast
      show "bmt_blk_idx s' < length (bmt_tbl b')" using T' new(6,7) by linarith
      show "length (bmt_tbl b') \<le> 65535" using T' new(6) by simp
      show "v2_map s' x < total_blks s" if "x < pool_lba s" for x
        using map[OF that] v(1) T' that by auto
      show "inj_on (v2_map s') {..<pool_lba s}" by (rule inj)
      show "pool_block b' i < total_blks s" if "i < bmt_blk_idx s'" "pool_free b' i" for i
        using free that new(7) T' by auto
      show "pool_block b' i \<notin> v2_map s' ` {..<pool_lba s}"
        if "i < bmt_blk_idx s'" "pool_free b' i" for i
      proof -
        have i: "i < bmt_blk_idx s" "pool_free b i" "i \<noteq> j" using free[OF that(1)] that new(7) by auto
        then have "pool_block b i \<notin> insert ?v (v2_map s ` {..<pool_lba s})" using T' dist[OF i] by simp
        with img show ?thesis using free(2)[OF that(1)] by (auto dest: subsetD)
      qed
      show "inj_on (pool_block b') {i. i < bmt_blk_idx s' \<and> pool_free b' i}"
      proof (rule inj_onI)
        fix x y assume "x \<in> {i. i < bmt_blk_idx s' \<and> pool_free b' i}"
          "y \<in> {i. i < bmt_blk_idx s' \<and> pool_free b' i}" "pool_block b' x = pool_block b' y"
        then have "x < bmt_blk_idx s" "pool_free b x" "y < bmt_blk_idx s" "pool_free b y"
          "pool_block b x = pool_block b y" using free new(7) by auto
        then show "x = y" using T' unfolding inj_on_def by blast
      qed
    qed
    then show ?thesis using new(3) by (simp add: v2_inv_def)
  qed
qed

lemma v2_mapping_dev [simp]:
  "get_mapping_block_index_v2 x (s\<lparr>dev := d\<rparr>) = get_mapping_block_index_v2 x s"
  by (simp add: get_mapping_block_index_v2_def mapping_block_in_range_def cong: option.case_cong)

lemma v2_map_dev [simp]: "v2_map (s\<lparr>dev := d\<rparr>) = v2_map s"
  by (simp add: v2_map_def fun_eq_iff)

lemma v2_inv_dev: "v2_inv s \<Longrightarrow> v2_inv (s\<lparr>dev := d\<rparr>)"
  by (auto simp: v2_inv_def v2_tables_ok_def split: option.splits)

interpretation v2_backend: bmt_backend "mtk_bmt_v2_ops nd" v2_inv pool_lba for nd :: "'d nand_ops"
proof (unfold_locales, unfold mtk_bmt_v2_ops_def mtk_bmt_ops.simps, goal_cases)
  case 1
  then show ?case by (auto simp: v2_inv_def v2_tables_ok_def split: option.splits)
next
  case (2 s x)
  then show ?case using v2_mapping_nonneg[of x s]
    by (auto simp: v2_inv_def v2_tables_ok_def v2_map_def nat_less_iff split: option.splits)
next
  case (3 s x y)
  then show ?case
    by (auto simp: v2_inv_def v2_tables_ok_def v2_map_def inj_on_def split: option.splits)
next
  case 4
  show ?case by (rule v2_mapping_dev)
next
  case 5
  then show ?case by (rule v2_inv_dev)
next
  case 6
  show ?case by simp
qed

section \<open>The tables of a fresh chip\<close>

text \<open>What the scanning functions change of the state: the chip and the scratch buffer.\<close>

definition scratch_only :: "'d bmt_st \<Rightarrow> 'd bmt_st \<Rightarrow> bool" where
  "scratch_only s s' \<longleftrightarrow> (\<exists>x d. s' = s\<lparr>data_buf := x, dev := d\<rparr>)"

lemma scratch_only_refl [simp]: "scratch_only s s"
  unfolding scratch_only_def by (intro exI[of _ "data_buf s"] exI[of _ "dev s"]) simp

lemma scratch_only_trans: "scratch_only s t \<Longrightarrow> scratch_only t u \<Longrightarrow> scratch_only s u"
  by (auto simp: scratch_only_def) blast

lemma scratch_only_eqs:
  assumes "scratch_only s s'"
  shows "total_blks s' = total_blks s" "bb_max s' = bb_max s" "remap_range s' = remap_range s"
    "pool_lba s' = pool_lba s"
  using assms by (auto simp: scratch_only_def)

lemma find_valid_block_loop_spec:
  "total_blks s < 65536 \<Longrightarrow> find_valid_block_loop nd block loop s = (v, s') \<Longrightarrow>
   scratch_only s s' \<and> (v \<noteq> 0 \<longrightarrow> block \<le> v \<and> v < total_blks s)"
proof (induction nd block loop s rule: find_valid_block_loop.induct)
  case (1 nd block loop s)
  show ?case
  proof (cases "block \<ge> total_blks s")
    case True
    then show ?thesis using "1.prems" by (subst (asm) find_valid_block_loop.simps) simp
  next
    case lt: False
    obtain ret dat fdm s1 where rd: "bbt_nand_read nd (blk_pg s block) (pg_size s) 4 s = (ret, dat, fdm, s1)"
      by (metis prod_cases4)
    define s2 where "s2 = s1\<lparr>data_buf := overlay (data_buf s1) dat\<rparr>"
    have "\<exists>d. s1 = s\<lparr>dev := d\<rparr>" using rd by (auto simp: bbt_nand_read_def Let_def split: prod.splits)
    then obtain d where "s1 = s\<lparr>dev := d\<rparr>" ..
    then have "s2 = s\<lparr>data_buf := overlay (data_buf s) dat, dev := d\<rparr>" by (simp add: s2_def)
    then have so: "scratch_only s s2" unfolding scratch_only_def by blast
    have b1: "to_u16 (int block + 1) = block + 1"
      using lt "1.prems"(1) by (simp add: to_u16_def nat_add_distrib)
    show ?thesis
    proof (cases "ret \<noteq> 0 \<or> byte_at fdm 0 \<noteq> 0xff")
      case bad: True
      show ?thesis
      proof (cases "loop \<ge> bb_max s")
        case True
        with lt bad rd so "1.prems" show ?thesis
          by (subst (asm) find_valid_block_loop.simps) (auto simp: s2_def[symmetric])
      next
        case go: False
        have "find_valid_block_loop nd (block + 1) (loop + 1) s2 = (v, s')"
          using lt bad go rd "1.prems"(2)
          by (subst (asm) find_valid_block_loop.simps) (simp add: s2_def[symmetric] b1 split: if_splits)
        then have "scratch_only s2 s' \<and> (v \<noteq> 0 \<longrightarrow> block + 1 \<le> v \<and> v < total_blks s2)"
          using "1.IH"[OF lt rd[symmetric] refl refl refl s2_def bad go] "1.prems"(1) scratch_only_eqs[OF so] b1
          by simp
        then show ?thesis using scratch_only_trans[OF so] scratch_only_eqs[OF so] by auto
      qed
    next
      case False
      with lt rd so "1.prems" show ?thesis
        by (subst (asm) find_valid_block_loop.simps) (auto simp: s2_def[symmetric])
    qed
  qed
qed

lemma find_valid_block_spec:
  "total_blks s < 65536 \<Longrightarrow> find_valid_block nd block s = (v, s') \<Longrightarrow>
   scratch_only s s' \<and> (v \<noteq> 0 \<longrightarrow> block \<le> v \<and> v < total_blks s)"
  unfolding find_valid_block_def by (rule find_valid_block_loop_spec)

definition increasing_to :: "nat list \<Rightarrow> nat \<Rightarrow> nat \<Rightarrow> bool" where
  "increasing_to xs n mx \<longleftrightarrow> n \<le> length xs \<and> (\<forall>j < n. xs ! j < mx) \<and>
     (\<forall>i j. i < j \<longrightarrow> j < n \<longrightarrow> xs ! i < xs ! j)"

lemma increasing_to_snoc:
  "increasing_to xs n mx \<Longrightarrow> n < length xs \<Longrightarrow> v < mx \<Longrightarrow> (0 < n \<Longrightarrow> xs ! (n - 1) < v) \<Longrightarrow>
   increasing_to (xs[n := v]) (Suc n) mx"
proof -
  assume a: "increasing_to xs n mx" "n < length xs" "v < mx" and v: "0 < n \<Longrightarrow> xs ! (n - 1) < v"
  have "xs ! i < v" if "i < n" for i
    using a(1) that v unfolding increasing_to_def
    by (cases "i = n - 1") (auto simp: less_imp_le_nat intro: less_trans[of _ "xs ! (n - 1)"])
  then show ?thesis using a by (auto simp: increasing_to_def nth_list_update less_Suc_eq)
qed

lemma scan_normal_spec:
  assumes "total_blks s < 65536" "1 \<le> i" "i + n \<le> length (bb_tbl b)"
    and "increasing_to (bb_tbl b) i (total_blks s)"
    and "scan_normal nd n i b s = (True, b', s')"
  shows "scratch_only s s' \<and> increasing_to (bb_tbl b') (i + n) (total_blks s) \<and> bmt_tbl b' = bmt_tbl b \<and>
    length (bb_tbl b') = length (bb_tbl b)"
  using assms
proof (induction n arbitrary: i b s)
  case 0
  then show ?case by simp
next
  case (Suc n)
  obtain v s1 where fv: "find_valid_block nd (to_u16 (int (bb_tbl b ! (i - 1)) + 1)) s = (v, s1)"
    by fastforce
  define b1 where "b1 = b\<lparr>bb_tbl := (bb_tbl b)[i := v]\<rparr>"
  have prev: "bb_tbl b ! (i - 1) < total_blks s"
    using Suc.prems(2,4) by (simp add: increasing_to_def)
  then have "to_u16 (int (bb_tbl b ! (i - 1)) + 1) = bb_tbl b ! (i - 1) + 1"
    using Suc.prems(1) by (simp add: to_u16_def nat_add_distrib)
  with find_valid_block_spec[OF Suc.prems(1) fv]
  have so: "scratch_only s s1" and v: "v \<noteq> 0 \<Longrightarrow> bb_tbl b ! (i - 1) < v \<and> v < total_blks s" by auto
  have v0: "v \<noteq> 0" and rest: "scan_normal nd n (i + 1) b1 s1 = (True, b', s')"
    using Suc.prems(5) fv by (auto simp: Let_def b1_def[symmetric] split: if_splits)
  have inc: "increasing_to (bb_tbl b1) (i + 1) (total_blks s1)"
    using increasing_to_snoc[OF Suc.prems(4), of v] v[OF v0] Suc.prems(3) scratch_only_eqs[OF so]
    by (simp add: b1_def)
  have "scratch_only s1 s' \<and> increasing_to (bb_tbl b') (i + 1 + n) (total_blks s1) \<and>
      bmt_tbl b' = bmt_tbl b1 \<and> length (bb_tbl b') = length (bb_tbl b1)"
    using Suc.prems(1,3) scratch_only_eqs[OF so] rest
    by (intro Suc.IH[OF _ _ _ inc]) (simp_all add: b1_def)
  then show ?case
    using scratch_only_trans[OF so] scratch_only_eqs[OF so] by (simp add: b1_def)
qed

definition pool_filled :: "bbbt \<Rightarrow> nat \<Rightarrow> nat \<Rightarrow> nat \<Rightarrow> bool" where
  "pool_filled b lo n mx \<longleftrightarrow> n \<le> length (bmt_tbl b) \<and>
     (\<forall>j < n. lo \<le> pool_block b j \<and> pool_block b j < mx) \<and>
     (\<forall>i j. i < j \<longrightarrow> j < n \<longrightarrow> pool_block b i < pool_block b j)"

lemma pool_block_set [simp]:
  "i < length (bmt_tbl b) \<Longrightarrow>
   pool_block (set_mapped i m (set_block i v b)) j = (if j = i then v else pool_block b j)"
  "i < length (bmt_tbl b) \<Longrightarrow> pool_block (set_block i v b) j = (if j = i then v else pool_block b j)"
  "pool_block (set_mapped i m b) j = pool_block b j"
  by (auto simp: pool_block_def set_mapped_def set_block_def nth_list_update_if)

lemma scan_pool_spec:
  assumes "total_blks s < 65536" "total_blks s < block + fuel"
    and "pool_filled b lo i (total_blks s)" "lo \<le> block" "i + (total_blks s - block) \<le> length (bmt_tbl b)"
    and "0 < i \<Longrightarrow> pool_block b (i - 1) < block" "block \<le> total_blks s"
  shows "\<exists>k b' s'. scan_pool nd fuel block i b s = Some (k, b', s') \<and> scratch_only s s' \<and>
     pool_filled b' lo k (total_blks s) \<and> bb_tbl b' = bb_tbl b \<and>
     length (bmt_tbl b') = length (bmt_tbl b)"
  using assms
proof (induction fuel arbitrary: block i b s)
  case 0
  then show ?case by simp
next
  case (Suc fuel)
  obtain v s1 where fv: "find_valid_block nd block s = (v, s1)" by fastforce
  with find_valid_block_spec[OF Suc.prems(1)]
  have so: "scratch_only s s1" and v: "v \<noteq> 0 \<Longrightarrow> block \<le> v \<and> v < total_blks s" by blast+
  show ?case
  proof (cases "v = 0")
    case True
    then show ?thesis using fv so Suc.prems by auto
  next
    case False
    define b1 where "b1 = set_mapped i NO_MAPPED (set_block i v b)"
    have v': "block \<le> v" "v < total_blks s" using v[OF False] by auto
    have u: "to_u16 (int v + 1) = v + 1"
      using v' Suc.prems(1) by (simp add: to_u16_def nat_add_distrib)
    have il: "i < length (bmt_tbl b)" using Suc.prems(5) v' by linarith
    have eqs: "total_blks s1 = total_blks s" using scratch_only_eqs[OF so] by simp
    have below: "pool_block b j < v" if "j < i" for j
      using Suc.prems(3,6) that v'(1) unfolding pool_filled_def
      by (cases "j = i - 1") (auto intro: less_le_trans less_trans[of _ "pool_block b (i - 1)"])
    have fil: "pool_filled b1 lo (i + 1) (total_blks s1)"
      using Suc.prems(3,4) il v' below eqs by (auto simp: pool_filled_def b1_def less_Suc_eq)
    have "\<exists>k b' s'. scan_pool nd fuel (v + 1) (i + 1) b1 s1 = Some (k, b', s') \<and> scratch_only s1 s' \<and>
        pool_filled b' lo k (total_blks s1) \<and> bb_tbl b' = bb_tbl b1 \<and>
        length (bmt_tbl b') = length (bmt_tbl b1)"
      using Suc.prems(1,2,4,5) v' eqs il by (intro Suc.IH[OF _ _ fil]) (auto simp: b1_def)
    moreover have "scan_pool nd (Suc fuel) block i b s = scan_pool nd fuel (v + 1) (i + 1) b1 s1"
      using False by (simp add: fv u b1_def)
    ultimately show ?thesis
      using scratch_only_trans[OF so] eqs by (auto simp: b1_def)
  qed
qed

lemma increasing_to_ge: "increasing_to xs n mx \<Longrightarrow> j < n \<Longrightarrow> j \<le> xs ! j"
proof (induction j)
  case (Suc j)
  then have "xs ! j < xs ! Suc j" by (simp add: increasing_to_def)
  with Suc show ?case by simp
qed simp

lemma increasing_to_top: "increasing_to xs n mx \<Longrightarrow> j < n \<Longrightarrow> xs ! j \<le> xs ! (n - Suc 0)"
  unfolding increasing_to_def by (cases "j = n - Suc 0") (auto intro: less_imp_le_nat)

lemma fresh_tables_ok:
  assumes inc: "increasing_to (bb_tbl b) (pool_lba s) (total_blks s)" and lba: "1 \<le> pool_lba s"
    and pool: "pool_filled b lo k (total_blks s)" "bb_tbl b ! (pool_lba s - Suc 0) < lo" "0 < k"
    and len: "length (bmt_tbl b) \<le> 65535"
    and s: "remap_range s = []" "bmt_blk_idx s = k - 1" "bbt s = Some b"
  shows "v2_tables_ok b s"
proof -
  have map: "v2_map s x = bb_tbl b ! x" if "x < pool_lba s" for x
    using that s by (simp add: v2_map_def get_mapping_block_index_v2_def mapping_block_in_range_def)
  show ?thesis
    unfolding v2_tables_ok_def s(2)
  proof (intro conjI allI impI)
    show "pool_lba s \<le> length (bb_tbl b)" using inc by (simp add: increasing_to_def)
    show "pool_lba s \<le> total_blks s"
      using increasing_to_ge[OF inc, of "pool_lba s - 1"] inc lba
      unfolding increasing_to_def by (metis One_nat_def Suc_leI Suc_pred diff_less le_less_trans
        less_eq_Suc_le zero_less_one)
    show "k - 1 < length (bmt_tbl b)" using pool by (auto simp: pool_filled_def)
    show "length (bmt_tbl b) \<le> 65535" by (rule len)
    show "v2_map s x < total_blks s" if "x < pool_lba s" for x
      using map[OF that] inc that by (simp add: increasing_to_def)
    show "inj_on (v2_map s) {..<pool_lba s}"
      using map inc unfolding increasing_to_def inj_on_def
      by (metis lessThan_iff nat_neq_iff)
    show "pool_block b i < total_blks s" if "i < k - 1" for i
      using pool(1) that by (simp add: pool_filled_def)
    show "pool_block b i \<notin> v2_map s ` {..<pool_lba s}" if "i < k - 1" for i
    proof -
      have "lo \<le> pool_block b i" using pool(1) that by (simp add: pool_filled_def)
      then show ?thesis using increasing_to_top[OF inc] map pool(2) by fastforce
    qed
    show "inj_on (pool_block b) {i. i < k - 1 \<and> pool_free b i}"
    proof (rule inj_onI)
      fix x y assume "x \<in> {i. i < k - 1 \<and> pool_free b i}" "y \<in> {i. i < k - 1 \<and> pool_free b i}"
        "pool_block b x = pool_block b y"
      then show "x = y"
        using pool(1) by (cases x y rule: linorder_cases) (force simp: pool_filled_def)+
    qed
  qed
qed

lemma scan_bad_blocks_tables:
  assumes tot: "total_blks s < 65536" "0 < total_blks s"
    and lba: "1 \<le> pool_lba s" "pool_lba s \<le> length (bb_tbl b)"
    and lens: "total_blks s - pool_lba s < length (bmt_tbl b)" "length (bmt_tbl b) \<le> 65535"
    and rr: "remap_range s = []"
  shows "\<exists>ret b' s'. scan_bad_blocks nd b s = Some (ret, b', s') \<and>
     (ret = 0 \<longrightarrow> v2_inv (s'\<lparr>bbt := Some b'\<rparr>))"
proof -
  define b0 where "b0 = b\<lparr>bb_tbl := (bb_tbl b)[0 := 0]\<rparr>"
  obtain ok b1 s1 where sn: "scan_normal nd (pool_lba s - 1) 1 b0 s = (ok, b1, s1)"
    by (metis prod_cases3)
  show ?thesis
  proof (cases ok)
    case False
    then show ?thesis using sn by (simp add: scan_bad_blocks_def b0_def)
  next
    case True
    have "increasing_to (bb_tbl b0) 1 (total_blks s)"
      using lba tot by (auto simp: increasing_to_def b0_def nth_list_update_if)
    then have N: "scratch_only s s1" "increasing_to (bb_tbl b1) (pool_lba s) (total_blks s)"
        "bmt_tbl b1 = bmt_tbl b" "length (bb_tbl b1) = length (bb_tbl b)"
      using scan_normal_spec[OF tot(1), of 1 "pool_lba s - 1" b0 nd b1 s1] sn True lba
      by (auto simp: b0_def)
    note E = scratch_only_eqs[OF N(1)]
    define l where "l = bb_tbl b1 ! (pool_lba s - Suc 0)"
    define s2 where "s2 = s1\<lparr>pool_pba := to_u16 (int l + 1)\<rparr>"
    have l: "l < total_blks s" using N(2) lba by (simp add: increasing_to_def l_def)
    have pba: "pool_pba s2 = l + 1" and t2: "total_blks s2 = total_blks s"
      using l tot by (simp_all add: s2_def to_u16_def nat_add_distrib E)
    have mx: "max (pool_lba s) (Suc 0) - Suc 0 = pool_lba s - Suc 0" using lba by simp
    show ?thesis
    proof (cases "int (pool_pba s2) \<ge> int (total_blks s2) - 2")
      case stop: True
      then show ?thesis
        using sn True mx by (simp add: scan_bad_blocks_def b0_def[symmetric] Let_def
          l_def[symmetric] s2_def)
    next
      case False
      have "pool_lba s - Suc 0 \<le> l"
        using increasing_to_ge[OF N(2), of "pool_lba s - Suc 0"] lba by (simp add: l_def)
      then have "\<exists>k b' s'. scan_pool nd (total_blks s2 + 1) (pool_pba s2) 0 b1 s2 = Some (k, b', s') \<and>
          scratch_only s2 s' \<and> pool_filled b' (pool_pba s2) k (total_blks s2) \<and> bb_tbl b' = bb_tbl b1 \<and>
          length (bmt_tbl b') = length (bmt_tbl b1)"
        using tot lens lba l N(3) t2 pba
        by (intro scan_pool_spec) (auto simp: pool_filled_def)
      then obtain k b2 s3 where sp: "scan_pool nd (total_blks s2 + 1) (pool_pba s2) 0 b1 s2 = Some (k, b2, s3)"
        and P: "scratch_only s2 s3" "pool_filled b2 (l + 1) k (total_blks s)" "bb_tbl b2 = bb_tbl b1"
          "length (bmt_tbl b2) = length (bmt_tbl b)"
        using N(3) t2 pba by auto
      define s4 where "s4 = s3\<lparr>bmt_blk_idx := to_u16 (int k - 1)\<rparr>"
      define b3 where "b3 = set_mapped (bmt_blk_idx s4) BMT_MAPPED b2"
      have sp': "scan_pool nd (Suc (total_blks s2)) (pool_pba s2) 0 b1 s2 = Some (k, b2, s3)"
        using sp by (simp del: scan_pool.simps)
      have nf: "\<not> int (total_blks s1) - 2 \<le> int (to_u16 (int l + 1))"
        using False by (simp add: s2_def)
      have res: "scan_bad_blocks nd b s = Some (if k < 1 then - 1 else 0, b3, s4)"
        using sn True mx sp' nf
        by (simp add: scan_bad_blocks_def b0_def[symmetric] Let_def l_def[symmetric] s2_def[symmetric]
            s4_def b3_def del: scan_pool.simps)
      have "v2_inv (s4\<lparr>bbt := Some b3\<rparr>)" if k: "0 < k"
      proof -
        have "k \<le> length (bmt_tbl b)" using P(2,4) by (simp add: pool_filled_def)
        then have "v2_tables_ok b3 (s4\<lparr>bbt := Some b3\<rparr>)"
          using N(2) lba P k lens(2) scratch_only_eqs[OF P(1)] E rr
          by (intro fresh_tables_ok[where lo = "l + 1" and k = k])
            (simp_all add: s4_def s2_def b3_def to_u16_id nat_diff_distrib pool_filled_def l_def)
        then show ?thesis by (simp add: v2_inv_def)
      qed
      then show ?thesis using res by auto
    qed
  qed
qed

section \<open>The tables as bytes\<close>

definition bbbt_wf :: "nat \<Rightarrow> bbbt \<Rightarrow> bool" where
  "bbbt_wf n b \<longleftrightarrow> length (bb_signature b) = 3 \<and> bb_version b < 256 \<and>
     length (bb_tbl b) = n \<and> length (bmt_tbl b) = n \<and> (\<forall>v \<in> set (bb_tbl b). v < 65536) \<and>
     (\<forall>e \<in> set (bmt_tbl b). bm_block e < 65536 \<and> bm_mapped e < 65536)"

lemma parse_u16s_concat:
  "(\<forall>v \<in> set vs. v < 65536) \<Longrightarrow> parse_u16s (length vs) (concat (map le16 vs) @ rest) = vs"
  by (induction vs) (simp_all add: drop_append)

lemma parse_bbmts_concat:
  "(\<forall>e \<in> set es. bm_block e < 65536 \<and> bm_mapped e < 65536) \<Longrightarrow>
   parse_bbmts (length es) (concat (map bbmt_bytes es) @ rest) = es"
  by (induction es) (simp_all add: drop_append bbmt_bytes_def)

lemma length_concat_le16: "length (concat (map le16 vs)) = 2 * length vs"
  by (induction vs) simp_all

lemma length_concat_bbmt: "length (concat (map bbmt_bytes es)) = 4 * length es"
  by (induction es) (simp_all add: bbmt_bytes_def)

lemma bbbt_bytes_length: "bbbt_wf n b \<Longrightarrow> length (bbbt_bytes b) = 4 + 6 * n"
  by (simp add: bbbt_wf_def bbbt_bytes_def length_concat_le16 length_concat_bbmt)

lemma bbbt_parse_print:
  assumes wf: "bbbt_wf n b"
  shows "bbbt_of_bytes n (bbbt_bytes b @ rest) = b"
proof -
  let ?T = "concat (map le16 (bb_tbl b))" and ?M = "concat (map bbmt_bytes (bmt_tbl b))"
  have l: "length (bb_signature b) = 3" "length (bb_tbl b) = n" "length (bmt_tbl b) = n"
    using wf by (auto simp: bbbt_wf_def)
  have "parse_u16s n (?T @ ?M @ rest) = bb_tbl b"
    using wf parse_u16s_concat[of "bb_tbl b" "?M @ rest"] by (simp add: bbbt_wf_def)
  moreover have "parse_bbmts n (?M @ rest) = bmt_tbl b"
    using wf parse_bbmts_concat[of "bmt_tbl b" rest] by (simp add: bbbt_wf_def)
  moreover have "unat (of_nat (bb_version b) :: u8) = bb_version b"
    using wf by (simp add: bbbt_wf_def unat_of_nat)
  ultimately show ?thesis
    by (simp add: bbbt_of_bytes_def bbbt_bytes_def l length_concat_le16 byte_at_def nth_append)
qed

lemma table_image_parse:
  assumes "bbbt_wf n b" and "4 + 6 * n \<le> length (bbt_buf s)"
  shows "bbbt_of_bytes n (table_image b s) = b"
proof -
  have "table_image b s = bbbt_bytes b @ drop (4 + 6 * n) (bbt_buf s)"
    using assms by (simp add: table_image_def overlay_def bbbt_bytes_length)
  then show ?thesis using bbbt_parse_print[OF assms(1)] by simp
qed

section \<open>A table that moved to another block\<close>

lemma get_bmt_index_from_stop:
  "k < length es \<Longrightarrow> bm_block (es ! k) = 0 \<Longrightarrow> (\<forall>j < k. bm_mapped (es ! j) \<noteq> BMT_MAPPED) \<Longrightarrow>
   get_bmt_index_from i es = 0"
proof (induction es arbitrary: i k)
  case (Cons e es)
  show ?case
  proof (cases k)
    case 0
    then show ?thesis using Cons.prems by (simp add: BMT_TBL_DEF_VAL_def)
  next
    case (Suc k')
    have "bm_mapped e \<noteq> BMT_MAPPED" using Cons.prems(3) Suc by force
    moreover have "get_bmt_index_from (i + 1) es = 0"
      using Cons.prems Suc by (intro Cons.IH[of k']) auto
    ultimately show ?thesis by simp
  qed
qed simp

lemma upload_fallback_index:
  assumes n: "n < 65535" "n < length (bmt_tbl b)"
    and up: "upload_bmt nd b (int n) s = (idx, b', s')" and idx: "idx \<noteq> 65535" "idx < n"
    and old: "\<forall>j < n. bm_mapped (bmt_tbl b ! j) \<noteq> BMT_MAPPED"
  shows "get_bmt_index (bmt_tbl b') = 0"
proof -
  have U: "upload_frame b (int n) s (idx, b', s')"
    using upload_bmt_frame[of "int n" b s nd] n up by simp
  have "\<forall>j < Suc idx. bm_mapped (bmt_tbl b' ! j) \<noteq> BMT_MAPPED"
    using U idx old by (auto simp: upload_frame_def less_Suc_eq_le)
  moreover have "bm_block (bmt_tbl b' ! Suc idx) = 0" "Suc idx < length (bmt_tbl b')"
    using U idx n by (auto simp: upload_frame_def)
  ultimately show ?thesis
    unfolding get_bmt_index_def by (intro get_bmt_index_from_stop[of "Suc idx"])
qed

section \<open>Properties\<close>

text \<open>A table for eight blocks of which block 1 has moved to block 5.\<close>

definition v2_table :: bbbt where
  "v2_table = \<lparr>bb_signature = BMT_sig, bb_version = 2, bb_tbl = [0, 5, 2, 3, 0, 0, 0, 0],
     bmt_tbl = [\<lparr>bm_block = 4, bm_mapped = 0\<rparr>, \<lparr>bm_block = 5, bm_mapped = 1\<rparr>,
                \<lparr>bm_block = 6, bm_mapped = 0\<rparr>, \<lparr>bm_block = 7, bm_mapped = 2\<rparr>,
                \<lparr>bm_block = 0, bm_mapped = 0\<rparr>, \<lparr>bm_block = 0, bm_mapped = 0\<rparr>,
                \<lparr>bm_block = 0, bm_mapped = 0\<rparr>, \<lparr>bm_block = 0, bm_mapped = 0\<rparr>]\<rparr>"

abbreviation v2_small :: "(nat \<Rightarrow> u8) bmt_st" where
  "v2_small \<equiv> small_st (replicate 64 0) (Some v2_table) []"

lemma v2_small_map:
  "v2_map v2_small 0 = 0" "v2_map v2_small 1 = 5" "v2_map v2_small 2 = 2" "v2_map v2_small 3 = 3"
  by (simp_all add: v2_map_def get_mapping_block_index_v2_def mapping_block_in_range_def v2_table_def)

lemma v2_small_inv: "v2_inv v2_small"
proof -
  have s4: "{..<4} = {0, 1, 2, 3::nat}" by auto
  have img: "v2_map v2_small ` {..<4} = {0, 5, 2, 3}"
    unfolding s4 image_insert image_empty v2_small_map ..
  have inj: "inj_on (v2_map v2_small) {..<4}"
    by (rule eq_card_imp_inj_on) (simp_all add: img)
  have lt: "v2_map v2_small x < 8" if "x < 4" for x
  proof -
    have "v2_map v2_small x \<in> {0, 5, 2, 3}" unfolding img[symmetric] using that by simp
    then show ?thesis by auto
  qed
  have pool: "pool_free v2_table i \<Longrightarrow> i < 3 \<Longrightarrow> i = 0 \<and> pool_block v2_table i = 4 \<or>
      i = 2 \<and> pool_block v2_table i = 6" for i
    by (auto simp: pool_free_def pool_block_def v2_table_def NO_MAPPED_def less_Suc_eq numeral_3_eq_3)
  have len: "length (bb_tbl v2_table) = 8" "length (bmt_tbl v2_table) = 8" by (simp_all add: v2_table_def)
  have inj': "inj_on (pool_block v2_table) {i. i < 3 \<and> pool_free v2_table i}"
  proof (rule inj_onI)
    fix x y assume "x \<in> {i. i < 3 \<and> pool_free v2_table i}" "y \<in> {i. i < 3 \<and> pool_free v2_table i}"
      "pool_block v2_table x = pool_block v2_table y"
    then show "x = y" using pool[of x] pool[of y] by auto
  qed
  show ?thesis
    by (auto simp: v2_inv_def v2_tables_ok_def img inj inj' len lt dest: pool)
qed

lemma upload_bmt_ok:
  assumes "0 \<le> n" "bm_mapped (bmt_tbl b ! nat n) \<noteq> NORMAL_MAPPED"
    and "fst (bbt_nand_erase nd (bm_block (bmt_tbl b ! nat n)) s) = 0"
    and "\<And>dat s. fst (write_bmt nd bmt_sig (bm_block (bmt_tbl b ! nat n)) dat s) = 0"
  shows "fst (upload_bmt nd b n s) = to_u16 n"
  using assms by (subst upload_bmt.simps) (simp add: Let_def split_beta)

lemma upload_bmt_erase_fails:
  assumes "0 \<le> n" "bm_mapped (bmt_tbl b ! nat n) \<noteq> NORMAL_MAPPED"
    and "bbt_nand_erase nd (bm_block (bmt_tbl b ! nat n)) s = (e, s1)" "e \<noteq> 0"
  shows "upload_bmt nd b n s = upload_bmt nd (set_block (nat n) 0 b) (n - 1) s1"
  using assms by (subst upload_bmt.simps) simp

lemma ram_chip_table_ops [simp]:
  "fst (bbt_nand_erase ram_chip k s) = 0" "fst (write_bmt ram_chip sig k dat s) = 0"
  by (simp_all add: bbt_nand_erase_def write_bmt_def ram_chip_def Let_def)

text \<open>
  C2. Replacing a block keeps the version 2 tables sound. When a block is remapped, the
  logical blocks still have distinct physical blocks inside the chip, and the spare blocks
  that are left are distinct and unused, provided the new table could be stored somewhere.
\<close>

theorem v2_remap_keeps_tables:
  assumes "v2_inv s" and "remap_block_v2 nd k m c s = (ok, s')" and "bmt_blk_idx s' \<noteq> 65535"
  shows "v2_inv s'"
  using assms by (rule remap_block_v2_tables)

theorem v2_remap_keeps_tables_witness:
  "v2_inv (snd (remap_block_v2 ram_chip 2 2 0 v2_small))"
proof -
  obtain ok s' where r: "remap_block_v2 ram_chip 2 2 0 v2_small = (ok, s')" by fastforce
  have fv: "find_valid_block_in_pool v2_table v2_small = (4, set_mapped 0 NORMAL_MAPPED v2_table)"
    by (simp add: find_valid_block_in_pool_def v2_table_def NO_MAPPED_def numeral_3_eq_3)
  have idx: "bmt_blk_idx (snd (bbt_nand_erase ram_chip b s)) = bmt_blk_idx s" for b and s :: "(nat \<Rightarrow> u8) bmt_st"
    by (simp add: bbt_nand_erase_def split: prod.split)
  let ?b = "(set_mapped 0 NORMAL_MAPPED v2_table)\<lparr>bb_tbl := (bb_tbl v2_table)[2 := 4]\<rparr>"
  obtain i b3 s3 where up: "upload_bmt ram_chip ?b 3 (snd (bbt_nand_erase ram_chip 4 v2_small)) = (i, b3, s3)"
    by (metis prod_cases3)
  have "i = 3"
    using upload_bmt_ok[of 3 ?b ram_chip "snd (bbt_nand_erase ram_chip 4 v2_small)"] up
    by (simp add: set_mapped_def v2_table_def NORMAL_MAPPED_def to_u16_def)
  moreover have "s' = s3\<lparr>bbt := Some b3, bmt_blk_idx := i\<rparr>"
    using r by (simp add: remap_block_v2_def fv Let_def idx up)
  ultimately have "bmt_blk_idx s' \<noteq> 65535" by simp
  with r show ?thesis using v2_remap_keeps_tables[OF v2_small_inv r] by simp
qed

text \<open>
  Initialising a chip that has no table. The scan of \<^verbatim>\<open>scan_bad_blocks\<close> always ends, and
  when it succeeds it has built sound tables: the logical blocks have distinct good blocks, in
  ascending order, and the spare blocks are all behind them. The tables have to be large
  enough for the chip, and there are no remapping ranges.
\<close>

theorem v2_scan_builds_tables:
  assumes "total_blks s < 65536" "0 < total_blks s" and "1 \<le> pool_lba s" "pool_lba s \<le> length (bb_tbl b)"
    and "total_blks s - pool_lba s < length (bmt_tbl b)" "length (bmt_tbl b) \<le> 65535"
    and "remap_range s = []"
  shows "\<exists>ret b' s'. scan_bad_blocks nd b s = Some (ret, b', s') \<and>
     (ret = 0 \<longrightarrow> v2_inv (s'\<lparr>bbt := Some b'\<rparr>))"
  using assms by (rule scan_bad_blocks_tables)

theorem v2_scan_builds_tables_witness:
  "\<exists>ret b' s'. scan_bad_blocks ram_chip v2_table v2_small = Some (ret, b', s') \<and>
     (ret = 0 \<longrightarrow> v2_inv (s'\<lparr>bbt := Some b'\<rparr>))"
  by (rule v2_scan_builds_tables) (simp_all add: v2_table_def)

text \<open>
  A stored table is found again. The image that \<^verbatim>\<open>upload_bmt\<close> writes is accepted by
  \<^verbatim>\<open>is_valid_bmt\<close> together with the signature in the out-of-band area, and parsing it gives
  back the tables, when the buffer is large enough for both of them.
\<close>

theorem v2_table_found_again:
  assumes "bbbt_wf n b" and "bb_signature b = BMT_sig" "bb_version b = BBMT_VERSION"
    and "4 + 6 * n \<le> length (bbt_buf s)"
  shows "is_valid_bmt (table_image b s) (0xff # bmt_sig) \<and> bbbt_of_bytes n (table_image b s) = b"
proof -
  have p: "bbbt_of_bytes n (table_image b s) = b" by (rule table_image_parse[OF assms(1,4)])
  have "take 3 (table_image b s) = BMT_sig" "unat (byte_at (table_image b s) 3) = BBMT_VERSION"
    using arg_cong[OF p, of bb_signature] arg_cong[OF p, of bb_version] assms(2,3)
    by (simp_all add: bbbt_of_bytes_def)
  with p show ?thesis by (simp add: is_valid_bmt_def OOB_SIGNATURE_OFFSET_def bmt_sig_def)
qed

theorem v2_table_found_again_witness:
  "is_valid_bmt (table_image v2_table v2_small) (0xff # bmt_sig) \<and>
   bbbt_of_bytes 8 (table_image v2_table v2_small) = v2_table"
  by (rule v2_table_found_again) (simp_all add: bbbt_wf_def v2_table_def BMT_sig_def BBMT_VERSION_def)

text \<open>
  A table that had to be stored in another block is lost. When the block of the table
  fails and \<^verbatim>\<open>upload_bmt\<close> falls back to an earlier spare block, no entry of the stored
  table is marked as holding it, so \<^verbatim>\<open>get_bmt_index\<close> returns zero for it and the next
  start rejects the table.
\<close>

theorem v2_moved_table_is_rejected:
  assumes "n < 65535" "n < length (bmt_tbl b)"
    and "upload_bmt nd b (int n) s = (idx, b', s')" and "idx \<noteq> 65535" "idx < n"
    and "\<forall>j < n. bm_mapped (bmt_tbl b ! j) \<noteq> BMT_MAPPED"
  shows "get_bmt_index (bmt_tbl b') = 0"
  using assms by (rule upload_fallback_index)

text \<open>A chip whose last block cannot be erased.\<close>

definition worn_chip :: "(nat \<Rightarrow> u8) nand_ops" where
  "worn_chip = ram_chip\<lparr>nd_erase := (\<lambda>d a n. if a = 28 then (- EIO, d) else nd_erase ram_chip d a n)\<rparr>"

theorem v2_moved_table_is_rejected_witness:
  "fst (upload_bmt worn_chip v2_table 3 v2_small) = 2 \<and>
   get_bmt_index (bmt_tbl (fst (snd (upload_bmt worn_chip v2_table 3 v2_small)))) = 0"
proof -
  obtain idx b' s' where up: "upload_bmt worn_chip v2_table 3 v2_small = (idx, b', s')"
    by (metis prod_cases3)
  have e7: "bbt_nand_erase worn_chip 7 v2_small = (- 5, v2_small)"
    by (simp add: bbt_nand_erase_def worn_chip_def small_st_def)
  have e6: "fst (bbt_nand_erase worn_chip 6 v2_small) = 0"
    by (simp add: bbt_nand_erase_def worn_chip_def ram_chip_def)
  have w: "fst (write_bmt worn_chip sig k dat s) = 0" for sig k dat s
    by (simp add: write_bmt_def worn_chip_def ram_chip_def Let_def)
  have "upload_bmt worn_chip v2_table 3 v2_small = upload_bmt worn_chip (set_block 3 0 v2_table) 2 v2_small"
    using upload_bmt_erase_fails[of 3 v2_table worn_chip v2_small, OF _ _ _, of "- 5" v2_small] e7
    by (simp add: v2_table_def NORMAL_MAPPED_def)
  moreover have "fst (upload_bmt worn_chip (set_block 3 0 v2_table) 2 v2_small) = 2"
    using upload_bmt_ok[of 2 "set_block 3 0 v2_table" worn_chip v2_small] e6 w
    by (simp add: v2_table_def set_block_def NORMAL_MAPPED_def to_u16_def)
  ultimately have i: "idx = 2" using up by (metis fst_conv)
  have "\<forall>j < 3. bm_mapped (bmt_tbl v2_table ! j) \<noteq> BMT_MAPPED"
    by (auto simp: v2_table_def BMT_MAPPED_def less_Suc_eq numeral_3_eq_3)
  then have "get_bmt_index (bmt_tbl b') = 0"
    using v2_moved_table_is_rejected[of 3 v2_table worn_chip v2_small idx b' s'] up i
    by (simp add: v2_table_def)
  with up i show ?thesis by simp
qed

text \<open>
  C4. Reading through the version 2 tables. On a chip without faults a read of any range of
  the normal area succeeds, returns the bytes of the logical device and leaves them alone.
\<close>

theorem v2_read_refines:
  assumes "reliable_chip nd mem" "v2_inv s" "bmt_geometry s"
    and "a + rq_len rq \<le> pool_lba s * 2 ^ blk_shift s" "rq_ooblen rq = 0" "rq_len rq < fuel"
  shows "\<exists>l d. mtk_bmt_read fuel nd (mtk_bmt_v2_ops nd) a rq s = Some (0, l, s\<lparr>dev := d\<rparr>) \<and>
     mem d = mem (dev s) \<and> rl_retlen l = rq_len rq \<and>
     rl_dat l = map (bmt_logical (mtk_bmt_v2_ops nd) mem s) [a..<a + rq_len rq]"
  using assms by (rule v2_backend.read_contract)

abbreviation small_rq :: oob_rq where
  "small_rq \<equiv> \<lparr>rq_mode = 0, rq_ooboffs = 0, rq_ooblen = 0, rq_len = 4, rq_dat = [1, 2, 3, 4],
     rq_oob = []\<rparr>"

theorem v2_read_refines_witness:
  "\<exists>l d. mtk_bmt_read 9 ram_chip (mtk_bmt_v2_ops ram_chip) 6 small_rq v2_small =
       Some (0, l, v2_small\<lparr>dev := d\<rparr>) \<and> d = dev v2_small \<and> rl_retlen l = 4 \<and>
     rl_dat l = map (bmt_logical (mtk_bmt_v2_ops ram_chip) (\<lambda>d. d) v2_small) [6..<10]"
  using v2_read_refines[OF ram_chip_reliable v2_small_inv small_st_geometry, of 6 small_rq 9]
  by simp

text \<open>
  C3. Writing through the version 2 tables. On a chip without faults a write to erased bytes
  of the normal area changes the logical device in the written range only, and stores the
  data there.
\<close>

theorem v2_write_refines:
  assumes "reliable_chip nd mem" "v2_inv s" "bmt_geometry s"
    and "a + rq_len rq \<le> pool_lba s * 2 ^ blk_shift s" "rq_len rq \<le> length (rq_dat rq)"
    and "rq_ooblen rq = 0" "rq_len rq < fuel"
    and "\<And>x. a \<le> x \<Longrightarrow> x < a + rq_len rq \<Longrightarrow> bmt_logical (mtk_bmt_v2_ops nd) mem s x = - 1"
  shows "\<exists>l d. mtk_bmt_write fuel nd (mtk_bmt_v2_ops nd) a rq s = Some (0, l, s\<lparr>dev := d\<rparr>) \<and>
     wl_retlen l = rq_len rq \<and>
     (\<forall>x < pool_lba s * 2 ^ blk_shift s. bmt_logical (mtk_bmt_v2_ops nd) mem (s\<lparr>dev := d\<rparr>) x =
        (if a \<le> x \<and> x < a + rq_len rq then rq_dat rq ! (x - a)
         else bmt_logical (mtk_bmt_v2_ops nd) mem s x))"
  using assms by (rule v2_backend.write_contract)

theorem v2_write_refines_witness:
  "\<exists>l d. mtk_bmt_write 9 ram_chip (mtk_bmt_v2_ops ram_chip) 6 small_rq v2_small =
       Some (0, l, v2_small\<lparr>dev := d\<rparr>) \<and> wl_retlen l = 4 \<and>
     (\<forall>x < 16. bmt_logical (mtk_bmt_v2_ops ram_chip) (\<lambda>d. d) (v2_small\<lparr>dev := d\<rparr>) x =
        (if 6 \<le> x \<and> x < 10 then [1, 2, 3, 4] ! (x - 6) else - 1))"
  using v2_write_refines[OF ram_chip_reliable v2_small_inv small_st_geometry, of 6 small_rq 9]
  by (simp add: bmt_logical_def cong: if_cong)

text \<open>
  C5. Erasing through the version 2 tables. On a chip without faults erasing whole blocks of
  the normal area sets exactly those logical blocks to \<^verbatim>\<open>0xff\<close>.
\<close>

theorem v2_erase_refines:
  assumes "reliable_chip nd mem" "v2_inv s" "bmt_geometry s" and "k + n \<le> pool_lba s" "n < fuel" "0 < n"
  shows "\<exists>d. mtk_bmt_mtd_erase fuel nd (mtk_bmt_v2_ops nd) (k * 2 ^ blk_shift s)
         (n * 2 ^ blk_shift s) ret0 s = Some (0, None, s\<lparr>dev := d\<rparr>) \<and>
     (\<forall>x < pool_lba s * 2 ^ blk_shift s. bmt_logical (mtk_bmt_v2_ops nd) mem (s\<lparr>dev := d\<rparr>) x =
        (if k \<le> x div 2 ^ blk_shift s \<and> x div 2 ^ blk_shift s < k + n then - 1
         else bmt_logical (mtk_bmt_v2_ops nd) mem s x))"
  using assms by (rule v2_backend.erase_contract)

theorem v2_erase_refines_witness:
  "\<exists>d. mtk_bmt_mtd_erase 9 ram_chip (mtk_bmt_v2_ops ram_chip) 4 8 0 v2_small =
     Some (0, None, v2_small\<lparr>dev := d\<rparr>)"
  using v2_erase_refines[OF ram_chip_reliable v2_small_inv small_st_geometry, of 1 2 9 0]
  by auto

text \<open>
  A read that reports success is complete. For every mapping scheme and every behaviour
  of the chip, when \<^verbatim>\<open>mtk_bmt_read\<close> returns a non-negative number it has read all the data
  and out-of-band bytes that were asked for, and no error of the driver was dropped.
\<close>

theorem mtk_bmt_read_complete:
  assumes "mtk_bmt_read fuel nd ops a rq s = Some (ret, l, s')" and "0 \<le> ret"
  shows "rq_len rq \<le> rl_retlen l \<and> rq_ooblen rq \<le> rl_oobretlen l \<and> 0 \<le> rl_ret l"
  using read_loop_complete assms unfolding mtk_bmt_read_def by blast

theorem mtk_bmt_read_complete_witness:
  "\<exists>l s'. mtk_bmt_read 9 ram_chip (mtk_bmt_v2_ops ram_chip) 6 small_rq v2_small = Some (0, l, s') \<and>
     4 \<le> rl_retlen l"
proof -
  obtain l d where r: "mtk_bmt_read 9 ram_chip (mtk_bmt_v2_ops ram_chip) 6 small_rq v2_small =
      Some (0, l, v2_small\<lparr>dev := d\<rparr>)"
    using v2_backend.read_contract[where nda = ram_chip and nd = ram_chip, OF ram_chip_reliable
      v2_small_inv small_st_geometry, of 6 small_rq 9] by auto
  with mtk_bmt_read_complete[OF r] show ?thesis by simp
qed

definition keeps_callbacks :: "(bmt_scheme \<Rightarrow> dt_node \<Rightarrow> 'd bmt_st \<Rightarrow> int \<times> 'd bmt_st) \<Rightarrow> bool" where
  "keeps_callbacks init \<longleftrightarrow> (\<forall>sch np t. saved_ops (snd (init sch np t)) = saved_ops t \<and>
     attached (snd (init sch np t)) = attached t)"

lemma detach_restores:
  "attached t \<Longrightarrow> saved_ops t = Some c \<Longrightarrow> mtd_ops (mtk_bmt_detach t) = c \<and>
   \<not> attached (mtk_bmt_detach t) \<and> saved_ops (mtk_bmt_detach t) = None \<and> bbt (mtk_bmt_detach t) = None"
  by (simp add: mtk_bmt_detach_def)

text \<open>
  Attaching and detaching. When the initialisation of a scheme fails, attaching leaves the
  callbacks of the device as they were, the layer detached and its tables gone. The
  initialisation of the scheme may be any function that leaves the saved callbacks alone.
\<close>

theorem mtk_bmt_attach_failure_undone:
  assumes "\<not> attached s" and "mtk_bmt_attach init alloc_ok np s = (ret, s')" and "ret \<noteq> 0"
    and "keeps_callbacks init"
  shows "mtd_ops s' = mtd_ops s \<and> \<not> attached s' \<and> saved_ops s' = None \<and> bbt s' = None"
proof -
  have K: "saved_ops t' = saved_ops t \<and> attached t' = attached t"
    if "init sch np t = (r, t')" for sch np t r t'
    using assms(4) that unfolding keeps_callbacks_def by (metis snd_conv)
  show ?thesis
    using assms(1-3) unfolding mtk_bmt_attach_def mtk_bmt_replace_ops_def Let_def
    by (auto simp: mtk_bmt_detach_def split: option.splits prod.splits if_splits dest!: K)
qed

lemma init_v2_keeps_callbacks:
  "keeps_callbacks (\<lambda>sch np t. case mtk_bmt_init_v2 nd False np t of None \<Rightarrow> (- 1, t) | Some r \<Rightarrow> r)"
  by (simp add: keeps_callbacks_def mtk_bmt_init_v2_def Let_def)

theorem mtk_bmt_attach_failure_undone_witness:
  "let s = (small_st [] None [])\<lparr>attached := False\<rparr>;
       np = \<lparr>dt_bmt_v2 = True, dt_nmbm = False, dt_bbt = False, dt_remap_range = [], dt_oobsize = None,
             dt_pool_size = None, dt_oob_offset = None, dt_table_size = None,
             dt_max_ratio = None, dt_max_reserved_blocks = None,
             dt_empty_page_ecc_protected = False, dt_force_create = False\<rparr>;
       r = mtk_bmt_attach (\<lambda>sch np t. case mtk_bmt_init_v2 ram_chip False np t of None \<Rightarrow> (- 1, t)
             | Some r \<Rightarrow> r) True (Some np) s
   in fst r \<noteq> 0 \<and> mtd_ops (snd r) = mtd_ops s"
proof -
  let ?s = "(small_st [] None [])\<lparr>attached := False\<rparr>"
  let ?np = "\<lparr>dt_bmt_v2 = True, dt_nmbm = False, dt_bbt = False, dt_remap_range = [], dt_oobsize = None,
             dt_pool_size = None, dt_oob_offset = None, dt_table_size = None,
             dt_max_ratio = None, dt_max_reserved_blocks = None,
             dt_empty_page_ecc_protected = False, dt_force_create = False\<rparr>"
  let ?init = "\<lambda>sch np t. case mtk_bmt_init_v2 ram_chip False np t of None \<Rightarrow> (- 1, t) | Some r \<Rightarrow> r"
  obtain ret s' where r: "mtk_bmt_attach ?init True (Some ?np) ?s = (ret, s')" by fastforce
  have "fst (mtk_bmt_attach ?init True (Some ?np) ?s) \<noteq> 0"
    by (simp add: mtk_bmt_attach_def Let_def choose_scheme_def mtk_bmt_init_v2_def)
  then show ?thesis
    using mtk_bmt_attach_failure_undone[OF _ r _ init_v2_keeps_callbacks] r by (simp add: Let_def)
qed

end
