(* ===== verification/Nmbm_Tables.thy ===== *)
theory Nmbm_Tables
  imports Bmt_Core
begin

unbundle bit_operations_syntax

text \<open>
  The mapping scheme of \<^verbatim>\<open>mtk_bmt_nmbm.c\<close>: a table with the state of every block, two
  bits each, and a table that maps every logical block to a physical block. Both are stored
  twice in the management area at the end of the chip, together with a signature block; the
  free blocks between the stored tables and the signature replace blocks that fail.

  The functions of the source get a pointer to the instance; here they get the whole state,
  whose field \<open>ni\<close> is the instance. Output parameters are part of the result. The
  checksum function \<^verbatim>\<open>crc32_le\<close> of the kernel is the parameter \<open>crc\<close>. The machine is
  little endian, and the page size is a power of two, so that the masks of the source are
  remainders.
\<close>

section \<open>Constants\<close>

abbreviation (input) EBADMSG :: int where "EBADMSG \<equiv> 74"
abbreviation (input) ENODEV :: int where "ENODEV \<equiv> 19"

definition NMBM_MAGIC_SIGNATURE :: u32 where "NMBM_MAGIC_SIGNATURE = 0x304d4d4e"
definition NMBM_MAGIC_INFO_TABLE :: u32 where "NMBM_MAGIC_INFO_TABLE = 0x314d4d4e"
definition NMBM_VER :: u32 where "NMBM_VER = (1 AND 0xffff) OR push_bit 16 (0 AND 0xffff)"
definition NMBM_BITMAP_BLOCKS_PER_UNIT :: nat where "NMBM_BITMAP_BLOCKS_PER_UNIT = 8 * 4 div 2"
definition NMBM_SPARE_BLOCK_MULTI :: nat where "NMBM_SPARE_BLOCK_MULTI = 1"
definition NMBM_SPARE_BLOCK_DIV :: nat where "NMBM_SPARE_BLOCK_DIV = 2"
definition NMBM_SPARE_BLOCK_MIN :: nat where "NMBM_SPARE_BLOCK_MIN = 2"
definition NMBM_MGMT_DIV :: nat where "NMBM_MGMT_DIV = 16"
definition NMBM_TRY_COUNT :: nat where "NMBM_TRY_COUNT = 3"
definition BLOCK_ST_BAD :: u32 where "BLOCK_ST_BAD = 0"
definition BLOCK_ST_GOOD :: u32 where "BLOCK_ST_GOOD = 3"
definition BLOCK_ST_MASK :: u32 where "BLOCK_ST_MASK = 3"

definition ba2addr :: "'d bmt_st \<Rightarrow> nat \<Rightarrow> nat" where
  "ba2addr s ba = ba * 2 ^ blk_shift s"

definition size2blk :: "'d bmt_st \<Rightarrow> nat \<Rightarrow> nat" where
  "size2blk s n = (n + blk_size s - 1) div 2 ^ blk_shift s"

abbreviation upd_ni :: "(nmbm_instance \<Rightarrow> nmbm_instance) \<Rightarrow> 'd bmt_st \<Rightarrow> 'd bmt_st" where
  "upd_ni f s \<equiv> s\<lparr>ni := f (ni s)\<rparr>"

section \<open>Stored structures\<close>

definition le64 :: "64 word \<Rightarrow> bytes" where
  "le64 w = le32 (ucast w) @ le32 (ucast (drop_bit 32 w))"

definition u64_at :: "bytes \<Rightarrow> nat \<Rightarrow> 64 word" where
  "u64_at buf i = ucast (u32_at buf i) OR push_bit 32 (ucast (u32_at buf (i + 4)))"

definition nmbm_header_bytes :: "nmbm_header \<Rightarrow> bytes" where
  "nmbm_header_bytes h =
     le32 (nh_magic h) @ le32 (nh_version h) @ le32 (nh_size h) @ le32 (nh_checksum h)"

definition nmbm_header_of :: "bytes \<Rightarrow> nmbm_header" where
  "nmbm_header_of bs =
     \<lparr>nh_magic = u32_at bs 0, nh_version = u32_at bs 4, nh_size = u32_at bs 8,
      nh_checksum = u32_at bs 12\<rparr>"

definition nmbm_signature_bytes :: "nmbm_signature \<Rightarrow> bytes" where
  "nmbm_signature_bytes sg =
     nmbm_header_bytes (sg_header sg) @ le64 (sg_nand_size sg) @ le32 (sg_block_size sg) @
     le32 (sg_page_size sg) @ le32 (sg_spare_size sg) @ le32 (sg_mgmt_start_pb sg) @
     [sg_max_try_count sg] @ sg_padding sg"

definition nmbm_signature_of :: "bytes \<Rightarrow> nmbm_signature" where
  "nmbm_signature_of bs =
     \<lparr>sg_header = nmbm_header_of bs, sg_nand_size = u64_at bs 16, sg_block_size = u32_at bs 24,
      sg_page_size = u32_at bs 28, sg_spare_size = u32_at bs 32, sg_mgmt_start_pb = u32_at bs 36,
      sg_max_try_count = byte_at bs 40, sg_padding = take 7 (drop 41 bs)\<rparr>"

definition nmbm_info_table_header_bytes :: "nmbm_info_table_header \<Rightarrow> bytes" where
  "nmbm_info_table_header_bytes t =
     nmbm_header_bytes (it_header t) @ le32 (it_write_count t) @ le32 (it_state_table_off t) @
     le32 (it_mapping_table_off t) @ le32 (it_padding t)"

definition nmbm_info_table_header_of :: "bytes \<Rightarrow> nmbm_info_table_header" where
  "nmbm_info_table_header_of bs =
     \<lparr>it_header = nmbm_header_of bs, it_write_count = u32_at bs 16,
      it_state_table_off = u32_at bs 20, it_mapping_table_off = u32_at bs 24,
      it_padding = u32_at bs 28\<rparr>"

definition state_bytes :: "u32 list \<Rightarrow> bytes" where
  "state_bytes ws = concat (map le32 ws)"

definition mapping_bytes :: "int list \<Rightarrow> bytes" where
  "mapping_bytes ms = concat (map (\<lambda>m. le32 (word_of_int m)) ms)"

definition state_of :: "nat \<Rightarrow> bytes \<Rightarrow> u32 list" where
  "state_of n bs = map (\<lambda>i. u32_at bs (4 * i)) [0..<n]"

definition mapping_of :: "nat \<Rightarrow> bytes \<Rightarrow> int list" where
  "mapping_of n bs = map (\<lambda>i. sint (u32_at bs (4 * i))) [0..<n]"

text \<open>
  \<^verbatim>\<open>nmbm_crc32\<close> feeds the buffer to the checksum in pieces of at most \<^verbatim>\<open>UINT_MAX\<close> bytes.
\<close>

type_synonym crc_fn = "u32 \<Rightarrow> bytes \<Rightarrow> u32"

function nmbm_crc32 :: "crc_fn \<Rightarrow> u32 \<Rightarrow> bytes \<Rightarrow> u32" where
  "nmbm_crc32 crc crcval buf =
     (if buf = [] then crcval
      else nmbm_crc32 crc (crc crcval (take 4294967295 buf)) (drop 4294967295 buf))"
  by pat_completeness auto
termination
  by (relation "measure (\<lambda>(crc, crcval, buf). length buf)") auto

declare nmbm_crc32.simps [simp del]

definition nmbm_check_header :: "crc_fn \<Rightarrow> bytes \<Rightarrow> nat \<Rightarrow> bool" where
  "nmbm_check_header crc dat siz =
     (let hsize = unat (nh_size (nmbm_header_of dat));
          nhdr = (nmbm_header_of dat)\<lparr>nh_checksum := 0\<rparr>;
          sum1 = nmbm_crc32 crc 0 (nmbm_header_bytes nhdr);
          new_checksum = (if hsize > 16 then nmbm_crc32 crc sum1 (take (hsize - 16) (drop 16 dat))
                          else sum1)
      in hsize \<le> siz \<and> nh_checksum (nmbm_header_of dat) = new_checksum)"

definition nmbm_update_checksum :: "crc_fn \<Rightarrow> bytes \<Rightarrow> bytes" where
  "nmbm_update_checksum crc buf =
     (let z = store_at buf 12 (le32 0)
      in store_at z 12 (le32 (nmbm_crc32 crc 0 (take (unat (nh_size (nmbm_header_of buf))) z))))"

definition nmbm_get_spare_block_count :: "nat \<Rightarrow> nat" where
  "nmbm_get_spare_block_count n =
     max ((n + NMBM_SPARE_BLOCK_DIV div 2) div NMBM_SPARE_BLOCK_DIV * NMBM_SPARE_BLOCK_MULTI)
       NMBM_SPARE_BLOCK_MIN"

section \<open>The chip\<close>

text \<open>
  Every caller of the page functions passes a data buffer and no out-of-band buffer. A read
  stores what the driver delivers into the buffer, in every attempt.
\<close>

definition page_rq :: "'d bmt_st \<Rightarrow> bytes \<Rightarrow> oob_rq" where
  "page_rq s dat = \<lparr>rq_mode = MTD_OPS_PLACE_OOB, rq_ooboffs = 0, rq_ooblen = 0,
     rq_len = pg_size s, rq_dat = dat, rq_oob = []\<rparr>"

fun read_tries ::
  "nat \<Rightarrow> int \<Rightarrow> 'd nand_ops \<Rightarrow> nat \<Rightarrow> bytes \<Rightarrow> 'd bmt_st \<Rightarrow> int \<times> bytes \<times> 'd bmt_st" where
  "read_tries 0 ret nd addr buf s = (ret, buf, s)"
| "read_tries (Suc n) ret nd addr buf s =
     (let (r, d) = nd_read_oob nd (dev s) addr (page_rq s []);
          buf1 = overlay buf (rr_dat r);
          s1 = s\<lparr>dev := d\<rparr>
      in if rr_ret r = - EUCLEAN then
           (int (min (to_u32 (int (mtd_bitflip_threshold s) + 1)) (mtd_ecc_strength s)), buf1, s1)
         else if rr_ret r \<ge> 0 then (0, buf1, s1)
         else read_tries n (rr_ret r) nd addr buf1 s1)"

definition nmbm_read_phys_page ::
  "'d nand_ops \<Rightarrow> nat \<Rightarrow> bytes \<Rightarrow> 'd bmt_st \<Rightarrow> int \<times> bytes \<times> 'd bmt_st" where
  "nmbm_read_phys_page nd addr buf s = read_tries NMBM_TRY_COUNT 0 nd addr buf s"

fun write_tries :: "nat \<Rightarrow> 'd nand_ops \<Rightarrow> nat \<Rightarrow> bytes \<Rightarrow> 'd bmt_st \<Rightarrow> bool \<times> 'd bmt_st" where
  "write_tries 0 nd addr dat s = (False, s)"
| "write_tries (Suc n) nd addr dat s =
     (let (w, d) = nd_write_oob nd (dev s) addr (page_rq s (take (pg_size s) dat));
          s1 = s\<lparr>dev := d\<rparr>
      in if wr_ret w = 0 then (True, s1) else write_tries n nd addr dat s1)"

definition nmbm_write_phys_page ::
  "'d nand_ops \<Rightarrow> nat \<Rightarrow> bytes \<Rightarrow> 'd bmt_st \<Rightarrow> bool \<times> 'd bmt_st" where
  "nmbm_write_phys_page nd addr dat s = write_tries NMBM_TRY_COUNT nd addr dat s"

fun erase_tries :: "nat \<Rightarrow> 'd nand_ops \<Rightarrow> nat \<Rightarrow> 'd bmt_st \<Rightarrow> bool \<times> 'd bmt_st" where
  "erase_tries 0 nd addr s = (False, s)"
| "erase_tries (Suc n) nd addr s =
     (let (ret, d) = nd_erase nd (dev s) addr (mtd_erasesize s);
          s1 = s\<lparr>dev := d\<rparr>
      in if ret = 0 then (True, s1) else erase_tries n nd addr s1)"

definition nmbm_erase_phys_block :: "'d nand_ops \<Rightarrow> nat \<Rightarrow> 'd bmt_st \<Rightarrow> bool \<times> 'd bmt_st" where
  "nmbm_erase_phys_block nd addr s = erase_tries NMBM_TRY_COUNT nd addr s"

definition nmbm_check_bad_phys_block :: "'d nand_ops \<Rightarrow> nat \<Rightarrow> 'd bmt_st \<Rightarrow> bool \<times> 'd bmt_st" where
  "nmbm_check_bad_phys_block nd ba s =
     (let (ret, d) = nd_block_isbad nd (dev s) (ba2addr s ba) in (ret \<noteq> 0, s\<lparr>dev := d\<rparr>))"

definition nmbm_mark_phys_bad_block :: "'d nand_ops \<Rightarrow> nat \<Rightarrow> 'd bmt_st \<Rightarrow> int \<times> 'd bmt_st" where
  "nmbm_mark_phys_bad_block nd ba s =
     (let (ret, d) = nd_block_markbad nd (dev s) (ba2addr s ba) in (ret, s\<lparr>dev := d\<rparr>))"

section \<open>The state table\<close>

text \<open>
  A state outside the table is read as bad, and setting it changes nothing. The source does
  not check; it asks only for blocks of the chip.
\<close>

definition nmbm_get_block_state_raw :: "u32 list \<Rightarrow> nat \<Rightarrow> u32" where
  "nmbm_get_block_state_raw tbl ba =
     (let unit = ba div NMBM_BITMAP_BLOCKS_PER_UNIT;
          shift = (ba mod NMBM_BITMAP_BLOCKS_PER_UNIT) * 2
      in if unit < length tbl then drop_bit shift (tbl ! unit) AND BLOCK_ST_MASK
         else BLOCK_ST_BAD)"

definition nmbm_get_block_state :: "'d bmt_st \<Rightarrow> nat \<Rightarrow> u32" where
  "nmbm_get_block_state s ba = nmbm_get_block_state_raw (block_state (ni s)) ba"

definition set_state_raw :: "u32 list \<Rightarrow> nat \<Rightarrow> u32 \<Rightarrow> u32 list" where
  "set_state_raw tbl ba st =
     (let unit = ba div NMBM_BITMAP_BLOCKS_PER_UNIT;
          shift = (ba mod NMBM_BITMAP_BLOCKS_PER_UNIT) * 2
      in tbl[unit := (tbl ! unit AND NOT (push_bit shift BLOCK_ST_MASK))
                       OR push_bit shift (st AND BLOCK_ST_MASK)])"

definition nmbm_set_block_state :: "nat \<Rightarrow> u32 \<Rightarrow> 'd bmt_st \<Rightarrow> bool \<times> 'd bmt_st" where
  "nmbm_set_block_state ba st s =
     (let orig = nmbm_get_block_state s ba;
          s1 = upd_ni (block_state_update (\<lambda>t. set_state_raw t ba st)) s
      in if orig \<noteq> st AND BLOCK_ST_MASK
         then (True, upd_ni (block_state_changed_update (\<lambda>c. c + 1)) s1)
         else (False, s1))"

section \<open>Walking over good blocks\<close>

function walk_asc_loop :: "'d bmt_st \<Rightarrow> nat \<Rightarrow> int \<Rightarrow> nat \<Rightarrow> nat option" where
  "walk_asc_loop s ba nblock limit =
     (if ba < limit then
        (let nblock' = (if nmbm_get_block_state s ba = BLOCK_ST_GOOD then nblock - 1 else nblock)
         in if nblock' < 0 then Some ba else walk_asc_loop s (ba + 1) nblock' limit)
      else None)"
  by pat_completeness auto
termination
  by (relation "measure (\<lambda>(s, ba, nblock, limit). limit - ba)") auto

function walk_desc_loop :: "'d bmt_st \<Rightarrow> nat \<Rightarrow> int \<Rightarrow> nat \<Rightarrow> nat option" where
  "walk_desc_loop s ba nblock limit =
     (if ba > limit then
        (let nblock' = (if nmbm_get_block_state s ba = BLOCK_ST_GOOD then nblock - 1 else nblock)
         in if nblock' < 0 then Some ba else walk_desc_loop s (ba - 1) nblock' limit)
      else None)"
  by pat_completeness auto
termination
  by (relation "measure (\<lambda>(s, ba, nblock, limit). ba)") auto

declare walk_asc_loop.simps [simp del] walk_desc_loop.simps [simp del]

definition clamp_limit :: "'d bmt_st \<Rightarrow> nat \<Rightarrow> nat" where
  "clamp_limit s limit =
     (if limit \<ge> block_count (ni s) then to_u32 (int (block_count (ni s)) - 1) else limit)"

definition nmbm_block_walk_asc :: "'d bmt_st \<Rightarrow> nat \<Rightarrow> nat \<Rightarrow> nat \<Rightarrow> nat option" where
  "nmbm_block_walk_asc s ba count limit =
     walk_asc_loop s ba (to_s32 (int count)) (clamp_limit s limit)"

definition nmbm_block_walk_desc :: "'d bmt_st \<Rightarrow> nat \<Rightarrow> nat \<Rightarrow> nat \<Rightarrow> nat option" where
  "nmbm_block_walk_desc s ba count limit =
     walk_desc_loop s ba (to_s32 (int count)) (clamp_limit s limit)"

definition nmbm_block_walk :: "'d bmt_st \<Rightarrow> bool \<Rightarrow> nat \<Rightarrow> int \<Rightarrow> int \<Rightarrow> nat option" where
  "nmbm_block_walk s ascending ba count limit =
     (if ascending then nmbm_block_walk_asc s ba (to_u32 count) (to_u32 limit)
      else nmbm_block_walk_desc s ba (to_u32 count) (to_u32 limit))"

section \<open>Building the tables\<close>

fun scan_badblocks_loop :: "'d nand_ops \<Rightarrow> nat list \<Rightarrow> 'd bmt_st \<Rightarrow> 'd bmt_st" where
  "scan_badblocks_loop nd [] s = s"
| "scan_badblocks_loop nd (ba # bas) s =
     (let (bad, s1) = nmbm_check_bad_phys_block nd ba s
      in scan_badblocks_loop nd bas
           (if bad then snd (nmbm_set_block_state ba BLOCK_ST_BAD s1) else s1))"

definition nmbm_scan_badblocks :: "'d nand_ops \<Rightarrow> 'd bmt_st \<Rightarrow> 'd bmt_st" where
  "nmbm_scan_badblocks nd s = scan_badblocks_loop nd [0..<block_count (ni s)] s"

fun build_mapping_loop :: "'d bmt_st \<Rightarrow> nat list \<Rightarrow> nat \<Rightarrow> int list \<Rightarrow> nat \<times> int list" where
  "build_mapping_loop s [] lb m = (lb, m)"
| "build_mapping_loop s (pb # pbs) lb m =
     (if nmbm_get_block_state s pb = BLOCK_ST_BAD then build_mapping_loop s pbs lb m
      else build_mapping_loop s pbs (lb + 1) (m[lb := int pb]))"

definition nmbm_build_mapping_table :: "'d bmt_st \<Rightarrow> 'd bmt_st" where
  "nmbm_build_mapping_table s =
     (let (lb, m) = build_mapping_loop s [0..<mgmt_start_ba (ni s)] 0 (block_mapping (ni s))
      in upd_ni (\<lambda>n. n\<lparr>data_block_count := lb,
                       block_mapping := fold (\<lambda>pb m. m[pb := - 1]) [lb..<block_count n] m\<rparr>) s)"

section \<open>Erasing and writing blocks of the management area\<close>

text \<open>The offsets of the pages of a block.\<close>

definition page_offs :: "'d bmt_st \<Rightarrow> nat list" where
  "page_offs s = map (\<lambda>i. i * pg_size s) [0..<(blk_size s + pg_size s - 1) div pg_size s]"

fun check_empty_pages :: "'d nand_ops \<Rightarrow> nat \<Rightarrow> nat list \<Rightarrow> 'd bmt_st \<Rightarrow> bool \<times> 'd bmt_st" where
  "check_empty_pages nd addr [] s = (True, s)"
| "check_empty_pages nd addr (off # offs) s =
     (let (ret, pc, s1) = nmbm_read_phys_page nd (addr + off) (data_buf s) s;
          s2 = s1\<lparr>data_buf := pc\<rparr>
      in if ret = - EBADMSG then (False, s2) else check_empty_pages nd addr offs s2)"

definition nmbm_erase_block_and_check :: "'d nand_ops \<Rightarrow> nat \<Rightarrow> 'd bmt_st \<Rightarrow> bool \<times> 'd bmt_st" where
  "nmbm_erase_block_and_check nd ba s =
     (let (success, s1) = nmbm_erase_phys_block nd (ba2addr s ba) s
      in if \<not> success then (False, s1)
         else if \<not> empty_page_ecc_ok (ni s1) then (True, s1)
         else check_empty_pages nd (ba2addr s1 ba) (page_offs s1) s1)"

text \<open>
  Two fragments that the loops over management blocks share: the guard at the head of an
  iteration, and the code behind the label \<^verbatim>\<open>skip_bad_block\<close>.
\<close>

definition block_usable :: "'d nand_ops \<Rightarrow> nat \<Rightarrow> 'd bmt_st \<Rightarrow> bool \<times> 'd bmt_st" where
  "block_usable nd ba s =
     (if nmbm_get_block_state s ba \<noteq> BLOCK_ST_GOOD then (False, s)
      else
        (let (bad, s1) = nmbm_check_bad_phys_block nd ba s
         in if bad then (False, snd (nmbm_set_block_state ba BLOCK_ST_BAD s1)) else (True, s1)))"

definition retire_block :: "'d nand_ops \<Rightarrow> nat \<Rightarrow> 'd bmt_st \<Rightarrow> 'd bmt_st" where
  "retire_block nd ba s =
     snd (nmbm_set_block_state ba BLOCK_ST_BAD (snd (nmbm_mark_phys_bad_block nd ba s)))"

text \<open>In each of the loops below, one iteration is a definition of its own.\<close>

definition erase_range_block :: "'d nand_ops \<Rightarrow> nat \<Rightarrow> 'd bmt_st \<Rightarrow> 'd bmt_st" where
  "erase_range_block nd ba s =
     (let (usable, s1) = block_usable nd ba s
      in if \<not> usable then s1
         else
           (let (success, s2) = nmbm_erase_block_and_check nd ba s1
            in if success then s2 else retire_block nd ba s2))"

function nmbm_erase_range :: "'d nand_ops \<Rightarrow> nat \<Rightarrow> nat \<Rightarrow> 'd bmt_st \<Rightarrow> 'd bmt_st" where
  "nmbm_erase_range nd ba limit s =
     (if ba < limit then nmbm_erase_range nd (ba + 1) limit (erase_range_block nd ba s) else s)"
  by pat_completeness auto
termination
  by (relation "measure (\<lambda>(nd, ba, limit, s). limit - ba)") auto

fun write_repeated_loop ::
  "'d nand_ops \<Rightarrow> nat \<Rightarrow> bytes \<Rightarrow> nat list \<Rightarrow> 'd bmt_st \<Rightarrow> bool \<times> 'd bmt_st" where
  "write_repeated_loop nd addr dat [] s = (True, s)"
| "write_repeated_loop nd addr dat (off # offs) s =
     (let s1 = s\<lparr>data_buf := dat @ replicate (rawpage_size (ni s) - length dat) (- 1)\<rparr>;
          (success, s2) = nmbm_write_phys_page nd (addr + off) (data_buf s1) s1
      in if \<not> success then (False, s2)
         else
           (let (ret, pc, s3) = nmbm_read_phys_page nd (addr + off) (data_buf s2) s2;
                s4 = s3\<lparr>data_buf := pc\<rparr>
            in if ret < 0 then (False, s4)
               else if take (length dat) (data_buf s4) \<noteq> dat then (False, s4)
               else write_repeated_loop nd addr dat offs s4))"

definition nmbm_write_repeated_data ::
  "'d nand_ops \<Rightarrow> nat \<Rightarrow> bytes \<Rightarrow> 'd bmt_st \<Rightarrow> bool \<times> 'd bmt_st" where
  "nmbm_write_repeated_data nd ba dat s =
     (if length dat > pg_size s then (False, s)
      else write_repeated_loop nd (ba2addr s ba) dat (page_offs s) s)"

definition write_signature_block ::
  "'d nand_ops \<Rightarrow> nat \<Rightarrow> nmbm_signature \<Rightarrow> 'd bmt_st \<Rightarrow> bool \<times> 'd bmt_st" where
  "write_signature_block nd ba sg s =
     (let (usable, s1) = block_usable nd ba s
      in if \<not> usable then (False, s1)
         else
           (let (erased, s2) = nmbm_erase_block_and_check nd ba s1
            in if \<not> erased then (False, retire_block nd ba s2)
               else
                 (let (success, s3) = nmbm_write_repeated_data nd ba (nmbm_signature_bytes sg) s2
                  in if success then (True, s3) else (False, retire_block nd ba s3))))"

function write_signature_loop ::
  "'d nand_ops \<Rightarrow> nat \<Rightarrow> nat \<Rightarrow> nmbm_signature \<Rightarrow> 'd bmt_st \<Rightarrow> nat option \<times> 'd bmt_st" where
  "write_signature_loop nd ba limit sg s =
     (if ba > limit then
        (let (success, s1) = write_signature_block nd ba sg s
         in if success then (Some ba, s1) else write_signature_loop nd (ba - 1) limit sg s1)
      else (None, s))"
  by pat_completeness auto
termination
  by (relation "measure (\<lambda>(nd, ba, limit, sg, s). ba)") auto

declare nmbm_erase_range.simps [simp del] write_signature_loop.simps [simp del]

definition nmbm_write_signature ::
  "'d nand_ops \<Rightarrow> nat \<Rightarrow> nmbm_signature \<Rightarrow> 'd bmt_st \<Rightarrow> nat option \<times> 'd bmt_st" where
  "nmbm_write_signature nd limit sg s =
     write_signature_loop nd (to_u32 (int (block_count (ni s)) - 1)) limit sg s"

text \<open>
  Reading and writing a range. The destination of a read is a buffer \<open>buf\<close> and the index
  \<open>p\<close> of the pointer \<^verbatim>\<open>ptr\<close> in it. The page size is not zero.
\<close>

definition read_chunk ::
  "'d nand_ops \<Rightarrow> nat \<Rightarrow> nat \<Rightarrow> nat \<Rightarrow> nat \<Rightarrow> bytes \<Rightarrow> 'd bmt_st \<Rightarrow> int \<times> bytes \<times> 'd bmt_st" where
  "read_chunk nd page leading chunksize p buf s =
     (if chunksize = pg_size s then
        (let (ret, dat, s1) = nmbm_read_phys_page nd page (take (pg_size s) (drop p buf)) s
         in (ret, store_at buf p dat, s1))
      else
        (let (ret, pc, s1) = nmbm_read_phys_page nd page (data_buf s) s;
             s2 = s1\<lparr>data_buf := pc\<rparr>
         in (ret, if ret < 0 then buf else store_at buf p (take chunksize (drop leading pc)), s2)))"

function read_data_loop ::
  "'d nand_ops \<Rightarrow> nat \<Rightarrow> nat \<Rightarrow> nat \<Rightarrow> bytes \<Rightarrow> 'd bmt_st \<Rightarrow> int \<times> bytes \<times> 'd bmt_st" where
  "read_data_loop nd off p sizeremain buf s =
     (if sizeremain = 0 \<or> pg_size s = 0 then (0, buf, s)
      else
        (let leading = off mod pg_size s;
             chunksize = min (pg_size s - leading) sizeremain;
             (ret, buf1, s1) = read_chunk nd (off - leading) leading chunksize p buf s
         in if ret < 0 then (ret, buf1, s1)
            else read_data_loop nd (off + chunksize) (p + chunksize) (sizeremain - chunksize) buf1 s1))"
  by pat_completeness auto
termination
  by (relation "measure (\<lambda>(nd, off, p, sizeremain, buf, s). sizeremain)") auto

definition nmbn_read_data ::
  "'d nand_ops \<Rightarrow> nat \<Rightarrow> nat \<Rightarrow> nat \<Rightarrow> bytes \<Rightarrow> 'd bmt_st \<Rightarrow> int \<times> bytes \<times> 'd bmt_st" where
  "nmbn_read_data nd addr p n buf s = read_data_loop nd addr p n buf s"

definition write_verify_page ::
  "'d nand_ops \<Rightarrow> nat \<Rightarrow> nat \<Rightarrow> bytes \<Rightarrow> 'd bmt_st \<Rightarrow> bool \<times> 'd bmt_st" where
  "write_verify_page nd page leading dat s =
     (let pc = store_at (replicate (rawpage_size (ni s)) (- 1)) leading dat;
          (success, s1) = nmbm_write_phys_page nd page pc (s\<lparr>data_buf := pc\<rparr>)
      in if \<not> success then (False, s1)
         else
           (let (ret, pc', s2) = nmbm_read_phys_page nd page (data_buf s1) s1
            in (\<not> ret < 0 \<and> take (length dat) (drop leading pc') = dat, s2\<lparr>data_buf := pc'\<rparr>)))"

function nmbn_write_verify_data ::
  "'d nand_ops \<Rightarrow> nat \<Rightarrow> bytes \<Rightarrow> 'd bmt_st \<Rightarrow> bool \<times> 'd bmt_st" where
  "nmbn_write_verify_data nd off ptr s =
     (if ptr = [] \<or> pg_size s = 0 then (True, s)
      else
        (let leading = off mod pg_size s;
             chunksize = min (pg_size s - leading) (length ptr);
             (success, s1) = write_verify_page nd (off - leading) leading (take chunksize ptr) s
         in if \<not> success then (False, s1)
            else nmbn_write_verify_data nd (off + chunksize) (drop chunksize ptr) s1))"
  by pat_completeness auto
termination
  by (relation "measure (\<lambda>(nd, off, ptr, s). length ptr)") auto

text \<open>
  The result of \<^verbatim>\<open>nmbm_write_mgmt_range\<close> is the first block and the block behind the last
  one. \<open>siz\<close> is the size of all the data, \<open>start\<close> the output parameter so far.
\<close>

definition write_mgmt_block :: "'d nand_ops \<Rightarrow> nat \<Rightarrow> bytes \<Rightarrow> 'd bmt_st \<Rightarrow> bool \<times> 'd bmt_st" where
  "write_mgmt_block nd ba dat s =
     (let (usable, s1) = block_usable nd ba s
      in if \<not> usable then (False, s1)
         else
           (let (erased, s2) = nmbm_erase_block_and_check nd ba s1
            in if \<not> erased then (False, retire_block nd ba s2)
               else
                 (let (success, s3) = nmbn_write_verify_data nd (ba2addr s2 ba) dat s2
                  in if success then (True, s3) else (False, retire_block nd ba s3))))"

function write_mgmt_loop ::
  "'d nand_ops \<Rightarrow> nat \<Rightarrow> nat \<Rightarrow> bytes \<Rightarrow> nat \<Rightarrow> nat \<Rightarrow> 'd bmt_st \<Rightarrow>
   (nat \<times> nat) option \<times> 'd bmt_st" where
  "write_mgmt_loop nd ba limit ptr siz start s =
     (if ptr \<noteq> [] \<and> ba < limit then
        (let chunksize = min (length ptr) (blk_size s);
             (success, s1) = write_mgmt_block nd ba (take chunksize ptr) s
         in if success
            then write_mgmt_loop nd (ba + 1) limit (drop chunksize ptr) siz
                   (if length ptr = siz then ba else start) s1
            else write_mgmt_loop nd (ba + 1) limit ptr siz start s1)
      else if ptr \<noteq> [] then (None, s) else (Some (start, ba), s))"
  by pat_completeness auto
termination
  by (relation "measure (\<lambda>(nd, ba, limit, ptr, siz, start, s). limit - ba)") auto

declare read_data_loop.simps [simp del] nmbn_write_verify_data.simps [simp del]
  write_mgmt_loop.simps [simp del]

definition nmbm_write_mgmt_range ::
  "'d nand_ops \<Rightarrow> nat \<Rightarrow> nat \<Rightarrow> bytes \<Rightarrow> 'd bmt_st \<Rightarrow> (nat \<times> nat) option \<times> 'd bmt_st" where
  "nmbm_write_mgmt_range nd ba limit dat s = write_mgmt_loop nd ba limit dat (length dat) 0 s"

section \<open>Writing the info table\<close>

definition nmbm_generate_info_table_cache :: "crc_fn \<Rightarrow> 'd bmt_st \<Rightarrow> bool \<times> 'd bmt_st" where
  "nmbm_generate_info_table_cache crc s =
     (let n = ni s;
          c0 = replicate (info_table_size n) (- 1);
          c1 = store_at c0 (unat (it_state_table_off (info_table n))) (state_bytes (block_state n));
          c2 = store_at c1 (unat (it_mapping_table_off (info_table n)))
                 (mapping_bytes (block_mapping n));
          changed = (block_state_changed n \<noteq> 0 \<or> block_mapping_changed n \<noteq> 0);
          t = (info_table n)\<lparr>it_header := (it_header (info_table n))
                \<lparr>nh_magic := NMBM_MAGIC_INFO_TABLE, nh_version := NMBM_VER,
                 nh_size := of_nat (info_table_size n)\<rparr>\<rparr>;
          t' = (if changed then t\<lparr>it_write_count := it_write_count t + 1\<rparr> else t);
          c3 = store_at c2 0 (nmbm_info_table_header_bytes t')
      in (changed, upd_ni (\<lambda>n. n\<lparr>info_table := t', info_table_cache := nmbm_update_checksum crc c3\<rparr>) s))"

definition nmbm_write_info_table ::
  "'d nand_ops \<Rightarrow> nat \<Rightarrow> nat \<Rightarrow> 'd bmt_st \<Rightarrow> (nat \<times> nat) option \<times> 'd bmt_st" where
  "nmbm_write_info_table nd ba limit s =
     nmbm_write_mgmt_range nd ba limit (info_table_cache (ni s)) s"

definition nmbm_mark_tables_clean :: "'d bmt_st \<Rightarrow> 'd bmt_st" where
  "nmbm_mark_tables_clean s = upd_ni (\<lambda>n. n\<lparr>block_state_changed := 0, block_mapping_changed := 0\<rparr>) s"

function try_reserve_loop :: "'d bmt_st \<Rightarrow> nat \<Rightarrow> int \<Rightarrow> int \<Rightarrow> int \<Rightarrow> nat option" where
  "try_reserve_loop s ba nblocks min_count limit =
     (if nblocks \<ge> min_count then
        (case nmbm_block_walk s True ba nblocks limit of
           Some nba \<Rightarrow> Some nba
         | None \<Rightarrow> try_reserve_loop s ba (nblocks - 1) min_count limit)
      else None)"
  by pat_completeness auto
termination
  by (relation "measure (\<lambda>(s, ba, nblocks, min_count, limit). nat (nblocks - min_count + 1))") auto

declare try_reserve_loop.simps [simp del]

definition nmbm_try_reserve_blocks ::
  "'d bmt_st \<Rightarrow> nat \<Rightarrow> nat \<Rightarrow> int \<Rightarrow> int \<Rightarrow> nat option" where
  "nmbm_try_reserve_blocks s ba count min_count limit =
     try_reserve_loop s ba (to_s32 (int count)) min_count limit"

text \<open>The limit below which a reserved gap must end so that a table fits behind it.\<close>

definition table_limit :: "'d bmt_st \<Rightarrow> int" where
  "table_limit s = to_s32 (int (mapping_blocks_top_ba (ni s)) - int (size2blk s (info_table_size (ni s))))"

definition nmbm_rebuild_info_table :: "'d nand_ops \<Rightarrow> 'd bmt_st \<Rightarrow> bool \<times> 'd bmt_st" where
  "nmbm_rebuild_info_table nd s =
     (let s0 = upd_ni (\<lambda>n. n\<lparr>main_table_ba := 0, backup_table_ba := 0,
                             mapping_blocks_ba := mapping_blocks_top_ba n\<rparr>) s
      in case nmbm_write_info_table nd (mgmt_start_ba (ni s0)) (mapping_blocks_top_ba (ni s0)) s0 of
           (None, s1) \<Rightarrow> (False, upd_ni (protected_update (\<lambda>_. True)) s1)
         | (Some (start_ba, main_end), s1) \<Rightarrow>
             (let s2 = nmbm_mark_tables_clean
                         (upd_ni (\<lambda>n. n\<lparr>main_table_ba := start_ba, mapping_blocks_ba := main_end\<rparr>) s1)
              in case nmbm_try_reserve_blocks s2 main_end (info_table_spare_blocks (ni s2)) 0
                        (table_limit s2) of
                   None \<Rightarrow> (True, s2)
                 | Some next_start_ba \<Rightarrow>
                     (case nmbm_write_info_table nd next_start_ba (mapping_blocks_top_ba (ni s2)) s2 of
                        (None, s3) \<Rightarrow> (True, s3)
                      | (Some (backup_ba, end_ba), s3) \<Rightarrow>
                          (let s4 = upd_ni (\<lambda>n. n\<lparr>backup_table_ba := backup_ba,
                                                  mapping_blocks_ba := end_ba\<rparr>) s3
                           in (True, nmbm_erase_range nd main_end backup_ba s4)))))"

text \<open>
  The loops that try to write a table behind an existing one, each time one block lower. The
  lower bound is a block of the management area and not 0, so the decrement does not wrap.
\<close>

fun write_table_down ::
  "'d nand_ops \<Rightarrow> nat \<Rightarrow> nat \<Rightarrow> 'd bmt_st \<Rightarrow> (nat \<times> nat) option \<times> 'd bmt_st" where
  "write_table_down nd write_ba low s =
     (case nmbm_write_info_table nd write_ba (mapping_blocks_top_ba (ni s)) s of
        (Some r, s1) \<Rightarrow> (Some r, s1)
      | (None, s1) \<Rightarrow> if low < write_ba then write_table_down nd (write_ba - 1) low s1 else (None, s1))"

declare write_table_down.simps [simp del]

definition nmbm_rescue_single_info_table :: "'d nand_ops \<Rightarrow> 'd bmt_st \<Rightarrow> bool \<times> 'd bmt_st" where
  "nmbm_rescue_single_info_table nd s =
     (case nmbm_write_info_table nd (mgmt_start_ba (ni s)) (main_table_ba (ni s)) s of
        (Some (start_ba, end_ba), s1) \<Rightarrow>
          (let s2 = nmbm_mark_tables_clean
                      (upd_ni (\<lambda>n. n\<lparr>backup_table_ba := main_table_ba n, main_table_ba := start_ba\<rparr>) s1)
           in (True, nmbm_erase_range nd end_ba (backup_table_ba (ni s2)) s2))
      | (None, s1) \<Rightarrow>
          (case nmbm_try_reserve_blocks s1 (mapping_blocks_ba (ni s1))
                  (info_table_spare_blocks (ni s1)) 0 (table_limit s1) of
             None \<Rightarrow> (False, s1)
           | Some write_ba \<Rightarrow>
               (case write_table_down nd write_ba (mapping_blocks_ba (ni s1)) s1 of
                  (None, s2) \<Rightarrow> (False, s2)
                | (Some (start_ba, end_ba), s2) \<Rightarrow>
                    (let s3 = nmbm_erase_range nd (mapping_blocks_ba (ni s2)) start_ba s2
                     in (True, nmbm_mark_tables_clean
                           (upd_ni (\<lambda>n. n\<lparr>backup_table_ba := start_ba, mapping_blocks_ba := end_ba\<rparr>) s3))))))"

definition nmbm_update_single_info_table :: "'d nand_ops \<Rightarrow> bool \<Rightarrow> 'd bmt_st \<Rightarrow> bool \<times> 'd bmt_st" where
  "nmbm_update_single_info_table nd update_main_table s =
     (let (write_start_ba, write_limit) =
            (if update_main_table then (main_table_ba (ni s), backup_table_ba (ni s))
             else (backup_table_ba (ni s), mapping_blocks_top_ba (ni s)))
      in case nmbm_write_info_table nd write_start_ba write_limit s of
           (Some (start_ba, end_ba), s1) \<Rightarrow>
             (True, nmbm_mark_tables_clean
               (if update_main_table then upd_ni (main_table_ba_update (\<lambda>_. start_ba)) s1
                else upd_ni (\<lambda>n. n\<lparr>backup_table_ba := start_ba, mapping_blocks_ba := end_ba\<rparr>) s1))
         | (None, s1) \<Rightarrow>
             if update_main_table then
               nmbm_rescue_single_info_table nd
                 (upd_ni (\<lambda>n. n\<lparr>main_table_ba := backup_table_ba n, backup_table_ba := 0\<rparr>) s1)
             else
               (False, upd_ni (\<lambda>n. n\<lparr>mapping_blocks_ba := backup_table_ba n, backup_table_ba := 0\<rparr>) s1))"

text \<open>
  \<^verbatim>\<open>nmbm_rescue_main_info_table\<close>. The assignment that makes the backup table the main table
  occurs twice.
\<close>

abbreviation backup_becomes_main :: "'d bmt_st \<Rightarrow> 'd bmt_st" where
  "backup_becomes_main s \<equiv> upd_ni (\<lambda>n. n\<lparr>main_table_ba := backup_table_ba n, backup_table_ba := 0\<rparr>) s"

definition rescue_new_backup :: "'d nand_ops \<Rightarrow> nat \<Rightarrow> 'd bmt_st \<Rightarrow> bool \<times> 'd bmt_st" where
  "rescue_new_backup nd main_end s =
     (let s0 = upd_ni (mapping_blocks_ba_update (\<lambda>_. main_end)) s
      in case nmbm_try_reserve_blocks s0 main_end (info_table_spare_blocks (ni s0)) 0 (table_limit s0) of
           None \<Rightarrow> (True, upd_ni (backup_table_ba_update (\<lambda>_. 0)) s0)
         | Some write_ba \<Rightarrow>
             (case write_table_down nd write_ba main_end s0 of
                (None, s1) \<Rightarrow> (True, upd_ni (backup_table_ba_update (\<lambda>_. 0)) s1)
              | (Some (tmp_start, tmp_end), s1) \<Rightarrow>
                  (let s2 = upd_ni (\<lambda>n. n\<lparr>backup_table_ba := tmp_start, mapping_blocks_ba := tmp_end\<rparr>) s1
                   in (True, nmbm_erase_range nd main_end tmp_start s2))))"

definition nmbm_rescue_main_info_table :: "'d nand_ops \<Rightarrow> 'd bmt_st \<Rightarrow> bool \<times> 'd bmt_st" where
  "nmbm_rescue_main_info_table nd s =
     (case nmbm_try_reserve_blocks s (mapping_blocks_ba (ni s)) (info_table_spare_blocks (ni s)) 0
             (table_limit s) of
        None \<Rightarrow> (True, backup_becomes_main s)
      | Some write_ba \<Rightarrow>
          (case write_table_down nd write_ba (mapping_blocks_ba (ni s)) s of
             (None, s1) \<Rightarrow> (True, backup_becomes_main s1)
           | (Some (tmp_start, tmp_end), s1) \<Rightarrow>
               (let s2 = upd_ni (mapping_blocks_ba_update (\<lambda>_. tmp_end)) s1
                in case nmbm_write_info_table nd (mgmt_start_ba (ni s2)) tmp_start s2 of
                     (None, s3) \<Rightarrow>
                       (True, nmbm_mark_tables_clean
                          (upd_ni (\<lambda>n. n\<lparr>main_table_ba := tmp_start, backup_table_ba := 0\<rparr>) s3))
                   | (Some (main_start, main_end), s3) \<Rightarrow>
                       (let s4 = nmbm_mark_tables_clean
                                   (upd_ni (main_table_ba_update (\<lambda>_. main_start)) s3)
                        in if main_end \<le> tmp_start
                           then (True, upd_ni (backup_table_ba_update (\<lambda>_. tmp_start)) s4)
                           else rescue_new_backup nd main_end s4))))"

text \<open>The part of \<^verbatim>\<open>nmbm_update_info_table_once\<close> behind the label \<^verbatim>\<open>write_main_table\<close>.\<close>

definition write_main_table :: "'d nand_ops \<Rightarrow> nat \<Rightarrow> 'd bmt_st \<Rightarrow> bool \<times> 'd bmt_st" where
  "write_main_table nd main_table_limit s =
     (if main_table_ba (ni s) = 0 then nmbm_rebuild_info_table nd s
      else case nmbm_write_info_table nd (main_table_ba (ni s)) main_table_limit s of
             (None, s1) \<Rightarrow>
               if backup_table_ba (ni s1) = 0 then nmbm_rebuild_info_table nd s1
               else nmbm_rescue_main_info_table nd s1
           | (Some (start_ba, end_ba), s1) \<Rightarrow>
               (let s2 = upd_ni (main_table_ba_update (\<lambda>_. start_ba)) s1;
                    s3 = (if backup_table_ba (ni s2) = 0
                          then upd_ni (mapping_blocks_ba_update (\<lambda>_. end_ba)) s2 else s2)
                in (True, nmbm_mark_tables_clean s3)))"

definition nmbm_update_info_table_once ::
  "'d nand_ops \<Rightarrow> crc_fn \<Rightarrow> bool \<Rightarrow> 'd bmt_st \<Rightarrow> bool \<times> 'd bmt_st" where
  "nmbm_update_info_table_once nd crc force s =
     (let (changed, s1) = nmbm_generate_info_table_cache crc s
      in if \<not> changed \<and> \<not> force then (True, s1)
         else if backup_table_ba (ni s1) = 0
         then write_main_table nd (mapping_blocks_top_ba (ni s1)) s1
         else
           (case nmbm_write_info_table nd (backup_table_ba (ni s1)) (mapping_blocks_top_ba (ni s1)) s1 of
              (None, s2) \<Rightarrow>
                (let s3 = upd_ni (\<lambda>n. n\<lparr>mapping_blocks_ba := backup_table_ba n, backup_table_ba := 0\<rparr>) s2
                 in write_main_table nd (mapping_blocks_top_ba (ni s3)) s3)
            | (Some (start_ba, end_ba), s2) \<Rightarrow>
                (let s3 = nmbm_mark_tables_clean
                            (upd_ni (\<lambda>n. n\<lparr>backup_table_ba := start_ba, mapping_blocks_ba := end_ba\<rparr>) s2)
                 in write_main_table nd (backup_table_ba (ni s3)) s3)))"

end
