(* ===== verification/Nmbm_Actions.thy ===== *)
theory Nmbm_Actions
  imports Nmbm_Tables
begin

unbundle bit_operations_syntax

text \<open>
  How the management code of the NMBM scheme acts on the chip and on the state table: the laws
  of the state table, the inductive relation \<open>acts\<close>, the proof that every function that
  erases, writes and verifies management blocks is a sequence of such actions, and from it the
  termination of the repeated update of the stored tables, which is defined here.
\<close>

section \<open>Laws of the state table\<close>

lemma blocks_per_unit [simp]: "NMBM_BITMAP_BLOCKS_PER_UNIT = 16"
  by (simp add: NMBM_BITMAP_BLOCKS_PER_UNIT_def)

lemma length_set_state_raw [simp]: "length (set_state_raw tbl ba st) = length tbl"
  by (simp add: set_state_raw_def Let_def)

text \<open>Two bits at a position of a word, and two bits at another position.\<close>

lemma bit_mask2: "bit BLOCK_ST_MASK n \<longleftrightarrow> n < 2"
proof -
  have "BLOCK_ST_MASK = mask 2" by (simp add: mask_eq_exp_minus_1 BLOCK_ST_MASK_def)
  then show ?thesis using bit_mask_iff[where ?'a = u32, of 2 n] by auto
qed

lemma pair_bits_same:
  assumes "i < 16"
  shows "drop_bit (i * 2) ((w AND NOT (push_bit (i * 2) BLOCK_ST_MASK))
           OR push_bit (i * 2) (st AND BLOCK_ST_MASK)) AND BLOCK_ST_MASK = st AND BLOCK_ST_MASK"
  by (rule bit_word_eqI) (use assms in \<open>auto simp: bit_simps bit_mask2\<close>)

lemma pair_bits_other:
  assumes "i < 16" "j < 16" "i \<noteq> j"
  shows "drop_bit (j * 2) ((w AND NOT (push_bit (i * 2) BLOCK_ST_MASK))
           OR push_bit (i * 2) (st AND BLOCK_ST_MASK)) AND BLOCK_ST_MASK
     = drop_bit (j * 2) w AND BLOCK_ST_MASK"
  by (rule bit_word_eqI) (use assms in \<open>auto simp: bit_simps bit_mask2\<close>)

lemma get_set_state_raw:
  "nmbm_get_block_state_raw (set_state_raw tbl ba st) ba' =
     (if ba' = ba \<and> ba < 16 * length tbl then st AND BLOCK_ST_MASK else nmbm_get_block_state_raw tbl ba')"
proof (cases "ba' div 16 = ba div 16 \<and> ba div 16 < length tbl")
  case True
  have "ba' = ba \<longleftrightarrow> ba' mod 16 = ba mod 16" using True by (metis div_mult_mod_eq)
  then show ?thesis
    using True pair_bits_same[of "ba mod 16" "tbl ! (ba div 16)" st]
      pair_bits_other[of "ba mod 16" "ba' mod 16" "tbl ! (ba div 16)" st]
    by (auto simp: nmbm_get_block_state_raw_def set_state_raw_def Let_def)
next
  case False
  then show ?thesis
    by (auto simp: nmbm_get_block_state_raw_def set_state_raw_def Let_def nth_list_update)
qed

lemma set_block_state_eq:
  "snd (nmbm_set_block_state ba st s) =
     upd_ni (\<lambda>n. n\<lparr>block_state := set_state_raw (block_state n) ba st,
       block_state_changed := block_state_changed n +
         (if nmbm_get_block_state s ba \<noteq> st AND BLOCK_ST_MASK then 1 else 0)\<rparr>) s"
  by (simp add: nmbm_set_block_state_def Let_def)

definition goods :: "'d bmt_st \<Rightarrow> nat set" where
  "goods s = {ba. nmbm_get_block_state s ba = BLOCK_ST_GOOD}"

lemma good_in_table: "nmbm_get_block_state_raw tbl ba = BLOCK_ST_GOOD \<Longrightarrow> ba < 16 * length tbl"
  by (auto simp: nmbm_get_block_state_raw_def Let_def BLOCK_ST_GOOD_def BLOCK_ST_BAD_def
      split: if_splits)

lemma finite_goods [simp]: "finite (goods s)"
  by (rule finite_subset[of _ "{..<16 * length (block_state (ni s))}"])
    (auto simp: goods_def nmbm_get_block_state_def dest: good_in_table)

lemma bad_masked [simp]: "BLOCK_ST_BAD AND BLOCK_ST_MASK = BLOCK_ST_BAD" "BLOCK_ST_GOOD \<noteq> BLOCK_ST_BAD"
  "BLOCK_ST_BAD \<noteq> BLOCK_ST_GOOD"
  by (simp_all add: BLOCK_ST_BAD_def BLOCK_ST_GOOD_def)

lemma goods_set_bad [simp]:
  "goods (snd (nmbm_set_block_state ba BLOCK_ST_BAD s)) = goods s - {ba}"
  using good_in_table[of "block_state (ni s)" ba]
  by (auto simp: goods_def set_block_state_eq nmbm_get_block_state_def get_set_state_raw split: if_splits)

section \<open>What the management code does to the chip\<close>

text \<open>
  The management code as a sequence of actions on the state: reading, storing into the page
  buffer, and erasing, writing and marking inside the ranges \<open>A\<close> of addresses. When \<open>R\<close>
  holds, good blocks may also be retired in the state table. Every function below is shown
  once to be such a sequence; what holds for all sequences then holds for it.
\<close>

inductive acts ::
  "'d nand_ops \<Rightarrow> (nat \<Rightarrow> nat \<Rightarrow> bool) \<Rightarrow> bool \<Rightarrow> 'd bmt_st \<Rightarrow> 'd bmt_st \<Rightarrow> bool"
  for nd A R where
  acts_refl [simp]: "acts nd A R s s"
| acts_read: "acts nd A R s t \<Longrightarrow> acts nd A R s (t\<lparr>dev := snd (nd_read_oob nd (dev t) a rq)\<rparr>)"
| acts_query: "acts nd A R s t \<Longrightarrow> acts nd A R s (t\<lparr>dev := snd (nd_block_isbad nd (dev t) a)\<rparr>)"
| acts_buffer: "acts nd A R s t \<Longrightarrow> acts nd A R s (t\<lparr>data_buf := b\<rparr>)"
| acts_write: "acts nd A R s t \<Longrightarrow> A a (pg_size t) \<Longrightarrow>
     acts nd A R s (t\<lparr>dev := snd (nd_write_oob nd (dev t) a (page_rq t dat))\<rparr>)"
| acts_erase: "acts nd A R s t \<Longrightarrow> A a (mtd_erasesize t) \<Longrightarrow>
     acts nd A R s (t\<lparr>dev := snd (nd_erase nd (dev t) a (mtd_erasesize t))\<rparr>)"
| acts_mark: "acts nd A R s t \<Longrightarrow> A a (mtd_erasesize t) \<Longrightarrow>
     acts nd A R s (t\<lparr>dev := snd (nd_block_markbad nd (dev t) a)\<rparr>)"
| acts_retire: "acts nd A R s t \<Longrightarrow> R \<Longrightarrow> ba \<in> goods t \<Longrightarrow>
     acts nd A R s (snd (nmbm_set_block_state ba BLOCK_ST_BAD t))"

lemma acts_trans [trans]: "acts nd A R s t \<Longrightarrow> acts nd A R t u \<Longrightarrow> acts nd A R s u"
  by (rotate_tac, induction rule: acts.induct) (auto intro: acts.intros)

lemma acts_mono: "acts nd A False s t \<Longrightarrow> acts nd A R s t"
  by (induction rule: acts.induct) (auto intro: acts.intros)

text \<open>Without retiring, only the chip and the page buffer change.\<close>

definition scratch :: "'d bmt_st \<Rightarrow> 'd bmt_st \<Rightarrow> bool" where
  "scratch s t \<longleftrightarrow> t = s\<lparr>dev := dev t, data_buf := data_buf t\<rparr>"

lemma scratch_upd:
  "scratch s s"
  "scratch s t \<Longrightarrow> scratch s (t\<lparr>dev := d\<rparr>)" "scratch s t \<Longrightarrow> scratch s (t\<lparr>data_buf := b\<rparr>)"
  unfolding scratch_def by (cases s, cases t, simp)+

lemma acts_scratch: "acts nd A False s t \<Longrightarrow> scratch s t"
  by (induction rule: acts.induct) (auto intro: scratch_upd)

text \<open>
  With retiring, the state table changes too: the good blocks get fewer, or the table and the
  counter of its changes stay as they are.
\<close>

definition wears :: "'d bmt_st \<Rightarrow> 'd bmt_st \<Rightarrow> bool" where
  "wears s t \<longleftrightarrow>
     t = s\<lparr>dev := dev t, data_buf := data_buf t,
           ni := (ni s)\<lparr>block_state := block_state (ni t),
                         block_state_changed := block_state_changed (ni t)\<rparr>\<rparr> \<and>
     length (block_state (ni t)) = length (block_state (ni s)) \<and> goods t \<subseteq> goods s \<and>
     (goods t = goods s \<longrightarrow> block_state (ni t) = block_state (ni s) \<and>
        block_state_changed (ni t) = block_state_changed (ni s))"

lemma goods_unchanged [simp]:
  "goods (s\<lparr>dev := d\<rparr>) = goods s" "goods (s\<lparr>data_buf := b\<rparr>) = goods s"
  by (simp_all add: goods_def nmbm_get_block_state_def)

lemma wears_upd:
  "wears s s"
  "wears s t \<Longrightarrow> wears s (t\<lparr>dev := d\<rparr>)" "wears s t \<Longrightarrow> wears s (t\<lparr>data_buf := b\<rparr>)"
  unfolding wears_def goods_unchanged by (cases s, cases t, simp)+

lemma wears_retire:
  assumes "wears s t" "ba \<in> goods t"
  shows "wears s (snd (nmbm_set_block_state ba BLOCK_ST_BAD t))"
proof -
  let ?t = "snd (nmbm_set_block_state ba BLOCK_ST_BAD t)"
  have "goods t \<subseteq> goods s" using assms(1) by (simp add: wears_def)
  then have sub: "goods ?t \<subseteq> goods s" "goods ?t \<noteq> goods s" using assms(2) by auto
  have "t = s\<lparr>dev := dev t, data_buf := data_buf t,
           ni := (ni s)\<lparr>block_state := block_state (ni t),
                         block_state_changed := block_state_changed (ni t)\<rparr>\<rparr>"
    using assms(1) by (simp add: wears_def)
  then have "?t = s\<lparr>dev := dev ?t, data_buf := data_buf ?t,
           ni := (ni s)\<lparr>block_state := block_state (ni ?t),
                         block_state_changed := block_state_changed (ni ?t)\<rparr>\<rparr>"
    unfolding set_block_state_eq by (cases s, cases t, cases "ni s", cases "ni t") simp
  moreover have "length (block_state (ni ?t)) = length (block_state (ni s))"
    using assms(1) unfolding wears_def set_block_state_eq by simp
  ultimately show ?thesis unfolding wears_def using sub by blast
qed

lemma acts_wears: "acts nd A R s t \<Longrightarrow> wears s t"
  by (induction rule: acts.induct) (auto intro: wears_upd wears_retire)

section \<open>The functions as sequences of actions\<close>

lemma read_page_acts: "nmbm_read_phys_page nd a buf s = (r, b, t) \<Longrightarrow> acts nd A R s t"
proof -
  have "read_tries n ret nd a buf s = (r, b, t) \<Longrightarrow> acts nd A R s t" for n ret
  proof (induction n arbitrary: ret buf s)
    case (Suc n)
    have "acts nd A R s (s\<lparr>dev := d\<rparr>)" if "nd_read_oob nd (dev s) a (page_rq s []) = (x, d)" for x d
      using acts_read[OF acts_refl, of nd A R s a "page_rq s []"] that by simp
    then show ?case using Suc.prems
      by (auto simp: Let_def split: prod.splits if_splits dest: Suc.IH intro: acts_trans)
  qed simp
  then show "nmbm_read_phys_page nd a buf s = (r, b, t) \<Longrightarrow> acts nd A R s t"
    unfolding nmbm_read_phys_page_def by blast
qed

lemma write_page_acts:
  "nmbm_write_phys_page nd a dat s = (r, t) \<Longrightarrow> A a (pg_size s) \<Longrightarrow> acts nd A R s t"
proof -
  have "write_tries n nd a dat s = (r, t) \<Longrightarrow> A a (pg_size s) \<Longrightarrow> acts nd A R s t" for n
  proof (induction n arbitrary: s)
    case (Suc n)
    have "acts nd A R s (s\<lparr>dev := d\<rparr>)"
      if "nd_write_oob nd (dev s) a (page_rq s (take (pg_size s) dat)) = (x, d)" for x d
      using acts_write[OF acts_refl, of A a s nd R "take (pg_size s) dat"] that Suc.prems(2) by simp
    then show ?case using Suc.prems
      by (auto simp: Let_def split: prod.splits if_splits dest: Suc.IH intro: acts_trans)
  qed simp
  then show "nmbm_write_phys_page nd a dat s = (r, t) \<Longrightarrow> A a (pg_size s) \<Longrightarrow> acts nd A R s t"
    unfolding nmbm_write_phys_page_def by blast
qed

lemma erase_block_acts:
  "nmbm_erase_phys_block nd a s = (r, t) \<Longrightarrow> A a (mtd_erasesize s) \<Longrightarrow> acts nd A R s t"
proof -
  have "erase_tries n nd a s = (r, t) \<Longrightarrow> A a (mtd_erasesize s) \<Longrightarrow> acts nd A R s t" for n
  proof (induction n arbitrary: s)
    case (Suc n)
    have "acts nd A R s (s\<lparr>dev := d\<rparr>)" if "nd_erase nd (dev s) a (mtd_erasesize s) = (x, d)" for x d
      using acts_erase[OF acts_refl, of A a s nd R] that Suc.prems(2) by simp
    then show ?case using Suc.prems
      by (auto simp: Let_def split: prod.splits if_splits dest: Suc.IH intro: acts_trans)
  qed simp
  then show "nmbm_erase_phys_block nd a s = (r, t) \<Longrightarrow> A a (mtd_erasesize s) \<Longrightarrow> acts nd A R s t"
    unfolding nmbm_erase_phys_block_def by blast
qed

lemma check_bad_acts: "nmbm_check_bad_phys_block nd ba s = (r, t) \<Longrightarrow> acts nd A R s t"
  using acts_query[OF acts_refl, of nd A R s "ba2addr s ba"]
  by (auto simp: nmbm_check_bad_phys_block_def Let_def split: prod.splits)

lemma mark_bad_acts:
  "nmbm_mark_phys_bad_block nd ba s = (r, t) \<Longrightarrow> A (ba2addr s ba) (mtd_erasesize s) \<Longrightarrow> acts nd A R s t"
  using acts_mark[OF acts_refl, of A "ba2addr s ba" s nd R]
  by (auto simp: nmbm_mark_phys_bad_block_def Let_def split: prod.splits)

lemma check_empty_acts: "check_empty_pages nd addr offs s = (r, t) \<Longrightarrow> acts nd A R s t"
proof (induction offs arbitrary: s)
  case (Cons off offs)
  then show ?case
    by (auto simp: Let_def split: prod.splits if_splits
        dest!: read_page_acts[where A = A and R = R] intro: acts_buffer acts_trans[OF acts_buffer])
qed simp

text \<open>The addresses that the code may touch when it works on a block.\<close>

definition block_in :: "(nat \<Rightarrow> nat \<Rightarrow> bool) \<Rightarrow> 'd bmt_st \<Rightarrow> nat \<Rightarrow> bool" where
  "block_in A s ba \<longleftrightarrow>
     A (ba2addr s ba) (mtd_erasesize s) \<and>
     (\<forall>off. ba2addr s ba \<le> off \<and> off < ba2addr s ba + blk_size s \<longrightarrow>
        A (off - off mod pg_size s) (pg_size s)) \<and>
     (\<forall>off \<in> set (page_offs s). A (ba2addr s ba + off) (pg_size s))"

lemma wears_frame:
  assumes "wears s t"
  shows "mtd_erasesize t = mtd_erasesize s" "pg_size t = pg_size s" "blk_size t = blk_size s"
    "blk_shift t = blk_shift s" "block_mapping (ni t) = block_mapping (ni s)"
    "mgmt_start_ba (ni t) = mgmt_start_ba (ni s)" "mapping_blocks_ba (ni t) = mapping_blocks_ba (ni s)"
    "mapping_blocks_top_ba (ni t) = mapping_blocks_top_ba (ni s)"
    "data_block_count (ni t) = data_block_count (ni s)" "main_table_ba (ni t) = main_table_ba (ni s)"
    "backup_table_ba (ni t) = backup_table_ba (ni s)" "total_blks t = total_blks s"
    "block_mapping_changed (ni t) = block_mapping_changed (ni s)" "signature_ba (ni t) = signature_ba (ni s)"
    "info_table_cache (ni t) = info_table_cache (ni s)"
proof -
  have e: "t = s\<lparr>dev := dev t, data_buf := data_buf t,
           ni := (ni s)\<lparr>block_state := block_state (ni t),
                         block_state_changed := block_state_changed (ni t)\<rparr>\<rparr>"
    using assms by (simp add: wears_def)
  show "mtd_erasesize t = mtd_erasesize s" "pg_size t = pg_size s" "blk_size t = blk_size s"
    "blk_shift t = blk_shift s" "block_mapping (ni t) = block_mapping (ni s)"
    "mgmt_start_ba (ni t) = mgmt_start_ba (ni s)" "mapping_blocks_ba (ni t) = mapping_blocks_ba (ni s)"
    "mapping_blocks_top_ba (ni t) = mapping_blocks_top_ba (ni s)"
    "data_block_count (ni t) = data_block_count (ni s)" "main_table_ba (ni t) = main_table_ba (ni s)"
    "backup_table_ba (ni t) = backup_table_ba (ni s)" "total_blks t = total_blks s"
    "block_mapping_changed (ni t) = block_mapping_changed (ni s)" "signature_ba (ni t) = signature_ba (ni s)"
    "info_table_cache (ni t) = info_table_cache (ni s)"
    by (subst e, simp)+
qed

lemmas acts_frame = wears_frame[OF acts_wears]

lemma block_in_acts: "acts nd A R s t \<Longrightarrow> block_in B t ba = block_in B s ba"
  by (simp add: block_in_def ba2addr_def page_offs_def acts_frame[of nd A R s t])

lemma goods_acts: "acts nd A False s t \<Longrightarrow> goods t = goods s"
proof -
  assume "acts nd A False s t"
  then have e: "t = s\<lparr>dev := dev t, data_buf := data_buf t\<rparr>"
    using acts_scratch scratch_def by blast
  show ?thesis by (subst e) simp
qed

lemma erase_and_check_acts:
  "nmbm_erase_block_and_check nd ba s = (r, t) \<Longrightarrow> block_in A s ba \<Longrightarrow> acts nd A R s t"
  by (auto simp: nmbm_erase_block_and_check_def block_in_def split: prod.splits if_splits
      dest!: check_empty_acts[where A = A and R = R] erase_block_acts[where A = A and R = R]
      intro: acts_trans)

lemma block_usable_acts: "block_usable nd ba s = (r, t) \<Longrightarrow> acts nd A True s t"
proof (cases "nmbm_get_block_state s ba = BLOCK_ST_GOOD")
  case True
  assume u: "block_usable nd ba s = (r, t)"
  obtain bad s1 where c: "nmbm_check_bad_phys_block nd ba s = (bad, s1)" by fastforce
  have "ba \<in> goods s1"
    using goods_acts[OF check_bad_acts[OF c]] True by (simp add: goods_def)
  then show ?thesis
    using u True c acts_retire[OF check_bad_acts[OF c]] check_bad_acts[OF c]
    by (auto simp: block_usable_def split: if_splits)
qed (simp add: block_usable_def)

lemma block_usable_good:
  "block_usable nd ba s = (True, t) \<Longrightarrow> acts nd A False s t \<and> ba \<in> goods s"
  by (auto simp: block_usable_def goods_def split: prod.splits if_splits dest: check_bad_acts)

lemma retire_acts: "ba \<in> goods s \<Longrightarrow> block_in A s ba \<Longrightarrow> acts nd A True s (retire_block nd ba s)"
proof -
  assume g: "ba \<in> goods s" and b: "block_in A s ba"
  have m: "acts nd A R s (snd (nmbm_mark_phys_bad_block nd ba s))" for R
    using b by (cases "nmbm_mark_phys_bad_block nd ba s") (auto intro: mark_bad_acts simp: block_in_def)
  show ?thesis
    unfolding retire_block_def by (rule acts_retire[OF m]) (simp_all add: goods_acts[OF m] g)
qed

lemma write_verify_page_acts:
  assumes "write_verify_page nd page leading dat s = (r, t)" and "A page (pg_size s)"
  shows "acts nd A R s t"
proof -
  define pc where "pc = store_at (replicate (rawpage_size (ni s)) (- 1)) leading dat"
  obtain ok s1 where w: "nmbm_write_phys_page nd page pc (s\<lparr>data_buf := pc\<rparr>) = (ok, s1)"
    by fastforce
  obtain ret pc' s2 where rd: "nmbm_read_phys_page nd page (data_buf s1) s1 = (ret, pc', s2)"
    by (metis prod_cases3)
  have a1: "acts nd A R s s1"
    using acts_trans[OF acts_buffer[OF acts_refl] write_page_acts[OF w]] assms(2) by simp
  have "acts nd A R s (s2\<lparr>data_buf := pc'\<rparr>)"
    by (rule acts_buffer[OF acts_trans[OF a1 read_page_acts[OF rd]]])
  then show ?thesis
    using assms(1) a1 by (auto simp: write_verify_page_def Let_def pc_def[symmetric] w rd split: if_splits)
qed

lemma write_verify_acts:
  assumes "nmbn_write_verify_data nd off ptr s = (r, t)"
    and "\<And>a. off \<le> a \<Longrightarrow> a < off + length ptr \<Longrightarrow> A (a - a mod pg_size s) (pg_size s)"
  shows "acts nd A R s t"
  using assms
proof (induction "length ptr" arbitrary: off ptr s rule: less_induct)
  case less
  define leading where "leading = off mod pg_size s"
  define c where "c = min (pg_size s - leading) (length ptr)"
  obtain ok s1 where w: "write_verify_page nd (off - leading) leading (take c ptr) s = (ok, s1)"
    by fastforce
  show ?case
  proof (cases "ptr = [] \<or> pg_size s = 0")
    case True
    then show ?thesis using less.prems(1) by (subst (asm) nmbn_write_verify_data.simps) auto
  next
    case False
    have a1: "acts nd A R s s1"
      using less.prems(2)[of off] False by (intro write_verify_page_acts[OF w]) (simp add: leading_def)
    have c: "0 < c" using False by (simp add: c_def leading_def)
    have "acts nd A R s1 t" if "nmbn_write_verify_data nd (off + c) (drop c ptr) s1 = (r, t)"
      using that less.prems(2) c False
      by (intro less.hyps[of "drop c ptr" "off + c" s1]) (auto simp: acts_frame(2)[OF a1] c_def)
    then show ?thesis
      using less.prems(1) a1 False
      by (subst (asm) nmbn_write_verify_data.simps)
        (auto simp: Let_def leading_def[symmetric] c_def[symmetric] w split: if_splits intro: acts_trans)
  qed
qed

lemma write_mgmt_block_acts:
  assumes "write_mgmt_block nd ba dat s = (r, t)" and "block_in A s ba" and "length dat \<le> blk_size s"
  shows "acts nd A True s t"
proof -
  obtain u s1 where us: "block_usable nd ba s = (u, s1)" by fastforce
  obtain e s2 where er: "nmbm_erase_block_and_check nd ba s1 = (e, s2)" by fastforce
  obtain w s3 where wr: "nmbn_write_verify_data nd (ba2addr s2 ba) dat s2 = (w, s3)" by fastforce
  have a1: "acts nd A True s s1" by (rule block_usable_acts[OF us])
  show ?thesis
  proof (cases u)
    case False
    then show ?thesis using assms(1) a1 by (simp add: write_mgmt_block_def us)
  next
    case True
    have g: "acts nd A False s s1" "ba \<in> goods s" using block_usable_good[of nd ba s s1 A] us True by simp_all
    have a2: "acts nd A R s s2" for R
      by (rule acts_trans[OF acts_mono[OF g(1)] erase_and_check_acts[OF er]])
        (simp add: block_in_acts[OF a1] assms(2))
    have b2: "block_in A s2 ba" "blk_size s2 = blk_size s" "pg_size s2 = pg_size s"
      by (simp_all add: block_in_acts[OF a2] assms(2) acts_frame[OF a2])
    have a3: "acts nd A R s s3" for R
      using b2(1) assms(3) b2(2)
      by (intro acts_trans[OF a2] write_verify_acts[OF wr]) (simp add: block_in_def)
    have "acts nd A True s (retire_block nd ba s2)"
      by (rule acts_trans[OF a2 retire_acts]) (simp_all add: block_in_acts[OF a2] goods_acts[OF a2] assms(2) g(2))
    moreover have "acts nd A True s (retire_block nd ba s3)"
      by (rule acts_trans[OF a3 retire_acts]) (simp_all add: block_in_acts[OF a3] goods_acts[OF a3] assms(2) g(2))
    ultimately show ?thesis
      using assms(1) a3[of True] True by (auto simp: write_mgmt_block_def us er wr split: if_splits)
  qed
qed

lemma write_mgmt_loop_acts:
  assumes "write_mgmt_loop nd ba limit ptr siz start s = (r, t)"
    and "\<And>b. ba \<le> b \<Longrightarrow> b < limit \<Longrightarrow> block_in A s b"
  shows "acts nd A True s t"
  using assms
proof (induction "limit - ba" arbitrary: ba ptr start s rule: less_induct)
  case less
  show ?case
  proof (cases "ptr \<noteq> [] \<and> ba < limit")
    case False
    then show ?thesis using less.prems(1) by (subst (asm) write_mgmt_loop.simps) (auto split: if_splits)
  next
    case True
    obtain ok s1 where w: "write_mgmt_block nd ba (take (min (length ptr) (blk_size s)) ptr) s = (ok, s1)"
      by fastforce
    have a1: "acts nd A True s s1"
      using less.prems(2) True by (intro write_mgmt_block_acts[OF w]) auto
    have "acts nd A True s1 t" if "write_mgmt_loop nd (ba + 1) limit ptr' siz start' s1 = (r, t)" for ptr' start'
      using that less.prems(2) True
      by (intro less.hyps[of "ba + 1" ptr' start' s1]) (auto simp: block_in_acts[OF a1])
    then show ?thesis
      using less.prems(1) a1 True
      by (subst (asm) write_mgmt_loop.simps) (auto simp: Let_def w split: if_splits intro: acts_trans)
  qed
qed

lemma write_info_table_acts:
  assumes "nmbm_write_info_table nd ba limit s = (r, t)"
    and "\<And>b. ba \<le> b \<Longrightarrow> b < limit \<Longrightarrow> block_in A s b"
  shows "acts nd A True s t"
  using write_mgmt_loop_acts assms
  unfolding nmbm_write_info_table_def nmbm_write_mgmt_range_def by metis

lemma erase_range_block_acts:
  assumes "block_in A s ba" shows "acts nd A True s (erase_range_block nd ba s)"
proof -
  obtain u s1 where us: "block_usable nd ba s = (u, s1)" by fastforce
  obtain e s2 where er: "nmbm_erase_block_and_check nd ba s1 = (e, s2)" by fastforce
  have a1: "acts nd A True s s1" by (rule block_usable_acts[OF us])
  show ?thesis
  proof (cases u)
    case True
    have g: "acts nd A False s s1" "ba \<in> goods s" using block_usable_good[of nd ba s s1 A] us True by simp_all
    have a2: "acts nd A R s s2" for R
      by (rule acts_trans[OF acts_mono[OF g(1)] erase_and_check_acts[OF er]])
        (simp add: block_in_acts[OF a1] assms)
    have "acts nd A True s (retire_block nd ba s2)"
      by (auto intro!: acts_trans[OF a2] retire_acts simp: block_in_acts[OF a2] goods_acts[OF a2] assms g(2))
    then show ?thesis using a2 True by (simp add: erase_range_block_def us er)
  qed (simp add: erase_range_block_def us a1)
qed

lemma erase_range_acts:
  assumes "\<And>b. ba \<le> b \<Longrightarrow> b < limit \<Longrightarrow> block_in A s b"
  shows "acts nd A True s (nmbm_erase_range nd ba limit s)"
  using assms
proof (induction "limit - ba" arbitrary: ba s rule: less_induct)
  case less
  show ?case
  proof (cases "ba < limit")
    case True
    have a1: "acts nd A True s (erase_range_block nd ba s)"
      using less.prems True by (intro erase_range_block_acts) simp
    have "acts nd A True (erase_range_block nd ba s) (nmbm_erase_range nd (ba + 1) limit (erase_range_block nd ba s))"
      using less.prems True by (intro less.hyps) (auto simp: block_in_acts[OF a1])
    then show ?thesis
      using True acts_trans[OF a1] by (subst nmbm_erase_range.simps) simp
  qed (subst nmbm_erase_range.simps, simp)
qed

lemma write_table_down_acts:
  assumes "write_table_down nd ba low s = (r, t)"
    and "\<And>b. low \<le> b \<Longrightarrow> b < mapping_blocks_top_ba (ni s) \<Longrightarrow> block_in A s b" and "low \<le> ba"
  shows "acts nd A True s t"
  using assms
proof (induction ba arbitrary: s rule: less_induct)
  case (less ba)
  obtain w s1 where wr: "nmbm_write_info_table nd ba (mapping_blocks_top_ba (ni s)) s = (w, s1)" by fastforce
  have a1: "acts nd A True s s1"
    using less.prems by (intro write_info_table_acts[OF wr]) simp
  have "acts nd A True s1 t" if "write_table_down nd (ba - 1) low s1 = (r, t)" "low < ba"
    using that less.prems(2)
    by (intro less.IH[of "ba - 1" s1]) (auto simp: block_in_acts[OF a1] acts_frame[OF a1])
  then show ?case
    using less.prems(1) a1
    by (subst (asm) write_table_down.simps) (auto simp: wr split: option.splits if_splits intro: acts_trans)
qed

section \<open>Updating the info table ends\<close>

text \<open>
  \<open>settled s0 t\<close>: compared with \<open>s0\<close>, the state \<open>t\<close> has fewer good blocks or no change
  that is still to be written.
\<close>

definition settled :: "'d bmt_st \<Rightarrow> 'd bmt_st \<Rightarrow> bool" where
  "settled s0 t \<longleftrightarrow> goods t \<subseteq> goods s0 \<and>
     (goods t = goods s0 \<longrightarrow> block_state_changed (ni t) = 0 \<and> block_mapping_changed (ni t) = 0)"

abbreviation any_range :: "nat \<Rightarrow> nat \<Rightarrow> bool" where
  "any_range a n \<equiv> True"

lemma block_in_any [simp]: "block_in any_range s ba"
  by (simp add: block_in_def)

lemma acts_goods: "acts nd A R s t \<Longrightarrow> goods t \<subseteq> goods s"
  by (auto dest!: acts_wears simp: wears_def)

lemma settled_acts:
  assumes "settled s0 s" "acts nd A R s t" shows "settled s0 t"
proof -
  have w: "wears s t" using assms(2) by (rule acts_wears)
  then have "goods t \<subseteq> goods s"
    "goods t = goods s \<Longrightarrow> block_state_changed (ni t) = block_state_changed (ni s)"
    by (simp_all add: wears_def)
  then show ?thesis
    using assms(1) wears_frame(13)[OF w] unfolding settled_def by auto
qed

lemma goods_ni:
  "goods (s\<lparr>ni := n\<rparr>) = {ba. nmbm_get_block_state_raw (block_state n) ba = BLOCK_ST_GOOD}"
  by (simp add: goods_def nmbm_get_block_state_def)

lemma goods_same: "block_state (ni s) = block_state (ni t) \<Longrightarrow> goods s = goods t"
  by (simp add: goods_def nmbm_get_block_state_def)

lemma settled_same:
  "settled s0 s \<Longrightarrow> block_state n = block_state (ni s) \<Longrightarrow>
   block_state_changed n = block_state_changed (ni s) \<Longrightarrow>
   block_mapping_changed n = block_mapping_changed (ni s) \<Longrightarrow> settled s0 (s\<lparr>ni := n\<rparr>)"
  using goods_same[of "s\<lparr>ni := n\<rparr>" s] by (simp add: settled_def)

lemma settled_clean:
  "goods s \<subseteq> goods s0 \<Longrightarrow> block_state n = block_state (ni s) \<Longrightarrow>
   settled s0 (nmbm_mark_tables_clean (s\<lparr>ni := n\<rparr>))"
  using goods_same[of "nmbm_mark_tables_clean (s\<lparr>ni := n\<rparr>)" s]
  by (simp add: settled_def nmbm_mark_tables_clean_def)

text \<open>
  Rules for the three ways in which the code goes on after it tried to write a table or to
  find room for one. \<open>P\<close> is a condition on the final result and state.
\<close>

lemma write_mgmt_loop_range:
  "write_mgmt_loop nd ba limit ptr siz start s = (Some (st, en), t) \<Longrightarrow>
   (if ptr = [] then st = start \<and> en = ba
    else ba < en \<and> en \<le> limit \<and> (st = start \<or> ba \<le> st \<and> st < en) \<and>
      (length ptr = siz \<longrightarrow> ba \<le> st \<and> st < en))"
proof (induction "limit - ba" arbitrary: ba ptr start s rule: less_induct)
  case less
  have IH: "(if ptr' = [] then st = start' \<and> en = Suc ba
    else Suc ba < en \<and> en \<le> limit \<and> (st = start' \<or> Suc ba \<le> st \<and> st < en) \<and>
      (length ptr' = siz \<longrightarrow> Suc ba \<le> st \<and> st < en))"
    if "write_mgmt_loop nd (Suc ba) limit ptr' siz start' s' = (Some (st, en), t)" "ba < limit"
    for ptr' start' s'
    using that by (intro less.hyps) auto
  obtain ok s1 where w: "write_mgmt_block nd ba (take (min (length ptr) (blk_size s)) ptr) s = (ok, s1)"
    by fastforce
  show ?case
  proof (cases "ptr \<noteq> [] \<and> ba < limit")
    case True
    have u: "write_mgmt_loop nd ba limit ptr siz start s =
        (if ok then write_mgmt_loop nd (Suc ba) limit (drop (min (length ptr) (blk_size s)) ptr) siz
                      (if length ptr = siz then ba else start) s1
         else write_mgmt_loop nd (Suc ba) limit ptr siz start s1)"
      using True by (subst write_mgmt_loop.simps) (simp add: Let_def w)
    show ?thesis
      using less.prems True IH[of "drop (min (length ptr) (blk_size s)) ptr" "if length ptr = siz then ba else start" s1]
        IH[of ptr start s1]
      unfolding u by (auto split: if_splits)
  next
    case False
    then show ?thesis
      using less.prems by (subst (asm) write_mgmt_loop.simps) (auto split: if_splits)
  qed
qed

lemma write_info_table_range:
  "nmbm_write_info_table nd ba limit s = (Some (st, en), t) \<Longrightarrow> info_table_cache (ni s) \<noteq> [] \<Longrightarrow>
   ba \<le> st \<and> st < en \<and> en \<le> limit"
  unfolding nmbm_write_info_table_def nmbm_write_mgmt_range_def
  by (drule write_mgmt_loop_range) simp

lemma write_rule:
  assumes "\<And>b. ba \<le> b \<Longrightarrow> b < limit \<Longrightarrow> block_in A s b"
    and "\<And>t. acts nd A True s t \<Longrightarrow> P (N t)"
    and "\<And>st en t. acts nd A True s t \<Longrightarrow>
           info_table_cache (ni s) \<noteq> [] \<longrightarrow> ba \<le> st \<and> st < en \<and> en \<le> limit \<Longrightarrow> P (S st en t)"
  shows "P (case nmbm_write_info_table nd ba limit s of (None, t) \<Rightarrow> N t | (Some (st, en), t) \<Rightarrow> S st en t)"
proof -
  obtain r t where w: "nmbm_write_info_table nd ba limit s = (r, t)" by fastforce
  have a: "acts nd A True s t" by (rule write_info_table_acts[OF w assms(1)])
  show ?thesis
  proof (cases r)
    case (Some p)
    then show ?thesis
      using w write_info_table_range[of nd ba limit s "fst p" "snd p" t] assms(3)[OF a, of "fst p" "snd p"]
      by (cases p) simp
  qed (use w assms(2)[OF a] in simp)
qed

lemma walk_asc_ge: "walk_asc_loop s ba n l = Some nba \<Longrightarrow> ba \<le> nba \<and> nba < l"
proof (induction "l - ba" arbitrary: ba n rule: less_induct)
  case less
  have IH: "Suc ba \<le> nba \<and> nba < l" if "walk_asc_loop s (Suc ba) n' l = Some nba" "ba < l" for n'
    using that by (intro less.hyps) auto
  show ?case
    using less.prems by (subst (asm) walk_asc_loop.simps) (auto simp: Let_def split: if_splits dest!: IH)
qed

lemma walk_desc_le:
  "walk_desc_loop s ba n l = Some nba \<Longrightarrow>
   l < nba \<and> nba \<le> ba \<and> (0 \<le> n \<longrightarrow> nmbm_get_block_state s nba = BLOCK_ST_GOOD)"
proof (induction ba arbitrary: n rule: less_induct)
  case (less ba)
  have IH: "l < nba \<and> nba \<le> ba - 1 \<and> (0 \<le> n' \<longrightarrow> nmbm_get_block_state s nba = BLOCK_ST_GOOD)"
    if "walk_desc_loop s (ba - Suc 0) n' l = Some nba" "l < ba" for n'
    using that by (intro less.IH) auto
  show ?case
    using less.prems by (subst (asm) walk_desc_loop.simps) (auto simp: Let_def split: if_splits dest!: IH)
qed

lemma reserve_ge: "nmbm_try_reserve_blocks s ba c m l = Some nba \<Longrightarrow> ba \<le> nba"
proof -
  have "try_reserve_loop s ba n m l = Some nba \<Longrightarrow> ba \<le> nba" for n
  proof (induction "nat (n - m + 1)" arbitrary: n rule: less_induct)
    case less
    have IH: "ba \<le> nba" if "try_reserve_loop s ba (n - 1) m l = Some nba" "m \<le> n"
      using that by (intro less.hyps[of "n - 1"]) auto
    show ?case
      using less.prems
      by (subst (asm) try_reserve_loop.simps)
        (auto simp: nmbm_block_walk_def nmbm_block_walk_asc_def split: if_splits option.splits
          dest: IH walk_asc_ge)
  qed
  then show "nmbm_try_reserve_blocks s ba c m l = Some nba \<Longrightarrow> ba \<le> nba"
    unfolding nmbm_try_reserve_blocks_def by blast
qed

lemma reserve_rule:
  assumes "P N" and "\<And>nba. ba \<le> nba \<Longrightarrow> P (S nba)"
  shows "P (case nmbm_try_reserve_blocks s ba c m l of None \<Rightarrow> N | Some nba \<Rightarrow> S nba)"
  using assms by (cases "nmbm_try_reserve_blocks s ba c m l") (auto dest: reserve_ge)

lemma write_down_range:
  assumes "write_table_down nd ba low s = (Some (st, en), t)" "low \<le> ba" "info_table_cache (ni s) \<noteq> []"
  shows "low \<le> st \<and> st < en \<and> en \<le> mapping_blocks_top_ba (ni s)"
  using assms
proof (induction ba arbitrary: s rule: less_induct)
  case (less ba)
  obtain w s1 where wr: "nmbm_write_info_table nd ba (mapping_blocks_top_ba (ni s)) s = (w, s1)" by fastforce
  have a: "acts nd any_range True s s1" by (rule write_info_table_acts[OF wr]) simp
  have "low \<le> st \<and> st < en \<and> en \<le> mapping_blocks_top_ba (ni s)"
    if "write_table_down nd (ba - 1) low s1 = (Some (st, en), t)" "low < ba"
    using less.IH[of "ba - 1" s1] that less.prems(3) by (simp add: acts_frame[OF a])
  moreover have "low \<le> st \<and> st < en \<and> en \<le> mapping_blocks_top_ba (ni s)" if "w = Some (st, en)"
    using write_info_table_range[OF wr[unfolded that] less.prems(3)] less.prems(2) by simp
  ultimately show ?case
    using less.prems(1) wr
    by (subst (asm) write_table_down.simps) (auto split: prod.splits option.splits if_splits)
qed

lemma write_down_rule:
  assumes "\<And>b. low \<le> b \<Longrightarrow> b < mapping_blocks_top_ba (ni s) \<Longrightarrow> block_in A s b" and "low \<le> ba"
    and "\<And>t. acts nd A True s t \<Longrightarrow> P (N t)"
    and "\<And>st en t. acts nd A True s t \<Longrightarrow>
           info_table_cache (ni s) \<noteq> [] \<longrightarrow> low \<le> st \<and> st < en \<and> en \<le> mapping_blocks_top_ba (ni s) \<Longrightarrow>
           P (S st en t)"
  shows "P (case write_table_down nd ba low s of (None, t) \<Rightarrow> N t | (Some (st, en), t) \<Rightarrow> S st en t)"
proof -
  obtain r t where w: "write_table_down nd ba low s = (r, t)" by fastforce
  have a: "acts nd A True s t" by (rule write_table_down_acts[OF w assms(1,2)])
  show ?thesis
  proof (cases r)
    case (Some p)
    then show ?thesis
      using w write_down_range[of nd ba low s "fst p" "snd p" t] assms(2) assms(4)[OF a, of "fst p" "snd p"]
      by (cases p) simp
  qed (use w assms(3)[OF a] in simp)
qed

definition ends_settled :: "'d bmt_st \<Rightarrow> bool \<times> 'd bmt_st \<Rightarrow> bool" where
  "ends_settled s0 r \<longleftrightarrow> (fst r \<longrightarrow> settled s0 (snd r))"

lemma ends_settled_simps [simp]:
  "ends_settled s0 (False, t)" "ends_settled s0 (True, t) = settled s0 t"
  by (simp_all add: ends_settled_def)

lemmas settle_write = write_rule[where P = "ends_settled s0" and A = any_range] for s0
lemmas settle_down = write_down_rule[where P = "ends_settled s0" and A = any_range] for s0
lemmas settle_reserve = reserve_rule[where P = "ends_settled s0"] for s0

lemma erase_range_settled: "settled s0 s \<Longrightarrow> settled s0 (nmbm_erase_range nd ba limit s)"
  by (erule settled_acts) (rule erase_range_acts[where A = any_range], simp)

lemma goods_upd: "block_state n = block_state (ni s) \<Longrightarrow> goods (s\<lparr>ni := n\<rparr>) = goods s"
  by (rule goods_same) simp

lemmas settle_intros =
  settle_write settle_down settle_reserve erase_range_settled settled_same settled_clean

lemma goods_acts_le: "acts nd A R s t \<Longrightarrow> goods s \<subseteq> goods s0 \<Longrightarrow> goods t \<subseteq> goods s0"
  using acts_goods by blast

lemma settled_via: "acts nd A R s t \<Longrightarrow> settled s0 s \<Longrightarrow> settled s0 t"
  by (rule settled_acts)

lemma settled_goods: "settled s0 t \<Longrightarrow> goods t \<subseteq> goods s0"
  by (simp add: settled_def)

lemma rebuild_settled:
  assumes "goods s \<subseteq> goods s0"
  shows "ends_settled s0 (nmbm_rebuild_info_table nd s)"
proof -
  define s1 where "s1 = upd_ni (\<lambda>n. n\<lparr>main_table_ba := 0, backup_table_ba := 0,
                             mapping_blocks_ba := mapping_blocks_top_ba n\<rparr>) s"
  have g: "goods s1 \<subseteq> goods s0" using assms unfolding s1_def by (simp add: goods_upd)
  have mid: "settled s0 (nmbm_mark_tables_clean (upd_ni (\<lambda>n. n\<lparr>main_table_ba := m, mapping_blocks_ba := e\<rparr>) t))"
    if "acts nd A R s1 t" for m e t A R
    using goods_acts_le[OF that g] by (intro settled_clean) simp_all
  show ?thesis
    unfolding nmbm_rebuild_info_table_def Let_def s1_def[symmetric]
    by (intro settle_reserve settle_write)
      (auto intro!: settled_same erase_range_settled intro: settled_via mid)
qed

lemma rescue_new_backup_settled:
  assumes "settled s0 s" shows "ends_settled s0 (rescue_new_backup nd main_end s)"
proof -
  define s1 where "s1 = upd_ni (mapping_blocks_ba_update (\<lambda>_. main_end)) s"
  have "settled s0 s1" using assms unfolding s1_def by (intro settled_same) simp_all
  then show ?thesis
    unfolding rescue_new_backup_def Let_def s1_def[symmetric]
    by (intro settle_down settle_reserve)
      (auto intro!: settled_same erase_range_settled intro: settled_via)
qed

lemma rescue_main_settled:
  assumes "settled s0 s" shows "ends_settled s0 (nmbm_rescue_main_info_table nd s)"
proof -
  have mid: "settled s0 (upd_ni (mapping_blocks_ba_update (\<lambda>_. e)) t)" if "acts nd A R s t" for e t A R
    using settled_via[OF that assms] by (intro settled_same) simp_all
  show ?thesis
    unfolding nmbm_rescue_main_info_table_def Let_def
    using assms
    by (intro settle_down settle_reserve settle_write)
      (auto intro!: settled_same settled_clean rescue_new_backup_settled settled_goods intro: settled_via mid)
qed

lemma write_main_settled:
  assumes g: "goods s \<subseteq> goods s0" and b: "backup_table_ba (ni s) \<noteq> 0 \<Longrightarrow> settled s0 s"
  shows "ends_settled s0 (write_main_table nd l s)"
proof -
  have none: "ends_settled s0 (if backup_table_ba (ni t) = 0 then nmbm_rebuild_info_table nd t
      else nmbm_rescue_main_info_table nd t)" if a: "acts nd any_range True s t" for t
    using b settled_via[OF a] goods_acts_le[OF a g] acts_frame(11)[OF a]
    by (simp add: rebuild_settled rescue_main_settled)
  have some: "settled s0 (nmbm_mark_tables_clean
      (if backup_table_ba (ni (upd_ni (main_table_ba_update (\<lambda>_. st)) t)) = 0
       then upd_ni (mapping_blocks_ba_update (\<lambda>_. en)) (upd_ni (main_table_ba_update (\<lambda>_. st)) t)
       else upd_ni (main_table_ba_update (\<lambda>_. st)) t))"
    if a: "acts nd any_range True s t" for st en t
    using goods_acts_le[OF a g] by (auto intro!: settled_clean)
  show ?thesis
  proof (cases "main_table_ba (ni s) = 0")
    case True
    then show ?thesis using g by (simp add: write_main_table_def rebuild_settled)
  next
    case False
    then show ?thesis
      unfolding write_main_table_def Let_def if_not_P[OF False]
      by (intro settle_write none) (simp_all only: ends_settled_simps some block_in_any)
  qed
qed

lemma update_once_settled:
  assumes "block_state_changed (ni s) \<noteq> 0 \<or> block_mapping_changed (ni s) \<noteq> 0"
  shows "ends_settled s (nmbm_update_info_table_once nd crc force s)"
proof -
  obtain s1 where gen: "nmbm_generate_info_table_cache crc s = (True, s1)"
    and bs: "block_state (ni s1) = block_state (ni s)"
    using assms by (auto simp: nmbm_generate_info_table_cache_def Let_def)
  have g: "goods s1 \<subseteq> goods s" using goods_same[OF bs] by simp
  have none: "ends_settled s (write_main_table nd l
      (upd_ni (\<lambda>n. n\<lparr>mapping_blocks_ba := backup_table_ba n, backup_table_ba := 0\<rparr>) t))"
    if "acts nd any_range True s1 t" for l t
    using goods_acts_le[OF that g] by (intro write_main_settled) (simp_all add: goods_upd)
  have some: "ends_settled s (write_main_table nd l (nmbm_mark_tables_clean
      (upd_ni (\<lambda>n. n\<lparr>backup_table_ba := b, mapping_blocks_ba := e\<rparr>) t)))"
    if "acts nd any_range True s1 t" for l t b e
  proof -
    have "settled s (nmbm_mark_tables_clean (upd_ni (\<lambda>n. n\<lparr>backup_table_ba := b, mapping_blocks_ba := e\<rparr>) t))"
      using goods_acts_le[OF that g] by (intro settled_clean) simp_all
    then show ?thesis by (intro write_main_settled settled_goods)
  qed
  have start: "ends_settled s (write_main_table nd l s1)" if "backup_table_ba (ni s1) = 0" for l
    using g that by (intro write_main_settled) simp_all
  show ?thesis
    unfolding nmbm_update_info_table_once_def gen Let_def
    using start by (auto intro!: settle_write none some)
qed

text \<open>
  \<^verbatim>\<open>nmbm_update_info_table\<close>: it ends because every round leaves fewer good blocks or nothing
  to write.
\<close>

abbreviation unsaved :: "'d bmt_st \<Rightarrow> bool" where
  "unsaved s \<equiv> block_state_changed (ni s) \<noteq> 0 \<or> block_mapping_changed (ni s) \<noteq> 0"

function update_info_table_loop :: "'d nand_ops \<Rightarrow> crc_fn \<Rightarrow> 'd bmt_st \<Rightarrow> bool \<times> 'd bmt_st" where
  "update_info_table_loop nd crc s =
     (if unsaved s then
        (let (success, s1) = nmbm_update_info_table_once nd crc False s
         in if success then update_info_table_loop nd crc s1 else (False, s1))
      else (True, s))"
  by pat_completeness auto
termination
proof (relation "measure (\<lambda>(nd, crc, s). 2 * card (goods s) + (if unsaved s then 1 else 0))")
  fix nd :: "'d nand_ops" and crc and s s1 :: "'d bmt_st" and x success
  assume u: "unsaved s" and x: "x = nmbm_update_info_table_once nd crc False s" "(success, s1) = x" success
  have "settled s s1"
    using update_once_settled[OF u, of nd crc False] x by (auto simp: ends_settled_def dest: sym)
  then have "card (goods s1) < card (goods s) \<or> card (goods s1) = card (goods s) \<and> \<not> unsaved s1"
    unfolding settled_def using psubset_card_mono[OF finite_goods, of "goods s1" s]
    by (cases "goods s1 = goods s") auto
  then show "((nd, crc, s1), nd, crc, s)
      \<in> measure (\<lambda>(nd, crc, s). 2 * card (goods s) + (if unsaved s then 1 else 0))"
    using u by auto
qed simp

declare update_info_table_loop.simps [simp del]

definition nmbm_update_info_table :: "'d nand_ops \<Rightarrow> crc_fn \<Rightarrow> 'd bmt_st \<Rightarrow> bool \<times> 'd bmt_st" where
  "nmbm_update_info_table nd crc s =
     (if protected (ni s) then (True, s) else update_info_table_loop nd crc s)"

end
