(* ===== verification/Nmbm_Region.thy ===== *)
theory Nmbm_Region
  imports Nmbm_Actions
begin

unbundle bit_operations_syntax

text \<open>
  The management area of the NMBM scheme: an inductive relation for the update of the stored
  tables, whose steps are sequences of actions inside given ranges of addresses and changes of
  the positions of the tables, and the proof that the whole update is such a sequence and keeps
  the tables between the data area and the replacement blocks.
\<close>

section \<open>The management area\<close>

text \<open>
  The stored tables and the blocks that may hold them lie between the data area and the
  replacement blocks.
\<close>

definition tables_ok :: "nmbm_instance \<Rightarrow> bool" where
  "tables_ok n \<longleftrightarrow>
     info_table_cache n \<noteq> [] \<and> mgmt_start_ba n \<le> mapping_blocks_ba n \<and>
     mapping_blocks_ba n \<le> mapping_blocks_top_ba n \<and>
     (main_table_ba n = 0 \<or> mgmt_start_ba n \<le> main_table_ba n \<and> main_table_ba n \<le> mapping_blocks_ba n) \<and>
     (backup_table_ba n = 0 \<or>
        mgmt_start_ba n \<le> backup_table_ba n \<and> backup_table_ba n \<le> mapping_blocks_ba n) \<and>
     (main_table_ba n = 0 \<or> backup_table_ba n = 0 \<or> main_table_ba n \<le> backup_table_ba n)"

definition same_but_tables :: "nmbm_instance \<Rightarrow> nmbm_instance \<Rightarrow> bool" where
  "same_but_tables n n' \<longleftrightarrow>
     n' = n\<lparr>main_table_ba := main_table_ba n', backup_table_ba := backup_table_ba n',
            mapping_blocks_ba := mapping_blocks_ba n', protected := protected n',
            block_state_changed := block_state_changed n',
            block_mapping_changed := block_mapping_changed n',
            info_table := info_table n', info_table_cache := info_table_cache n'\<rparr>"

text \<open>
  The update of the stored tables as steps: sequences of actions inside \<open>A\<close>, and changes of
  the positions of the tables.
\<close>

inductive manages :: "'d nand_ops \<Rightarrow> (nat \<Rightarrow> nat \<Rightarrow> bool) \<Rightarrow> 'd bmt_st \<Rightarrow> 'd bmt_st \<Rightarrow> bool"
  for nd A where
  mg_refl: "manages nd A s s"
| mg_acts: "manages nd A s t \<Longrightarrow> acts nd A True t u \<Longrightarrow> manages nd A s u"
| mg_tables: "manages nd A s t \<Longrightarrow> same_but_tables (ni t) n \<Longrightarrow> tables_ok n \<Longrightarrow>
     manages nd A s (t\<lparr>ni := n\<rparr>)"

lemma mg_trans: "manages nd A s t \<Longrightarrow> manages nd A t u \<Longrightarrow> manages nd A s u"
  by (rotate_tac, induction rule: manages.induct) (auto intro: manages.intros)

text \<open>What such steps keep.\<close>

definition layout_of :: "'d bmt_st \<Rightarrow> 'd bmt_st" where
  "layout_of s = s\<lparr>dev := undefined, data_buf := [], ni := (ni s)\<lparr>block_state := [], main_table_ba := 0,
     backup_table_ba := 0, mapping_blocks_ba := 0, protected := False, block_state_changed := 0,
     block_mapping_changed := 0, info_table := info_table zero_instance, info_table_cache := []\<rparr>\<rparr>"

lemma layout_fields:
  assumes "layout_of t = layout_of s"
  shows "mtd_erasesize t = mtd_erasesize s" "pg_size t = pg_size s" "blk_size t = blk_size s"
    "blk_shift t = blk_shift s" "total_blks t = total_blks s" "block_mapping (ni t) = block_mapping (ni s)"
    "mgmt_start_ba (ni t) = mgmt_start_ba (ni s)"
    "mapping_blocks_top_ba (ni t) = mapping_blocks_top_ba (ni s)"
    "data_block_count (ni t) = data_block_count (ni s)" "signature_ba (ni t) = signature_ba (ni s)"
    "block_count (ni t) = block_count (ni s)" "remap_range t = remap_range s"
  using assms unfolding layout_of_def
  by (cases s, cases t, cases "ni s", cases "ni t", simp)+

lemma wears_layout: "wears s t \<Longrightarrow> layout_of t = layout_of s"
proof -
  assume "wears s t"
  then have e: "t = s\<lparr>dev := dev t, data_buf := data_buf t,
           ni := (ni s)\<lparr>block_state := block_state (ni t),
                         block_state_changed := block_state_changed (ni t)\<rparr>\<rparr>"
    by (simp add: wears_def)
  show ?thesis by (subst e) (simp add: layout_of_def)
qed

lemma same_but_tables_layout: "same_but_tables (ni t) n \<Longrightarrow> layout_of (t\<lparr>ni := n\<rparr>) = layout_of t"
  unfolding same_but_tables_def layout_of_def by (cases "ni t", cases n) simp

lemma manages_layout: "manages nd A s t \<Longrightarrow> layout_of t = layout_of s"
  by (induction rule: manages.induct) (auto simp: wears_layout[OF acts_wears] same_but_tables_layout)

lemmas manages_frame = layout_fields[OF manages_layout]

lemma acts_tables_ok: "acts nd A R s t \<Longrightarrow> tables_ok (ni t) = tables_ok (ni s)"
  by (simp add: tables_ok_def acts_frame[of nd A R s t])

lemma manages_tables_ok: "manages nd A s t \<Longrightarrow> tables_ok (ni s) \<Longrightarrow> tables_ok (ni t)"
  by (induction rule: manages.induct) (auto simp: acts_tables_ok)

lemma manages_goods: "manages nd A s t \<Longrightarrow> goods t \<subseteq> goods s"
proof (induction rule: manages.induct)
  case (mg_tables s t n)
  have "block_state n = block_state (ni t)"
    by (subst mg_tables.hyps(2)[unfolded same_but_tables_def]) simp
  then show ?case using mg_tables.IH by (simp add: goods_upd)
next
  case (mg_acts s t u)
  then show ?case using acts_goods by blast
qed simp

lemma block_in_manages: "manages nd A s t \<Longrightarrow> block_in B t ba = block_in B s ba"
  by (simp add: block_in_def ba2addr_def page_offs_def manages_frame[of nd A s t])


section \<open>Updates stay in the management area\<close>

definition region_ok :: "(nat \<Rightarrow> nat \<Rightarrow> bool) \<Rightarrow> 'd bmt_st \<Rightarrow> bool" where
  "region_ok A s \<longleftrightarrow> tables_ok (ni s) \<and>
     (\<forall>b. mgmt_start_ba (ni s) \<le> b \<and> b < mapping_blocks_top_ba (ni s) \<longrightarrow> block_in A s b)"

lemma region_ok_manages:
  assumes "manages nd A s t" "region_ok B s" shows "region_ok B t"
  using assms(2) manages_tables_ok[OF assms(1)]
  by (simp add: region_ok_def block_in_manages[OF assms(1)] manages_frame[OF assms(1)])

abbreviation managed :: "'d nand_ops \<Rightarrow> (nat \<Rightarrow> nat \<Rightarrow> bool) \<Rightarrow> 'd bmt_st \<Rightarrow> bool \<times> 'd bmt_st \<Rightarrow> bool" where
  "managed nd A s r \<equiv> manages nd A s (snd r)"

lemma mg_write:
  assumes "region_ok A s" "mgmt_start_ba (ni s) \<le> ba" "limit \<le> mapping_blocks_top_ba (ni s)"
    and "\<And>t. acts nd A True s t \<Longrightarrow> managed nd A s (N t)"
    and "\<And>st en t. acts nd A True s t \<Longrightarrow> ba \<le> st \<Longrightarrow> st < en \<Longrightarrow> en \<le> limit \<Longrightarrow> managed nd A s (S st en t)"
  shows "managed nd A s
    (case nmbm_write_info_table nd ba limit s of (None, t) \<Rightarrow> N t | (Some (st, en), t) \<Rightarrow> S st en t)"
  using assms
  by (intro write_rule[where A = A and P = "managed nd A s"]) (auto simp: region_ok_def tables_ok_def)

lemma mg_down:
  assumes "region_ok A s" "mgmt_start_ba (ni s) \<le> low" "low \<le> ba"
    and "\<And>t. acts nd A True s t \<Longrightarrow> managed nd A s (N t)"
    and "\<And>st en t. acts nd A True s t \<Longrightarrow> low \<le> st \<Longrightarrow> st < en \<Longrightarrow>
           en \<le> mapping_blocks_top_ba (ni s) \<Longrightarrow> managed nd A s (S st en t)"
  shows "managed nd A s
    (case write_table_down nd ba low s of (None, t) \<Rightarrow> N t | (Some (st, en), t) \<Rightarrow> S st en t)"
  using assms
  by (intro write_down_rule[where A = A and P = "managed nd A s"]) (auto simp: region_ok_def tables_ok_def)

text \<open>The instance after an update of positions, in one step from a state reached by actions.\<close>

lemma mg_place:
  assumes "acts nd A True s t" "same_but_tables (ni t) n" "tables_ok n"
  shows "manages nd A s (t\<lparr>ni := n\<rparr>)"
  by (rule mg_tables[OF mg_acts[OF mg_refl assms(1)] assms(2,3)])

lemma same_but_tables_simps:
  "same_but_tables n n"
  "same_but_tables n n' \<Longrightarrow> same_but_tables n (n'\<lparr>main_table_ba := a\<rparr>)"
  "same_but_tables n n' \<Longrightarrow> same_but_tables n (n'\<lparr>backup_table_ba := a\<rparr>)"
  "same_but_tables n n' \<Longrightarrow> same_but_tables n (n'\<lparr>mapping_blocks_ba := a\<rparr>)"
  "same_but_tables n n' \<Longrightarrow> same_but_tables n (n'\<lparr>protected := p\<rparr>)"
  "same_but_tables n n' \<Longrightarrow> same_but_tables n (n'\<lparr>block_state_changed := c\<rparr>)"
  "same_but_tables n n' \<Longrightarrow> same_but_tables n (n'\<lparr>block_mapping_changed := c\<rparr>)"
  "same_but_tables n n' \<Longrightarrow> same_but_tables n (n'\<lparr>info_table := i\<rparr>)"
  "same_but_tables n n' \<Longrightarrow> same_but_tables n (n'\<lparr>info_table_cache := b\<rparr>)"
  unfolding same_but_tables_def by (cases n, cases n', simp)+

lemma mg_erase:
  assumes "manages nd A s t" "region_ok A s" "mgmt_start_ba (ni s) \<le> ba" "limit \<le> mapping_blocks_top_ba (ni s)"
  shows "manages nd A s (nmbm_erase_range nd ba limit t)"
  using region_ok_manages[OF assms(1,2)] assms(3,4)
  by (intro mg_acts[OF assms(1)] erase_range_acts)
    (auto simp: region_ok_def manages_frame[OF assms(1)])

lemma mg_then: "manages nd A s t \<Longrightarrow> managed nd A t r \<Longrightarrow> managed nd A s r"
  by (rule mg_trans)

lemma mg_act: "acts nd A True s t \<Longrightarrow> manages nd A s t"
  by (rule mg_acts[OF mg_refl])

lemma mark_clean_eq:
  "nmbm_mark_tables_clean (s\<lparr>ni := n\<rparr>) = s\<lparr>ni := n\<lparr>block_state_changed := 0, block_mapping_changed := 0\<rparr>\<rparr>"
  by (simp add: nmbm_mark_tables_clean_def)

lemmas mg_reserve = reserve_rule[where P = "managed nd A s"] for nd A s

lemma region_okD:
  assumes "region_ok A s"
  shows "info_table_cache (ni s) \<noteq> []" "mgmt_start_ba (ni s) \<le> mapping_blocks_ba (ni s)"
    "mapping_blocks_ba (ni s) \<le> mapping_blocks_top_ba (ni s)"
    "mgmt_start_ba (ni s) \<le> mapping_blocks_top_ba (ni s)"
    "main_table_ba (ni s) = 0 \<or>
       mgmt_start_ba (ni s) \<le> main_table_ba (ni s) \<and> main_table_ba (ni s) \<le> mapping_blocks_ba (ni s)"
    "backup_table_ba (ni s) = 0 \<or>
       mgmt_start_ba (ni s) \<le> backup_table_ba (ni s) \<and> backup_table_ba (ni s) \<le> mapping_blocks_ba (ni s)"
    "main_table_ba (ni s) = 0 \<or> backup_table_ba (ni s) = 0 \<or> main_table_ba (ni s) \<le> backup_table_ba (ni s)"
  using assms by (auto simp: region_ok_def tables_ok_def)

text \<open>Changing the positions after actions, stated with the positions of the state before.\<close>

lemma mg_set:
  assumes "acts nd A True s t" "region_ok A s" "same_but_tables (ni t) n"
    and "info_table_cache n = info_table_cache (ni t)"
    and "mgmt_start_ba (ni s) \<le> mapping_blocks_ba n" "mapping_blocks_ba n \<le> mapping_blocks_top_ba (ni s)"
    and "main_table_ba n = 0 \<or> mgmt_start_ba (ni s) \<le> main_table_ba n \<and> main_table_ba n \<le> mapping_blocks_ba n"
    and "backup_table_ba n = 0 \<or> mgmt_start_ba (ni s) \<le> backup_table_ba n \<and> backup_table_ba n \<le> mapping_blocks_ba n"
    and "main_table_ba n = 0 \<or> backup_table_ba n = 0 \<or> main_table_ba n \<le> backup_table_ba n"
  shows "manages nd A s (t\<lparr>ni := n\<rparr>)"
proof (rule mg_place[OF assms(1,3)])
  have e: "mgmt_start_ba n = mgmt_start_ba (ni s)" "mapping_blocks_top_ba n = mapping_blocks_top_ba (ni s)"
    by (subst assms(3)[unfolded same_but_tables_def], simp add: acts_frame[OF assms(1)])+
  show "tables_ok n"
    using assms(4-9) region_okD(1)[OF assms(2)] by (simp add: tables_ok_def e acts_frame[OF assms(1)])
qed

lemma rebuild_manages:
  assumes r: "region_ok A s"
  shows "managed nd A s (nmbm_rebuild_info_table nd s)"
proof -
  define s1 where "s1 = upd_ni (\<lambda>n. n\<lparr>main_table_ba := 0, backup_table_ba := 0,
                             mapping_blocks_ba := mapping_blocks_top_ba n\<rparr>) s"
  have m1: "manages nd A s s1"
    unfolding s1_def using region_okD[OF r] by (intro mg_set[OF acts_refl r]) (simp_all add: same_but_tables_simps)
  note r1 = region_ok_manages[OF m1 r]
  have s1: "main_table_ba (ni s1) = 0" "backup_table_ba (ni s1) = 0"
    by (simp_all add: s1_def)
  have rest: "managed nd A s1
     (case nmbm_try_reserve_blocks t2 en c 0 l of None \<Rightarrow> (True, t2)
      | Some nba \<Rightarrow>
          (case nmbm_write_info_table nd nba (mapping_blocks_top_ba (ni t2)) t2 of
             (None, s3) \<Rightarrow> (True, s3)
           | (Some (backup_ba, end_ba), s3) \<Rightarrow>
               (True, nmbm_erase_range nd en backup_ba
                 (upd_ni (\<lambda>n. n\<lparr>backup_table_ba := backup_ba, mapping_blocks_ba := end_ba\<rparr>) s3))))"
    if m2: "manages nd A s1 t2" and en: "mgmt_start_ba (ni t2) \<le> en" "main_table_ba (ni t2) \<le> en"
    for t2 en c l
  proof (rule mg_reserve)
    show "managed nd A s1 (True, t2)" using m2 by simp
    fix nba assume "en \<le> nba"
    note r2 = region_ok_manages[OF m2 r1]
    show "managed nd A s1
          (case nmbm_write_info_table nd nba (mapping_blocks_top_ba (ni t2)) t2 of
             (None, s3) \<Rightarrow> (True, s3)
           | (Some (backup_ba, end_ba), s3) \<Rightarrow>
               (True, nmbm_erase_range nd en backup_ba
                 (upd_ni (\<lambda>n. n\<lparr>backup_table_ba := backup_ba, mapping_blocks_ba := end_ba\<rparr>) s3)))"
    proof (rule mg_then[OF m2], rule mg_write[OF r2], goal_cases)
      case (4 st e t)
      have "manages nd A t2 (upd_ni (\<lambda>n. n\<lparr>backup_table_ba := st, mapping_blocks_ba := e\<rparr>) t)"
        using 4 en \<open>en \<le> nba\<close> region_okD[OF r2]
        by (intro mg_set[OF 4(1) r2]) (auto simp: same_but_tables_simps acts_frame[OF 4(1)])
      then show ?case using 4 en by (simp add: mg_erase[OF _ r2])
    qed (use en \<open>en \<le> nba\<close> in \<open>auto intro: mg_act\<close>)
  qed
  show ?thesis
    unfolding nmbm_rebuild_info_table_def Let_def s1_def[symmetric] mark_clean_eq
  proof (rule mg_then[OF m1], rule mg_write[OF r1], goal_cases)
    case (3 t)
    then show ?case
      using region_okD[OF r1] by (auto intro!: mg_set[OF 3 r1] simp: same_but_tables_simps acts_frame[OF 3])
  next
    case (4 st e t)
    show ?case
    proof (rule rest)
      show "manages nd A s1 (t\<lparr>ni := ni t\<lparr>main_table_ba := st, mapping_blocks_ba := e,
          block_state_changed := 0, block_mapping_changed := 0\<rparr>\<rparr>)"
        using 4 by (intro mg_set[OF 4(1) r1]) (auto simp: same_but_tables_simps acts_frame[OF 4(1)] s1)
    qed (use 4 in \<open>simp_all add: acts_frame[OF 4(1)]\<close>)
  qed simp_all
qed

lemma rescue_main_manages:
  assumes r: "region_ok A s"
  shows "managed nd A s (nmbm_rescue_main_info_table nd s)"
proof -
  note D = region_okD[OF r]
  have swap: "manages nd A s (backup_becomes_main t)" if "acts nd A True s t" for t
    using D by (intro mg_set[OF that r]) (auto simp: same_but_tables_simps acts_frame[OF that])
  have rest: "managed nd A t
     (case nmbm_write_info_table nd (mgmt_start_ba (ni t)) tmp t of
        (None, s3) \<Rightarrow> (True, nmbm_mark_tables_clean (upd_ni (\<lambda>n. n\<lparr>main_table_ba := tmp, backup_table_ba := 0\<rparr>) s3))
      | (Some (main_start, main_end), s3) \<Rightarrow>
          if main_end \<le> tmp
          then (True, upd_ni (backup_table_ba_update (\<lambda>_. tmp))
                  (nmbm_mark_tables_clean (upd_ni (main_table_ba_update (\<lambda>_. main_start)) s3)))
          else rescue_new_backup nd main_end
                 (nmbm_mark_tables_clean (upd_ni (main_table_ba_update (\<lambda>_. main_start)) s3)))"
    if r': "region_ok A t" and tmp: "mgmt_start_ba (ni t) \<le> tmp" "tmp \<le> mapping_blocks_ba (ni t)" for t tmp
    unfolding mark_clean_eq
  proof (rule mg_write[OF r'], goal_cases)
    case (3 u)
    then show ?case using region_okD[OF r'] tmp
      by (auto intro!: mg_set[OF 3 r'] simp: same_but_tables_simps acts_frame[OF 3])
  next
    case (4 st en u)
    then have "manages nd A t (upd_ni (backup_table_ba_update (\<lambda>_. tmp))
        (u\<lparr>ni := ni u\<lparr>main_table_ba := st, block_state_changed := 0, block_mapping_changed := 0\<rparr>\<rparr>))"
      using region_okD[OF r'] tmp
      by (auto intro!: mg_set[OF 4(1) r'] simp: same_but_tables_simps acts_frame[OF 4(1)])
    then show ?case using 4 tmp by (simp add: if_P)
  qed (use tmp region_okD[OF r'] in simp_all)
  show ?thesis
    unfolding nmbm_rescue_main_info_table_def Let_def
  proof (rule mg_reserve, goal_cases)
    case 1
    then show ?case using swap[OF acts_refl] by simp
  next
    case (2 nba)
    show ?case
    proof (rule mg_down[OF r], goal_cases)
      case (4 st en t)
      have m: "manages nd A s (upd_ni (mapping_blocks_ba_update (\<lambda>_. en)) t)"
        using 4 D by (intro mg_set[OF 4(1) r]) (auto simp: same_but_tables_simps acts_frame[OF 4(1)])
      show ?case
        using 4 D by (intro mg_then[OF m] rest[OF region_ok_manages[OF m r]]) (auto simp: acts_frame[OF 4(1)])
    qed (use 2 D swap in auto)
  qed
qed

lemma write_main_manages:
  assumes r: "region_ok A s" and l: "l \<le> mapping_blocks_top_ba (ni s)"
    "backup_table_ba (ni s) = 0 \<or> l \<le> backup_table_ba (ni s)"
  shows "managed nd A s (write_main_table nd l s)"
proof (cases "main_table_ba (ni s) = 0")
  case True
  then show ?thesis using rebuild_manages[OF r] by (simp add: write_main_table_def)
next
  case False
  then have m: "mgmt_start_ba (ni s) \<le> main_table_ba (ni s)" using region_okD(5)[OF r] by simp
  show ?thesis
    unfolding write_main_table_def Let_def if_not_P[OF False]
  proof (rule mg_write[OF r], goal_cases)
    case (3 t)
    note r' = region_ok_manages[OF mg_act[OF 3] r]
    show ?case
      by (rule mg_then[OF mg_act[OF 3]]) (simp add: rebuild_manages[OF r'] rescue_main_manages[OF r'])
  next
    case (4 st en t)
    note F = acts_frame[OF 4(1)]
    show ?case
    proof (cases "backup_table_ba (ni s) = 0")
      case True
      have "manages nd A s (t\<lparr>ni := ni t\<lparr>main_table_ba := st, mapping_blocks_ba := en,
          block_state_changed := 0, block_mapping_changed := 0\<rparr>\<rparr>)"
        using 4 m l True by (intro mg_set[OF 4(1) r]) (simp_all add: same_but_tables_simps F)
      then show ?thesis using True by (simp add: F mark_clean_eq)
    next
      case False
      then have b: "mgmt_start_ba (ni s) \<le> backup_table_ba (ni s)"
        "backup_table_ba (ni s) \<le> mapping_blocks_ba (ni s)" "en \<le> backup_table_ba (ni s)"
        using region_okD(6)[OF r] l 4 by auto
      have "manages nd A s (t\<lparr>ni := ni t\<lparr>main_table_ba := st,
          block_state_changed := 0, block_mapping_changed := 0\<rparr>\<rparr>)"
        using 4 m b region_okD(2,3)[OF r]
        by (intro mg_set[OF 4(1) r]) (simp_all add: same_but_tables_simps F)
      then show ?thesis using False by (simp add: F mark_clean_eq)
    qed
  qed (use m l in simp_all)
qed

lemma update_checksum_not_Nil: "nmbm_update_checksum crc b \<noteq> []"
  by (simp add: nmbm_update_checksum_def store_at_def Let_def le32_def)

lemma update_once_manages:
  assumes r: "region_ok A s"
  shows "managed nd A s (nmbm_update_info_table_once nd crc force s)"
proof -
  obtain c s1 where gen: "nmbm_generate_info_table_cache crc s = (c, s1)" by fastforce
  have m1: "manages nd A s s1"
    using gen region_okD[OF r]
    by (auto simp: nmbm_generate_info_table_cache_def Let_def same_but_tables_simps tables_ok_def
        update_checksum_not_Nil intro!: mg_place[OF acts_refl])
  note r1 = region_ok_manages[OF m1 r]
  note D = region_okD[OF r1]
  show ?thesis
  proof (cases "backup_table_ba (ni s1) = 0")
    case True
    then show ?thesis
      using m1 mg_then[OF m1 write_main_manages[OF r1]]
      by (simp add: nmbm_update_info_table_once_def gen)
  next
    case False
    have "managed nd A s1
      (case nmbm_write_info_table nd (backup_table_ba (ni s1)) (mapping_blocks_top_ba (ni s1)) s1 of
         (None, s2) \<Rightarrow>
           write_main_table nd (mapping_blocks_top_ba (ni (upd_ni (\<lambda>n. n\<lparr>mapping_blocks_ba := backup_table_ba n,
               backup_table_ba := 0\<rparr>) s2)))
             (upd_ni (\<lambda>n. n\<lparr>mapping_blocks_ba := backup_table_ba n, backup_table_ba := 0\<rparr>) s2)
       | (Some (start_ba, end_ba), s2) \<Rightarrow>
           write_main_table nd (backup_table_ba (ni (nmbm_mark_tables_clean
               (upd_ni (\<lambda>n. n\<lparr>backup_table_ba := start_ba, mapping_blocks_ba := end_ba\<rparr>) s2))))
             (nmbm_mark_tables_clean
               (upd_ni (\<lambda>n. n\<lparr>backup_table_ba := start_ba, mapping_blocks_ba := end_ba\<rparr>) s2)))"
    proof (rule mg_write[OF r1], goal_cases)
      case (3 t)
      have m: "manages nd A s1 (upd_ni (\<lambda>n. n\<lparr>mapping_blocks_ba := backup_table_ba n, backup_table_ba := 0\<rparr>) t)"
        using D False by (auto intro!: mg_set[OF 3 r1] simp: same_but_tables_simps acts_frame[OF 3])
      show ?case by (rule mg_then[OF m write_main_manages[OF region_ok_manages[OF m r1]]]) simp_all
    next
      case (4 st en t)
      have m: "manages nd A s1 (nmbm_mark_tables_clean
          (upd_ni (\<lambda>n. n\<lparr>backup_table_ba := st, mapping_blocks_ba := en\<rparr>) t))"
        using 4 D False
        by (auto intro!: mg_set[OF 4(1) r1] simp: mark_clean_eq same_but_tables_simps acts_frame[OF 4(1)])
      show ?case
        using 4 by (intro mg_then[OF m write_main_manages[OF region_ok_manages[OF m r1]]])
          (simp_all add: mark_clean_eq acts_frame[OF 4(1)])
    qed (use D False in simp_all)
    from mg_then[OF m1 this] show ?thesis
      unfolding nmbm_update_info_table_once_def gen Let_def prod.case if_not_P[OF False]
      using m1 by (simp only: snd_conv split: if_split) simp
  qed
qed

lemma update_info_table_manages:
  assumes "region_ok A s" shows "managed nd A s (nmbm_update_info_table nd crc s)"
proof -
  have "managed nd A s (update_info_table_loop nd crc s)"
    using assms
  proof (induction nd crc s rule: update_info_table_loop.induct)
    case (1 nd crc s)
    obtain ok s1 where o: "nmbm_update_info_table_once nd crc False s = (ok, s1)" by fastforce
    have m: "manages nd A s s1" using update_once_manages[OF "1.prems", of nd crc False] o by simp
    show ?case
      using m mg_trans[OF m] "1.IH"[OF _ o[symmetric]] o region_ok_manages[OF m "1.prems"]
      by (subst update_info_table_loop.simps) (auto intro: mg_refl)
  qed
  then show ?thesis by (simp add: nmbm_update_info_table_def mg_refl)
qed

end
