(* ===== verification/Bmt_Nmbm.thy ===== *)
theory Bmt_Nmbm
  imports Nmbm_Region
begin

unbundle bit_operations_syntax

text \<open>
  The NMBM scheme, second part of \<^verbatim>\<open>mtk_bmt_nmbm.c\<close>: replacing blocks, creating the tables
  on a new chip, finding and loading stored tables, and the functions that the common layer
  calls.
\<close>

section \<open>Replacing a block\<close>

definition nmbm_map_block :: "'d nand_ops \<Rightarrow> crc_fn \<Rightarrow> nat \<Rightarrow> 'd bmt_st \<Rightarrow> bool \<times> 'd bmt_st" where
  "nmbm_map_block nd crc lb s =
     (if mapping_blocks_ba (ni s) = mapping_blocks_top_ba (ni s) then (False, s)
      else case nmbm_block_walk s False (mapping_blocks_top_ba (ni s)) 0 (int (mapping_blocks_ba (ni s))) of
             None \<Rightarrow>
               (let s1 = snd (nmbm_update_info_table nd crc s)
                in (False, upd_ni (\<lambda>n. n\<lparr>mapping_blocks_top_ba := mapping_blocks_ba n\<rparr>) s1))
           | Some pb \<Rightarrow>
               (True, upd_ni (\<lambda>n. n\<lparr>block_mapping := (block_mapping n)[lb := int pb],
                                    mapping_blocks_top_ba := mapping_blocks_top_ba n - 1,
                                    block_mapping_changed := block_mapping_changed n + 1\<rparr>) s))"

section \<open>A new chip\<close>

text \<open>The loop over the bad blocks at the end of the data area; \<open>k\<close> iterations are left.\<close>

fun remap_tail :: "'d nand_ops \<Rightarrow> crc_fn \<Rightarrow> nat \<Rightarrow> nat \<Rightarrow> 'd bmt_st \<Rightarrow> 'd bmt_st" where
  "remap_tail nd crc 0 lb s = s"
| "remap_tail nd crc (Suc k) lb s =
     (let (success, s1) = nmbm_map_block nd crc lb s
      in if \<not> success then s1
         else remap_tail nd crc k (lb + 1) (upd_ni (\<lambda>n. n\<lparr>data_block_count := data_block_count n + 1\<rparr>) s1))"

definition nmbm_create_info_table :: "'d nand_ops \<Rightarrow> crc_fn \<Rightarrow> 'd bmt_st \<Rightarrow> bool \<times> 'd bmt_st" where
  "nmbm_create_info_table nd crc s =
     (case nmbm_block_walk s False (signature_ba (ni s)) 1 (int (mgmt_start_ba (ni s))) of
        None \<Rightarrow> (False, s)
      | Some top_ba \<Rightarrow>
          (let s1 = upd_ni (mapping_blocks_top_ba_update (\<lambda>_. top_ba)) s;
               s2 = snd (nmbm_generate_info_table_cache crc s1);
               (success, s3) = nmbm_rebuild_info_table nd s2
           in if \<not> success then (False, s3)
              else nmbm_update_info_table nd crc
                     (remap_tail nd crc (mgmt_start_ba (ni s3) - data_block_count (ni s3))
                        (data_block_count (ni s3)) s3)))"

definition update_signature_checksum :: "crc_fn \<Rightarrow> nmbm_signature \<Rightarrow> nmbm_signature" where
  "update_signature_checksum crc sg =
     sg\<lparr>sg_header := (sg_header sg)\<lparr>nh_checksum :=
        nh_checksum (nmbm_header_of (nmbm_update_checksum crc (nmbm_signature_bytes sg)))\<rparr>\<rparr>"

definition new_signature :: "crc_fn \<Rightarrow> 'd bmt_st \<Rightarrow> nmbm_signature" where
  "new_signature crc s =
     update_signature_checksum crc
       ((signature (ni s))
        \<lparr>sg_header := (sg_header (signature (ni s)))
           \<lparr>nh_magic := NMBM_MAGIC_SIGNATURE, nh_version := NMBM_VER, nh_size := 48\<rparr>,
         sg_nand_size := of_nat (size_of_blocks (total_blks s) (blk_shift s)),
         sg_block_size := of_nat (blk_size s), sg_page_size := of_nat (pg_size s),
         sg_spare_size := of_nat (mtd_oobsize s), sg_mgmt_start_pb := of_nat (mgmt_start_ba (ni s)),
         sg_max_try_count := of_nat NMBM_TRY_COUNT\<rparr>)"

definition mgmt_boundary :: "nmbm_instance \<Rightarrow> nat" where
  "mgmt_boundary n =
     (let m = to_u32 (int (block_count n) * (int NMBM_MGMT_DIV - int (max_ratio n))) div NMBM_MGMT_DIV
      in if max_reserved_blocks n \<noteq> 0 \<and>
            to_u32 (int (block_count n) - int m) > max_reserved_blocks n
         then to_u32 (int (block_count n) - int (max_reserved_blocks n)) else m)"

definition nmbm_create_new :: "'d nand_ops \<Rightarrow> crc_fn \<Rightarrow> 'd bmt_st \<Rightarrow> bool \<times> 'd bmt_st" where
  "nmbm_create_new nd crc s =
     (let s1 = upd_ni (\<lambda>n. n\<lparr>mgmt_start_ba := mgmt_boundary n\<rparr>) s;
          s2 = nmbm_build_mapping_table (nmbm_scan_badblocks nd s1);
          s3 = upd_ni (signature_update (\<lambda>_. new_signature crc s2)) s2
      in case nmbm_write_signature nd (mgmt_start_ba (ni s3)) (signature (ni s3)) s3 of
           (None, s4) \<Rightarrow> (False, s4)
         | (Some ba, s4) \<Rightarrow> nmbm_create_info_table nd crc (upd_ni (signature_ba_update (\<lambda>_. ba)) s4))"

section \<open>Loading stored tables\<close>

definition nmbm_check_info_table_header :: "'d bmt_st \<Rightarrow> bytes \<Rightarrow> bool" where
  "nmbm_check_info_table_header s dat =
     (let t = nmbm_info_table_header_of dat; n = ni s
      in nh_magic (it_header t) = NMBM_MAGIC_INFO_TABLE \<and>
         unat (nh_size (it_header t)) = info_table_size n \<and>
         \<not> unat (it_mapping_table_off t - it_state_table_off t) < state_table_size n \<and>
         \<not> unat (of_nat (info_table_size n) - it_mapping_table_off t) < mapping_table_size n)"

text \<open>
  The two loops of \<^verbatim>\<open>nmbm_check_info_table\<close>. A mapping is signed but is compared with unsigned
  numbers, so that \<^verbatim>\<open>-1\<close> is the largest one.
\<close>

fun check_mappings :: "'d bmt_st \<Rightarrow> nat \<Rightarrow> int list \<Rightarrow> nat \<Rightarrow> nat option" where
  "check_mappings s end_ba [] minimum = Some minimum"
| "check_mappings s end_ba (m # ms) minimum =
     (let pb = to_u32 m
      in if (data_block_count (ni s) \<le> pb \<and> pb < end_ba) \<or> pb = signature_ba (ni s) then None
         else check_mappings s end_ba ms (if end_ba \<le> pb \<and> pb < minimum then pb else minimum))"

definition nmbm_check_info_table :: "'d bmt_st \<Rightarrow> nat \<Rightarrow> nat \<Rightarrow> bytes \<Rightarrow> nat option" where
  "nmbm_check_info_table s start_ba end_ba dat =
     (let t = nmbm_info_table_header_of dat;
          ms = mapping_of (data_block_count (ni s)) (drop (unat (it_mapping_table_off t)) dat);
          bs = state_of (state_table_size (ni s) div 4) (drop (unat (it_state_table_off t)) dat)
      in case check_mappings s end_ba ms (signature_ba (ni s)) of
           None \<Rightarrow> None
         | Some minimum \<Rightarrow>
             if \<forall>ba \<in> set [start_ba..<end_ba]. nmbm_get_block_state s ba = BLOCK_ST_GOOD \<longrightarrow>
                  nmbm_get_block_state_raw bs ba = BLOCK_ST_GOOD
             then Some (to_u32 (int minimum - 1)) else None)"

text \<open>
  The loop of \<^verbatim>\<open>nmbm_try_load_info_table\<close> reads the table block by block into the cache.
  \<open>Inl\<close> is an early return; \<open>p\<close> is the position of the pointer \<^verbatim>\<open>off\<close> in the cache.
\<close>

definition load_block ::
  "'d nand_ops \<Rightarrow> nat \<Rightarrow> nat \<Rightarrow> nat \<Rightarrow> 'd bmt_st \<Rightarrow> (bool + unit) \<times> 'd bmt_st" where
  "load_block nd ba p chunksize s =
     (let (usable, s1) = block_usable nd ba s
      in if \<not> usable then (Inl True, s1)
         else
           (let (ret, cache, s2) = nmbn_read_data nd (ba2addr s1 ba) p chunksize (info_table_cache (ni s1)) s1;
                s3 = upd_ni (info_table_cache_update (\<lambda>_. cache)) s2
            in if ret < 0 then (Inl True, snd (nmbm_set_block_state ba BLOCK_ST_BAD s3))
               else if ret > 0 then (Inl False, s3)
               else if p = 0 \<and> \<not> nmbm_check_info_table_header s3 cache then (Inl False, s3)
               else (Inr (), s3)))"

function load_table_loop ::
  "'d nand_ops \<Rightarrow> nat \<Rightarrow> nat \<Rightarrow> nat \<Rightarrow> nat \<Rightarrow> nat \<Rightarrow> 'd bmt_st \<Rightarrow> (nat \<times> nat) option \<times> 'd bmt_st" where
  "load_table_loop nd ba limit p sizeremain start_ba s =
     (if sizeremain \<noteq> 0 \<and> ba < limit then
        (let chunksize = min sizeremain (blk_size s)
         in case load_block nd ba p chunksize s of
              (Inl True, s1) \<Rightarrow> load_table_loop nd (ba + 1) limit p sizeremain start_ba s1
            | (Inl False, s1) \<Rightarrow> (None, s1)
            | (Inr _, s1) \<Rightarrow>
                load_table_loop nd (ba + 1) limit (p + chunksize) (sizeremain - chunksize)
                  (if p = 0 then ba else start_ba) s1)
      else if sizeremain \<noteq> 0 then (None, s) else (Some (start_ba, ba), s))"
  by pat_completeness auto
termination
  by (relation "measure (\<lambda>(nd, ba, limit, p, sizeremain, start_ba, s). limit - ba)") auto

declare load_table_loop.simps [simp del]

definition nmbm_try_load_info_table ::
  "'d nand_ops \<Rightarrow> crc_fn \<Rightarrow> nat \<Rightarrow> bool \<Rightarrow> 'd bmt_st \<Rightarrow> (nat \<times> u32 \<times> nat) option \<times> 'd bmt_st" where
  "nmbm_try_load_info_table nd crc ba table_loaded s =
     (case load_table_loop nd ba (ba + size2blk s (info_table_size (ni s))) 0
             (info_table_size (ni s)) 0 s of
        (None, s1) \<Rightarrow> (None, s1)
      | (Some (start_ba, eba), s1) \<Rightarrow>
          (let cache = info_table_cache (ni s1);
               t = nmbm_info_table_header_of cache
           in if \<not> nmbm_check_header crc cache (info_table_size (ni s1)) then (None, s1)
              else case nmbm_check_info_table s1 start_ba eba cache of
                     None \<Rightarrow> (None, s1)
                   | Some top_ba \<Rightarrow>
                       (Some (eba, it_write_count t, top_ba),
                        if \<not> table_loaded \<or> it_write_count t > it_write_count (info_table (ni s1))
                        then upd_ni (\<lambda>n. n\<lparr>info_table := t,
                               block_state := state_of (state_table_size n div 4)
                                 (drop (unat (it_state_table_off t)) cache),
                               block_mapping := mapping_of (mapping_table_size n div 4)
                                 (drop (unat (it_mapping_table_off t)) cache)\<rparr>) s1
                        else s1)))"

text \<open>The result of the search is the first block, then the outputs of the attempt.\<close>

function search_loop ::
  "'d nand_ops \<Rightarrow> crc_fn \<Rightarrow> nat \<Rightarrow> nat \<Rightarrow> bool \<Rightarrow> 'd bmt_st \<Rightarrow> (nat \<times> nat \<times> u32 \<times> nat) option \<times> 'd bmt_st" where
  "search_loop nd crc ba bound table_loaded s =
     (if ba < bound then
        (case nmbm_try_load_info_table nd crc ba table_loaded s of
           (Some r, s1) \<Rightarrow> (Some (ba, r), s1)
         | (None, s1) \<Rightarrow> search_loop nd crc (ba + 1) bound table_loaded s1)
      else (None, s))"
  by pat_completeness auto
termination
  by (relation "measure (\<lambda>(nd, crc, ba, bound, l, s). bound - ba)") auto

declare search_loop.simps [simp del]

definition nmbm_search_info_table ::
  "'d nand_ops \<Rightarrow> crc_fn \<Rightarrow> nat \<Rightarrow> nat \<Rightarrow> bool \<Rightarrow> 'd bmt_st \<Rightarrow> (nat \<times> nat \<times> u32 \<times> nat) option \<times> 'd bmt_st" where
  "nmbm_search_info_table nd crc ba limit table_loaded s =
     search_loop nd crc ba (to_u32 (int limit - int (size2blk s (info_table_size (ni s))))) table_loaded s"

text \<open>The last logical block that is mapped, plus one.\<close>

fun last_mapped :: "int list \<Rightarrow> nat \<Rightarrow> nat option" where
  "last_mapped m 0 = None"
| "last_mapped m (Suc i) = (if m ! i \<ge> 0 then Some (Suc i) else last_mapped m i)"

definition finish_load :: "'d nand_ops \<Rightarrow> crc_fn \<Rightarrow> u32 \<Rightarrow> u32 \<Rightarrow> 'd bmt_st \<Rightarrow> 'd bmt_st" where
  "finish_load nd crc main_count backup_count s =
     (let s0 = (case last_mapped (block_mapping (ni s)) (unat (sg_mgmt_start_pb (signature (ni s)))) of
                  None \<Rightarrow> s | Some i \<Rightarrow> upd_ni (data_block_count_update (\<lambda>_. i)) s);
          s1 = snd (nmbm_generate_info_table_cache crc s0);
          (success, s2) =
            (if backup_table_ba (ni s1) = 0 then nmbm_rescue_single_info_table nd s1
             else if main_count \<noteq> backup_count then
               nmbm_update_single_info_table nd (main_count < backup_count)
                 (upd_ni (\<lambda>n. n\<lparr>block_state_changed := 1, block_mapping_changed := 1\<rparr>) s1)
             else (True, s1))
      in if mapping_blocks_ba (ni s2) = mapping_blocks_top_ba (ni s2) \<or> \<not> success
         then upd_ni (protected_update (\<lambda>_. True)) s2 else s2)"

definition nmbm_load_info_table ::
  "'d nand_ops \<Rightarrow> crc_fn \<Rightarrow> nat \<Rightarrow> nat \<Rightarrow> 'd bmt_st \<Rightarrow> bool \<times> 'd bmt_st" where
  "nmbm_load_info_table nd crc ba limit s =
     (let s0 = upd_ni (\<lambda>n. n\<lparr>main_table_ba := 0, backup_table_ba := 0,
                 info_table := (info_table n)\<lparr>it_write_count := 0\<rparr>,
                 mapping_blocks_top_ba := to_u32 (int (signature_ba n) - 1),
                 data_block_count := unat (sg_mgmt_start_pb (signature n))\<rparr>) s
      in case nmbm_search_info_table nd crc ba limit False s0 of
           (None, s1) \<Rightarrow> (False, s1)
         | (Some (main_ba, main_end, main_count, main_top), s1) \<Rightarrow>
             (let s2 = upd_ni (main_table_ba_update (\<lambda>_. main_ba)) s1
              in case nmbm_search_info_table nd crc main_end limit True s2 of
                   (None, s3) \<Rightarrow>
                     (True, finish_load nd crc main_count 0
                        (upd_ni (\<lambda>n. n\<lparr>mapping_blocks_top_ba := main_top, mapping_blocks_ba := main_end\<rparr>) s3))
                 | (Some (backup_ba, backup_end, backup_count, backup_top), s3) \<Rightarrow>
                     (True, finish_load nd crc main_count backup_count
                        (upd_ni (\<lambda>n. n\<lparr>backup_table_ba := backup_ba,
                           mapping_blocks_top_ba :=
                             (if backup_ba = 0 \<or> main_count \<ge> backup_count then main_top else backup_top),
                           mapping_blocks_ba := backup_end\<rparr>) s3))))"

definition nmbm_load_existing :: "'d nand_ops \<Rightarrow> crc_fn \<Rightarrow> 'd bmt_st \<Rightarrow> bool \<times> 'd bmt_st" where
  "nmbm_load_existing nd crc s =
     (let s0 = upd_ni (\<lambda>n. n\<lparr>mgmt_start_ba := unat (sg_mgmt_start_pb (signature n))\<rparr>) s;
          (success, s1) = nmbm_load_info_table nd crc (mgmt_start_ba (ni s0)) (signature_ba (ni s0)) s0
      in if success then (True, s1)
         else if \<not> force_create (ni s1) then (False, s1)
         else nmbm_create_info_table nd crc (nmbm_build_mapping_table (nmbm_scan_badblocks nd s1)))"

section \<open>Attaching\<close>

text \<open>
  \<^verbatim>\<open>nmbm_find_signature\<close>. The loop runs below the limit by one block, and when the limit is 0
  the unsigned block number wraps around and the loop goes on; it has fuel, and \<^term>\<open>None\<close>
  means that the fuel ran out.
\<close>

fun find_signature_pages ::
  "'d nand_ops \<Rightarrow> crc_fn \<Rightarrow> nat \<Rightarrow> nat list \<Rightarrow> 'd bmt_st \<Rightarrow> nmbm_signature option \<times> 'd bmt_st" where
  "find_signature_pages nd crc addr [] s = (None, s)"
| "find_signature_pages nd crc addr (off # offs) s =
     (let (ret, sig, s1) = nmbn_read_data nd (addr + off) 0 48 (replicate 48 0) s
      in if ret = 0 \<and> nmbm_check_header crc sig 48 \<and>
            nh_magic (nmbm_header_of sig) = NMBM_MAGIC_SIGNATURE
         then (Some (nmbm_signature_of sig), s1)
         else find_signature_pages nd crc addr offs s1)"

fun find_signature_loop ::
  "nat \<Rightarrow> 'd nand_ops \<Rightarrow> crc_fn \<Rightarrow> nat \<Rightarrow> nat \<Rightarrow> 'd bmt_st \<Rightarrow>
   ((nmbm_signature \<times> nat) option \<times> 'd bmt_st) option" where
  "find_signature_loop 0 nd crc ba limit s = None"
| "find_signature_loop (Suc fuel) nd crc ba limit s =
     (if ba \<ge> limit then
        (let ba' = to_u32 (int ba - 1);
             (bad, s1) = nmbm_check_bad_phys_block nd ba' s
         in if bad then find_signature_loop fuel nd crc ba' limit s1
            else case find_signature_pages nd crc (ba2addr s1 ba') (page_offs s1) s1 of
                   (Some sg, s2) \<Rightarrow> Some (Some (sg, ba'), s2)
                 | (None, s2) \<Rightarrow> find_signature_loop fuel nd crc ba' limit s2)
      else Some (None, s))"

definition signature_limit :: "'d bmt_st \<Rightarrow> nat" where
  "signature_limit s =
     (let n = ni s;
          limit = to_u32 (int (total_blks s div NMBM_MGMT_DIV) * (int NMBM_MGMT_DIV - int (max_ratio n)))
      in if max_reserved_blocks n \<noteq> 0 \<and> to_u32 (int (total_blks s) - int limit) > max_reserved_blocks n
         then to_u32 (int (total_blks s) - int (max_reserved_blocks n)) else limit)"

definition nmbm_find_signature ::
  "nat \<Rightarrow> 'd nand_ops \<Rightarrow> crc_fn \<Rightarrow> 'd bmt_st \<Rightarrow> ((nmbm_signature \<times> nat) option \<times> 'd bmt_st) option" where
  "nmbm_find_signature fuel nd crc s =
     find_signature_loop fuel nd crc (total_blks s) (signature_limit s) s"

definition align_up :: "nat \<Rightarrow> nat \<Rightarrow> nat" where
  "align_up n a = (n + a - 1) div a * a"

definition state_size :: "nat \<Rightarrow> nat" where
  "state_size blocks =
     (blocks + NMBM_BITMAP_BLOCKS_PER_UNIT - 1) div NMBM_BITMAP_BLOCKS_PER_UNIT * 4"

text \<open>\<open>instance_size\<close> is the size of \<^verbatim>\<open>struct nmbm_instance\<close>, which depends on the machine.\<close>

definition nmbm_calc_structure_size :: "nat \<Rightarrow> 'd bmt_st \<Rightarrow> nat" where
  "nmbm_calc_structure_size instance_size s =
     (let sts = state_size (total_blks s); mts = total_blks s * 4
      in align_up 32 (pg_size s) + align_up sts (pg_size s) + align_up mts (pg_size s)
         + sts + mts + instance_size)"

definition nmbm_init_structure :: "'d bmt_st \<Rightarrow> 'd bmt_st" where
  "nmbm_init_structure s =
     (let raw = pg_size s + mtd_oobsize s;
          rawblk = to_u32 (int (blk_size s div pg_size s) * int raw);
          sts = state_size (total_blks s); mts = total_blks s * 4;
          off1 = align_up 32 (pg_size s);
          off2 = off1 + align_up sts (pg_size s);
          its = off2 + align_up mts (pg_size s)
      in upd_ni (\<lambda>n. n\<lparr>rawpage_size := raw, rawblock_size := rawblk,
           rawchip_size := to_u32 (int (total_blks s) * int rawblk),
           block_count := total_blks s, state_table_size := sts, mapping_table_size := mts,
           info_table := (info_table n)\<lparr>it_state_table_off := of_nat off1,
                                        it_mapping_table_off := of_nat off2\<rparr>,
           info_table_size := its,
           info_table_spare_blocks := nmbm_get_spare_block_count (size2blk s its),
           info_table_cache := replicate its 0,
           block_state_changed := 0, block_state := replicate (sts div 4) (- 1),
           block_mapping := replicate (total_blks s) 0, block_mapping_changed := 0\<rparr>) s)"

definition nmbm_attach ::
  "nat \<Rightarrow> 'd nand_ops \<Rightarrow> crc_fn \<Rightarrow> 'd bmt_st \<Rightarrow> (int \<times> 'd bmt_st) option" where
  "nmbm_attach fuel nd crc s =
     (case nmbm_find_signature fuel nd crc (nmbm_init_structure s) of
        None \<Rightarrow> None
      | Some (None, s1) \<Rightarrow>
          Some (if \<not> force_create (ni s1) then (- ENODEV, s1)
                else let (success, s2) = nmbm_create_new nd crc s1
                     in if success then (0, s2) else (- ENODEV, s2))
      | Some (Some (sg, ba), s1) \<Rightarrow>
          (let s2 = upd_ni (\<lambda>n. n\<lparr>signature := sg, signature_ba := ba\<rparr>) s1
           in Some (if nh_version (sg_header sg) \<noteq> NMBM_VER then (- EINVAL, s2)
                    else if sg_nand_size sg \<noteq> of_nat (size_of_blocks (total_blks s2) (blk_shift s2)) \<or>
                            unat (sg_block_size sg) \<noteq> blk_size s2 \<or>
                            unat (sg_page_size sg) \<noteq> pg_size s2 \<or>
                            unat (sg_spare_size sg) \<noteq> mtd_oobsize s2 then (- EINVAL, s2)
                    else let (success, s3) = nmbm_load_existing nd crc s2
                         in if success then (0, s3) else (- ENODEV, s3))))"

section \<open>The operations of the scheme\<close>

definition remap_block_nmbm :: "'d nand_ops \<Rightarrow> crc_fn \<Rightarrow> 'd remap_fn" where
  "remap_block_nmbm nd crc block mapped_block copy_len s =
     (if block \<ge> data_block_count (ni s) then (False, s)
      else
        (let s1 = snd (nmbm_set_block_state mapped_block BLOCK_ST_BAD s);
             (success, s2) = nmbm_map_block nd crc block s1
         in if \<not> success then (False, s2)
            else
              (let new_block = to_u16 (block_mapping (ni s2) ! block);
                   s3 = snd (bbt_nand_erase nd new_block s2);
                   s4 = (if copy_len > 0
                         then snd (bbt_nand_copy nd new_block mapped_block copy_len s3) else s3)
               in (True, snd (nmbm_update_info_table nd crc s4)))))"

text \<open>The argument is signed and is compared with an unsigned number.\<close>

definition get_mapping_block_index_nmbm :: "int \<Rightarrow> 'd bmt_st \<Rightarrow> int" where
  "get_mapping_block_index_nmbm block s =
     (if to_u32 block \<ge> data_block_count (ni s) then - 1 else block_mapping (ni s) ! nat block)"

definition mtk_bmt_init_nmbm ::
  "nat \<Rightarrow> 'd nand_ops \<Rightarrow> crc_fn \<Rightarrow> bool \<Rightarrow> dt_node \<Rightarrow> 'd bmt_st \<Rightarrow> (int \<times> 'd bmt_st) option" where
  "mtk_bmt_init_nmbm fuel nd crc alloc_ok np s =
     (if \<not> alloc_ok then Some (- ENOMEM, s)
      else
        (let s1 = s\<lparr>ni := zero_instance
                      \<lparr>max_ratio := (case dt_max_ratio np of Some r \<Rightarrow> r | None \<Rightarrow> 1),
                       max_reserved_blocks := (case dt_max_reserved_blocks np of Some r \<Rightarrow> r | None \<Rightarrow> 256),
                       empty_page_ecc_ok := dt_empty_page_ecc_protected np,
                       force_create := dt_force_create np\<rparr>\<rparr>
         in case nmbm_attach fuel nd crc s1 of
              None \<Rightarrow> None
            | Some (ret, s2) \<Rightarrow>
                Some (if ret \<noteq> 0 then (ret, s2\<lparr>ni := zero_instance\<rparr>)
                      else (0, s2\<lparr>mtd_size := to_u32 (int (data_block_count (ni s2) * 2 ^ blk_shift s2))\<rparr>))))"

text \<open>The debug control only prints.\<close>

definition mtk_bmt_debug_nmbm :: "nat \<Rightarrow> 'd bmt_st \<Rightarrow> int \<times> 'd bmt_st" where
  "mtk_bmt_debug_nmbm val s = (0, s)"

text \<open>
  \<^verbatim>\<open>unmap_block_nmbm\<close> walks down to the next block that is not replaced; \<^term>\<open>None\<close> is the
  return when there is none.
\<close>

fun unreplaced_below :: "'d bmt_st \<Rightarrow> nat \<Rightarrow> nat option" where
  "unreplaced_below s start =
     (if to_u32 (block_mapping (ni s) ! start) \<ge> mapping_blocks_ba (ni s)
      then (case start of 0 \<Rightarrow> None | Suc k \<Rightarrow> unreplaced_below s k)
      else Some start)"

declare unreplaced_below.simps [simp del]

definition lowest_replacement :: "'d bmt_st \<Rightarrow> int" where
  "lowest_replacement s =
     fold (\<lambda>cur new_block. if to_u32 cur < mapping_blocks_ba (ni s) then new_block
                           else if cur \<le> new_block then cur - 1 else new_block)
       (take (data_block_count (ni s)) (block_mapping (ni s))) (to_s32 (int (signature_ba (ni s)) - 1))"

definition unmap_block_nmbm :: "'d nand_ops \<Rightarrow> crc_fn \<Rightarrow> nat \<Rightarrow> 'd bmt_st \<Rightarrow> 'd bmt_st" where
  "unmap_block_nmbm nd crc block s =
     (if block \<ge> data_block_count (ni s) then s
      else case unreplaced_below s block of
             None \<Rightarrow> s
           | Some start \<Rightarrow>
               if start = block then s
               else
                 (let new_block = block_mapping (ni s) ! start + int (block - start);
                      s1 = snd (nmbm_set_block_state (to_u32 new_block) BLOCK_ST_GOOD s);
                      s2 = upd_ni (\<lambda>n. n\<lparr>block_mapping := (block_mapping n)[block := new_block],
                                         block_mapping_changed := block_mapping_changed n + 1\<rparr>) s1;
                      s3 = upd_ni (mapping_blocks_top_ba_update (\<lambda>_. to_u32 (lowest_replacement s2))) s2
                  in snd (nmbm_update_info_table nd crc s3)))"

definition mtk_bmt_nmbm_ops :: "'d nand_ops \<Rightarrow> crc_fn \<Rightarrow> 'd mtk_bmt_ops" where
  "mtk_bmt_nmbm_ops nd crc =
     \<lparr>op_sig = [], op_remap_block = remap_block_nmbm nd crc, op_unmap_block = unmap_block_nmbm nd crc,
      op_get_mapping_block = get_mapping_block_index_nmbm, op_debug = mtk_bmt_debug_nmbm\<rparr>"

section \<open>Chips with local effects\<close>

lemma acts_mem:
  assumes "acts nd A R s t" "local_chip nd mem" "\<And>a n. A a n \<Longrightarrow> \<not> (a \<le> x \<and> x < a + n)"
  shows "mem (dev t) x = mem (dev s) x"
  using assms
proof (induction rule: acts.induct)
  case (acts_write s t a dat)
  have "\<not> (a \<le> x \<and> x < a + rq_len (page_rq t dat))"
    using acts_write.prems(2)[OF acts_write.hyps(2)] by (simp add: page_rq_def)
  then have "mem (snd (nd_write_oob nd (dev t) a (page_rq t dat))) x = mem (dev t) x"
    using acts_write.prems(1) unfolding local_chip_def by blast
  then show ?case using acts_write.IH[OF acts_write.prems] by simp
next
  case (acts_erase s t a)
  then show ?case using acts_erase.prems(2)[OF acts_erase.hyps(2)] by (simp add: local_chip_def)
qed (auto simp: local_chip_def set_block_state_eq)

lemma manages_mem:
  assumes "manages nd A s t" "local_chip nd mem" "\<And>a n. A a n \<Longrightarrow> \<not> (a \<le> x \<and> x < a + n)"
  shows "mem (dev t) x = mem (dev s) x"
  using assms
proof (induction rule: manages.induct)
  case (mg_acts s t u)
  then show ?case using acts_mem[OF mg_acts.hyps(2) mg_acts.prems] by simp
qed simp_all

definition area :: "nat \<Rightarrow> nat \<Rightarrow> nat \<Rightarrow> nat \<Rightarrow> bool" where
  "area lo hi a n \<longleftrightarrow> lo \<le> a \<and> a + n \<le> hi"

text \<open>Geometry: blocks of a power of two bytes, divided into pages.\<close>

definition nmbm_geometry :: "'d bmt_st \<Rightarrow> bool" where
  "nmbm_geometry s \<longleftrightarrow> bmt_geometry s \<and> 0 < pg_size s \<and> pg_size s dvd 2 ^ blk_shift s"

lemma page_in_block:
  fixes off p B :: nat
  assumes "0 < p" "p dvd B" "b * B \<le> off" "off < b * B + B"
  shows "b * B \<le> off - off mod p" "off - off mod p + p \<le> b * B + B"
proof -
  obtain k where k: "B = p * k" using assms(2) by blast
  have o: "off - off mod p = off div p * p" by (simp add: minus_mod_eq_div_mult)
  have "b * k \<le> off div p"
    using div_le_mono[OF assms(3), of p] assms(1) by (simp add: k mult.assoc[symmetric] mult.commute[of p] )
  moreover have "off div p < b * k + k"
    using assms(1,4) by (simp add: k div_less_iff_less_mult algebra_simps)
  ultimately show "b * B \<le> off - off mod p" "off - off mod p + p \<le> b * B + B"
    unfolding o k by (auto simp: algebra_simps) (metis Suc_leI add_mult_distrib2 mult.commute mult_Suc_right mult_le_mono1 mult.left_commute add.commute)
qed

lemma block_in_area:
  assumes g: "nmbm_geometry s" and b: "lo \<le> b" "b < hi"
  shows "block_in (area (lo * 2 ^ blk_shift s) (hi * 2 ^ blk_shift s)) s b"
proof -
  let ?B = "2 ^ blk_shift s :: nat"
  have G: "blk_size s = ?B" "mtd_erasesize s = ?B" "0 < pg_size s" "pg_size s dvd ?B"
    using g by (simp_all add: nmbm_geometry_def bmt_geometry_def)
  have lo: "lo * ?B \<le> b * ?B" using b(1) by simp
  have hi: "b * ?B + ?B \<le> hi * ?B" using mult_le_mono1[of "Suc b" hi ?B] b(2) by simp
  have offs: "off + pg_size s \<le> ?B" if "off \<in> set (page_offs s)" for off
  proof -
    obtain k where k: "?B = pg_size s * k" using G(4) by blast
    have "(?B + pg_size s - 1) div pg_size s = k"
      using G(3) unfolding k by (intro div_nat_eqI) (auto simp: algebra_simps)
    then have "off \<in> (\<lambda>i. i * pg_size s) ` {0..<k}" using that by (simp add: page_offs_def G(1))
    then obtain i where "off = i * pg_size s" "i < k" by (metis imageE atLeastLessThan_iff)
    then show ?thesis using k mult_le_mono1[of "Suc i" k "pg_size s"] by (simp add: mult.commute)
  qed
  show ?thesis
    unfolding block_in_def ba2addr_def G area_def
  proof (intro conjI allI impI ballI)
    fix off assume "b * ?B \<le> off \<and> off < b * ?B + ?B"
    then show "lo * ?B \<le> off - off mod pg_size s" "off - off mod pg_size s + pg_size s \<le> hi * ?B"
      using page_in_block[OF G(3,4), of b off] lo hi by linarith+
  next
    fix off assume "off \<in> set (page_offs s)"
    then show "lo * ?B \<le> b * ?B + off" "b * ?B + off + pg_size s \<le> hi * ?B"
      using offs[of off] lo hi by linarith+
  qed (use lo hi in simp_all)
qed

section \<open>The invariant of the scheme\<close>

text \<open>
  The logical blocks are on distinct physical blocks, each in the data area or above the free
  replacement blocks, and the stored tables lie between.
\<close>

definition nmbm_inv :: "'d bmt_st \<Rightarrow> bool" where
  "nmbm_inv s \<longleftrightarrow>
     tables_ok (ni s) \<and> total_blks s < 65536 \<and> block_count (ni s) = total_blks s \<and>
     mapping_blocks_top_ba (ni s) < total_blks s \<and>
     data_block_count (ni s) \<le> total_blks s \<and> data_block_count (ni s) \<le> length (block_mapping (ni s)) \<and>
     (\<forall>lb < data_block_count (ni s). 0 \<le> block_mapping (ni s) ! lb \<and>
        block_mapping (ni s) ! lb < int (total_blks s) \<and>
        (block_mapping (ni s) ! lb < int (mgmt_start_ba (ni s)) \<or>
         int (mapping_blocks_top_ba (ni s)) < block_mapping (ni s) ! lb)) \<and>
     (\<forall>i < data_block_count (ni s). \<forall>j < data_block_count (ni s).
        block_mapping (ni s) ! i = block_mapping (ni s) ! j \<longrightarrow> i = j)"

lemma nmbm_lookup:
  "nmbm_inv s \<Longrightarrow> x < data_block_count (ni s) \<Longrightarrow>
   get_mapping_block_index_nmbm (int x) s = block_mapping (ni s) ! x"
  by (simp add: get_mapping_block_index_nmbm_def nmbm_inv_def to_u32_of_nat)

lemma nmbm_inv_mapping:
  "nmbm_inv s \<Longrightarrow> x < data_block_count (ni s) \<Longrightarrow>
   0 \<le> block_mapping (ni s) ! x \<and> block_mapping (ni s) ! x < int (total_blks s)"
  by (simp add: nmbm_inv_def)

lemma nmbm_inv_inj:
  "nmbm_inv s \<Longrightarrow> x < data_block_count (ni s) \<Longrightarrow> y < data_block_count (ni s) \<Longrightarrow>
   block_mapping (ni s) ! x = block_mapping (ni s) ! y \<Longrightarrow> x = y"
  by (simp add: nmbm_inv_def)

lemma nmbm_inv_scratch [simp]:
  "nmbm_inv (s\<lparr>dev := d\<rparr>) = nmbm_inv s" "nmbm_inv (s\<lparr>data_buf := b\<rparr>) = nmbm_inv s"
  by (simp_all add: nmbm_inv_def)

interpretation nm: bmt_backend "mtk_bmt_nmbm_ops nd crc" nmbm_inv "\<lambda>s. data_block_count (ni s)"
  by unfold_locales
    (simp_all add: mtk_bmt_nmbm_ops_def nmbm_lookup nmbm_inv_mapping nmbm_inv_inj,
     simp_all add: nmbm_inv_def get_mapping_block_index_nmbm_def)

lemma nmbm_inv_manages:
  assumes "manages nd A s t" "nmbm_inv s" shows "nmbm_inv t"
  using assms(2) manages_tables_ok[OF assms(1)] manages_frame[OF assms(1)]
  by (simp add: nmbm_inv_def)

abbreviation mgmt_area :: "'d bmt_st \<Rightarrow> nat \<Rightarrow> nat \<Rightarrow> bool" where
  "mgmt_area s \<equiv> area (mgmt_start_ba (ni s) * 2 ^ blk_shift s) (mapping_blocks_top_ba (ni s) * 2 ^ blk_shift s)"

lemma mgmt_region: "nmbm_inv s \<Longrightarrow> nmbm_geometry s \<Longrightarrow> region_ok (mgmt_area s) s"
  by (simp add: region_ok_def nmbm_inv_def block_in_area)

text \<open>A logical address lies outside the management area.\<close>

lemma logical_outside:
  assumes "nmbm_inv s" "x < data_block_count (ni s) * 2 ^ blk_shift s" "mgmt_area s a n"
  shows "\<not> (a \<le> bmt_phys (mtk_bmt_nmbm_ops nd crc) s x \<and> bmt_phys (mtk_bmt_nmbm_ops nd crc) s x < a + n)"
proof
  let ?B = "2 ^ blk_shift s :: nat"
  let ?m = "block_mapping (ni s) ! (x div ?B)"
  assume in_range: "a \<le> bmt_phys (mtk_bmt_nmbm_ops nd crc) s x \<and> bmt_phys (mtk_bmt_nmbm_ops nd crc) s x < a + n"
  have d: "x div ?B < data_block_count (ni s)" using assms(2) by (simp add: less_mult_imp_div_less)
  have p: "bmt_phys (mtk_bmt_nmbm_ops nd crc) s x div ?B = nat ?m"
    by (simp add: bmt_phys_def mtk_bmt_nmbm_ops_def nmbm_lookup[OF assms(1) d])
  have "mgmt_start_ba (ni s) \<le> bmt_phys (mtk_bmt_nmbm_ops nd crc) s x div ?B"
    using in_range assms(3) by (simp add: area_def less_eq_div_iff_mult_less_eq)
  moreover have "bmt_phys (mtk_bmt_nmbm_ops nd crc) s x div ?B < mapping_blocks_top_ba (ni s)"
    using in_range assms(3) by (simp add: area_def div_less_iff_less_mult)
  moreover have "0 \<le> ?m \<and> (?m < int (mgmt_start_ba (ni s)) \<or> int (mapping_blocks_top_ba (ni s)) < ?m)"
    using assms(1) d by (simp add: nmbm_inv_def)
  ultimately show False unfolding p by linarith
qed

lemma update_keeps_logical:
  assumes "nmbm_inv s" "nmbm_geometry s" "local_chip nd mem"
    and "x < data_block_count (ni s) * 2 ^ blk_shift s"
  shows "bmt_logical (mtk_bmt_nmbm_ops nd crc) mem (snd (nmbm_update_info_table nd crc s)) x
       = bmt_logical (mtk_bmt_nmbm_ops nd crc) mem s x"
proof -
  let ?t = "snd (nmbm_update_info_table nd crc s)"
  have m: "manages nd (mgmt_area s) s ?t"
    by (rule update_info_table_manages[OF mgmt_region[OF assms(1,2)]])
  have "bmt_phys (mtk_bmt_nmbm_ops nd crc) ?t x = bmt_phys (mtk_bmt_nmbm_ops nd crc) s x"
    by (simp add: bmt_phys_def mtk_bmt_nmbm_ops_def get_mapping_block_index_nmbm_def manages_frame[OF m])
  then show ?thesis
    unfolding bmt_logical_def
    using manages_mem[OF m assms(3) logical_outside[OF assms(1,4)]] by simp
qed

section \<open>Replacing a block\<close>

lemma map_block_top:
  assumes i: "nmbm_inv s" and lt: "mapping_blocks_ba (ni s) < mapping_blocks_top_ba (ni s)"
    and g: "nmbm_get_block_state s (mapping_blocks_top_ba (ni s)) = BLOCK_ST_GOOD"
  shows "nmbm_map_block nd crc lb s =
     (True, upd_ni (\<lambda>n. n\<lparr>block_mapping := (block_mapping n)[lb := int (mapping_blocks_top_ba n)],
                          mapping_blocks_top_ba := mapping_blocks_top_ba n - 1,
                          block_mapping_changed := block_mapping_changed n + 1\<rparr>) s)"
proof -
  have "mapping_blocks_top_ba (ni s) < block_count (ni s)" "mapping_blocks_top_ba (ni s) < 65536"
    using i by (simp_all add: nmbm_inv_def)
  then have "clamp_limit s (to_u32 (int (mapping_blocks_ba (ni s)))) = mapping_blocks_ba (ni s)"
    using lt by (simp add: clamp_limit_def to_u32_of_nat)
  then have "nmbm_block_walk s False (mapping_blocks_top_ba (ni s)) 0 (int (mapping_blocks_ba (ni s)))
      = Some (mapping_blocks_top_ba (ni s))"
    using lt g by (simp add: nmbm_block_walk_def nmbm_block_walk_desc_def to_s32_def, subst walk_desc_loop.simps)
      (simp add: Let_def)
  then show ?thesis using lt by (simp add: nmbm_map_block_def)
qed

lemma map_block_inv:
  assumes i: "nmbm_inv s" and lt: "mapping_blocks_ba (ni s) < mapping_blocks_top_ba (ni s)"
    and lb: "lb < data_block_count (ni s)"
  shows "nmbm_inv (upd_ni (\<lambda>n. n\<lparr>block_mapping := (block_mapping n)[lb := int (mapping_blocks_top_ba n)],
                          mapping_blocks_top_ba := mapping_blocks_top_ba n - 1,
                          block_mapping_changed := block_mapping_changed n + 1\<rparr>) s)"
proof -
  let ?m = "block_mapping (ni s)" and ?t = "mapping_blocks_top_ba (ni s)" and ?n = "data_block_count (ni s)"
  have M: "0 \<le> ?m ! k \<and> ?m ! k < int (total_blks s) \<and> (?m ! k < int (mgmt_start_ba (ni s)) \<or> int ?t < ?m ! k)"
    if "k < ?n" for k using i that by (simp add: nmbm_inv_def)
  have mg: "mgmt_start_ba (ni s) < ?t" using i lt by (simp add: nmbm_inv_def tables_ok_def)
  have len: "?n \<le> length ?m" "?t < total_blks s" using i by (simp_all add: nmbm_inv_def)
  have new: "?m ! k \<noteq> int ?t" if "k < ?n" for k using M[OF that] mg by linarith
  have "0 \<le> ?m[lb := int ?t] ! k \<and> ?m[lb := int ?t] ! k < int (total_blks s) \<and>
      (?m[lb := int ?t] ! k < int (mgmt_start_ba (ni s)) \<or> int (?t - 1) < ?m[lb := int ?t] ! k)"
    if "k < ?n" for k using M[OF that] len mg that by (auto simp: nth_list_update_if)
  moreover have "a = b" if "a < ?n" "b < ?n" "?m[lb := int ?t] ! a = ?m[lb := int ?t] ! b" for a b
    using that new[of a] new[of b] nmbm_inv_inj[OF i that(1,2)]
    by (simp add: nth_list_update_if split: if_splits)
  moreover have "tables_ok ((ni s)\<lparr>block_mapping := ?m[lb := int ?t], mapping_blocks_top_ba := ?t - 1,
      block_mapping_changed := block_mapping_changed (ni s) + 1\<rparr>)"
    using i lt by (auto simp: nmbm_inv_def tables_ok_def)
  moreover have "?t - 1 < total_blks s" using len by simp
  ultimately show ?thesis using i by (simp add: nmbm_inv_def)
qed

lemma nmbm_inv_set_state [simp]: "nmbm_inv (snd (nmbm_set_block_state ba st s)) = nmbm_inv s"
  by (simp add: set_block_state_eq nmbm_inv_def tables_ok_def)

lemma get_set_state:
  "nmbm_get_block_state (snd (nmbm_set_block_state ba st s)) ba' =
     (if ba' = ba \<and> ba < 16 * length (block_state (ni s)) then st AND BLOCK_ST_MASK
      else nmbm_get_block_state s ba')"
  by (simp add: set_block_state_eq nmbm_get_block_state_def get_set_state_raw)

lemma copy_mem:
  assumes "local_chip nd mem" "nmbm_geometry s" "copy_len \<le> 2 ^ blk_shift s"
    and "\<not> (dest * 2 ^ blk_shift s \<le> x \<and> x < dest * 2 ^ blk_shift s + 2 ^ blk_shift s)"
  shows "mem (dev (snd (bbt_nand_copy nd dest src copy_len s))) x = mem (dev s) x"
  unfolding bbt_nand_copy_def Let_def
  by (rule copy_loop_mem[where B = "2 ^ blk_shift s"]) (use assms in \<open>simp_all add: nmbm_geometry_def\<close>)

text \<open>
  The state after the erasure and the copy of \<^verbatim>\<open>remap_block_nmbm\<close>, before the tables are
  stored again.
\<close>

definition replaced :: "'d nand_ops \<Rightarrow> nat \<Rightarrow> nat \<Rightarrow> int \<Rightarrow> 'd bmt_st \<Rightarrow> 'd bmt_st" where
  "replaced nd dest src copy_len s =
     (if copy_len > 0 then snd (bbt_nand_copy nd dest src copy_len (snd (bbt_nand_erase nd dest s)))
      else snd (bbt_nand_erase nd dest s))"

lemma replace_step:
  assumes i: "nmbm_inv s" and g: "nmbm_geometry s" and chip: "local_chip nd mem"
    and c: "copy_len \<le> 2 ^ blk_shift s"
  shows "nmbm_inv (replaced nd dest src copy_len s)" "nmbm_geometry (replaced nd dest src copy_len s)"
    "ni (replaced nd dest src copy_len s) = ni s" "blk_shift (replaced nd dest src copy_len s) = blk_shift s"
    "\<And>x. \<not> (dest * 2 ^ blk_shift s \<le> x \<and> x < dest * 2 ^ blk_shift s + 2 ^ blk_shift s) \<Longrightarrow>
       mem (dev (replaced nd dest src copy_len s)) x = mem (dev s) x"
proof -
  have B: "blk_size s = 2 ^ blk_shift s" using g by (simp add: nmbm_geometry_def bmt_geometry_def)
  obtain d where e: "snd (bbt_nand_erase nd dest s) = s\<lparr>dev := d\<rparr>"
    "d = snd (nd_erase nd (dev s) (dest * 2 ^ blk_shift s) (blk_size s))"
    by (auto simp: bbt_nand_erase_def split: prod.splits)
  obtain b d' where co: "snd (bbt_nand_copy nd dest src copy_len (s\<lparr>dev := d\<rparr>)) = s\<lparr>dev := d\<rparr>\<lparr>data_buf := b, dev := d'\<rparr>"
    using bbt_nand_copy_scratch by metis
  have m1: "mem d x = mem (dev s) x"
    if "\<not> (dest * 2 ^ blk_shift s \<le> x \<and> x < dest * 2 ^ blk_shift s + 2 ^ blk_shift s)" for x
    using chip that unfolding local_chip_def e(2) B by blast
  have g': "nmbm_geometry (s\<lparr>dev := d\<rparr>)" "nmbm_geometry (s\<lparr>dev := d\<rparr>\<lparr>data_buf := b, dev := d'\<rparr>)"
    using g by (simp_all add: nmbm_geometry_def bmt_geometry_def)
  have m2: "mem d' x = mem d x"
    if "\<not> (dest * 2 ^ blk_shift s \<le> x \<and> x < dest * 2 ^ blk_shift s + 2 ^ blk_shift s)" for x
    using copy_mem[OF chip g'(1), of copy_len dest x src] c that co by simp
  show "nmbm_inv (replaced nd dest src copy_len s)" "nmbm_geometry (replaced nd dest src copy_len s)"
    "ni (replaced nd dest src copy_len s) = ni s" "blk_shift (replaced nd dest src copy_len s) = blk_shift s"
    using i g' co e by (simp_all add: replaced_def)
  show "mem (dev (replaced nd dest src copy_len s)) x = mem (dev s) x"
    if "\<not> (dest * 2 ^ blk_shift s \<le> x \<and> x < dest * 2 ^ blk_shift s + 2 ^ blk_shift s)" for x
    using m1[OF that] m2[OF that] co e by (simp add: replaced_def)
qed

lemma remap_step:
  fixes s :: "'d bmt_st"
  assumes i: "nmbm_inv s" and g: "nmbm_geometry s" and chip: "local_chip nd mem"
    and b: "block < data_block_count (ni s)" and lt: "mapping_blocks_ba (ni s) < mapping_blocks_top_ba (ni s)"
    and good: "nmbm_get_block_state s (mapping_blocks_top_ba (ni s)) = BLOCK_ST_GOOD"
    and c: "copy_len \<le> 2 ^ blk_shift s" and old: "old = nat (block_mapping (ni s) ! block)"
  obtains t where
    "remap_block_nmbm nd crc block old copy_len s = (True, t)" "nmbm_inv t"
    "block_mapping (ni t) = (block_mapping (ni s))[block := int (mapping_blocks_top_ba (ni s))]"
    "data_block_count (ni t) = data_block_count (ni s)" "blk_shift t = blk_shift s"
    "mapping_blocks_top_ba (ni t) = mapping_blocks_top_ba (ni s) - 1" "goods t \<subseteq> goods s - {old}"
    "\<And>x. x < data_block_count (ni s) * 2 ^ blk_shift s \<Longrightarrow> x div 2 ^ blk_shift s \<noteq> block \<Longrightarrow>
       bmt_logical (mtk_bmt_nmbm_ops nd crc) mem t x = bmt_logical (mtk_bmt_nmbm_ops nd crc) mem s x"
proof -
  let ?B = "2 ^ blk_shift s :: nat" and ?top = "mapping_blocks_top_ba (ni s)"
  let ?ops = "mtk_bmt_nmbm_ops nd crc"
  define s1 where "s1 = snd (nmbm_set_block_state old BLOCK_ST_BAD s)"
  define s2 where "s2 = upd_ni (\<lambda>n. n\<lparr>block_mapping := (block_mapping n)[block := int (mapping_blocks_top_ba n)],
                          mapping_blocks_top_ba := mapping_blocks_top_ba n - 1,
                          block_mapping_changed := block_mapping_changed n + 1\<rparr>) s1"
  have top: "?top < 65536" "mgmt_start_ba (ni s) < ?top" "?top < total_blks s"
    using i lt by (auto simp: nmbm_inv_def tables_ok_def)
  have other: "block_mapping (ni s) ! k \<noteq> int ?top" if "k < data_block_count (ni s)" for k
  proof -
    have "block_mapping (ni s) ! k < int (mgmt_start_ba (ni s)) \<or> int ?top < block_mapping (ni s) ! k"
      using i that by (simp add: nmbm_inv_def)
    then show ?thesis using top(2) by linarith
  qed
  have n1: "ni s1 = (ni s)\<lparr>block_state := block_state (ni s1), block_state_changed := block_state_changed (ni s1)\<rparr>"
    "blk_shift s1 = blk_shift s" "dev s1 = dev s" "total_blks s1 = total_blks s"
    by (simp_all add: s1_def set_block_state_eq)
  have f1: "block_mapping (ni s1) = block_mapping (ni s)" "mapping_blocks_top_ba (ni s1) = ?top"
    "mapping_blocks_ba (ni s1) = mapping_blocks_ba (ni s)" "data_block_count (ni s1) = data_block_count (ni s)"
    by (subst n1(1), simp)+
  have i1: "nmbm_inv s1" using i by (simp add: s1_def)
  have "old \<noteq> ?top" using other[OF b] old nmbm_inv_mapping[OF i b] by auto
  then have good1: "nmbm_get_block_state s1 (mapping_blocks_top_ba (ni s1)) = BLOCK_ST_GOOD"
    using good by (simp add: s1_def get_set_state f1(2)[unfolded s1_def])
  have mb: "nmbm_map_block nd crc block s1 = (True, s2)"
    unfolding s2_def using i1 lt good1 by (intro map_block_top) (simp_all add: f1)
  have i2: "nmbm_inv s2" unfolding s2_def using i1 lt b by (intro map_block_inv) (simp_all add: f1)
  have f2: "block_mapping (ni s2) = (block_mapping (ni s))[block := int ?top]"
    "data_block_count (ni s2) = data_block_count (ni s)" "mapping_blocks_top_ba (ni s2) = ?top - 1"
    "blk_shift s2 = blk_shift s" "dev s2 = dev s" "goods s2 = goods s - {old}"
    by (simp_all add: s2_def f1 n1(2-) goods_upd) (simp add: s1_def)
  have g2: "nmbm_geometry s2"
    using g by (simp add: s2_def s1_def nmbm_geometry_def bmt_geometry_def set_block_state_eq)
  have len: "block < length (block_mapping (ni s))" using i b by (simp add: nmbm_inv_def)
  have new: "to_u16 (block_mapping (ni s2) ! block) = ?top"
    using top(1) len by (simp add: f2(1) to_u16_of_nat)
  have c2: "copy_len \<le> 2 ^ blk_shift s2" using c f2(4) by simp
  define s4 where "s4 = replaced nd ?top old copy_len s2"
  note s4 = s4_def replace_step(1-4)[OF i2 g2 chip c2, of ?top old, folded s4_def]
  note mem4 = replace_step(5)[OF i2 g2 chip c2, of ?top _ old, folded s4_def]
  let ?t = "snd (nmbm_update_info_table nd crc s4)"
  have m: "manages nd (mgmt_area s4) s4 ?t"
    by (rule update_info_table_manages[OF mgmt_region[OF s4(2,3)]])
  have ret: "remap_block_nmbm nd crc block old copy_len s = (True, ?t)"
    using b by (simp add: remap_block_nmbm_def Let_def s1_def[symmetric] mb new s4_def replaced_def)
  have keep: "bmt_logical ?ops mem ?t x = bmt_logical ?ops mem s x"
    if x: "x < data_block_count (ni s) * ?B" "x div ?B \<noteq> block" for x
  proof -
    have d: "x div ?B < data_block_count (ni s)" using x(1) by (simp add: less_mult_imp_div_less)
    have p: "bmt_phys ?ops s4 x = bmt_phys ?ops s x"
      using x(2) d nmbm_lookup[OF s4(2), of "x div ?B"]
      by (simp add: bmt_phys_def mtk_bmt_nmbm_ops_def nmbm_lookup[OF i d] s4(4,5) f2(1,2,4))
    have "bmt_phys ?ops s x div ?B = nat (block_mapping (ni s) ! (x div ?B))"
      by (simp add: bmt_phys_def mtk_bmt_nmbm_ops_def nmbm_lookup[OF i d])
    then have "\<not> (?top * ?B \<le> bmt_phys ?ops s x \<and> bmt_phys ?ops s x < ?top * ?B + ?B)"
      using in_block_iff[of ?B ?top "bmt_phys ?ops s x"] other[OF d] nmbm_inv_mapping[OF i d] by auto
    then have "bmt_logical ?ops mem s4 x = bmt_logical ?ops mem s x"
      unfolding bmt_logical_def p using mem4[of "bmt_phys ?ops s x"] by (simp add: f2(4,5))
    moreover have "bmt_logical ?ops mem ?t x = bmt_logical ?ops mem s4 x"
      using x(1) by (intro update_keeps_logical[OF s4(2,3) chip]) (simp add: s4(4,5) f2)
    ultimately show ?thesis by simp
  qed
  have bs: "goods s4 = goods s2" by (rule goods_same) (simp add: s4(4))
  show ?thesis
  proof (rule that[OF ret nmbm_inv_manages[OF m s4(2)]])
    show "goods ?t \<subseteq> goods s - {old}" using manages_goods[OF m] bs f2(6) by simp
  qed (simp_all add: manages_frame[OF m] s4(4,5) f2 keep)
qed

section \<open>The stored table is accepted and read back\<close>

lemma le32_u32_of4: "le32 (u32_of4 a b c d) = [a, b, c, d]"
proof -
  have "ucast (u32_of4 a b c d) = a"
    by (rule bit_word_eqI) (auto simp: u32_of4_def bit_simps dest: bit_imp_le_length)
  moreover have "ucast (drop_bit 8 (u32_of4 a b c d)) = b"
    by (rule bit_word_eqI) (auto simp: u32_of4_def bit_simps dest: bit_imp_le_length)
  moreover have "ucast (drop_bit 16 (u32_of4 a b c d)) = c"
    by (rule bit_word_eqI) (auto simp: u32_of4_def bit_simps dest: bit_imp_le_length)
  moreover have "ucast (drop_bit 24 (u32_of4 a b c d)) = d"
    by (rule bit_word_eqI) (auto simp: u32_of4_def bit_simps dest: bit_imp_le_length)
  ultimately show ?thesis by (simp add: le32_def)
qed

lemma le32_u32_at: "i + 4 \<le> length b \<Longrightarrow> le32 (u32_at b i) = take 4 (drop i b)"
proof -
  assume l: "i + 4 \<le> length b"
  have "take 4 (drop i b) = [b ! i, b ! (i + 1), b ! (i + 2), b ! (i + 3)]"
    using l by (intro nth_equalityI) (auto simp: less_Suc_eq numeral_eq_Suc)
  then show ?thesis using l by (simp add: u32_at_def le32_u32_of4 byte_at_def)
qed

lemma byte_at_drop: "byte_at (drop n b) i = byte_at b (n + i)"
  by (auto simp: byte_at_def)

lemma u32_at_drop: "u32_at (drop n b) i = u32_at b (n + i)"
  by (simp add: u32_at_def byte_at_drop add.assoc)

lemma u32_at_le32: "u32_at (le32 w @ xs) 0 = w"
  using u32_of4_le32[of w] by (simp add: u32_at_def byte_at_def le32_def)

lemma u32_at_skip: "length a = n \<Longrightarrow> u32_at (a @ b) (n + i) = u32_at b i"
  by (auto simp: u32_at_def byte_at_def nth_append)

lemma u32_at_cong: "take 4 (drop i a) = take 4 (drop i b) \<Longrightarrow> i + 4 \<le> length a \<Longrightarrow> i + 4 \<le> length b \<Longrightarrow>
   u32_at a i = u32_at b i"
  using le32_u32_at[of i a] le32_u32_at[of i b] u32_at_le32[of "u32_at a i" "[]"] u32_at_le32[of "u32_at b i" "[]"]
  by metis

lemma state_of_bytes: "state_of (length ws) (state_bytes ws @ xs) = ws"
proof (induction ws)
  case (Cons w ws)
  have "[0..<length (w # ws)] = 0 # map Suc [0..<length ws]" by (simp add: upt_conv_Cons map_Suc_upt del: upt_Suc)
  moreover have "u32_at (state_bytes (w # ws) @ xs) (4 * Suc i) = u32_at (state_bytes ws @ xs) (4 * i)" for i
    using u32_at_skip[of "le32 w" 4 "state_bytes ws @ xs" "4 * i"] by (simp add: state_bytes_def)
  ultimately show ?case
    using Cons.IH u32_at_le32[of w "state_bytes ws @ xs"]
    by (simp add: state_of_def state_bytes_def o_def del: upt_Suc)
qed (simp add: state_of_def)

lemma mapping_of_state: "mapping_of n bs = map sint (state_of n bs)"
  by (simp add: mapping_of_def state_of_def)

lemma mapping_of_bytes:
  assumes "\<forall>m \<in> set ms. - 2147483648 \<le> m \<and> m < 2147483648"
  shows "mapping_of (length ms) (mapping_bytes ms @ xs) = ms"
proof -
  have "mapping_bytes ms = state_bytes (map word_of_int ms)"
    by (simp add: mapping_bytes_def state_bytes_def o_def)
  then have "mapping_of (length ms) (mapping_bytes ms @ xs) = map (\<lambda>m. sint (word_of_int m :: u32)) ms"
    using state_of_bytes[of "map word_of_int ms" xs] by (simp add: mapping_of_state o_def)
  also have "\<dots> = ms"
    using assms by (intro map_idI) (auto simp: int_word_sint)
  finally show ?thesis .
qed

text \<open>
  The layout that \<^verbatim>\<open>nmbm_init_structure\<close> computes: the header, the state table and the mapping
  table one behind the other.
\<close>

definition nmbm_layout :: "nmbm_instance \<Rightarrow> bool" where
  "nmbm_layout n \<longleftrightarrow>
     32 \<le> unat (it_state_table_off (info_table n)) \<and>
     unat (it_state_table_off (info_table n)) + state_table_size n \<le> unat (it_mapping_table_off (info_table n)) \<and>
     unat (it_mapping_table_off (info_table n)) + mapping_table_size n \<le> info_table_size n \<and>
     info_table_size n < 4294967296 \<and>
     state_table_size n = 4 * length (block_state n) \<and>
     mapping_table_size n = 4 * length (block_mapping n) \<and>
     (\<forall>m \<in> set (block_mapping n). - 2147483648 \<le> m \<and> m < 2147483648)"

text \<open>A checksum that can be computed piece by piece.\<close>

definition crc_incremental :: "crc_fn \<Rightarrow> bool" where
  "crc_incremental crc \<longleftrightarrow> (\<forall>v a b. crc (crc v a) b = crc v (a @ b))"

lemma nmbm_crc32_short:
  assumes "buf \<noteq> []" "length buf < 4294967296" shows "nmbm_crc32 crc v buf = crc v buf"
proof -
  have "nmbm_crc32 crc v buf = nmbm_crc32 crc (crc v buf) []"
    using assms by (subst nmbm_crc32.simps) simp
  also have "\<dots> = crc v buf" by (subst nmbm_crc32.simps) simp
  finally show ?thesis .
qed

lemma length_state_bytes [simp]: "length (state_bytes ws) = 4 * length ws"
  by (induction ws) (simp_all add: state_bytes_def)

lemma length_mapping_bytes [simp]: "length (mapping_bytes ms) = 4 * length ms"
  by (induction ms) (simp_all add: mapping_bytes_def)

lemma length_header_bytes [simp]:
  "length (nmbm_header_bytes h) = 16" "length (nmbm_info_table_header_bytes t) = 32"
  by (simp_all add: nmbm_header_bytes_def nmbm_info_table_header_bytes_def)

lemma store_at_0: "length bs \<le> length buf \<Longrightarrow> store_at buf 0 bs = bs @ drop (length bs) buf"
  by (simp add: store_at_def)

lemma drop_store_at: "i + length bs \<le> n \<Longrightarrow> n \<le> length buf \<Longrightarrow> drop n (store_at buf i bs) = drop n buf"
  by (simp add: store_at_def)

lemma drop_store_at_here: "i + length bs \<le> length buf \<Longrightarrow> drop i (store_at buf i bs) = bs @ drop (i + length bs) buf"
  by (simp add: store_at_def)

lemma header_of_cong:
  assumes "16 \<le> length a" "16 \<le> length b" "take 12 a = take 12 b"
  shows "nmbm_header_of a = (nmbm_header_of b)\<lparr>nh_checksum := u32_at a 12\<rparr>"
proof -
  have "u32_at a i = u32_at b i" if "i + 4 \<le> 12" for i
  proof (rule u32_at_cong)
    have "take 4 (drop i a) = take 4 (drop i (take 12 a))" "take 4 (drop i b) = take 4 (drop i (take 12 b))"
      using that by (simp_all add: drop_take min_def)
    then show "take 4 (drop i a) = take 4 (drop i b)" using assms(3) by simp
  qed (use that assms in simp_all)
  then show ?thesis by (simp add: nmbm_header_of_def)
qed

lemma header_bytes_of: "16 \<le> length a \<Longrightarrow> nmbm_header_bytes (nmbm_header_of a) = take 16 a"
proof -
  assume l: "16 \<le> length a"
  have "take 16 a = take 4 a @ take 4 (drop 4 a) @ take 4 (drop 8 a) @ take 4 (drop 12 a)"
    by (metis (no_types, opaque_lifting) add_numeral_left append_assoc numeral_plus_numeral take_add
        semiring_norm(2) semiring_norm(6) semiring_norm(3))
  then show ?thesis
    using l le32_u32_at[of 0 a] le32_u32_at[of 4 a] le32_u32_at[of 8 a] le32_u32_at[of 12 a]
    by (simp add: nmbm_header_bytes_def nmbm_header_of_def)
qed

lemma update_checksum_shape:
  assumes "16 \<le> length buf" "unat (nh_size (nmbm_header_of buf)) = length buf"
  shows "nmbm_update_checksum crc buf =
     take 12 buf @ le32 (nmbm_crc32 crc 0 (take 12 buf @ le32 0 @ drop 16 buf)) @ drop 16 buf"
  using assms by (simp add: nmbm_update_checksum_def Let_def store_at_def min_absorb2)

lemma checksum_accepted:
  assumes crc: "crc_incremental crc" and l: "16 \<le> length buf" "length buf < 4294967296"
    and sz: "unat (nh_size (nmbm_header_of buf)) = length buf"
  shows "nmbm_check_header crc (nmbm_update_checksum crc buf) (length buf)"
proof -
  let ?z = "take 12 buf @ le32 0" and ?c = "nmbm_crc32 crc 0 (take 12 buf @ le32 0 @ drop 16 buf)"
  define b where "b = nmbm_update_checksum crc buf"
  have b: "b = take 12 buf @ le32 ?c @ drop 16 buf"
    unfolding b_def by (rule update_checksum_shape[OF l(1) sz])
  have lb: "length b = length buf" "take 12 b = take 12 buf" "drop 16 b = drop 16 buf"
    using l(1) by (simp_all add: b min_absorb2)
  have sum: "u32_at b 12 = ?c"
    using u32_at_skip[of "take 12 buf" 12 "le32 ?c @ drop 16 buf" 0] u32_at_le32[of ?c "drop 16 buf"] l(1)
    by (simp add: b)
  have h: "nmbm_header_of b = (nmbm_header_of buf)\<lparr>nh_checksum := ?c\<rparr>"
    using header_of_cong[of b buf] l(1) by (simp add: lb sum)
  have z: "nmbm_header_bytes ((nmbm_header_of b)\<lparr>nh_checksum := 0\<rparr>) = ?z"
  proof -
    have "nmbm_header_of ?z = (nmbm_header_of buf)\<lparr>nh_checksum := 0\<rparr>"
      using header_of_cong[of ?z buf] u32_at_skip[of "take 12 buf" 12 "le32 0" 0] u32_at_le32[of 0 "[]"] l(1)
      by simp
    then show ?thesis using header_bytes_of[of ?z] l(1) by (simp add: h)
  qed
  have c1: "nmbm_crc32 crc 0 ?z = crc 0 ?z" using l(1) by (intro nmbm_crc32_short) auto
  have call: "?c = crc 0 (?z @ drop 16 buf)"
    using l by (subst nmbm_crc32_short) (auto simp: le32_def)
  show ?thesis
  proof (cases "length buf = 16")
    case True
    then show ?thesis
      using call c1 by (simp add: nmbm_check_header_def Let_def b_def[symmetric] z) (simp add: h sz)
  next
    case False
    then have "nmbm_crc32 crc (crc 0 ?z) (drop 16 buf) = crc (crc 0 ?z) (drop 16 buf)"
      using l by (intro nmbm_crc32_short) auto
    also have "\<dots> = ?c" using crc call by (simp add: crc_incremental_def)
    finally show ?thesis
      using c1 l False by (simp add: nmbm_check_header_def Let_def b_def[symmetric] z) (simp add: h sz lb)
  qed
qed

lemma u32_at_le32_skip: "4 \<le> i \<Longrightarrow> u32_at (le32 w @ xs) i = u32_at xs (i - 4)"
  using u32_at_skip[of "le32 w" 4 xs "i - 4"] by simp

lemma header_of_info_bytes:
  "nmbm_info_table_header_of (nmbm_info_table_header_bytes t @ xs) = t"
  by (cases t, cases "it_header t")
    (simp add: nmbm_info_table_header_of_def nmbm_header_of_def nmbm_info_table_header_bytes_def
      nmbm_header_bytes_def u32_at_le32 u32_at_le32_skip)

lemma info_header_cong:
  assumes "32 \<le> length a" "32 \<le> length b" "take 12 a = take 12 b" "drop 16 a = drop 16 b"
  shows "nmbm_info_table_header_of a =
     (nmbm_info_table_header_of b)\<lparr>it_header := (it_header (nmbm_info_table_header_of b))\<lparr>nh_checksum := u32_at a 12\<rparr>\<rparr>"
proof -
  have "u32_at a (16 + i) = u32_at b (16 + i)" for i
    using assms(4) u32_at_drop[of 16 a i] u32_at_drop[of 16 b i] by simp
  from this[of 0] this[of 4] this[of 8] this[of 12] show ?thesis
    using header_of_cong[of a b] assms by (simp add: nmbm_info_table_header_of_def)
qed

text \<open>The buffer before its checksum is stored: a header and the two tables.\<close>

definition table_buffer :: "nmbm_instance \<Rightarrow> nmbm_info_table_header \<Rightarrow> bytes" where
  "table_buffer n t =
     store_at (store_at (store_at (replicate (info_table_size n) (- 1))
       (unat (it_state_table_off (info_table n))) (state_bytes (block_state n)))
       (unat (it_mapping_table_off (info_table n))) (mapping_bytes (block_mapping n)))
       0 (nmbm_info_table_header_bytes t)"

lemma table_buffer_parts:
  assumes "nmbm_layout n"
  shows "length (table_buffer n t) = info_table_size n"
    and "nmbm_info_table_header_of (table_buffer n t) = t"
    and "\<exists>xs. drop (unat (it_state_table_off (info_table n))) (table_buffer n t) = state_bytes (block_state n) @ xs"
    and "\<exists>xs. drop (unat (it_mapping_table_off (info_table n))) (table_buffer n t)
           = mapping_bytes (block_mapping n) @ xs"
proof -
  define so where "so = unat (it_state_table_off (info_table n))"
  define mo where "mo = unat (it_mapping_table_off (info_table n))"
  define sz where "sz = info_table_size n"
  define sb where "sb = state_bytes (block_state n)"
  define mb where "mb = mapping_bytes (block_mapping n)"
  have L: "32 \<le> so" "so + length sb \<le> mo" "mo + length mb \<le> sz"
    using assms by (simp_all add: nmbm_layout_def so_def mo_def sz_def sb_def mb_def)
  let ?c1 = "store_at (replicate sz (- 1)) so sb"
  let ?c2 = "store_at ?c1 mo mb"
  have l: "length ?c1 = sz" "length ?c2 = sz" using L by simp_all
  have b: "table_buffer n t = nmbm_info_table_header_bytes t @ drop 32 ?c2"
    using L l store_at_0[of "nmbm_info_table_header_bytes t" ?c2]
    by (simp add: table_buffer_def so_def mo_def sz_def sb_def mb_def)
  show "length (table_buffer n t) = info_table_size n" using L l by (simp add: b sz_def)
  show "nmbm_info_table_header_of (table_buffer n t) = t" by (simp add: b header_of_info_bytes)
  have d: "drop k (table_buffer n t) = drop k ?c2" if "32 \<le> k" for k using that by (simp add: b)
  show "\<exists>xs. drop mo (table_buffer n t) = mb @ xs" using L l by (simp add: d drop_store_at_here)
  have "drop so ?c2 = take (mo - so) (drop so ?c1) @ mb @ drop (mo + length mb) ?c1"
    using L l by (simp add: store_at_def[of ?c1] drop_take)
  moreover have "drop so ?c1 = sb @ drop (so + length sb) (replicate sz (- 1))"
    using L by (simp add: drop_store_at_here)
  ultimately show "\<exists>xs. drop so (table_buffer n t) = sb @ xs" using L by (simp add: d)
qed

lemma generate_cache_eq:
  assumes "nmbm_generate_info_table_cache crc s = (c, t)"
  shows "info_table_cache (ni t) = nmbm_update_checksum crc (table_buffer (ni s) (info_table (ni t)))"
    "info_table_size (ni t) = info_table_size (ni s)" "state_table_size (ni t) = state_table_size (ni s)"
    "mapping_table_size (ni t) = mapping_table_size (ni s)"
    "nh_magic (it_header (info_table (ni t))) = NMBM_MAGIC_INFO_TABLE"
    "nh_size (it_header (info_table (ni t))) = of_nat (info_table_size (ni s))"
    "it_state_table_off (info_table (ni t)) = it_state_table_off (info_table (ni s))"
    "it_mapping_table_off (info_table (ni t)) = it_mapping_table_off (info_table (ni s))"
  using assms unfolding nmbm_generate_info_table_cache_def Let_def table_buffer_def
  by (auto split: if_splits)

text \<open>The checksum changes four bytes of the header and nothing else.\<close>

lemma stored_image:
  fixes crc :: crc_fn
  assumes "32 \<le> length buf" "unat (nh_size (nmbm_header_of buf)) = length buf"
  defines "b \<equiv> nmbm_update_checksum crc buf"
  shows "nmbm_info_table_header_of b = (nmbm_info_table_header_of buf)
           \<lparr>it_header := (it_header (nmbm_info_table_header_of buf))\<lparr>nh_checksum := u32_at b 12\<rparr>\<rparr>"
    and "32 \<le> k \<Longrightarrow> drop k b = drop k buf"
proof -
  have lb: "length b = length buf" "take 12 b = take 12 buf" "drop 16 b = drop 16 buf"
    using update_checksum_shape[of buf crc] assms(1,2) by (simp_all add: b_def min_absorb2)
  show "nmbm_info_table_header_of b = (nmbm_info_table_header_of buf)
           \<lparr>it_header := (it_header (nmbm_info_table_header_of buf))\<lparr>nh_checksum := u32_at b 12\<rparr>\<rparr>"
    using info_header_cong[of b buf] lb assms(1) by simp
  show "drop k b = drop k buf" if "32 \<le> k"
  proof -
    have "drop k b = drop (k - 16) (drop 16 b)" "drop k buf = drop (k - 16) (drop 16 buf)"
      using that by simp_all
    then show ?thesis using lb(3) by simp
  qed
qed

lemma info_table_image:
  assumes crc: "crc_incremental crc" and lay: "nmbm_layout (ni s)"
    and gen: "nmbm_generate_info_table_cache crc s = (c, t)"
  defines "b \<equiv> info_table_cache (ni t)"
  shows "nmbm_check_header crc b (info_table_size (ni t))"
    and "nmbm_check_info_table_header t b"
    and "it_write_count (nmbm_info_table_header_of b) = it_write_count (info_table (ni t))"
    and "state_of (state_table_size (ni t) div 4)
           (drop (unat (it_state_table_off (nmbm_info_table_header_of b))) b) = block_state (ni s)"
    and "mapping_of (mapping_table_size (ni t) div 4)
           (drop (unat (it_mapping_table_off (nmbm_info_table_header_of b))) b) = block_mapping (ni s)"
proof -
  let ?n = "ni s" and ?h = "info_table (ni t)"
  let ?so = "unat (it_state_table_off (info_table ?n))" and ?mo = "unat (it_mapping_table_off (info_table ?n))"
  let ?buf = "table_buffer ?n ?h"
  note t = generate_cache_eq[OF gen] and P = table_buffer_parts[OF lay, of ?h]
  have L: "32 \<le> ?so" "?so + 4 * length (block_state ?n) \<le> ?mo"
    "?mo + 4 * length (block_mapping ?n) \<le> info_table_size ?n" "info_table_size ?n < 4294967296"
    "state_table_size ?n = 4 * length (block_state ?n)" "mapping_table_size ?n = 4 * length (block_mapping ?n)"
    using lay by (simp_all add: nmbm_layout_def)
  have usz: "unat (of_nat (info_table_size ?n) :: u32) = info_table_size ?n"
    using L(4) by (simp add: unat_of_nat)
  have "nmbm_header_of ?buf = it_header ?h" using arg_cong[OF P(2), of it_header] by (simp add: nmbm_info_table_header_of_def)
  then have u: "unat (nh_size (nmbm_header_of ?buf)) = length ?buf" by (simp add: t(6) usz P(1))
  have l: "32 \<le> length ?buf" using L P(1) by simp
  note I = stored_image[OF l u, where crc = crc, folded t(1), folded b_def, unfolded P(2)]
  show "nmbm_check_header crc b (info_table_size (ni t))"
    using checksum_accepted[OF crc _ _ u] L(4) l by (simp add: b_def t(1,2) P(1))
  show "it_write_count (nmbm_info_table_header_of b) = it_write_count ?h" by (simp add: I(1))
  obtain xs ys where d: "drop ?so ?buf = state_bytes (block_state ?n) @ xs"
    "drop ?mo ?buf = mapping_bytes (block_mapping ?n) @ ys"
    using P(3,4) by blast
  show "state_of (state_table_size (ni t) div 4)
           (drop (unat (it_state_table_off (nmbm_info_table_header_of b))) b) = block_state ?n"
    using L by (simp add: I t(3,7) d state_of_bytes)
  show "mapping_of (mapping_table_size (ni t) div 4)
           (drop (unat (it_mapping_table_off (nmbm_info_table_header_of b))) b) = block_mapping ?n"
    using L lay mapping_of_bytes[of "block_mapping ?n"] by (simp add: I t(4,8) d nmbm_layout_def)
  have "unat (it_mapping_table_off (info_table ?n) - it_state_table_off (info_table ?n)) = ?mo - ?so"
    "unat (of_nat (info_table_size ?n) - it_mapping_table_off (info_table ?n)) = info_table_size ?n - ?mo"
    using L by (simp_all add: unat_sub word_le_nat_alt usz)
  then show "nmbm_check_info_table_header t b"
    unfolding nmbm_check_info_table_header_def Let_def
    using L by (auto simp: I(1) t(2-8) usz)
qed

section \<open>The first mapping table\<close>

lemma store_at_Cons:
  "lb + Suc (length xs) \<le> length m \<Longrightarrow> store_at m lb (x # xs) = store_at (m[lb := x]) (Suc lb) xs"
  by (rule nth_equalityI) (auto simp: nth_store_at nth_list_update_if nth_Cons')

lemma build_mapping_loop_eq:
  assumes "lb + length (filter (\<lambda>pb. nmbm_get_block_state s pb \<noteq> BLOCK_ST_BAD) pbs) \<le> length m"
  shows "build_mapping_loop s pbs lb m =
     (lb + length (filter (\<lambda>pb. nmbm_get_block_state s pb \<noteq> BLOCK_ST_BAD) pbs),
      store_at m lb (map int (filter (\<lambda>pb. nmbm_get_block_state s pb \<noteq> BLOCK_ST_BAD) pbs)))"
  using assms
proof (induction pbs arbitrary: lb m)
  case (Cons pb pbs)
  then show ?case by (auto simp: store_at_Cons)
qed (simp add: store_at_def)

lemma fold_unmap:
  "a \<le> length m \<Longrightarrow> fold (\<lambda>pb m. m[pb := v]) [a..<length m] m = take a m @ replicate (length m - a) v"
proof (induction "length m - a" arbitrary: a m)
  case (Suc k)
  then have "fold (\<lambda>pb m. m[pb := v]) [a..<length m] m = fold (\<lambda>pb m. m[pb := v]) [Suc a..<length (m[a := v])] (m[a := v])"
    by (simp add: upt_conv_Cons)
  also have "\<dots> = take (Suc a) (m[a := v]) @ replicate (length m - Suc a) v"
    using Suc.hyps(1)[of "m[a := v]" "Suc a"] Suc.hyps(2) by simp
  also have "\<dots> = take a m @ replicate (length m - a) v"
    using Suc.hyps(2) by (simp add: take_Suc_conv_app_nth Suc_diff_Suc[symmetric])
  finally show ?case .
qed simp

section \<open>Concrete instances\<close>

lemma crc32_ref_incremental: "crc_incremental crc32_ref"
  by (simp add: crc_incremental_def crc32_ref_def)

text \<open>Eight blocks: four of data, a table in block 4, two replacement blocks, the signature.\<close>

definition nmbm_small :: "u32 list \<Rightarrow> (nat \<Rightarrow> u8) bmt_st" where
  "nmbm_small states = (small_st [] None [])
     \<lparr>ni := zero_instance
        \<lparr>info_table := (info_table zero_instance)\<lparr>it_state_table_off := 32, it_mapping_table_off := 36\<rparr>,
         info_table_cache := [0], info_table_size := 68, block_state := states, state_table_size := 4,
         block_mapping := [0, 1, 2, 3, - 1, - 1, - 1, - 1], mapping_table_size := 32, block_count := 8,
         data_block_count := 4, mgmt_start_ba := 4, main_table_ba := 4, mapping_blocks_ba := 4,
         mapping_blocks_top_ba := 6, signature_ba := 7\<rparr>\<rparr>"

lemma less_4: "(k::nat) < 4 \<longleftrightarrow> k = 0 \<or> k = 1 \<or> k = 2 \<or> k = 3"
  by auto

lemma nmbm_small_inv: "nmbm_inv (nmbm_small states)"
  by (auto simp: nmbm_inv_def nmbm_small_def tables_ok_def zero_instance_def less_4)

lemma nmbm_small_geometry: "nmbm_geometry (nmbm_small states)"
  by (simp add: nmbm_geometry_def bmt_geometry_def nmbm_small_def small_st_def)

lemma nmbm_small_good: "nmbm_get_block_state (nmbm_small [0xffffffff]) 6 = BLOCK_ST_GOOD"
  by (simp add: nmbm_get_block_state_def nmbm_get_block_state_raw_def nmbm_small_def Let_def
      BLOCK_ST_MASK_def BLOCK_ST_GOOD_def)

section \<open>Properties\<close>

text \<open>
  C6. Replacing a block. Whatever the chip does short of changing bytes outside the range of a
  request, when the topmost free replacement block is good, replacing a logical block moves it
  to that block, keeps all logical blocks on distinct physical blocks, and leaves the content
  of every other logical block alone.
\<close>

theorem nmbm_remap_keeps_data:
  assumes "nmbm_inv s" "nmbm_geometry s" "local_chip nd mem" "block < data_block_count (ni s)"
    and "mapping_blocks_ba (ni s) < mapping_blocks_top_ba (ni s)"
    and "nmbm_get_block_state s (mapping_blocks_top_ba (ni s)) = BLOCK_ST_GOOD"
    and "copy_len \<le> 2 ^ blk_shift s"
  shows "\<exists>t. remap_block_nmbm nd crc block (nat (block_mapping (ni s) ! block)) copy_len s = (True, t) \<and>
     nmbm_inv t \<and> block_mapping (ni t) = (block_mapping (ni s))[block := int (mapping_blocks_top_ba (ni s))] \<and>
     (\<forall>x < data_block_count (ni s) * 2 ^ blk_shift s. x div 2 ^ blk_shift s \<noteq> block \<longrightarrow>
        bmt_logical (mtk_bmt_nmbm_ops nd crc) mem t x = bmt_logical (mtk_bmt_nmbm_ops nd crc) mem s x)"
  by (rule remap_step[OF assms refl, of crc]) blast

theorem nmbm_remap_keeps_data_witness:
  "\<exists>t. remap_block_nmbm ram_chip crc32_ref 2 2 4 (nmbm_small [0xffffffff]) = (True, t) \<and> nmbm_inv t \<and>
     block_mapping (ni t) = [0, 1, 6, 3, - 1, - 1, - 1, - 1]"
proof -
  have "\<exists>t. remap_block_nmbm ram_chip crc32_ref 2 (nat (block_mapping (ni (nmbm_small [0xffffffff])) ! 2)) 4
       (nmbm_small [0xffffffff]) = (True, t) \<and> nmbm_inv t \<and>
     block_mapping (ni t) = (block_mapping (ni (nmbm_small [0xffffffff])))[2 := int (mapping_blocks_top_ba (ni (nmbm_small [0xffffffff])))]"
    using nmbm_remap_keeps_data[OF nmbm_small_inv nmbm_small_geometry ram_chip_local, of 2 "[0xffffffff]" 4 crc32_ref]
      nmbm_small_good by (auto simp: nmbm_small_def)
  then show ?thesis by (simp add: nmbm_small_def)
qed

text \<open>
  C7. Storing the tables does not touch data. Whatever the chip does short of changing bytes
  outside the range of a request, updating the stored tables, with all its retries and rescue
  procedures, changes no logical block and keeps the invariant.
\<close>

theorem nmbm_update_keeps_data:
  assumes "nmbm_inv s" "nmbm_geometry s" "local_chip nd mem"
    and "x < data_block_count (ni s) * 2 ^ blk_shift s"
  shows "nmbm_inv (snd (nmbm_update_info_table nd crc s)) \<and>
     bmt_logical (mtk_bmt_nmbm_ops nd crc) mem (snd (nmbm_update_info_table nd crc s)) x
       = bmt_logical (mtk_bmt_nmbm_ops nd crc) mem s x"
  using update_keeps_logical[OF assms] nmbm_inv_manages[OF update_info_table_manages[OF mgmt_region]] assms(1,2)
  by blast

theorem nmbm_update_keeps_data_witness:
  "nmbm_inv (snd (nmbm_update_info_table ram_chip crc32_ref (nmbm_small [0xffffffff])))"
  using nmbm_update_keeps_data[OF nmbm_small_inv nmbm_small_geometry ram_chip_local, of 0 "[0xffffffff]" crc32_ref]
  by (simp add: nmbm_small_def)

text \<open>
  Two logical blocks on one physical block. When the topmost free replacement block is
  bad and the one below is good, two replacements in a row, as they happen for bad blocks at
  the end of the data area of a new chip, give both logical blocks the same physical block.
\<close>

theorem nmbm_replacements_collide:
  assumes "mapping_blocks_ba (ni s) + 1 < mapping_blocks_top_ba (ni s)"
    and "mapping_blocks_top_ba (ni s) < block_count (ni s)" "block_count (ni s) < 65536"
    and "nmbm_get_block_state s (mapping_blocks_top_ba (ni s)) \<noteq> BLOCK_ST_GOOD"
    and "nmbm_get_block_state s (mapping_blocks_top_ba (ni s) - 1) = BLOCK_ST_GOOD"
    and "lb + 1 < length (block_mapping (ni s))"
  shows "block_mapping (ni (remap_tail nd crc 2 lb s)) ! lb = int (mapping_blocks_top_ba (ni s) - 1) \<and>
     block_mapping (ni (remap_tail nd crc 2 lb s)) ! (lb + 1) = int (mapping_blocks_top_ba (ni s) - 1)"
proof -
  let ?top = "mapping_blocks_top_ba (ni s)"
  have walk: "nmbm_block_walk t False a 0 (int (mapping_blocks_ba (ni s))) = Some (?top - 1)"
    if "a = ?top \<or> a = ?top - 1" "block_count (ni t) = block_count (ni s)"
      "block_state (ni t) = block_state (ni s)" for t :: "'a bmt_st" and a
  proof -
    have st: "nmbm_get_block_state t = nmbm_get_block_state s"
      using that(3) by (simp add: nmbm_get_block_state_def fun_eq_iff)
    have lim: "clamp_limit t (to_u32 (int (mapping_blocks_ba (ni s)))) = mapping_blocks_ba (ni s)"
      using assms that(2) by (simp add: clamp_limit_def to_u32_of_nat)
    have low: "walk_desc_loop t (?top - 1) 0 (mapping_blocks_ba (ni s)) = Some (?top - 1)"
      using assms by (subst walk_desc_loop.simps) (simp add: st Let_def)
    have "walk_desc_loop t a 0 (mapping_blocks_ba (ni s)) = Some (?top - 1)"
      using that(1) low assms by (subst walk_desc_loop.simps) (auto simp: st Let_def)
    then show ?thesis by (simp add: nmbm_block_walk_def nmbm_block_walk_desc_def to_s32_def lim)
  qed
  show ?thesis
  proof -
    have ne: "mapping_blocks_ba (ni s) \<noteq> ?top - Suc 0" "mapping_blocks_ba (ni s) \<noteq> ?top"
      using assms(1) by simp_all
    then show ?thesis
      using assms by (simp add: numeral_2_eq_2 nmbm_map_block_def walk Let_def nth_list_update_if)
  qed
qed

theorem nmbm_replacements_collide_witness:
  "block_mapping (ni (remap_tail ram_chip crc32_ref 2 2 (nmbm_small [0xffffcfff]))) ! 2 = 5 \<and>
   block_mapping (ni (remap_tail ram_chip crc32_ref 2 2 (nmbm_small [0xffffcfff]))) ! 3 = 5"
proof -
  have "nmbm_get_block_state (nmbm_small [0xffffcfff]) 6 \<noteq> BLOCK_ST_GOOD"
    "nmbm_get_block_state (nmbm_small [0xffffcfff]) 5 = BLOCK_ST_GOOD"
    by (simp_all add: nmbm_get_block_state_def nmbm_get_block_state_raw_def nmbm_small_def Let_def
      BLOCK_ST_MASK_def BLOCK_ST_GOOD_def)
  then show ?thesis
    using nmbm_replacements_collide[of "nmbm_small [0xffffcfff]" 2 ram_chip crc32_ref]
    by (simp add: nmbm_small_def)
qed

text \<open>
  C9. The stored table is accepted and read back. The image that the code generates passes
  the checks of its checksum and of its header, and the loading code reads from it the write
  count, the state table and the mapping table that were stored.
\<close>

theorem nmbm_info_table_roundtrip:
  assumes "crc_incremental crc" "nmbm_layout (ni s)" "nmbm_generate_info_table_cache crc s = (c, t)"
  shows "nmbm_check_header crc (info_table_cache (ni t)) (info_table_size (ni t)) \<and>
     nmbm_check_info_table_header t (info_table_cache (ni t)) \<and>
     it_write_count (nmbm_info_table_header_of (info_table_cache (ni t))) = it_write_count (info_table (ni t)) \<and>
     state_of (state_table_size (ni t) div 4) (drop (unat (it_state_table_off
       (nmbm_info_table_header_of (info_table_cache (ni t))))) (info_table_cache (ni t))) = block_state (ni s) \<and>
     mapping_of (mapping_table_size (ni t) div 4) (drop (unat (it_mapping_table_off
       (nmbm_info_table_header_of (info_table_cache (ni t))))) (info_table_cache (ni t))) = block_mapping (ni s)"
  using info_table_image[OF assms] by blast

theorem nmbm_info_table_roundtrip_witness:
  "nmbm_check_header crc32_ref
     (info_table_cache (ni (snd (nmbm_generate_info_table_cache crc32_ref (nmbm_small [0xffffcfff]))))) 68"
proof -
  have "nmbm_layout (ni (nmbm_small [0xffffcfff]))"
    by (simp add: nmbm_layout_def nmbm_small_def)
  moreover obtain c t where g: "nmbm_generate_info_table_cache crc32_ref (nmbm_small [0xffffcfff]) = (c, t)"
    by fastforce
  ultimately show ?thesis
    using nmbm_info_table_roundtrip[OF crc32_ref_incremental _ g] generate_cache_eq(2)[OF g]
    by (simp add: nmbm_small_def)
qed

text \<open>
  The first mapping table. The logical blocks of a new chip are the blocks of the data area
  that are not bad, in ascending order, and the rest of the table is \<^verbatim>\<open>-1\<close>.
\<close>

theorem nmbm_mapping_table_good_blocks:
  assumes "mgmt_start_ba (ni s) \<le> block_count (ni s)" "length (block_mapping (ni s)) = block_count (ni s)"
  shows "let good = filter (\<lambda>pb. nmbm_get_block_state s pb \<noteq> BLOCK_ST_BAD) [0..<mgmt_start_ba (ni s)];
             t = nmbm_build_mapping_table s
         in data_block_count (ni t) = length good \<and>
            block_mapping (ni t) = map int good @ replicate (block_count (ni s) - length good) (- 1)"
proof -
  define good where "good = filter (\<lambda>pb. nmbm_get_block_state s pb \<noteq> BLOCK_ST_BAD) [0..<mgmt_start_ba (ni s)]"
  have "length good \<le> mgmt_start_ba (ni s)"
    unfolding good_def by (metis length_filter_le length_upt minus_nat.diff_0)
  then have le: "length good \<le> length (block_mapping (ni s))" using assms by simp
  have b: "build_mapping_loop s [0..<mgmt_start_ba (ni s)] 0 (block_mapping (ni s)) =
      (length good, store_at (block_mapping (ni s)) 0 (map int good))"
    using build_mapping_loop_eq[of 0 s "[0..<mgmt_start_ba (ni s)]" "block_mapping (ni s)"] le
    by (simp add: good_def)
  have "fold (\<lambda>pb m. m[pb := - 1]) [length good..<block_count (ni s)] (store_at (block_mapping (ni s)) 0 (map int good))
      = map int good @ replicate (block_count (ni s) - length good) (- 1)"
    using fold_unmap[of "length good" "store_at (block_mapping (ni s)) 0 (map int good)" "- 1"] le assms(2)
    by (simp add: store_at_def)
  then show ?thesis
    unfolding Let_def good_def[symmetric] by (simp add: nmbm_build_mapping_table_def b)
qed

theorem nmbm_mapping_table_good_blocks_witness:
  "data_block_count (ni (nmbm_build_mapping_table (nmbm_small [0xffffffcf]))) = 3 \<and>
   block_mapping (ni (nmbm_build_mapping_table (nmbm_small [0xffffffcf]))) = [0, 1, 3, - 1, - 1, - 1, - 1, - 1]"
proof -
  have "filter (\<lambda>pb. nmbm_get_block_state (nmbm_small [0xffffffcf]) pb \<noteq> BLOCK_ST_BAD) [0..<4] = [0, 1, 3]"
    by (simp add: upt_conv_Cons nmbm_get_block_state_def nmbm_get_block_state_raw_def nmbm_small_def Let_def
      BLOCK_ST_MASK_def BLOCK_ST_BAD_def)
  then show ?thesis
    using nmbm_mapping_table_good_blocks[of "nmbm_small [0xffffffcf]"]
    by (simp add: nmbm_small_def Let_def numeral_eq_Suc)
qed

end
