(* ===== verification/Nmbm_Store.thy ===== *)
theory Nmbm_Store
  imports Bmt_Nmbm
begin

text \<open>
  The NMBM scheme, third part: on a chip without faults, the update of the stored tables writes
  both copies of the info table, and the loading code reads the current tables from each.
\<close>

section \<open>Storing the table on a chip without faults\<close>

text \<open>
  A chip without faults: it is reliable, and no block of it is reported as bad. On such a chip
  the functions that read, erase and write change, apart from the content, only the page
  buffer.
\<close>

definition faultless_chip :: "'d nand_ops \<Rightarrow> ('d \<Rightarrow> nat \<Rightarrow> u8) \<Rightarrow> bool" where
  "faultless_chip nd mem \<longleftrightarrow> reliable_chip nd mem \<and>
     (\<forall>d a. fst (nd_block_isbad nd d a) = 0 \<and> mem (snd (nd_block_isbad nd d a)) = mem d)"

definition stores :: "('d \<Rightarrow> nat \<Rightarrow> u8) \<Rightarrow> 'd bmt_st \<Rightarrow> (nat \<Rightarrow> u8) \<Rightarrow> 'd bmt_st \<Rightarrow> bool" where
  "stores mem s m t \<longleftrightarrow> (\<exists>d b. t = s\<lparr>dev := d, data_buf := b\<rparr> \<and> mem d = m)"

lemma stores_trans: "stores mem s m t \<Longrightarrow> stores mem t m' u \<Longrightarrow> stores mem s m' u"
  unfolding stores_def by force

lemma stores_frame:
  assumes "stores mem s m t"
  shows "mem (dev t) = m" "ni t = ni s" "pg_size t = pg_size s" "blk_size t = blk_size s"
    "blk_shift t = blk_shift s" "mtd_erasesize t = mtd_erasesize s" "page_offs t = page_offs s"
    "ba2addr t ba = ba2addr s ba" "nmbm_get_block_state t = nmbm_get_block_state s"
  using assms by (auto simp: stores_def page_offs_def ba2addr_def nmbm_get_block_state_def fun_eq_iff)

lemma faultless_read:
  assumes "faultless_chip nd mem"
  shows "\<exists>t. nmbm_read_phys_page nd a buf s = (0, overlay buf (map (mem (dev s)) [a..<a + pg_size s]), t) \<and>
     (\<forall>b. stores mem s (mem (dev s)) (t\<lparr>data_buf := b\<rparr>))"
proof -
  obtain r d where r: "nd_read_oob nd (dev s) a (page_rq s []) = (r, d)" by fastforce
  then show ?thesis
    using reliable_read[OF _ r, of mem] assms
    by (auto simp: nmbm_read_phys_page_def NMBM_TRY_COUNT_def eval_nat_numeral page_rq_def
        faultless_chip_def stores_def)
qed

lemma faultless_write:
  assumes "faultless_chip nd mem" "pg_size s \<le> length dat"
    and "\<And>x. a \<le> x \<Longrightarrow> x < a + pg_size s \<Longrightarrow> mem (dev s) x = - 1"
  shows "\<exists>t. nmbm_write_phys_page nd a dat s = (True, t) \<and> data_buf t = data_buf s \<and>
     stores mem s (\<lambda>x. if a \<le> x \<and> x < a + pg_size s then dat ! (x - a) else mem (dev s) x) t"
proof -
  obtain w d where w: "nd_write_oob nd (dev s) a (page_rq s (take (pg_size s) dat)) = (w, d)" by fastforce
  have e: "(\<lambda>x. if a \<le> x \<and> x < a + pg_size s then take (pg_size s) dat ! (x - a) else mem (dev s) x)
     = (\<lambda>x. if a \<le> x \<and> x < a + pg_size s then dat ! (x - a) else mem (dev s) x)"
    by (auto simp: fun_eq_iff)
  have "wr_ret w = 0 \<and> mem d = (\<lambda>x. if a \<le> x \<and> x < a + pg_size s then dat ! (x - a) else mem (dev s) x)"
    using reliable_write[OF _ w, of mem] assms unfolding e[symmetric]
    by (simp add: faultless_chip_def page_rq_def cong: if_cong)
  then show ?thesis
    using w by (auto simp: nmbm_write_phys_page_def NMBM_TRY_COUNT_def eval_nat_numeral stores_def
        intro!: exI[of _ d] exI[of _ "data_buf s"])
qed

lemma faultless_erase:
  assumes "faultless_chip nd mem"
  shows "\<exists>t. nmbm_erase_phys_block nd a s = (True, t) \<and>
     stores mem s (\<lambda>x. if a \<le> x \<and> x < a + mtd_erasesize s then - 1 else mem (dev s) x) t"
proof -
  obtain e d where e: "nd_erase nd (dev s) a (mtd_erasesize s) = (e, d)" by fastforce
  then show ?thesis
    using reliable_erase[OF _ e, of mem] assms
    by (auto simp: nmbm_erase_phys_block_def NMBM_TRY_COUNT_def eval_nat_numeral faultless_chip_def stores_def
        intro!: exI[of _ d] exI[of _ "data_buf s"])
qed

lemma stores_refl: "stores mem s (mem (dev s)) s"
  by (auto simp: stores_def intro!: exI[of _ "dev s"] exI[of _ "data_buf s"])

lemma faultless_check_empty:
  assumes "faultless_chip nd mem"
  shows "\<exists>t. check_empty_pages nd a offs s = (True, t) \<and> stores mem s (mem (dev s)) t"
proof (induction offs arbitrary: s)
  case Nil
  then show ?case by (simp add: stores_refl)
next
  case (Cons off offs)
  obtain t where t: "nmbm_read_phys_page nd (a + off) (data_buf s) s =
      (0, overlay (data_buf s) (map (mem (dev s)) [a + off..<a + off + pg_size s]), t)"
    "\<And>b. stores mem s (mem (dev s)) (t\<lparr>data_buf := b\<rparr>)"
    using faultless_read[OF assms, of "a + off" "data_buf s" s] by blast
  let ?t = "t\<lparr>data_buf := overlay (data_buf s) (map (mem (dev s)) [a + off..<a + off + pg_size s])\<rparr>"
  obtain u where "check_empty_pages nd a offs ?t = (True, u)" "stores mem ?t (mem (dev ?t)) u"
    using Cons.IH by blast
  then show ?case
    using t(1) stores_trans[OF t(2)] stores_frame(1)[OF t(2)] by auto
qed

lemma faultless_erase_check:
  assumes "faultless_chip nd mem"
  shows "\<exists>t. nmbm_erase_block_and_check nd ba s = (True, t) \<and>
     stores mem s (\<lambda>x. if ba2addr s ba \<le> x \<and> x < ba2addr s ba + mtd_erasesize s then - 1 else mem (dev s) x) t"
proof -
  obtain t where t: "nmbm_erase_phys_block nd (ba2addr s ba) s = (True, t)"
    "stores mem s (\<lambda>x. if ba2addr s ba \<le> x \<and> x < ba2addr s ba + mtd_erasesize s then - 1 else mem (dev s) x) t"
    using faultless_erase[OF assms] by blast
  obtain u where "check_empty_pages nd (ba2addr t ba) (page_offs t) t = (True, u)" "stores mem t (mem (dev t)) u"
    using faultless_check_empty[OF assms] by blast
  then show ?thesis
    using t stores_trans[OF t(2)] stores_frame(1)[OF t(2)] by (auto simp: nmbm_erase_block_and_check_def)
qed

text \<open>The content of a chip after the bytes \<open>dat\<close> were stored at \<open>a\<close>.\<close>

definition put :: "nat \<Rightarrow> bytes \<Rightarrow> (nat \<Rightarrow> u8) \<Rightarrow> nat \<Rightarrow> u8" where
  "put a dat m x = (if a \<le> x \<and> x < a + length dat then dat ! (x - a) else m x)"

lemma put_Nil: "put a [] m = m"
  by (auto simp: put_def fun_eq_iff)

lemma put_append: "put (a + length xs) ys (put a xs m) = put a (xs @ ys) m"
  by (auto simp: put_def fun_eq_iff nth_append)

lemma put_bytes: "map (put a dat m) [a..<a + length dat] = dat"
  by (rule nth_equalityI) (auto simp: put_def)

lemma faultless_write_verify:
  assumes chip: "faultless_chip nd mem" and l: "length dat \<le> pg_size s" "pg_size s \<le> rawpage_size (ni s)"
    and e: "\<And>x. a \<le> x \<Longrightarrow> x < a + pg_size s \<Longrightarrow> mem (dev s) x = - 1"
  shows "\<exists>t. write_verify_page nd a 0 dat s = (True, t) \<and> stores mem s (put a dat (mem (dev s))) t"
proof -
  define pc where "pc = store_at (replicate (rawpage_size (ni s)) (- 1 :: u8)) 0 dat"
  have lpc: "length pc = rawpage_size (ni s)" using l by (simp add: pc_def)
  have pcn: "pc ! i = (if i < length dat then dat ! i else - 1)" if "i < pg_size s" for i
    using that l by (auto simp: pc_def nth_store_at)
  have m: "(\<lambda>x. if a \<le> x \<and> x < a + pg_size s then pc ! (x - a) else mem (dev s) x) = put a dat (mem (dev s))"
  proof (rule ext)
    fix x
    show "(if a \<le> x \<and> x < a + pg_size s then pc ! (x - a) else mem (dev s) x) = put a dat (mem (dev s)) x"
      using pcn[of "x - a"] e[of x] l(1) by (auto simp: put_def)
  qed
  obtain t where t: "nmbm_write_phys_page nd a pc (s\<lparr>data_buf := pc\<rparr>) = (True, t)" "data_buf t = pc"
    "stores mem (s\<lparr>data_buf := pc\<rparr>) (put a dat (mem (dev s))) t"
    using faultless_write[OF chip, of "s\<lparr>data_buf := pc\<rparr>" pc a] lpc l e m by (auto cong: if_cong)
  have st: "stores mem s (put a dat (mem (dev s))) t" using t(3) unfolding stores_def by force
  obtain u where u: "nmbm_read_phys_page nd a (data_buf t) t =
      (0, overlay (data_buf t) (map (mem (dev t)) [a..<a + pg_size t]), u)"
    "\<And>b. stores mem t (mem (dev t)) (u\<lparr>data_buf := b\<rparr>)"
    using faultless_read[OF chip] by blast
  have "take (length dat) (overlay pc (map (mem (dev t)) [a..<a + pg_size t])) = dat"
    using lpc l put_bytes[of a dat "mem (dev s)"]
    by (simp add: overlay_def stores_frame[OF st] take_map min_absorb1 min_absorb2)
  then show ?thesis
    using t(1,2) u stores_trans[OF st u(2)] stores_frame(1)[OF st]
    by (simp add: write_verify_page_def pc_def[symmetric])
qed

lemma faultless_write_data:
  assumes chip: "faultless_chip nd mem" and "0 < pg_size s" "pg_size s \<le> rawpage_size (ni s)"
    and "pg_size s dvd off" "pg_size s dvd hi" "off + length dat \<le> hi"
    and "\<And>x. off \<le> x \<Longrightarrow> x < hi \<Longrightarrow> mem (dev s) x = - 1"
  shows "\<exists>t. nmbn_write_verify_data nd off dat s = (True, t) \<and> stores mem s (put off dat (mem (dev s))) t"
  using assms(2-)
proof (induction dat arbitrary: off s rule: length_induct)
  case (1 dat)
  show ?case
  proof (cases "dat = []")
    case True
    then show ?thesis
      by (simp add: nmbn_write_verify_data.simps put_Nil stores_refl)
  next
    case False
    define n where "n = min (pg_size s) (length dat)"
    have hi: "off + pg_size s \<le> hi"
    proof -
      obtain i j where "off = pg_size s * i" "hi = pg_size s * j" using "1.prems"(3,4) by blast
      moreover have "pg_size s * i < pg_size s * j" using calculation "1.prems"(5) False
        by (metis add_le_same_cancel1 le_zero_eq length_0_conv not_less le_antisym le_add1 le_trans)
      then have "i < j" by simp
      ultimately show ?thesis using mult_le_mono2[of "Suc i" j "pg_size s"] by simp
    qed
    obtain t where t: "write_verify_page nd off 0 (take n dat) s = (True, t)"
      "stores mem s (put off (take n dat) (mem (dev s))) t"
      using faultless_write_verify[OF chip, of "take n dat" s off] "1.prems"(2,6) hi by (auto simp: n_def)
    have "\<exists>u. nmbn_write_verify_data nd (off + n) (drop n dat) t = (True, u) \<and>
       stores mem t (put (off + n) (drop n dat) (mem (dev t))) u"
    proof (cases "length dat \<le> pg_size s")
      case True
      then show ?thesis by (simp add: n_def nmbn_write_verify_data.simps put_Nil stores_refl)
    next
      case long: False
      then have n: "n = pg_size s" by (simp add: n_def)
      show ?thesis
        using "1.IH"[rule_format, of "drop n dat" t "off + n"] "1.prems" long stores_frame[OF t(2)]
        by (simp add: n put_def)
    qed
    then obtain u where u: "nmbn_write_verify_data nd (off + n) (drop n dat) t = (True, u)"
      "stores mem t (put (off + n) (drop n dat) (mem (dev t))) u" by blast
    have "put (off + n) (drop n dat) (mem (dev t)) = put off dat (mem (dev s))"
      using put_append[of off "take n dat" "drop n dat" "mem (dev s)"]
      by (simp add: stores_frame(1)[OF t(2)] n_def min_absorb1 min_absorb2)
    then show ?thesis
      using False "1.prems"(1,3) t(1) u stores_trans[OF t(2) u(2)]
      by (subst nmbn_write_verify_data.simps) (simp add: Let_def n_def[symmetric])
  qed
qed

lemma faultless_usable:
  assumes "faultless_chip nd mem" "nmbm_get_block_state s ba = BLOCK_ST_GOOD"
  shows "\<exists>t. block_usable nd ba s = (True, t) \<and> stores mem s (mem (dev s)) t"
proof -
  obtain r d where "nd_block_isbad nd (dev s) (ba2addr s ba) = (r, d)" by fastforce
  moreover have "r = 0" "mem d = mem (dev s)"
    using assms(1) calculation unfolding faultless_chip_def by (metis fst_conv, metis snd_conv)
  ultimately show ?thesis
    using assms(2) by (auto simp: block_usable_def nmbm_check_bad_phys_block_def stores_def
        intro!: exI[of _ d] exI[of _ "data_buf s"])
qed

text \<open>Writing a block of the management area: the data, and erased bytes behind it.\<close>

definition put_block :: "nat \<Rightarrow> nat \<Rightarrow> bytes \<Rightarrow> (nat \<Rightarrow> u8) \<Rightarrow> nat \<Rightarrow> u8" where
  "put_block B ba dat m = put (ba * B) dat (\<lambda>x. if ba * B \<le> x \<and> x < ba * B + B then - 1 else m x)"

lemma faultless_mgmt_block:
  assumes chip: "faultless_chip nd mem" and g: "nmbm_geometry s" "pg_size s \<le> rawpage_size (ni s)"
    and good: "nmbm_get_block_state s ba = BLOCK_ST_GOOD" and l: "length dat \<le> blk_size s"
  shows "\<exists>t. write_mgmt_block nd ba dat s = (True, t) \<and>
     stores mem s (put_block (2 ^ blk_shift s) ba dat (mem (dev s))) t"
proof -
  let ?B = "2 ^ blk_shift s :: nat"
  have G: "blk_size s = ?B" "mtd_erasesize s = ?B" "0 < pg_size s" "pg_size s dvd ?B"
    using g by (simp_all add: nmbm_geometry_def bmt_geometry_def)
  obtain t where t: "block_usable nd ba s = (True, t)" "stores mem s (mem (dev s)) t"
    using faultless_usable[OF chip good] by blast
  note ft = stores_frame[OF t(2)]
  obtain u where u: "nmbm_erase_block_and_check nd ba t = (True, u)"
    "stores mem t (\<lambda>x. if ba * ?B \<le> x \<and> x < ba * ?B + ?B then - 1 else mem (dev s) x) u"
    using faultless_erase_check[OF chip, of ba t] by (auto simp: ft ba2addr_def G(2) cong: if_cong)
  note fu = stores_frame[OF u(2)]
  obtain v where v: "nmbn_write_verify_data nd (ba * ?B) dat u = (True, v)"
    "stores mem u (put (ba * ?B) dat (mem (dev u))) v"
    using faultless_write_data[OF chip, of u "ba * ?B" "ba * ?B + ?B" dat] G g(2) l by (auto simp: ft fu)
  show ?thesis
    using t(1) u(1) v(1) stores_trans[OF t(2) stores_trans[OF u(2) v(2)]]
    by (simp add: write_mgmt_block_def ft fu ba2addr_def put_block_def)
qed

lemma faultless_write_table:
  assumes "faultless_chip nd mem" "nmbm_geometry s" "pg_size s \<le> rawpage_size (ni s)"
    and "nmbm_get_block_state s ba = BLOCK_ST_GOOD" "ba < limit"
    and "info_table_cache (ni s) \<noteq> []" "length (info_table_cache (ni s)) \<le> blk_size s"
  shows "\<exists>t. nmbm_write_info_table nd ba limit s = (Some (ba, Suc ba), t) \<and>
     stores mem s (put_block (2 ^ blk_shift s) ba (info_table_cache (ni s)) (mem (dev s))) t"
proof -
  obtain t where "write_mgmt_block nd ba (info_table_cache (ni s)) s = (True, t)"
    "stores mem s (put_block (2 ^ blk_shift s) ba (info_table_cache (ni s)) (mem (dev s))) t"
    using faultless_mgmt_block[OF assms(1-4,7)] by blast
  then show ?thesis
    using assms(5-7)
    by (simp add: nmbm_write_info_table_def nmbm_write_mgmt_range_def write_mgmt_loop.simps[of _ ba]
        write_mgmt_loop.simps[of _ _ _ "[]"] min_absorb1)
qed

section \<open>Both copies of the table\<close>

text \<open>
  A stored copy: the bytes in block \<open>ba\<close> pass the checks of the loading code, which reads the
  given write count, state table and mapping table from them.
\<close>

definition table_bytes :: "(nat \<Rightarrow> u8) \<Rightarrow> nat \<Rightarrow> 'd bmt_st \<Rightarrow> bytes" where
  "table_bytes m ba s = map m [ba2addr s ba..<ba2addr s ba + info_table_size (ni s)]"

definition table_stored :: "crc_fn \<Rightarrow> (nat \<Rightarrow> u8) \<Rightarrow> nat \<Rightarrow> u32 \<Rightarrow> u32 list \<Rightarrow> int list \<Rightarrow> 'd bmt_st \<Rightarrow> bool" where
  "table_stored crc m ba wc states mapping s \<longleftrightarrow>
     (let b = table_bytes m ba s; h = nmbm_info_table_header_of b
      in nmbm_check_header crc b (info_table_size (ni s)) \<and> nmbm_check_info_table_header s b \<and>
         it_write_count h = wc \<and>
         state_of (state_table_size (ni s) div 4) (drop (unat (it_state_table_off h)) b) = states \<and>
         mapping_of (mapping_table_size (ni s) div 4) (drop (unat (it_mapping_table_off h)) b) = mapping)"

text \<open>
  The main table, and the backup table where there is one, are in good blocks of the
  management area, and a table fits in one block.
\<close>

definition tables_placed :: "'d bmt_st \<Rightarrow> bool" where
  "tables_placed s \<longleftrightarrow>
     pg_size s \<le> rawpage_size (ni s) \<and> info_table_size (ni s) \<le> blk_size s \<and>
     main_table_ba (ni s) \<noteq> 0 \<and> nmbm_get_block_state s (main_table_ba (ni s)) = BLOCK_ST_GOOD \<and>
     (if backup_table_ba (ni s) = 0 then main_table_ba (ni s) < mapping_blocks_top_ba (ni s)
      else nmbm_get_block_state s (backup_table_ba (ni s)) = BLOCK_ST_GOOD \<and>
        main_table_ba (ni s) < backup_table_ba (ni s) \<and> backup_table_ba (ni s) < mapping_blocks_top_ba (ni s))"

lemma length_cache:
  assumes "nmbm_layout (ni s)" "nmbm_generate_info_table_cache crc s = (c, t)"
  shows "length (info_table_cache (ni t)) = info_table_size (ni s)" "info_table_cache (ni t) \<noteq> []"
proof -
  have l: "32 \<le> info_table_size (ni s)" "length (table_buffer (ni s) (info_table (ni t))) = info_table_size (ni s)"
    using assms(1) table_buffer_parts(1) by (auto simp: nmbm_layout_def)
  then show "length (info_table_cache (ni t)) = info_table_size (ni s)"
    by (simp add: generate_cache_eq(1)[OF assms(2)] nmbm_update_checksum_def Let_def)
  then show "info_table_cache (ni t) \<noteq> []" using l by auto
qed

lemma generate_cache_frame:
  assumes "nmbm_generate_info_table_cache crc s = (c, t)"
  shows "c = unsaved s" "t = upd_ni (\<lambda>n. n\<lparr>info_table := info_table (ni t), info_table_cache := info_table_cache (ni t)\<rparr>) s"
    "it_write_count (info_table (ni t)) = it_write_count (info_table (ni s)) + (if unsaved s then 1 else 0)"
  using assms unfolding nmbm_generate_info_table_cache_def Let_def by (auto split: if_splits)

lemma put_block_bytes:
  "length dat = n \<Longrightarrow> map (put_block B ba dat m) [ba * B..<ba * B + n] = dat"
  using put_bytes by (auto simp: put_block_def)

lemma put_block_elsewhere:
  assumes "n \<le> B" "length dat \<le> B" "ba \<noteq> bb"
  shows "map (put_block B ba dat m) [bb * B..<bb * B + n] = map m [bb * B..<bb * B + n]"
proof -
  have "ba * B + B \<le> bb * B \<or> bb * B + B \<le> ba * B"
    using assms(3) mult_le_mono1[of "Suc ba" bb B] mult_le_mono1[of "Suc bb" ba B] by (cases "ba < bb") auto
  then show ?thesis using assms by (auto simp: put_block_def put_def)
qed

text \<open>What a stored table changes in the state: the chip, the page buffer, the position behind the tables.\<close>

definition stored :: "('d \<Rightarrow> nat \<Rightarrow> u8) \<Rightarrow> 'd bmt_st \<Rightarrow> (nat \<Rightarrow> u8) \<Rightarrow> 'd bmt_st \<Rightarrow> bool" where
  "stored mem s m t \<longleftrightarrow> (\<exists>d b k. mem d = m \<and> t = s\<lparr>dev := d, data_buf := b,
     ni := (ni s)\<lparr>mapping_blocks_ba := k, block_state_changed := 0, block_mapping_changed := 0\<rparr>\<rparr>)"

lemma stored_frame:
  assumes "stored mem s m t"
  shows "mem (dev t) = m" "pg_size t = pg_size s" "blk_size t = blk_size s" "blk_shift t = blk_shift s"
    "nmbm_geometry t = nmbm_geometry s" "nmbm_get_block_state t = nmbm_get_block_state s" "\<not> unsaved t"
    "table_bytes m' ba t = table_bytes m' ba s" "nmbm_layout (ni t) = nmbm_layout (ni s)"
    "block_state (ni t) = block_state (ni s)" "block_mapping (ni t) = block_mapping (ni s)"
    "main_table_ba (ni t) = main_table_ba (ni s)" "backup_table_ba (ni t) = backup_table_ba (ni s)"
    "mapping_blocks_top_ba (ni t) = mapping_blocks_top_ba (ni s)" "rawpage_size (ni t) = rawpage_size (ni s)"
    "info_table_size (ni t) = info_table_size (ni s)" "state_table_size (ni t) = state_table_size (ni s)"
    "mapping_table_size (ni t) = mapping_table_size (ni s)" "info_table (ni t) = info_table (ni s)"
    "info_table_cache (ni t) = info_table_cache (ni s)" "protected (ni t) = protected (ni s)"
  using assms
  by (auto simp: stored_def nmbm_geometry_def bmt_geometry_def nmbm_get_block_state_def table_bytes_def
      ba2addr_def nmbm_layout_def fun_eq_iff)

lemma stored_trans: "stored mem s m t \<Longrightarrow> stored mem t m' u \<Longrightarrow> stored mem s m' u"
  unfolding stored_def by force

lemma faultless_write_main:
  assumes "faultless_chip nd mem" "nmbm_geometry s" "pg_size s \<le> rawpage_size (ni s)"
    and "nmbm_get_block_state s (main_table_ba (ni s)) = BLOCK_ST_GOOD"
    and "main_table_ba (ni s) \<noteq> 0" "main_table_ba (ni s) < limit"
    and "info_table_cache (ni s) \<noteq> []" "length (info_table_cache (ni s)) \<le> blk_size s"
  shows "\<exists>t. write_main_table nd limit s = (True, t) \<and> stored mem s
     (put_block (2 ^ blk_shift s) (main_table_ba (ni s)) (info_table_cache (ni s)) (mem (dev s))) t"
proof -
  obtain t where "nmbm_write_info_table nd (main_table_ba (ni s)) limit s = (Some (main_table_ba (ni s), Suc (main_table_ba (ni s))), t)"
    "stores mem s (put_block (2 ^ blk_shift s) (main_table_ba (ni s)) (info_table_cache (ni s)) (mem (dev s))) t"
    using faultless_write_table[OF assms(1-4,6-8)] by blast
  then obtain d b where "nmbm_write_info_table nd (main_table_ba (ni s)) limit s =
      (Some (main_table_ba (ni s), Suc (main_table_ba (ni s))), s\<lparr>dev := d, data_buf := b\<rparr>)"
    "mem d = put_block (2 ^ blk_shift s) (main_table_ba (ni s)) (info_table_cache (ni s)) (mem (dev s))"
    unfolding stores_def by blast
  then show ?thesis
    using assms(5)
    by (auto simp: write_main_table_def nmbm_mark_tables_clean_def stored_def Let_def
        intro!: exI[of _ d] exI[of _ b] exI[of _ "if backup_table_ba (ni s) = 0 then Suc (main_table_ba (ni s)) else mapping_blocks_ba (ni s)"])
qed

lemma faultless_write_both:
  assumes chip: "faultless_chip nd mem" and geo: "nmbm_geometry s" and p: "tables_placed s"
    and l: "info_table_cache (ni s) \<noteq> []" "length (info_table_cache (ni s)) = info_table_size (ni s)"
    and gen: "nmbm_generate_info_table_cache crc r = (True, s)"
  shows "\<exists>m t. nmbm_update_info_table_once nd crc False r = (True, t) \<and> stored mem s m t \<and>
     (\<forall>ba \<in> {main_table_ba (ni s), backup_table_ba (ni s)} - {0}. table_bytes m ba s = info_table_cache (ni s))"
proof -
  let ?B = "2 ^ blk_shift s" and ?ma = "main_table_ba (ni s)" and ?bk = "backup_table_ba (ni s)" and ?c = "info_table_cache (ni s)"
  have P: "pg_size s \<le> rawpage_size (ni s)" "nmbm_get_block_state s ?ma = BLOCK_ST_GOOD" "?ma \<noteq> 0"
    "length ?c \<le> blk_size s" "blk_size s = ?B"
    using p l geo by (simp_all add: tables_placed_def nmbm_geometry_def bmt_geometry_def)
  show ?thesis
  proof (cases "?bk = 0")
    case True
    then obtain t where "write_main_table nd (mapping_blocks_top_ba (ni s)) s = (True, t)"
      "stored mem s (put_block ?B ?ma ?c (mem (dev s))) t"
      using faultless_write_main[OF chip geo P(1,2,3) _ l(1) P(4), of "mapping_blocks_top_ba (ni s)"] p
      by (auto simp: tables_placed_def)
    then show ?thesis
      using True put_block_bytes[OF l(2), of ?B ?ma "mem (dev s)"]
      by (auto simp: nmbm_update_info_table_once_def gen table_bytes_def ba2addr_def
          intro!: exI[of _ "put_block ?B ?ma ?c (mem (dev s))"])
  next
    case False
    then have bk: "nmbm_get_block_state s ?bk = BLOCK_ST_GOOD" "?ma < ?bk" "?bk < mapping_blocks_top_ba (ni s)"
      using p by (simp_all add: tables_placed_def)
    obtain t where "nmbm_write_info_table nd ?bk (mapping_blocks_top_ba (ni s)) s = (Some (?bk, Suc ?bk), t)"
      "stores mem s (put_block ?B ?bk ?c (mem (dev s))) t"
      using faultless_write_table[OF chip geo P(1) bk(1,3) l(1) P(4)] by blast
    then obtain d b where w: "nmbm_write_info_table nd ?bk (mapping_blocks_top_ba (ni s)) s = (Some (?bk, Suc ?bk), s\<lparr>dev := d, data_buf := b\<rparr>)"
      "mem d = put_block ?B ?bk ?c (mem (dev s))"
      unfolding stores_def by blast
    define s2 where "s2 = nmbm_mark_tables_clean (upd_ni (mapping_blocks_ba_update (\<lambda>_. Suc ?bk)) (s\<lparr>dev := d, data_buf := b\<rparr>))"
    have st: "stored mem s (put_block ?B ?bk ?c (mem (dev s))) s2"
      using w(2) by (auto simp: s2_def stored_def nmbm_mark_tables_clean_def intro!: exI[of _ d] exI[of _ b] exI[of _ "Suc ?bk"])
    note f2 = stored_frame[OF st]
    obtain u where u: "write_main_table nd ?bk s2 = (True, u)"
      "stored mem s2 (put_block ?B ?ma ?c (mem (dev s2))) u"
      using faultless_write_main[OF chip, of s2 ?bk] P l geo bk(2) by (auto simp: f2)
    have "table_bytes (put_block ?B ?ma ?c (mem (dev s2))) ?ma s = ?c"
      "table_bytes (put_block ?B ?ma ?c (mem (dev s2))) ?bk s = ?c"
      using put_block_elsewhere[of "length ?c" ?B ?c ?ma ?bk "mem (dev s2)"] P(4,5) bk(2)
        put_block_bytes[of ?c "length ?c" ?B ?ma "mem (dev s2)"] put_block_bytes[of ?c "length ?c" ?B ?bk "mem (dev s)"]
      by (simp_all add: table_bytes_def ba2addr_def l(2)[symmetric] f2(1))
    then show ?thesis
      using False u(1) stored_trans[OF st u(2)] w(1)
      by (auto simp: nmbm_update_info_table_once_def gen s2_def[symmetric, simplified] f2(13) Let_def
          intro!: exI[of _ "put_block ?B ?ma ?c (mem (dev s2))"])
  qed
qed

lemma update_loop_round:
  "\<not> protected (ni s) \<Longrightarrow> unsaved s \<Longrightarrow> nmbm_update_info_table_once nd crc False s = (True, t) \<Longrightarrow> \<not> unsaved t \<Longrightarrow>
   nmbm_update_info_table nd crc s = (True, t)"
  by (simp add: nmbm_update_info_table_def update_info_table_loop.simps[of nd crc s] update_info_table_loop.simps[of nd crc t])

section \<open>A concrete instance\<close>

text \<open>Blocks of 128 bytes, a main and a backup table, and block 2 found bad since they were stored.\<close>

definition nmbm_two_tables :: "(nat \<Rightarrow> u8) bmt_st" where
  "nmbm_two_tables = (nmbm_small [0xffffffcf])
     \<lparr>mtd_erasesize := 128, blk_size := 128, blk_shift := 7, pg_size := 64,
      ni := (ni (nmbm_small [0xffffffcf]))
        \<lparr>rawpage_size := 72, block_mapping := [0, 1, 3, - 1, - 1, - 1, - 1, - 1], data_block_count := 3,
         backup_table_ba := 5, mapping_blocks_ba := 6, block_state_changed := 1\<rparr>\<rparr>"

lemma ram_chip_faultless: "faultless_chip ram_chip (\<lambda>d. d)"
  using ram_chip_reliable by (simp add: faultless_chip_def ram_chip_def)

lemma nmbm_two_tables_ok:
  "nmbm_geometry nmbm_two_tables" "nmbm_layout (ni nmbm_two_tables)" "tables_placed nmbm_two_tables"
  by (simp_all add: nmbm_two_tables_def nmbm_small_def nmbm_geometry_def bmt_geometry_def nmbm_layout_def
      tables_placed_def nmbm_get_block_state_def nmbm_get_block_state_raw_def Let_def zero_instance_def
      BLOCK_ST_MASK_def BLOCK_ST_GOOD_def)

section \<open>Property\<close>

text \<open>
  C8. The tables reach the chip. On a chip that does not fail and reports no bad block, when
  the tables in memory have changed, the chip is not read-only, the main table and the backup
  table, if there is one, are in good blocks and a table fits in one block, the update succeeds
  and leaves nothing to be stored. It keeps the tables in memory and their places, and both
  copies on the chip pass the checks of the loading code, which reads from each the write count,
  increased by one, the current state table and the current mapping table.
\<close>

theorem nmbm_update_saves_tables:
  assumes "faultless_chip nd mem" "nmbm_geometry s" "nmbm_layout (ni s)" "tables_placed s"
    and "crc_incremental crc" "\<not> protected (ni s)"
    and "block_state_changed (ni s) \<noteq> 0 \<or> block_mapping_changed (ni s) \<noteq> 0"
  shows "\<exists>t. nmbm_update_info_table nd crc s = (True, t) \<and>
     block_state_changed (ni t) = 0 \<and> block_mapping_changed (ni t) = 0 \<and>
     block_state (ni t) = block_state (ni s) \<and> block_mapping (ni t) = block_mapping (ni s) \<and>
     main_table_ba (ni t) = main_table_ba (ni s) \<and> backup_table_ba (ni t) = backup_table_ba (ni s) \<and>
     (\<forall>ba \<in> {main_table_ba (ni s), backup_table_ba (ni s)} - {0}.
        table_stored crc (mem (dev t)) ba (it_write_count (info_table (ni s)) + 1)
          (block_state (ni s)) (block_mapping (ni s)) t)"
proof -
  obtain c g where gen: "nmbm_generate_info_table_cache crc s = (c, g)" by fastforce
  note G = generate_cache_frame[OF gen] and L = length_cache[OF assms(3) gen] and E = generate_cache_eq[OF gen]
  have c: "c" using G(1) assms(7) by simp
  obtain i b where g: "g = upd_ni (\<lambda>n. n\<lparr>info_table := i, info_table_cache := b\<rparr>) s" using G(2) by blast
  have same: "nmbm_geometry g" "tables_placed g" "block_state (ni g) = block_state (ni s)"
    "block_mapping (ni g) = block_mapping (ni s)" "main_table_ba (ni g) = main_table_ba (ni s)"
    "backup_table_ba (ni g) = backup_table_ba (ni s)"
    using assms(2,4) by (auto simp: g nmbm_geometry_def bmt_geometry_def tables_placed_def nmbm_get_block_state_def)
  obtain m t where t: "nmbm_update_info_table_once nd crc False s = (True, t)" "stored mem g m t"
    "\<forall>ba \<in> {main_table_ba (ni s), backup_table_ba (ni s)} - {0}. table_bytes m ba g = info_table_cache (ni g)"
    using faultless_write_both[OF assms(1) same(1,2) L(2), of crc s] gen c L(1) E(2) same(5,6) by auto
  note F = stored_frame[OF t(2)]
  have "nmbm_check_info_table_header t b = nmbm_check_info_table_header g b" for b
    by (simp add: nmbm_check_info_table_header_def F Let_def)
  then have "\<forall>ba \<in> {main_table_ba (ni s), backup_table_ba (ni s)} - {0}.
        table_stored crc (mem (dev t)) ba (it_write_count (info_table (ni s)) + 1)
          (block_state (ni s)) (block_mapping (ni s)) t"
    using t(3) info_table_image[OF assms(5,3) gen] G(3) assms(7)
    by (auto simp: table_stored_def F Let_def)
  then show ?thesis
    using update_loop_round[OF assms(6,7) t(1)] F same by auto
qed

theorem nmbm_update_saves_tables_witness:
  "\<exists>t. nmbm_update_info_table ram_chip crc32_ref nmbm_two_tables = (True, t) \<and>
     block_state_changed (ni nmbm_two_tables) = 1 \<and> block_state_changed (ni t) = 0 \<and>
     table_stored crc32_ref (dev t) 4 1 [0xffffffcf] [0, 1, 3, - 1, - 1, - 1, - 1, - 1] t \<and>
     table_stored crc32_ref (dev t) 5 1 [0xffffffcf] [0, 1, 3, - 1, - 1, - 1, - 1, - 1] t"
proof -
  have f: "block_state (ni nmbm_two_tables) = [0xffffffcf]" "main_table_ba (ni nmbm_two_tables) = 4"
    "block_mapping (ni nmbm_two_tables) = [0, 1, 3, - 1, - 1, - 1, - 1, - 1]"
    "backup_table_ba (ni nmbm_two_tables) = 5" "block_state_changed (ni nmbm_two_tables) = 1"
    "\<not> protected (ni nmbm_two_tables)" "it_write_count (info_table (ni nmbm_two_tables)) = 0"
    by (simp_all add: nmbm_two_tables_def nmbm_small_def zero_instance_def)
  show ?thesis
    using nmbm_update_saves_tables[OF ram_chip_faultless nmbm_two_tables_ok crc32_ref_incremental f(6)]
    by (auto simp: f)
qed

end
