(* ===== verification/En75_Bmt.thy ===== *)
theory En75_Bmt
  imports Bmt_Core
begin

unbundle bit_operations_syntax

text \<open>
  The block mapping of EcoNet and Airoha EN75xx chips
  (\<^verbatim>\<open>target/linux/econet/files/drivers/mtd/nand/en75_bmt.c\<close>), a fourth scheme of the common layer.
  Blocks that were bad when the chip was made are in a table of factory bad blocks and shift all
  blocks behind them; blocks that wear out are replaced by blocks of a reserve area at the end
  of the chip, which also holds the tables. On these targets a patch adds the branch
  \<^verbatim>\<open>econet,bmt\<close> to the choice of the scheme in \<^verbatim>\<open>mtk_bmt_attach\<close>; the initialisation is
  \<open>pub_init\<close> here.
\<close>

section \<open>Constants\<close>

definition MAX_BMT_SIZE :: nat where "MAX_BMT_SIZE = 256"
definition MAX_BBT_SIZE :: nat where "MAX_BBT_SIZE = 1000"
definition DEFAULT_BBT_TABLE_SIZE :: nat where "DEFAULT_BBT_TABLE_SIZE = 1000"
definition REQUIRED_GOOD_BLOCKS :: "nat \<Rightarrow> nat" where "REQUIRED_GOOD_BLOCKS n = n * 8 div 100"
definition BLOCK_WORN_MARK :: u8 where "BLOCK_WORN_MARK = 0x55"
definition WRITE_TRIES :: nat where "WRITE_TRIES = 3"
definition ERASE_TRIES :: nat where "ERASE_TRIES = 3"
definition UPDATE_TABLE_TRIES :: nat where "UPDATE_TABLE_TRIES = 3"
definition REMAP_COPY_TRIES :: nat where "REMAP_COPY_TRIES = 10"
definition INITIAL_READ_TRIES :: nat where "INITIAL_READ_TRIES = 3"

section \<open>Tables in memory and on the chip\<close>

text \<open>Numbers are stored in the order of the machine; \<open>be\<close> says whether it is big endian.\<close>

definition host_bytes :: "bool \<Rightarrow> nat \<Rightarrow> nat \<Rightarrow> bytes" where
  "host_bytes be k n =
     (let bs = map (\<lambda>i. of_nat (n div 256 ^ i)) [0..<k] in if be then rev bs else bs)"

definition host_num :: "bool \<Rightarrow> bytes \<Rightarrow> nat" where
  "host_num be bs = foldr (\<lambda>b n. unat b + 256 * n) (if be then rev bs else bs) 0"

definition bmt_entry_bytes :: "bool \<Rightarrow> nat \<times> nat \<Rightarrow> bytes" where
  "bmt_entry_bytes be e = host_bytes be 2 (fst e) @ host_bytes be 2 (snd e)"

definition en75_bmt_bytes :: "bool \<Rightarrow> en75_bmt \<Rightarrow> bytes" where
  "en75_bmt_bytes be t =
     mt_signature t @ [of_nat (mt_version t), of_nat (mt_bad_count t), of_nat (mt_size t), of_nat (mt_checksum t)] @
     mt_reserved t @ concat (map (bmt_entry_bytes be) (mt_table t))"

definition en75_bmt_of :: "bool \<Rightarrow> bytes \<Rightarrow> en75_bmt" where
  "en75_bmt_of be buf =
     \<lparr>mt_signature = take 3 buf, mt_version = unat (buf ! 3), mt_bad_count = unat (buf ! 4),
      mt_size = unat (buf ! 5), mt_checksum = unat (buf ! 6), mt_reserved = take 13 (drop 7 buf),
      mt_table = map (\<lambda>i. (host_num be (take 2 (drop (20 + 4 * i) buf)),
                           host_num be (take 2 (drop (22 + 4 * i) buf)))) [0..<MAX_BMT_SIZE]\<rparr>"

definition en75_bbt_bytes :: "bool \<Rightarrow> nat \<Rightarrow> en75_bbt \<Rightarrow> bytes" where
  "en75_bbt_bytes be ts t =
     ft_signature t @ host_bytes be 4 (ft_checksum t) @ [of_nat (ft_version t), of_nat (ft_size t)] @
     ft_reserved t @ concat (map (host_bytes be 2) (take ts (ft_table t)))"

definition en75_bbt_of :: "bool \<Rightarrow> nat \<Rightarrow> bytes \<Rightarrow> nat list \<Rightarrow> en75_bbt" where
  "en75_bbt_of be ts buf rest =
     \<lparr>ft_signature = take 4 buf, ft_checksum = host_num be (take 4 (drop 4 buf)), ft_version = unat (buf ! 8),
      ft_size = unat (buf ! 9), ft_reserved = take 2 (drop 10 buf),
      ft_table = map (\<lambda>i. host_num be (take 2 (drop (12 + 2 * i) buf))) [0..<ts] @ drop ts rest\<rparr>"

definition byte_sum :: "bytes \<Rightarrow> nat" where
  "byte_sum bs = sum_list (map unat bs)"

text \<open>Checksums of 16 and of 8 bits over the version, the size and the bytes of the entries.\<close>

definition bbt_checksum :: "bool \<Rightarrow> en75_bbt \<Rightarrow> nat \<Rightarrow> nat" where
  "bbt_checksum be t ts =
     (ft_version t + ft_size t + byte_sum (concat (map (host_bytes be 2) (take ts (ft_table t))))) mod 65536"

definition bmt_checksum :: "bool \<Rightarrow> en75_bmt \<Rightarrow> nat \<Rightarrow> nat" where
  "bmt_checksum be t check_entries =
     (mt_version t + mt_size t +
        byte_sum (concat (map (bmt_entry_bytes be) (take (min check_entries MAX_BMT_SIZE) (mt_table t))))) mod 256"

text \<open>
  The array \<^verbatim>\<open>rblocks\<close> has \<^verbatim>\<open>reserve_block_count\<close> elements, from the last block of the chip
  down. A pointer to an element is its index.
\<close>

definition reserve_block_count :: "'d bmt_st \<Rightarrow> int" where
  "reserve_block_count s = int (total_blks s) - int (em_reserve_area_begin (en75 s))"

definition find_available_block :: "bool \<Rightarrow> 'd bmt_st \<Rightarrow> nat option" where
  "find_available_block start_from_end s =
     (let rbs = em_rblocks (en75 s); idx = [0..<length rbs]
      in find (\<lambda>i. bi_status (rbs ! i) = BS_AVAILABLE) (if start_from_end then idx else rev idx))"

definition sort_bbt :: "en75_bbt \<Rightarrow> en75_bbt" where
  "sort_bbt t = t\<lparr>ft_table := sort (take (ft_size t) (ft_table t)) @ drop (ft_size t) (ft_table t)\<rparr>"

definition factory_bad :: "en75_bmt_m \<Rightarrow> nat list" where
  "factory_bad m = take (ft_size (em_bbt m)) (ft_table (em_bbt m))"

definition worn_map :: "en75_bmt_m \<Rightarrow> (nat \<times> nat) list" where
  "worn_map m = take (mt_size (em_bmt m)) (mt_table (em_bmt m))"

definition get_mapping_block_bbt :: "int \<Rightarrow> 'd bmt_st \<Rightarrow> int" where
  "get_mapping_block_bbt block s =
     (let b = foldl (\<lambda>b e. if int e \<le> b then b + 1 else b) block (factory_bad (en75 s))
      in if int (em_reserve_area_begin (en75 s)) \<le> b \<or> b < 0 then - EINVAL else b)"

definition get_mapping_block :: "int \<Rightarrow> 'd bmt_st \<Rightarrow> int" where
  "get_mapping_block block s =
     (let b = get_mapping_block_bbt block s
      in if b < 0 then b
         else case find (\<lambda>e. int (fst e) = b) (rev (worn_map (en75 s))) of Some e \<Rightarrow> int (snd e) | None \<Rightarrow> b)"

definition block_index_is_sane :: "nat \<Rightarrow> bool \<Rightarrow> 'd bmt_st \<Rightarrow> bool" where
  "block_index_is_sane bi user_block s \<longleftrightarrow>
     \<not> total_blks s \<le> bi \<and> \<not> (user_block \<and> em_reserve_area_begin (en75 s) \<le> bi) \<and>
     \<not> (\<not> user_block \<and> bi < em_reserve_area_begin (en75 s))"

section \<open>Writing and erasing\<close>

fun write_attempts :: "'d nand_ops \<Rightarrow> nat \<Rightarrow> nat \<Rightarrow> oob_rq \<Rightarrow> int \<Rightarrow> 'd bmt_st \<Rightarrow> int \<times> 'd bmt_st" where
  "write_attempts nd 0 addr rq ret s = (ret, s)"
| "write_attempts nd (Suc n) addr rq ret s =
     (let (w, d) = nd_write_oob nd (dev s) addr rq
      in if wr_ret w = 0 then (0, s\<lparr>dev := d\<rparr>) else write_attempts nd n addr rq (wr_ret w) (s\<lparr>dev := d\<rparr>))"

definition w_write :: "'d nand_ops \<Rightarrow> nat \<Rightarrow> bool \<Rightarrow> bytes \<Rightarrow> bool \<Rightarrow> 'd bmt_st \<Rightarrow> int \<times> 'd bmt_st" where
  "w_write nd bi user_area buf oob s =
     (if \<not> block_index_is_sane bi user_area s then (- EINVAL, s)
      else write_attempts nd WRITE_TRIES (bi * 2 ^ blk_shift s)
             \<lparr>rq_mode = MTD_OPS_PLACE_OOB, rq_ooboffs = 0, rq_ooblen = (if oob then length buf else 0),
              rq_len = (if oob then 0 else length buf), rq_dat = (if oob then [] else buf),
              rq_oob = (if oob then buf else [])\<rparr> 0 s)"

definition w_mark_bad :: "'d nand_ops \<Rightarrow> nat \<Rightarrow> bool \<Rightarrow> 'd bmt_st \<Rightarrow> int \<times> 'd bmt_st" where
  "w_mark_bad nd bi user_area s = w_write nd bi user_area [BLOCK_WORN_MARK, 0xff, 0xff, 0xff] True s"

fun erase_attempts :: "'d nand_ops \<Rightarrow> nat \<Rightarrow> nat \<Rightarrow> int \<Rightarrow> 'd bmt_st \<Rightarrow> int \<times> 'd bmt_st" where
  "erase_attempts nd 0 bi ret s = (ret, s)"
| "erase_attempts nd (Suc n) bi ret s =
     (let (r, s') = bbt_nand_erase nd bi s in if r = 0 then (0, s') else erase_attempts nd n bi r s')"

definition w_erase_one :: "'d nand_ops \<Rightarrow> nat \<Rightarrow> bool \<Rightarrow> 'd bmt_st \<Rightarrow> int \<times> 'd bmt_st" where
  "w_erase_one nd bi user_area s =
     (if \<not> block_index_is_sane bi user_area s then (- EINVAL, s)
      else erase_attempts nd ERASE_TRIES bi 0 s)"

definition set_status :: "nat \<Rightarrow> block_status \<Rightarrow> 'd bmt_st \<Rightarrow> 'd bmt_st" where
  "set_status i st s =
     s\<lparr>en75 := (en75 s)\<lparr>em_rblocks := (em_rblocks (en75 s))[i := (em_rblocks (en75 s) ! i)\<lparr>bi_status := st\<rparr>]\<rparr>\<rparr>"

definition erase_pending_step :: "'d nand_ops \<Rightarrow> nat \<Rightarrow> 'd bmt_st \<Rightarrow> 'd bmt_st" where
  "erase_pending_step nd i s =
     (let bif = em_rblocks (en75 s) ! i
      in if bi_status bif \<noteq> BS_NEED_ERASE then s
         else
           (let (ret, s1) = w_erase_one nd (bi_index bif) False s
            in if ret \<noteq> 0
               then set_status i BS_BAD (if ret = - EINVAL then s1 else snd (w_mark_bad nd (bi_index bif) False s1))
               else set_status i BS_AVAILABLE s1))"

definition w_erase_pending :: "'d nand_ops \<Rightarrow> 'd bmt_st \<Rightarrow> 'd bmt_st" where
  "w_erase_pending nd s = fold (erase_pending_step nd) [0..<length (em_rblocks (en75 s))] s"

definition mark_for_erasure :: "block_status \<Rightarrow> 'd bmt_st \<Rightarrow> 'd bmt_st" where
  "mark_for_erasure with_status s =
     s\<lparr>en75 := (en75 s)\<lparr>em_rblocks := map (\<lambda>b. if bi_status b = with_status then b\<lparr>bi_status := BS_NEED_ERASE\<rparr> else b)
                                     (em_rblocks (en75 s))\<rparr>\<rparr>"

section \<open>Storing the tables\<close>

fun update_table_loop :: "'d nand_ops \<Rightarrow> nat \<Rightarrow> bool \<Rightarrow> bytes \<Rightarrow> 'd bmt_st \<Rightarrow> (int + nat) \<times> 'd bmt_st" where
  "update_table_loop nd 0 start_from_end buf s = (Inl (- EIO), s)"
| "update_table_loop nd (Suc n) start_from_end buf s =
     (case find_available_block start_from_end s of
        None \<Rightarrow> (Inl (- ENOSPC), s)
      | Some i \<Rightarrow>
          (let (ret, s1) = w_write nd (bi_index (em_rblocks (en75 s) ! i)) False buf False s
           in if ret \<noteq> 0 then update_table_loop nd n start_from_end buf (set_status i BS_NEED_ERASE s1)
              else (Inr i, s1)))"

definition w_update_table :: "'d nand_ops \<Rightarrow> bool \<Rightarrow> bytes \<Rightarrow> 'd bmt_st \<Rightarrow> (int + nat) \<times> 'd bmt_st" where
  "w_update_table nd start_from_end buf s = update_table_loop nd UPDATE_TABLE_TRIES start_from_end buf s"

text \<open>\<open>clear_range lo hi z xs\<close> stores \<open>z\<close> in the elements from \<open>lo\<close> below \<open>hi\<close>, as far as they exist.\<close>

definition clear_range :: "nat \<Rightarrow> nat \<Rightarrow> 'a \<Rightarrow> 'a list \<Rightarrow> 'a list" where
  "clear_range lo hi z xs = take lo xs @ replicate (min hi (length xs) - lo) z @ drop (max lo hi) xs"

definition prepare_bmt :: "bool \<Rightarrow> 'd bmt_st \<Rightarrow> 'd bmt_st" where
  "prepare_bmt be s =
     (let m = en75 s; rblocks = nat (reserve_block_count s);
          t = (em_bmt m)\<lparr>mt_table := clear_range (mt_size (em_bmt m)) rblocks (0, 0) (mt_table (em_bmt m))\<rparr>
      in s\<lparr>en75 := m\<lparr>em_bmt := t\<lparr>mt_checksum := bmt_checksum be t (mt_size t)\<rparr>,
                      em_fault := em_fault m \<or> MAX_BMT_SIZE < rblocks\<rparr>\<rparr>)"

definition prepare_bbt :: "bool \<Rightarrow> 'd bmt_st \<Rightarrow> 'd bmt_st" where
  "prepare_bbt be s =
     (let m = en75 s; ts = em_bbt_table_size m;
          t = (em_bbt m)\<lparr>ft_table := clear_range (ft_size (em_bbt m)) ts 0 (ft_table (em_bbt m))\<rparr>
      in s\<lparr>en75 := m\<lparr>em_bbt := t\<lparr>ft_checksum := bbt_checksum be t ts\<rparr>\<rparr>\<rparr>)"

definition sync_bmt :: "'d nand_ops \<Rightarrow> bool \<Rightarrow> 'd bmt_st \<Rightarrow> int \<times> 'd bmt_st" where
  "sync_bmt nd be s =
     (if em_bmt_dirty (en75 s) = 0 then (0, s)
      else
        (let s1 = prepare_bmt be s;
             (r, s2) = w_update_table nd True (en75_bmt_bytes be (em_bmt (en75 s1))) s1
         in case r of
              Inl e \<Rightarrow> (e, s2)
            | Inr i \<Rightarrow>
                (let s3 = set_status i BS_BMT (mark_for_erasure BS_BMT s2)
                 in (0, s3\<lparr>en75 := (en75 s3)\<lparr>em_bmt_dirty := 0\<rparr>\<rparr>))))"

definition sync_bbt :: "'d nand_ops \<Rightarrow> bool \<Rightarrow> 'd bmt_st \<Rightarrow> int \<times> 'd bmt_st" where
  "sync_bbt nd be s =
     (if em_bbt_dirty (en75 s) = 0 \<or> \<not> em_can_write_factory_bbt (en75 s) then (0, s)
      else
        (let s1 = prepare_bbt be s;
             (r, s2) = w_update_table nd False (en75_bbt_bytes be (em_bbt_table_size (en75 s1)) (em_bbt (en75 s1))) s1
         in case r of
              Inl e \<Rightarrow> (e, s2)
            | Inr i \<Rightarrow>
                (let s3 = set_status i BS_BBT (mark_for_erasure BS_BBT s2)
                 in (0, s3\<lparr>en75 := (en75 s3)\<lparr>em_bbt_dirty := 0\<rparr>\<rparr>))))"

definition w_sync_tables :: "'d nand_ops \<Rightarrow> bool \<Rightarrow> 'd bmt_st \<Rightarrow> int \<times> 'd bmt_st" where
  "w_sync_tables nd be s =
     (let (r1, s1) = sync_bmt nd be (w_erase_pending nd s)
      in if r1 \<noteq> 0 then (r1, s1)
         else
           (let (r2, s2) = sync_bbt nd be s1
            in if r2 \<noteq> 0 then (r2, s2) else (0, w_erase_pending nd s2)))"

section \<open>Replacing a block\<close>

definition s8_incr :: "int \<Rightarrow> int" where
  "s8_incr d = (d + 129) mod 256 - 128"

definition w_make_mapping :: "'d nand_ops \<Rightarrow> bool \<Rightarrow> block_info \<Rightarrow> nat \<Rightarrow> 'd bmt_st \<Rightarrow> int \<times> 'd bmt_st" where
  "w_make_mapping nd be replacement_block bad_block_index s =
     (if em_reserve_area_begin (en75 s) \<le> bad_block_index then (- EINVAL, s)
      else if bi_status replacement_block \<noteq> BS_AVAILABLE then (- EINVAL, s)
      else w_write nd (bi_index replacement_block) False ([0xff, 0xff] @ host_bytes be 2 bad_block_index) True s)"

fun copy_attempts :: "'d nand_ops \<Rightarrow> nat \<Rightarrow> nat \<Rightarrow> nat \<Rightarrow> int \<Rightarrow> 'd bmt_st \<Rightarrow> 'd bmt_st" where
  "copy_attempts nd 0 dest src copy_len s = s"
| "copy_attempts nd (Suc n) dest src copy_len s =
     (let (r, s') = bbt_nand_copy nd dest src copy_len s in if r = 0 then s' else copy_attempts nd n dest src copy_len s')"

text \<open>The change of the table: the first entry for the block gets the new target, or one is added.\<close>

definition put_mapping :: "nat \<Rightarrow> nat \<Rightarrow> en75_bmt \<Rightarrow> en75_bmt" where
  "put_mapping block new t =
     (case find (\<lambda>i. fst (mt_table t ! i) = block) [0..<mt_size t] of
        Some i \<Rightarrow> t\<lparr>mt_table := (mt_table t)[i := (fst (mt_table t ! i), new)]\<rparr>
      | None \<Rightarrow> t\<lparr>mt_table := (mt_table t)[mt_size t := (block, new)], mt_size := (mt_size t + 1) mod 256\<rparr>)"

text \<open>\<open>maybe\<close> is the index of the block that the block is mapped to so far, if it is mapped.\<close>

definition w_remap_block ::
  "'d nand_ops \<Rightarrow> bool \<Rightarrow> nat \<Rightarrow> nat option \<Rightarrow> int \<Rightarrow> 'd bmt_st \<Rightarrow> int \<times> 'd bmt_st" where
  "w_remap_block nd be block maybe copy_len s =
     (if mt_size (em_bmt (en75 s)) = 0xff then (- ENOSPC, s)
      else case find_available_block False s of
        None \<Rightarrow> (- ENOSPC, s)
      | Some i \<Rightarrow>
          (let new = em_rblocks (en75 s) ! i; (ret, s1) = w_make_mapping nd be new block s
           in if ret \<noteq> 0 then (ret, set_status i BS_NEED_ERASE s1)
              else
                (let copy_from = (case maybe of Some j \<Rightarrow> bi_index (em_rblocks (en75 s) ! j) | None \<Rightarrow> block);
                     s2 = (if copy_len \<noteq> 0 then copy_attempts nd REMAP_COPY_TRIES (bi_index new) copy_from copy_len s1 else s1);
                     s3 = s2\<lparr>en75 := (en75 s2)\<lparr>em_bmt := put_mapping block (bi_index new) (em_bmt (en75 s2)),
                                                 em_bmt_dirty := s8_incr (em_bmt_dirty (en75 s2))\<rparr>\<rparr>;
                     s4 = set_status i BS_MAPPED s3;
                     s5 = snd (w_mark_bad nd block True s4)
                 in (0, case maybe of Some j \<Rightarrow> set_status j BS_NEED_ERASE s5 | None \<Rightarrow> s5))))"

datatype unmap_erase = UE_NO_ERASE | UE_ATTEMPT_ERASE | UE_REQUIRE_ERASE

definition find_rblock :: "nat \<Rightarrow> 'd bmt_st \<Rightarrow> nat option" where
  "find_rblock idx s = find (\<lambda>j. bi_index (em_rblocks (en75 s) ! j) = idx) [0..<length (em_rblocks (en75 s))]"

definition drop_mapping :: "nat \<Rightarrow> en75_bmt \<Rightarrow> en75_bmt" where
  "drop_mapping i t =
     (let n = mt_size t - 1
      in t\<lparr>mt_table := ((mt_table t)[i := mt_table t ! n])[n := (0, 0)], mt_size := n\<rparr>)"

definition w_unmap_block ::
  "'d nand_ops \<Rightarrow> nat \<Rightarrow> unmap_erase \<Rightarrow> 'd bmt_st \<Rightarrow> int \<times> 'd bmt_st" where
  "w_unmap_block nd block erase s =
     (let t = em_bmt (en75 s)
      in case find (\<lambda>i. fst (mt_table t ! i) = block) [0..<mt_size t] of
           None \<Rightarrow> (- EINVAL, s)
         | Some i \<Rightarrow>
             (case find_rblock (snd (mt_table t ! i)) s of
                None \<Rightarrow> (- EINVAL, s)
              | Some j \<Rightarrow>
                  (let (ret, s1) = (if erase = UE_NO_ERASE then (0, s)
                                    else w_erase_one nd (bi_index (em_rblocks (en75 s) ! j)) False s)
                   in if ret \<noteq> 0 \<and> erase = UE_REQUIRE_ERASE then (ret, s1)
                      else
                        (let s2 = s1\<lparr>en75 := (en75 s1)\<lparr>em_bmt := drop_mapping i (em_bmt (en75 s1)),
                                                        em_bmt_dirty := s8_incr (em_bmt_dirty (en75 s1))\<rparr>\<rparr>
                         in (0, set_status j BS_NEED_ERASE s2)))))"

section \<open>Reading the reserve area\<close>

datatype block_is_bad = BB_GOOD | BB_FACTORY_BAD | BB_WORN | BB_UNKNOWN_BAD

definition fdm_is_bad :: "bytes \<Rightarrow> block_is_bad" where
  "fdm_is_bad fdm =
     (if fdm ! 0 = 0xff \<and> fdm ! 1 = 0xff then BB_GOOD
      else if fdm ! 0 = BLOCK_WORN_MARK then BB_WORN
      else if fdm ! 0 = 0 \<or> fdm ! 1 = 0 then BB_FACTORY_BAD
      else BB_UNKNOWN_BAD)"

definition fdm_is_mapped :: "bytes \<Rightarrow> bool" where
  "fdm_is_mapped fdm \<longleftrightarrow> \<not> (fdm ! 0 \<noteq> 0xff \<or> fdm ! 1 \<noteq> 0xff) \<and> (fdm ! 2 \<noteq> 0xff \<or> fdm ! 3 \<noteq> 0xff)"

text \<open>
  Reading the first page of a block with four bytes of its spare area. \<open>fdm\<close> is what the
  variable holds before; where it is not initialised the model has zeros, which stay only if a
  read succeeds without delivering the bytes it was asked for.
\<close>

definition read_first_page ::
  "'d nand_ops \<Rightarrow> nat \<Rightarrow> bytes \<Rightarrow> 'd bmt_st \<Rightarrow> int \<times> bytes \<times> 'd bmt_st" where
  "read_first_page nd block fdm s =
     (let (ret, dat, oob, s1) = bbt_nand_read nd (blk_pg s block) (pg_size s) 4 s
      in (ret, overlay fdm oob, s1\<lparr>data_buf := overlay (data_buf s1) dat\<rparr>))"

fun reconstruct_bmt_loop :: "'d nand_ops \<Rightarrow> bool \<Rightarrow> nat list \<Rightarrow> 'd bmt_st \<Rightarrow> 'd bmt_st" where
  "reconstruct_bmt_loop nd be [] s = s"
| "reconstruct_bmt_loop nd be (i # is) s =
     (let (ret, fdm, s1) = read_first_page nd i (replicate 4 0) s;
          mapped_block = host_num be (drop 2 fdm); m = en75 s1; t = em_bmt m
      in if ret < 0 \<or> fdm_is_bad fdm \<noteq> BB_GOOD \<or> em_reserve_area_begin m \<le> mapped_block
         then reconstruct_bmt_loop nd be is s1
         else reconstruct_bmt_loop nd be is
                (s1\<lparr>en75 := m\<lparr>em_bmt := t\<lparr>mt_table := (mt_table t)[mt_size t := (mapped_block, i)],
                                             mt_size := (mt_size t + 1) mod 256\<rparr>\<rparr>\<rparr>))"

text \<open>
  The second \<^verbatim>\<open>memset\<close> of the source clears as many bytes as the table has, but from the start of
  the structure: the header, which is 20 bytes, and all but the last five entries.
\<close>

definition empty_bmt :: "en75_bmt \<Rightarrow> en75_bmt" where
  "empty_bmt t =
     \<lparr>mt_signature = [0x42, 0x4d, 0x54], mt_version = 1, mt_bad_count = 0, mt_size = 0, mt_checksum = 0,
      mt_reserved = replicate 13 0, mt_table = clear_range 0 251 (0, 0) (mt_table t)\<rparr>"

definition r_reconstruct_bmt :: "'d nand_ops \<Rightarrow> bool \<Rightarrow> 'd bmt_st \<Rightarrow> 'd bmt_st" where
  "r_reconstruct_bmt nd be s =
     reconstruct_bmt_loop nd be (rev [em_reserve_area_begin (en75 s)..<total_blks s])
       (s\<lparr>en75 := (en75 s)\<lparr>em_bmt := empty_bmt (em_bmt (en75 s)), em_bmt_dirty := s8_incr (em_bmt_dirty (en75 s))\<rparr>\<rparr>)"

fun reconstruct_bbt_loop :: "'d nand_ops \<Rightarrow> nat list \<Rightarrow> 'd bmt_st \<Rightarrow> 'd bmt_st" where
  "reconstruct_bbt_loop nd [] s = s"
| "reconstruct_bbt_loop nd (i # is) s =
     (if \<exists>e \<in> set (worn_map (en75 s)). fst e = i then reconstruct_bbt_loop nd is s
      else
        (let (ret, fdm, s1) = read_first_page nd i (replicate 4 0) s; m = en75 s1; t = em_bbt m
         in if ret = 0 \<and> (fdm_is_bad fdm = BB_GOOD \<or> fdm_is_bad fdm = BB_WORN) then reconstruct_bbt_loop nd is s1
            else reconstruct_bbt_loop nd is
                   (s1\<lparr>en75 := m\<lparr>em_bbt := t\<lparr>ft_table := (ft_table t)[ft_size t := i],
                                                ft_size := (ft_size t + 1) mod 256\<rparr>\<rparr>\<rparr>)))"

definition r_reconstruct_bbt :: "'d nand_ops \<Rightarrow> 'd bmt_st \<Rightarrow> int \<times> 'd bmt_st" where
  "r_reconstruct_bbt nd s =
     (if mt_version (em_bmt (en75 s)) = 0 then (- EINVAL, s)
      else
        (let m = en75 s;
             t = \<lparr>ft_signature = [0x52, 0x41, 0x57, 0x42], ft_checksum = 4294967295, ft_version = 1, ft_size = 0,
                  ft_reserved = [0xff, 0xff], ft_table = clear_range 0 (em_bbt_table_size m) 0 (ft_table (em_bbt m))\<rparr>;
             s1 = reconstruct_bbt_loop nd [0..<em_reserve_area_begin m] (s\<lparr>en75 := m\<lparr>em_bbt := t\<rparr>\<rparr>)
         in (0, s1\<lparr>en75 := (en75 s1)\<lparr>em_bbt := sort_bbt (em_bbt (en75 s1))\<rparr>\<rparr>)))"

definition block_is_erased :: "bytes \<Rightarrow> bytes \<Rightarrow> bool" where
  "block_is_erased data oob \<longleftrightarrow> (\<forall>b \<in> set data. b = 0xff) \<and> (\<forall>b \<in> set oob. b = 0xff)"

text \<open>
  The result is 0 or an error; the first also stores the table in the context. The static work
  space keeps the entries behind the size of the table from one call to the next, and sorting
  may move them.
\<close>

definition try_parse_bbt :: "bool \<Rightarrow> bytes \<Rightarrow> en75_bmt_m \<Rightarrow> int \<times> en75_bmt_m" where
  "try_parse_bbt be buf m =
     (let ts = em_bbt_table_size m
      in if length buf < 12 + 2 * ts then (- EINVAL, m)
         else
           (let w = en75_bbt_of be ts buf (em_workspace m)
            in if ft_signature w \<noteq> [0x52, 0x41, 0x57, 0x42] then (- EINVAL, m\<lparr>em_workspace := ft_table w\<rparr>)
               else if ft_checksum w \<noteq> bbt_checksum be w ts then (- EINVAL, m\<lparr>em_workspace := ft_table w\<rparr>)
               else
                 (let w' = sort_bbt w
                  in (0, m\<lparr>em_workspace := ft_table w',
                           em_bbt := w'\<lparr>ft_table := take ts (ft_table w') @ drop ts (ft_table (em_bbt m))\<rparr>\<rparr>))))"

definition try_parse_bmt :: "bool \<Rightarrow> bytes \<Rightarrow> en75_bmt_m \<Rightarrow> int \<times> en75_bmt_m" where
  "try_parse_bmt be buf m =
     (if length buf < 20 + 4 * MAX_BMT_SIZE then (- EINVAL, m)
      else
        (let w = en75_bmt_of be buf
         in if mt_signature w \<noteq> [0x42, 0x4d, 0x54] then (- EINVAL, m)
            else if mt_checksum w \<noteq> bmt_checksum be w (mt_size w) then (- EINVAL, m)
            else (0, m\<lparr>em_bmt := w\<rparr>)))"

fun read_attempts :: "'d nand_ops \<Rightarrow> nat \<Rightarrow> nat \<Rightarrow> int \<Rightarrow> bytes \<Rightarrow> 'd bmt_st \<Rightarrow> int \<times> bytes \<times> 'd bmt_st" where
  "read_attempts nd 0 block ret fdm s = (ret, fdm, s)"
| "read_attempts nd (Suc n) block ret fdm s =
     (let (r, fdm', s') = read_first_page nd block fdm s
      in if r = 0 then (0, fdm', s') else read_attempts nd n block r fdm' s')"

definition classify_block :: "bool \<Rightarrow> int \<Rightarrow> bytes \<Rightarrow> bytes \<Rightarrow> en75_bmt_m \<Rightarrow> block_status \<times> en75_bmt_m" where
  "classify_block be ret fdm data m =
     (if ret \<noteq> 0 \<or> fdm_is_bad fdm \<noteq> BB_GOOD then (BS_BAD, m)
      else if fdm_is_mapped fdm then (BS_MAPPED, m)
      else
        (let (r1, m1) = try_parse_bbt be data m
         in if r1 = 0 then (BS_BBT, m1)
            else
              (let (r2, m2) = try_parse_bmt be data m1
               in if r2 = 0 then (BS_BMT, m2)
                  else if block_is_erased data fdm then (BS_AVAILABLE, m2)
                  else (BS_NEED_ERASE, m2))))"

text \<open>The loop over the blocks from the last one down; \<^term>\<open>None\<close> means that it reached block 0.\<close>

fun scan_reserve_loop ::
  "'d nand_ops \<Rightarrow> bool \<Rightarrow> nat \<Rightarrow> nat \<Rightarrow> bytes \<Rightarrow> 'd bmt_st \<Rightarrow> nat option \<times> 'd bmt_st" where
  "scan_reserve_loop nd be 0 good_blocks fdm s = (None, s)"
| "scan_reserve_loop nd be (Suc c) good_blocks fdm s =
     (let (ret, fdm', s1) = read_attempts nd INITIAL_READ_TRIES (Suc c) 0 fdm s;
          (st, m) = classify_block be ret fdm' (take (pg_size s1) (data_buf s1)) (en75 s1);
          s2 = s1\<lparr>en75 := m\<lparr>em_rblocks := em_rblocks m @ [\<lparr>bi_index = Suc c, bi_status = st\<rparr>]\<rparr>\<rparr>;
          good = (if st = BS_BAD then good_blocks else Suc good_blocks)
      in if REQUIRED_GOOD_BLOCKS (total_blks s2) \<le> good then (Some (Suc c), s2)
         else scan_reserve_loop nd be c good fdm' s2)"

text \<open>
  \<open>alloc_ok\<close> is the result of the only call of \<^verbatim>\<open>krealloc\<close> that is made: it asks for one element
  per block. On a chip without blocks the loop is not entered and the position is -1.
\<close>

definition r_scan_reserve :: "'d nand_ops \<Rightarrow> bool \<Rightarrow> bool \<Rightarrow> 'd bmt_st \<Rightarrow> int \<times> 'd bmt_st" where
  "r_scan_reserve nd be alloc_ok s =
     (if total_blks s = 0 then (0, s\<lparr>en75 := (en75 s)\<lparr>em_reserve_area_begin := to_u16 (- 1)\<rparr>\<rparr>)
      else if total_blks s = 1 then (- ENOSPC, s)
      else if \<not> alloc_ok then (- ENOMEM, s\<lparr>en75 := (en75 s)\<lparr>em_rblocks := []\<rparr>\<rparr>)
      else
        (case scan_reserve_loop nd be (total_blks s - 1) 0 (replicate 4 0) (s\<lparr>en75 := (en75 s)\<lparr>em_rblocks := []\<rparr>\<rparr>) of
           (None, s1) \<Rightarrow> (- ENOSPC, s1)
         | (Some cursor, s1) \<Rightarrow> (0, s1\<lparr>en75 := (en75 s1)\<lparr>em_reserve_area_begin := cursor\<rparr>\<rparr>)))"

section \<open>Factory bad blocks from the device tree\<close>

text \<open>
  The first loop takes the entries of the table from the end. \<open>i\<close> is the number of entries that
  are left; the statements are those of the source, in their order, with the size counted down
  before the entry is replaced by the last one.
\<close>

fun clear_factory_bad :: "'d nand_ops \<Rightarrow> nat list \<Rightarrow> nat \<Rightarrow> 'd bmt_st \<Rightarrow> 'd bmt_st" where
  "clear_factory_bad nd blocks 0 s = s"
| "clear_factory_bad nd blocks (Suc i) s =
     (let m = en75 s; t = em_bbt m; kept = (ft_table t ! i \<in> set blocks);
          n = ft_size t - 1;
          tab = ((ft_table t)[i := ft_table t ! n])[n := 0];
          s1 = s\<lparr>en75 := m\<lparr>em_bbt := t\<lparr>ft_size := n, ft_table := tab\<rparr>\<rparr>\<rparr>
      in clear_factory_bad nd blocks i (if kept then s1 else snd (w_erase_one nd (tab ! i) True s1)))"

fun unmap_factory_bad :: "'d nand_ops \<Rightarrow> nat list \<Rightarrow> 'd bmt_st \<Rightarrow> 'd bmt_st" where
  "unmap_factory_bad nd [] s = s"
| "unmap_factory_bad nd (b # bs) s =
     unmap_factory_bad nd bs
       (if get_mapping_block (int b) s < int (em_reserve_area_begin (en75 s)) then s
        else snd (w_unmap_block nd b UE_NO_ERASE s))"

fun add_factory_bad :: "'d nand_ops \<Rightarrow> nat list \<Rightarrow> 'd bmt_st \<Rightarrow> 'd bmt_st" where
  "add_factory_bad nd [] s = s"
| "add_factory_bad nd (b # bs) s =
     add_factory_bad nd bs
       (if b \<in> set (factory_bad (en75 s)) then s
        else
          (let m = en75 s; t = em_bbt m
           in snd (w_mark_bad nd b True
                (s\<lparr>en75 := m\<lparr>em_bbt := t\<lparr>ft_table := (ft_table t)[ft_size t := b],
                                             ft_size := (ft_size t + 1) mod 256\<rparr>\<rparr>\<rparr>))))"

definition w_factory_badblocks :: "'d nand_ops \<Rightarrow> nat list \<Rightarrow> 'd bmt_st \<Rightarrow> int \<times> 'd bmt_st" where
  "w_factory_badblocks nd blocks s =
     (let m = en75 s; count = length blocks
      in if ft_version (em_bbt m) = 0 then (- EINVAL, s)
         else if mt_version (em_bmt m) = 0 then (- EINVAL, s)
         else if \<exists>b \<in> set blocks. em_reserve_area_begin m \<le> b then (- EINVAL, s)
         else if em_bbt_table_size m < count then (- ENOSPC, s)
         else if \<not> em_can_write_factory_bbt m then
           (if ft_size (em_bbt m) \<noteq> count then (- EIO, s)
            else if \<exists>b \<in> set blocks. b \<notin> set (factory_bad m) then (- EIO, s)
            else (0, s))
         else
           (let s1 = clear_factory_bad nd blocks (ft_size (em_bbt m)) s;
                s2 = unmap_factory_bad nd blocks s1;
                s3 = add_factory_bad nd blocks s2; m3 = en75 s3
            in (0, s3\<lparr>en75 := m3\<lparr>em_bbt := sort_bbt (em_bbt m3), em_bbt_dirty := s8_incr (em_bbt_dirty m3)\<rparr>\<rparr>)))"

section \<open>Initialisation\<close>

text \<open>
  What the code asks of the device tree. The list of factory bad blocks is what
  \<^verbatim>\<open>of_property_read_variable_u32_array\<close> delivers, at most 32 numbers, or \<^term>\<open>None\<close> for an error. A
  partition is described by the presence of \<^verbatim>\<open>econet,enable-remap\<close> and the first two cells of
  \<^verbatim>\<open>reg\<close>.
\<close>

record en75_dt =
  ed_bbt_table_size :: "nat option"
  ed_assert_reserve_size :: "nat option"
  ed_can_write_factory_bbt :: bool
  ed_factory_badblocks :: "nat list option"
  ed_enable_remap :: bool
  ed_partitions :: "(bool \<times> (nat \<times> nat) option) list"

text \<open>
  When memory runs out, the list of ranges is lost and its length is kept, so that the next use
  reads through a null pointer.
\<close>

definition add_remap_range :: "bool \<Rightarrow> nat \<Rightarrow> nat \<Rightarrow> en75_bmt_m \<Rightarrow> int \<times> en75_bmt_m" where
  "add_remap_range alloc_ok begin_block size_blocks m =
     (if em_reserve_area_begin m < begin_block + size_blocks then (- EINVAL, m)
      else if \<not> alloc_ok then
        (- ENOMEM, m\<lparr>em_fault := em_fault m \<or> em_can_remap_ranges m \<noteq> [], em_can_remap_ranges := []\<rparr>)
      else (0, m\<lparr>em_can_remap_ranges :=
             em_can_remap_ranges m @ [(begin_block, to_u16 (int (begin_block + size_blocks)))]\<rparr>))"

fun add_partition_ranges :: "bool \<Rightarrow> nat \<Rightarrow> (bool \<times> (nat \<times> nat) option) list \<Rightarrow> en75_bmt_m \<Rightarrow> en75_bmt_m" where
  "add_partition_ranges alloc_ok shift [] m = m"
| "add_partition_ranges alloc_ok shift ((enable, reg) # ps) m =
     add_partition_ranges alloc_ok shift ps
       (case reg of
          None \<Rightarrow> m
        | Some (start, siz) \<Rightarrow>
            if \<not> enable \<or> start mod 2 ^ shift \<noteq> 0 \<or> siz mod 2 ^ shift \<noteq> 0 then m
            else snd (add_remap_range alloc_ok (to_u16 (int (start div 2 ^ shift))) (to_u16 (int (siz div 2 ^ shift))) m))"

text \<open>The choice between the tables that were found and reconstruction.\<close>

definition init_tables :: "'d nand_ops \<Rightarrow> bool \<Rightarrow> nat list option \<Rightarrow> 'd bmt_st \<Rightarrow> int \<times> 'd bmt_st" where
  "init_tables nd be fbad s =
     (let m = en75 s
      in if ft_version (em_bbt m) \<noteq> 0 then
           (0, if mt_version (em_bmt m) = 0 then r_reconstruct_bmt nd be s else s)
         else if \<not> em_can_write_factory_bbt m then (- EIO, s)
         else if fbad \<noteq> None then
           (0, if mt_version (em_bmt m) = 0 then r_reconstruct_bmt nd be s else s)
         else if mt_version (em_bmt m) \<noteq> 0 then r_reconstruct_bbt nd s
         else r_reconstruct_bbt nd (r_reconstruct_bmt nd be s))"

definition w_init :: "'d nand_ops \<Rightarrow> bool \<Rightarrow> bool \<Rightarrow> en75_dt \<Rightarrow> 'd bmt_st \<Rightarrow> int \<times> 'd bmt_st" where
  "w_init nd be alloc_ok np s =
     (let ts = (case ed_bbt_table_size np of Some n \<Rightarrow> n | None \<Rightarrow> DEFAULT_BBT_TABLE_SIZE)
      in if MAX_BBT_SIZE < ts then (- EINVAL, s)
         else
           (let (r1, s1) = r_scan_reserve nd be alloc_ok (s\<lparr>en75 := (en75 s)\<lparr>em_bbt_table_size := ts\<rparr>\<rparr>)
            in if r1 \<noteq> 0 then (r1, s1)
               else if (case ed_assert_reserve_size np of
                          Some n \<Rightarrow> to_s32 (int n) \<noteq> reserve_block_count s1 | None \<Rightarrow> False)
               then (- EINVAL, s1)
               else
                 (let m1 = (if ed_can_write_factory_bbt np then (en75 s1)\<lparr>em_can_write_factory_bbt := True\<rparr> else en75 s1);
                      m2 = (if ed_enable_remap np
                            then snd (add_remap_range alloc_ok 0 (em_reserve_area_begin m1) m1)
                            else add_partition_ranges alloc_ok (blk_shift s1) (ed_partitions np) m1);
                      (r2, s2) = init_tables nd be (ed_factory_badblocks np) (s1\<lparr>en75 := m2\<rparr>)
                  in if r2 \<noteq> 0 then (r2, s2)
                     else
                       (let (r3, s3) = (case ed_factory_badblocks np of
                                          None \<Rightarrow> (0, s2) | Some blocks \<Rightarrow> w_factory_badblocks nd blocks s2)
                        in if r3 \<noteq> 0 then (r3, s3)
                           else (0, s3\<lparr>mtd_size :=
                                  nat (to_s32 ((int (em_reserve_area_begin (en75 s3)) - int (ft_size (em_bbt (en75 s3)))) *
                                                 2 ^ blk_shift s3) mod 18446744073709551616)\<rparr>)))))"

section \<open>The operations\<close>

definition pub_init :: "'d nand_ops \<Rightarrow> bool \<Rightarrow> bool \<Rightarrow> en75_dt \<Rightarrow> 'd bmt_st \<Rightarrow> int \<times> 'd bmt_st" where
  "pub_init nd be alloc_ok np s =
     (let (ret, s1) = w_init nd be alloc_ok np s
      in if ret = 0 then (0, snd (w_sync_tables nd be s1)) else (ret, s1))"

text \<open>
  The block number is kept in 16 unsigned bits, so that an error of \<^verbatim>\<open>get_mapping_block_bbt\<close> is
  not seen by the test that follows it.
\<close>

definition pub_remap_block :: "'d nand_ops \<Rightarrow> bool \<Rightarrow> 'd remap_fn" where
  "pub_remap_block nd be user_block mapped_block_idx copy_len s =
     (let m = en75 s; block = to_u16 (get_mapping_block_bbt (int user_block) s)
      in if \<not> (\<exists>r \<in> set (em_can_remap_ranges m). fst r \<le> user_block \<and> user_block < snd r) then (False, s)
         else if em_reserve_area_begin m \<le> user_block then (False, s)
         else if mapped_block_idx \<noteq> block \<and> find_rblock mapped_block_idx s = None then (False, s)
         else
           (let maybe = (if mapped_block_idx \<noteq> block then find_rblock mapped_block_idx s else None);
                (ret, s1) = w_remap_block nd be block maybe copy_len s;
                s2 = snd (w_sync_tables nd be s1)
            in (ret \<noteq> - ENOSPC, s2)))"

definition pub_unmap_block :: "'d nand_ops \<Rightarrow> bool \<Rightarrow> nat \<Rightarrow> 'd bmt_st \<Rightarrow> 'd bmt_st" where
  "pub_unmap_block nd be user_block s =
     (let block = get_mapping_block_bbt (int user_block) s
      in if block < 0 \<or> em_reserve_area_begin (en75 s) \<le> user_block then s
         else snd (w_sync_tables nd be (snd (w_unmap_block nd (to_u16 block) UE_REQUIRE_ERASE s))))"

definition pub_debug :: "nat \<Rightarrow> 'd bmt_st \<Rightarrow> int \<times> 'd bmt_st" where
  "pub_debug val s = (0, s)"

definition pub_get_mapping_block :: "int \<Rightarrow> 'd bmt_st \<Rightarrow> int" where
  "pub_get_mapping_block user_block s = get_mapping_block user_block s"

definition en75_bmt_ops :: "'d nand_ops \<Rightarrow> bool \<Rightarrow> 'd mtk_bmt_ops" where
  "en75_bmt_ops nd be =
     \<lparr>op_sig = [], op_remap_block = pub_remap_block nd be, op_unmap_block = pub_unmap_block nd be,
      op_get_mapping_block = pub_get_mapping_block, op_debug = pub_debug\<rparr>"

end
