(* ===== verification/En75_Map.thy ===== *)
theory En75_Map
  imports En75_Bmt
begin

unbundle bit_operations_syntax

text \<open>
  Properties of the EcoNet scheme that do not depend on its start: the mapping is injective, so
  that the contract of the common layer holds, and storing the tables and replacing a block
  change no byte behind any other logical block. \<open>tends\<close> describes what storing the tables may
  do; it is proved of every routine that the work goes through.
\<close>

section \<open>The mapping\<close>

text \<open>The shift over factory bad blocks is strictly increasing, whatever the table holds.\<close>

definition bbt_shift :: "nat list \<Rightarrow> nat \<Rightarrow> nat" where
  "bbt_shift es b = foldl (\<lambda>b e. if e \<le> b then b + 1 else b) b es"

lemma bbt_shift_simps [simp]:
  "bbt_shift [] b = b" "bbt_shift (e # es) b = bbt_shift es (if e \<le> b then b + 1 else b)"
  "bbt_shift (es @ [e]) b = (if e \<le> bbt_shift es b then bbt_shift es b + 1 else bbt_shift es b)"
  by (simp_all add: bbt_shift_def)

lemma bbt_shift_int: "foldl (\<lambda>b e. if int e \<le> b then b + 1 else b) (int b) es = int (bbt_shift es b)"
proof (induction es arbitrary: b)
  case (Cons e es)
  then show ?case using Cons.IH[of "b + 1"] Cons.IH[of b] by (simp add: add.commute)
qed simp

lemma bbt_shift_less: "b < c \<Longrightarrow> bbt_shift es b < bbt_shift es c"
  by (induction es arbitrary: b c) auto

lemma bbt_shift_bounds: "b \<le> bbt_shift es b \<and> bbt_shift es b \<le> b + length es"
proof (induction es arbitrary: b)
  case (Cons e es)
  show ?case
    using conjunct1[OF Cons.IH[of "b + 1"]] conjunct2[OF Cons.IH[of "b + 1"]] conjunct2[OF Cons.IH[of b]]
      conjunct1[OF Cons.IH[of b]] by auto
qed simp

lemma bbt_shift_inj: "bbt_shift es b = bbt_shift es c \<Longrightarrow> b = c"
  using bbt_shift_less[of b c es] bbt_shift_less[of c b es] by (cases b c rule: linorder_cases) auto

text \<open>With an ascending table it skips exactly the blocks of the table.\<close>

lemma bbt_shift_skips: "sorted_wrt (<) es \<Longrightarrow> bbt_shift es b \<notin> set es"
proof (induction es rule: rev_induct)
  case (snoc e es)
  have below: "\<forall>x \<in> set es. x < e" and s: "sorted_wrt (<) es" using snoc.prems by (auto simp: sorted_wrt_append)
  have "bbt_shift es b \<notin> set es" by (rule snoc.IH[OF s])
  moreover have "bbt_shift es b + 1 \<notin> set es" if "e \<le> bbt_shift es b" using that below by auto
  ultimately show ?case by auto
qed simp

lemma bbt_shift_image:
  assumes "sorted_wrt (<) es" "\<forall>e \<in> set es. e < n" "length es \<le> n"
  shows "bbt_shift es ` {..<n - length es} = {..<n} - set es"
proof (rule card_subset_eq)
  show "bbt_shift es ` {..<n - length es} \<subseteq> {..<n} - set es"
  proof
    fix y assume "y \<in> bbt_shift es ` {..<n - length es}"
    then obtain b where b: "y = bbt_shift es b" "b < n - length es" by auto
    then show "y \<in> {..<n} - set es" using bbt_shift_skips[OF assms(1), of b] bbt_shift_bounds[of b es] by auto
  qed
  have d: "distinct es" using assms(1) strict_sorted_iff by blast
  have "inj_on (bbt_shift es) {..<n - length es}" by (auto simp: inj_on_def intro: bbt_shift_inj)
  then have "card (bbt_shift es ` {..<n - length es}) = n - length es" by (simp add: card_image)
  also have "\<dots> = card ({..<n} - set es)"
    using assms(2) d by (subst card_Diff_subset) (auto simp: distinct_card)
  finally show "card (bbt_shift es ` {..<n - length es}) = card ({..<n} - set es)" .
qed simp

lemma strict_mono_list_eq:
  fixes xs ys :: "nat list"
  assumes "sorted_wrt (<) xs" "sorted_wrt (<) ys" "set xs = set ys"
  shows "xs = ys"
  using assms strict_sorted_equal by blast

lemma bbt_shift_enumerates:
  assumes "sorted_wrt (<) es" "\<forall>e \<in> set es. e < n" "length es \<le> n"
  shows "map (bbt_shift es) [0..<n - length es] = filter (\<lambda>b. b \<notin> set es) [0..<n]"
proof (rule strict_mono_list_eq)
  show "sorted_wrt (<) (map (bbt_shift es) [0..<n - length es])"
    by (auto simp: sorted_wrt_iff_nth_less intro: bbt_shift_less)
  show "sorted_wrt (<) (filter (\<lambda>b. b \<notin> set es) [0..<n])" by (intro sorted_wrt_filter) simp
  have "{0..<k} = {..<k}" for k :: nat by auto
  then show "set (map (bbt_shift es) [0..<n - length es]) = set (filter (\<lambda>b. b \<notin> set es) [0..<n])"
    using bbt_shift_image[OF assms] by auto
qed

section \<open>The invariant\<close>

definition en75_user_blocks :: "'d bmt_st \<Rightarrow> nat" where
  "en75_user_blocks s = em_reserve_area_begin (en75 s) - ft_size (em_bbt (en75 s))"

text \<open>
  The tables have their sizes; \<open>rblocks\<close> lists the reserve area from the top; no block is mapped
  twice and no two blocks to the same; the target of a mapping is a block of the reserve area
  that is known as mapped.
\<close>

definition tables_sized :: "en75_bmt_m \<Rightarrow> bool" where
  "tables_sized m \<longleftrightarrow>
     length (mt_table (em_bmt m)) = MAX_BMT_SIZE \<and> mt_size (em_bmt m) < 256 \<and>
     length (ft_table (em_bbt m)) = MAX_BBT_SIZE \<and> ft_size (em_bbt m) < 256 \<and> em_bbt_table_size m \<le> MAX_BBT_SIZE \<and>
     length (mt_signature (em_bmt m)) = 3 \<and> length (mt_reserved (em_bmt m)) = 13 \<and>
     length (ft_signature (em_bbt m)) = 4 \<and> length (ft_reserved (em_bbt m)) = 2"

definition worn_ok :: "nat \<Rightarrow> en75_bmt_m \<Rightarrow> bool" where
  "worn_ok n m \<longleftrightarrow>
     distinct (map fst (worn_map m)) \<and> distinct (map snd (worn_map m)) \<and>
     (\<forall>e \<in> set (worn_map m). fst e < em_reserve_area_begin m \<and> em_reserve_area_begin m \<le> snd e \<and> snd e < n) \<and>
     (\<forall>rb \<in> set (em_rblocks m). bi_index rb \<in> snd ` set (worn_map m) \<longrightarrow> bi_status rb = BS_MAPPED)"

definition en75_inv :: "'d bmt_st \<Rightarrow> bool" where
  "en75_inv s \<longleftrightarrow>
     tables_sized (en75 s) \<and> ft_size (em_bbt (en75 s)) \<le> em_reserve_area_begin (en75 s) \<and>
     em_reserve_area_begin (en75 s) \<le> total_blks s \<and> total_blks s < 65536 \<and>
     map bi_index (em_rblocks (en75 s)) = rev [em_reserve_area_begin (en75 s)..<total_blks s] \<and>
     worn_ok (total_blks s) (en75 s)"

lemma length_factory_bad: "tables_sized m \<Longrightarrow> length (factory_bad m) = ft_size (em_bbt m)"
  by (simp add: factory_bad_def tables_sized_def MAX_BBT_SIZE_def)

lemma length_worn_map: "tables_sized m \<Longrightarrow> length (worn_map m) = mt_size (em_bmt m)"
  by (simp add: worn_map_def tables_sized_def MAX_BMT_SIZE_def)

lemma user_block_eq:
  assumes "en75_inv s" "x < en75_user_blocks s"
  shows "get_mapping_block_bbt (int x) s = int (bbt_shift (factory_bad (en75 s)) x)"
    "bbt_shift (factory_bad (en75 s)) x < em_reserve_area_begin (en75 s)"
proof -
  have "bbt_shift (factory_bad (en75 s)) x \<le> x + ft_size (em_bbt (en75 s))"
    using bbt_shift_bounds[of x "factory_bad (en75 s)"] assms(1) length_factory_bad by (simp add: en75_inv_def)
  then show lt: "bbt_shift (factory_bad (en75 s)) x < em_reserve_area_begin (en75 s)"
    using assms(2) by (simp add: en75_user_blocks_def)
  then show "get_mapping_block_bbt (int x) s = int (bbt_shift (factory_bad (en75 s)) x)"
    by (simp add: get_mapping_block_bbt_def bbt_shift_int Let_def)
qed

text \<open>The mapping of the blocks of the user area as a function.\<close>

definition worn_target :: "en75_bmt_m \<Rightarrow> nat \<Rightarrow> nat" where
  "worn_target m b = (case map_of (worn_map m) b of Some t \<Rightarrow> t | None \<Rightarrow> b)"

lemma find_rev_map_of:
  assumes "distinct (map fst es)"
  shows "find (\<lambda>e. fst e = b) (rev es) = map_option (Pair b) (map_of es b)"
proof -
  have "map_of (rev es) = map_of es"
    using assms by (metis distinct_rev map_of_inject_set rev_map set_rev)
  moreover have "find (\<lambda>e. fst e = b) xs = map_option (Pair b) (map_of xs b)" for xs :: "('a \<times> 'b) list"
    by (induction xs) auto
  ultimately show ?thesis by simp
qed

lemma mapping_eq:
  assumes "en75_inv s" "x < en75_user_blocks s"
  shows "get_mapping_block (int x) s = int (worn_target (en75 s) (bbt_shift (factory_bad (en75 s)) x))"
proof -
  have d: "distinct (map fst (worn_map (en75 s)))" using assms(1) by (simp add: en75_inv_def worn_ok_def)
  show ?thesis
    unfolding get_mapping_block_def user_block_eq(1)[OF assms] Let_def of_nat_eq_iff find_rev_map_of[OF d]
    by (auto simp: worn_target_def split: option.split)
qed

lemma map_of_inj:
  assumes "distinct (map snd es)" "map_of es a = Some t" "map_of es b = Some t"
  shows "a = b"
proof -
  have "(a, t) \<in> set es" "(b, t) \<in> set es" using assms(2,3) by (auto dest: map_of_SomeD)
  moreover have "inj_on snd (set es)" using assms(1) by (simp add: distinct_map)
  ultimately have "(a, t) = (b, t)" by (metis inj_onD snd_conv)
  then show ?thesis by simp
qed

lemma worn_target_inj:
  assumes "worn_ok n m" "a < em_reserve_area_begin m" "b < em_reserve_area_begin m" "worn_target m a = worn_target m b"
  shows "a = b"
proof -
  have hi: "em_reserve_area_begin m \<le> t" if "map_of (worn_map m) c = Some t" for c t
    using assms(1) that by (auto simp: worn_ok_def dest!: map_of_SomeD)
  have d: "distinct (map snd (worn_map m))" using assms(1) by (simp add: worn_ok_def)
  show ?thesis
    using assms(2-4) hi[of a] hi[of b] map_of_inj[OF d, of a _ b] by (auto simp: worn_target_def split: option.splits)
qed

lemma worn_target_bound:
  assumes "worn_ok n m" "b < em_reserve_area_begin m" "em_reserve_area_begin m \<le> n"
  shows "worn_target m b < n"
  using assms by (fastforce simp: worn_target_def worn_ok_def split: option.splits dest: map_of_SomeD)

lemma en75_inv_dev [simp]: "en75_inv (s\<lparr>dev := d\<rparr>) = en75_inv s"
  by (simp add: en75_inv_def)

lemma en75_inv_data_buf [simp]: "en75_inv (s\<lparr>data_buf := d\<rparr>) = en75_inv s"
  by (simp add: en75_inv_def)

lemma en75_mapping_bounds:
  assumes "en75_inv s" "x < en75_user_blocks s"
  shows "0 \<le> get_mapping_block (int x) s \<and> get_mapping_block (int x) s < int (total_blks s)"
proof -
  have "worn_ok (total_blks s) (en75 s)" "em_reserve_area_begin (en75 s) \<le> total_blks s"
    using assms(1) by (simp_all add: en75_inv_def)
  from worn_target_bound[OF this(1) user_block_eq(2)[OF assms] this(2)] show ?thesis
    unfolding mapping_eq[OF assms] by simp
qed

lemma en75_mapping_inj:
  assumes "en75_inv s" "x < en75_user_blocks s" "y < en75_user_blocks s"
    and "get_mapping_block (int x) s = get_mapping_block (int y) s"
  shows "x = y"
proof -
  have w: "worn_ok (total_blks s) (en75 s)" using assms(1) by (simp add: en75_inv_def)
  have "worn_target (en75 s) (bbt_shift (factory_bad (en75 s)) x) = worn_target (en75 s) (bbt_shift (factory_bad (en75 s)) y)"
    using assms(4) unfolding mapping_eq[OF assms(1,2)] mapping_eq[OF assms(1,3)] of_nat_eq_iff .
  from worn_target_inj[OF w user_block_eq(2)[OF assms(1,2)] user_block_eq(2)[OF assms(1,3)] this]
  show ?thesis by (rule bbt_shift_inj)
qed

lemma get_mapping_block_cong: "en75 t = en75 s \<Longrightarrow> get_mapping_block b t = get_mapping_block b s"
  by (simp only: get_mapping_block_def get_mapping_block_bbt_def)

lemma en75_user_blocks_le: "en75_inv s \<Longrightarrow> en75_user_blocks s \<le> total_blks s"
  unfolding en75_user_blocks_def en75_inv_def by (meson diff_le_self le_trans)

interpretation en75_backend: bmt_backend "en75_bmt_ops nd be" en75_inv en75_user_blocks for nd :: "'d nand_ops" and be
proof (unfold_locales, unfold en75_bmt_ops_def mtk_bmt_ops.simps pub_get_mapping_block_def, goal_cases)
  case (1 s)
  then show ?case by (rule en75_user_blocks_le)
next
  case (2 s x)
  then show ?case by (rule en75_mapping_bounds)
next
  case (3 s x y)
  then show ?case by (rule en75_mapping_inj)
next
  case (4 b s d)
  then show ?case by (rule get_mapping_block_cong) simp
next
  case (5 s d)
  then show ?case by simp
next
  case (6 s d)
  then show ?case by (simp add: en75_user_blocks_def)
qed

section \<open>What storing the tables may do\<close>

text \<open>
  \<open>same_maps\<close>: the mapping and the set of mapped blocks stay; checksums, unused entries and the
  state of the other blocks of the reserve area may change.
\<close>

definition same_maps :: "en75_bmt_m \<Rightarrow> en75_bmt_m \<Rightarrow> bool" where
  "same_maps m m' \<longleftrightarrow>
     em_reserve_area_begin m' = em_reserve_area_begin m \<and> em_can_remap_ranges m' = em_can_remap_ranges m \<and>
     factory_bad m' = factory_bad m \<and> ft_size (em_bbt m') = ft_size (em_bbt m) \<and>
     worn_map m' = worn_map m \<and> mt_size (em_bmt m') = mt_size (em_bmt m) \<and>
     map bi_index (em_rblocks m') = map bi_index (em_rblocks m) \<and>
     map (\<lambda>b. bi_status b = BS_MAPPED) (em_rblocks m') = map (\<lambda>b. bi_status b = BS_MAPPED) (em_rblocks m) \<and>
     (tables_sized m \<longrightarrow> tables_sized m')"

definition in_block :: "'d bmt_st \<Rightarrow> nat \<Rightarrow> nat \<Rightarrow> bool" where
  "in_block s b x \<longleftrightarrow> b * 2 ^ blk_shift s \<le> x \<and> x < b * 2 ^ blk_shift s + 2 ^ blk_shift s"

definition spare_area :: "'d bmt_st \<Rightarrow> nat \<Rightarrow> bool" where
  "spare_area s x \<longleftrightarrow>
     (\<exists>i < length (em_rblocks (en75 s)). bi_status (em_rblocks (en75 s) ! i) \<noteq> BS_MAPPED \<and>
        in_block s (bi_index (em_rblocks (en75 s) ! i)) x)"

definition tends :: "('d \<Rightarrow> nat \<Rightarrow> u8) \<Rightarrow> 'd bmt_st \<Rightarrow> 'd bmt_st \<Rightarrow> bool" where
  "tends mem s t \<longleftrightarrow>
     (\<exists>d m. t = s\<lparr>dev := d, en75 := m\<rparr>) \<and> same_maps (en75 s) (en75 t) \<and>
     (\<forall>x. \<not> spare_area s x \<longrightarrow> mem (dev t) x = mem (dev s) x)"

lemma same_maps_refl [simp]: "same_maps m m"
  by (simp add: same_maps_def)

lemma same_maps_nth:
  assumes "same_maps m m'"
  shows "length (em_rblocks m') = length (em_rblocks m)"
    "i < length (em_rblocks m) \<Longrightarrow> bi_index (em_rblocks m' ! i) = bi_index (em_rblocks m ! i)"
    "i < length (em_rblocks m) \<Longrightarrow> bi_status (em_rblocks m' ! i) = BS_MAPPED \<longleftrightarrow> bi_status (em_rblocks m ! i) = BS_MAPPED"
proof -
  have i: "map bi_index (em_rblocks m') = map bi_index (em_rblocks m)"
    and b: "map (\<lambda>b. bi_status b = BS_MAPPED) (em_rblocks m') = map (\<lambda>b. bi_status b = BS_MAPPED) (em_rblocks m)"
    using assms by (simp_all add: same_maps_def)
  from i show l: "length (em_rblocks m') = length (em_rblocks m)" by (metis length_map)
  assume lt: "i < length (em_rblocks m)"
  show "bi_index (em_rblocks m' ! i) = bi_index (em_rblocks m ! i)"
    using arg_cong[OF i, of "\<lambda>xs. xs ! i"] l lt by simp
  show "bi_status (em_rblocks m' ! i) = BS_MAPPED \<longleftrightarrow> bi_status (em_rblocks m ! i) = BS_MAPPED"
    using arg_cong[OF b, of "\<lambda>xs. xs ! i"] l lt by simp
qed

lemma tends_fields:
  assumes "tends mem s t"
  shows "blk_shift t = blk_shift s" "total_blks t = total_blks s" "blk_size t = blk_size s" "pg_size t = pg_size s"
    "data_buf t = data_buf s" "mtd_erasesize t = mtd_erasesize s"
  using assms by (auto simp: tends_def)

lemma spare_area_tends:
  assumes "tends mem s t"
  shows "spare_area t x = spare_area s x"
proof -
  have sm: "same_maps (en75 s) (en75 t)" using assms by (simp add: tends_def)
  show ?thesis
    unfolding spare_area_def in_block_def tends_fields[OF assms] same_maps_nth(1)[OF sm]
    using same_maps_nth(2,3)[OF sm] by (metis (no_types, lifting))
qed

lemma tends_refl [simp]: "tends mem s s"
  by (auto simp: tends_def intro!: exI[of _ "dev s"] exI[of _ "en75 s"])

lemma same_maps_trans: "same_maps a b \<Longrightarrow> same_maps b c \<Longrightarrow> same_maps a c"
  by (simp add: same_maps_def)

lemma tends_trans:
  assumes "tends mem s t" "tends mem t u"
  shows "tends mem s u"
proof -
  obtain d m d' m' where "t = s\<lparr>dev := d, en75 := m\<rparr>" "u = t\<lparr>dev := d', en75 := m'\<rparr>"
    using assms unfolding tends_def by blast
  then have "u = s\<lparr>dev := d', en75 := m'\<rparr>" by simp
  moreover have "same_maps (en75 s) (en75 u)"
    using assms unfolding tends_def by (blast intro: same_maps_trans)
  moreover have "mem (dev u) x = mem (dev s) x" if "\<not> spare_area s x" for x
    using assms that spare_area_tends[OF assms(1)] unfolding tends_def by metis
  ultimately show ?thesis unfolding tends_def by blast
qed

text \<open>Steps that change the chip only, and steps that change the memory only.\<close>

lemma tends_dev:
  assumes "\<And>x. \<not> spare_area s x \<Longrightarrow> mem d x = mem (dev s) x"
  shows "tends mem s (s\<lparr>dev := d\<rparr>)"
  unfolding tends_def
proof (intro conjI)
  show "\<exists>d' m. s\<lparr>dev := d\<rparr> = s\<lparr>dev := d', en75 := m\<rparr>"
    by (intro exI[of _ d] exI[of _ "en75 s"]) simp
qed (use assms in auto)

lemma tends_mem:
  assumes "same_maps (en75 s) m"
  shows "tends mem s (s\<lparr>en75 := m\<rparr>)"
  unfolding tends_def
proof (intro conjI)
  show "\<exists>d m'. s\<lparr>en75 := m\<rparr> = s\<lparr>dev := d, en75 := m'\<rparr>"
    by (intro exI[of _ "dev s"] exI[of _ m]) simp
qed (use assms in auto)

lemma tends_set_status:
  assumes "i < length (em_rblocks (en75 s))" "bi_status (em_rblocks (en75 s) ! i) \<noteq> BS_MAPPED" "st \<noteq> BS_MAPPED"
  shows "tends mem s (set_status i st s)"
  unfolding set_status_def
proof (rule tends_mem)
  show "same_maps (en75 s) ((en75 s)\<lparr>em_rblocks := (em_rblocks (en75 s))[i := (em_rblocks (en75 s) ! i)\<lparr>bi_status := st\<rparr>]\<rparr>)"
    using assms
    by (auto simp: same_maps_def tables_sized_def factory_bad_def worn_map_def list_eq_iff_nth_eq nth_list_update)
qed

lemma tends_mark_for_erasure: "st \<noteq> BS_MAPPED \<Longrightarrow> tends mem s (mark_for_erasure st s)"
  unfolding mark_for_erasure_def
  by (rule tends_mem) (auto simp: same_maps_def tables_sized_def factory_bad_def worn_map_def)

section \<open>The chip\<close>

lemma write_attempts_dev: "\<exists>d. snd (write_attempts nd n addr rq ret s) = s\<lparr>dev := d\<rparr>"
proof (induction n arbitrary: ret s)
  case 0
  then show ?case by (auto intro: exI[of _ "dev s"])
next
  case (Suc n)
  obtain w d where w: "nd_write_oob nd (dev s) addr rq = (w, d)" by fastforce
  obtain d' where "snd (write_attempts nd n addr rq (wr_ret w) (s\<lparr>dev := d\<rparr>)) = s\<lparr>dev := d\<rparr>\<lparr>dev := d'\<rparr>"
    using Suc.IH by blast
  then show ?case using w by auto
qed

lemma write_attempts_mem:
  assumes "local_chip nd mem" "\<not> (addr \<le> x \<and> x < addr + rq_len rq)"
  shows "mem (dev (snd (write_attempts nd n addr rq ret s))) x = mem (dev s) x"
proof (induction n arbitrary: ret s)
  case (Suc n)
  obtain w d where w: "nd_write_oob nd (dev s) addr rq = (w, d)" by fastforce
  have "mem (snd (nd_write_oob nd (dev s) addr rq)) x = mem (dev s) x"
    using assms unfolding local_chip_def by blast
  then have "mem d x = mem (dev s) x" using w by simp
  then show ?case using w Suc.IH[of "wr_ret w" "s\<lparr>dev := d\<rparr>"] by simp
qed simp

lemma w_write_dev: "\<exists>d. snd (w_write nd bi user buf oob s) = s\<lparr>dev := d\<rparr>"
  unfolding w_write_def using write_attempts_dev by (auto intro: exI[of _ "dev s"])

lemma w_write_en75 [simp]: "en75 (snd (w_write nd bi user buf oob s)) = en75 s"
proof -
  obtain d where "snd (w_write nd bi user buf oob s) = s\<lparr>dev := d\<rparr>" using w_write_dev[of nd bi user buf oob s] by auto
  then show ?thesis by simp
qed

lemma w_write_tends:
  assumes "local_chip nd mem"
    and "oob \<or> (length buf \<le> 2 ^ blk_shift s \<and>
      (\<exists>i < length (em_rblocks (en75 s)). bi_status (em_rblocks (en75 s) ! i) \<noteq> BS_MAPPED \<and> bi = bi_index (em_rblocks (en75 s) ! i)))"
  shows "tends mem s (snd (w_write nd bi user buf oob s))"
proof -
  obtain d where d: "snd (w_write nd bi user buf oob s) = s\<lparr>dev := d\<rparr>" using w_write_dev[of nd bi user buf oob s] by auto
  have "mem d x = mem (dev s) x" if x: "\<not> spare_area s x" for x
  proof (cases "block_index_is_sane bi user s")
    case True
    define rq where "rq = \<lparr>rq_mode = MTD_OPS_PLACE_OOB, rq_ooboffs = 0, rq_ooblen = (if oob then length buf else 0),
      rq_len = (if oob then 0 else length buf), rq_dat = (if oob then [] else buf), rq_oob = (if oob then buf else [])\<rparr>"
    have "\<not> (bi * 2 ^ blk_shift s \<le> x \<and> x < bi * 2 ^ blk_shift s + rq_len rq)"
    proof (cases oob)
      case False
      then obtain i where i: "i < length (em_rblocks (en75 s))" "bi_status (em_rblocks (en75 s) ! i) \<noteq> BS_MAPPED"
          "bi = bi_index (em_rblocks (en75 s) ! i)" and len: "length buf \<le> 2 ^ blk_shift s"
        using assms(2) by blast
      then have "\<not> in_block s bi x" using x by (auto simp: spare_area_def)
      then show ?thesis using len False by (auto simp: in_block_def rq_def)
    qed (simp add: rq_def)
    from write_attempts_mem[OF assms(1) this, of WRITE_TRIES 0 s] show ?thesis
      using d True by (simp add: w_write_def rq_def)
  next
    case False
    then have "s\<lparr>dev := d\<rparr> = s" using d by (simp add: w_write_def)
    then show ?thesis by (metis bmt_st.select_convs(1) bmt_st.surjective bmt_st.update_convs(1))
  qed
  then show ?thesis unfolding d by (rule tends_dev)
qed

lemma erase_attempts_dev: "\<exists>d. snd (erase_attempts nd n bi ret s) = s\<lparr>dev := d\<rparr>"
proof (induction n arbitrary: ret s)
  case 0
  then show ?case by (auto intro: exI[of _ "dev s"])
next
  case (Suc n)
  obtain r d where w: "bbt_nand_erase nd bi s = (r, s\<lparr>dev := d\<rparr>)"
    using bbt_nand_erase_dev[of nd bi s] by (metis prod.collapse)
  obtain d' where "snd (erase_attempts nd n bi r (s\<lparr>dev := d\<rparr>)) = s\<lparr>dev := d\<rparr>\<lparr>dev := d'\<rparr>"
    using Suc.IH by blast
  then show ?case using w by auto
qed

lemma erase_attempts_mem:
  assumes "local_chip nd mem" "blk_size s = 2 ^ blk_shift s" "\<not> in_block s bi x"
  shows "mem (dev (snd (erase_attempts nd n bi ret s))) x = mem (dev s) x"
  using assms(2,3)
proof (induction n arbitrary: ret s)
  case (Suc n)
  obtain r d where w: "nd_erase nd (dev s) (bi * 2 ^ blk_shift s) (blk_size s) = (r, d)" by fastforce
  have "\<not> (bi * 2 ^ blk_shift s \<le> x \<and> x < bi * 2 ^ blk_shift s + blk_size s)"
    using Suc.prems by (simp add: in_block_def)
  then have "mem (snd (nd_erase nd (dev s) (bi * 2 ^ blk_shift s) (blk_size s))) x = mem (dev s) x"
    using assms(1) unfolding local_chip_def by blast
  then have "mem d x = mem (dev s) x" using w by simp
  moreover have "mem (dev (snd (erase_attempts nd n bi r (s\<lparr>dev := d\<rparr>)))) x = mem (dev (s\<lparr>dev := d\<rparr>)) x"
    using Suc.prems by (intro Suc.IH) (simp_all add: in_block_def)
  ultimately show ?case using w by (simp add: bbt_nand_erase_def)
qed simp

lemma w_erase_one_dev: "\<exists>d. snd (w_erase_one nd bi user s) = s\<lparr>dev := d\<rparr>"
  unfolding w_erase_one_def using erase_attempts_dev by (auto intro: exI[of _ "dev s"])

lemma w_erase_one_tends:
  assumes "local_chip nd mem" "blk_size s = 2 ^ blk_shift s" "i < length (em_rblocks (en75 s))"
    and "bi_status (em_rblocks (en75 s) ! i) \<noteq> BS_MAPPED"
  shows "tends mem s (snd (w_erase_one nd (bi_index (em_rblocks (en75 s) ! i)) user s))"
proof -
  obtain d where d: "snd (w_erase_one nd (bi_index (em_rblocks (en75 s) ! i)) user s) = s\<lparr>dev := d\<rparr>"
    using w_erase_one_dev[of nd _ user s] by auto
  have "mem d x = mem (dev s) x" if x: "\<not> spare_area s x" for x
  proof (cases "block_index_is_sane (bi_index (em_rblocks (en75 s) ! i)) user s")
    case True
    have "\<not> in_block s (bi_index (em_rblocks (en75 s) ! i)) x" using x assms(3,4) by (auto simp: spare_area_def)
    from erase_attempts_mem[OF assms(1,2) this, of ERASE_TRIES 0] show ?thesis
      using d True by (simp add: w_erase_one_def)
  next
    case False
    then have "s\<lparr>dev := d\<rparr> = s" using d by (simp add: w_erase_one_def)
    then show ?thesis by (metis bmt_st.select_convs(1) bmt_st.surjective bmt_st.update_convs(1))
  qed
  then show ?thesis unfolding d by (rule tends_dev)
qed

section \<open>Storing the tables keeps the mapping\<close>

definition en75_geometry :: "'d bmt_st \<Rightarrow> bool" where
  "en75_geometry s \<longleftrightarrow>
     bmt_geometry s \<and> 0 < pg_size s \<and> pg_size s dvd 2 ^ blk_shift s \<and> 2012 \<le> (2 :: nat) ^ blk_shift s"

lemma en75_geometry_tends: "tends mem s t \<Longrightarrow> en75_geometry t = en75_geometry s"
  by (auto simp: tends_def en75_geometry_def bmt_geometry_def)

lemma find_available_Some:
  assumes "find_available_block b s = Some i"
  shows "i < length (em_rblocks (en75 s)) \<and> bi_status (em_rblocks (en75 s) ! i) = BS_AVAILABLE"
  using assms by (auto simp: find_available_block_def Let_def find_Some_iff rev_nth split: if_splits)

lemma w_erase_one_en75 [simp]: "en75 (snd (w_erase_one nd bi user s)) = en75 s"
  using w_erase_one_dev[of nd bi user s] by auto

lemma erase_pending_step_tends:
  assumes "local_chip nd mem" "en75_geometry s" "i < length (em_rblocks (en75 s))"
  shows "tends mem s (erase_pending_step nd i s)"
proof (cases "bi_status (em_rblocks (en75 s) ! i) = BS_NEED_ERASE")
  case True
  let ?b = "bi_index (em_rblocks (en75 s) ! i)"
  obtain ret s1 where e: "w_erase_one nd ?b False s = (ret, s1)" by fastforce
  have "tends mem s (snd (w_erase_one nd ?b False s))"
    by (rule w_erase_one_tends) (use assms True in \<open>simp_all add: en75_geometry_def bmt_geometry_def\<close>)
  then have t1: "tends mem s s1" using e by simp
  have m1: "en75 s1 = en75 s" using w_erase_one_en75[of nd ?b False s] e by simp
  have t2: "tends mem s1 (snd (w_mark_bad nd ?b False s1))"
    unfolding w_mark_bad_def by (rule w_write_tends[OF assms(1)]) simp
  have m2: "en75 (snd (w_mark_bad nd ?b False s1)) = en75 s" using m1 by (simp add: w_mark_bad_def)
  have st: "tends mem u (set_status i st u)" if "en75 u = en75 s" "st \<noteq> BS_MAPPED" for u st
    using that assms(3) True by (intro tends_set_status) simp_all
  show ?thesis
    using True e t1 t2 m1 m2 by (auto simp: erase_pending_step_def Let_def intro!: tends_trans[OF t1] st intro: tends_trans[OF t2])
qed (simp add: erase_pending_step_def)

lemma erase_steps_tend:
  assumes "local_chip nd mem" "en75_geometry s" "\<forall>i \<in> set is. i < length (em_rblocks (en75 s))"
  shows "tends mem s (fold (erase_pending_step nd) is s)"
  using assms(2,3)
proof (induction "is" arbitrary: s)
  case (Cons i "is")
  have t: "tends mem s (erase_pending_step nd i s)" using Cons.prems by (intro erase_pending_step_tends[OF assms(1)]) auto
  then have "length (em_rblocks (en75 (erase_pending_step nd i s))) = length (em_rblocks (en75 s))"
    by (simp add: tends_def same_maps_nth(1))
  then have "tends mem (erase_pending_step nd i s) (fold (erase_pending_step nd) is (erase_pending_step nd i s))"
    using Cons.prems en75_geometry_tends[OF t] by (intro Cons.IH) auto
  then show ?case using tends_trans[OF t] by simp
qed simp

lemma w_erase_pending_tends:
  assumes "local_chip nd mem" "en75_geometry s"
  shows "tends mem s (w_erase_pending nd s)"
  unfolding w_erase_pending_def by (rule erase_steps_tend[OF assms]) simp

lemma update_table_loop_tends:
  assumes "local_chip nd mem" "length buf \<le> 2 ^ blk_shift s" "update_table_loop nd n b buf s = (r, t)"
  shows "tends mem s t \<and> (\<forall>i. r = Inr i \<longrightarrow> i < length (em_rblocks (en75 t)) \<and> bi_status (em_rblocks (en75 t) ! i) \<noteq> BS_MAPPED)"
  using assms(2,3)
proof (induction n arbitrary: s)
  case (Suc n)
  show ?case
  proof (cases "find_available_block b s")
    case (Some i)
    have i: "i < length (em_rblocks (en75 s))" "bi_status (em_rblocks (en75 s) ! i) = BS_AVAILABLE"
      using find_available_Some[OF Some] by simp_all
    obtain ret s1 where w: "w_write nd (bi_index (em_rblocks (en75 s) ! i)) False buf False s = (ret, s1)" by fastforce
    have "tends mem s (snd (w_write nd (bi_index (em_rblocks (en75 s) ! i)) False buf False s))"
      using Suc.prems(1) i by (intro w_write_tends[OF assms(1)]) auto
    then have t1: "tends mem s s1" using w by simp
    have m1: "en75 s1 = en75 s" using w_write_en75[of nd _ False buf False s] w by (metis snd_conv)
    have t2: "tends mem s1 (set_status i BS_NEED_ERASE s1)" using i m1 by (intro tends_set_status) simp_all
    show ?thesis
    proof (cases "ret = 0")
      case True
      then show ?thesis using Suc.prems(2) Some w t1 m1 i by auto
    next
      case False
      have "blk_shift (set_status i BS_NEED_ERASE s1) = blk_shift s"
        using tends_fields(1)[OF tends_trans[OF t1 t2]] .
      then show ?thesis
        using Suc.IH[of "set_status i BS_NEED_ERASE s1"] Suc.prems Some w False tends_trans[OF tends_trans[OF t1 t2]] by auto
    qed
  qed (use Suc.prems in auto)
qed auto

lemma length_concat_const: "\<forall>x \<in> set xs. length (f x) = k \<Longrightarrow> length (concat (map f xs)) = k * length xs"
  by (induction xs) auto

lemma length_host_bytes [simp]: "length (host_bytes be k n) = k"
  by (simp add: host_bytes_def Let_def)

lemma length_bmt_bytes: "tables_sized m \<Longrightarrow> length (en75_bmt_bytes be (em_bmt m)) = 1044"
  using length_concat_const[of "mt_table (em_bmt m)" "bmt_entry_bytes be" 4]
  by (simp add: en75_bmt_bytes_def tables_sized_def MAX_BMT_SIZE_def bmt_entry_bytes_def)

lemma length_bbt_bytes:
  "tables_sized m \<Longrightarrow> length (en75_bbt_bytes be (em_bbt_table_size m) (em_bbt m)) = 12 + 2 * em_bbt_table_size m"
  using length_concat_const[of "take (em_bbt_table_size m) (ft_table (em_bbt m))" "host_bytes be 2" 2]
  by (simp add: en75_bbt_bytes_def tables_sized_def)

lemma take_clear_range [simp]: "take lo (clear_range lo hi z xs) = take lo xs"
  by (cases "lo \<le> length xs") (simp_all add: clear_range_def)

lemma length_clear_range [simp]: "lo \<le> length xs \<Longrightarrow> length (clear_range lo hi z xs) = length xs"
  by (simp add: clear_range_def)

lemma tends_prepare:
  assumes "tables_sized (en75 s)"
  shows "tends mem s (prepare_bmt be s)" "tends mem s (prepare_bbt be s)"
  unfolding prepare_bmt_def prepare_bbt_def Let_def
  by (rule tends_mem; use assms in
    \<open>simp add: same_maps_def tables_sized_def factory_bad_def worn_map_def MAX_BMT_SIZE_def MAX_BBT_SIZE_def\<close>)+

lemma tends_dirty: "tends mem s (s\<lparr>en75 := (en75 s)\<lparr>em_bmt_dirty := d\<rparr>\<rparr>)" "tends mem s (s\<lparr>en75 := (en75 s)\<lparr>em_bbt_dirty := d\<rparr>\<rparr>)"
  by (rule tends_mem; simp add: same_maps_def tables_sized_def factory_bad_def worn_map_def)+

lemma tables_sized_tends: "tends mem s t \<Longrightarrow> tables_sized (en75 s) \<Longrightarrow> tables_sized (en75 t)"
  by (simp add: tends_def same_maps_def)

lemma tends_relabel:
  assumes "i < length (em_rblocks (en75 s))" "bi_status (em_rblocks (en75 s) ! i) \<noteq> BS_MAPPED" "st \<noteq> BS_MAPPED"
  shows "tends mem s (set_status i st (mark_for_erasure st s))"
proof -
  have t: "tends mem s (mark_for_erasure st s)" by (rule tends_mark_for_erasure[OF assms(3)])
  then have sm: "same_maps (en75 s) (en75 (mark_for_erasure st s))" by (simp add: tends_def)
  show ?thesis
    using tends_trans[OF t] tends_set_status[of i "mark_for_erasure st s" st mem] assms
      same_maps_nth(1)[OF sm] same_maps_nth(3)[OF sm assms(1)] by simp
qed

lemma sync_bmt_tends:
  assumes "local_chip nd mem" "en75_geometry s" "tables_sized (en75 s)" "sync_bmt nd be s = (r, t)"
  shows "tends mem s t"
proof (cases "em_bmt_dirty (en75 s) = 0")
  case False
  define s1 where "s1 = prepare_bmt be s"
  have t1: "tends mem s s1" unfolding s1_def by (rule tends_prepare[OF assms(3)])
  obtain r2 s2 where u: "w_update_table nd True (en75_bmt_bytes be (em_bmt (en75 s1))) s1 = (r2, s2)" by fastforce
  have "2012 \<le> (2 :: nat) ^ blk_shift s1" using assms(2) tends_fields(1)[OF t1] by (simp add: en75_geometry_def)
  then have "length (en75_bmt_bytes be (em_bmt (en75 s1))) \<le> 2 ^ blk_shift s1"
    using length_bmt_bytes[OF tables_sized_tends[OF t1 assms(3)], of be] by simp
  note upd = update_table_loop_tends[OF assms(1) this u[unfolded w_update_table_def]]
  then have t2: "tends mem s s2" using tends_trans[OF t1] by blast
  show ?thesis
  proof (cases r2)
    case (Inl e)
    then show ?thesis using assms(4) False u t2 by (simp add: sync_bmt_def s1_def[symmetric])
  next
    case (Inr i)
    then have "tends mem s2 (set_status i BS_BMT (mark_for_erasure BS_BMT s2))" using upd by (intro tends_relabel) auto
    from tends_trans[OF tends_trans[OF t2 this] tends_dirty(1)] show ?thesis
      using assms(4) False u Inr by (auto simp: sync_bmt_def s1_def[symmetric] Let_def)
  qed
qed (use assms(4) in \<open>simp add: sync_bmt_def\<close>)

lemma sync_bbt_tends:
  assumes "local_chip nd mem" "en75_geometry s" "tables_sized (en75 s)" "sync_bbt nd be s = (r, t)"
  shows "tends mem s t"
proof (cases "em_bbt_dirty (en75 s) = 0 \<or> \<not> em_can_write_factory_bbt (en75 s)")
  case False
  define s1 where "s1 = prepare_bbt be s"
  have t1: "tends mem s s1" unfolding s1_def by (rule tends_prepare[OF assms(3)])
  obtain r2 s2 where u: "w_update_table nd False (en75_bbt_bytes be (em_bbt_table_size (en75 s1)) (em_bbt (en75 s1))) s1 = (r2, s2)"
    by fastforce
  have ts: "tables_sized (en75 s1)" by (rule tables_sized_tends[OF t1 assms(3)])
  then have "12 + 2 * em_bbt_table_size (en75 s1) \<le> 2012" by (simp add: tables_sized_def MAX_BBT_SIZE_def)
  moreover have "2012 \<le> (2 :: nat) ^ blk_shift s1" using assms(2) tends_fields(1)[OF t1] by (simp add: en75_geometry_def)
  ultimately have "length (en75_bbt_bytes be (em_bbt_table_size (en75 s1)) (em_bbt (en75 s1))) \<le> 2 ^ blk_shift s1"
    using length_bbt_bytes[OF ts, of be] by simp
  note upd = update_table_loop_tends[OF assms(1) this u[unfolded w_update_table_def]]
  then have t2: "tends mem s s2" using tends_trans[OF t1] by blast
  show ?thesis
  proof (cases r2)
    case (Inl e)
    then show ?thesis using assms(4) False u t2 by (simp add: sync_bbt_def s1_def[symmetric])
  next
    case (Inr i)
    then have "tends mem s2 (set_status i BS_BBT (mark_for_erasure BS_BBT s2))" using upd by (intro tends_relabel) auto
    from tends_trans[OF tends_trans[OF t2 this] tends_dirty(2)] show ?thesis
      using assms(4) False u Inr by (auto simp: sync_bbt_def s1_def[symmetric] Let_def)
  qed
qed (use assms(4) in \<open>auto simp: sync_bbt_def\<close>)

lemma w_sync_tables_tends:
  assumes "local_chip nd mem" "en75_geometry s" "tables_sized (en75 s)"
  shows "tends mem s (snd (w_sync_tables nd be s))"
proof -
  have t0: "tends mem s (w_erase_pending nd s)" by (rule w_erase_pending_tends[OF assms(1,2)])
  obtain r1 s1 where b: "sync_bmt nd be (w_erase_pending nd s) = (r1, s1)" by fastforce
  have g0: "en75_geometry (w_erase_pending nd s)" "tables_sized (en75 (w_erase_pending nd s))"
    using en75_geometry_tends[OF t0] tables_sized_tends[OF t0] assms by simp_all
  have t1: "tends mem s s1" using tends_trans[OF t0 sync_bmt_tends[OF assms(1) g0 b]] .
  obtain r2 s2 where f: "sync_bbt nd be s1 = (r2, s2)" by fastforce
  have g1: "en75_geometry s1" "tables_sized (en75 s1)"
    using en75_geometry_tends[OF t1] tables_sized_tends[OF t1] assms by simp_all
  have t2: "tends mem s s2" using tends_trans[OF t1 sync_bbt_tends[OF assms(1) g1 f]] .
  have "en75_geometry s2" using en75_geometry_tends[OF t2] assms(2) by simp
  then have "tends mem s (w_erase_pending nd s2)" using tends_trans[OF t2 w_erase_pending_tends[OF assms(1)]] by blast
  then show ?thesis using b f t1 t2 by (auto simp: w_sync_tables_def)
qed

lemma en75_inv_tends:
  assumes "tends mem s t" "en75_inv s"
  shows "en75_inv t"
proof -
  have sm: "same_maps (en75 s) (en75 t)" using assms(1) by (simp add: tends_def)
  have "worn_ok (total_blks s) (en75 t)"
    unfolding worn_ok_def
  proof (intro conjI ballI impI)
    fix rb assume "rb \<in> set (em_rblocks (en75 t))" "bi_index rb \<in> snd ` set (worn_map (en75 t))"
    then obtain i where i: "i < length (em_rblocks (en75 s))" "rb = em_rblocks (en75 t) ! i"
      using same_maps_nth(1)[OF sm] by (metis in_set_conv_nth)
    then have "bi_index (em_rblocks (en75 s) ! i) \<in> snd ` set (worn_map (en75 s))"
      using \<open>bi_index rb \<in> _\<close> same_maps_nth(2)[OF sm i(1)] sm by (simp add: same_maps_def)
    then have "bi_status (em_rblocks (en75 s) ! i) = BS_MAPPED"
      using assms(2) nth_mem[OF i(1)] by (simp add: en75_inv_def worn_ok_def)
    then show "bi_status rb = BS_MAPPED" using same_maps_nth(3)[OF sm i(1)] i(2) by simp
  qed (use assms(2) sm in \<open>auto simp: en75_inv_def worn_ok_def same_maps_def\<close>)
  then show ?thesis
    using assms(2) sm tends_fields(2)[OF assms(1)] by (simp add: en75_inv_def same_maps_def)
qed

lemma mapping_tends:
  assumes "tends mem s t"
  shows "get_mapping_block b t = get_mapping_block b s" "get_mapping_block_bbt b t = get_mapping_block_bbt b s"
    "en75_user_blocks t = en75_user_blocks s"
  using assms
  by (simp_all only: tends_def same_maps_def get_mapping_block_def get_mapping_block_bbt_def en75_user_blocks_def)

section \<open>The blocks behind the logical device\<close>

definition en75_phys :: "'d bmt_st \<Rightarrow> nat \<Rightarrow> nat" where
  "en75_phys s x = worn_target (en75 s) (bbt_shift (factory_bad (en75 s)) x)"

lemma in_block_unique: "in_block s b x \<Longrightarrow> in_block s c x \<Longrightarrow> b = c"
proof -
  have "x div 2 ^ blk_shift s = b" if "in_block s b x" for b
    using that by (intro div_nat_eqI) (auto simp: in_block_def algebra_simps)
  then show "in_block s b x \<Longrightarrow> in_block s c x \<Longrightarrow> b = c" by metis
qed

lemma rblock_index:
  assumes "en75_inv s" "i < length (em_rblocks (en75 s))"
  shows "em_reserve_area_begin (en75 s) \<le> bi_index (em_rblocks (en75 s) ! i)"
    "bi_index (em_rblocks (en75 s) ! i) < total_blks s"
proof -
  have "map bi_index (em_rblocks (en75 s)) = rev [em_reserve_area_begin (en75 s)..<total_blks s]"
    using assms(1) by (simp add: en75_inv_def)
  from arg_cong[OF this, of set]
  have "bi_index (em_rblocks (en75 s) ! i) \<in> set (rev [em_reserve_area_begin (en75 s)..<total_blks s])"
    using assms(2) by (metis length_map nth_map nth_mem)
  then show "em_reserve_area_begin (en75 s) \<le> bi_index (em_rblocks (en75 s) ! i)"
    "bi_index (em_rblocks (en75 s) ! i) < total_blks s" by simp_all
qed

lemma rblock_inj:
  assumes "en75_inv s" "i < length (em_rblocks (en75 s))" "j < length (em_rblocks (en75 s))"
    and "bi_index (em_rblocks (en75 s) ! i) = bi_index (em_rblocks (en75 s) ! j)"
  shows "i = j"
proof -
  have "distinct (map bi_index (em_rblocks (en75 s)))" using assms(1) by (simp add: en75_inv_def)
  then show ?thesis using assms(2-4) by (simp add: distinct_conv_nth) metis
qed

lemma phys_not_spare:
  assumes "en75_inv s" "x < en75_user_blocks s" "in_block s (en75_phys s x) a"
  shows "\<not> spare_area s a"
proof
  assume "spare_area s a"
  then obtain i where i: "i < length (em_rblocks (en75 s))" "bi_status (em_rblocks (en75 s) ! i) \<noteq> BS_MAPPED"
      "in_block s (bi_index (em_rblocks (en75 s) ! i)) a"
    by (auto simp: spare_area_def)
  have eq: "bi_index (em_rblocks (en75 s) ! i) = en75_phys s x" by (rule in_block_unique[OF i(3) assms(3)])
  let ?b = "bbt_shift (factory_bad (en75 s)) x"
  have w: "worn_ok (total_blks s) (en75 s)" using assms(1) by (simp add: en75_inv_def)
  show False
  proof (cases "map_of (worn_map (en75 s)) ?b")
    case None
    then show False
      using eq rblock_index(1)[OF assms(1) i(1)] user_block_eq(2)[OF assms(1,2)] by (simp add: en75_phys_def worn_target_def)
  next
    case (Some t)
    then have "t \<in> snd ` set (worn_map (en75 s))" by (force dest: map_of_SomeD)
    then have "bi_status (em_rblocks (en75 s) ! i) = BS_MAPPED"
      using w nth_mem[OF i(1)] eq Some by (simp add: worn_ok_def en75_phys_def worn_target_def)
    then show False using i(2) by simp
  qed
qed

lemma bmt_phys_en75:
  assumes "en75_inv s" "x < en75_user_blocks s * 2 ^ blk_shift s"
  shows "bmt_phys (en75_bmt_ops nd be) s x = en75_phys s (x div 2 ^ blk_shift s) * 2 ^ blk_shift s + x mod 2 ^ blk_shift s"
    "in_block s (en75_phys s (x div 2 ^ blk_shift s)) (bmt_phys (en75_bmt_ops nd be) s x)"
proof -
  have "x div 2 ^ blk_shift s < en75_user_blocks s" using assms(2) by (simp add: less_mult_imp_div_less)
  from mapping_eq[OF assms(1) this]
  show eq: "bmt_phys (en75_bmt_ops nd be) s x = en75_phys s (x div 2 ^ blk_shift s) * 2 ^ blk_shift s + x mod 2 ^ blk_shift s"
    by (simp add: bmt_phys_def en75_bmt_ops_def pub_get_mapping_block_def en75_phys_def)
  show "in_block s (en75_phys s (x div 2 ^ blk_shift s)) (bmt_phys (en75_bmt_ops nd be) s x)"
    unfolding eq by (simp add: in_block_def)
qed

lemma logical_tends:
  assumes "tends mem s t" "en75_inv s" "x < en75_user_blocks s * 2 ^ blk_shift s"
  shows "bmt_logical (en75_bmt_ops nd be) mem t x = bmt_logical (en75_bmt_ops nd be) mem s x"
proof -
  have "bmt_phys (en75_bmt_ops nd be) t x = bmt_phys (en75_bmt_ops nd be) s x"
    by (simp add: bmt_phys_def en75_bmt_ops_def pub_get_mapping_block_def mapping_tends(1)[OF assms(1)] tends_fields(1)[OF assms(1)])
  moreover have "\<not> spare_area s (bmt_phys (en75_bmt_ops nd be) s x)"
    using phys_not_spare[OF assms(2) _ bmt_phys_en75(2)[OF assms(2,3)]] assms(3) by (simp add: less_mult_imp_div_less)
  ultimately show ?thesis using assms(1) by (simp add: bmt_logical_def tends_def)
qed

section \<open>Changing the table of worn blocks\<close>

lemma put_mapping_cases:
  assumes "tables_sized m" "mt_size (em_bmt m) < 255"
  shows "(\<exists>i < length (worn_map m). fst (worn_map m ! i) = b \<and>
           worn_map (m\<lparr>em_bmt := put_mapping b n (em_bmt m)\<rparr>) = (worn_map m)[i := (b, n)] \<and>
           mt_size (put_mapping b n (em_bmt m)) = mt_size (em_bmt m)) \<or>
    (b \<notin> fst ` set (worn_map m) \<and> worn_map (m\<lparr>em_bmt := put_mapping b n (em_bmt m)\<rparr>) = worn_map m @ [(b, n)])"
proof -
  let ?t = "em_bmt m"
  have len: "mt_size ?t < length (mt_table ?t)" using assms by (simp add: tables_sized_def MAX_BMT_SIZE_def)
  have nth: "worn_map m ! i = mt_table ?t ! i" if "i < mt_size ?t" for i using that by (simp add: worn_map_def)
  show ?thesis
  proof (cases "find (\<lambda>i. fst (mt_table ?t ! i) = b) [0..<mt_size ?t]")
    case None
    then have "\<forall>i < mt_size ?t. fst (mt_table ?t ! i) \<noteq> b" by (auto simp: find_None_iff)
    then have "b \<notin> fst ` set (worn_map m)"
      using length_worn_map[OF assms(1)] nth by (fastforce simp: in_set_conv_nth)
    moreover have "worn_map (m\<lparr>em_bmt := put_mapping b n ?t\<rparr>) = worn_map m @ [(b, n)]"
      using None assms(2) len by (simp add: put_mapping_def worn_map_def take_Suc_conv_app_nth)
    ultimately show ?thesis by blast
  next
    case (Some i)
    then have i: "i < mt_size ?t" "fst (mt_table ?t ! i) = b" by (auto simp: find_Some_iff)
    then have "worn_map (m\<lparr>em_bmt := put_mapping b n ?t\<rparr>) = (worn_map m)[i := (b, n)]"
      using Some by (simp add: put_mapping_def worn_map_def take_update_swap)
    then show ?thesis
      using i length_worn_map[OF assms(1)] nth[OF i(1)] Some by (auto simp: put_mapping_def)
  qed
qed

lemma tables_sized_put:
  assumes "tables_sized m" "mt_size (em_bmt m) < 255"
  shows "tables_sized (m\<lparr>em_bmt := put_mapping b n (em_bmt m)\<rparr>)"
  using assms by (auto simp: tables_sized_def put_mapping_def split: option.split)

lemma map_of_update:
  assumes "distinct (map fst es)" "i < length es" "fst (es ! i) = b"
  shows "map_of (es[i := (b, n)]) = (map_of es)(b \<mapsto> n)"
  using assms
proof (induction es arbitrary: i)
  case (Cons e es)
  show ?case
  proof (cases i)
    case 0
    then show ?thesis using Cons.prems by (cases e) auto
  next
    case (Suc k)
    have "fst e \<noteq> b" using Cons.prems Suc by (auto simp: image_iff)
    then show ?thesis using Cons.IH[of k] Cons.prems Suc by (cases e) (auto simp: fun_eq_iff)
  qed
qed simp

lemma put_mapping_worn:
  fixes b n :: nat
  assumes "tables_sized m" "mt_size (em_bmt m) < 255" "distinct (map fst (worn_map m))" "distinct (map snd (worn_map m))"
    and "n \<notin> snd ` set (worn_map m)"
  defines "es \<equiv> worn_map (m\<lparr>em_bmt := put_mapping b n (em_bmt m)\<rparr>)"
  shows "distinct (map fst es)" "distinct (map snd es)" "map_of es = (map_of (worn_map m))(b \<mapsto> n)"
    "snd ` set es \<subseteq> insert n (snd ` (set (worn_map m) - {(b, t) | t. True}))"
    "fst ` set es \<subseteq> insert b (fst ` set (worn_map m))"
proof -
  let ?ws = "worn_map m"
  have "distinct (map fst es) \<and> distinct (map snd es) \<and> map_of es = (map_of ?ws)(b \<mapsto> n) \<and>
    set es = insert (b, n) (set ?ws - {(b, t) | t. True})"
    using put_mapping_cases[OF assms(1,2), of b n]
  proof (elim disjE exE conjE)
    fix i assume i: "i < length ?ws" "fst (?ws ! i) = b" "worn_map (m\<lparr>em_bmt := put_mapping b n (em_bmt m)\<rparr>) = ?ws[i := (b, n)]"
    have d: "distinct ?ws" using assms(3) by (simp add: distinct_map)
    have only: "set ?ws \<inter> {(b, t) | t. True} = {?ws ! i}"
    proof -
      have "e = ?ws ! i" if "e \<in> set ?ws" "fst e = b" for e
        using that i(1,2) assms(3) by (metis distinct_map inj_onD nth_mem)
      then show ?thesis using i(1,2) by (auto simp: prod_eq_iff)
    qed
    have "set es = insert (b, n) (set ?ws - {?ws ! i})"
      using set_update_distinct[OF d i(1)] i(3) by (simp add: es_def)
    moreover have "set ?ws - {?ws ! i} = set ?ws - {(b, t) | t. True}" using only by auto
    moreover have "map fst es = map fst ?ws" using i by (simp add: es_def map_update list_update_same_conv)
    moreover have "distinct (map snd es)"
      using i assms(4,5) by (simp add: es_def map_update distinct_list_update)
    ultimately show ?thesis using assms(3) map_of_update[OF assms(3) i(1,2)] i(3) by (simp add: es_def)
  next
    assume a: "b \<notin> fst ` set ?ws" "worn_map (m\<lparr>em_bmt := put_mapping b n (em_bmt m)\<rparr>) = ?ws @ [(b, n)]"
    have "map_of (?ws @ [(b, n)]) = (map_of ?ws)(b \<mapsto> n)"
      using a(1) by (auto simp: fun_eq_iff map_add_def dom_map_of_conv_image_fst[symmetric] split: option.split)
    moreover have "set ?ws - {(b, t) | t. True} = set ?ws" using a(1) by (auto simp: image_iff)
    ultimately show ?thesis using a assms(3-5) by (auto simp: es_def)
  qed
  then show "distinct (map fst es)" "distinct (map snd es)" "map_of es = (map_of ?ws)(b \<mapsto> n)"
    "snd ` set es \<subseteq> insert n (snd ` (set ?ws - {(b, t) | t. True}))" "fst ` set es \<subseteq> insert b (fst ` set ?ws)"
    by auto
qed

section \<open>Replacing a block\<close>

lemma maps_frame [simp]:
  "worn_map (m\<lparr>em_rblocks := r\<rparr>) = worn_map m" "worn_map (m\<lparr>em_bmt_dirty := d\<rparr>) = worn_map m"
  "factory_bad (m\<lparr>em_rblocks := r\<rparr>) = factory_bad m" "factory_bad (m\<lparr>em_bmt_dirty := d\<rparr>) = factory_bad m"
  "factory_bad (m\<lparr>em_bmt := t\<rparr>) = factory_bad m"
  "tables_sized (m\<lparr>em_rblocks := r\<rparr>) = tables_sized m" "tables_sized (m\<lparr>em_bmt_dirty := d\<rparr>) = tables_sized m"
  by (simp_all add: worn_map_def factory_bad_def tables_sized_def)

lemma copy_attempts_scratch: "\<exists>x d. copy_attempts nd n dest src len s = s\<lparr>data_buf := x, dev := d\<rparr>"
proof (induction n arbitrary: s)
  case 0
  have "copy_attempts nd 0 dest src len s = s\<lparr>data_buf := data_buf s, dev := dev s\<rparr>" by simp
  then show ?case by blast
next
  case (Suc n)
  obtain r s' where c: "bbt_nand_copy nd dest src len s = (r, s')" by fastforce
  obtain x d where s': "s' = s\<lparr>data_buf := x, dev := d\<rparr>" using bbt_nand_copy_scratch[of nd dest src len s] c by auto
  obtain x' d' where "copy_attempts nd n dest src len s' = s'\<lparr>data_buf := x', dev := d'\<rparr>" using Suc.IH[of s'] by auto
  then show ?case using c s' by auto
qed

lemma copy_attempts_mem:
  assumes "local_chip nd mem" "en75_geometry s" "len \<le> 2 ^ blk_shift s" "\<not> in_block s dest x"
  shows "mem (dev (copy_attempts nd n dest src len s)) x = mem (dev s) x"
  using assms(2-4)
proof (induction n arbitrary: s)
  case (Suc n)
  obtain r s' where c: "bbt_nand_copy nd dest src len s = (r, s')" by fastforce
  obtain y d where s': "s' = s\<lparr>data_buf := y, dev := d\<rparr>" using bbt_nand_copy_scratch[of nd dest src len s] c by auto
  have "mem (dev (snd (bbt_nand_copy nd dest src len s))) x = mem (dev s) x"
    unfolding bbt_nand_copy_def Let_def
    by (rule copy_loop_mem[where B = "2 ^ blk_shift s", OF assms(1)])
      (use Suc.prems in \<open>simp_all add: en75_geometry_def in_block_def\<close>)
  moreover have "mem (dev (copy_attempts nd n dest src len s')) x = mem (dev s') x"
    using Suc.prems s' by (intro Suc.IH) (simp_all add: en75_geometry_def bmt_geometry_def in_block_def)
  ultimately show ?case using c by simp
qed simp

text \<open>The block that a block of the user area is replaced by so far.\<close>

definition target_known :: "'d bmt_st \<Rightarrow> nat \<Rightarrow> nat option \<Rightarrow> bool" where
  "target_known s b maybe \<longleftrightarrow>
     (case maybe of
        None \<Rightarrow> map_of (worn_map (en75 s)) b = None
      | Some j \<Rightarrow> j < length (em_rblocks (en75 s)) \<and> map_of (worn_map (en75 s)) b = Some (bi_index (em_rblocks (en75 s) ! j)))"

definition remapped :: "nat \<Rightarrow> nat \<Rightarrow> nat option \<Rightarrow> en75_bmt_m \<Rightarrow> en75_bmt_m" where
  "remapped b i maybe m =
     (let rbs = (em_rblocks m)[i := (em_rblocks m ! i)\<lparr>bi_status := BS_MAPPED\<rparr>]
      in m\<lparr>em_bmt := put_mapping b (bi_index (em_rblocks m ! i)) (em_bmt m), em_bmt_dirty := s8_incr (em_bmt_dirty m),
           em_rblocks := (case maybe of Some j \<Rightarrow> rbs[j := (rbs ! j)\<lparr>bi_status := BS_NEED_ERASE\<rparr>] | None \<Rightarrow> rbs)\<rparr>)"

lemma mapped_status:
  assumes "en75_inv s" "j < length (em_rblocks (en75 s))" "bi_index (em_rblocks (en75 s) ! j) \<in> snd ` set (worn_map (en75 s))"
  shows "bi_status (em_rblocks (en75 s) ! j) = BS_MAPPED"
  using assms nth_mem[OF assms(2)] by (simp add: en75_inv_def worn_ok_def)

lemma remapped_inv:
  assumes "en75_inv s" "b < em_reserve_area_begin (en75 s)" "target_known s b maybe" "mt_size (em_bmt (en75 s)) < 255"
    and "i < length (em_rblocks (en75 s))" "bi_status (em_rblocks (en75 s) ! i) = BS_AVAILABLE"
  shows "en75_inv (s\<lparr>en75 := remapped b i maybe (en75 s)\<rparr>)"
    "map_of (worn_map (remapped b i maybe (en75 s))) = (map_of (worn_map (en75 s)))(b \<mapsto> bi_index (em_rblocks (en75 s) ! i))"
proof -
  let ?m = "en75 s" and ?n = "bi_index (em_rblocks (en75 s) ! i)" and ?m' = "remapped b i maybe (en75 s)"
  have sized: "tables_sized ?m" and w: "worn_ok (total_blks s) ?m" using assms(1) by (simp_all add: en75_inv_def)
  have new: "?n \<notin> snd ` set (worn_map ?m)" using mapped_status[OF assms(1,5)] assms(6) by auto
  have dd: "distinct (map fst (worn_map ?m))" "distinct (map snd (worn_map ?m))" using w by (simp_all add: worn_ok_def)
  have es: "worn_map ?m' = worn_map (?m\<lparr>em_bmt := put_mapping b ?n (em_bmt ?m)\<rparr>)"
    by (simp add: remapped_def Let_def worn_map_def)
  note put = put_mapping_worn[OF sized assms(4) dd new, of b, folded es]
  show "map_of (worn_map ?m') = (map_of (worn_map ?m))(b \<mapsto> ?n)" by (rule put(3))
  have len: "length (em_rblocks ?m') = length (em_rblocks ?m)" by (auto simp: remapped_def Let_def split: option.split)
  have idx: "map bi_index (em_rblocks ?m') = map bi_index (em_rblocks ?m)"
    using assms(5) by (auto simp: remapped_def Let_def list_eq_iff_nth_eq nth_list_update_if split: option.split)
  have old: "bi_index (em_rblocks ?m ! j) \<notin> snd ` (set (worn_map ?m) - {(b, t) | t. True})" if "maybe = Some j" for j
  proof
    assume "bi_index (em_rblocks ?m ! j) \<in> snd ` (set (worn_map ?m) - {(b, t) | t. True})"
    then obtain c where c: "(c, bi_index (em_rblocks ?m ! j)) \<in> set (worn_map ?m)" "c \<noteq> b" by fastforce
    have "(b, bi_index (em_rblocks ?m ! j)) \<in> set (worn_map ?m)"
      using assms(3) that by (auto simp: target_known_def dest: map_of_SomeD)
    then show False using c dd(2) by (metis distinct_map inj_onD prod.inject snd_conv)
  qed
  have "worn_ok (total_blks s) ?m'"
    unfolding worn_ok_def
  proof (intro conjI ballI impI)
    show "distinct (map fst (worn_map ?m'))" "distinct (map snd (worn_map ?m'))" by (rule put)+
  next
    fix e assume e: "e \<in> set (worn_map ?m')"
    have b: "em_reserve_area_begin ?m' = em_reserve_area_begin ?m" by (simp add: remapped_def Let_def)
    have "fst e \<in> insert b (fst ` set (worn_map ?m))" "snd e \<in> insert ?n (snd ` set (worn_map ?m))"
      using put(4,5) e by blast+
    then show "fst e < em_reserve_area_begin ?m'" "em_reserve_area_begin ?m' \<le> snd e" "snd e < total_blks s"
      using w assms(2) rblock_index[OF assms(1,5)] unfolding b worn_ok_def by auto
  next
    fix rb assume rb: "rb \<in> set (em_rblocks ?m')" "bi_index rb \<in> snd ` set (worn_map ?m')"
    obtain k where k: "k < length (em_rblocks ?m)" "rb = em_rblocks ?m' ! k" using rb(1) len by (metis in_set_conv_nth)
    have ik: "bi_index rb = bi_index (em_rblocks ?m ! k)"
      using arg_cong[OF idx, of "\<lambda>xs. xs ! k"] k len by simp
    have tgt: "bi_index rb \<in> insert ?n (snd ` (set (worn_map ?m) - {(b, t) | t. True}))" using rb(2) put(4) by blast
    show "bi_status rb = BS_MAPPED"
    proof (cases "k = i")
      case True
      have "maybe \<noteq> Some i"
      proof
        assume "maybe = Some i"
        then have "?n \<in> snd ` set (worn_map ?m)"
          using assms(3) by (auto simp: target_known_def image_iff dest!: map_of_SomeD) force
        then show False using new by simp
      qed
      then show ?thesis using True k assms(5) by (auto simp: remapped_def Let_def nth_list_update_if split: option.split)
    next
      case False
      then have "bi_index rb \<noteq> ?n" using rblock_inj[OF assms(1) k(1) assms(5)] ik by auto
      then have m: "bi_index rb \<in> snd ` (set (worn_map ?m) - {(b, t) | t. True})" using tgt by simp
      have "maybe \<noteq> Some k" using old m ik by auto
      moreover have "bi_status (em_rblocks ?m ! k) = BS_MAPPED"
        using mapped_status[OF assms(1) k(1)] m ik by (auto simp: image_iff)
      ultimately show ?thesis using False k by (auto simp: remapped_def Let_def nth_list_update_if split: option.split)
    qed
  qed
  moreover have "tables_sized ?m'"
    using tables_sized_put[OF sized assms(4), of b ?n] by (simp add: remapped_def Let_def)
  moreover have "ft_size (em_bbt ?m') = ft_size (em_bbt ?m)" "em_reserve_area_begin ?m' = em_reserve_area_begin ?m"
    by (simp_all add: remapped_def Let_def)
  ultimately show "en75_inv (s\<lparr>en75 := ?m'\<rparr>)" using assms(1) idx by (simp add: en75_inv_def)
qed

lemma w_write_oob_mem:
  assumes "local_chip nd mem"
  shows "mem (dev (snd (w_write nd bi user buf True s))) = mem (dev s)"
proof
  fix x
  show "mem (dev (snd (w_write nd bi user buf True s))) x = mem (dev s) x"
    using write_attempts_mem[OF assms] by (simp add: w_write_def)
qed

lemma w_remap_cases:
  assumes "local_chip nd mem" "en75_geometry s" "en75_inv s" "b < em_reserve_area_begin (en75 s)" "len \<le> 2 ^ blk_shift s"
    and "w_remap_block nd be b maybe len s = (ret, t)"
  shows "tends mem s t \<or>
    (\<exists>i d x. i < length (em_rblocks (en75 s)) \<and> bi_status (em_rblocks (en75 s) ! i) = BS_AVAILABLE \<and>
       mt_size (em_bmt (en75 s)) < 255 \<and> t = s\<lparr>dev := d, data_buf := x, en75 := remapped b i maybe (en75 s)\<rparr> \<and>
       (\<forall>y. \<not> in_block s (bi_index (em_rblocks (en75 s) ! i)) y \<longrightarrow> mem d y = mem (dev s) y))"
proof (cases "mt_size (em_bmt (en75 s)) = 255 \<or> find_available_block False s = None")
  case True
  then have "t = s" using assms(6) by (auto simp: w_remap_block_def split: if_splits)
  then show ?thesis by simp
next
  case False
  then obtain i where f: "find_available_block False s = Some i" by blast
  have i: "i < length (em_rblocks (en75 s))" "bi_status (em_rblocks (en75 s) ! i) = BS_AVAILABLE"
    using find_available_Some[OF f] by simp_all
  have sz: "mt_size (em_bmt (en75 s)) \<noteq> 255" "mt_size (em_bmt (en75 s)) < 255"
    using False assms(3) by (auto simp: en75_inv_def tables_sized_def)
  define new where "new = em_rblocks (en75 s) ! i"
  define fdm where "fdm = [0xff, 0xff] @ host_bytes be 2 b"
  have mk: "w_make_mapping nd be new b s = w_write nd (bi_index new) False fdm True s"
    using assms(4) i by (simp add: w_make_mapping_def new_def fdm_def)
  obtain r1 s1 where w: "w_make_mapping nd be new b s = (r1, s1)" by fastforce
  obtain d1 where s1: "s1 = s\<lparr>dev := d1\<rparr>" using w_write_dev[of nd "bi_index new" False fdm True s] w mk by auto
  have m1: "mem d1 = mem (dev s)" using w_write_oob_mem[OF assms(1), of "bi_index new" False fdm s] w mk s1 by simp
  show ?thesis
  proof (cases "r1 = 0")
    case False
    have "tends mem s s1" unfolding s1 by (rule tends_dev) (simp add: m1)
    moreover have "tends mem s1 (set_status i BS_NEED_ERASE s1)" using i s1 by (intro tends_set_status) simp_all
    ultimately show ?thesis
      using assms(6) False f sz w by (auto simp: w_remap_block_def new_def[symmetric] intro: tends_trans)
  next
    case True
    define src where "src = (case maybe of Some j \<Rightarrow> bi_index (em_rblocks (en75 s) ! j) | None \<Rightarrow> b)"
    define s2 where "s2 = (if len \<noteq> 0 then copy_attempts nd REMAP_COPY_TRIES (bi_index new) src len s1 else s1)"
    have "\<exists>x d. s2 = s1\<lparr>data_buf := x, dev := d\<rparr>"
    proof (cases "len = 0")
      case True
      then have "s2 = s1\<lparr>data_buf := data_buf s1, dev := dev s1\<rparr>" by (simp add: s2_def)
      then show ?thesis by blast
    qed (use copy_attempts_scratch in \<open>simp add: s2_def\<close>)
    then obtain x d2 where s2: "s2 = s\<lparr>data_buf := x, dev := d2\<rparr>" using s1 by auto
    have m2: "mem d2 y = mem (dev s) y" if "\<not> in_block s (bi_index new) y" for y
    proof (cases "len = 0")
      case True
      then have "s\<lparr>data_buf := x, dev := d2\<rparr> = s\<lparr>dev := d1\<rparr>" using s2 s1 by (simp add: s2_def)
      then have "d2 = d1" by (metis bmt_st.select_convs(1) bmt_st.surjective bmt_st.update_convs(1) bmt_st.update_convs(13))
      then show ?thesis using m1 by simp
    next
      case False
      have "mem (dev (copy_attempts nd REMAP_COPY_TRIES (bi_index new) src len s1)) y = mem (dev s1) y"
        by (rule copy_attempts_mem[OF assms(1)])
          (use assms(2,5) that s1 in \<open>simp_all add: en75_geometry_def bmt_geometry_def in_block_def\<close>)
      then show ?thesis using False m1 s1 s2 by (simp add: s2_def)
    qed
    define s3 where "s3 = s2\<lparr>en75 := (en75 s2)\<lparr>em_bmt := put_mapping b (bi_index new) (em_bmt (en75 s2)),
        em_bmt_dirty := s8_incr (em_bmt_dirty (en75 s2))\<rparr>\<rparr>"
    obtain d5 where s5: "snd (w_mark_bad nd b True (set_status i BS_MAPPED s3)) = (set_status i BS_MAPPED s3)\<lparr>dev := d5\<rparr>"
      unfolding w_mark_bad_def
      using w_write_dev[of nd b True "[BLOCK_WORN_MARK, 0xff, 0xff, 0xff]" True "set_status i BS_MAPPED s3"] by auto
    have "mem d5 = mem d2"
      using w_write_oob_mem[OF assms(1), of b True "[BLOCK_WORN_MARK, 0xff, 0xff, 0xff]" "set_status i BS_MAPPED s3"] s5 s2
      by (simp add: w_mark_bad_def s3_def set_status_def)
    moreover have "t = s\<lparr>dev := d5, data_buf := x, en75 := remapped b i maybe (en75 s)\<rparr>"
    proof -
      have "w_remap_block nd be b maybe len s = (0, case maybe of
          Some j \<Rightarrow> set_status j BS_NEED_ERASE (snd (w_mark_bad nd b True (set_status i BS_MAPPED s3)))
        | None \<Rightarrow> snd (w_mark_bad nd b True (set_status i BS_MAPPED s3)))"
        unfolding w_remap_block_def f option.case Let_def new_def[symmetric] src_def[symmetric] w prod.case
          s2_def[symmetric] s3_def[symmetric] using sz(1) True by simp
      then have "t = (case maybe of Some j \<Rightarrow> set_status j BS_NEED_ERASE ((set_status i BS_MAPPED s3)\<lparr>dev := d5\<rparr>)
          | None \<Rightarrow> (set_status i BS_MAPPED s3)\<lparr>dev := d5\<rparr>)"
        using assms(6) unfolding s5 by simp
      then show ?thesis
        by (simp add: s3_def s2 set_status_def remapped_def Let_def new_def split: option.splits)
    qed
    ultimately show ?thesis using i sz(2) m2 unfolding new_def by (intro disjI2 exI[of _ i] exI[of _ d5] exI[of _ x]) simp
  qed
qed

end
