(* ===== verification/En75_Ops.thy ===== *)
theory En75_Ops
  imports En75_Map
begin

unbundle bit_operations_syntax

text \<open>
  The operations of the EcoNet scheme as its callers see them: replacing a block and giving a
  replacement back keep the invariant and every byte of every other logical block
  (\<open>keeps_others\<close>), and move the block itself only to a block that was free or back to its own
  place.
\<close>

section \<open>The operations of the scheme\<close>

lemma find_rblock_Some:
  assumes "en75_inv s" "em_reserve_area_begin (en75 s) \<le> n" "n < total_blks s"
  shows "\<exists>j < length (em_rblocks (en75 s)). find_rblock n s = Some j \<and> bi_index (em_rblocks (en75 s) ! j) = n"
proof -
  have "map bi_index (em_rblocks (en75 s)) = rev [em_reserve_area_begin (en75 s)..<total_blks s]"
    using assms(1) by (simp add: en75_inv_def)
  from arg_cong[OF this, of set] have "n \<in> set (map bi_index (em_rblocks (en75 s)))" using assms(2,3) by simp
  then obtain k where "k < length (em_rblocks (en75 s))" "bi_index (em_rblocks (en75 s) ! k) = n"
    by (auto simp: in_set_conv_nth)
  then have "find_rblock n s \<noteq> None" by (auto simp: find_rblock_def find_None_iff)
  then obtain j where j: "find_rblock n s = Some j" by blast
  then have "j < length (em_rblocks (en75 s))" "bi_index (em_rblocks (en75 s) ! j) = n"
    by (auto simp: find_rblock_def find_Some_iff)
  then show ?thesis using j by blast
qed

lemma phys_target:
  assumes "en75_inv s" "x < en75_user_blocks s"
  defines "b \<equiv> bbt_shift (factory_bad (en75 s)) x"
  shows "en75_phys s x = b \<Longrightarrow> map_of (worn_map (en75 s)) b = None"
    "en75_phys s x \<noteq> b \<Longrightarrow> map_of (worn_map (en75 s)) b = Some (en75_phys s x) \<and>
       em_reserve_area_begin (en75 s) \<le> en75_phys s x \<and> en75_phys s x < total_blks s"
proof -
  have hi: "em_reserve_area_begin (en75 s) \<le> t \<and> t < total_blks s" if "map_of (worn_map (en75 s)) b = Some t" for t
    using assms(1) that by (auto simp: en75_inv_def worn_ok_def dest!: map_of_SomeD)
  have "b < em_reserve_area_begin (en75 s)" using user_block_eq(2)[OF assms(1,2)] by (simp add: b_def)
  then show "en75_phys s x = b \<Longrightarrow> map_of (worn_map (en75 s)) b = None"
    using hi by (auto simp: en75_phys_def worn_target_def b_def[symmetric] split: option.splits)
  show "en75_phys s x \<noteq> b \<Longrightarrow> map_of (worn_map (en75 s)) b = Some (en75_phys s x) \<and>
       em_reserve_area_begin (en75 s) \<le> en75_phys s x \<and> en75_phys s x < total_blks s"
    using hi by (auto simp: en75_phys_def worn_target_def b_def[symmetric] split: option.splits)
qed

text \<open>The state after the replacement, before the tables are stored.\<close>

lemma remapped_logical:
  fixes buf :: bytes
  assumes "en75_inv s" "x < en75_user_blocks s" "target_known s (bbt_shift (factory_bad (en75 s)) x) maybe"
    and "mt_size (em_bmt (en75 s)) < 255" "i < length (em_rblocks (en75 s))" "bi_status (em_rblocks (en75 s) ! i) = BS_AVAILABLE"
    and "\<forall>y. \<not> in_block s (bi_index (em_rblocks (en75 s) ! i)) y \<longrightarrow> mem d y = mem (dev s) y"
  defines "t \<equiv> s\<lparr>dev := d, data_buf := buf, en75 := remapped (bbt_shift (factory_bad (en75 s)) x) i maybe (en75 s)\<rparr>"
  shows "en75_inv t" "en75_user_blocks t = en75_user_blocks s"
    "get_mapping_block (int x) t = int (bi_index (em_rblocks (en75 s) ! i))"
    "\<And>y. y < en75_user_blocks s * 2 ^ blk_shift s \<Longrightarrow> y div 2 ^ blk_shift s \<noteq> x \<Longrightarrow>
       bmt_logical (en75_bmt_ops nd be) mem t y = bmt_logical (en75_bmt_ops nd be) mem s y"
proof -
  let ?b = "bbt_shift (factory_bad (en75 s)) x" and ?n = "bi_index (em_rblocks (en75 s) ! i)"
  note r = remapped_inv[OF assms(1) user_block_eq(2)[OF assms(1,2)] assms(3-6)]
  have "t = s\<lparr>en75 := remapped ?b i maybe (en75 s)\<rparr>\<lparr>dev := d\<rparr>\<lparr>data_buf := buf\<rparr>" by (simp add: t_def)
  then show inv: "en75_inv t" using r(1) by simp
  have f: "factory_bad (en75 t) = factory_bad (en75 s)"
    by (simp add: t_def remapped_def Let_def factory_bad_def)
  show u: "en75_user_blocks t = en75_user_blocks s"
    by (simp add: t_def en75_user_blocks_def remapped_def Let_def)
  have mo: "map_of (worn_map (en75 t)) = (map_of (worn_map (en75 s)))(?b \<mapsto> ?n)" using r(2) by (simp add: t_def)
  have x: "x < en75_user_blocks t" using assms(2) u by simp
  show "get_mapping_block (int x) t = int ?n"
    unfolding mapping_eq[OF inv x] f by (simp add: worn_target_def mo)
  fix y assume y: "y < en75_user_blocks s * 2 ^ blk_shift s" "y div 2 ^ blk_shift s \<noteq> x"
  have yb: "y div 2 ^ blk_shift s < en75_user_blocks s" using y(1) by (simp add: less_mult_imp_div_less)
  have sh: "blk_shift t = blk_shift s" by (simp add: t_def)
  have "bbt_shift (factory_bad (en75 s)) (y div 2 ^ blk_shift s) \<noteq> ?b" using y(2) bbt_shift_inj by blast
  then have phys: "en75_phys t (y div 2 ^ blk_shift s) = en75_phys s (y div 2 ^ blk_shift s)"
    by (simp add: en75_phys_def f worn_target_def mo)
  have eq: "bmt_phys (en75_bmt_ops nd be) t y = bmt_phys (en75_bmt_ops nd be) s y"
    using bmt_phys_en75(1)[OF inv, of y nd be] bmt_phys_en75(1)[OF assms(1) y(1), of nd be] phys u sh y(1) by simp
  have "\<not> in_block s ?n (bmt_phys (en75_bmt_ops nd be) s y)"
  proof
    assume "in_block s ?n (bmt_phys (en75_bmt_ops nd be) s y)"
    then have "spare_area s (bmt_phys (en75_bmt_ops nd be) s y)" using assms(5,6) by (auto simp: spare_area_def)
    then show False using phys_not_spare[OF assms(1) yb bmt_phys_en75(2)[OF assms(1) y(1)]] by simp
  qed
  then show "bmt_logical (en75_bmt_ops nd be) mem t y = bmt_logical (en75_bmt_ops nd be) mem s y"
    unfolding bmt_logical_def eq using assms(7) by (simp add: t_def)
qed

definition keeps_others :: "'d nand_ops \<Rightarrow> bool \<Rightarrow> ('d \<Rightarrow> nat \<Rightarrow> u8) \<Rightarrow> nat \<Rightarrow> 'd bmt_st \<Rightarrow> 'd bmt_st \<Rightarrow> bool" where
  "keeps_others nd be mem x s t \<longleftrightarrow>
     en75_inv t \<and> en75_user_blocks t = en75_user_blocks s \<and>
     (\<forall>y < en75_user_blocks s * 2 ^ blk_shift s. y div 2 ^ blk_shift s \<noteq> x \<longrightarrow>
        bmt_logical (en75_bmt_ops nd be) mem t y = bmt_logical (en75_bmt_ops nd be) mem s y)"

lemma keeps_others_tends:
  assumes "keeps_others nd be mem x s t" "tends mem t u" "blk_shift t = blk_shift s"
  shows "keeps_others nd be mem x s u"
  using assms(1) en75_inv_tends[OF assms(2)] mapping_tends(3)[OF assms(2)] logical_tends[OF assms(2), of _ nd be] assms(3)
  by (simp add: keeps_others_def)

lemma keeps_others_refl: "en75_inv s \<Longrightarrow> keeps_others nd be mem x s s"
  by (simp add: keeps_others_def)

lemma remap_keeps_others:
  assumes "local_chip nd mem" "en75_geometry s" "en75_inv s" "x < en75_user_blocks s" "len \<le> 2 ^ blk_shift s"
    and "pub_remap_block nd be x (en75_phys s x) len s = (ok, t)"
  shows "keeps_others nd be mem x s t \<and>
    (get_mapping_block (int x) t = get_mapping_block (int x) s \<or>
     (\<exists>rb \<in> set (em_rblocks (en75 s)). bi_status rb = BS_AVAILABLE \<and> get_mapping_block (int x) t = int (bi_index rb)))"
proof -
  let ?b = "bbt_shift (factory_bad (en75 s)) x"
  define maybe where "maybe = (if en75_phys s x \<noteq> ?b then find_rblock (en75_phys s x) s else None)"
  have b: "to_u16 (get_mapping_block_bbt (int x) s) = ?b"
    using user_block_eq[OF assms(3,4)] assms(3) by (simp add: to_u16_of_nat en75_inv_def)
  have known: "target_known s ?b maybe"
    using phys_target[OF assms(3,4)] find_rblock_Some[OF assms(3), of "en75_phys s x"]
    by (auto simp: target_known_def maybe_def)
  show ?thesis
  proof (cases "t = s")
    case True
    then show ?thesis using keeps_others_refl[OF assms(3)] by simp
  next
    case False
    obtain ret s1 where w: "w_remap_block nd be ?b maybe len s = (ret, s1)" by fastforce
    have t: "t = snd (w_sync_tables nd be s1)"
      using assms(6) False w unfolding pub_remap_block_def b Let_def maybe_def[symmetric] by (auto split: if_splits)
    have sized: "tables_sized (en75 s)" using assms(3) by (simp add: en75_inv_def)
    from w_remap_cases[OF assms(1-3) user_block_eq(2)[OF assms(3,4)] assms(5) w] show ?thesis
    proof
      assume t1: "tends mem s s1"
      have "tends mem s1 t" unfolding t
        using en75_geometry_tends[OF t1] tables_sized_tends[OF t1 sized] assms(1,2) by (intro w_sync_tables_tends) simp_all
      from tends_trans[OF t1 this] show ?thesis
        using keeps_others_tends[OF keeps_others_refl[OF assms(3)]] mapping_tends(1) by blast
    next
      assume "\<exists>i d y. i < length (em_rblocks (en75 s)) \<and> bi_status (em_rblocks (en75 s) ! i) = BS_AVAILABLE \<and>
         mt_size (em_bmt (en75 s)) < 255 \<and> s1 = s\<lparr>dev := d, data_buf := y, en75 := remapped ?b i maybe (en75 s)\<rparr> \<and>
         (\<forall>y. \<not> in_block s (bi_index (em_rblocks (en75 s) ! i)) y \<longrightarrow> mem d y = mem (dev s) y)"
      then obtain i d buf where i: "i < length (em_rblocks (en75 s))" "bi_status (em_rblocks (en75 s) ! i) = BS_AVAILABLE"
          "mt_size (em_bmt (en75 s)) < 255" "s1 = s\<lparr>dev := d, data_buf := buf, en75 := remapped ?b i maybe (en75 s)\<rparr>"
          "\<forall>y. \<not> in_block s (bi_index (em_rblocks (en75 s) ! i)) y \<longrightarrow> mem d y = mem (dev s) y"
        by blast
      note r = remapped_logical[OF assms(3,4) known i(3,1,2,5), where buf = buf, folded i(4)]
      have k: "keeps_others nd be mem x s s1" using r by (simp add: keeps_others_def)
      have "en75_geometry s1" "tables_sized (en75 s1)"
        using assms(2) r(1) i(4) by (simp_all add: en75_geometry_def bmt_geometry_def en75_inv_def)
      then have t2: "tends mem s1 t" unfolding t by (rule w_sync_tables_tends[OF assms(1)])
      have "keeps_others nd be mem x s t" by (rule keeps_others_tends[OF k t2]) (simp add: i(4))
      moreover have "get_mapping_block (int x) t = int (bi_index (em_rblocks (en75 s) ! i))"
        using mapping_tends(1)[OF t2] r(3) by simp
      ultimately show ?thesis using i(1,2) nth_mem by blast
    qed
  qed
qed

section \<open>Giving a replacement back\<close>

lemma swap_remove:
  assumes "distinct xs" "i < length xs"
  shows "distinct (butlast (xs[i := last xs])) \<and> set (butlast (xs[i := last xs])) = set xs - {xs ! i}"
proof -
  obtain as l where xs: "xs = as @ [l]" using assms(2) by (cases xs rule: rev_cases) auto
  show ?thesis
  proof (cases "i < length as")
    case True
    have "distinct (as[i := l])" using assms(1) xs by (auto intro: distinct_list_update)
    moreover have "set (as[i := l]) = insert l (set as - {as ! i})"
      using True assms(1) xs by (auto simp: set_update_distinct)
    moreover have "as ! i \<noteq> l" using assms(1) xs True nth_mem by fastforce
    ultimately show ?thesis using True xs by (auto simp: list_update_append nth_append butlast_append)
  next
    case False
    then have i: "i = length as" using assms(2) xs by simp
    show ?thesis using assms(1) unfolding xs i by simp
  qed
qed

lemma drop_mapping_worn:
  assumes "tables_sized m" "i < length (worn_map m)"
  shows "worn_map (m\<lparr>em_bmt := drop_mapping i (em_bmt m)\<rparr>) = butlast ((worn_map m)[i := last (worn_map m)])"
    "tables_sized (m\<lparr>em_bmt := drop_mapping i (em_bmt m)\<rparr>)"
proof -
  let ?t = "em_bmt m" and ?n = "mt_size (em_bmt m) - 1"
  have len: "length (worn_map m) = mt_size ?t" "mt_size ?t \<le> length (mt_table ?t)"
    using length_worn_map[OF assms(1)] assms(1) by (simp_all add: tables_sized_def MAX_BMT_SIZE_def)
  have "worn_map m \<noteq> []" using assms(2) by auto
  then have "last (worn_map m) = worn_map m ! ?n" using len by (simp add: last_conv_nth)
  moreover have "?n < mt_size ?t" using assms(2) len by simp
  ultimately have l: "last (worn_map m) = mt_table ?t ! ?n" by (simp add: worn_map_def)
  have "butlast ((worn_map m)[i := last (worn_map m)]) = take ?n ((worn_map m)[i := last (worn_map m)])"
    using len(1) by (simp add: butlast_conv_take)
  also have "\<dots> = take ?n ((mt_table ?t)[i := mt_table ?t ! ?n])"
    unfolding l by (simp add: worn_map_def take_update_swap[symmetric] min_def)
  also have "\<dots> = worn_map (m\<lparr>em_bmt := drop_mapping i ?t\<rparr>)"
    by (simp add: worn_map_def drop_mapping_def Let_def)
  finally show "worn_map (m\<lparr>em_bmt := drop_mapping i ?t\<rparr>) = butlast ((worn_map m)[i := last (worn_map m)])" by simp
  show "tables_sized (m\<lparr>em_bmt := drop_mapping i ?t\<rparr>)"
    using assms(1) by (auto simp: tables_sized_def drop_mapping_def Let_def)
qed

definition unmapped :: "nat \<Rightarrow> nat \<Rightarrow> en75_bmt_m \<Rightarrow> en75_bmt_m" where
  "unmapped i j m =
     m\<lparr>em_bmt := drop_mapping i (em_bmt m), em_bmt_dirty := s8_incr (em_bmt_dirty m),
       em_rblocks := (em_rblocks m)[j := (em_rblocks m ! j)\<lparr>bi_status := BS_NEED_ERASE\<rparr>]\<rparr>"

lemma unmapped_inv:
  assumes "en75_inv s" "i < length (worn_map (en75 s))" "j < length (em_rblocks (en75 s))"
    and "worn_map (en75 s) ! i = (b, bi_index (em_rblocks (en75 s) ! j))"
  shows "en75_inv (s\<lparr>en75 := unmapped i j (en75 s)\<rparr>)"
    "map_of (worn_map (unmapped i j (en75 s))) = (map_of (worn_map (en75 s)))(b := None)"
proof -
  let ?m = "en75 s" and ?m' = "unmapped i j (en75 s)" and ?n = "bi_index (em_rblocks (en75 s) ! j)"
  have sized: "tables_sized ?m" and w: "worn_ok (total_blks s) ?m" using assms(1) by (simp_all add: en75_inv_def)
  have dd: "distinct (map fst (worn_map ?m))" "distinct (map snd (worn_map ?m))" using w by (simp_all add: worn_ok_def)
  have "worn_map ?m' = worn_map (?m\<lparr>em_bmt := drop_mapping i (em_bmt ?m)\<rparr>)" by (simp add: unmapped_def worn_map_def)
  then have es: "worn_map ?m' = butlast ((worn_map ?m)[i := last (worn_map ?m)])" using drop_mapping_worn(1)[OF sized assms(2)] by simp
  have "distinct (worn_map ?m)" using dd(1) by (simp add: distinct_map)
  note rem = swap_remove[OF this assms(2), folded es, unfolded assms(4)]
  have inj: "inj_on fst (set (worn_map ?m))" "inj_on snd (set (worn_map ?m))" using dd by (simp_all add: distinct_map)
  have d': "distinct (map fst (worn_map ?m'))" "distinct (map snd (worn_map ?m'))"
    using rem inj by (auto simp: distinct_map intro: inj_on_subset)
  have in_b: "(b, ?n) \<in> set (worn_map ?m)" using nth_mem[OF assms(2)] assms(4) by simp
  show "map_of (worn_map ?m') = (map_of (worn_map ?m))(b := None)"
  proof
    fix k
    have "(k, v) = (b, ?n)" if "(k, v) \<in> set (worn_map ?m)" "k = b" for v
      using inj_onD[OF inj(1) _ that(1) in_b] that(2) by simp
    then have "map_of (worn_map ?m') k = Some v \<longleftrightarrow> ((map_of (worn_map ?m))(b := None)) k = Some v" for v
      using rem by (auto simp: map_of_eq_Some_iff[OF d'(1)] map_of_eq_Some_iff[OF dd(1)])
    then show "map_of (worn_map ?m') k = ((map_of (worn_map ?m))(b := None)) k"
      by (metis not_None_eq)
  qed
  have len: "length (em_rblocks ?m') = length (em_rblocks ?m)" by (simp add: unmapped_def)
  have idx: "map bi_index (em_rblocks ?m') = map bi_index (em_rblocks ?m)"
    by (auto simp: unmapped_def list_eq_iff_nth_eq nth_list_update_if)
  have "worn_ok (total_blks s) ?m'"
    unfolding worn_ok_def
  proof (intro conjI ballI impI)
    show "distinct (map fst (worn_map ?m'))" "distinct (map snd (worn_map ?m'))" by (rule d')+
  next
    fix e assume "e \<in> set (worn_map ?m')"
    then have "e \<in> set (worn_map ?m)" using rem by simp
    then show "fst e < em_reserve_area_begin ?m'" "em_reserve_area_begin ?m' \<le> snd e" "snd e < total_blks s"
      using w by (simp_all add: worn_ok_def unmapped_def)
  next
    fix rb assume rb: "rb \<in> set (em_rblocks ?m')" "bi_index rb \<in> snd ` set (worn_map ?m')"
    obtain k where k: "k < length (em_rblocks ?m)" "rb = em_rblocks ?m' ! k" using rb(1) len by (metis in_set_conv_nth)
    have ik: "bi_index rb = bi_index (em_rblocks ?m ! k)" using arg_cong[OF idx, of "\<lambda>xs. xs ! k"] k len by simp
    have "?n \<notin> snd ` set (worn_map ?m')"
    proof
      assume "?n \<in> snd ` set (worn_map ?m')"
      then obtain e where "e \<in> set (worn_map ?m')" "snd e = ?n" by force
      then have "e \<in> set (worn_map ?m)" "e \<noteq> (b, ?n)" "snd e = ?n" using rem by auto
      then show False using inj_onD[OF inj(2) _ _ in_b] by auto
    qed
    then have "k \<noteq> j" using rb(2) ik by auto
    moreover have "bi_status (em_rblocks ?m ! k) = BS_MAPPED"
      using mapped_status[OF assms(1) k(1)] rb(2) ik rem by auto
    ultimately show "bi_status rb = BS_MAPPED" using k by (simp add: unmapped_def)
  qed
  moreover have "tables_sized ?m'" using drop_mapping_worn(2)[OF sized assms(2)] by (simp add: unmapped_def)
  ultimately show "en75_inv (s\<lparr>en75 := ?m'\<rparr>)" using assms(1) idx by (simp add: en75_inv_def unmapped_def)
qed

lemma w_unmap_cases:
  assumes "local_chip nd mem" "en75_geometry s" "en75_inv s" "w_unmap_block nd b erase s = (ret, t)"
  shows "t = s \<or>
    (\<exists>i j d. i < length (worn_map (en75 s)) \<and> j < length (em_rblocks (en75 s)) \<and>
       worn_map (en75 s) ! i = (b, bi_index (em_rblocks (en75 s) ! j)) \<and>
       (t = s\<lparr>dev := d\<rparr> \<or> t = s\<lparr>dev := d, en75 := unmapped i j (en75 s)\<rparr>) \<and>
       (\<forall>y. \<not> in_block s (bi_index (em_rblocks (en75 s) ! j)) y \<longrightarrow> mem d y = mem (dev s) y))"
proof -
  let ?t = "em_bmt (en75 s)"
  have sized: "tables_sized (en75 s)" using assms(3) by (simp add: en75_inv_def)
  show ?thesis
  proof (cases "find (\<lambda>i. fst (mt_table ?t ! i) = b) [0..<mt_size ?t]")
    case None
    then show ?thesis using assms(4) by (simp add: w_unmap_block_def Let_def)
  next
    case (Some i)
    then have i: "i < mt_size ?t" "fst (mt_table ?t ! i) = b" by (auto simp: find_Some_iff)
    show ?thesis
    proof (cases "find_rblock (snd (mt_table ?t ! i)) s")
      case None
      then show ?thesis using assms(4) Some by (simp add: w_unmap_block_def Let_def)
    next
      case (Some j)
      then have j: "j < length (em_rblocks (en75 s))" "bi_index (em_rblocks (en75 s) ! j) = snd (mt_table ?t ! i)"
        by (auto simp: find_rblock_def find_Some_iff)
      let ?n = "bi_index (em_rblocks (en75 s) ! j)"
      define w where "w = (if erase = UE_NO_ERASE then (0, s) else w_erase_one nd ?n False s)"
      have "\<exists>d. snd w = s\<lparr>dev := d\<rparr> \<and> (\<forall>y. \<not> in_block s ?n y \<longrightarrow> mem d y = mem (dev s) y)"
      proof (cases "erase = UE_NO_ERASE \<or> \<not> block_index_is_sane ?n False s")
        case True
        then have "snd w = s\<lparr>dev := dev s\<rparr>" by (auto simp: w_def w_erase_one_def)
        then show ?thesis by blast
      next
        case False
        obtain d where d: "snd (erase_attempts nd ERASE_TRIES ?n 0 s) = s\<lparr>dev := d\<rparr>"
          using erase_attempts_dev[of nd ERASE_TRIES ?n 0 s] by auto
        have "mem d y = mem (dev s) y" if "\<not> in_block s ?n y" for y
          using erase_attempts_mem[OF assms(1) _ that, of ERASE_TRIES 0] assms(2) d
          by (simp add: en75_geometry_def bmt_geometry_def)
        then show ?thesis using d False by (auto simp: w_def w_erase_one_def)
      qed
      then obtain r d where d: "w = (r, s\<lparr>dev := d\<rparr>)" "\<forall>y. \<not> in_block s ?n y \<longrightarrow> mem d y = mem (dev s) y"
        by (metis prod.collapse)
      have "t = s\<lparr>dev := d\<rparr> \<or> t = s\<lparr>dev := d, en75 := unmapped i j (en75 s)\<rparr>"
        using assms(4) \<open>find _ _ = Some i\<close> Some d(1)
        by (auto simp: w_unmap_block_def Let_def w_def[symmetric] set_status_def unmapped_def split: if_splits)
      moreover have "worn_map (en75 s) ! i = (b, ?n)" using i j(2) by (simp add: worn_map_def prod_eq_iff)
      ultimately show ?thesis using i(1) length_worn_map[OF sized] j(1) d(2)
        by (intro disjI2 exI[of _ i] exI[of _ j] exI[of _ d]) simp
    qed
  qed
qed


lemma unmap_keeps_others:
  fixes be :: bool
  assumes "local_chip nd mem" "en75_geometry s" "en75_inv s" "x < en75_user_blocks s"
  defines "t \<equiv> pub_unmap_block nd be x s"
  shows "keeps_others nd be mem x s t \<and>
    (get_mapping_block (int x) t = get_mapping_block (int x) s \<or>
     get_mapping_block (int x) t = get_mapping_block_bbt (int x) s)"
proof -
  let ?b = "bbt_shift (factory_bad (en75 s)) x"
  have bb: "get_mapping_block_bbt (int x) s = int ?b" by (rule user_block_eq(1)[OF assms(3,4)])
  have b: "to_u16 (int ?b) = ?b" "?b < em_reserve_area_begin (en75 s)"
    using user_block_eq[OF assms(3,4)] assms(3) by (simp_all add: to_u16_of_nat en75_inv_def)
  obtain ret s1 where w: "w_unmap_block nd ?b UE_REQUIRE_ERASE s = (ret, s1)" by fastforce
  have "x < em_reserve_area_begin (en75 s)" using assms(4) by (simp add: en75_user_blocks_def)
  then have t: "t = snd (w_sync_tables nd be s1)" using bb b w by (simp add: t_def pub_unmap_block_def)
  have g: "keeps_others nd be mem x s t \<and> get_mapping_block (int x) t = get_mapping_block (int x) s1"
    if k: "keeps_others nd be mem x s s1" and same: "blk_shift s1 = blk_shift s" "en75_geometry s1"
  proof -
    have "tables_sized (en75 s1)" using k by (simp add: keeps_others_def en75_inv_def)
    then have t2: "tends mem s1 t" unfolding t by (rule w_sync_tables_tends[OF assms(1) same(2)])
    show ?thesis using keeps_others_tends[OF k t2 same(1)] mapping_tends(1)[OF t2] by simp
  qed
  from w_unmap_cases[OF assms(1-3) w] show ?thesis
  proof
    assume "s1 = s"
    then show ?thesis using g keeps_others_refl[OF assms(3)] assms(2) by simp
  next
    assume "\<exists>i j d. i < length (worn_map (en75 s)) \<and> j < length (em_rblocks (en75 s)) \<and>
       worn_map (en75 s) ! i = (?b, bi_index (em_rblocks (en75 s) ! j)) \<and>
       (s1 = s\<lparr>dev := d\<rparr> \<or> s1 = s\<lparr>dev := d, en75 := unmapped i j (en75 s)\<rparr>) \<and>
       (\<forall>y. \<not> in_block s (bi_index (em_rblocks (en75 s) ! j)) y \<longrightarrow> mem d y = mem (dev s) y)"
    then obtain i j d where i: "i < length (worn_map (en75 s))" "j < length (em_rblocks (en75 s))"
       "worn_map (en75 s) ! i = (?b, bi_index (em_rblocks (en75 s) ! j))"
       and s1: "s1 = s\<lparr>dev := d\<rparr> \<or> s1 = s\<lparr>dev := d, en75 := unmapped i j (en75 s)\<rparr>"
       and m: "\<And>y. \<not> in_block s (bi_index (em_rblocks (en75 s) ! j)) y \<Longrightarrow> mem d y = mem (dev s) y" by blast
    let ?n = "bi_index (em_rblocks (en75 s) ! j)"
    note u = unmapped_inv[OF assms(3) i]
    have sh: "blk_shift s1 = blk_shift s" "en75_geometry s1" "dev s1 = d" "total_blks s1 = total_blks s"
      using s1 assms(2) by (auto simp: en75_geometry_def bmt_geometry_def)
    have "en75_inv (s\<lparr>en75 := unmapped i j (en75 s)\<rparr>\<lparr>dev := d\<rparr>)" by (simp only: en75_inv_dev u(1))
    moreover have "s\<lparr>en75 := unmapped i j (en75 s)\<rparr>\<lparr>dev := d\<rparr> = s\<lparr>dev := d, en75 := unmapped i j (en75 s)\<rparr>" by simp
    ultimately have inv: "en75_inv s1" using s1 assms(3) by (auto simp only: en75_inv_dev)
    have ub: "en75_user_blocks s1 = en75_user_blocks s" and f: "factory_bad (en75 s1) = factory_bad (en75 s)"
      using s1 by (auto simp: en75_user_blocks_def unmapped_def)
    have dd: "distinct (map snd (worn_map (en75 s)))" "distinct (map fst (worn_map (en75 s)))"
      using assms(3) by (simp_all add: en75_inv_def worn_ok_def)
    have mb: "map_of (worn_map (en75 s)) ?b = Some ?n" using nth_mem[OF i(1)] i(3) dd(2) by simp
    have mo: "map_of (worn_map (en75 s1)) c = map_of (worn_map (en75 s)) c" if "c \<noteq> ?b" for c
      using s1 u(2) that by auto
    have x1: "x < en75_user_blocks s1" using assms(4) ub by simp
    have "keeps_others nd be mem x s s1"
      unfolding keeps_others_def
    proof (intro conjI allI impI)
      show "en75_inv s1" "en75_user_blocks s1 = en75_user_blocks s" by (rule inv) (rule ub)
    next
      fix y assume y: "y < en75_user_blocks s * 2 ^ blk_shift s" "y div 2 ^ blk_shift s \<noteq> x"
      let ?y = "y div 2 ^ blk_shift s"
      have yb: "?y < en75_user_blocks s" using y(1) by (simp add: less_mult_imp_div_less)
      have ne: "bbt_shift (factory_bad (en75 s)) ?y \<noteq> ?b" using y(2) bbt_shift_inj by blast
      have phys: "en75_phys s1 ?y = en75_phys s ?y" by (simp add: en75_phys_def f worn_target_def mo[OF ne])
      have eq: "bmt_phys (en75_bmt_ops nd be) s1 y = bmt_phys (en75_bmt_ops nd be) s y"
        using bmt_phys_en75(1)[OF inv, of y nd be] bmt_phys_en75(1)[OF assms(3) y(1), of nd be] phys ub sh y(1) by simp
      have "en75_phys s ?y \<noteq> ?n"
      proof
        assume e: "en75_phys s ?y = ?n"
        have "em_reserve_area_begin (en75 s) \<le> ?n"
          using mb assms(3) by (auto simp: en75_inv_def worn_ok_def dest!: map_of_SomeD)
        then have "map_of (worn_map (en75 s)) (bbt_shift (factory_bad (en75 s)) ?y) = Some ?n"
          using phys_target(2)[OF assms(3) yb] user_block_eq(2)[OF assms(3) yb] e by auto
        from map_of_inj[OF dd(1) this mb] ne show False by simp
      qed
      then have "\<not> in_block s ?n (bmt_phys (en75_bmt_ops nd be) s y)"
        using bmt_phys_en75(2)[OF assms(3) y(1), of nd be] in_block_unique by blast
      then show "bmt_logical (en75_bmt_ops nd be) mem s1 y = bmt_logical (en75_bmt_ops nd be) mem s y"
        unfolding bmt_logical_def eq using m sh(3) by simp
    qed
    from g[OF this sh(1,2)] show ?thesis
      using s1 by (auto simp: mapping_eq[OF inv x1] mapping_eq[OF assms(3,4)] f bb worn_target_def u(2))
  qed
qed

end
