(* ===== verification/En75_Props.thy ===== *)
theory En75_Props
  imports En75_Ops
begin

unbundle bit_operations_syntax

text \<open>
  The tables of the EcoNet scheme on the chip, the scan that finds the reserve area, the list of
  factory bad blocks in the device tree, and the properties of the scheme.
\<close>

section \<open>Tables on the chip\<close>

lemma digits_num:
  "foldr (\<lambda>b n. unat b + 256 * n) (map (\<lambda>i. of_nat (n div 256 ^ i) :: u8) [0..<k]) 0 = n mod 256 ^ k"
proof (induction k arbitrary: n)
  case (Suc k)
  have "map (\<lambda>i. of_nat (n div 256 ^ i) :: u8) [0..<Suc k] =
      of_nat n # map (\<lambda>i. of_nat (n div 256 div 256 ^ i)) [0..<k]"
    by (simp add: upt_conv_Cons map_Suc_upt[symmetric] div_mult2_eq[symmetric] del: upt_Suc)
  then show ?case using Suc.IH[of "n div 256"] by (simp add: unat_of_nat mod_mult2_eq)
qed simp

lemma host_num_bytes [simp]: "host_num be (host_bytes be k n) = n mod 256 ^ k"
  by (simp add: host_num_def host_bytes_def Let_def digits_num)

text \<open>Fields of equal width behind a header of known length.\<close>

lemma drop_concat_const:
  assumes "\<forall>x \<in> set xs. length (f x) = k" "i < length xs"
  shows "drop (k * i) (concat (map f xs) @ ys) = f (xs ! i) @ concat (map f (drop (Suc i) xs)) @ ys"
  using assms
proof (induction xs arbitrary: i)
  case (Cons x xs)
  show ?case
  proof (cases i)
    case 0
    then show ?thesis by simp
  next
    case (Suc j)
    have l: "length (f x) = k" using Cons.prems by simp
    have "drop (k * i) (concat (map f (x # xs)) @ ys) = drop (k * j) (concat (map f xs) @ ys)"
      using l Suc by simp
    then show ?thesis using Cons.IH[of j] Cons.prems Suc by simp
  qed
qed simp

lemma drop_header: "length h = n \<Longrightarrow> drop (n + k) (h @ x) = drop k x"
  by simp

definition bmt_stored :: "bool \<Rightarrow> en75_bmt \<Rightarrow> bool" where
  "bmt_stored be t \<longleftrightarrow>
     mt_signature t = [0x42, 0x4d, 0x54] \<and> mt_version t < 256 \<and> mt_bad_count t < 256 \<and> mt_size t < 256 \<and>
     length (mt_reserved t) = 13 \<and> length (mt_table t) = MAX_BMT_SIZE \<and>
     (\<forall>e \<in> set (mt_table t). fst e < 65536 \<and> snd e < 65536) \<and> mt_checksum t = bmt_checksum be t (mt_size t)"

lemma unat_byte [simp]: "n < 256 \<Longrightarrow> unat (of_nat n :: u8) = n"
  by (simp add: unat_of_nat)

lemma en75_bmt_of_bytes:
  assumes "bmt_stored be t"
  shows "en75_bmt_of be (en75_bmt_bytes be t @ rest) = t"
proof -
  let ?ent = "concat (map (bmt_entry_bytes be) (mt_table t)) @ rest"
  let ?h = "[0x42, 0x4d, 0x54, of_nat (mt_version t), of_nat (mt_bad_count t), of_nat (mt_size t), of_nat (mt_checksum t)] :: bytes"
  define buf where "buf = en75_bmt_bytes be t @ rest"
  have cs: "mt_checksum t < 256" using assms by (simp add: bmt_stored_def bmt_checksum_def)
  have buf: "buf = ?h @ mt_reserved t @ ?ent"
    using assms by (simp add: buf_def en75_bmt_bytes_def bmt_stored_def)
  have l: "length (mt_reserved t) = 13" "length (mt_table t) = 256" using assms by (simp_all add: bmt_stored_def MAX_BMT_SIZE_def)
  have e: "(host_num be (take 2 (drop (20 + 4 * i) buf)), host_num be (take 2 (drop (22 + 4 * i) buf))) = mt_table t ! i"
    if i: "i < 256" for i
  proof -
    have d: "drop (20 + 4 * i) buf = bmt_entry_bytes be (mt_table t ! i) @ concat (map (bmt_entry_bytes be) (drop (Suc i) (mt_table t))) @ rest"
    proof -
      have "drop (20 + 4 * i) buf = drop (4 * i) ?ent" using drop_header[of "?h @ mt_reserved t" 20 "4 * i" ?ent] l by (simp add: buf)
      then show ?thesis using drop_concat_const[of "mt_table t" "bmt_entry_bytes be" 4 i rest] i l
        by (simp add: bmt_entry_bytes_def)
    qed
    have "drop (22 + 4 * i) buf = drop 2 (drop (20 + 4 * i) buf)" by (simp add: add.commute)
    moreover have "mt_table t ! i \<in> set (mt_table t)" using i l by simp
    ultimately show ?thesis
      using d assms by (auto simp: bmt_entry_bytes_def bmt_stored_def prod_eq_iff)
  qed
  have "mt_table (en75_bmt_of be buf) = mt_table t"
    using e l by (intro nth_equalityI) (simp_all add: en75_bmt_of_def MAX_BMT_SIZE_def)
  moreover have "mt_reserved (en75_bmt_of be buf) = mt_reserved t"
    using drop_header[of ?h 7 0 "mt_reserved t @ ?ent"] l by (simp add: en75_bmt_of_def buf)
  moreover have "mt_signature (en75_bmt_of be buf) = mt_signature t" "mt_version (en75_bmt_of be buf) = mt_version t"
     "mt_bad_count (en75_bmt_of be buf) = mt_bad_count t" "mt_size (en75_bmt_of be buf) = mt_size t"
     "mt_checksum (en75_bmt_of be buf) = mt_checksum t"
    using assms cs by (simp_all add: en75_bmt_of_def buf bmt_stored_def)
  ultimately show ?thesis by (simp add: buf_def)
qed

lemma try_parse_bmt_bytes:
  assumes "bmt_stored be t"
  shows "try_parse_bmt be (en75_bmt_bytes be t @ rest) m = (0, m\<lparr>em_bmt := t\<rparr>)"
proof -
  have "length (concat (map (bmt_entry_bytes be) (mt_table t))) = 4 * length (mt_table t)"
    by (rule length_concat_const) (simp add: bmt_entry_bytes_def)
  then have "length (en75_bmt_bytes be t) = 20 + 4 * MAX_BMT_SIZE"
    using assms by (simp add: en75_bmt_bytes_def bmt_stored_def)
  then show ?thesis
    using assms by (simp add: try_parse_bmt_def en75_bmt_of_bytes bmt_stored_def)
qed


definition bbt_stored :: "bool \<Rightarrow> nat \<Rightarrow> en75_bbt \<Rightarrow> bool" where
  "bbt_stored be ts t \<longleftrightarrow>
     ft_signature t = [0x52, 0x41, 0x57, 0x42] \<and> ft_version t < 256 \<and> ft_size t < 256 \<and> ft_size t \<le> ts \<and>
     length (ft_reserved t) = 2 \<and> length (ft_table t) = MAX_BBT_SIZE \<and> ts \<le> MAX_BBT_SIZE \<and>
     (\<forall>e \<in> set (take ts (ft_table t)). e < 65536) \<and> ft_checksum t = bbt_checksum be t ts"

lemma en75_bbt_of_bytes:
  assumes "bbt_stored be ts t"
  shows "en75_bbt_of be ts (en75_bbt_bytes be ts t @ rest) w = t\<lparr>ft_table := take ts (ft_table t) @ drop ts w\<rparr>"
proof -
  let ?ent = "concat (map (host_bytes be 2) (take ts (ft_table t))) @ rest"
  let ?h = "[0x52, 0x41, 0x57, 0x42] :: bytes" and ?c = "host_bytes be 4 (ft_checksum t)"
  let ?v = "[of_nat (ft_version t), of_nat (ft_size t)] :: bytes"
  define buf where "buf = en75_bbt_bytes be ts t @ rest"
  have cs: "ft_checksum t < 65536" using assms by (simp add: bbt_stored_def bbt_checksum_def)
  have buf: "buf = ?h @ ?c @ ?v @ ft_reserved t @ ?ent"
    using assms by (simp add: buf_def en75_bbt_bytes_def bbt_stored_def)
  have l: "length (ft_reserved t) = 2" "length (take ts (ft_table t)) = ts" using assms by (simp_all add: bbt_stored_def)
  have e: "host_num be (take 2 (drop (12 + 2 * i) buf)) = take ts (ft_table t) ! i" if i: "i < ts" for i
  proof -
    have "drop (12 + 2 * i) buf = drop (2 * i) ?ent"
      using drop_header[of "?h @ ?c @ ?v @ ft_reserved t" 12 "2 * i" ?ent] l by (simp add: buf)
    also have "\<dots> = host_bytes be 2 (take ts (ft_table t) ! i) @
        concat (map (host_bytes be 2) (drop (Suc i) (take ts (ft_table t)))) @ rest"
      using i l(2) by (intro drop_concat_const) simp_all
    finally have "host_num be (take 2 (drop (12 + 2 * i) buf)) = take ts (ft_table t) ! i mod 65536" by simp
    moreover have "take ts (ft_table t) ! i < 65536" using assms nth_mem[of i "take ts (ft_table t)"] i l(2) by (simp add: bbt_stored_def)
    ultimately show ?thesis by simp
  qed
  have tab: "map (\<lambda>i. host_num be (take 2 (drop (12 + 2 * i) buf))) [0..<ts] = take ts (ft_table t)"
    using e l(2) by (intro nth_equalityI) simp_all
  have d4: "take 4 (drop 4 buf) = ?c" using drop_header[of ?h 4 0 "?c @ ?v @ ft_reserved t @ ?ent"] by (simp add: buf)
  have d10: "take 2 (drop 10 buf) = ft_reserved t"
    using drop_header[of "?h @ ?c @ ?v" 10 0 "ft_reserved t @ ?ent"] l by (simp add: buf)
  have "length (?h @ ?c) = 8" by simp
  then have v: "buf ! 8 = of_nat (ft_version t)" "buf ! 9 = of_nat (ft_size t)"
    unfolding buf by (simp_all only: append_assoc[symmetric]) (simp_all add: nth_append)
  have sg: "take 4 buf = ft_signature t" using assms by (simp add: buf bbt_stored_def)
  show ?thesis
    using assms cs unfolding buf_def[symmetric] en75_bbt_of_def tab d4 d10 v sg by (simp add: bbt_stored_def)
qed

lemma bbt_checksum_cong: "take ts xs = take ts (ft_table t) \<Longrightarrow> bbt_checksum be (t\<lparr>ft_table := xs\<rparr>) ts = bbt_checksum be t ts"
  by (simp add: bbt_checksum_def)

lemma try_parse_bbt_bytes:
  assumes "bbt_stored be (em_bbt_table_size m) t"
  shows "fst (try_parse_bbt be (en75_bbt_bytes be (em_bbt_table_size m) t @ rest) m) = 0"
    "factory_bad (snd (try_parse_bbt be (en75_bbt_bytes be (em_bbt_table_size m) t @ rest) m)) = sort (take (ft_size t) (ft_table t))"
proof -
  let ?ts = "em_bbt_table_size m"
  have l: "length (take ?ts (ft_table t)) = ?ts" "ft_size t \<le> ?ts" using assms by (simp_all add: bbt_stored_def)
  have "length (concat (map (host_bytes be 2) (take ?ts (ft_table t)))) = 2 * length (take ?ts (ft_table t))"
    by (rule length_concat_const) simp
  then have len: "length (en75_bbt_bytes be ?ts t) = 12 + 2 * ?ts"
    using assms l by (simp add: en75_bbt_bytes_def bbt_stored_def)
  define w where "w = t\<lparr>ft_table := take ?ts (ft_table t) @ drop ?ts (em_workspace m)\<rparr>"
  have c: "ft_checksum w = bbt_checksum be w ?ts"
    using bbt_checksum_cong[of ?ts "ft_table w" t be] assms l by (simp add: w_def bbt_stored_def)
  have p: "try_parse_bbt be (en75_bbt_bytes be ?ts t @ rest) m = (0, m\<lparr>em_workspace := ft_table (sort_bbt w),
      em_bbt := (sort_bbt w)\<lparr>ft_table := take ?ts (ft_table (sort_bbt w)) @ drop ?ts (ft_table (em_bbt m))\<rparr>\<rparr>)"
    unfolding try_parse_bbt_def Let_def en75_bbt_of_bytes[OF assms] w_def[symmetric]
    using len c assms by (simp add: w_def bbt_stored_def)
  show "fst (try_parse_bbt be (en75_bbt_bytes be ?ts t @ rest) m) = 0" by (simp add: p)
  have "take (ft_size t) (ft_table w) = take (ft_size t) (ft_table t)" using l by (simp add: w_def min_def)
  then show "factory_bad (snd (try_parse_bbt be (en75_bbt_bytes be ?ts t @ rest) m)) = sort (take (ft_size t) (ft_table t))"
    using l assms by (simp add: p factory_bad_def sort_bbt_def w_def bbt_stored_def)
qed

section \<open>A small chip\<close>

text \<open>
  Eight blocks of 2048 bytes: block 2 was bad from the start, block 3 is worn and replaced by
  block 6, blocks 5 and 7 are free.
\<close>

definition en75_small :: "(nat \<Rightarrow> u8) bmt_st" where
  "en75_small =
     (small_st [] None [])\<lparr>blk_shift := 11, blk_size := 2048, mtd_erasesize := 2048, mtd_size := 8192,
       en75 := zero_en75\<lparr>
         em_bbt := \<lparr>ft_signature = [0x52, 0x41, 0x57, 0x42], ft_checksum = 0, ft_version = 1, ft_size = 1,
                    ft_reserved = [0, 0], ft_table = 2 # replicate 999 0\<rparr>,
         em_bbt_table_size := 1000,
         em_bmt := \<lparr>mt_signature = [0x42, 0x4d, 0x54], mt_version = 1, mt_bad_count = 0, mt_size = 1,
                    mt_checksum = 0, mt_reserved = replicate 13 0, mt_table = (3, 6) # replicate 255 (0, 0)\<rparr>,
         em_rblocks := [\<lparr>bi_index = 7, bi_status = BS_AVAILABLE\<rparr>, \<lparr>bi_index = 6, bi_status = BS_MAPPED\<rparr>,
                        \<lparr>bi_index = 5, bi_status = BS_AVAILABLE\<rparr>],
         em_reserve_area_begin := 5, em_can_remap_ranges := [(0, 5)]\<rparr>\<rparr>"

lemma en75_small_sel [simp]:
  "worn_map (en75 en75_small) = [(3, 6)]" "factory_bad (en75 en75_small) = [2]"
  "en75_user_blocks en75_small = 4" "blk_shift en75_small = 11" "total_blks en75_small = 8"
  "em_reserve_area_begin (en75 en75_small) = 5"
  by (simp_all add: en75_small_def worn_map_def factory_bad_def en75_user_blocks_def)

lemma en75_small_inv: "en75_inv en75_small"
proof -
  have "tables_sized (en75 en75_small)"
    by (simp add: tables_sized_def en75_small_def MAX_BMT_SIZE_def MAX_BBT_SIZE_def)
  moreover have "map bi_index (em_rblocks (en75 en75_small)) = rev [5..<8]"
    by (simp add: en75_small_def upt_conv_Cons)
  moreover have "worn_ok 8 (en75 en75_small)"
    unfolding worn_ok_def by simp (simp add: en75_small_def)
  moreover have "ft_size (em_bbt (en75 en75_small)) = 1" by (simp add: en75_small_def)
  ultimately show ?thesis by (simp add: en75_inv_def)
qed

lemma en75_small_geometry: "en75_geometry en75_small"
proof -
  have "(2::nat) ^ 11 = 2 * 1024" by simp
  then show ?thesis
    by (simp add: en75_geometry_def bmt_geometry_def en75_small_def small_st_def)
qed

lemma en75_small_mapping:
  "get_mapping_block 0 en75_small = 0" "get_mapping_block 1 en75_small = 1" "get_mapping_block 2 en75_small = 6"
  "get_mapping_block 3 en75_small = 4"
  by (simp_all add: get_mapping_block_def get_mapping_block_bbt_def)

section \<open>Properties\<close>

lemma phys_of_mapping:
  assumes "en75_inv s" "x < en75_user_blocks s" "get_mapping_block (int x) s = int b"
  shows "en75_phys s x = b"
  using assms mapping_eq[OF assms(1,2)] by (simp add: en75_phys_def)

text \<open>
  C10. Replacing a worn block. Whatever the chip does short of changing bytes outside the range of
  a request, replacing the block \<open>b\<close> behind the logical block \<open>x\<close> keeps the invariant and the
  bytes of every other logical block, and \<open>x\<close> stays where it was or moves to a block of the
  reserve area that was free.
\<close>

theorem en75_remap_keeps_data:
  assumes "local_chip nd mem" "en75_geometry s" "en75_inv s" "x < en75_user_blocks s"
    and "get_mapping_block (int x) s = int b" "copy_len \<le> 2 ^ blk_shift s"
    and "pub_remap_block nd be x b copy_len s = (ok, t)"
  shows "en75_inv t \<and> en75_user_blocks t = en75_user_blocks s \<and>
     (\<forall>y < en75_user_blocks s * 2 ^ blk_shift s. y div 2 ^ blk_shift s \<noteq> x \<longrightarrow>
        bmt_logical (en75_bmt_ops nd be) mem t y = bmt_logical (en75_bmt_ops nd be) mem s y) \<and>
     (get_mapping_block (int x) t = int b \<or>
      (\<exists>rb \<in> set (em_rblocks (en75 s)). bi_status rb = BS_AVAILABLE \<and> get_mapping_block (int x) t = int (bi_index rb)))"
  using remap_keeps_others[OF assms(1-4,6), of be ok t] assms(5,7) phys_of_mapping[OF assms(3-5)]
  by (simp add: keeps_others_def)

theorem en75_remap_keeps_data_witness:
  "en75_inv (snd (pub_remap_block ram_chip False 2 6 2048 en75_small)) \<and>
   bmt_logical (en75_bmt_ops ram_chip False) (\<lambda>d. d) (snd (pub_remap_block ram_chip False 2 6 2048 en75_small)) 10 =
     bmt_logical (en75_bmt_ops ram_chip False) (\<lambda>d. d) en75_small 10"
  using en75_remap_keeps_data[OF ram_chip_local en75_small_geometry en75_small_inv, of 2 6 2048 False
      "fst (pub_remap_block ram_chip False 2 6 2048 en75_small)" "snd (pub_remap_block ram_chip False 2 6 2048 en75_small)"]
  by (simp add: en75_small_mapping)

text \<open>
  C11. Giving a replacement back. Under the same conditions unmapping a logical block keeps the
  invariant and the bytes of every other logical block, and the block stays where it was or
  returns to its own place in the user area.
\<close>

theorem en75_unmap_keeps_data:
  fixes be :: bool
  assumes "local_chip nd mem" "en75_geometry s" "en75_inv s" "x < en75_user_blocks s"
  defines "t \<equiv> pub_unmap_block nd be x s"
  shows "en75_inv t \<and> en75_user_blocks t = en75_user_blocks s \<and>
     (\<forall>y < en75_user_blocks s * 2 ^ blk_shift s. y div 2 ^ blk_shift s \<noteq> x \<longrightarrow>
        bmt_logical (en75_bmt_ops nd be) mem t y = bmt_logical (en75_bmt_ops nd be) mem s y) \<and>
     (get_mapping_block (int x) t = get_mapping_block (int x) s \<or>
      get_mapping_block (int x) t = get_mapping_block_bbt (int x) s)"
  using unmap_keeps_others[OF assms(1-4), of be] unfolding t_def keeps_others_def by blast

theorem en75_unmap_keeps_data_witness:
  "en75_inv (pub_unmap_block ram_chip False 2 en75_small) \<and>
   bmt_logical (en75_bmt_ops ram_chip False) (\<lambda>d. d) (pub_unmap_block ram_chip False 2 en75_small) 10 =
     bmt_logical (en75_bmt_ops ram_chip False) (\<lambda>d. d) en75_small 10"
  using en75_unmap_keeps_data[OF ram_chip_local en75_small_geometry en75_small_inv, of 2 False] by simp

text \<open>
  Writing through the EcoNet tables. On a chip without faults a write to erased bytes of the
  user area changes the logical device in the written range only, and stores the data there.
\<close>

theorem en75_write_refines:
  assumes "reliable_chip nd mem" "en75_inv s" "bmt_geometry s"
    and "a + rq_len rq \<le> en75_user_blocks s * 2 ^ blk_shift s" "rq_len rq \<le> length (rq_dat rq)"
    and "rq_ooblen rq = 0" "rq_len rq < fuel"
    and "\<And>x. a \<le> x \<Longrightarrow> x < a + rq_len rq \<Longrightarrow> bmt_logical (en75_bmt_ops nd be) mem s x = - 1"
  shows "\<exists>l d. mtk_bmt_write fuel nd (en75_bmt_ops nd be) a rq s = Some (0, l, s\<lparr>dev := d\<rparr>) \<and>
     wl_retlen l = rq_len rq \<and>
     (\<forall>x < en75_user_blocks s * 2 ^ blk_shift s. bmt_logical (en75_bmt_ops nd be) mem (s\<lparr>dev := d\<rparr>) x =
        (if a \<le> x \<and> x < a + rq_len rq then rq_dat rq ! (x - a)
         else bmt_logical (en75_bmt_ops nd be) mem s x))"
  using assms by (rule en75_backend.write_contract)

text \<open>
  C12. The shift over factory bad blocks enumerates the good blocks. With an ascending table of
  blocks of the user area, the user blocks from 0 on are mapped, before worn blocks are
  considered, to exactly the blocks that are not in the table, in order.
\<close>

theorem en75_mapping_enumerates:
  assumes "en75_inv s" "sorted_wrt (<) (factory_bad (en75 s))"
    and "\<forall>b \<in> set (factory_bad (en75 s)). b < em_reserve_area_begin (en75 s)"
  shows "map (\<lambda>x. get_mapping_block_bbt (int x) s) [0..<en75_user_blocks s] =
     map int (filter (\<lambda>b. b \<notin> set (factory_bad (en75 s))) [0..<em_reserve_area_begin (en75 s)])"
proof -
  let ?es = "factory_bad (en75 s)" and ?n = "em_reserve_area_begin (en75 s)"
  have len: "length ?es = ft_size (em_bbt (en75 s))" using assms(1) length_factory_bad by (simp add: en75_inv_def)
  then have "en75_user_blocks s = ?n - length ?es" "length ?es \<le> ?n"
    using assms(1) by (simp_all add: en75_user_blocks_def en75_inv_def)
  then have "filter (\<lambda>b. b \<notin> set ?es) [0..<?n] = map (bbt_shift ?es) [0..<en75_user_blocks s]"
    using bbt_shift_enumerates[OF assms(2,3)] by simp
  then show ?thesis by (simp add: user_block_eq(1)[OF assms(1)])
qed

theorem en75_mapping_enumerates_witness:
  "map (\<lambda>x. get_mapping_block_bbt (int x) en75_small) [0..<4] = [0, 1, 3, 4]"
  using en75_mapping_enumerates[OF en75_small_inv] by (simp add: upt_conv_Cons)

theorem en75_write_refines_witness:
  "\<exists>l d. mtk_bmt_write 9 ram_chip (en75_bmt_ops ram_chip False) 4094
       \<lparr>rq_mode = 0, rq_ooboffs = 0, rq_ooblen = 0, rq_len = 4, rq_dat = [1, 2, 3, 4], rq_oob = []\<rparr> en75_small =
       Some (0, l, en75_small\<lparr>dev := d\<rparr>) \<and> wl_retlen l = 4"
proof -
  have g: "bmt_geometry en75_small" using en75_small_geometry by (simp add: en75_geometry_def)
  have "dev en75_small = (\<lambda>_. - 1)" by (simp add: en75_small_def)
  then have e: "bmt_logical (en75_bmt_ops ram_chip False) (\<lambda>d. d) en75_small y = - 1" for y by (simp add: bmt_logical_def)
  show ?thesis
    using en75_write_refines[OF ram_chip_reliable en75_small_inv g, of 4094 "\<lparr>rq_mode = 0, rq_ooboffs = 0, rq_ooblen = 0, rq_len = 4,
        rq_dat = [1, 2, 3, 4], rq_oob = []\<rparr>" 9 False] e by auto
qed

text \<open>What the tables need besides the invariant to be stored without loss.\<close>

definition tables_plain :: "en75_bmt_m \<Rightarrow> bool" where
  "tables_plain m \<longleftrightarrow>
     mt_signature (em_bmt m) = [0x42, 0x4d, 0x54] \<and> ft_signature (em_bbt m) = [0x52, 0x41, 0x57, 0x42] \<and>
     mt_version (em_bmt m) < 256 \<and> mt_bad_count (em_bmt m) < 256 \<and> ft_version (em_bbt m) < 256 \<and>
     (\<forall>e \<in> set (mt_table (em_bmt m)). fst e < 65536 \<and> snd e < 65536) \<and>
     (\<forall>e \<in> set (ft_table (em_bbt m)). e < 65536) \<and> ft_size (em_bbt m) \<le> em_bbt_table_size m"

lemma set_clear_range: "set (clear_range lo hi z xs) \<subseteq> insert z (set xs)"
  by (auto simp: clear_range_def dest: in_set_takeD in_set_dropD)

lemma checksum_frame [simp]:
  "bmt_checksum be (t\<lparr>mt_checksum := c\<rparr>) n = bmt_checksum be t n"
  "bbt_checksum be (f\<lparr>ft_checksum := c\<rparr>) n = bbt_checksum be f n"
  by (simp_all add: bmt_checksum_def bbt_checksum_def)

lemma prepare_bmt_stored:
  assumes "tables_sized (en75 s)" "tables_plain (en75 s)"
  shows "bmt_stored be (em_bmt (en75 (prepare_bmt be s)))"
proof -
  let ?xs = "clear_range (mt_size (em_bmt (en75 s))) (nat (reserve_block_count s)) (0, 0) (mt_table (em_bmt (en75 s)))"
  have "fst e < 65536 \<and> snd e < 65536" if "e \<in> set ?xs" for e
  proof -
    have "e \<in> insert (0, 0) (set (mt_table (em_bmt (en75 s))))" by (rule subsetD[OF set_clear_range that])
    then show ?thesis using assms(2) unfolding tables_plain_def by auto
  qed
  moreover have "length ?xs = MAX_BMT_SIZE" using assms(1) by (simp add: tables_sized_def MAX_BMT_SIZE_def)
  ultimately show ?thesis
    using assms unfolding tables_sized_def tables_plain_def bmt_stored_def prepare_bmt_def Let_def by simp
qed

lemma prepare_bbt_stored:
  assumes "tables_sized (en75 s)" "tables_plain (en75 s)"
  shows "bbt_stored be (em_bbt_table_size (en75 s)) (em_bbt (en75 (prepare_bbt be s)))"
proof -
  let ?xs = "clear_range (ft_size (em_bbt (en75 s))) (em_bbt_table_size (en75 s)) 0 (ft_table (em_bbt (en75 s)))"
  have "e < 65536" if "e \<in> set (take (em_bbt_table_size (en75 s)) ?xs)" for e
  proof -
    have "e \<in> set ?xs" using that by (rule in_set_takeD)
    from subsetD[OF set_clear_range this] have "e \<in> insert 0 (set (ft_table (em_bbt (en75 s))))" .
    then show ?thesis using assms(2) by (auto simp: tables_plain_def)
  qed
  moreover have "length ?xs = MAX_BBT_SIZE" using assms(1) by (simp add: tables_sized_def MAX_BBT_SIZE_def)
  ultimately show ?thesis
    using assms unfolding tables_sized_def tables_plain_def bbt_stored_def prepare_bbt_def Let_def by simp
qed

lemma try_parse_bbt_bmt_bytes:
  assumes "mt_signature t = [0x42, 0x4d, 0x54]"
  shows "\<exists>w. try_parse_bbt be (en75_bmt_bytes be t @ rest) m = (- EINVAL, m\<lparr>em_workspace := w\<rparr>)"
proof (cases "length (en75_bmt_bytes be t @ rest) < 12 + 2 * em_bbt_table_size m")
  case True
  then show ?thesis by (auto simp: try_parse_bbt_def intro!: exI[of _ "em_workspace m"])
next
  case False
  have "ft_signature (en75_bbt_of be ts (en75_bmt_bytes be t @ rest) w) \<noteq> [0x52, 0x41, 0x57, 0x42]" for ts w
    by (simp add: en75_bbt_of_def en75_bmt_bytes_def assms)
  then show ?thesis using False by (auto simp: try_parse_bbt_def Let_def)
qed

text \<open>
  C13. Tables survive a restart. A page that starts with the bytes that storing the table of
  replacements writes is classified as such by the scan of the reserve area, and the scan takes
  over the same replacements; a page with the bytes of the table of factory bad blocks is
  classified as that, and gives the same blocks in ascending order. This holds for both byte
  orders, whatever follows the table in the page.
\<close>

theorem en75_tables_reread:
  fixes be :: bool and rest :: bytes
  assumes "tables_sized (en75 s)" "tables_plain (en75 s)" "em_bbt_table_size m = em_bbt_table_size (en75 s)"
    and "fdm_is_bad fdm = BB_GOOD" "\<not> fdm_is_mapped fdm"
  defines "mt \<equiv> classify_block be 0 fdm (en75_bmt_bytes be (em_bmt (en75 (prepare_bmt be s))) @ rest) m"
    and "ft \<equiv> classify_block be 0 fdm (en75_bbt_bytes be (em_bbt_table_size m) (em_bbt (en75 (prepare_bbt be s))) @ rest) m"
  shows "fst mt = BS_BMT \<and> worn_map (snd mt) = worn_map (en75 s) \<and>
     fst ft = BS_BBT \<and> factory_bad (snd ft) = sort (factory_bad (en75 s))"
proof -
  let ?t = "em_bmt (en75 (prepare_bmt be s))" and ?f = "em_bbt (en75 (prepare_bbt be s))"
  note st = prepare_bmt_stored[OF assms(1,2), of be]
  obtain w where w: "try_parse_bbt be (en75_bmt_bytes be ?t @ rest) m = (- EINVAL, m\<lparr>em_workspace := w\<rparr>)"
    using try_parse_bbt_bmt_bytes st unfolding bmt_stored_def by blast
  have mt: "mt = (BS_BMT, m\<lparr>em_workspace := w\<rparr>\<lparr>em_bmt := ?t\<rparr>)"
    unfolding mt_def classify_block_def w using try_parse_bmt_bytes[OF st] assms(4,5) by simp
  have "worn_map (m\<lparr>em_workspace := w\<rparr>\<lparr>em_bmt := ?t\<rparr>) = worn_map (en75 s)"
    by (simp add: worn_map_def prepare_bmt_def Let_def)
  moreover have fs: "bbt_stored be (em_bbt_table_size m) ?f" using prepare_bbt_stored[OF assms(1,2)] assms(3) by simp
  have "fst ft = BS_BBT" "snd ft = snd (try_parse_bbt be (en75_bbt_bytes be (em_bbt_table_size m) ?f @ rest) m)"
    using try_parse_bbt_bytes(1)[OF fs, of rest] assms(4,5) by (auto simp: ft_def classify_block_def split: prod.splits)
  moreover have "take (ft_size ?f) (ft_table ?f) = factory_bad (en75 s)"
    by (simp add: factory_bad_def prepare_bbt_def Let_def)
  ultimately show ?thesis using mt try_parse_bbt_bytes(2)[OF fs, of rest] by simp
qed

theorem en75_tables_reread_witness:
  "worn_map (snd (classify_block True 0 [0xff, 0xff, 0xff, 0xff]
      (en75_bmt_bytes True (em_bmt (en75 (prepare_bmt True en75_small))) @ [0xff]) (zero_en75\<lparr>em_bbt_table_size := 1000\<rparr>))) = [(3, 6)]"
proof -
  have "tables_sized (en75 en75_small)" using en75_small_inv by (simp add: en75_inv_def)
  moreover have "tables_plain (en75 en75_small)" by (auto simp: tables_plain_def en75_small_def)
  moreover have "em_bbt_table_size (en75 en75_small) = 1000" by (simp add: en75_small_def)
  ultimately show ?thesis
    using en75_tables_reread[of en75_small "zero_en75\<lparr>em_bbt_table_size := 1000\<rparr>" "[0xff, 0xff, 0xff, 0xff]" True "[0xff]"]
    by (simp add: fdm_is_bad_def fdm_is_mapped_def)
qed

section \<open>Finding the reserve area\<close>

lemma classify_block_frame:
  assumes "classify_block be ret fdm data m = (st, m')"
  shows "em_rblocks m' = em_rblocks m \<and> em_reserve_area_begin m' = em_reserve_area_begin m"
  using assms
  by (auto simp: classify_block_def try_parse_bbt_def try_parse_bmt_def Let_def split: if_splits prod.splits)

lemma read_attempts_scratch:
  "read_attempts nd n block ret fdm s = (r, f, t) \<Longrightarrow> \<exists>x d. t = s\<lparr>dev := d, data_buf := x\<rparr>"
proof (induction n arbitrary: ret fdm s)
  case 0
  then have "t = s\<lparr>dev := dev s, data_buf := data_buf s\<rparr>" by simp
  then show ?case by blast
next
  case (Suc n)
  obtain r1 f1 s1 where p: "read_first_page nd block fdm s = (r1, f1, s1)" by (metis prod_cases3)
  then obtain x d where s1: "s1 = s\<lparr>dev := d, data_buf := x\<rparr>"
    by (auto simp: read_first_page_def bbt_nand_read_def Let_def split: prod.splits)
  show ?case
  proof (cases "r1 = 0")
    case True
    then show ?thesis using Suc.prems p s1 by auto
  next
    case False
    then have "read_attempts nd n block r1 f1 s1 = (r, f, t)" using Suc.prems p by simp
    from Suc.IH[OF this] show ?thesis using s1 by auto
  qed
qed

definition good_count :: "block_info list \<Rightarrow> nat" where
  "good_count rbs = length (filter (\<lambda>b. bi_status b \<noteq> BS_BAD) rbs)"

lemma scan_reserve_loop_shape:
  assumes "scan_reserve_loop nd be c good fdm s = (r, t)"
  shows "total_blks t = total_blks s \<and>
    (\<exists>new. em_rblocks (en75 t) = em_rblocks (en75 s) @ new \<and>
       (case r of
          None \<Rightarrow> map bi_index new = rev [1..<Suc c] \<and> (new \<noteq> [] \<longrightarrow> good + good_count new < REQUIRED_GOOD_BLOCKS (total_blks s))
        | Some b \<Rightarrow> 0 < b \<and> b \<le> c \<and> map bi_index new = rev [b..<Suc c] \<and>
            REQUIRED_GOOD_BLOCKS (total_blks s) \<le> good + good_count new \<and>
            (b < c \<longrightarrow> good + good_count (butlast new) < REQUIRED_GOOD_BLOCKS (total_blks s))))"
  using assms
proof (induction c arbitrary: good fdm s)
  case (Suc c)
  obtain ret f1 s1 where rd: "read_attempts nd INITIAL_READ_TRIES (Suc c) 0 fdm s = (ret, f1, s1)" by (metis prod_cases3)
  obtain x d where s1: "s1 = s\<lparr>dev := d, data_buf := x\<rparr>" using read_attempts_scratch[OF rd] by blast
  obtain st m where cl: "classify_block be ret f1 (take (pg_size s1) (data_buf s1)) (en75 s1) = (st, m)" by fastforce
  define new where "new = \<lparr>bi_index = Suc c, bi_status = st\<rparr>"
  define s2 where "s2 = s1\<lparr>en75 := m\<lparr>em_rblocks := em_rblocks m @ [new]\<rparr>\<rparr>"
  define g where "g = (if st = BS_BAD then good else Suc good)"
  have em: "em_rblocks (en75 s2) = em_rblocks (en75 s) @ [new]" "total_blks s2 = total_blks s"
    using classify_block_frame[OF cl] by (simp_all add: s2_def s1)
  have tb: "total_blks s1 = total_blks s" by (simp add: s1)
  have step: "(r, t) = (if REQUIRED_GOOD_BLOCKS (total_blks s) \<le> g then (Some (Suc c), s2) else scan_reserve_loop nd be c g f1 s2)"
    using Suc.prems rd cl tb by (auto simp: Let_def s2_def new_def g_def)
  show ?case
  proof (cases "REQUIRED_GOOD_BLOCKS (total_blks s) \<le> g")
    case True
    then show ?thesis using step em by (simp add: new_def g_def good_count_def split: if_splits)
  next
    case False
    then have "scan_reserve_loop nd be c g f1 s2 = (r, t)" using step by simp
    from Suc.IH[OF this] obtain more where ih: "total_blks t = total_blks s2"
      "em_rblocks (en75 t) = em_rblocks (en75 s2) @ more"
      "case r of
          None \<Rightarrow> map bi_index more = rev [1..<Suc c] \<and> (more \<noteq> [] \<longrightarrow> g + good_count more < REQUIRED_GOOD_BLOCKS (total_blks s2))
        | Some b \<Rightarrow> 0 < b \<and> b \<le> c \<and> map bi_index more = rev [b..<Suc c] \<and>
            REQUIRED_GOOD_BLOCKS (total_blks s2) \<le> g + good_count more \<and>
            (b < c \<longrightarrow> g + good_count (butlast more) < REQUIRED_GOOD_BLOCKS (total_blks s2))" by blast
    have cat: "good + good_count (new # xs) = g + good_count xs" for xs by (simp add: g_def new_def good_count_def)
    have idx: "bi_index new = Suc c" by (simp add: new_def)
    have last: "g + good_count (butlast more) < REQUIRED_GOOD_BLOCKS (total_blks s)" if "r = Some c" 
    proof -
      have "map bi_index more = [c]" using ih(3) that by simp
      then have "butlast more = []" by auto
      then show ?thesis using False by (simp add: good_count_def)
    qed
    show ?thesis
    proof (cases r)
      case None
      have "g + good_count more < REQUIRED_GOOD_BLOCKS (total_blks s)"
        using ih(3) None False em(2) by (cases "more = []") (simp_all add: good_count_def)
      then show ?thesis using ih em None
        by (intro conjI exI[of _ "new # more"]) (simp_all add: idx cat)
    next
      case (Some b)
      have ne: "more \<noteq> []" using ih(3) Some by auto
      then have bl: "butlast (new # more) = new # butlast more" by simp
      have b: "0 < b" "b \<le> c" "map bi_index more = rev [b..<Suc c]" "REQUIRED_GOOD_BLOCKS (total_blks s) \<le> g + good_count more"
        "b < c \<Longrightarrow> g + good_count (butlast more) < REQUIRED_GOOD_BLOCKS (total_blks s)"
        using ih(3) Some em(2) by auto
      have "g + good_count (butlast more) < REQUIRED_GOOD_BLOCKS (total_blks s)"
        using b(5) last Some b(2) by (cases "b = c") auto
      then show ?thesis unfolding Some option.case using ih(1,2) em b(1-4)
        by (intro conjI exI[of _ "new # more"]) (simp_all only: cat bl, simp_all add: idx)
    qed
  qed
qed (simp add: good_count_def)

text \<open>
  C14. The reserve area. When the scan of the chip succeeds, the list of the reserve area is
  exactly the blocks from its begin to the end of the chip, downwards; it has at least the
  required number of blocks that are not bad, and no shorter area at the end of the chip would
  have had them.
\<close>

theorem en75_scan_reserve_area:
  assumes "r_scan_reserve nd be alloc_ok s = (0, t)" "0 < total_blks s"
  defines "rbs \<equiv> em_rblocks (en75 t)" and "b \<equiv> em_reserve_area_begin (en75 t)"
  shows "0 < b \<and> b < total_blks s \<and> map bi_index rbs = rev [b..<total_blks s] \<and>
     REQUIRED_GOOD_BLOCKS (total_blks s) \<le> good_count rbs \<and>
     (b + 1 < total_blks s \<longrightarrow> good_count (butlast rbs) < REQUIRED_GOOD_BLOCKS (total_blks s))"
proof -
  let ?s = "s\<lparr>en75 := (en75 s)\<lparr>em_rblocks := []\<rparr>\<rparr>"
  have n: "total_blks s \<noteq> 0" "total_blks s \<noteq> 1" "alloc_ok" using assms(1,2) by (auto simp: r_scan_reserve_def split: if_splits)
  then obtain c s1 where l: "scan_reserve_loop nd be (total_blks s - 1) 0 (replicate 4 0) ?s = (Some c, s1)"
    and t: "t = s1\<lparr>en75 := (en75 s1)\<lparr>em_reserve_area_begin := c\<rparr>\<rparr>"
    using assms(1) unfolding r_scan_reserve_def by (auto split: prod.splits option.splits)
  have "Suc (total_blks s - 1) = total_blks s" using n by simp
  then show ?thesis
    using scan_reserve_loop_shape[OF l] n by (auto simp: rbs_def b_def t)
qed

theorem en75_scan_reserve_area_witness:
  "em_reserve_area_begin (en75 (snd (r_scan_reserve ram_chip False True en75_small))) < 8 \<and>
   map bi_index (em_rblocks (en75 (snd (r_scan_reserve ram_chip False True en75_small)))) = [7]"
proof -
  let ?s = "en75_small\<lparr>en75 := (en75 en75_small)\<lparr>em_rblocks := []\<rparr>\<rparr>"
  obtain r t where l: "scan_reserve_loop ram_chip False 7 0 (replicate 4 0) ?s = (r, t)" by fastforce
  have "r \<noteq> None" using scan_reserve_loop_shape[OF l] by (cases r) (auto simp: REQUIRED_GOOD_BLOCKS_def)
  then have z: "fst (r_scan_reserve ram_chip False True en75_small) = 0" using l by (auto simp: r_scan_reserve_def)
  define u where "u = snd (r_scan_reserve ram_chip False True en75_small)"
  have "r_scan_reserve ram_chip False True en75_small = (0, u)" using z by (simp add: u_def prod_eq_iff)
  from en75_scan_reserve_area[OF this] have a: "em_reserve_area_begin (en75 u) < 8 \<and> \<not> em_reserve_area_begin (en75 u) + 1 < 8 \<and>
      map bi_index (em_rblocks (en75 u)) = rev [em_reserve_area_begin (en75 u)..<8]" by (simp add: REQUIRED_GOOD_BLOCKS_def)
  then have "em_reserve_area_begin (en75 u) = 7" by simp
  then show ?thesis using a by (simp add: u_def upt_conv_Cons)
qed

section \<open>Factory bad blocks of the device tree\<close>

lemma clear_last:
  assumes "tables_sized (en75 s)" "ft_size (em_bbt (en75 s)) = Suc i"
  defines "m \<equiv> en75 s"
  defines "s1 \<equiv> s\<lparr>en75 := m\<lparr>em_bbt := (em_bbt m)\<lparr>ft_size := i, ft_table := (ft_table (em_bbt m))[i := 0]\<rparr>\<rparr>\<rparr>"
  shows "clear_factory_bad nd blocks (Suc i) s =
     clear_factory_bad nd blocks i (if ft_table (em_bbt m) ! i \<in> set blocks then s1 else snd (w_erase_one nd 0 True s1))"
proof -
  have "(ft_table (em_bbt m))[i := 0] ! i = 0"
    using assms(1,2) by (simp add: tables_sized_def m_def MAX_BBT_SIZE_def)
  then show ?thesis using assms(2) by (simp add: Let_def m_def s1_def)
qed

lemma erase_block_0:
  assumes "reliable_chip nd mem" "bmt_geometry s" "0 < em_reserve_area_begin (en75 s)" "0 < total_blks s"
  shows "\<exists>d. snd (w_erase_one nd 0 True s) = s\<lparr>dev := d\<rparr> \<and> mem d = (\<lambda>x. if x < 2 ^ blk_shift s then - 1 else mem (dev s) x)"
proof -
  obtain e d where d: "nd_erase nd (dev s) 0 (blk_size s) = (e, d)" by fastforce
  have "e = 0" "mem d = (\<lambda>x. if x < 2 ^ blk_shift s then - 1 else mem (dev s) x)"
    using reliable_erase[OF assms(1) d] assms(2) by (simp_all add: bmt_geometry_def)
  moreover have "snd (w_erase_one nd 0 True s) = s\<lparr>dev := d\<rparr>"
    using assms(3,4) d \<open>e = 0\<close>
    by (simp add: w_erase_one_def block_index_is_sane_def ERASE_TRIES_def numeral_3_eq_3 bbt_nand_erase_def)
  ultimately show ?thesis by blast
qed

lemma clear_factory_bad_effect:
  fixes blocks :: "nat list"
  assumes "reliable_chip nd mem" "bmt_geometry s" "0 < em_reserve_area_begin (en75 s)" "0 < total_blks s"
    and "tables_sized (en75 s)" "ft_size (em_bbt (en75 s)) = i"
  defines "t \<equiv> clear_factory_bad nd blocks i s"
  shows "ft_size (em_bbt (en75 t)) = 0 \<and>
    mem (dev t) = (\<lambda>x. if x < 2 ^ blk_shift s \<and> \<not> set (factory_bad (en75 s)) \<subseteq> set blocks then - 1 else mem (dev s) x)"
  using assms(2-6) unfolding t_def
proof (induction i arbitrary: s)
  case 0
  then show ?case by (simp add: factory_bad_def)
next
  case (Suc i)
  define m where "m = en75 s"
  define m1 where "m1 = m\<lparr>em_bbt := (em_bbt m)\<lparr>ft_size := i, ft_table := (ft_table (em_bbt m))[i := 0]\<rparr>\<rparr>"
  define s1 where "s1 = s\<lparr>en75 := m1\<rparr>"
  have len: "Suc i \<le> length (ft_table (em_bbt m))" using Suc.prems(4,5) by (simp add: tables_sized_def m_def MAX_BBT_SIZE_def)
  have fb: "set (factory_bad m) = insert (ft_table (em_bbt m) ! i) (set (factory_bad m1))"
    using len Suc.prems(5) by (auto simp: factory_bad_def m1_def m_def take_Suc_conv_app_nth)
  define s2 where "s2 = (if ft_table (em_bbt m) ! i \<in> set blocks then s1 else snd (w_erase_one nd 0 True s1))"
  have g: "bmt_geometry s1" "0 < em_reserve_area_begin (en75 s1)" "0 < total_blks s1" "tables_sized m1"
    using Suc.prems by (simp_all add: s1_def m1_def m_def bmt_geometry_def tables_sized_def)
  obtain d where d: "snd (w_erase_one nd 0 True s1) = s1\<lparr>dev := d\<rparr>" "mem d = (\<lambda>x. if x < 2 ^ blk_shift s1 then - 1 else mem (dev s1) x)"
    using erase_block_0[OF assms(1) g(1-3)] by blast
  have e2: "en75 s2 = m1" "blk_shift s2 = blk_shift s" "total_blks s2 = total_blks s" "bmt_geometry s2"
    using d g(1) by (simp_all add: s2_def s1_def)
  have m2: "mem (dev s2) = (\<lambda>x. if x < 2 ^ blk_shift s \<and> ft_table (em_bbt m) ! i \<notin> set blocks then - 1 else mem (dev s) x)"
    using d by (auto simp: s2_def s1_def)
  have "clear_factory_bad nd blocks (Suc i) s = clear_factory_bad nd blocks i s2"
    using clear_last[OF Suc.prems(4,5)] by (simp add: s2_def s1_def m1_def m_def)
  moreover have "ft_size (em_bbt (en75 s2)) = i" using e2 by (simp add: m1_def)
  ultimately show ?case
    using Suc.IH[of s2] g(2-4) e2 m2 fb unfolding m_def[symmetric] by (auto simp: s1_def)
qed

text \<open>
  C15. Replacing the table of factory bad blocks erases the wrong block. On a chip without faults
  the first pass of \<^verbatim>\<open>w_factory_badblocks\<close> empties the table; when a block of the table is missing
  from the new list, it sets all bytes of physical block 0 to \<^verbatim>\<open>0xff\<close> and leaves every other block,
  also the one that was taken off the list, as it was.
\<close>

theorem en75_factory_list_erases_block_0:
  fixes nd :: "'d nand_ops"
  assumes "reliable_chip nd mem" "en75_inv s" "bmt_geometry s" "b \<in> set (factory_bad (en75 s))" "b \<notin> set blocks"
  defines "t \<equiv> clear_factory_bad nd blocks (ft_size (em_bbt (en75 s))) s"
  shows "factory_bad (en75 t) = [] \<and>
     mem (dev t) = (\<lambda>x. if x < 2 ^ blk_shift s then - 1 else mem (dev s) x)"
proof -
  have sz: "tables_sized (en75 s)" using assms(2) by (simp add: en75_inv_def)
  have "0 < length (factory_bad (en75 s))" using assms(4) by (cases "factory_bad (en75 s)") auto
  then have "0 < em_reserve_area_begin (en75 s)" "0 < total_blks s"
    using assms(2) length_factory_bad[OF sz] by (simp_all add: en75_inv_def)
  note effect = clear_factory_bad_effect[OF assms(1,3) this sz refl, of blocks, folded t_def]
  moreover have "\<not> set (factory_bad (en75 s)) \<subseteq> set blocks" using assms(4,5) by blast
  ultimately show ?thesis by (simp add: factory_bad_def)
qed

theorem en75_factory_list_erases_block_0_witness:
  "factory_bad (en75 (clear_factory_bad ram_chip [] 1 en75_small)) = []"
proof -
  have "bmt_geometry en75_small" "ft_size (em_bbt (en75 en75_small)) = 1"
    using en75_small_geometry by (simp_all add: en75_geometry_def) (simp add: en75_small_def)
  then show ?thesis
    using en75_factory_list_erases_block_0[OF ram_chip_reliable en75_small_inv, of 2 "[]"] by simp
qed

end
