(* ===== verification/Mapcalc.thy ===== *)
theory Mapcalc
  imports Prelude "HOL-Library.Monad_Syntax"
begin

unbundle bit_operations_syntax

text \<open>
  The calculator for MAP-E, MAP-T and lightweight 4over6 rules
  (\<^verbatim>\<open>package/network/ipv6/map/src/mapcalc.c\<close>). From the text of a rule and the prefixes that were
  delegated to the router it derives the IPv4 address, the set of ports and the IPv6 address of
  the router. Addresses are lists of bytes in network order. The C library is the record \<open>libc\<close>;
  the answer of the network daemon, which the program gets through a library outside the tree, is
  a list of interfaces. Functions return \<^term>\<open>None\<close> where C leaves the behaviour undefined.
\<close>

section \<open>Comparing and copying bits\<close>

fun memcmp :: "bytes \<Rightarrow> bytes \<Rightarrow> int" where
  "memcmp (x # xs) (y # ys) = (if x = y then memcmp xs ys else int (unat x) - int (unat y))"
| "memcmp _ _ = 0"

text \<open>The number of bytes that hold a number of bits.\<close>

definition bytes_for :: "nat \<Rightarrow> nat" where
  "bytes_for bits = bits div 8 + (if 0 < bits mod 8 then 1 else 0)"

definition bmemcmp :: "bytes \<Rightarrow> bytes \<Rightarrow> nat \<Rightarrow> int option" where
  "bmemcmp a b bits =
     (let n = bits div 8; r = bits mod 8
      in if length a < bytes_for bits \<or> length b < bytes_for bits then None
         else
           (let res = memcmp (take n a) (take n b)
            in if res = 0 \<and> 0 < r
               then Some (int (unat (drop_bit (8 - r) (a ! n))) - int (unat (drop_bit (8 - r) (b ! n))))
               else Some res))"

definition bmemcpy :: "bytes \<Rightarrow> bytes \<Rightarrow> nat \<Rightarrow> bytes option" where
  "bmemcpy a b bits =
     (let n = bits div 8; r = bits mod 8
      in if length a < bytes_for bits \<or> length b < bytes_for bits then None
         else
           (let a1 = take n b @ drop n a; mask = push_bit (8 - r) 1 - 1
            in if 0 < r then Some (a1[n := (a1 ! n AND mask) OR (NOT mask AND b ! n)]) else Some a1))"

text \<open>
  The two functions for 64 bit numbers of the other byte order undo each other on every machine,
  so that the value is the one of the bytes in network order.
\<close>

definition be_num :: "bytes \<Rightarrow> nat" where
  "be_num bs = foldl (\<lambda>n b. n * 256 + unat b) 0 bs"

definition be_bytes :: "nat \<Rightarrow> nat \<Rightarrow> bytes" where
  "be_bytes k n = map (\<lambda>i. of_nat (n div 256 ^ (k - 1 - i))) [0..<k]"

text \<open>
  \<open>behind\<close> is the memory behind the source: the source asks for one byte more than the bits need
  when they end at a byte boundary.
\<close>

definition bmemcpys64 :: "(nat \<Rightarrow> u8) \<Rightarrow> bytes \<Rightarrow> bytes \<Rightarrow> nat \<Rightarrow> nat \<Rightarrow> bytes option" where
  "bmemcpys64 behind a b frombits nbits =
     (let frombyte = frombits div 8; tobyte = (frombits + nbits) div 8; cnt = tobyte - frombyte + 1
      in if 8 < cnt then None
         else
           (let buf = overlay (replicate 8 0) (map (\<lambda>i. if i < length b then b ! i else behind i) [frombyte..<frombyte + cnt])
            in bmemcpy a (be_bytes 8 (be_num buf * 2 ^ (frombits mod 8) mod 2 ^ 64)) nbits))"

section \<open>Delegated prefixes\<close>

text \<open>
  What is used of the C library and the machine: conversion of numbers (\<^term>\<open>None\<close> when it sets
  \<^verbatim>\<open>errno\<close>) and of addresses, and the value of a 32 bit number shifted by 32, which C leaves
  open. A prefix as the network daemon reports it is an address and a mask, each of which may be
  missing; an interface has a name and two arrays, missing ones and ones of another type being
  \<^term>\<open>None\<close>.
\<close>

record libc =
  lc_strtoul :: "string \<Rightarrow> nat option"
  lc_pton4 :: "string \<Rightarrow> bytes option"
  lc_pton6 :: "string \<Rightarrow> bytes option"
  lc_shr32 :: "u32 \<Rightarrow> u32"
  lc_behind :: "nat \<Rightarrow> u8"

type_synonym prefix_attr = "string option \<times> nat option"

record iface_attr =
  if_interface :: "string option"
  if_prefix :: "prefix_attr list option"
  if_address :: "prefix_attr list option"

definition bits_equal :: "bytes \<Rightarrow> bytes \<Rightarrow> int \<Rightarrow> bool option" where
  "bits_equal a b bits = (if bits < 0 then None else map_option (\<lambda>r. r = 0) (bmemcmp a b (nat bits)))"

definition copy_bits :: "bytes \<Rightarrow> bytes \<Rightarrow> int \<Rightarrow> bytes option" where
  "copy_bits a b bits = (if bits < 0 then None else bmemcpy a b (nat bits))"

definition match_entry ::
  "libc \<Rightarrow> bytes \<Rightarrow> int \<Rightarrow> bool \<Rightarrow> string \<Rightarrow> nat \<Rightarrow> int \<times> bytes \<Rightarrow> (int \<times> bytes) option" where
  "match_entry lc ipv6prefix prefix6len lw4o6 addr m st =
     (let prefix = (case lc_pton6 lc addr of Some p \<Rightarrow> p | None \<Rightarrow> replicate 16 0);
          mask0 = to_s32 (int m); mask = (if lw4o6 \<and> mask0 = 128 then 64 else mask0); pdlen = fst st; pd = snd st
      in do {
        hit1 \<leftarrow> (if pdlen < mask \<and> prefix6len \<le> mask then bits_equal prefix ipv6prefix prefix6len else Some False);
        if hit1 then do { pd' \<leftarrow> copy_bits pd prefix mask; Some (mask, pd') }
        else do {
          hit2 \<leftarrow> (if lw4o6 \<and> pdlen < prefix6len \<and> mask < prefix6len then bits_equal prefix ipv6prefix mask else Some False);
          if hit2 then do { pd' \<leftarrow> copy_bits pd ipv6prefix prefix6len; Some (prefix6len, pd') } else Some st
        }
      })"

fun match_entries :: "libc \<Rightarrow> bytes \<Rightarrow> int \<Rightarrow> bool \<Rightarrow> prefix_attr list \<Rightarrow> int \<times> bytes \<Rightarrow> (int \<times> bytes) option" where
  "match_entries lc ipv6prefix prefix6len lw4o6 [] st = Some st"
| "match_entries lc ipv6prefix prefix6len lw4o6 (e # es) st =
     (case e of
        (Some addr, Some m) \<Rightarrow>
          Option.bind (match_entry lc ipv6prefix prefix6len lw4o6 addr m st) (match_entries lc ipv6prefix prefix6len lw4o6 es)
      | _ \<Rightarrow> match_entries lc ipv6prefix prefix6len lw4o6 es st)"

definition match_prefix ::
  "libc \<Rightarrow> prefix_attr list option \<Rightarrow> bytes \<Rightarrow> int \<Rightarrow> bool \<Rightarrow> int \<times> bytes \<Rightarrow> (int \<times> bytes) option" where
  "match_prefix lc cur ipv6prefix prefix6len lw4o6 st =
     (case cur of None \<Rightarrow> Some st | Some es \<Rightarrow> match_entries lc ipv6prefix prefix6len lw4o6 es st)"

section \<open>Rules\<close>

datatype opt_token = OPT_TYPE | OPT_FMR | OPT_EALEN | OPT_PREFIX4LEN | OPT_PREFIX6LEN | OPT_IPV6PREFIX |
  OPT_IPV4PREFIX | OPT_OFFSET | OPT_PSIDLEN | OPT_PSID | OPT_BR | OPT_DMR | OPT_PD | OPT_PDLEN

definition token :: "(string \<times> opt_token) list" where
  "token = [(''type'', OPT_TYPE), (''fmr'', OPT_FMR), (''ealen'', OPT_EALEN), (''prefix4len'', OPT_PREFIX4LEN),
     (''prefix6len'', OPT_PREFIX6LEN), (''ipv6prefix'', OPT_IPV6PREFIX), (''ipv4prefix'', OPT_IPV4PREFIX),
     (''offset'', OPT_OFFSET), (''psidlen'', OPT_PSIDLEN), (''psid'', OPT_PSID), (''br'', OPT_BR), (''dmr'', OPT_DMR),
     (''pd'', OPT_PD), (''pdlen'', OPT_PDLEN)]"

text \<open>\<^verbatim>\<open>getsubopt\<close>: the text up to the next comma, split at its first equality sign.\<close>

definition getsubopt :: "string \<Rightarrow> opt_token option \<times> string option \<times> string" where
  "getsubopt rule =
     (let s = takeWhile (\<lambda>c. c \<noteq> CHR '','') rule; rest = drop (length s + 1) rule;
          name = takeWhile (\<lambda>c. c \<noteq> CHR ''='') s
      in (map_of token name, if length name < length s then Some (drop (length name + 1) s) else None, rest))"

record rule =
  ru_lw4o6 :: bool
  ru_fmr :: bool
  ru_ealen :: int
  ru_prefix4len :: int
  ru_prefix6len :: int
  ru_pdlen :: int
  ru_ipv4prefix :: bytes
  ru_ipv6prefix :: bytes
  ru_pd :: bytes
  ru_offset :: int
  ru_psidlen :: int
  ru_psid :: int
  ru_dmr :: "string option"
  ru_br :: "string option"

definition rule_init :: rule where
  "rule_init =
     \<lparr>ru_lw4o6 = False, ru_fmr = False, ru_ealen = - 1, ru_prefix4len = 32, ru_prefix6len = - 1, ru_pdlen = - 1,
      ru_ipv4prefix = replicate 4 0, ru_ipv6prefix = replicate 16 0, ru_pd = replicate 16 0, ru_offset = - 1,
      ru_psidlen = - 1, ru_psid = - 1, ru_dmr = None, ru_br = None\<rparr>"

text \<open>
  A numeric value: \<^verbatim>\<open>strtoul\<close> into a signed variable and the comparison with the limit. The outer
  \<^term>\<open>None\<close> is the null pointer of an option without a value.
\<close>

definition opt_num :: "libc \<Rightarrow> string option \<Rightarrow> int \<Rightarrow> int option option" where
  "opt_num lc value limit =
     map_option (\<lambda>v. case lc_strtoul lc v of
        None \<Rightarrow> None
      | Some n \<Rightarrow> let intval = to_s32 (int n) in if intval \<le> limit then Some intval else None) value"

definition set_num :: "libc \<Rightarrow> string option \<Rightarrow> int \<Rightarrow> (int \<Rightarrow> rule \<Rightarrow> rule) \<Rightarrow> rule \<Rightarrow> rule option" where
  "set_num lc value limit f r =
     map_option (\<lambda>n. case n of Some i \<Rightarrow> f i r | None \<Rightarrow> r) (opt_num lc value limit)"

definition set_addr :: "(string \<Rightarrow> bytes option) \<Rightarrow> string option \<Rightarrow> (bytes \<Rightarrow> rule \<Rightarrow> rule) \<Rightarrow> rule \<Rightarrow> rule option" where
  "set_addr pton value f r = map_option (\<lambda>v. case pton v of Some a \<Rightarrow> f a r | None \<Rightarrow> r) value"

definition apply_opt :: "libc \<Rightarrow> opt_token option \<Rightarrow> string option \<Rightarrow> rule \<Rightarrow> rule option" where
  "apply_opt lc idx value r =
     (case idx of
        None \<Rightarrow> Some r
      | Some OPT_TYPE \<Rightarrow> Some (r\<lparr>ru_lw4o6 := (value = Some ''lw4o6'')\<rparr>)
      | Some OPT_FMR \<Rightarrow> Some (r\<lparr>ru_fmr := True\<rparr>)
      | Some OPT_EALEN \<Rightarrow> set_num lc value 48 (\<lambda>i. ru_ealen_update (\<lambda>_. i)) r
      | Some OPT_PREFIX4LEN \<Rightarrow> set_num lc value 32 (\<lambda>i. ru_prefix4len_update (\<lambda>_. i)) r
      | Some OPT_PREFIX6LEN \<Rightarrow> set_num lc value 128 (\<lambda>i. ru_prefix6len_update (\<lambda>_. i)) r
      | Some OPT_IPV4PREFIX \<Rightarrow> set_addr (lc_pton4 lc) value (\<lambda>a. ru_ipv4prefix_update (\<lambda>_. a)) r
      | Some OPT_IPV6PREFIX \<Rightarrow> set_addr (lc_pton6 lc) value (\<lambda>a. ru_ipv6prefix_update (\<lambda>_. a)) r
      | Some OPT_PD \<Rightarrow> set_addr (lc_pton6 lc) value (\<lambda>a. ru_pd_update (\<lambda>_. a)) r
      | Some OPT_OFFSET \<Rightarrow> set_num lc value 16 (\<lambda>i. ru_offset_update (\<lambda>_. i)) r
      | Some OPT_PSIDLEN \<Rightarrow> set_num lc value 16 (\<lambda>i. ru_psidlen_update (\<lambda>_. i)) r
      | Some OPT_PDLEN \<Rightarrow> set_num lc value 128 (\<lambda>i. ru_pdlen_update (\<lambda>_. i)) r
      | Some OPT_PSID \<Rightarrow> set_num lc value 65535 (\<lambda>i. ru_psid_update (\<lambda>_. i)) r
      | Some OPT_DMR \<Rightarrow> Some (r\<lparr>ru_dmr := value\<rparr>)
      | Some OPT_BR \<Rightarrow> Some (r\<lparr>ru_br := value\<rparr>))"

function parse_rule :: "libc \<Rightarrow> string \<Rightarrow> rule \<Rightarrow> rule option" where
  "parse_rule lc text r =
     (if text = [] then Some r
      else case getsubopt text of (idx, value, rest) \<Rightarrow> Option.bind (apply_opt lc idx value r) (parse_rule lc rest))"
  by pat_completeness auto
termination
  by (relation "measure (\<lambda>(lc, text, r). length text)") (auto simp: getsubopt_def Let_def)

declare parse_rule.simps [simp del]

section \<open>The calculation for one rule\<close>

text \<open>The defaults, before and after the prefix is known.\<close>

definition rule_defaults :: "bool \<Rightarrow> rule \<Rightarrow> rule" where
  "rule_defaults legacy r =
     (let offset = (if ru_offset r < 0 then if ru_lw4o6 r then 0 else if legacy then 4 else 6 else ru_offset r);
          psidlen = (if ru_lw4o6 r \<and> ru_psidlen r < 0 then 0 else ru_psidlen r)
      in r\<lparr>ru_offset := offset, ru_psidlen := psidlen, ru_ealen := if ru_lw4o6 r then psidlen else ru_ealen r\<rparr>)"

fun find_pd :: "libc \<Rightarrow> string \<Rightarrow> iface_attr list \<Rightarrow> rule \<Rightarrow> string \<Rightarrow> (rule \<times> string) option" where
  "find_pd lc wanted [] r iface = Some (r, iface)"
| "find_pd lc wanted (c # cs) r iface =
     (case if_interface c of
        None \<Rightarrow> find_pd lc wanted cs r iface
      | Some name \<Rightarrow>
          if wanted \<noteq> ''*'' \<and> wanted \<noteq> name then find_pd lc wanted cs r iface
          else do {
            st1 \<leftarrow> match_prefix lc (if_prefix c) (ru_ipv6prefix r) (ru_prefix6len r) (ru_lw4o6 r) (ru_pdlen r, ru_pd r);
            st2 \<leftarrow> (if ru_lw4o6 r then match_prefix lc (if_address c) (ru_ipv6prefix r) (ru_prefix6len r) (ru_lw4o6 r) st1
                    else Some st1);
            let r' = r\<lparr>ru_pdlen := fst st2, ru_pd := snd st2\<rparr>;
            if 0 \<le> ru_pdlen r' then Some (r', name) else find_pd lc wanted cs r' iface
          })"

definition rule_lengths :: "rule \<Rightarrow> rule" where
  "rule_lengths r =
     (let ealen = (if ru_ealen r < 0 \<and> 0 \<le> ru_pdlen r then ru_pdlen r - ru_prefix6len r else ru_ealen r)
      in if ru_psidlen r \<le> 0
         then r\<lparr>ru_ealen := ealen, ru_psidlen := max 0 (ealen - (32 - ru_prefix4len r)), ru_psid := - 1\<rparr>
         else r\<lparr>ru_ealen := ealen\<rparr>)"

definition rule_invalid :: "rule \<Rightarrow> bool" where
  "rule_invalid r \<longleftrightarrow>
     ru_prefix4len r < 0 \<or> ru_prefix6len r < 0 \<or> ru_ealen r < 0 \<or> 16 < ru_psidlen r \<or> ru_ealen r < ru_psidlen r"

text \<open>The port set identifier, left aligned in 16 bits, and its bytes as they enter the address.\<close>

definition rule_psid :: "libc \<Rightarrow> rule \<Rightarrow> (int \<times> bytes) option" where
  "rule_psid lc r =
     do {
       p \<leftarrow> (if ru_psid r < 0 \<and> 0 \<le> ru_psidlen r \<and> 0 \<le> ru_pdlen r
             then map_option (\<lambda>b. (int (be_num b), b))
                    (bmemcpys64 (lc_behind lc) [0, 0] (ru_pd r) (nat (ru_prefix6len r + ru_ealen r - ru_psidlen r)) (nat (ru_psidlen r)))
             else Some (ru_psid r, [0, 0]));
       let k = nat (16 - ru_psidlen r);
       if 0 < ru_psidlen r
       then Some (fst p div 2 ^ k * 2 ^ k, be_bytes 2 (to_u16 (fst p div 2 ^ k)))
       else Some p
     }"

definition shift_right :: "libc \<Rightarrow> nat \<Rightarrow> nat \<Rightarrow> nat" where
  "shift_right lc n k = (if k = 32 then unat (lc_shr32 lc (of_nat n)) else n div 2 ^ k)"

definition rule_ipv4addr :: "libc \<Rightarrow> rule \<Rightarrow> bytes option" where
  "rule_ipv4addr lc r =
     (if 0 \<le> ru_pdlen r \<or> ru_ealen r = ru_psidlen r
      then do {
        a \<leftarrow> bmemcpys64 (lc_behind lc) (replicate 4 0) (ru_pd r) (nat (ru_prefix6len r)) (nat (ru_ealen r - ru_psidlen r));
        bmemcpy (be_bytes 4 (shift_right lc (be_num a) (nat (ru_prefix4len r)))) (ru_ipv4prefix r) (nat (ru_prefix4len r))
      }
      else Some (replicate 4 0))"

definition rule_addr4len :: "rule \<Rightarrow> int" where
  "rule_addr4len r =
     (if (0 \<le> ru_pdlen r \<or> ru_ealen r = ru_psidlen r) \<and> ru_prefix4len r + ru_ealen r < 32
      then ru_prefix4len r + ru_ealen r else 32)"

definition rule_ipv6addr :: "bool \<Rightarrow> rule \<Rightarrow> bytes \<Rightarrow> bytes \<Rightarrow> bytes option" where
  "rule_ipv6addr legacy r ipv4addr psid16 =
     (if ru_pdlen r < 0 then Some (replicate 16 0)
      else
        (let v4offset = (if legacy then 9 else 10)
         in copy_bits (store_at (store_at (replicate 16 0) v4offset ipv4addr) (v4offset + 4) psid16) (ru_pd r) (ru_pdlen r)))"

text \<open>The sets of ports. A negative shift has no meaning in C.\<close>

definition port_sets :: "int \<Rightarrow> int \<Rightarrow> int \<Rightarrow> (int \<times> int) list option" where
  "port_sets offset psidlen psid =
     (if 16 < offset + psidlen then None
      else Some (filter (\<lambda>p. fst p \<le> snd p)
        (map (\<lambda>k. let start = push_bit (nat (16 - offset)) (int k) OR drop_bit (nat offset) psid;
                      end = start + 2 ^ nat (16 - offset - psidlen) - 1
                  in (if start = 0 then 1 else start, end))
          [(if offset \<noteq> 0 then 1 else 0)..<2 ^ nat offset])))"

record rule_out =
  ro_rule :: rule
  ro_psid :: int
  ro_ipv4addr :: bytes
  ro_addr4len :: int
  ro_ipv6addr :: bytes
  ro_ports :: "(int \<times> int) list option"
  ro_iface :: string

text \<open>
  One round of the loop over the rules, the part behind the lengths first. The result is the
  printed rule, or \<^term>\<open>None\<close> when it is skipped, with the interface name that later rules see;
  the outer \<^term>\<open>None\<close> is behaviour that C does not define, such as an access outside an object.
\<close>

definition rule_result :: "libc \<Rightarrow> bool \<Rightarrow> rule \<Rightarrow> string \<Rightarrow> (rule_out option \<times> string) option" where
  "rule_result lc legacy r iface =
     (if rule_invalid r then Some (None, iface)
      else do {
        p \<leftarrow> rule_psid lc r;
        ipv4addr \<leftarrow> rule_ipv4addr lc r;
        if ru_pdlen r < 0 \<and> \<not> ru_fmr r then Some (None, iface)
        else do {
          ipv6addr \<leftarrow> rule_ipv6addr legacy r ipv4addr (snd p);
          ports \<leftarrow> (if 0 < ru_psidlen r \<and> 0 \<le> fst p
                    then map_option Some (port_sets (ru_offset r) (ru_psidlen r) (fst p)) else Some None);
          Some (Some \<lparr>ro_rule = r, ro_psid = fst p, ro_ipv4addr = ipv4addr, ro_addr4len = rule_addr4len r,
                      ro_ipv6addr = ipv6addr, ro_ports = ports, ro_iface = iface\<rparr>, iface)
        }
      })"

definition calc_rule ::
  "libc \<Rightarrow> bool \<Rightarrow> string \<Rightarrow> iface_attr list \<Rightarrow> string \<Rightarrow> string \<Rightarrow> (rule_out option \<times> string) option" where
  "calc_rule lc legacy wanted dump text iface =
     do {
       r0 \<leftarrow> parse_rule lc text rule_init;
       let r1 = rule_defaults legacy r0;
       f \<leftarrow> (if ru_pdlen r1 < 0 then find_pd lc wanted dump r1 iface else Some (r1, iface));
       rule_result lc legacy (rule_lengths (fst f)) (snd f)
     }"

section \<open>The program\<close>

datatype out_value = ONum int | OAddr bytes | OText string | OPorts "(int \<times> int) list"

text \<open>A line is the number of the rule, if it has one, the name of the variable and its value.\<close>

type_synonym out_line = "nat option \<times> string \<times> out_value"

definition rule_lines :: "nat \<Rightarrow> rule_out \<Rightarrow> out_line list" where
  "rule_lines n q =
     (let r = ro_rule q; line = (\<lambda>name v. (Some n, name, v))
      in [line ''FMR'' (ONum (if ru_fmr r then 1 else 0)), line ''EALEN'' (ONum (ru_ealen r)),
          line ''PSIDLEN'' (ONum (ru_psidlen r)), line ''OFFSET'' (ONum (ru_offset r)),
          line ''PREFIX4LEN'' (ONum (ru_prefix4len r)), line ''PREFIX6LEN'' (ONum (ru_prefix6len r)),
          line ''IPV4PREFIX'' (OAddr (ru_ipv4prefix r)), line ''IPV6PREFIX'' (OAddr (ru_ipv6prefix r))] @
         (if 0 \<le> ru_pdlen r
          then [line ''IPV6PD'' (OAddr (ru_pd r)), line ''PD6LEN'' (ONum (ru_pdlen r)), line ''PD6IFACE'' (OText (ro_iface q)),
                line ''IPV6ADDR'' (OAddr (ro_ipv6addr q)), (None, ''RULE_BMR'', ONum (int n))]
          else []) @
         (if be_num (ro_ipv4addr q) \<noteq> 0
          then [line ''IPV4ADDR'' (OAddr (ro_ipv4addr q)), line ''ADDR4LEN'' (ONum (ro_addr4len q))] else []) @
         (case ro_ports q of Some ps \<Rightarrow> [line ''PORTSETS'' (OPorts ps)] | None \<Rightarrow> []) @
         (case ru_dmr r of Some d \<Rightarrow> [line ''DMR'' (OText d)] | None \<Rightarrow> []) @
         (case ru_br r of Some b \<Rightarrow> [line ''BR'' (OText b)] | None \<Rightarrow> []))"

fun mapcalc_loop ::
  "libc \<Rightarrow> bool \<Rightarrow> string \<Rightarrow> iface_attr list \<Rightarrow> string list \<Rightarrow> string \<Rightarrow> nat \<Rightarrow> int \<Rightarrow> (int \<times> nat \<times> out_line list) option" where
  "mapcalc_loop lc legacy wanted dump [] iface rulecnt status = Some (status, rulecnt, [])"
| "mapcalc_loop lc legacy wanted dump (a # as) iface rulecnt status =
     do {
       q \<leftarrow> calc_rule lc legacy wanted dump a iface;
       case fst q of
         None \<Rightarrow> mapcalc_loop lc legacy wanted dump as (snd q) rulecnt 1
       | Some out \<Rightarrow>
           map_option (\<lambda>(st, n, ls). (st, n, rule_lines (Suc rulecnt) out @ ls))
             (mapcalc_loop lc legacy wanted dump as (snd q) (Suc rulecnt) status)
     }"

text \<open>
  \<open>args\<close> are the arguments behind the name of the program. The list of interfaces is empty when
  the daemon cannot be reached.
\<close>

definition mapcalc_main ::
  "libc \<Rightarrow> bool \<Rightarrow> iface_attr list \<Rightarrow> string list \<Rightarrow> (int \<times> out_line list) option" where
  "mapcalc_main lc legacy dump args =
     (case args of
        wanted # rule1 # rules \<Rightarrow>
          map_option (\<lambda>(st, n, ls). (st, ls @ [(None, ''RULE_COUNT'', ONum (int n))]))
            (mapcalc_loop lc legacy wanted dump (rule1 # rules) wanted 0 0)
      | _ \<Rightarrow> Some (1, []))"

end
