(* ===== verification/Mapcalc_Bits.thy ===== *)
theory Mapcalc_Bits
  imports Mapcalc
begin

unbundle bit_operations_syntax

text \<open>
  Facts on the calculator. \<open>bits_of\<close> reads an address as a list of bits; the copying functions are
  \<open>take\<close> and \<open>drop\<close> on it. The sets of ports, the limits that every printed rule observes, and the
  bits of the derived addresses follow.
\<close>

section \<open>Bits in network order\<close>

definition octet_bits :: "u8 \<Rightarrow> bool list" where
  "octet_bits b = map (\<lambda>i. bit b (7 - i)) [0..<8]"

definition bits_of :: "bytes \<Rightarrow> bool list" where
  "bits_of bs = concat (map octet_bits bs)"

lemma length_bits_of [simp]: "length (bits_of bs) = 8 * length bs"
  by (induction bs) (simp_all add: bits_of_def octet_bits_def)

lemma bits_of_Cons: "bits_of (b # bs) = octet_bits b @ bits_of bs"
  by (simp add: bits_of_def)

lemma bits_of_append: "bits_of (as @ bs) = bits_of as @ bits_of bs"
  by (simp add: bits_of_def)

lemma nth_bits_of: "i < 8 * length bs \<Longrightarrow> bits_of bs ! i = bit (bs ! (i div 8)) (7 - i mod 8)"
proof (induction bs arbitrary: i)
  case (Cons b bs)
  show ?case
  proof (cases "i < 8")
    case True
    then show ?thesis by (simp add: bits_of_Cons octet_bits_def nth_append)
  next
    case False
    then obtain j where j: "i = j + 8" by (metis add.commute le_Suc_ex not_less)
    then have "bits_of (b # bs) ! i = bits_of bs ! j" by (simp add: bits_of_Cons octet_bits_def nth_append)
    moreover have "(j + 8) div 8 = Suc (j div 8)" by simp
    ultimately show ?thesis using Cons.IH[of j] Cons.prems j by simp
  qed
qed simp

lemma bits_for_le: "bytes_for bits \<le> n \<longleftrightarrow> bits \<le> 8 * n"
proof -
  have *: "8 * d + m \<le> 8 * n \<longleftrightarrow> d + (if 0 < m then 1 else 0) \<le> n" if "m < 8" for d m :: nat using that by auto
  show ?thesis using *[of "bits mod 8" "bits div 8"] by (simp add: bytes_for_def)
qed

lemma bmemcpy_bits:
  assumes "bits \<le> 8 * length a" "bits \<le> 8 * length b"
  shows "\<exists>c. bmemcpy a b bits = Some c \<and> length c = length a \<and> bits_of c = take bits (bits_of b) @ drop bits (bits_of a)"
proof -
  define n where "n = bits div 8"
  define r where "r = bits mod 8"
  have nr: "bits = 8 * n + r" "r < 8" by (simp_all add: n_def r_def)
  have len: "n \<le> length a" "n \<le> length b" using assms nr by simp_all
  define a1 where "a1 = take n b @ drop n a"
  define c where "c = (if 0 < r then a1[n := (a1 ! n AND push_bit (8 - r) 1 - 1) OR (NOT (push_bit (8 - r) 1 - 1) AND b ! n)] else a1)"
  have res: "bmemcpy a b bits = Some c"
    using assms by (simp add: bmemcpy_def Let_def bits_for_le not_less c_def a1_def n_def r_def)
  have la: "length a1 = length a" "length c = length a" using len by (simp_all add: a1_def c_def)
  have "bits_of c ! i = (if i < bits then bits_of b ! i else bits_of a ! i)" if i: "i < 8 * length a" for i
  proof -
    define q where "q = i div 8"
    define p where "p = i mod 8"
    have q: "q < length a" "p < 8" "i = 8 * q + p" using i by (simp_all add: q_def p_def)
    have nb: "i < 8 * length bs \<Longrightarrow> bits_of bs ! i = bit (bs ! q) (7 - p)" for bs
      by (simp add: nth_bits_of q_def p_def)
    have lhs: "bits_of c ! i = bit (c ! q) (7 - p)" using nb i la by simp
    consider "q < n" | "q = n" | "n < q" by linarith
    then show ?thesis
    proof cases
      case 1
      then have "i < bits" "c ! q = b ! q" using nr q len by (simp_all add: c_def a1_def nth_append)
      then show ?thesis using lhs nb[of b] assms(2) by simp
    next
      case 2
      have a1n: "a1 ! n = a ! n" using 2 len by (simp add: a1_def nth_append)
      show ?thesis
      proof (cases "0 < r")
        case True
        have cq: "c ! q = (a ! n AND mask (8 - r)) OR (NOT (mask (8 - r)) AND b ! n)"
          using 2 True a1n q(1) la by (simp add: c_def mask_eq_exp_minus_1)
        have p7: "7 - p < 8" by simp
        have low: "i < bits \<longleftrightarrow> \<not> 7 - p < 8 - r" using 2 nr q by linarith
        have "bit (c ! q) (7 - p) = (if 7 - p < 8 - r then bit (a ! q) (7 - p) else bit (b ! q) (7 - p))"
          unfolding cq using 2 q(2) p7 by (auto simp: bit_and_iff bit_or_iff bit_not_iff bit_mask_iff)
        moreover have "i < bits \<Longrightarrow> bits_of b ! i = bit (b ! q) (7 - p)" using nb[of b] assms(2) by simp
        ultimately show ?thesis using lhs low nb[of a] i by auto
      next
        case False
        then have "\<not> i < bits" using 2 nr q by simp
        then show ?thesis using lhs False 2 a1n nb[of a] i by (simp add: c_def)
      qed
    next
      case 3
      then have "\<not> i < bits" "c ! q = a ! q" using nr q len by (simp_all add: c_def a1_def nth_append)
      then show ?thesis using lhs nb[of a] i by simp
    qed
  qed
  then have "bits_of c = take bits (bits_of b) @ drop bits (bits_of a)"
    using assms la by (intro nth_equalityI) (auto simp: nth_append min_def)
  then show ?thesis using res la by blast
qed

lemma bit_mult_256_add:
  fixes n m :: nat
  assumes "m < 256"
  shows "bit (n * 256 + m) j = (if j < 8 then bit m j else bit n (j - 8))"
proof (cases "j < 8")
  case True
  then obtain k where k: "8 = j + Suc k" by (metis add_Suc_right less_iff_Suc_add)
  have "(256 :: nat) = 2 ^ (j + Suc k)" unfolding k[symmetric] by simp
  then have e: "n * 256 + m = m + 2 ^ j * (n * 2 ^ Suc k)" by (simp only: power_add mult.assoc mult.commute mult.left_commute add.commute)
  have "(n * 256 + m) div 2 ^ j = n * 2 ^ Suc k + m div 2 ^ j" unfolding e by (rule div_mult_self2) simp
  then show ?thesis using True by (simp add: bit_iff_odd)
next
  case False
  then obtain k where k: "j = 8 + k" using le_Suc_ex not_less by blast
  have "(n * 256 + m) div 2 ^ j = (n * 256 + m) div 256 div 2 ^ k" by (simp add: k power_add div_mult2_eq)
  then show ?thesis using k assms by (simp add: bit_iff_odd)
qed

lemma bit_be_num: "bit (be_num bs) j \<longleftrightarrow> j < 8 * length bs \<and> bits_of bs ! (8 * length bs - 1 - j)"
proof (induction bs arbitrary: j rule: rev_induct)
  case Nil
  then show ?case by (simp add: be_num_def)
next
  case (snoc b bs)
  have "be_num (bs @ [b]) = be_num bs * 256 + unat b" by (simp add: be_num_def)
  moreover have "unat b < 256" using unsigned_less[of b] by simp
  ultimately have e: "bit (be_num (bs @ [b])) j = (if j < 8 then bit (unat b) j else bit (be_num bs) (j - 8))"
    using bit_mult_256_add by simp
  show ?case
  proof (cases "j < 8")
    case True
    obtain d where d: "j = 7 - d" "d < 8" "d = 7 - j" using True by (intro that[of "7 - j"]) auto
    have idx: "8 * length (bs @ [b]) - 1 - j = 8 * length bs + d" using d(1,2) by simp
    have "bits_of (bs @ [b]) ! (8 * length bs + d) = bit b (7 - d)"
      using d(2) by (simp add: bits_of_append nth_append bits_of_Cons octet_bits_def)
    then have "bits_of (bs @ [b]) ! (8 * length (bs @ [b]) - 1 - j) = bit b j" unfolding idx using d(1) by simp
    moreover have "j < 8 * length (bs @ [b])" using True by simp
    moreover have "bit (be_num (bs @ [b])) j = bit b j" unfolding e using True by (simp add: bit_unsigned_iff)
    ultimately show ?thesis by blast
  next
    case False
    then obtain k where k: "j = k + 8" by (metis add.commute le_Suc_ex not_less)
    have "bit (be_num (bs @ [b])) j = bit (be_num bs) k" using e k by simp
    moreover have "bits_of (bs @ [b]) ! (8 * length (bs @ [b]) - 1 - j) = bits_of bs ! (8 * length bs - 1 - k)" if "k < 8 * length bs"
      using that by (auto simp: k bits_of_append nth_append)
    moreover have "j < 8 * length (bs @ [b]) \<longleftrightarrow> k < 8 * length bs" by (simp add: k)
    ultimately show ?thesis using snoc.IH[of k] by blast
  qed
qed

lemma length_be_bytes [simp]: "length (be_bytes k n) = k"
  by (simp add: be_bytes_def)

lemma bit_byte_of_nat: "bit (of_nat x :: u8) p \<longleftrightarrow> p < 8 \<and> bit x p"
proof -
  have "bit (of_nat x :: u8) p = bit (unat (of_nat x :: u8)) p" by (simp add: bit_unsigned_iff)
  also have "unat (of_nat x :: u8) = take_bit 8 x" by (simp add: unat_of_nat take_bit_eq_mod)
  finally show ?thesis by (simp add: bit_take_bit_iff)
qed

lemma bit_div_pow: "bit (n div 2 ^ a) b = bit n (a + b)" for n :: nat
  by (simp add: bit_iff_odd div_mult2_eq power_add)

lemma nth_bits_be_bytes:
  assumes "i < 8 * k"
  shows "bits_of (be_bytes k n) ! i = bit n (8 * k - 1 - i)"
proof -
  define q where "q = i div 8"
  have q: "q < k" "i mod 8 < 8" "i = 8 * q + i mod 8" using assms by (simp_all add: q_def)
  have "bits_of (be_bytes k n) ! i = bit (of_nat (n div 256 ^ (k - 1 - q)) :: u8) (7 - i mod 8)"
    using assms q by (simp add: nth_bits_of be_bytes_def q_def[symmetric])
  also have "\<dots> = bit (n div 2 ^ (8 * (k - 1 - q))) (7 - i mod 8)"
    by (simp add: bit_byte_of_nat power_mult) auto
  also have "\<dots> = bit n (8 * (k - 1 - q) + (7 - i mod 8))" by (rule bit_div_pow)
  also have "8 * (k - 1 - q) + (7 - i mod 8) = 8 * k - 1 - i"
    using q by (simp add: diff_mult_distrib2)
  finally show ?thesis .
qed


lemma bit_shifted: "bit (n * 2 ^ k mod 2 ^ m) j \<longleftrightarrow> j < m \<and> k \<le> j \<and> bit n (j - k)" for n :: nat
proof -
  have "n * 2 ^ k mod 2 ^ m = take_bit m (push_bit k n)" by (simp add: take_bit_eq_mod push_bit_eq_mult)
  then show ?thesis by (auto simp: bit_take_bit_iff bit_push_bit_iff)
qed

lemma bits_of_mono: "bits_of xs = bits_of ys \<Longrightarrow> length xs = length ys \<Longrightarrow> xs = ys"
proof (rule nth_equalityI)
  fix i assume e: "bits_of xs = bits_of ys" "length xs = length ys" "i < length xs"
  show "xs ! i = ys ! i"
  proof (rule bit_word_eqI)
    fix n assume n: "n < LENGTH(8)"
    define d where "d = 7 - n"
    have d: "d < 8" "7 - d = n" using n by (auto simp: d_def)
    have "8 * i + d < 8 * length xs" using d(1) e(3) by linarith
    then show "bit (xs ! i) n = bit (ys ! i) n"
      using arg_cong[OF e(1), of "\<lambda>b. b ! (8 * i + d)"] nth_bits_of[of "8 * i + d" xs] nth_bits_of[of "8 * i + d" ys] d e(2)
      by simp
  qed
qed simp

lemma bmemcpys64_bits:
  assumes "from + n \<le> 8 * length b" "n \<le> 8 * length a" "n \<le> 56"
  shows "\<exists>c. bmemcpys64 behind a b from n = Some c \<and> length c = length a \<and>
    bits_of c = take n (drop from (bits_of b)) @ drop n (bits_of a)"
proof -
  define f where "f = from div 8"
  define k where "k = from mod 8"
  have fk: "from = 8 * f + k" "k < 8" by (simp_all add: f_def k_def)
  define cnt where "cnt = (from + n) div 8 - f + 1"
  have q: "(8 * f + (k + n)) div 8 = f + (k + n) div 8" by simp
  then have cnt: "cnt = (k + n) div 8 + 1" by (simp add: cnt_def fk(1) add.assoc)
  have c8: "cnt \<le> 8" "k + n < 8 * cnt" unfolding cnt using assms(3) fk(2) by simp_all
  define src where "src = map (\<lambda>i. if i < length b then b ! i else behind i) [f..<f + cnt]"
  define buf where "buf = overlay (replicate 8 0) src"
  define img where "img = be_bytes 8 (be_num buf * 2 ^ k mod 2 ^ 64)"
  have lb: "length buf = 8" "length img = 8" by (simp_all add: buf_def img_def)
  have call: "bmemcpys64 behind a b from n = bmemcpy a img n"
    using c8(1) unfolding bmemcpys64_def Let_def f_def[symmetric] k_def[symmetric] cnt_def[symmetric] src_def[symmetric]
      buf_def[symmetric] img_def[symmetric] by simp
  have bit_i: "bits_of img ! i = bits_of b ! (from + i)" if i: "i < n" for i
  proof -
    have i64: "i + k < 8 * cnt" "i + k < 64" "i < 64" using i c8 by linarith+
    have "bits_of img ! i = bit (be_num buf * 2 ^ k mod 2 ^ 64) (63 - i)" using i64 nth_bits_be_bytes[of i 8] by (simp add: img_def)
    also have "\<dots> = bit (be_num buf) (63 - (i + k))" unfolding bit_shifted using i64 by auto
    also have "\<dots> = bits_of buf ! (i + k)" unfolding bit_be_num lb using i64 by auto
    also have "\<dots> = bit (buf ! ((i + k) div 8)) (7 - (i + k) mod 8)" using i64 lb by (simp add: nth_bits_of)
    also have "buf ! ((i + k) div 8) = b ! (f + (i + k) div 8)"
    proof -
      have lt: "(i + k) div 8 < cnt" using i64(1) by (simp add: less_mult_imp_div_less mult.commute)
      have "8 * (f + (i + k) div 8) < 8 * length b" using assms(1) fk(1) i by (simp add: algebra_simps)
      then show ?thesis using lt c8(1) by (simp add: buf_def overlay_def src_def nth_append)
    qed
    also have "bit (b ! (f + (i + k) div 8)) (7 - (i + k) mod 8) = bits_of b ! (from + i)"
    proof -
      have fi: "from + i = (i + k) + 8 * f" using fk(1) by simp
      have "(from + i) div 8 = f + (i + k) div 8" "(from + i) mod 8 = (i + k) mod 8" unfolding fi by simp_all
      then show ?thesis using nth_bits_of[of "from + i" b] assms(1) i by simp
    qed
    finally show ?thesis .
  qed
  obtain c where c: "bmemcpy a img n = Some c" "length c = length a" "bits_of c = take n (bits_of img) @ drop n (bits_of a)"
    using bmemcpy_bits[of n a img] assms(2,3) lb by auto
  have "take n (bits_of img) = take n (drop from (bits_of b))"
    using bit_i assms(1,3) lb by (intro nth_equalityI) simp_all
  then show ?thesis using c call by simp
qed

lemma memcmp_0: "length xs = length ys \<Longrightarrow> memcmp xs ys = 0 \<longleftrightarrow> xs = ys"
  by (induction xs ys rule: list_induct2) (auto simp: unsigned_word_eqI word_uint_eq_iff)

lemma take_bits_of: "take (8 * n) (bits_of a) = bits_of (take n a)"
proof (induction a arbitrary: n)
  case Nil
  then show ?case by (simp add: bits_of_def)
next
  case (Cons x a)
  then show ?case by (cases n) (simp_all add: bits_of_Cons octet_bits_def bits_of_def)
qed

lemma take_bits_of_partial:
  assumes "n < length a" "r \<le> 8"
  shows "take (8 * n + r) (bits_of a) = bits_of (take n a) @ take r (octet_bits (a ! n))"
proof -
  have "bits_of a = bits_of (take n a) @ octet_bits (a ! n) @ bits_of (drop (Suc n) a)"
    using assms(1) by (metis bits_of_Cons bits_of_append id_take_nth_drop)
  then show ?thesis using assms by (simp add: octet_bits_def)
qed

lemma top_bits_eq:
  assumes "r \<le> 8"
  shows "take r (octet_bits x) = take r (octet_bits y) \<longleftrightarrow> drop_bit (8 - r) x = drop_bit (8 - r) y"
proof
  assume e: "take r (octet_bits x) = take r (octet_bits y)"
  have "bit x j = bit y j" if j: "8 - r \<le> j" "j < 8" for j
  proof -
    define i where "i = 7 - j"
    have i: "i < r" "7 - i = j" using j assms by (auto simp: i_def)
    show ?thesis using arg_cong[OF e, of "\<lambda>b. b ! i"] i assms by (simp add: octet_bits_def)
  qed
  then have "bit x j = bit y j" if "8 - r \<le> j" for j
    using that bit_imp_le_length[of x j] bit_imp_le_length[of y j] by (cases "j < 8") auto
  then show "drop_bit (8 - r) x = drop_bit (8 - r) y"
    by (intro bit_word_eqI) (simp add: bit_drop_bit_eq)
next
  assume e: "drop_bit (8 - r) x = drop_bit (8 - r) y"
  have "bit x (7 - i) = bit y (7 - i)" if "i < r" for i
  proof -
    have "8 - r + (r - 1 - i) = 7 - i" using that assms by simp
    then show ?thesis using arg_cong[OF e, of "\<lambda>w. bit w (r - 1 - i)"] by (simp add: bit_drop_bit_eq)
  qed
  then show "take r (octet_bits x) = take r (octet_bits y)"
    using assms by (intro nth_equalityI) (simp_all add: octet_bits_def)
qed

lemma bmemcmp_bits:
  assumes "bits \<le> 8 * length a" "bits \<le> 8 * length b"
  shows "\<exists>r. bmemcmp a b bits = Some r \<and> (r = 0 \<longleftrightarrow> take bits (bits_of a) = take bits (bits_of b))"
proof -
  define n where "n = bits div 8"
  define r where "r = bits mod 8"
  have nr: "bits = 8 * n + r" "r < 8" by (simp_all add: n_def r_def)
  have len: "n \<le> length a" "n \<le> length b" using assms nr by simp_all
  have mc: "memcmp (take n a) (take n b) = 0 \<longleftrightarrow> take n a = take n b" using len by (intro memcmp_0) simp
  have bm: "bits_of (take n a) = bits_of (take n b) \<longleftrightarrow> take n a = take n b"
    using bits_of_mono[of "take n a" "take n b"] len by auto
  show ?thesis
  proof (cases "r = 0")
    case True
    have "bmemcmp a b bits = Some (memcmp (take n a) (take n b))"
      using assms True by (simp add: bmemcmp_def bits_for_le not_less n_def r_def Let_def)
    then show ?thesis using True nr mc bm by (simp add: take_bits_of)
  next
    case False
    define d where "d = int (unat (drop_bit (8 - r) (a ! n))) - int (unat (drop_bit (8 - r) (b ! n)))"
    have res: "bmemcmp a b bits = Some (if memcmp (take n a) (take n b) = 0 then d else memcmp (take n a) (take n b))"
      using assms False unfolding bmemcmp_def Let_def n_def[symmetric] r_def[symmetric] d_def bits_for_le[unfolded not_le[symmetric]]
      by (simp add: not_less bits_for_le)
    have n: "n < length a" "n < length b" using assms nr False by linarith+
    have d0: "d = 0 \<longleftrightarrow> take r (octet_bits (a ! n)) = take r (octet_bits (b ! n))"
      using top_bits_eq[of r "a ! n" "b ! n"] nr(2) unfolding d_def by (metis diff_eq_eq add.left_neutral less_imp_le of_nat_eq_iff unsigned_word_eqI)
    have ta: "take bits (bits_of a) = bits_of (take n a) @ take r (octet_bits (a ! n))"
      and tb: "take bits (bits_of b) = bits_of (take n b) @ take r (octet_bits (b ! n))"
      using take_bits_of_partial n nr by simp_all
    have "take bits (bits_of a) = take bits (bits_of b) \<longleftrightarrow> take n a = take n b \<and> take r (octet_bits (a ! n)) = take r (octet_bits (b ! n))"
      unfolding ta tb using bm len by (auto simp: append_eq_append_conv)
    then show ?thesis using res mc d0 by auto
  qed
qed

lemma bits_equal_iff:
  assumes "0 \<le> bits" "nat bits \<le> 8 * length a" "nat bits \<le> 8 * length b"
  shows "bits_equal a b bits = Some (take (nat bits) (bits_of a) = take (nat bits) (bits_of b))"
  using bmemcmp_bits[OF assms(2,3)] assms(1) by (auto simp: bits_equal_def)

section \<open>Port sets\<close>

lemma or_disjoint_add:
  fixes a b :: int
  assumes "0 \<le> b" "b < 2 ^ n"
  shows "push_bit n a OR b = a * 2 ^ n + b"
proof -
  have "b = take_bit n b" using assms by (simp add: take_bit_int_eq_self)
  then have "\<not> bit (push_bit n a) i \<or> \<not> bit b i" for i by (metis bit_push_bit_iff bit_take_bit_iff not_le)
  then have "push_bit n a + b = push_bit n a OR b" by (intro disjunctive_add) auto
  then show ?thesis by (simp add: push_bit_eq_mult)
qed

lemma port_sets_mem:
  fixes j p :: int
  assumes "0 \<le> j" "j < 2 ^ L" "off + L \<le> 16" "0 < p" "p < 65536"
  shows "\<exists>ps. port_sets (int off) (int L) (j * 2 ^ (16 - L)) = Some ps \<and>
     ((\<exists>(a, b) \<in> set ps. a \<le> p \<and> p \<le> b) \<longleftrightarrow>
      (off = 0 \<or> 2 ^ (16 - off) \<le> p) \<and> p div 2 ^ (16 - off - L) mod 2 ^ L = j)"
proof -
  define m :: int where "m = 2 ^ (16 - off - L)"
  define k0 :: nat where "k0 = (if int off \<noteq> 0 then 1 else 0)"
  have m0: "0 < m" by (simp add: m_def)
  have pw: "(2 :: int) ^ (16 - off) = 2 ^ L * m" "(2 :: int) ^ (16 - L) = 2 ^ off * m" "(65536 :: int) = 2 ^ off * (2 ^ L * m)"
    using assms(3) by (simp_all add: m_def power_add[symmetric])
  define start where "start k = push_bit (nat (16 - int off)) (int k) OR drop_bit (nat (int off)) (j * 2 ^ (16 - L))" for k
  have start: "start k = (int k * 2 ^ L + j) * m" for k
  proof -
    have "drop_bit off (j * 2 ^ (16 - L)) = j * m" by (simp add: drop_bit_eq_div pw(2) algebra_simps)
    moreover have "0 \<le> j * m" "j * m < 2 ^ (16 - off)" using assms(1,2) m0 pw(1) by simp_all
    moreover have "nat (16 - int off) = 16 - off" by simp
    ultimately show ?thesis using or_disjoint_add[of "j * m" "16 - off" "int k"] pw(1) by (simp add: start_def algebra_simps)
  qed
  define entry where "entry k = (if start k = 0 then 1 else start k, start k + m - 1)" for k
  define ps where "ps = filter (\<lambda>q. fst q \<le> snd q) (map entry [k0..<2 ^ off])"
  have m2: "(2 :: int) ^ nat (16 - int off - int L) = m" using assms(3) by (simp add: m_def nat_diff_distrib)
  have res: "port_sets (int off) (int L) (j * 2 ^ (16 - L)) = Some ps"
    unfolding port_sets_def m2 Let_def start_def[symmetric] entry_def[symmetric] k0_def[symmetric] ps_def[symmetric]
    using assms(3) by (simp add: ps_def)
  have in_entry: "fst (entry k) \<le> p \<and> p \<le> snd (entry k) \<longleftrightarrow> p div m = int k * 2 ^ L + j" for k
  proof -
    have "p div m = c \<longleftrightarrow> c * m \<le> p \<and> p \<le> c * m + m - 1" for c
    proof -
      have "p div m * m = p - p mod m" "0 \<le> p mod m" "p mod m < m" using m0 by (simp_all add: minus_mod_eq_div_mult)
      then have "p div m = c \<Longrightarrow> c * m \<le> p \<and> p \<le> c * m + m - 1" by auto
      moreover have "p div m = c" if "c * m \<le> p \<and> p \<le> c * m + m - 1"
        using int_div_pos_eq[of p m c "p - c * m"] that m0 by (simp add: mult.commute)
      ultimately show ?thesis by blast
    qed
    then show ?thesis using assms(4) by (auto simp: entry_def start)
  qed
  define M where "M = 2 ^ L * m"
  have dm: "p div m div 2 ^ L = p div M" using m0 by (simp add: zdiv_zmult2_eq[symmetric] M_def mult.commute)
  have M0: "0 < M" using m0 by (simp add: M_def)
  have "p div M < 2 ^ off"
  proof (rule ccontr)
    assume "\<not> p div M < 2 ^ off"
    then have "2 ^ off * M \<le> p div M * M" using M0 by (intro mult_right_mono) simp_all
    also have "\<dots> \<le> p" using M0 by (simp add: minus_mod_eq_div_mult[symmetric])
    finally show False using assms(5) pw(3) by (simp add: M_def)
  qed
  then have q: "p div m div 2 ^ L < 2 ^ off" "0 \<le> p div m div 2 ^ L"
    using dm assms(4) M0 by (simp_all add: pos_imp_zdiv_nonneg_iff)
  have "(\<exists>(a, b) \<in> set ps. a \<le> p \<and> p \<le> b) \<longleftrightarrow> (\<exists>k. k0 \<le> k \<and> k < 2 ^ off \<and> p div m = int k * 2 ^ L + j)"
  proof -
    have "(\<exists>(a, b) \<in> set ps. a \<le> p \<and> p \<le> b) \<longleftrightarrow>
        (\<exists>k \<in> {k0..<2 ^ off}. fst (entry k) \<le> snd (entry k) \<and> fst (entry k) \<le> p \<and> p \<le> snd (entry k))"
      by (auto simp: ps_def case_prod_beta)
    also have "\<dots> \<longleftrightarrow> (\<exists>k \<in> {k0..<2 ^ off}. fst (entry k) \<le> p \<and> p \<le> snd (entry k))" by (meson order_trans)
    finally show ?thesis by (auto simp: in_entry)
  qed
  also have "\<dots> \<longleftrightarrow> int k0 \<le> p div m div 2 ^ L \<and> p div m mod 2 ^ L = j"
  proof
    assume "\<exists>k. k0 \<le> k \<and> k < 2 ^ off \<and> p div m = int k * 2 ^ L + j"
    then show "int k0 \<le> p div m div 2 ^ L \<and> p div m mod 2 ^ L = j" using assms(1,2) by auto
  next
    assume a: "int k0 \<le> p div m div 2 ^ L \<and> p div m mod 2 ^ L = j"
    have "int (nat (p div m div 2 ^ L)) * 2 ^ L + j = p div m" using a q(2) by (simp add: mult.commute[of _ "2 ^ L"]) (metis mult_div_mod_eq)
    moreover have "nat (p div m div 2 ^ L) < 2 ^ off" using q by (simp add: nat_less_iff)
    moreover have "k0 \<le> nat (p div m div 2 ^ L)" using a by linarith
    ultimately show "\<exists>k. k0 \<le> k \<and> k < 2 ^ off \<and> p div m = int k * 2 ^ L + j" by metis
  qed
  also have "p div m div 2 ^ L = p div 2 ^ (16 - off)" unfolding dm M_def pw(1) ..
  also have "int k0 \<le> p div 2 ^ (16 - off) \<longleftrightarrow> off = 0 \<or> 2 ^ (16 - off) \<le> p"
    using assms(4) pos_imp_zdiv_pos_iff[of "2 ^ (16 - off)" p] by (auto simp: k0_def pos_imp_zdiv_nonneg_iff)
  finally show ?thesis using res unfolding m_def by blast
qed

section \<open>What the options leave behind\<close>

definition libc_ok :: "libc \<Rightarrow> bool" where
  "libc_ok lc \<longleftrightarrow>
     (\<forall>v a. lc_pton4 lc v = Some a \<longrightarrow> length a = 4) \<and> (\<forall>v a. lc_pton6 lc v = Some a \<longrightarrow> length a = 16)"

definition rule_ok :: "rule \<Rightarrow> bool" where
  "rule_ok r \<longleftrightarrow>
     length (ru_ipv4prefix r) = 4 \<and> length (ru_ipv6prefix r) = 16 \<and> length (ru_pd r) = 16 \<and>
     ru_prefix4len r \<le> 32 \<and> ru_prefix6len r \<le> 128 \<and> ru_pdlen r \<le> 128 \<and> ru_offset r \<le> 16 \<and>
     ru_psidlen r \<le> 16 \<and> ru_psid r \<le> 65535"

lemma opt_num_le: "opt_num lc v limit = Some (Some i) \<Longrightarrow> i \<le> limit"
  by (auto simp: opt_num_def Let_def split: option.splits if_splits)

lemma apply_opt_ok:
  assumes "libc_ok lc" "rule_ok r" "apply_opt lc idx value r = Some r'"
  shows "rule_ok r'"
  using assms opt_num_le
  by (auto simp: apply_opt_def rule_ok_def libc_ok_def set_num_def set_addr_def split: option.splits opt_token.splits)

lemma parse_rule_ok: "libc_ok lc \<Longrightarrow> rule_ok r \<Longrightarrow> parse_rule lc str r = Some r' \<Longrightarrow> rule_ok r'"
proof (induction lc str r rule: parse_rule.induct)
  case (1 lc str r)
  show ?case
  proof (cases "str = []")
    case False
    obtain idx v rest where g: "getsubopt str = (idx, v, rest)" by (metis prod_cases3)
    obtain r1 where a: "apply_opt lc idx v r = Some r1" "parse_rule lc rest r1 = Some r'"
      using "1.prems"(3) False g by (subst (asm) parse_rule.simps) (auto simp: Option.bind_eq_Some_conv)
    show ?thesis using "1.IH"[OF False g[symmetric] refl a(1) "1.prems"(1) apply_opt_ok[OF "1.prems"(1,2) a(1)] a(2)] .
  next
    case True
    then show ?thesis using "1.prems" by (simp add: parse_rule.simps)
  qed
qed

lemma copy_bits_ok:
  assumes "copy_bits a b n = Some c"
  shows "0 \<le> n \<and> nat n \<le> 8 * length a \<and> nat n \<le> 8 * length b \<and> length c = length a \<and>
    bits_of c = take (nat n) (bits_of b) @ drop (nat n) (bits_of a)"
proof -
  have n: "0 \<le> n" "bmemcpy a b (nat n) = Some c" using assms by (auto simp: copy_bits_def split: if_splits)
  then have "nat n \<le> 8 * length a" "nat n \<le> 8 * length b"
    by (auto simp: bmemcpy_def Let_def bits_for_le[symmetric] not_less split: if_splits)
  from bmemcpy_bits[OF this] n this show ?thesis by auto
qed

lemma match_entry_len:
  assumes "match_entry lc pre plen lw addr m st = Some st'" "length (snd st) = 16" "fst st \<le> 128"
  shows "length (snd st') = 16 \<and> fst st' \<le> 128"
  using assms copy_bits_ok
  by (fastforce simp: match_entry_def Let_def Option.bind_eq_Some_conv split: if_splits)

lemma match_entries_len:
  "match_entries lc pre plen lw es st = Some st' \<Longrightarrow> length (snd st) = 16 \<Longrightarrow> fst st \<le> 128 \<Longrightarrow>
   length (snd st') = 16 \<and> fst st' \<le> 128"
proof (induction es arbitrary: st)
  case (Cons e es)
  obtain x y where e: "e = (x, y)" by fastforce
  show ?case
  proof (cases "x = None \<or> y = None")
    case True
    then show ?thesis using Cons e by (cases x; cases y) auto
  next
    case False
    then obtain a m st1 where "e = (Some a, Some m)" "match_entry lc pre plen lw a m st = Some st1"
        "match_entries lc pre plen lw es st1 = Some st'"
      using Cons.prems(1) e by (auto simp: Option.bind_eq_Some_conv)
    then show ?thesis using Cons.IH[of st1] match_entry_len[of lc pre plen lw a m st st1] Cons.prems by blast
  qed
qed simp

lemma find_pd_ok: "find_pd lc wanted dump r iface = Some (r', i') \<Longrightarrow> rule_ok r \<Longrightarrow> rule_ok r'"
proof (induction dump arbitrary: r)
  case (Cons c cs)
  have mp: "length (snd st') = 16 \<and> fst st' \<le> 128"
    if "match_prefix lc cur p l w st = Some st'" "length (snd st) = 16" "fst st \<le> 128" for cur p l w st st'
    using that match_entries_len by (auto simp: match_prefix_def split: option.splits)
  show ?case
  proof (cases "if_interface c")
    case None
    then show ?thesis using Cons by simp
  next
    case (Some name)
    show ?thesis
    proof (cases "wanted \<noteq> ''*'' \<and> wanted \<noteq> name")
      case True
      then show ?thesis using Cons Some by simp
    next
      case False
      then obtain st1 st2 where st: "match_prefix lc (if_prefix c) (ru_ipv6prefix r) (ru_prefix6len r) (ru_lw4o6 r) (ru_pdlen r, ru_pd r) = Some st1"
        "(if ru_lw4o6 r then match_prefix lc (if_address c) (ru_ipv6prefix r) (ru_prefix6len r) (ru_lw4o6 r) st1 else Some st1) = Some st2"
        "(if 0 \<le> fst st2 then Some (r\<lparr>ru_pdlen := fst st2, ru_pd := snd st2\<rparr>, name)
          else find_pd lc wanted cs (r\<lparr>ru_pdlen := fst st2, ru_pd := snd st2\<rparr>) iface) = Some (r', i')"
        using Cons.prems(1) Some by (auto simp: Option.bind_eq_Some_conv Let_def)
      have "length (snd st1) = 16 \<and> fst st1 \<le> 128" using mp[OF st(1)] Cons.prems(2) by (simp add: rule_ok_def)
      then have "length (snd st2) = 16 \<and> fst st2 \<le> 128" using mp st(2) by (cases "ru_lw4o6 r") auto
      then have "rule_ok (r\<lparr>ru_pdlen := fst st2, ru_pd := snd st2\<rparr>)" using Cons.prems(2) by (simp add: rule_ok_def)
      then show ?thesis using st(3) Cons.IH by (auto split: if_splits)
    qed
  qed
qed simp

lemma rule_init_ok: "rule_ok rule_init"
  by (simp add: rule_ok_def rule_init_def)

lemma rule_defaults_ok: "rule_ok r \<Longrightarrow> rule_ok (rule_defaults legacy r)"
  by (auto simp: rule_ok_def rule_defaults_def Let_def)

text \<open>What every printed rule satisfies.\<close>

lemma rule_result_printed:
  assumes "rule_result lc legacy r iface = Some (Some out, i)"
  shows "ro_rule out = r \<and> \<not> rule_invalid r \<and>
    (\<exists>p16. rule_psid lc r = Some (ro_psid out, p16) \<and> rule_ipv6addr legacy r (ro_ipv4addr out) p16 = Some (ro_ipv6addr out)) \<and>
    rule_ipv4addr lc r = Some (ro_ipv4addr out) \<and> ro_addr4len out = rule_addr4len r \<and>
    (if 0 < ru_psidlen r \<and> 0 \<le> ro_psid out then map_option Some (port_sets (ru_offset r) (ru_psidlen r) (ro_psid out)) else Some None) =
       Some (ro_ports out)"
proof -
  have inv: "\<not> rule_invalid r" using assms by (auto simp: rule_result_def)
  obtain p a where p: "rule_psid lc r = Some p" "rule_ipv4addr lc r = Some a"
    using assms inv by (auto simp: rule_result_def Option.bind_eq_Some_conv)
  then have v: "\<not> (ru_pdlen r < 0 \<and> \<not> ru_fmr r)" using assms inv by (auto simp: rule_result_def split: if_splits)
  then obtain v6 ports where v6: "rule_ipv6addr legacy r a (snd p) = Some v6"
     and ports: "(if 0 < ru_psidlen r \<and> 0 \<le> fst p then map_option Some (port_sets (ru_offset r) (ru_psidlen r) (fst p)) else Some None) = Some ports"
     and out: "out = \<lparr>ro_rule = r, ro_psid = fst p, ro_ipv4addr = a, ro_addr4len = rule_addr4len r,
        ro_ipv6addr = v6, ro_ports = ports, ro_iface = iface\<rparr>"
    using assms inv p by (simp only: rule_result_def if_False Option.bind.simps Option.bind_eq_Some_conv) auto
  have "rule_psid lc r = Some (ro_psid out, snd p) \<and> rule_ipv6addr legacy r (ro_ipv4addr out) (snd p) = Some (ro_ipv6addr out)"
    using p v6 by (simp add: out)
  moreover have "(if 0 < ru_psidlen r \<and> 0 \<le> ro_psid out then map_option Some (port_sets (ru_offset r) (ru_psidlen r) (ro_psid out)) else Some None) =
       Some (ro_ports out)" unfolding out rule_out.simps by (rule ports)
  moreover have "ro_rule out = r" "ro_addr4len out = rule_addr4len r" "rule_ipv4addr lc r = Some (ro_ipv4addr out)"
    using p(2) by (simp_all add: out)
  ultimately show ?thesis using inv by blast
qed

lemma rule_lengths_ok:
  assumes "rule_ok r" "\<not> rule_invalid (rule_lengths r)"
  shows "rule_ok (rule_lengths r)" "0 \<le> ru_psidlen (rule_lengths r)"
  using assms by (auto simp: rule_ok_def rule_lengths_def rule_invalid_def Let_def split: if_splits)

lemma calc_rule_printed:
  assumes "libc_ok lc" "calc_rule lc legacy wanted dump text iface = Some (Some out, i)"
  shows "rule_ok (ro_rule out) \<and> 0 \<le> ru_psidlen (ro_rule out) \<and> (\<exists>iface'. rule_result lc legacy (ro_rule out) iface' = Some (Some out, i))"
proof -
  obtain r0 f where c: "parse_rule lc text rule_init = Some r0"
    "(if ru_pdlen (rule_defaults legacy r0) < 0 then find_pd lc wanted dump (rule_defaults legacy r0) iface
      else Some (rule_defaults legacy r0, iface)) = Some f"
    "rule_result lc legacy (rule_lengths (fst f)) (snd f) = Some (Some out, i)"
    using assms(2) unfolding calc_rule_def Let_def Option.bind_eq_Some_conv by blast
  have d: "rule_ok (rule_defaults legacy r0)" using rule_defaults_ok parse_rule_ok[OF assms(1) rule_init_ok c(1)] by blast
  have f: "rule_ok (fst f)" using c(2) d find_pd_ok[of lc wanted dump "rule_defaults legacy r0" iface "fst f" "snd f"]
    by (auto split: if_splits)
  note r = rule_result_printed[OF c(3)]
  show ?thesis using rule_lengths_ok[OF f] r c(3) by metis
qed

section \<open>Addresses\<close>

lemma bits_shift_right:
  assumes "k \<le> 8 * m" "length a = m"
  shows "bits_of (be_bytes m (be_num a div 2 ^ k)) = replicate k False @ take (8 * m - k) (bits_of a)"
proof (rule nth_equalityI)
  fix i assume "i < length (bits_of (be_bytes m (be_num a div 2 ^ k)))"
  then have i: "i < 8 * m" by simp
  have "bits_of (be_bytes m (be_num a div 2 ^ k)) ! i = bit (be_num a) (k + (8 * m - 1 - i))"
    using nth_bits_be_bytes[of i m "be_num a div 2 ^ k"] i by (simp add: bit_div_pow)
  also have "\<dots> = (k \<le> i \<and> bits_of a ! (i - k))"
  proof (cases "k \<le> i")
    case True
    then have e: "8 * m - 1 - (k + (8 * m - 1 - i)) = i - k" "k + (8 * m - 1 - i) < 8 * m" using i by linarith+
    show ?thesis unfolding bit_be_num assms(2) e(1) using e(2) True by blast
  next
    case False
    then have "\<not> k + (8 * m - 1 - i) < 8 * m" using i by linarith
    then show ?thesis unfolding bit_be_num assms(2) using False by blast
  qed
  also have "\<dots> = (replicate k False @ take (8 * m - k) (bits_of a)) ! i"
    using i assms by (auto simp: nth_append)
  finally show "bits_of (be_bytes m (be_num a div 2 ^ k)) ! i = (replicate k False @ take (8 * m - k) (bits_of a)) ! i" .
qed (use assms in simp)

lemma bits_replicate_0 [simp]: "bits_of (replicate n 0) = replicate (8 * n) False"
  by (rule nth_equalityI) (simp_all add: nth_bits_of)

lemma rule_ipv4addr_bits:
  assumes "rule_ok r" "\<not> rule_invalid r" "0 \<le> ru_psidlen r" "0 \<le> ru_pdlen r"
    and "ru_prefix4len r + (ru_ealen r - ru_psidlen r) \<le> 32" "ru_prefix6len r + ru_ealen r \<le> 128"
    and "rule_ipv4addr lc r = Some a"
  defines "p \<equiv> nat (ru_prefix4len r)" and "n \<equiv> nat (ru_ealen r - ru_psidlen r)"
  shows "length a = 4"
    "bits_of a = take p (bits_of (ru_ipv4prefix r)) @ take n (drop (nat (ru_prefix6len r)) (bits_of (ru_pd r))) @ replicate (32 - p - n) False"
proof -
  have nn: "0 \<le> ru_prefix4len r" "0 \<le> ru_prefix6len r" "ru_psidlen r \<le> ru_ealen r" "ru_prefix4len r \<le> 32"
    using assms(1,2) by (simp_all add: rule_invalid_def rule_ok_def)
  have len: "length (ru_ipv4prefix r) = 4" "length (ru_pd r) = 16" using assms(1) by (simp_all add: rule_ok_def)
  have pn: "p + n \<le> 32" "p \<le> 32" "n \<le> 32" "nat (ru_prefix6len r) + n \<le> 128"
    using nn assms(3,5,6) by (simp_all add: p_def n_def)
  obtain c where c: "bmemcpys64 (lc_behind lc) (replicate 4 0) (ru_pd r) (nat (ru_prefix6len r)) n = Some c" "length c = 4"
      "bits_of c = take n (drop (nat (ru_prefix6len r)) (bits_of (ru_pd r))) @ replicate (32 - n) False"
    using bmemcpys64_bits[of "nat (ru_prefix6len r)" n "ru_pd r" "replicate 4 0" "lc_behind lc"] len pn by auto
  define sh where "sh = be_bytes 4 (shift_right lc (be_num c) p)"
  have ls: "length sh = 4" by (simp add: sh_def)
  obtain d where d: "bmemcpy sh (ru_ipv4prefix r) p = Some d" "length d = 4" "bits_of d = take p (bits_of (ru_ipv4prefix r)) @ drop p (bits_of sh)"
    using bmemcpy_bits[of p sh "ru_ipv4prefix r"] ls len pn by auto
  have "a = d" using assms(4,7) c(1) d(1) by (simp add: rule_ipv4addr_def sh_def p_def n_def)
  moreover have "drop p (bits_of sh) = take (32 - p) (bits_of c)"
  proof (cases "p = 32")
    case False
    then have "bits_of sh = replicate p False @ take (32 - p) (bits_of c)"
      using bits_shift_right[of p 4 c] pn c(2) by (simp add: sh_def shift_right_def)
    then show ?thesis by simp
  qed (simp add: ls)
  moreover have "take (32 - p) (bits_of c) = take n (drop (nat (ru_prefix6len r)) (bits_of (ru_pd r))) @ replicate (32 - p - n) False"
  proof -
    have *: "take (32 - p) (xs @ replicate (32 - n) False) = xs @ replicate (32 - p - n) False" if "length xs = n" for xs
      using that pn(1) by (simp add: min_def)
    show ?thesis unfolding c(3) by (rule *) (use pn len in simp)
  qed
  ultimately show "length a = 4"
    "bits_of a = take p (bits_of (ru_ipv4prefix r)) @ take n (drop (nat (ru_prefix6len r)) (bits_of (ru_pd r))) @ replicate (32 - p - n) False"
    using d by simp_all
qed

end
