(* ===== verification/Mapcalc_Props.thy ===== *)
theory Mapcalc_Props
  imports Mapcalc_Bits "HOL-Library.Code_Target_Nat"
begin

unbundle bit_operations_syntax

text \<open>
  Properties of the calculator for MAP rules. \<open>libc_ok\<close> says that a converted address has the
  length of its kind; everything else about the C library is left open.
\<close>

lemma be_num_lt: "be_num bs < 2 ^ (8 * length bs)"
proof -
  have "take_bit (8 * length bs) (be_num bs) = be_num bs"
    by (rule bit_eqI) (auto simp: bit_take_bit_iff bit_be_num)
  then show ?thesis by (metis take_bit_nat_less_exp)
qed

lemma be_num_be_bytes: "x < 2 ^ (8 * k) \<Longrightarrow> be_num (be_bytes k x) = x"
proof (rule bit_eqI)
  fix j assume x: "x < 2 ^ (8 * k)"
  have "bit x j \<Longrightarrow> j < 8 * k" using x by (metis bit_take_bit_iff take_bit_nat_eq_self)
  moreover have "8 * k - 1 - (8 * k - 1 - j) = j" "8 * k - 1 - j < 8 * k" if "j < 8 * k" using that by linarith+
  ultimately show "bit (be_num (be_bytes k x)) j = bit x j"
    unfolding bit_be_num length_be_bytes using nth_bits_be_bytes[of "8 * k - 1 - j" k x] by metis
qed

lemma be_num_low_zero:
  assumes "bits_of a = xs @ replicate k False" "length a = m"
  shows "be_num a div 2 ^ k * 2 ^ k = be_num a"
proof -
  have "\<not> bit (be_num a) j" if "j < k" for j
  proof -
    have l: "8 * m = length xs + k" using arg_cong[OF assms(1), of length] assms(2) by simp
    show ?thesis unfolding bit_be_num assms(1,2) using that l by (auto simp: nth_append)
  qed
  then have "take_bit k (be_num a) = 0" by (intro bit_eqI) (auto simp: bit_take_bit_iff)
  then have "be_num a mod 2 ^ k = 0" by (simp add: take_bit_eq_mod)
  then show ?thesis by (metis add.right_neutral div_mult_mod_eq)
qed

lemma rule_psid_bits:
  assumes "rule_ok r" "\<not> rule_invalid r" "0 \<le> ru_psidlen r" "0 \<le> ru_pdlen r" "ru_psid r < 0"
    and "ru_prefix6len r + ru_ealen r \<le> 128" "rule_psid lc r = Some (psid, p16)"
  defines "L \<equiv> nat (ru_psidlen r)"
  shows "length p16 = 2"
    "bits_of p16 = replicate (16 - L) False @ take L (drop (nat (ru_prefix6len r + ru_ealen r - ru_psidlen r)) (bits_of (ru_pd r)))"
    "psid = int (be_num p16) * 2 ^ (16 - L)"
proof -
  have "0 \<le> ru_prefix6len r" "ru_psidlen r \<le> ru_ealen r" "ru_psidlen r \<le> 16"
    using assms(1,2) by (simp_all add: rule_invalid_def rule_ok_def)
  then have nn: "0 \<le> ru_prefix6len r" "ru_psidlen r \<le> ru_ealen r" "L \<le> 16" by (simp_all add: L_def)
  have len: "length (ru_pd r) = 16" using assms(1) by (simp add: rule_ok_def)
  let ?f = "nat (ru_prefix6len r + ru_ealen r - ru_psidlen r)"
  have fl: "?f + L \<le> 128" using nn assms(3,6) by (simp add: L_def)
  obtain c where c: "bmemcpys64 (lc_behind lc) [0, 0] (ru_pd r) ?f L = Some c" "length c = 2"
      "bits_of c = take L (drop ?f (bits_of (ru_pd r))) @ drop L (bits_of [0, 0])"
    using bmemcpys64_bits[of ?f L "ru_pd r" "[0, 0]" "lc_behind lc"] len fl nn(3) by auto
  have z: "bits_of [0, 0] = replicate 16 False" using bits_replicate_0[of 2] by (simp add: numeral_2_eq_2)
  define k where "k = 16 - L"
  define w where "w = take L (drop ?f (bits_of (ru_pd r)))"
  have cb: "bits_of c = w @ replicate k False" "length w = L" using c(3) fl len by (simp_all add: z w_def k_def)
  have k: "nat (16 - ru_psidlen r) = k" using assms(3) by (simp add: k_def L_def nat_diff_distrib)
  have low: "be_num c div 2 ^ k * 2 ^ k = be_num c" by (rule be_num_low_zero[OF cb(1) c(2)])
  have cl: "be_num c < 65536" using be_num_lt[of c] c(2) by simp
  have small: "be_num c div 2 ^ k < 65536" using cl div_le_dividend le_less_trans by blast
  have call: "rule_psid lc r = (if 0 < ru_psidlen r then Some (int (be_num c) div 2 ^ k * 2 ^ k, be_bytes 2 (to_u16 (int (be_num c) div 2 ^ k)))
      else Some (int (be_num c), c))"
    using assms(3-5) c(1) unfolding rule_psid_def k Let_def by (simp add: L_def)
  have "length p16 = 2 \<and> bits_of p16 = replicate k False @ w \<and> psid = int (be_num p16) * 2 ^ k"
  proof (cases "0 < ru_psidlen r")
    case True
    have "int (be_num c) div 2 ^ k = int (be_num c div 2 ^ k)" by (simp add: zdiv_int)
    then have p: "psid = int (be_num c div 2 ^ k) * 2 ^ k" "p16 = be_bytes 2 (be_num c div 2 ^ k)"
      using call assms(7) True small by (simp_all add: to_u16_of_nat)
    moreover have "bits_of p16 = replicate k False @ take (16 - k) (bits_of c)"
      unfolding p(2) using bits_shift_right[of k 2 c] c(2) by (simp add: k_def)
    moreover have "take (16 - k) (bits_of c) = w" using cb nn(3) by (simp add: k_def)
    moreover have "be_num p16 = be_num c div 2 ^ k" unfolding p(2) using small by (intro be_num_be_bytes) simp
    ultimately show ?thesis by simp
  next
    case False
    then have p: "psid = int (be_num c)" "p16 = c" using call assms(7) by simp_all
    have k16: "k = 16" "w = []" using False cb(2) by (simp_all add: k_def L_def)
    have "be_num c div 2 ^ k = 0" using cl by (simp add: k16)
    then have "be_num c = 0" using low by simp
    then show ?thesis using p c(2) cb(1) k16 by simp
  qed
  then show "length p16 = 2"
    "bits_of p16 = replicate (16 - L) False @ take L (drop ?f (bits_of (ru_pd r)))"
    "psid = int (be_num p16) * 2 ^ (16 - L)"
    by (simp_all add: k_def w_def)
qed

lemma bmemcpy_SomeD: "bmemcpy a b n = Some c \<Longrightarrow> length c = length a"
proof -
  assume a: "bmemcpy a b n = Some c"
  then have "n \<le> 8 * length a" "n \<le> 8 * length b"
    by (auto simp: bmemcpy_def Let_def bits_for_le[symmetric] not_less split: if_splits)
  from bmemcpy_bits[OF this] a show ?thesis by auto
qed

lemma bmemcpys64_SomeD: "bmemcpys64 behind a b from n = Some c \<Longrightarrow> length c = length a"
  by (auto simp: bmemcpys64_def Let_def dest: bmemcpy_SomeD split: if_splits)

lemma rule_psid_aligned:
  assumes "rule_ok r" "0 < ru_psidlen r" "rule_psid lc r = Some (psid, p16)" "0 \<le> psid"
  defines "L \<equiv> nat (ru_psidlen r)"
  shows "\<exists>j. 0 \<le> j \<and> j < 2 ^ L \<and> psid = j * 2 ^ (16 - L)"
proof -
  have "ru_psidlen r \<le> 16" using assms(1) by (simp add: rule_ok_def)
  then have L: "L \<le> 16" "nat (16 - ru_psidlen r) = 16 - L" using assms(2) by (simp_all add: L_def nat_diff_distrib)
  obtain x where x: "x \<le> 65535" "psid = x div 2 ^ (16 - L) * 2 ^ (16 - L)"
  proof (cases "ru_psid r < 0 \<and> 0 \<le> ru_psidlen r \<and> 0 \<le> ru_pdlen r")
    case True
    then obtain b where b: "bmemcpys64 (lc_behind lc) [0, 0] (ru_pd r) (nat (ru_prefix6len r + ru_ealen r - ru_psidlen r)) (nat (ru_psidlen r)) = Some b"
      and p: "psid = int (be_num b) div 2 ^ (16 - L) * 2 ^ (16 - L)"
      using assms(2,3) L(2) by (auto simp: rule_psid_def Let_def Option.bind_eq_Some_conv)
    have "be_num b < 65536" using be_num_lt[of b] bmemcpys64_SomeD[OF b] by simp
    then show ?thesis using that[of "int (be_num b)"] p by simp
  next
    case False
    then have "psid = ru_psid r div 2 ^ (16 - L) * 2 ^ (16 - L)"
      using assms(2,3) L(2) by (auto simp: rule_psid_def Let_def split: if_splits)
    then show ?thesis using that[of "ru_psid r"] assms(1) by (simp add: rule_ok_def)
  qed
  define j where "j = x div 2 ^ (16 - L)"
  have "0 \<le> j" using assms(4) x(2) by (simp add: j_def[symmetric] zero_le_mult_iff)
  moreover have "j < 2 ^ L"
  proof (rule ccontr)
    assume "\<not> j < 2 ^ L"
    then have "2 ^ L * 2 ^ (16 - L) \<le> j * 2 ^ (16 - L)" by (intro mult_right_mono) simp_all
    also have "\<dots> \<le> x" by (simp add: j_def minus_mod_eq_div_mult[symmetric])
    finally show False using x(1) L(1) by (simp add: power_add[symmetric])
  qed
  ultimately show ?thesis using x(2) j_def by blast
qed

lemma find_pd_offset: "find_pd lc wanted dump r iface = Some (r', i') \<Longrightarrow> ru_offset r' = ru_offset r"
proof (induction dump arbitrary: r)
  case (Cons c cs)
  show ?case
  proof (cases "if_interface c")
    case None
    then show ?thesis using Cons by simp
  next
    case (Some name)
    show ?thesis
    proof (cases "wanted \<noteq> ''*'' \<and> wanted \<noteq> name")
      case True
      then show ?thesis using Cons Some by simp
    next
      case False
      then obtain st2 where "(if 0 \<le> fst st2 then Some (r\<lparr>ru_pdlen := fst st2, ru_pd := snd st2\<rparr>, name)
          else find_pd lc wanted cs (r\<lparr>ru_pdlen := fst st2, ru_pd := snd st2\<rparr>) iface) = Some (r', i')"
        using Cons.prems(1) Some by (auto simp: Option.bind_eq_Some_conv Let_def)
      then show ?thesis using Cons.IH[of "r\<lparr>ru_pdlen := fst st2, ru_pd := snd st2\<rparr>"] by (auto split: if_splits)
    qed
  qed
qed simp

lemma calc_rule_offset:
  assumes "calc_rule lc legacy wanted dump str iface = Some (Some out, i)"
  shows "0 \<le> ru_offset (ro_rule out)"
proof -
  obtain r0 f where c: "parse_rule lc str rule_init = Some r0"
    "(if ru_pdlen (rule_defaults legacy r0) < 0 then find_pd lc wanted dump (rule_defaults legacy r0) iface
      else Some (rule_defaults legacy r0, iface)) = Some f"
    "rule_result lc legacy (rule_lengths (fst f)) (snd f) = Some (Some out, i)"
    using assms unfolding calc_rule_def Let_def Option.bind_eq_Some_conv by blast
  have "ru_offset (fst f) = ru_offset (rule_defaults legacy r0)"
    using c(2) find_pd_offset[of lc wanted dump "rule_defaults legacy r0" iface "fst f" "snd f"] by (auto split: if_splits)
  moreover have "0 \<le> ru_offset (rule_defaults legacy r0)" by (simp add: rule_defaults_def Let_def)
  moreover have "ru_offset (ro_rule out) = ru_offset (fst f)" using rule_result_printed[OF c(3)] by (simp add: rule_lengths_def Let_def)
  ultimately show ?thesis by simp
qed

text \<open>
  C33. The sets of ports. For every printed rule with a set of ports, a port belongs to the set
  exactly if it is not among the reserved low ports and its bits behind the offset are the
  identifier of the rule; so rules that differ in the identifier only have disjoint sets, and
  the sets of all identifiers cover every port that is not reserved.
\<close>

theorem mapcalc_port_sets:
  assumes "libc_ok lc" "calc_rule lc legacy wanted dump str iface = Some (Some out, i)"
    and "ro_ports out = Some ps" "0 < p" "p < 65536"
  defines "off \<equiv> nat (ru_offset (ro_rule out))" and "L \<equiv> nat (ru_psidlen (ro_rule out))"
  shows "(\<exists>q \<in> set ps. fst q \<le> p \<and> p \<le> snd q) \<longleftrightarrow>
     (off = 0 \<or> 2 ^ (16 - off) \<le> p) \<and> p div 2 ^ (16 - off - L) mod 2 ^ L = ro_psid out div 2 ^ (16 - L)"
proof -
  define r where "r = ro_rule out"
  obtain iface' where ok: "rule_ok r" "rule_result lc legacy r iface' = Some (Some out, i)"
    using calc_rule_printed[OF assms(1,2)] by (auto simp: r_def)
  note pr = rule_result_printed[OF ok(2)]
  then obtain p16 where p16: "rule_psid lc r = Some (ro_psid out, p16)" by blast
  have ports: "0 < ru_psidlen r" "0 \<le> ro_psid out" "port_sets (ru_offset r) (ru_psidlen r) (ro_psid out) = Some ps"
    using pr assms(3) by (auto split: if_splits)
  have o0: "int off = ru_offset r" "int L = ru_psidlen r"
    using calc_rule_offset[OF assms(2)] ports(1) by (simp_all add: off_def L_def r_def)
  have le: "off + L \<le> 16" using ports(3) o0 by (auto simp: port_sets_def split: if_splits)
  obtain j where j: "0 \<le> j" "j < 2 ^ L" "ro_psid out = j * 2 ^ (16 - L)"
    using rule_psid_aligned[OF ok(1) ports(1) p16 ports(2)] by (auto simp: L_def r_def)
  have "ro_psid out div 2 ^ (16 - L) = j" by (simp add: j(3))
  then show ?thesis
    using port_sets_mem[OF j(1,2) le assms(4,5)] ports(3) o0 j(3) by (auto simp: case_prod_beta)
qed

lemma store_twice:
  assumes "length a = 4" "length b = 2" "v + 6 \<le> 16"
  shows "store_at (store_at (replicate 16 0) v a) (v + 4) b = replicate v 0 @ a @ b @ replicate (10 - v) 0"
proof -
  have "store_at (replicate 16 0) v a = replicate v 0 @ a @ replicate (12 - v) 0"
    using assms by (simp add: store_at_def min_def)
  then show ?thesis using assms by (simp add: store_at_def min_def)
qed

text \<open>
  C32. The addresses. For every printed rule with a delegated prefix and without a given identifier,
  whose embedded bits fit, the IPv4 address is the prefix of the rule followed by the embedded
  bits and zeros; the identifier is the rest of the embedded bits; and the IPv6 address is the
  delegated prefix, completed by an interface identifier that contains the IPv4 address and the
  identifier at a fixed place.
\<close>

theorem mapcalc_addresses:
  assumes "libc_ok lc" "calc_rule lc legacy wanted dump str iface = Some (Some out, i)"
  defines "r \<equiv> ro_rule out"
  assumes "0 \<le> ru_pdlen r" "ru_psid r < 0" "ru_prefix4len r + (ru_ealen r - ru_psidlen r) \<le> 32"
    and "ru_prefix6len r + ru_ealen r \<le> 128"
  defines "p4 \<equiv> nat (ru_prefix4len r)" and "p6 \<equiv> nat (ru_prefix6len r)" and "L \<equiv> nat (ru_psidlen r)"
    and "n \<equiv> nat (ru_ealen r - ru_psidlen r)" and "v \<equiv> (if legacy then 9 else 10 :: nat)"
  shows "bits_of (ro_ipv4addr out) =
       take p4 (bits_of (ru_ipv4prefix r)) @ take n (drop p6 (bits_of (ru_pd r))) @ replicate (32 - p4 - n) False \<and>
     (\<exists>psid16. bits_of psid16 = replicate (16 - L) False @ take L (drop (p6 + n) (bits_of (ru_pd r))) \<and>
        ro_psid out = int (be_num psid16) * 2 ^ (16 - L) \<and>
        bits_of (ro_ipv6addr out) = take (nat (ru_pdlen r)) (bits_of (ru_pd r)) @
          drop (nat (ru_pdlen r)) (replicate (8 * v) False @ bits_of (ro_ipv4addr out) @ bits_of psid16 @ replicate (80 - 8 * v) False))"
proof -
  obtain iface' where ok: "rule_ok r" "0 \<le> ru_psidlen r" "rule_result lc legacy r iface' = Some (Some out, i)"
    using calc_rule_printed[OF assms(1,2)] by (auto simp: r_def)
  note pr = rule_result_printed[OF ok(3)]
  then obtain psid16 where p16: "rule_psid lc r = Some (ro_psid out, psid16)"
    "rule_ipv6addr legacy r (ro_ipv4addr out) psid16 = Some (ro_ipv6addr out)" by blast
  have val: "\<not> rule_invalid r" "rule_ipv4addr lc r = Some (ro_ipv4addr out)" using pr by blast+
  note a4 = rule_ipv4addr_bits[OF ok(1) val(1) ok(2) assms(4,6,7) val(2)]
  note ps = rule_psid_bits[OF ok(1) val(1) ok(2) assms(4,5,7) p16(1)]
  have "0 \<le> ru_prefix6len r" "ru_psidlen r \<le> ru_ealen r" using val(1) by (simp_all add: rule_invalid_def)
  then have pn: "nat (ru_prefix6len r + ru_ealen r - ru_psidlen r) = p6 + n" by (simp add: p6_def n_def)
  have v: "v + 6 \<le> 16" by (simp add: v_def)
  have "copy_bits (replicate v 0 @ ro_ipv4addr out @ psid16 @ replicate (10 - v) 0) (ru_pd r) (ru_pdlen r) = Some (ro_ipv6addr out)"
    using p16(2) assms(4) unfolding rule_ipv6addr_def v_def[symmetric] Let_def store_twice[OF a4(1) ps(1) v] by simp
  from copy_bits_ok[OF this] have "bits_of (ro_ipv6addr out) = take (nat (ru_pdlen r)) (bits_of (ru_pd r)) @
      drop (nat (ru_pdlen r)) (replicate (8 * v) False @ bits_of (ro_ipv4addr out) @ bits_of psid16 @ replicate (80 - 8 * v) False)"
    by (simp add: bits_of_append diff_mult_distrib2)
  then show ?thesis using a4(2) ps(2,3) unfolding pn p4_def p6_def L_def n_def by blast
qed

section \<open>Delegated prefixes\<close>

definition reported :: "libc \<Rightarrow> string \<Rightarrow> bytes" where
  "reported lc addr = (case lc_pton6 lc addr of Some p \<Rightarrow> p | None \<Rightarrow> replicate 16 0)"

definition candidates :: "libc \<Rightarrow> bytes \<Rightarrow> nat \<Rightarrow> prefix_attr list \<Rightarrow> (nat \<times> bytes) set" where
  "candidates lc pre plen es =
     {(m, reported lc a) | a m. (Some a, Some m) \<in> set es \<and> plen \<le> m \<and>
        take plen (bits_of (reported lc a)) = take plen (bits_of pre)}"

lemma match_entry_plain:
  assumes "libc_ok lc" "length pre = 16" "length pd = 16" "plen \<le> 128" "m \<le> 128"
  shows "\<exists>pd'. match_entry lc pre (int plen) False a m (pdlen, pd) =
     Some (if (m, reported lc a) \<in> candidates lc pre plen [(Some a, Some m)] \<and> pdlen < int m then (int m, pd') else (pdlen, pd)) \<and>
     length pd' = 16 \<and> take m (bits_of pd') = take m (bits_of (reported lc a))"
proof -
  have lr: "length (reported lc a) = 16" using assms(1) by (auto simp: reported_def libc_ok_def split: option.split)
  have ms: "to_s32 (int m) = int m" using assms(5) by (simp add: to_s32_def)
  obtain c where c: "bmemcpy pd (reported lc a) m = Some c" "length c = 16" "bits_of c = take m (bits_of (reported lc a)) @ drop m (bits_of pd)"
    using bmemcpy_bits[of m pd "reported lc a"] assms(3,5) lr by auto
  have eq: "bits_equal (reported lc a) pre (int plen) = Some (take plen (bits_of (reported lc a)) = take plen (bits_of pre))"
    using bits_equal_iff[of "int plen" "reported lc a" pre] assms(2,4) lr by simp
  have cand: "(m, reported lc a) \<in> candidates lc pre plen [(Some a, Some m)] \<longleftrightarrow>
      plen \<le> m \<and> take plen (bits_of (reported lc a)) = take plen (bits_of pre)"
    by (auto simp: candidates_def)
  have "match_entry lc pre (int plen) False a m (pdlen, pd) =
     Some (if (m, reported lc a) \<in> candidates lc pre plen [(Some a, Some m)] \<and> pdlen < int m then (int m, c) else (pdlen, pd))"
    unfolding match_entry_def Let_def reported_def[symmetric] ms cand using eq c(1) by (simp add: copy_bits_def)
  then show ?thesis using c assms(5) lr by (intro exI[of _ c]) simp
qed

section \<open>An example\<close>

text \<open>The first example of RFC 7597, with decimal numbers and the addresses it uses.\<close>

definition dec_num :: "string \<Rightarrow> nat option" where
  "dec_num s = (if list_all (\<lambda>c. (48 :: nat) \<le> of_char c \<and> of_char c \<le> (57 :: nat)) s
     then Some (foldl (\<lambda>n c. 10 * n + (of_char c - 48)) 0 s) else None)"

definition libc_ex :: libc where
  "libc_ex =
     \<lparr>lc_strtoul = dec_num,
      lc_pton4 = (\<lambda>s. if s = ''192.0.2.0'' then Some [192, 0, 2, 0] else None),
      lc_pton6 = (\<lambda>s. if s = ''2001:db8::'' then Some ([0x20, 0x01, 0x0d, 0xb8] @ replicate 12 0)
                      else if s = ''2001:db8:12:3400::'' then Some ([0x20, 0x01, 0x0d, 0xb8, 0, 0x12, 0x34, 0] @ replicate 8 0)
                      else None),
      lc_shr32 = (\<lambda>w. w), lc_behind = (\<lambda>_. 0)\<rparr>"

definition rule_ex :: string where
  "rule_ex = ''ipv6prefix=2001:db8::,prefix6len=40,ipv4prefix=192.0.2.0,prefix4len=24,ealen=16''"

definition dump_ex :: "iface_attr list" where
  "dump_ex = [\<lparr>if_interface = Some ''wan6'', if_prefix = Some [(Some ''2001:db8:12:3400::'', Some 56)], if_address = None\<rparr>]"

definition out_ex :: rule_out where
  "out_ex =
     \<lparr>ro_rule = rule_init\<lparr>ru_ipv6prefix := [0x20, 0x01, 0x0d, 0xb8] @ replicate 12 0, ru_prefix6len := 40,
        ru_ipv4prefix := [192, 0, 2, 0], ru_prefix4len := 24, ru_ealen := 16, ru_pdlen := 56,
        ru_pd := [0x20, 0x01, 0x0d, 0xb8, 0, 0x12, 0x34, 0] @ replicate 8 0, ru_offset := 6, ru_psidlen := 8\<rparr>,
      ro_psid = 0x3400, ro_ipv4addr = [192, 0, 2, 18], ro_addr4len = 32,
      ro_ipv6addr = [0x20, 0x01, 0x0d, 0xb8, 0, 0x12, 0x34, 0, 0, 0, 192, 0, 2, 18, 0, 0x34],
      ro_ports = Some (map (\<lambda>k. (1024 * int k + 208, 1024 * int k + 211)) [1..<64]), ro_iface = ''wan6''\<rparr>"

lemma calc_ex: "calc_rule libc_ex False ''*'' dump_ex rule_ex ''*'' = Some (Some out_ex, ''wan6'')"
  by code_simp

lemma libc_ex_ok: "libc_ok libc_ex"
  by (auto simp: libc_ok_def libc_ex_def)

theorem mapcalc_port_sets_witness:
  "\<exists>q \<in> set (map (\<lambda>k. (1024 * int k + 208, 1024 * int k + 211)) [1..<64]). fst q \<le> 1234 \<and> 1234 \<le> snd q"
  using mapcalc_port_sets[OF libc_ex_ok calc_ex, of "map (\<lambda>k. (1024 * int k + 208, 1024 * int k + 211)) [1..<64]" 1234]
  by (simp add: out_ex_def)

theorem mapcalc_addresses_witness:
  "bits_of (ro_ipv4addr out_ex) = take 24 (bits_of [192, 0, 2, 0]) @ take 8 (drop 40 (bits_of (ru_pd (ro_rule out_ex))))"
  using mapcalc_addresses[OF libc_ex_ok calc_ex] by (simp add: out_ex_def rule_init_def)

lemma candidates_simps:
  "candidates lc pre plen [] = {}"
  "candidates lc pre plen (e # es) = candidates lc pre plen [e] \<union> candidates lc pre plen es"
  "x = None \<or> y = None \<Longrightarrow> candidates lc pre plen [(x, y)] = {}"
  by (auto simp: candidates_def)

text \<open>
  C34. The delegated prefix. Among the prefixes of an interface the program takes a longest one
  that begins with the IPv6 prefix of the rule and is longer than what it has so far, and keeps
  what it has if there is none. (Rules of type lw4o6 have an additional case.)
\<close>

theorem mapcalc_longest_prefix:
  assumes "libc_ok lc" "length pre = 16" "length pd = 16" "plen \<le> 128"
    and "\<forall>a m. (a, Some m) \<in> set es \<longrightarrow> m \<le> 128"
  shows "\<exists>pdlen' pd'. match_prefix lc (Some es) pre (int plen) False (pdlen, pd) = Some (pdlen', pd') \<and>
     pdlen \<le> pdlen' \<and> (\<forall>m p. (m, p) \<in> candidates lc pre plen es \<longrightarrow> int m \<le> pdlen') \<and>
     (pdlen' = pdlen \<and> pd' = pd \<or>
      (\<exists>m p. (m, p) \<in> candidates lc pre plen es \<and> int m = pdlen' \<and> take m (bits_of pd') = take m (bits_of p)))"
proof -
  have "\<exists>pdlen' pd'. match_entries lc pre (int plen) False es (pdlen, pd) = Some (pdlen', pd') \<and>
     pdlen \<le> pdlen' \<and> (\<forall>m p. (m, p) \<in> candidates lc pre plen es \<longrightarrow> int m \<le> pdlen') \<and>
     (pdlen' = pdlen \<and> pd' = pd \<or>
      (\<exists>m p. (m, p) \<in> candidates lc pre plen es \<and> int m = pdlen' \<and> take m (bits_of pd') = take m (bits_of p)))"
    using assms(3,5)
  proof (induction es arbitrary: pdlen pd)
    case Nil
    then show ?case by (simp add: candidates_simps)
  next
    case (Cons e es)
    obtain x y where e: "e = (x, y)" by fastforce
    show ?case
    proof (cases "x = None \<or> y = None")
      case True
      then have "candidates lc pre plen (e # es) = candidates lc pre plen es" using candidates_simps(2)[of lc pre plen e es] e by (simp add: candidates_simps(3))
      moreover have "match_entries lc pre (int plen) False (e # es) (pdlen, pd) = match_entries lc pre (int plen) False es (pdlen, pd)"
        using True e by (cases x; cases y) auto
      ultimately show ?thesis using Cons.IH[OF Cons.prems(1)] Cons.prems(2) by simp
    next
      case False
      then obtain a m where am: "e = (Some a, Some m)" using e by auto
      have m: "m \<le> 128" using Cons.prems(2) am by auto
      define c where "c \<longleftrightarrow> (m, reported lc a) \<in> candidates lc pre plen [(Some a, Some m)]"
      obtain p1 where p1: "match_entry lc pre (int plen) False a m (pdlen, pd) = Some (if c \<and> pdlen < int m then (int m, p1) else (pdlen, pd))"
         "length p1 = 16" "take m (bits_of p1) = take m (bits_of (reported lc a))"
        using match_entry_plain[OF assms(1,2) Cons.prems(1) assms(4) m] c_def by blast
      define l2 where "l2 = (if c \<and> pdlen < int m then int m else pdlen)"
      define p2 where "p2 = (if c \<and> pdlen < int m then p1 else pd)"
      have "match_entries lc pre (int plen) False (e # es) (pdlen, pd) = match_entries lc pre (int plen) False es (l2, p2)"
        using p1(1) am by (simp add: l2_def p2_def)
      moreover have "length p2 = 16" using p1(2) Cons.prems(1) by (simp add: p2_def)
      moreover have "candidates lc pre plen (e # es) = (if c then {(m, reported lc a)} else {}) \<union> candidates lc pre plen es"
        unfolding candidates_simps(2)[of lc pre plen e es] am c_def by (auto simp: candidates_def)
      ultimately show ?thesis
        using Cons.IH[of p2 l2] Cons.prems(2) p1(3) by (auto simp: l2_def p2_def split: if_splits)
    qed
  qed
  then show ?thesis by (simp add: match_prefix_def)
qed

theorem mapcalc_longest_prefix_witness:
  "\<exists>pdlen' pd'. match_prefix libc_ex (Some [(Some ''2001:db8::'', Some 32), (Some ''2001:db8:12:3400::'', Some 56)])
      ([0x20, 0x01, 0x0d, 0xb8] @ replicate 12 0) (int 40) False (- 1, replicate 16 0) = Some (pdlen', pd') \<and> 56 \<le> pdlen'"
proof -
  let ?pre = "[0x20, 0x01, 0x0d, 0xb8] @ replicate 12 0" and ?es = "[(Some ''2001:db8::'', Some 32), (Some ''2001:db8:12:3400::'', Some 56)]"
  have "take 40 (bits_of (reported libc_ex ''2001:db8:12:3400::'')) = take 40 (bits_of ?pre)" by code_simp
  then have "(56, reported libc_ex ''2001:db8:12:3400::'') \<in> candidates libc_ex ?pre 40 ?es"
    by (auto simp: candidates_def)
  then show ?thesis
    using mapcalc_longest_prefix[OF libc_ex_ok, of ?pre "replicate 16 0" 40 ?es "- 1"] by fastforce
qed

text \<open>
  The results of the rules in the order of the arguments: a printed rule, or \<^term>\<open>None\<close> for one that
  is skipped. A rule sees the interface name that the rules before it left.
\<close>

fun rule_results ::
  "libc \<Rightarrow> bool \<Rightarrow> string \<Rightarrow> iface_attr list \<Rightarrow> string list \<Rightarrow> string \<Rightarrow> rule_out option list option" where
  "rule_results lc legacy wanted dump [] iface = Some []"
| "rule_results lc legacy wanted dump (a # as) iface =
     Option.bind (calc_rule lc legacy wanted dump a iface) (\<lambda>q.
       map_option ((#) (fst q)) (rule_results lc legacy wanted dump as (snd q)))"

abbreviation printed :: "rule_out option list \<Rightarrow> rule_out list" where
  "printed qs \<equiv> List.map_filter id qs"

lemma mapcalc_loop_results:
  "mapcalc_loop lc legacy wanted dump rules iface n st =
     map_option (\<lambda>qs. (if None \<in> set qs then 1 else st, n + length (printed qs),
         concat (map (\<lambda>(i, q). rule_lines i q) (enumerate (Suc n) (printed qs)))))
       (rule_results lc legacy wanted dump rules iface)"
proof (induction rules arbitrary: iface n st)
  case (Cons a as)
  show ?case
  proof (cases "calc_rule lc legacy wanted dump a iface")
    case (Some q)
    then show ?thesis
      using Cons.IH[of "snd q"]
      by (cases "fst q") (auto simp: map_filter_simps option.map_comp o_def intro!: option.map_cong0)
  qed simp
qed (simp add: map_filter_simps)

text \<open>
  C35. The output of the program as a whole. When it is called with rules, it prints exactly the
  lines of the rules that are not skipped, in the order of the arguments and numbered from 1
  without gaps, then their number; it exits with 0 if no rule was skipped and with 1 otherwise.
\<close>

theorem mapcalc_status:
  "mapcalc_main lc legacy dump (wanted # rule1 # rules) =
     map_option (\<lambda>qs.
         (if None \<in> set qs then 1 else 0,
          concat (map (\<lambda>(i, q). rule_lines i q) (enumerate 1 (printed qs))) @
            [(None, ''RULE_COUNT'', ONum (int (length (printed qs))))]))
       (rule_results lc legacy wanted dump (rule1 # rules) wanted)"
  by (simp add: mapcalc_main_def mapcalc_loop_results option.map_comp o_def split_def del: mapcalc_loop.simps rule_results.simps)

text \<open>
  Too many embedded bits overflow the IPv4 address. A rule with a delegated prefix passes all
  checks of the program although more embedded bits than an IPv4 address has are left beside the
  identifier; copying them then writes behind the variable of the address.
\<close>

theorem mapcalc_embedded_bits_overflow:
  assumes "0 \<le> ru_pdlen r" "32 < ru_ealen r - ru_psidlen r"
  shows "rule_ipv4addr lc r = None"
proof -
  have "32 < nat (ru_ealen r - ru_psidlen r)" using assms(2) by linarith
  then have "\<not> bytes_for (nat (ru_ealen r - ru_psidlen r)) \<le> 4" unfolding bits_for_le by simp
  then have "bmemcpys64 (lc_behind lc) (replicate 4 0) (ru_pd r) (nat (ru_prefix6len r)) (nat (ru_ealen r - ru_psidlen r)) = None"
    by (simp add: bmemcpys64_def bmemcpy_def Let_def)
  then show ?thesis using assms(1) by (simp add: rule_ipv4addr_def)
qed

theorem mapcalc_embedded_bits_overflow_witness:
  "\<not> rule_invalid (rule_init\<lparr>ru_pdlen := 64, ru_prefix6len := 16, ru_ealen := 48, ru_psidlen := 8\<rparr>) \<and>
   rule_ipv4addr libc_ex (rule_init\<lparr>ru_pdlen := 64, ru_prefix6len := 16, ru_ealen := 48, ru_psidlen := 8\<rparr>) = None"
  using mapcalc_embedded_bits_overflow[of "rule_init\<lparr>ru_pdlen := 64, ru_prefix6len := 16, ru_ealen := 48, ru_psidlen := 8\<rparr>" libc_ex]
  by (simp add: rule_invalid_def rule_init_def)

end
