(* ===== verification/Mtd_Hash.thy ===== *)
theory Mtd_Hash
  imports Prelude
begin

unbundle bit_operations_syntax

text \<open>
  The checksums of the flashing tool \<^verbatim>\<open>package/system/mtd/src\<close>: the table driven cyclic
  redundancy check (\<^verbatim>\<open>crc32.c\<close>, \<^verbatim>\<open>crc32.h\<close>) and the message digest MD5 (\<^verbatim>\<open>md5.c\<close>,
  \<^verbatim>\<open>md5.h\<close>) that the image headers carry. Both are shown equal to their definitions on whole
  messages: the check to the bitwise one of the prelude, the digest, which is fed in pieces, to
  the digest of the concatenation.
\<close>

section \<open>The cyclic redundancy check\<close>

definition crc32_table :: "u32 list" where
  "crc32_table = [
     0x00000000, 0x77073096, 0xee0e612c, 0x990951ba, 0x076dc419, 0x706af48f, 0xe963a535, 0x9e6495a3,
     0x0edb8832, 0x79dcb8a4, 0xe0d5e91e, 0x97d2d988, 0x09b64c2b, 0x7eb17cbd, 0xe7b82d07, 0x90bf1d91,
     0x1db71064, 0x6ab020f2, 0xf3b97148, 0x84be41de, 0x1adad47d, 0x6ddde4eb, 0xf4d4b551, 0x83d385c7,
     0x136c9856, 0x646ba8c0, 0xfd62f97a, 0x8a65c9ec, 0x14015c4f, 0x63066cd9, 0xfa0f3d63, 0x8d080df5,
     0x3b6e20c8, 0x4c69105e, 0xd56041e4, 0xa2677172, 0x3c03e4d1, 0x4b04d447, 0xd20d85fd, 0xa50ab56b,
     0x35b5a8fa, 0x42b2986c, 0xdbbbc9d6, 0xacbcf940, 0x32d86ce3, 0x45df5c75, 0xdcd60dcf, 0xabd13d59,
     0x26d930ac, 0x51de003a, 0xc8d75180, 0xbfd06116, 0x21b4f4b5, 0x56b3c423, 0xcfba9599, 0xb8bda50f,
     0x2802b89e, 0x5f058808, 0xc60cd9b2, 0xb10be924, 0x2f6f7c87, 0x58684c11, 0xc1611dab, 0xb6662d3d,
     0x76dc4190, 0x01db7106, 0x98d220bc, 0xefd5102a, 0x71b18589, 0x06b6b51f, 0x9fbfe4a5, 0xe8b8d433,
     0x7807c9a2, 0x0f00f934, 0x9609a88e, 0xe10e9818, 0x7f6a0dbb, 0x086d3d2d, 0x91646c97, 0xe6635c01,
     0x6b6b51f4, 0x1c6c6162, 0x856530d8, 0xf262004e, 0x6c0695ed, 0x1b01a57b, 0x8208f4c1, 0xf50fc457,
     0x65b0d9c6, 0x12b7e950, 0x8bbeb8ea, 0xfcb9887c, 0x62dd1ddf, 0x15da2d49, 0x8cd37cf3, 0xfbd44c65,
     0x4db26158, 0x3ab551ce, 0xa3bc0074, 0xd4bb30e2, 0x4adfa541, 0x3dd895d7, 0xa4d1c46d, 0xd3d6f4fb,
     0x4369e96a, 0x346ed9fc, 0xad678846, 0xda60b8d0, 0x44042d73, 0x33031de5, 0xaa0a4c5f, 0xdd0d7cc9,
     0x5005713c, 0x270241aa, 0xbe0b1010, 0xc90c2086, 0x5768b525, 0x206f85b3, 0xb966d409, 0xce61e49f,
     0x5edef90e, 0x29d9c998, 0xb0d09822, 0xc7d7a8b4, 0x59b33d17, 0x2eb40d81, 0xb7bd5c3b, 0xc0ba6cad,
     0xedb88320, 0x9abfb3b6, 0x03b6e20c, 0x74b1d29a, 0xead54739, 0x9dd277af, 0x04db2615, 0x73dc1683,
     0xe3630b12, 0x94643b84, 0x0d6d6a3e, 0x7a6a5aa8, 0xe40ecf0b, 0x9309ff9d, 0x0a00ae27, 0x7d079eb1,
     0xf00f9344, 0x8708a3d2, 0x1e01f268, 0x6906c2fe, 0xf762575d, 0x806567cb, 0x196c3671, 0x6e6b06e7,
     0xfed41b76, 0x89d32be0, 0x10da7a5a, 0x67dd4acc, 0xf9b9df6f, 0x8ebeeff9, 0x17b7be43, 0x60b08ed5,
     0xd6d6a3e8, 0xa1d1937e, 0x38d8c2c4, 0x4fdff252, 0xd1bb67f1, 0xa6bc5767, 0x3fb506dd, 0x48b2364b,
     0xd80d2bda, 0xaf0a1b4c, 0x36034af6, 0x41047a60, 0xdf60efc3, 0xa867df55, 0x316e8eef, 0x4669be79,
     0xcb61b38c, 0xbc66831a, 0x256fd2a0, 0x5268e236, 0xcc0c7795, 0xbb0b4703, 0x220216b9, 0x5505262f,
     0xc5ba3bbe, 0xb2bd0b28, 0x2bb45a92, 0x5cb36a04, 0xc2d7ffa7, 0xb5d0cf31, 0x2cd99e8b, 0x5bdeae1d,
     0x9b64c2b0, 0xec63f226, 0x756aa39c, 0x026d930a, 0x9c0906a9, 0xeb0e363f, 0x72076785, 0x05005713,
     0x95bf4a82, 0xe2b87a14, 0x7bb12bae, 0x0cb61b38, 0x92d28e9b, 0xe5d5be0d, 0x7cdcefb7, 0x0bdbdf21,
     0x86d3d2d4, 0xf1d4e242, 0x68ddb3f8, 0x1fda836e, 0x81be16cd, 0xf6b9265b, 0x6fb077e1, 0x18b74777,
     0x88085ae6, 0xff0f6a70, 0x66063bca, 0x11010b5c, 0x8f659eff, 0xf862ae69, 0x616bffd3, 0x166ccf45,
     0xa00ae278, 0xd70dd2ee, 0x4e048354, 0x3903b3c2, 0xa7672661, 0xd06016f7, 0x4969474d, 0x3e6e77db,
     0xaed16a4a, 0xd9d65adc, 0x40df0b66, 0x37d83bf0, 0xa9bcae53, 0xdebb9ec5, 0x47b2cf7f, 0x30b5ffe9,
     0xbdbdf21c, 0xcabac28a, 0x53b39330, 0x24b4a3a6, 0xbad03605, 0xcdd70693, 0x54de5729, 0x23d967bf,
     0xb3667a2e, 0xc4614ab8, 0x5d681b02, 0x2a6f2b94, 0xb40bbe37, 0xc30c8ea1, 0x5a05df1b, 0x2d02ef8d]"

fun crc32 :: "u32 \<Rightarrow> bytes \<Rightarrow> u32" where
  "crc32 val [] = val"
| "crc32 val (b # ss) = crc32 (crc32_table ! unat ((val XOR ucast b) AND 0xff) XOR drop_bit 8 val) ss"

definition crc32buf :: "bytes \<Rightarrow> u32" where
  "crc32buf buf = crc32 0xFFFFFFFF buf"

section \<open>The message digest\<close>

text \<open>
  \<^verbatim>\<open>MD5_CTX\<close> without the member \<^verbatim>\<open>digest\<close>, which only holds the result of
  \<^verbatim>\<open>MD5_Final\<close> before it is copied to the caller.
\<close>

record md5_ctx =
  md_i0 :: u32
  md_i1 :: u32
  md_buf :: "u32 list"
  md_in :: bytes

definition PADDING :: bytes where
  "PADDING = 0x80 # replicate 63 0"

definition md5_F :: "u32 \<Rightarrow> u32 \<Rightarrow> u32 \<Rightarrow> u32" where
  "md5_F x y z = (x AND y) OR (NOT x AND z)"

definition md5_G :: "u32 \<Rightarrow> u32 \<Rightarrow> u32 \<Rightarrow> u32" where
  "md5_G x y z = (x AND z) OR (y AND NOT z)"

definition md5_H :: "u32 \<Rightarrow> u32 \<Rightarrow> u32 \<Rightarrow> u32" where
  "md5_H x y z = x XOR y XOR z"

definition md5_I :: "u32 \<Rightarrow> u32 \<Rightarrow> u32 \<Rightarrow> u32" where
  "md5_I x y z = y XOR (x OR NOT z)"

definition ROTATE_LEFT :: "u32 \<Rightarrow> nat \<Rightarrow> u32" where
  "ROTATE_LEFT x n = push_bit n x OR drop_bit (32 - n) x"

text \<open>
  The four macros \<^verbatim>\<open>FF\<close>, \<^verbatim>\<open>GG\<close>, \<^verbatim>\<open>HH\<close>, \<^verbatim>\<open>II\<close> differ in the function only.
  The 64 calls of \<^verbatim>\<open>Transform\<close> are the rows of \<open>md5_steps\<close>: function, index of the input
  word, rotation and constant. The calls name the registers in turn as \<^verbatim>\<open>a b c d\<close>,
  \<^verbatim>\<open>d a b c\<close>, \<^verbatim>\<open>c d a b\<close>, \<^verbatim>\<open>b c d a\<close>, so after each call the register that was
  computed becomes the second and the others move on by one place.
\<close>

definition md5_FF :: "(u32 \<Rightarrow> u32 \<Rightarrow> u32 \<Rightarrow> u32) \<Rightarrow> u32 \<Rightarrow> u32 \<Rightarrow> u32 \<Rightarrow> u32 \<Rightarrow> u32 \<Rightarrow> nat \<Rightarrow> u32 \<Rightarrow> u32" where
  "md5_FF f a b c d x s ac = ROTATE_LEFT (a + (f b c d + x + ac)) s + b"

definition md5_steps :: "((u32 \<Rightarrow> u32 \<Rightarrow> u32 \<Rightarrow> u32) \<times> nat \<times> nat \<times> u32) list" where
  "md5_steps = [
     (md5_F, 0, 7, 3614090360), (md5_F, 1, 12, 3905402710), (md5_F, 2, 17, 606105819), (md5_F, 3, 22, 3250441966),
     (md5_F, 4, 7, 4118548399), (md5_F, 5, 12, 1200080426), (md5_F, 6, 17, 2821735955), (md5_F, 7, 22, 4249261313),
     (md5_F, 8, 7, 1770035416), (md5_F, 9, 12, 2336552879), (md5_F, 10, 17, 4294925233), (md5_F, 11, 22, 2304563134),
     (md5_F, 12, 7, 1804603682), (md5_F, 13, 12, 4254626195), (md5_F, 14, 17, 2792965006), (md5_F, 15, 22, 1236535329),
     (md5_G, 1, 5, 4129170786), (md5_G, 6, 9, 3225465664), (md5_G, 11, 14, 643717713), (md5_G, 0, 20, 3921069994),
     (md5_G, 5, 5, 3593408605), (md5_G, 10, 9, 38016083), (md5_G, 15, 14, 3634488961), (md5_G, 4, 20, 3889429448),
     (md5_G, 9, 5, 568446438), (md5_G, 14, 9, 3275163606), (md5_G, 3, 14, 4107603335), (md5_G, 8, 20, 1163531501),
     (md5_G, 13, 5, 2850285829), (md5_G, 2, 9, 4243563512), (md5_G, 7, 14, 1735328473), (md5_G, 12, 20, 2368359562),
     (md5_H, 5, 4, 4294588738), (md5_H, 8, 11, 2272392833), (md5_H, 11, 16, 1839030562), (md5_H, 14, 23, 4259657740),
     (md5_H, 1, 4, 2763975236), (md5_H, 4, 11, 1272893353), (md5_H, 7, 16, 4139469664), (md5_H, 10, 23, 3200236656),
     (md5_H, 13, 4, 681279174), (md5_H, 0, 11, 3936430074), (md5_H, 3, 16, 3572445317), (md5_H, 6, 23, 76029189),
     (md5_H, 9, 4, 3654602809), (md5_H, 12, 11, 3873151461), (md5_H, 15, 16, 530742520), (md5_H, 2, 23, 3299628645),
     (md5_I, 0, 6, 4096336452), (md5_I, 7, 10, 1126891415), (md5_I, 14, 15, 2878612391), (md5_I, 5, 21, 4237533241),
     (md5_I, 12, 6, 1700485571), (md5_I, 3, 10, 2399980690), (md5_I, 10, 15, 4293915773), (md5_I, 1, 21, 2240044497),
     (md5_I, 8, 6, 1873313359), (md5_I, 15, 10, 4264355552), (md5_I, 6, 15, 2734768916), (md5_I, 13, 21, 1309151649),
     (md5_I, 4, 6, 4149444226), (md5_I, 11, 10, 3174756917), (md5_I, 2, 15, 718787259), (md5_I, 9, 21, 3951481745)]"

fun md5_calls :: "((u32 \<Rightarrow> u32 \<Rightarrow> u32 \<Rightarrow> u32) \<times> nat \<times> nat \<times> u32) list \<Rightarrow> u32 list \<Rightarrow>
    u32 \<times> u32 \<times> u32 \<times> u32 \<Rightarrow> u32 \<times> u32 \<times> u32 \<times> u32" where
  "md5_calls [] inw r = r"
| "md5_calls ((f, k, s, ac) # rest) inw (a, b, c, d) =
     md5_calls rest inw (d, md5_FF f a b c d (inw ! k) s ac, b, c)"

definition Transform :: "u32 list \<Rightarrow> u32 list \<Rightarrow> u32 list" where
  "Transform buf inw =
     (case md5_calls md5_steps inw (buf ! 0, buf ! 1, buf ! 2, buf ! 3) of
        (a, b, c, d) \<Rightarrow> [buf ! 0 + a, buf ! 1 + b, buf ! 2 + c, buf ! 3 + d])"

text \<open>The words of the input buffer, \<open>n\<close> of them (16 in \<^verbatim>\<open>MD5_Update\<close>, 14 in \<^verbatim>\<open>MD5_Final\<close>).\<close>

definition md5_words :: "nat \<Rightarrow> bytes \<Rightarrow> u32 list" where
  "md5_words n bs = map (\<lambda>i. u32_at bs (4 * i)) [0..<n]"

definition MD5_Init :: md5_ctx where
  "MD5_Init = \<lparr>md_i0 = 0, md_i1 = 0, md_buf = [0x67452301, 0xefcdab89, 0x98badcfe, 0x10325476],
     md_in = replicate 64 0\<rparr>"

fun md5_update_loop :: "nat \<Rightarrow> bytes \<Rightarrow> md5_ctx \<Rightarrow> md5_ctx" where
  "md5_update_loop mdi [] c = c"
| "md5_update_loop mdi (b # bs) c =
     (let c1 = c\<lparr>md_in := (md_in c)[mdi := b]\<rparr> in
      if mdi + 1 = 64 then md5_update_loop 0 bs (c1\<lparr>md_buf := Transform (md_buf c1) (md5_words 16 (md_in c1))\<rparr>)
      else md5_update_loop (mdi + 1) bs c1)"

definition md5_mdi :: "md5_ctx \<Rightarrow> nat" where
  "md5_mdi c = unat (drop_bit 3 (md_i0 c) AND 0x3F)"

definition MD5_Update :: "md5_ctx \<Rightarrow> bytes \<Rightarrow> md5_ctx" where
  "MD5_Update c inBuf =
     (let inLen = of_nat (length inBuf);
          c1 = (if md_i0 c + push_bit 3 inLen < md_i0 c then c\<lparr>md_i1 := md_i1 c + 1\<rparr> else c);
          c2 = c1\<lparr>md_i0 := md_i0 c1 + push_bit 3 inLen, md_i1 := md_i1 c1 + drop_bit 29 inLen\<rparr> in
      md5_update_loop (md5_mdi c) inBuf c2)"

definition MD5_Final :: "md5_ctx \<Rightarrow> bytes" where
  "MD5_Final c =
     (let mdi = md5_mdi c;
          padLen = (if mdi < 56 then 56 - mdi else 120 - mdi);
          c1 = MD5_Update c (take padLen PADDING);
          buf = Transform (md_buf c1) (md5_words 14 (md_in c1) @ [md_i0 c, md_i1 c]) in
      concat (map le32 buf))"

lemma crc32_step_xor: "crc32_step (a XOR b) = crc32_step a XOR crc32_step b"
proof -
  have "drop_bit 1 (a XOR b) = drop_bit 1 a XOR drop_bit 1 b"
    by (intro bit_word_eqI) (auto simp: bit_simps)
  then show ?thesis
    by (auto simp: crc32_step_def even_xor_iff xor.assoc xor.left_commute xor.commute)
qed

lemma crc32_steps_xor: "(crc32_step ^^ n) (a XOR b) = (crc32_step ^^ n) a XOR (crc32_step ^^ n) b"
  by (induction n) (simp_all add: crc32_step_xor)

lemma crc32_steps_shift: "take_bit n v = 0 \<Longrightarrow> (crc32_step ^^ n) v = drop_bit n v"
proof (induction n arbitrary: v)
  case (Suc n)
  have "even v" using Suc.prems by (metis even_take_bit_eq dvd_0_right old.nat.distinct(2))
  then have s: "crc32_step v = drop_bit 1 v" by (simp add: crc32_step_def)
  have "take_bit n (drop_bit 1 v) = 0"
    using Suc.prems by (metis drop_bit_take_bit Suc_eq_plus1 diff_Suc_1 drop_bit_of_0 One_nat_def)
  from Suc.IH[OF this] have "(crc32_step ^^ n) (crc32_step v) = drop_bit (Suc n) v"
    by (simp add: s drop_bit_drop_bit)
  then show ?case by (simp add: funpow_swap1)
qed simp

lemma crc32_step8:
  "(crc32_step ^^ 8) v = crc32_step (crc32_step (crc32_step (crc32_step (crc32_step (crc32_step
     (crc32_step (crc32_step v)))))))"
  by (simp add: eval_nat_numeral)

lemma ff_mask: "(0xff :: u32) = mask 8"
  by (simp add: mask_eq_exp_minus_1)

lemma crc32_basis:
  "map (\<lambda>k. (crc32_step ^^ 8) (ucast (of_nat (2 ^ k) :: u8))) (rev [0..<8]) =
     [0xedb88320, 0x76dc4190, 0x3b6e20c8, 0x1db71064, 0x0edb8832, 0x076dc419, 0xee0e612c, 0x77073096]"
  by (simp add: crc32_step8 crc32_step_def upt_rec numeral_2_eq_2[symmetric])

lemma crc32_table_span: "crc32_table = xor_span
     [0xedb88320, 0x76dc4190, 0x3b6e20c8, 0x1db71064, 0x0edb8832, 0x076dc419, 0xee0e612c, 0x77073096]"
  by (simp add: crc32_table_def Let_def)

lemma crc32_table_correct: "crc32_table ! unat (b :: u8) = (crc32_step ^^ 8) (ucast b)"
proof -
  have l: "(crc32_step ^^ 8) (ucast (a XOR c)) = (crc32_step ^^ 8) (ucast a) XOR (crc32_step ^^ 8) (ucast c)" for a c :: u8
  proof -
    have "(ucast (a XOR c) :: u32) = ucast a XOR ucast c" by (intro bit_word_eqI) (auto simp: bit_simps)
    then show ?thesis by (simp add: crc32_steps_xor)
  qed
  have "unat b < 2 ^ LENGTH(8)" by (rule unsigned_less)
  then have "unat b < 2 ^ 8" by simp
  from xor_span_linear[of "\<lambda>b :: u8. (crc32_step ^^ 8) (ucast b)", OF l _ this] show ?thesis
    unfolding crc32_table_span crc32_basis by simp
qed

lemma crc32_table_step:
  "crc32_table ! unat (v AND 0xff) XOR drop_bit 8 v = (crc32_step ^^ 8) v"
proof -
  have lo: "v AND 0xff = ucast (ucast v :: u8)"
    by (intro bit_word_eqI) (auto simp: bit_simps ff_mask)
  have "unat (v AND 0xff) = unat (ucast v :: u8)"
    unfolding lo by (simp add: unsigned_ucast_eq unsigned_take_bit_eq)
  then have "crc32_table ! unat (v AND 0xff) = (crc32_step ^^ 8) (v AND 0xff)"
    by (simp only: crc32_table_correct lo)
  moreover have "(crc32_step ^^ 8) (v AND NOT 0xff) = drop_bit 8 v"
  proof -
    have "take_bit 8 (v AND NOT 0xff) = 0" "drop_bit 8 (v AND NOT 0xff) = drop_bit 8 v"
      by (intro bit_word_eqI; auto simp: bit_simps ff_mask dest: bit_imp_le_length)+
    then show ?thesis using crc32_steps_shift[of 8 "v AND NOT 0xff"] by simp
  qed
  moreover have "v = (v AND 0xff) XOR (v AND NOT 0xff)"
    by (intro bit_word_eqI) (auto simp: bit_simps)
  ultimately show ?thesis by (metis crc32_steps_xor)
qed

lemma crc32_eq_ref: "crc32 v bs = crc32_ref v bs"
proof (induction bs arbitrary: v)
  case (Cons b bs)
  have "drop_bit 8 v = drop_bit 8 (v XOR ucast b)"
    by (intro bit_word_eqI) (auto simp: bit_simps dest: bit_imp_le_length)
  then show ?case using Cons crc32_table_step[of "v XOR ucast b"] by (simp add: crc32_ref_def)
qed (simp add: crc32_ref_def)

section \<open>The digest of a message fed in pieces\<close>

text \<open>
  The digest of a whole message: the message is padded to a multiple of 64 bytes with one bit,
  zeros and its length in bits, and the blocks are transformed in order.
\<close>

definition md5_block :: "bytes \<Rightarrow> nat \<Rightarrow> u32 list" where
  "md5_block m i = md5_words 16 (take 64 (drop (64 * i) m))"

definition md5_run :: "bytes \<Rightarrow> u32 list" where
  "md5_run m = fold (\<lambda>i buf. Transform buf (md5_block m i)) [0..<length m div 64] (md_buf MD5_Init)"

definition md5_pad :: "bytes \<Rightarrow> bytes" where
  "md5_pad m = m @ 0x80 # replicate ((119 - length m mod 64) mod 64) 0 @
     le32 (of_nat (8 * length m)) @ le32 (of_nat (8 * length m div 2 ^ 32))"

definition md5_ref :: "bytes \<Rightarrow> bytes" where
  "md5_ref m = concat (map le32 (md5_run (md5_pad m)))"

text \<open>\<open>md5_holds c m\<close>: the context \<open>c\<close> has consumed the message \<open>m\<close>.\<close>

definition md5_data :: "md5_ctx \<Rightarrow> bytes \<Rightarrow> bool" where
  "md5_data c m \<longleftrightarrow> length (md_in c) = 64 \<and> md_buf c = md5_run m \<and>
     take (length m mod 64) (md_in c) = drop (64 * (length m div 64)) m"

definition md5_holds :: "md5_ctx \<Rightarrow> bytes \<Rightarrow> bool" where
  "md5_holds c m \<longleftrightarrow> md5_data c m \<and> md_i0 c = of_nat (8 * length m) \<and> md_i1 c = of_nat (8 * length m div 2 ^ 32)"

lemma md5_block_append: "64 * Suc i \<le> length m \<Longrightarrow> md5_block (m @ xs) i = md5_block m i"
  by (simp add: md5_block_def)

lemma md5_run_append_short:
  assumes "(length m + length xs) div 64 = length m div 64"
  shows "md5_run (m @ xs) = md5_run m"
proof -
  have "fold (\<lambda>i buf. Transform buf (md5_block (m @ xs) i)) [0..<length m div 64] b =
        fold (\<lambda>i buf. Transform buf (md5_block m i)) [0..<length m div 64] b" for b
    by (intro fold_cong refl) (auto simp: md5_block_append fun_eq_iff)
  then show ?thesis using assms by (simp add: md5_run_def)
qed

lemma md5_run_append_block:
  assumes "length m mod 64 + length xs = 64"
  shows "md5_run (m @ xs) = Transform (md5_run m) (md5_words 16 (drop (64 * (length m div 64)) m @ xs))"
proof -
  let ?k = "length m div 64"
  have k: "length m = 64 * ?k + length m mod 64" by simp
  then have "length (m @ xs) = 64 * Suc ?k" using assms by (simp only: length_append mult_Suc_right)
  then have d: "(length m + length xs) div 64 = Suc ?k" by simp
  have "fold (\<lambda>i buf. Transform buf (md5_block (m @ xs) i)) [0..<?k] b =
        fold (\<lambda>i buf. Transform buf (md5_block m i)) [0..<?k] b" for b
    by (intro fold_cong refl) (auto simp: md5_block_append fun_eq_iff)
  moreover have "length (drop (64 * ?k) m @ xs) = 64" using assms k by (simp add: minus_mult_div_eq_mod)
  then have "md5_block (m @ xs) ?k = md5_words 16 (drop (64 * ?k) m @ xs)"
    using k by (simp add: md5_block_def)
  ultimately show ?thesis by (simp add: md5_run_def d)
qed

lemma md5_update_loop_data:
  "md5_data c m \<Longrightarrow> md5_data (md5_update_loop (length m mod 64) bs c) (m @ bs)"
proof (induction bs arbitrary: c m)
  case (Cons b bs)
  let ?i = "length m mod 64" and ?t = "drop (64 * (length m div 64)) m"
  let ?in = "(md_in c)[?i := b]"
  from Cons.prems have len: "length (md_in c) = 64" and buf: "md_buf c = md5_run m"
    and tk: "take ?i (md_in c) = ?t" by (auto simp: md5_data_def)
  have i64: "?i < 64" by simp
  have pre: "take (Suc ?i) ?in = ?t @ [b]"
    using len i64 tk by (simp add: take_Suc_conv_app_nth)
  show ?case
  proof (cases "Suc ?i = 64")
    case True
    then have "length m mod 64 = 63" by simp
    from True have mm: "length (m @ [b]) mod 64 = 0" by (simp add: mod_Suc)
    have full: "?in = ?t @ [b]" using pre True len by simp
    have d: "Suc (length m) = 64 * (length (m @ [b]) div 64)" using mm by (metis length_append_singleton mult_div_mod_eq add_0_right)
    have "md5_run (m @ [b]) = Transform (md5_run m) (md5_words 16 (?t @ [b]))"
      using True by (intro md5_run_append_block) (simp only: length_Cons list.size add_Suc_right add_0_right)
    then have "md5_data (c\<lparr>md_in := ?in, md_buf := Transform (md_buf c) (md5_words 16 ?in)\<rparr>) (m @ [b])"
      unfolding md5_data_def mm d[symmetric] using len buf full
      by (simp add: minus_mult_div_eq_mod \<open>length m mod 64 = 63\<close>)
    from Cons.IH[OF this] show ?thesis
      unfolding mm using True by (simp del: mod_Suc)
  next
    case False
    then have mm: "length (m @ [b]) mod 64 = Suc ?i" and dd: "(length m + 1) div 64 = length m div 64"
      using i64 by (simp_all add: mod_Suc div_Suc)
    have "md5_data (c\<lparr>md_in := ?in\<rparr>) (m @ [b])"
      using len buf pre mm dd md5_run_append_short[of m "[b]"] by (simp add: md5_data_def)
    from Cons.IH[OF this] show ?thesis
      unfolding mm using False by (simp add: Let_def)
  qed
qed simp

lemma md5_mdi_count:
  assumes "md_i0 c = of_nat (8 * n)"
  shows "md5_mdi c = n mod 64"
proof -
  have m: "(0x3F :: u32) = mask 6" by (simp add: mask_eq_exp_minus_1)
  have u: "unat (md_i0 c) = 8 * (n mod 2 ^ 29)"
    unfolding assms using mod_mult_mult1[of 8 n "2 ^ 29"] by (simp only: unat_of_nat) simp
  have "md5_mdi c = take_bit 6 (drop_bit 3 (unat (md_i0 c)))"
    unfolding md5_mdi_def m take_bit_eq_mask[symmetric]
    using take_bit_nat_eq_self[of "unat (md_i0 c)" 32] unsigned_less[of "md_i0 c", where ?'a = nat]
    by (simp add: unsigned_take_bit_eq unsigned_drop_bit_eq)
  also have "\<dots> = n mod 2 ^ 29 mod 64" unfolding u by (simp add: take_bit_eq_mod drop_bit_eq_div)
  also have "\<dots> = n mod 64" by (rule mod_mod_cancel) simp
  finally show ?thesis .
qed

lemma div_add_carry:
  assumes "0 < (N::nat)"
  shows "(x + y) div N = x div N + y div N + (if x mod N + y mod N \<ge> N then 1 else 0)"
proof -
  have lt: "x mod N < N" "y mod N < N" using assms by simp_all
  have "(x mod N + y mod N) div N = (if x mod N + y mod N \<ge> N then 1 else 0)"
  proof (cases "x mod N + y mod N \<ge> N")
    case True
    have "x mod N + y mod N < N + N" using lt by (rule add_strict_mono)
    then have "(x mod N + y mod N) div N = 1" using True by (intro div_nat_eqI) simp_all
    then show ?thesis using True by simp
  qed (simp add: div_less)
  then show ?thesis using div_add1_eq[of x y N] by simp
qed

lemma mod_add_carry:
  assumes "x < (N::nat)" "y < N"
  shows "(x + y) mod N < x \<longleftrightarrow> x + y \<ge> N"
proof (cases "x + y \<ge> N")
  case True
  then have "(x + y) mod N = x + y - N" using assms by (simp add: le_mod_geq mod_less)
  then show ?thesis using True assms by simp
qed simp

lemma md5_push: "push_bit 3 (of_nat l :: u32) = of_nat (8 * l)"
  by (simp add: push_bit_eq_mult mult.commute)

lemma md5_count_carry:
  "(of_nat (8 * n) + of_nat (8 * l) < (of_nat (8 * n) :: u32)) \<longleftrightarrow>
     (8 * n) mod 2 ^ 32 + (8 * l) mod 2 ^ 32 \<ge> 2 ^ 32"
proof -
  have "(8 * n) mod 2 ^ 32 < (2 ^ 32 :: nat)" "(8 * l) mod 2 ^ 32 < (2 ^ 32 :: nat)" by simp_all
  from mod_add_carry[OF this] show ?thesis
    unfolding of_nat_add[symmetric] word_less_nat_alt unat_of_nat mod_add_eq by simp
qed

lemma md5_high: "l < 2 ^ 32 \<Longrightarrow> drop_bit 29 (of_nat l :: u32) = of_nat (8 * l div 2 ^ 32)"
proof -
  assume l: "l < 2 ^ 32"
  have "unat (drop_bit 29 (of_nat l :: u32)) = l div 2 ^ 29"
    using l take_bit_nat_eq_self[of l 32]
    by (simp del: drop_bit_of_nat add: unsigned_drop_bit_eq unsigned_of_nat drop_bit_eq_div[of 29 l])
  moreover have "8 * l div 2 ^ 32 = l div 2 ^ 29"
    using div_mult_mult1[of 8 l "2 ^ 29"] by simp
  ultimately have "(of_nat (unat (drop_bit 29 (of_nat l :: u32))) :: u32) = of_nat (8 * l div 2 ^ 32)" by simp
  then show ?thesis by (simp only: of_nat_unat ucast_id)
qed

lemma md5_update_counts:
  "md_i0 (md5_update_loop k xs c) = md_i0 c" "md_i1 (md5_update_loop k xs c) = md_i1 c"
  by (induction k xs c rule: md5_update_loop.induct) (simp_all add: Let_def)

lemma md5_update_holds:
  assumes "md5_holds c m" "length bs < 2 ^ 32"
  shows "md5_holds (MD5_Update c bs) (m @ bs)"
proof -
  let ?n = "length m" and ?l = "length bs"
  have i0: "md_i0 c = of_nat (8 * ?n)" and i1: "md_i1 c = of_nat (8 * ?n div 2 ^ 32)" and d: "md5_data c m"
    using assms(1) by (auto simp: md5_holds_def)
  define carry :: nat where "carry = (if (8 * ?n) mod 2 ^ 32 + (8 * ?l) mod 2 ^ 32 \<ge> 2 ^ 32 then 1 else 0)"
  define c2 where "c2 = c\<lparr>md_i0 := of_nat (8 * ?n) + of_nat (8 * ?l),
    md_i1 := of_nat (8 * ?n div 2 ^ 32) + of_nat carry + of_nat (8 * ?l div 2 ^ 32)\<rparr>"
  have u: "MD5_Update c bs = md5_update_loop (?n mod 64) bs c2"
    unfolding MD5_Update_def Let_def md5_push md5_high[OF assms(2)] md5_mdi_count[OF i0] i0 md5_count_carry
    by (simp add: c2_def carry_def i0 i1)
  have "md5_data c2 m" using d by (simp add: md5_data_def c2_def)
  then have "md5_data (MD5_Update c bs) (m @ bs)" unfolding u by (rule md5_update_loop_data)
  moreover have "8 * length (m @ bs) div 2 ^ 32 = 8 * ?n div 2 ^ 32 + carry + 8 * ?l div 2 ^ 32"
    using div_add_carry[of "2 ^ 32" "8 * ?n" "8 * ?l"] by (simp only: carry_def length_append distrib_left) simp
  ultimately show ?thesis
    unfolding md5_holds_def u md5_update_counts by (simp add: c2_def distrib_left)
qed

lemma md5_init_holds: "md5_holds MD5_Init []"
  by (simp add: md5_holds_def md5_data_def MD5_Init_def md5_run_def)

lemma md5_words_append: "length bs = 4 * n \<Longrightarrow> md5_words (n + k) (bs @ xs) = md5_words n bs @ md5_words k xs"
proof -
  assume l: "length bs = 4 * n"
  have a: "u32_at (bs @ xs) (4 * i) = u32_at bs (4 * i)" if "i < n" for i
    using that l by (simp add: u32_at_def byte_at_def nth_append)
  have b: "u32_at (bs @ xs) (4 * (n + i)) = u32_at xs (4 * i)" for i
    using l by (simp add: u32_at_def byte_at_def nth_append add.assoc)
  have "[0..<n + k] = [0..<n] @ map (\<lambda>i. n + i) [0..<k]"
    by (rule nth_equalityI) (auto simp: nth_append)
  then show ?thesis using a b by (simp add: md5_words_def)
qed

lemma md5_words_le32: "md5_words 2 (le32 a @ le32 b) = [a, b]"
  by (simp add: md5_words_def upt_rec numeral_2_eq_2 u32_at_def byte_at_def le32_def u32_of4_le32)

lemma md5_words_take: "md5_words n (take (4 * n + k) bs) = md5_words n bs"
  by (auto simp: md5_words_def u32_at_def byte_at_def)

lemma md5_final_holds:
  assumes "md5_holds c m"
  shows "MD5_Final c = md5_ref m"
proof -
  let ?n = "length m" let ?r = "?n mod 64"
  define p where "p = (if ?r < 56 then 56 - ?r else 120 - ?r)"
  define z :: bytes where "z = take p PADDING"
  have r: "?r < 64" by simp
  have p: "0 < p" "p \<le> 64" "p - 1 = (119 - ?r) mod 64" 
  proof -
    show "0 < p" "p \<le> 64" using r by (auto simp: p_def)
    show "p - 1 = (119 - ?r) mod 64"
    proof (cases "?r < 56")
      case True
      then have "119 - ?r = (55 - ?r) + 64" by simp
      then show ?thesis using True by (simp only: mod_add_self2 p_def) simp
    qed (use r in \<open>simp add: p_def\<close>)
  qed
  have z: "z = 0x80 # replicate ((119 - ?r) mod 64) 0"
    using p by (simp add: z_def PADDING_def take_Cons' min_def flip: p(3))
  have i0: "md_i0 c = of_nat (8 * ?n)" and i1: "md_i1 c = of_nat (8 * ?n div 2 ^ 32)"
    using assms by (auto simp: md5_holds_def)
  have lz: "length z = p" using p(1) by (simp add: z flip: p(3))
  have "(?n + p) mod 64 = (?r + p) mod 64" by (simp add: mod_add_left_eq)
  also have "?r + p = 56 \<or> ?r + p = 120" using r by (auto simp: p_def)
  then have "(?r + p) mod 64 = 56" by auto
  finally have r1: "length (m @ z) mod 64 = 56" by (simp add: lz)
  define c1 where "c1 = MD5_Update c z"
  have "md5_holds c1 (m @ z)"
    unfolding c1_def using assms p(2) lz by (intro md5_update_holds) auto
  then have buf: "md_buf c1 = md5_run (m @ z)" and tl: "take 56 (md_in c1) = drop (64 * (length (m @ z) div 64)) (m @ z)"
    and li: "length (md_in c1) = 64"
    unfolding md5_holds_def md5_data_def r1 by simp_all
  let ?cnt = "le32 (md_i0 c) @ le32 (md_i1 c)"
  have "md5_words 16 (take 56 (md_in c1) @ ?cnt) = md5_words 14 (md_in c1) @ [md_i0 c, md_i1 c]"
    using md5_words_append[of "take 56 (md_in c1)" 14 2 ?cnt] li md5_words_take[of 14 0 "md_in c1"]
    by (simp add: md5_words_le32)
  then have "md5_run ((m @ z) @ ?cnt) = Transform (md_buf c1) (md5_words 14 (md_in c1) @ [md_i0 c, md_i1 c])"
    using md5_run_append_block[of "m @ z" ?cnt] r1 by (simp add: buf tl)
  moreover have "md5_pad m = (m @ z) @ ?cnt"
    by (simp add: md5_pad_def z i0 i1)
  ultimately show ?thesis
    unfolding MD5_Final_def Let_def md5_mdi_count[OF i0] md5_ref_def
    by (simp add: c1_def z_def p_def)
qed

section \<open>Properties\<close>

text \<open>
  C39. The table driven check. For every register value and every message, the check computed
  with the table equals the check computed bit by bit from the polynomial, and a message may
  be checked in two parts.
\<close>

theorem crc32_is_bitwise:
  "crc32 v bs = crc32_ref v bs \<and> crc32 v (bs @ bs') = crc32 (crc32 v bs) bs'"
  unfolding crc32_eq_ref by (simp add: crc32_ref_def)

text \<open>
  C40. The message digest of data fed in pieces. However a message is cut into pieces shorter
  than 4 GiB, the digest the context yields is the digest of the whole message: its blocks of
  64 bytes transformed in order, after padding with one bit, zeros and the length in bits, with
  the carry of the bit counter into its upper half.
\<close>

theorem md5_streaming:
  assumes "\<forall>bs \<in> set pieces. length bs < 2 ^ 32"
  shows "MD5_Final (fold (\<lambda>bs c. MD5_Update c bs) pieces MD5_Init) = md5_ref (concat pieces)"
proof -
  have "md5_holds (fold (\<lambda>bs c. MD5_Update c bs) ps c) (m @ concat ps)"
    if "md5_holds c m" "\<forall>bs \<in> set ps. length bs < 2 ^ 32" for ps c m
    using that
  proof (induction ps arbitrary: c m)
    case (Cons p ps)
    then show ?case using Cons.IH[of "MD5_Update c p" "m @ p"] md5_update_holds[of c m p] by simp
  qed simp
  from this[OF md5_init_holds assms] show ?thesis by (intro md5_final_holds) simp
qed

lemma md5_empty: "MD5_Final MD5_Init = [0xd4, 0x1d, 0x8c, 0xd9, 0x8f, 0x00, 0xb2, 0x04,
    0xe9, 0x80, 0x09, 0x98, 0xec, 0xf8, 0x42, 0x7e]"
  by code_simp

theorem md5_streaming_witness:
  "MD5_Final (MD5_Update (MD5_Update MD5_Init [0x61]) [0x62, 0x63]) = md5_ref [0x61, 0x62, 0x63] \<and>
   md5_ref [] = [0xd4, 0x1d, 0x8c, 0xd9, 0x8f, 0x00, 0xb2, 0x04, 0xe9, 0x80, 0x09, 0x98, 0xec, 0xf8, 0x42, 0x7e]"
  using md5_streaming[of "[[0x61], [0x62, 0x63]]"] md5_streaming[of "[]"] md5_empty by simp

end
