(* ===== verification/Mtd_Tool.thy ===== *)
theory Mtd_Tool
  imports Mtd_Hash
begin

text \<open>
  The flashing tool \<^verbatim>\<open>mtd\<close> (\<^verbatim>\<open>package/system/mtd/src/mtd.c\<close>): opening of partitions, the
  primitives on erase blocks, and the commands that do not write an image: unlock, erase, dump
  and verify.

  The kernel is a parameter, the record \<open>mtd_sys\<close>: the lines of \<^verbatim>\<open>/proc/mtd\<close>, the device
  nodes, the regular files, and the operations of an MTD device on its state \<open>'d\<close>. A device is
  named by its number; an open file is a device and a position, and the descriptor is its index
  in the list of the files opened so far. The file positions and the offsets are computed here
  as the system calls define them.

  A run of a function ends in one of four ways: it returns, the process exits, it touches
  memory outside an allocated buffer, or the steps allowed to its loops are used up. The host is
  taken to be little endian with 32 bit \<^verbatim>\<open>int\<close>. Messages and the status display are left out,
  and so is the closing of descriptors.
\<close>

section \<open>Runs\<close>

datatype 'a run = Ret 'a | Exit | Fault | Spin

type_synonym ('s, 'a) prog = "'s \<Rightarrow> 'a run \<times> 's"

definition mret :: "'a \<Rightarrow> ('s, 'a) prog" where
  "mret x s = (Ret x, s)"

definition mbind :: "('s, 'a) prog \<Rightarrow> ('a \<Rightarrow> ('s, 'b) prog) \<Rightarrow> ('s, 'b) prog" where
  "mbind p f s = (case p s of (Ret x, t) \<Rightarrow> f x t | (Exit, t) \<Rightarrow> (Exit, t) | (Fault, t) \<Rightarrow> (Fault, t)
     | (Spin, t) \<Rightarrow> (Spin, t))"

definition mseq :: "('s, 'a) prog \<Rightarrow> ('s, 'b) prog \<Rightarrow> ('s, 'b) prog" where
  "mseq p q = mbind p (\<lambda>_. q)"

definition mexit :: "('s, 'a) prog" where
  "mexit s = (Exit, s)"

definition mfault :: "('s, 'a) prog" where
  "mfault s = (Fault, s)"

definition mspin :: "('s, 'a) prog" where
  "mspin s = (Spin, s)"

definition mupd :: "('s \<Rightarrow> 's) \<Rightarrow> ('s, unit) prog" where
  "mupd f s = (Ret (), f s)"

definition mget :: "('s \<Rightarrow> 'a) \<Rightarrow> ('s, 'a) prog" where
  "mget f s = (Ret (f s), s)"

definition massert :: "bool \<Rightarrow> ('s, unit) prog" where
  "massert b = (if b then mret () else mfault)"

section \<open>The kernel\<close>

record mtd_info_user =
  mi_type :: nat
  mi_size :: nat
  mi_erasesize :: nat
  mi_writesize :: nat

text \<open>The outcome of \<^verbatim>\<open>read\<close>: data (none at the end of the file), an interrupted call, an error.\<close>

datatype rd_ev = RdData bytes | RdIntr | RdErr

record file_meta =
  st_mode :: u32
  st_atime :: u32
  st_mtime :: u32
  st_ctime :: u32

record 'd mtd_sys =
  sy_proc :: "string list option"
  sy_open :: "string \<Rightarrow> bool \<Rightarrow> nat option"
  sy_file :: "string \<Rightarrow> (bytes \<times> file_meta) option"
  sy_md5 :: "bytes \<Rightarrow> bytes"
  sy_getinfo :: "'d \<Rightarrow> mtd_info_user option"
  sy_isbad :: "'d \<Rightarrow> int \<Rightarrow> int"
  sy_unlock :: "'d \<Rightarrow> nat \<Rightarrow> nat \<Rightarrow> 'd"
  sy_erase :: "'d \<Rightarrow> nat \<Rightarrow> nat \<Rightarrow> int \<times> 'd"
  sy_read :: "'d \<Rightarrow> nat \<Rightarrow> nat \<Rightarrow> rd_ev \<times> 'd"
  sy_write :: "'d \<Rightarrow> nat \<Rightarrow> bytes \<Rightarrow> int \<times> 'd"
  sy_seek :: "'d \<Rightarrow> int \<Rightarrow> bool"
  sy_mmap :: "'d \<Rightarrow> nat \<Rightarrow> bytes option"
  sy_msync :: "'d \<Rightarrow> nat \<Rightarrow> bytes \<Rightarrow> 'd"

definition MTD_NANDFLASH :: nat where
  "MTD_NANDFLASH = 4"

section \<open>State\<close>

datatype mtd_image_format = FMT_UNKNOWN | FMT_TRX | FMT_SEAMA | FMT_WRG | FMT_WRGG03

text \<open>
  The global variables of \<^verbatim>\<open>mtd.c\<close> and, with prefix \<open>j_\<close>, the static ones of
  \<^verbatim>\<open>jffs2.c\<close>, with what the process sees of the outside: the devices, the files it opened,
  what it wrote to the standard output and what is left of the image. Those that only the
  command line sets are in \<open>mtd_opts\<close>, with the functions that the build for a target links
  (\<^verbatim>\<open>__attribute__ ((weak))\<close>).
\<close>

record 'd mt =
  devs :: "nat \<Rightarrow> 'd"
  fds :: "(nat \<times> nat) list"
  stdout_bytes :: bytes
  img_left :: "rd_ev list"
  mbuf :: "bytes option"
  buflen :: nat
  mtdsize :: int
  erasesize :: int
  mtdtype :: nat
  imageformat :: mtd_image_format
  jffs2file :: "string option"
  j_last_ino :: int
  j_last_version :: int
  j_buf :: bytes
  j_ofs :: int
  j_outfd :: nat
  j_mtdofs :: int
  j_target_ino :: int

record mtd_opts =
  no_erase :: bool
  jffs2_skip_bytes :: int
  jffs2dir :: string
  opt_trxmagic :: u32
  tpl_uboot_args_part :: "string option"
  lk_trx :: bool
  lk_seama :: bool
  lk_wrg :: bool
  lk_wrgg :: bool
  lk_tpl :: bool
  lk_resetbc :: bool
  target_brcm :: bool

text \<open>Access to an open device; \<open>on_dev\<close> applies an operation of the kernel to its state.\<close>

definition fd_dev :: "'d mt \<Rightarrow> nat \<Rightarrow> nat" where
  "fd_dev s fd = fst (fds s ! fd)"

definition fd_pos :: "'d mt \<Rightarrow> nat \<Rightarrow> nat" where
  "fd_pos s fd = snd (fds s ! fd)"

definition set_pos :: "nat \<Rightarrow> nat \<Rightarrow> 'd mt \<Rightarrow> 'd mt" where
  "set_pos fd p s = s\<lparr>fds := (fds s)[fd := (fd_dev s fd, p)]\<rparr>"

definition on_dev :: "nat \<Rightarrow> ('d \<Rightarrow> 'a \<times> 'd) \<Rightarrow> ('d mt, 'a) prog" where
  "on_dev fd f s =
     (let i = fd_dev s fd; r = f (devs s i) in (Ret (fst r), s\<lparr>devs := (devs s)(i := snd r)\<rparr>))"

text \<open>
  The system calls: \<^verbatim>\<open>lseek\<close> to a position the device accepts, \<^verbatim>\<open>read\<close> and \<^verbatim>\<open>write\<close>
  at the position of the file, \<^verbatim>\<open>pread\<close> and \<^verbatim>\<open>pwrite\<close> at a given one. A negative result
  of a write stands for the result \<^verbatim>\<open>-1\<close> with its error number.
\<close>

definition sys_lseek :: "'d mtd_sys \<Rightarrow> nat \<Rightarrow> int \<Rightarrow> ('d mt, bool) prog" where
  "sys_lseek k fd p s =
     (if 0 \<le> p \<and> sy_seek k (devs s (fd_dev s fd)) p then (Ret True, set_pos fd (nat p) s) else (Ret False, s))"

definition sys_read :: "'d mtd_sys \<Rightarrow> nat \<Rightarrow> nat \<Rightarrow> ('d mt, rd_ev) prog" where
  "sys_read k fd n s =
     (let p = fd_pos s fd in
      mbind (on_dev fd (\<lambda>d. sy_read k d p n)) (\<lambda>r.
        case r of RdData bs \<Rightarrow> mseq (mupd (set_pos fd (p + length bs))) (mret r) | _ \<Rightarrow> mret r) s)"

definition sys_write :: "'d mtd_sys \<Rightarrow> nat \<Rightarrow> bytes \<Rightarrow> ('d mt, int) prog" where
  "sys_write k fd bs s =
     (let p = fd_pos s fd in
      mbind (on_dev fd (\<lambda>d. sy_write k d p bs)) (\<lambda>r.
        if 0 \<le> r then mseq (mupd (set_pos fd (p + nat r))) (mret r) else mret r) s)"

definition sys_pread :: "'d mtd_sys \<Rightarrow> nat \<Rightarrow> nat \<Rightarrow> nat \<Rightarrow> ('d mt, rd_ev) prog" where
  "sys_pread k fd n p = on_dev fd (\<lambda>d. sy_read k d p n)"

definition sys_pwrite :: "'d mtd_sys \<Rightarrow> nat \<Rightarrow> bytes \<Rightarrow> nat \<Rightarrow> ('d mt, int) prog" where
  "sys_pwrite k fd bs p = on_dev fd (\<lambda>d. sy_write k d p bs)"

section \<open>Opening a partition\<close>

fun contains :: "string \<Rightarrow> string \<Rightarrow> bool" where
  "contains [] pat = (pat = [])"
| "contains (c # cs) pat = (take (length pat) (c # cs) = pat \<or> contains cs pat)"

definition is_digit :: "char \<Rightarrow> bool" where
  "is_digit c \<longleftrightarrow> 48 \<le> (of_char c :: nat) \<and> (of_char c :: nat) \<le> 57"

definition digits_value :: "string \<Rightarrow> nat" where
  "digits_value ds = fold (\<lambda>c n. 10 * n + (of_char c - 48)) ds 0"

text \<open>\<^verbatim>\<open>sscanf(dev, "mtd%d:", &i)\<close> on a line of \<^verbatim>\<open>/proc/mtd\<close>, which starts without blanks.\<close>

definition scan_mtd :: "string \<Rightarrow> nat option" where
  "scan_mtd line =
     (let ds = takeWhile is_digit (drop 3 line) in
      if take 3 line = ''mtd'' \<and> ds \<noteq> [] then Some (digits_value ds) else None)"

fun decimal :: "nat \<Rightarrow> string" where
  "decimal n = (if n < 10 then [char_of (48 + n)] else decimal (n div 10) @ [char_of (48 + n mod 10)])"

declare decimal.simps [simp del]

definition alloc_fd :: "nat \<Rightarrow> ('d mt, nat option) prog" where
  "alloc_fd dev s = (Ret (Some (length (fds s))), s\<lparr>fds := fds s @ [(dev, 0)]\<rparr>)"

definition open_path :: "'d mtd_sys \<Rightarrow> string \<Rightarrow> bool \<Rightarrow> ('d mt, nat option) prog" where
  "open_path k path write_mode = (case sy_open k path write_mode of None \<Rightarrow> mret None | Some dev \<Rightarrow> alloc_fd dev)"

fun find_line :: "string \<Rightarrow> string list \<Rightarrow> nat option" where
  "find_line name [] = None"
| "find_line name (dev # rest) =
     (case scan_mtd dev of Some i \<Rightarrow> if contains dev name then Some i else find_line name rest
      | None \<Rightarrow> find_line name rest)"

definition mtd_open :: "'d mtd_sys \<Rightarrow> string \<Rightarrow> bool \<Rightarrow> bool \<Rightarrow> ('d mt, nat option) prog" where
  "mtd_open k mtd block write_mode =
     (let name = [CHR 0x22] @ mtd @ [CHR 0x22];
          found = (case sy_proc k of None \<Rightarrow> None | Some ls \<Rightarrow> find_line name ls);
          dir = ''/dev/mtd'' @ (if block then ''block'' else []) in
      case found of
        Some i \<Rightarrow> mbind (open_path k (dir @ ''/'' @ decimal i) write_mode) (\<lambda>ret.
          case ret of Some fd \<Rightarrow> mret (Some fd) | None \<Rightarrow> open_path k (dir @ decimal i) write_mode)
      | None \<Rightarrow> open_path k mtd write_mode)"

definition mtd_check_open :: "'d mtd_sys \<Rightarrow> string \<Rightarrow> bool \<Rightarrow> ('d mt, nat option) prog" where
  "mtd_check_open k mtd write_mode =
     mbind (mtd_open k mtd False write_mode) (\<lambda>r. case r of
       None \<Rightarrow> mret None
     | Some fd \<Rightarrow> mbind (mget (\<lambda>s. sy_getinfo k (devs s (fd_dev s fd)))) (\<lambda>info. case info of
         None \<Rightarrow> mret None
       | Some mi \<Rightarrow> mseq (mupd (\<lambda>s. s\<lparr>mtdsize := to_s32 (int (mi_size mi)),
             erasesize := to_s32 (int (mi_erasesize mi)), mtdtype := mi_type mi\<rparr>)) (mret (Some fd))))"

text \<open>\<^verbatim>\<open>mtd_check_open\<close> followed by \<^verbatim>\<open>exit(1)\<close> when it fails.\<close>

definition mtd_must_open :: "'d mtd_sys \<Rightarrow> string \<Rightarrow> ('d mt, nat) prog" where
  "mtd_must_open k mtd =
     mbind (mtd_check_open k mtd True) (\<lambda>r. case r of None \<Rightarrow> mexit | Some fd \<Rightarrow> mret fd)"

section \<open>Erase blocks\<close>

definition mtd_block_is_bad :: "'d mtd_sys \<Rightarrow> nat \<Rightarrow> int \<Rightarrow> ('d mt, bool) prog" where
  "mtd_block_is_bad k fd offset s =
     (let r = (if mtdtype s = MTD_NANDFLASH then sy_isbad k (devs s (fd_dev s fd)) (to_s32 offset) else 0) in
      if r < 0 then (Exit, s) else (Ret (r \<noteq> 0), s))"

definition mtd_unlock_range :: "'d mtd_sys \<Rightarrow> nat \<Rightarrow> nat \<Rightarrow> nat \<Rightarrow> ('d mt, unit) prog" where
  "mtd_unlock_range k fd start len = on_dev fd (\<lambda>d. ((), sy_unlock k d start len))"

definition mtd_erase_block :: "'d mtd_sys \<Rightarrow> nat \<Rightarrow> int \<Rightarrow> ('d mt, bool) prog" where
  "mtd_erase_block k fd offset =
     mbind (mget erasesize) (\<lambda>es.
       mseq (mtd_unlock_range k fd (to_u32 offset) (to_u32 es))
         (mbind (on_dev fd (\<lambda>d. sy_erase k d (to_u32 offset) (to_u32 es))) (\<lambda>r. mret (0 \<le> r))))"

definition mtd_write_buffer :: "'d mtd_sys \<Rightarrow> nat \<Rightarrow> bytes \<Rightarrow> int \<Rightarrow> ('d mt, int) prog" where
  "mtd_write_buffer k fd bs offset =
     mbind (sys_lseek k fd offset) (\<lambda>ok.
       if \<not> ok then mret (- 1)
       else mbind (sys_write k fd bs) (\<lambda>r. mret (if r \<noteq> int (length bs) then - 1 else 0)))"

section \<open>Commands\<close>

text \<open>The partitions of an argument, separated by colons.\<close>

fun split_colon :: "string \<Rightarrow> string list" where
  "split_colon [] = [[]]"
| "split_colon (c # cs) =
     (if c = CHR '':'' then [] # split_colon cs
      else case split_colon cs of (p # ps) \<Rightarrow> (c # p) # ps | [] \<Rightarrow> [[c]])"

text \<open>
  The first partition that can be opened determines the size of the buffer. Its allocation
  does not fail, and the fresh buffer is taken to have zeros.
\<close>

fun mtd_check_parts :: "'d mtd_sys \<Rightarrow> string list \<Rightarrow> ('d mt, bool) prog" where
  "mtd_check_parts k [] = mret True"
| "mtd_check_parts k (mtd # rest) =
     mbind (mtd_check_open k mtd True) (\<lambda>r. case r of
       None \<Rightarrow> mret False
     | Some fd \<Rightarrow>
         mseq (mupd (\<lambda>s. case mbuf s of None \<Rightarrow> s\<lparr>mbuf := Some (replicate (nat (erasesize s)) 0)\<rparr> | Some _ \<Rightarrow> s))
           (mtd_check_parts k rest))"

definition mtd_check :: "'d mtd_sys \<Rightarrow> string \<Rightarrow> ('d mt, bool) prog" where
  "mtd_check k mtd = mtd_check_parts k (split_colon mtd)"

fun mtd_unlock_parts :: "'d mtd_sys \<Rightarrow> string list \<Rightarrow> ('d mt, unit) prog" where
  "mtd_unlock_parts k [] = mret ()"
| "mtd_unlock_parts k (mtd # rest) =
     mbind (mtd_must_open k mtd) (\<lambda>fd. mbind (mget mtdsize) (\<lambda>sz.
       mseq (mtd_unlock_range k fd 0 (to_u32 sz)) (mtd_unlock_parts k rest)))"

definition mtd_unlock :: "'d mtd_sys \<Rightarrow> string \<Rightarrow> ('d mt, unit) prog" where
  "mtd_unlock k mtd = mtd_unlock_parts k (split_colon mtd)"

text \<open>
  The loop of \<^verbatim>\<open>mtd_erase\<close>: the member \<^verbatim>\<open>start\<close> is unsigned, and the device size is
  converted for the comparison. A failed erasure is reported and the loop goes on.
\<close>

fun mtd_erase_loop :: "nat \<Rightarrow> 'd mtd_sys \<Rightarrow> nat \<Rightarrow> nat \<Rightarrow> ('d mt, unit) prog" where
  "mtd_erase_loop 0 k fd start = mspin"
| "mtd_erase_loop (Suc n) k fd start =
     mbind (mget mtdsize) (\<lambda>sz. mbind (mget erasesize) (\<lambda>es.
       if start < to_u32 sz
       then mseq (mbind (mtd_block_is_bad k fd (int start)) (\<lambda>bad.
                if bad then mret ()
                else mseq (mtd_unlock_range k fd start (to_u32 es))
                       (mseq (on_dev fd (\<lambda>d. sy_erase k d start (to_u32 es))) (mret ()))))
              (mtd_erase_loop n k fd (to_u32 (int start + es)))
       else mret ()))"

definition mtd_erase :: "nat \<Rightarrow> 'd mtd_sys \<Rightarrow> string \<Rightarrow> ('d mt, unit) prog" where
  "mtd_erase n k mtd = mbind (mtd_must_open k mtd) (\<lambda>fd. mtd_erase_loop n k fd 0)"

text \<open>
  \<^verbatim>\<open>mtd_dump\<close>: blocks are read in order; those of bad blocks are dropped and the rest is
  written to the standard output. \<open>len\<close> is a \<^verbatim>\<open>size_t\<close> argument of \<^verbatim>\<open>read\<close>, of 32 bits here;
  the width matters only for a negative length, which asks for more than the buffer holds.
\<close>

fun mtd_dump_loop :: "nat \<Rightarrow> 'd mtd_sys \<Rightarrow> nat \<Rightarrow> int \<Rightarrow> int \<Rightarrow> ('d mt, int) prog" where
  "mtd_dump_loop 0 k fd sz offset = mspin"
| "mtd_dump_loop (Suc n) k fd sz offset =
     mbind (mget erasesize) (\<lambda>es.
     let len = (if sz > es then es else sz);
         again = (\<lambda>sz offset. if sz > 0 then mtd_dump_loop n k fd sz offset else mret 0) in
     mbind (sys_read k fd (to_u32 len)) (\<lambda>r. case r of
       RdIntr \<Rightarrow> again sz offset
     | RdErr \<Rightarrow> mret (- 1)
     | RdData bs \<Rightarrow>
         if bs = [] \<or> int (length bs) \<noteq> len then mret 0
         else mbind (mtd_block_is_bad k fd offset) (\<lambda>bad.
           if bad then again sz (offset + len)
           else mseq (mupd (\<lambda>s. s\<lparr>stdout_bytes := stdout_bytes s @ bs\<rparr>)) (again (sz - len) (offset + len)))))"

definition mtd_dump :: "nat \<Rightarrow> 'd mtd_sys \<Rightarrow> string \<Rightarrow> int \<Rightarrow> int \<Rightarrow> ('d mt, int) prog" where
  "mtd_dump n k mtd part_offset sz =
     mbind (mtd_check_open k mtd False) (\<lambda>r. case r of
       None \<Rightarrow> mret (- 1)
     | Some fd \<Rightarrow> mbind (mget mtdsize) (\<lambda>msize.
         mseq (if part_offset \<noteq> 0 then mseq (sys_lseek k fd part_offset) (mret ()) else mret ())
           (mtd_dump_loop n k fd (if sz = 0 then msize else sz) 0)))"

text \<open>
  \<^verbatim>\<open>mtd_verify\<close>: the digest of as many bytes of the device as the file has, against the
  digest of the file. The digest functions are those of \<^verbatim>\<open>libubox\<close>. The result is that of
  \<^verbatim>\<open>memcmp\<close>, zero when the digests agree.
\<close>

fun mtd_verify_loop :: "nat \<Rightarrow> 'd mtd_sys \<Rightarrow> nat \<Rightarrow> nat \<Rightarrow> bytes \<Rightarrow> ('d mt, bytes option) prog" where
  "mtd_verify_loop 0 k fd sz hashed = mspin"
| "mtd_verify_loop (Suc n) k fd sz hashed =
     mbind (sys_read k fd (if sz > 256 then 256 else sz)) (\<lambda>r. case r of
       RdIntr \<Rightarrow> if sz > 0 then mtd_verify_loop n k fd sz hashed else mret (Some hashed)
     | RdErr \<Rightarrow> mret None
     | RdData bs \<Rightarrow>
         if bs = [] then mret (Some hashed)
         else if sz - length bs > 0 then mtd_verify_loop n k fd (sz - length bs) (hashed @ bs)
         else mret (Some (hashed @ bs)))"

definition mtd_verify :: "nat \<Rightarrow> 'd mtd_sys \<Rightarrow> string \<Rightarrow> string \<Rightarrow> ('d mt, int) prog" where
  "mtd_verify n k mtd fname =
     (case sy_file k fname of
        None \<Rightarrow> mret (- 1)
      | Some (content, _) \<Rightarrow> mbind (mtd_check_open k mtd False) (\<lambda>r. case r of
          None \<Rightarrow> mret (- 1)
        | Some fd \<Rightarrow> mbind (mtd_verify_loop n k fd (length content) []) (\<lambda>h. case h of
            None \<Rightarrow> mret (- 1)
          | Some m \<Rightarrow> mret (if sy_md5 k content = sy_md5 k m then 0 else 1))))"

end
