(* ===== verification/Mtd_Fix.thy ===== *)
theory Mtd_Fix
  imports Mtd_Tool
begin

unbundle bit_operations_syntax

text \<open>
  The target specific parts of the flashing tool: the TRX header (\<^verbatim>\<open>trx.c\<close>), the headers
  with an MD5 digest (\<^verbatim>\<open>seama.c\<close>, \<^verbatim>\<open>wrg.c\<close>, \<^verbatim>\<open>wrgg.c\<close>), the boot counter of Linksys
  devices (\<^verbatim>\<open>linksys_bootcount.c\<close>) and the recovery flag of TP-Link devices
  (\<^verbatim>\<open>tpl_ramips_recoveryflag.c\<close>). A header is the bytes of its block; its members are read
  and stored at the offsets the packed structures give them.
\<close>

section \<open>Blocks and buffers\<close>

text \<open>\<^verbatim>\<open>offset & ~(erasesize - 1)\<close> and \<^verbatim>\<open>offset & (erasesize - 1)\<close>.\<close>

definition blk_start :: "int \<Rightarrow> nat \<Rightarrow> nat" where
  "blk_start es off = nat (int off AND NOT (es - 1))"

definition blk_rest :: "int \<Rightarrow> nat \<Rightarrow> nat" where
  "blk_rest es off = nat (int off AND (es - 1))"

text \<open>A \<^verbatim>\<open>pread\<close> that must deliver everything, or the process exits.\<close>

definition pread_all :: "'d mtd_sys \<Rightarrow> nat \<Rightarrow> nat \<Rightarrow> nat \<Rightarrow> ('d mt, bytes) prog" where
  "pread_all k fd n p =
     mbind (sys_pread k fd n p) (\<lambda>r. case r of
       RdData bs \<Rightarrow> if length bs \<noteq> n then mexit else mret bs | _ \<Rightarrow> mexit)"

text \<open>The block is erased and written back, or the process exits.\<close>

definition rewrite_block :: "'d mtd_sys \<Rightarrow> nat \<Rightarrow> bytes \<Rightarrow> nat \<Rightarrow> ('d mt, unit) prog" where
  "rewrite_block k fd block off =
     mbind (mtd_erase_block k fd (int off)) (\<lambda>ok.
       if \<not> ok then mexit
       else mbind (sys_pwrite k fd block off) (\<lambda>r.
         if r \<noteq> int (length block) then mexit else mret ()))"

section \<open>TRX\<close>

definition trx_fixup :: "'d mtd_sys \<Rightarrow> mtd_opts \<Rightarrow> nat \<Rightarrow> string \<Rightarrow> ('d mt, int) prog" where
  "trx_fixup k opt fd name =
     mbind (mget (\<lambda>s. sy_getinfo k (devs s (fd_dev s fd)))) (\<lambda>info. case info of
       None \<Rightarrow> mret (- 1)
     | Some mi \<Rightarrow>
         if mi_size mi = 0 then mret (- 1)
         else mbind (mtd_open k name True True) (\<lambda>r. case r of
           None \<Rightarrow> mret (- 1)
         | Some bfd \<Rightarrow> mbind (mget (\<lambda>s. sy_mmap k (devs s (fd_dev s bfd)) (mi_size mi))) (\<lambda>m. case m of
             None \<Rightarrow> mret (- 1)
           | Some ptr \<Rightarrow>
               if be32_at ptr 0 \<noteq> opt_trxmagic opt then mret (- 1)
               else if unat (u32_at ptr 4) < 28 \<or> unat (u32_at ptr 4) > mi_size mi then mret (- 1)
               else let crc = crc32buf (take (unat (u32_at ptr 4) - 12) (drop 12 ptr)) in
                 mseq (on_dev bfd (\<lambda>d. ((), sy_msync k d 8 (le32 crc)))) (mret 0))))"

text \<open>
  \<^verbatim>\<open>trx_check\<close>: the buffer holds \<open>buflen\<close> bytes of the image; one call of \<^verbatim>\<open>read\<close> may
  complete the header of 32 bytes. \<open>image_read\<close> is \<^verbatim>\<open>read\<close> on the image file.
\<close>

fun image_read :: "nat \<Rightarrow> rd_ev list \<Rightarrow> rd_ev \<times> rd_ev list" where
  "image_read n [] = (RdData [], [])"
| "image_read n (RdData bs # evs) =
     (if length bs \<le> n then (RdData bs, evs) else (RdData (take n bs), RdData (drop n bs) # evs))"
| "image_read n (e # evs) = (e, evs)"

definition sys_read_image :: "nat \<Rightarrow> ('d mt, rd_ev) prog" where
  "sys_read_image n s = (let r = image_read n (img_left s) in (Ret (fst r), s\<lparr>img_left := snd r\<rparr>))"

text \<open>Storing at an index of the image buffer, which has the erase size of the first partition.\<close>

definition buf_store :: "nat \<Rightarrow> bytes \<Rightarrow> ('d mt, unit) prog" where
  "buf_store i bs s =
     (case mbuf s of
        None \<Rightarrow> (Fault, s)
      | Some b \<Rightarrow> if i + length bs \<le> length b then (Ret (), s\<lparr>mbuf := Some (store_at b i bs)\<rparr>) else (Fault, s))"

definition buf_get :: "nat \<Rightarrow> nat \<Rightarrow> ('d mt, bytes) prog" where
  "buf_get i n s =
     (case mbuf s of
        None \<Rightarrow> (Fault, s)
      | Some b \<Rightarrow> if i + n \<le> length b then (Ret (take n (drop i b)), s) else (Fault, s))"

definition trx_check :: "'d mtd_sys \<Rightarrow> mtd_opts \<Rightarrow> string \<Rightarrow> ('d mt, bool) prog" where
  "trx_check k opt mtd =
     (if mtd \<noteq> ''firmware'' then mret True
      else mbind (mget buflen) (\<lambda>len.
        mseq (if len < 32
              then mbind (sys_read_image (32 - len)) (\<lambda>r. case r of
                RdData bs \<Rightarrow> mseq (buf_store len bs) (mupd (\<lambda>s. s\<lparr>buflen := len + length bs\<rparr>))
              | _ \<Rightarrow> mupd (\<lambda>s. s\<lparr>buflen := len - 1\<rparr>))
              else mret ())
       (mbind (mget buflen) (\<lambda>len.
          if len < 32 then mret False
          else mbind (buf_get 0 28) (\<lambda>hdr.
            if be32_at hdr 0 \<noteq> opt_trxmagic opt \<or> unat (u32_at hdr 4) < 28 then mret False
            else mseq (mtd_must_open k mtd) (mbind (mget mtdsize) (\<lambda>sz.
              mret (\<not> to_u32 sz < unat (u32_at hdr 4)))))))))"

text \<open>
  \<^verbatim>\<open>mtd_fixtrx\<close>: the data that the check covers is read from the good blocks, and length
  and check are stored in the header when they differ.
\<close>

definition TRX_CRC32_DATA_OFFSET :: nat where
  "TRX_CRC32_DATA_OFFSET = 12"

definition TRX_CRC32_DATA_SIZE :: nat where
  "TRX_CRC32_DATA_SIZE = 16"

fun fixtrx_read :: "nat \<Rightarrow> 'd mtd_sys \<Rightarrow> nat \<Rightarrow> nat \<Rightarrow> nat \<Rightarrow> bytes \<Rightarrow> ('d mt, bytes) prog" where
  "fixtrx_read 0 k fd data_offset data_size to = mspin"
| "fixtrx_read (Suc n) k fd data_offset data_size to =
     (if data_size = 0 then mret to
      else mbind (mget erasesize) (\<lambda>es.
        let chunk = min (nat es - blk_rest es data_offset) data_size in
        mbind (mbind (mtd_block_is_bad k fd (int (blk_start es data_offset))) (\<lambda>bad.
            if bad then mret to
            else mbind (pread_all k fd chunk data_offset) (\<lambda>bs. mret (to @ bs))))
          (\<lambda>to. fixtrx_read n k fd (data_offset + chunk) (data_size - chunk) to)))"

definition mtd_fixtrx :: "nat \<Rightarrow> 'd mtd_sys \<Rightarrow> mtd_opts \<Rightarrow> string \<Rightarrow> nat \<Rightarrow> nat \<Rightarrow> ('d mt, int) prog" where
  "mtd_fixtrx n k opt mtd offset data_size =
     mbind (mtd_must_open k mtd) (\<lambda>fd. mbind (mget erasesize) (\<lambda>es. mbind (mget mtdsize) (\<lambda>msize.
     let data_offset = offset + TRX_CRC32_DATA_OFFSET;
         dsize = (if data_size \<noteq> 0 then data_size + TRX_CRC32_DATA_SIZE
                  else to_u32 (es - int TRX_CRC32_DATA_OFFSET));
         block_offset = blk_start es offset;
         off = offset - block_offset in
     if data_offset + dsize > to_u32 msize then mexit
     else mbind (pread_all k fd (nat es) block_offset) (\<lambda>first_block.
       mseq (massert (off + 4 \<le> length first_block))
       (if be32_at first_block off \<noteq> opt_trxmagic opt then mexit
        else mbind (fixtrx_read n k fd data_offset dsize []) (\<lambda>buf.
          mseq (massert (off + 12 \<le> length first_block))
          (let len = of_nat (length buf + TRX_CRC32_DATA_OFFSET); crc = crc32buf buf in
           if u32_at first_block (off + 4) = len \<and> u32_at first_block (off + 8) = crc then mret 0
           else mseq (rewrite_block k fd (store_at first_block (off + 4) (le32 len @ le32 crc)) block_offset)
                  (mret 0))))))))"

section \<open>Headers with a digest\<close>

text \<open>
  \<^verbatim>\<open>seama_fix_md5\<close>, \<^verbatim>\<open>wrg_fix_md5\<close> and \<^verbatim>\<open>wrgg_fix_md5\<close>: the digest of the data, after
  the header members that it also covers, is compared with the stored one. \<open>None\<close> is a nonzero
  result: the data cannot be read, or the header is already right.
\<close>

definition md5_of :: "bytes list \<Rightarrow> bytes" where
  "md5_of parts = MD5_Final (fold (\<lambda>bs c. MD5_Update c bs) parts MD5_Init)"

definition fix_md5 :: "'d mtd_sys \<Rightarrow> bytes list \<Rightarrow> bytes \<Rightarrow> nat \<Rightarrow> nat \<Rightarrow> nat \<Rightarrow> ('d mt, bytes option) prog" where
  "fix_md5 k covered stored fd data_offset data_size =
     mbind (sys_pread k fd data_size data_offset) (\<lambda>r. case r of
       RdData buf \<Rightarrow>
         if length buf \<noteq> data_size then mret None
         else let digest = md5_of (covered @ [buf]) in
           mret (if digest = stored then None else Some digest)
     | _ \<Rightarrow> mret None)"

definition FIX_SEAMA_MAGIC :: u32 where
  "FIX_SEAMA_MAGIC = 0x5ea3a417"

definition FIX_WRG_MAGIC :: u32 where
  "FIX_WRG_MAGIC = 0x20040220"

definition FIX_WRGG03_MAGIC :: u32 where
  "FIX_WRGG03_MAGIC = 0x20080321"

definition be32 :: "u32 \<Rightarrow> bytes" where
  "be32 w = rev (le32 w)"

definition hdr_bytes :: "bytes \<Rightarrow> nat \<Rightarrow> nat \<Rightarrow> bytes" where
  "hdr_bytes b i n = take n (drop i b)"

definition seama_fix_md5 :: "'d mtd_sys \<Rightarrow> bytes \<Rightarrow> nat \<Rightarrow> nat \<Rightarrow> nat \<Rightarrow> nat \<Rightarrow> ('d mt, bytes option) prog" where
  "seama_fix_md5 k block off fd data_offset data_size =
     mbind (fix_md5 k [] (hdr_bytes block (off + 12) 16) fd data_offset data_size) (\<lambda>r. mret (
       case r of None \<Rightarrow> None
       | Some digest \<Rightarrow> Some (store_at (store_at block (off + 8) (be32 (of_nat data_size))) (off + 12) digest)))"

text \<open>
  The block of the header at \<open>offset\<close>; the block start is computed before the device is
  opened, with the erase size known until then.
\<close>

definition mtd_fixseama :: "'d mtd_sys \<Rightarrow> string \<Rightarrow> nat \<Rightarrow> nat \<Rightarrow> ('d mt, int) prog" where
  "mtd_fixseama k mtd offset data_size =
     mbind (mget erasesize) (\<lambda>es0.
     let block_offset = blk_start es0 offset; off = offset - block_offset in
     mbind (mtd_must_open k mtd) (\<lambda>fd. mbind (mget erasesize) (\<lambda>es. mbind (mget mtdsize) (\<lambda>msize.
     if block_offset + nat es > to_u32 msize then mexit
     else mbind (pread_all k fd (nat es) block_offset) (\<lambda>block.
       mseq (massert (off + 28 \<le> length block))
       (if be32_at block off \<noteq> FIX_SEAMA_MAGIC then mexit
        else if be32_at block (off + 8) = 0 then mexit
        else let data_offset = off + 28 + (256 * unat (byte_at block (off + 6)) + unat (byte_at block (off + 7)));
                 dsize = (if data_size = 0 then to_u32 (msize - int data_offset) else data_size);
                 dsize = (if dsize > unat (be32_at block (off + 8)) then unat (be32_at block (off + 8)) else dsize) in
          mbind (seama_fix_md5 k block off fd data_offset dsize) (\<lambda>r. case r of
            None \<Rightarrow> mret 0
          | Some fixed \<Rightarrow> mseq (rewrite_block k fd fixed block_offset) (mret 0))))))))"

definition wrg_fix_md5 :: "'d mtd_sys \<Rightarrow> bytes \<Rightarrow> nat \<Rightarrow> nat \<Rightarrow> nat \<Rightarrow> nat \<Rightarrow> ('d mt, bytes option) prog" where
  "wrg_fix_md5 k block off fd data_offset data_size =
     mbind (fix_md5 k [hdr_bytes block (off + 44) 4, hdr_bytes block (off + 48) 32]
         (hdr_bytes block (off + 80) 16) fd data_offset data_size) (\<lambda>r. mret (
       case r of None \<Rightarrow> None
       | Some digest \<Rightarrow> Some (store_at (store_at block (off + 40) (le32 (of_nat data_size))) (off + 80) digest)))"

definition mtd_fixwrg :: "'d mtd_sys \<Rightarrow> string \<Rightarrow> nat \<Rightarrow> nat \<Rightarrow> ('d mt, int) prog" where
  "mtd_fixwrg k mtd offset data_size =
     mbind (mget erasesize) (\<lambda>es0.
     let block_offset = blk_start es0 offset; off = offset - block_offset in
     mbind (mtd_must_open k mtd) (\<lambda>fd. mbind (mget erasesize) (\<lambda>es. mbind (mget mtdsize) (\<lambda>msize.
     if block_offset + nat es > to_u32 msize then mexit
     else mbind (pread_all k fd (nat es) block_offset) (\<lambda>block.
       mseq (massert (off + 96 \<le> length block))
       (if u32_at block (off + 32) \<noteq> FIX_WRG_MAGIC then mexit
        else if u32_at block (off + 40) = 0 then mexit
        else let data_offset = off + 96;
                 dsize = (if data_size = 0 then to_u32 (msize - int data_offset) else data_size);
                 dsize = (if dsize > unat (u32_at block (off + 40)) then unat (u32_at block (off + 40)) else dsize) in
          mbind (wrg_fix_md5 k block off fd data_offset dsize) (\<lambda>r. case r of
            None \<Rightarrow> mret 0
          | Some fixed \<Rightarrow> mseq (rewrite_block k fd fixed block_offset) (mret 0))))))))"

definition wrgg_fix_md5 :: "'d mtd_sys \<Rightarrow> bytes \<Rightarrow> nat \<Rightarrow> nat \<Rightarrow> nat \<Rightarrow> nat \<Rightarrow> ('d mt, bytes option) prog" where
  "wrgg_fix_md5 k block off fd data_offset data_size =
     mbind (fix_md5 k [hdr_bytes block (off + 108) 4, hdr_bytes block (off + 112) 32]
         (hdr_bytes block (off + 144) 16) fd data_offset data_size) (\<lambda>r. mret (
       case r of None \<Rightarrow> None
       | Some digest \<Rightarrow> Some (store_at (store_at block (off + 104) (le32 (of_nat data_size))) (off + 144) digest)))"

definition mtd_fixwrgg :: "'d mtd_sys \<Rightarrow> string \<Rightarrow> nat \<Rightarrow> nat \<Rightarrow> ('d mt, int) prog" where
  "mtd_fixwrgg k mtd offset data_size =
     mbind (mget erasesize) (\<lambda>es0.
     let block_offset = blk_start es0 offset; off = offset - block_offset in
     mbind (mtd_must_open k mtd) (\<lambda>fd. mbind (mget erasesize) (\<lambda>es. mbind (mget mtdsize) (\<lambda>msize.
     if block_offset + nat es > to_u32 msize then mexit
     else mbind (pread_all k fd (nat es) block_offset) (\<lambda>block.
       mseq (massert (off + 160 \<le> length block))
       (if u32_at block (off + 32) \<noteq> FIX_WRGG03_MAGIC then mexit
        else if u32_at block (off + 104) = 0 then mexit
        else let data_offset = off + 160;
                 dsize = (if data_size = 0 then to_u32 (msize - int data_offset) else data_size);
                 dsize = (if dsize > unat (u32_at block (off + 104)) then unat (u32_at block (off + 104)) else dsize) in
          mbind (wrgg_fix_md5 k block off fd data_offset dsize) (\<lambda>r. case r of
            None \<Rightarrow> mret 0
          | Some fixed \<Rightarrow> mseq (rewrite_block k fd fixed block_offset) (mret 0))))))))"

section \<open>The boot counter\<close>

definition BOOTCOUNT_MAGIC :: u32 where
  "BOOTCOUNT_MAGIC = 0x20110811"

definition BC_OFFSET_INCREMENT_MIN :: nat where
  "BC_OFFSET_INCREMENT_MIN = 16"

text \<open>
  The log is read record by record: \<open>Inl\<close> is the negative result of a failure, \<open>Inr\<close> the
  index of the first free record and the last counter value. The loop runs over the remaining
  \<open>todo\<close> records.
\<close>

fun resetbc_scan :: "'d mtd_sys \<Rightarrow> nat \<Rightarrow> nat \<Rightarrow> nat \<Rightarrow> nat \<Rightarrow> int \<Rightarrow> ('d mt, int + nat \<times> int) prog" where
  "resetbc_scan k fd inc 0 i last_count = mret (Inr (i, last_count))"
| "resetbc_scan k fd inc (Suc todo) i last_count =
     mbind (sys_pread k fd 12 (to_u32 (int (i * inc)))) (\<lambda>r. case r of
       RdData cur \<Rightarrow>
         if length cur \<noteq> 12 then mret (Inl (- 5))
         else if u32_at cur 0 = 0xffffffff then mret (Inr (i, last_count))
         else if u32_at cur 0 \<noteq> BOOTCOUNT_MAGIC \<or> u32_at cur 8 \<noteq> u32_at cur 0 + u32_at cur 4
         then mret (Inl (- 2))
         else resetbc_scan k fd inc todo (i + 1) (sint (u32_at cur 4))
     | _ \<Rightarrow> mret (Inl (- 5)))"

definition bc_record :: "nat \<Rightarrow> bytes" where
  "bc_record inc = le32 BOOTCOUNT_MAGIC @ le32 0 @ le32 BOOTCOUNT_MAGIC @ replicate (inc - 12) 0xff"

text \<open>
  The descriptor is used without a check; the request on a descriptor of \<^verbatim>\<open>-1\<close> fails.
\<close>

definition mtd_resetbc :: "'d mtd_sys \<Rightarrow> string \<Rightarrow> ('d mt, int) prog" where
  "mtd_resetbc k mtd =
     mbind (mtd_check_open k mtd True) (\<lambda>r. case r of
       None \<Rightarrow> mret (- 1)
     | Some fd \<Rightarrow> mbind (mget (\<lambda>s. sy_getinfo k (devs s (fd_dev s fd)))) (\<lambda>info. case info of
         None \<Rightarrow> mret (- 1)
       | Some mi \<Rightarrow>
           let inc = (if mi_writesize mi < BC_OFFSET_INCREMENT_MIN then BC_OFFSET_INCREMENT_MIN else mi_writesize mi);
               num_bc = mi_size mi div inc in
           mbind (resetbc_scan k fd inc num_bc 0 0) (\<lambda>sc. case sc of
             Inl e \<Rightarrow> mret e
           | Inr (i, last_count) \<Rightarrow>
               if last_count = 0 then mret 0
               else mbind (if i = num_bc
                      then mbind (on_dev fd (\<lambda>d. sy_erase k d 0 (mi_size mi))) (\<lambda>e.
                             mret (if e < 0 then None else Some 0))
                      else mret (Some i)) (\<lambda>at. case at of
                 None \<Rightarrow> mret (- 3)
               | Some i \<Rightarrow> mbind (sys_pwrite k fd (bc_record inc) (to_u32 (int (i * inc)))) (\<lambda>w.
                   mret (if w < 0 then - 4 else 0))))))"

section \<open>The recovery flag\<close>

definition TPL_RECOVER_MAGIC :: u32 where
  "TPL_RECOVER_MAGIC = 0x89abcdef"

definition TPL_NO_RECOVER_MAGIC :: u32 where
  "TPL_NO_RECOVER_MAGIC = 0"

text \<open>
  The buffer has the erase size known before the partition is opened; its content where
  nothing is read is taken to be zero.
\<close>

definition mtd_tpl_recoverflag_write :: "'d mtd_sys \<Rightarrow> string \<Rightarrow> bool \<Rightarrow> ('d mt, int) prog" where
  "mtd_tpl_recoverflag_write k mtd recovery_active =
     mbind (mget erasesize) (\<lambda>es0. mbind (mtd_check_open k mtd True) (\<lambda>r. case r of
       None \<Rightarrow> mret (- 1)
     | Some fd \<Rightarrow> mbind (mget erasesize) (\<lambda>es. mbind (sys_pread k fd (nat es) 0) (\<lambda>rd.
         let got = (case rd of RdData bs \<Rightarrow> bs | _ \<Rightarrow> []);
             magic = (if recovery_active then TPL_RECOVER_MAGIC else TPL_NO_RECOVER_MAGIC) in
         mseq (massert (length got \<le> nat es0 \<and> 4 \<le> nat es0))
         (let args = overlay (replicate (nat es0) 0) got in
          if u32_at args 0 = magic then mret 0
          else mbind (on_dev fd (\<lambda>d. sy_erase k d 0 (to_u32 es))) (\<lambda>e.
            if e < 0 then mret e
            else mseq (massert (nat es \<le> nat es0))
              (sys_pwrite k fd (take (nat es) (store_at args 0 (le32 magic))) 0)))))))"

end
