(* ===== verification/Mtd_Jffs2.thy ===== *)
theory Mtd_Jffs2
  imports Mtd_Fix
begin

unbundle bit_operations_syntax

text \<open>
  The generator of JFFS2 structures of the flashing tool (\<^verbatim>\<open>jffs2.c\<close>, \<^verbatim>\<open>jffs2.h\<close>): it
  appends a file to a file system image on flash, node by node, in a buffer of one erase block
  that is written out when it is full. The buffer is the field \<open>j_buf\<close>; storing behind its end
  is a fault. Nodes are in the byte order of the host.
\<close>

section \<open>The block buffer\<close>

definition CLEANMARKER :: bytes where
  "CLEANMARKER = [0x85, 0x19, 0x03, 0x20, 0x0c, 0, 0, 0, 0xb1, 0xb0, 0x1e, 0xe4]"

definition JFFS2_EOF :: bytes where
  "JFFS2_EOF = [0xde, 0xad, 0xc0, 0xde]"

definition JFFS2_MAGIC_BITMASK :: nat where
  "JFFS2_MAGIC_BITMASK = 0x1985"

definition KSAMTIB_CIGAM_2SFFJ :: nat where
  "KSAMTIB_CIGAM_2SFFJ = 0x8519"

definition JFFS2_NODETYPE_DIRENT :: nat where
  "JFFS2_NODETYPE_DIRENT = 0xe001"

definition JFFS2_NODETYPE_INODE :: nat where
  "JFFS2_NODETYPE_INODE = 0xe002"

definition j_store :: "int \<Rightarrow> bytes \<Rightarrow> ('d mt, unit) prog" where
  "j_store p bs s =
     (if 0 \<le> p \<and> nat p + length bs \<le> length (j_buf s)
      then (Ret (), s\<lparr>j_buf := store_at (j_buf s) (nat p) bs\<rparr>) else (Fault, s))"

text \<open>The loop of \<^verbatim>\<open>pad\<close> over bad blocks; the position of the file moves with it.\<close>

definition pad_at_bad :: "'d mtd_sys \<Rightarrow> ('d mt, bool) prog" where
  "pad_at_bad k =
     mbind (mget (\<lambda>s. s)) (\<lambda>s.
     mbind (mtd_block_is_bad k (j_outfd s) (j_mtdofs s)) (\<lambda>bad. mret (bad \<and> j_mtdofs s < mtdsize s)))"

definition pad_next_block :: "'d mtd_sys \<Rightarrow> ('d mt, unit) prog" where
  "pad_next_block k =
     mbind (mget (\<lambda>s. s)) (\<lambda>s.
     mseq (mupd (\<lambda>s. s\<lparr>j_mtdofs := j_mtdofs s + erasesize s\<rparr>))
       (mseq (sys_lseek k (j_outfd s) (int (fd_pos s (j_outfd s)) + erasesize s)) (mret ())))"

fun pad_skip_bad :: "nat \<Rightarrow> 'd mtd_sys \<Rightarrow> ('d mt, unit) prog" where
  "pad_skip_bad 0 k = mspin"
| "pad_skip_bad (Suc n) k =
     mbind (pad_at_bad k) (\<lambda>bad. if bad then mseq (pad_next_block k) (pad_skip_bad n k) else mret ())"

definition pad_flush :: "nat \<Rightarrow> 'd mtd_sys \<Rightarrow> ('d mt, unit) prog" where
  "pad_flush n k =
     mseq (pad_skip_bad n k) (mbind (mget (\<lambda>s. s)) (\<lambda>s.
       mseq (mtd_erase_block k (j_outfd s) (j_mtdofs s))
         (mseq (sys_write k (j_outfd s) (take (nat (erasesize s)) (j_buf s)))
           (mupd (\<lambda>s. s\<lparr>j_mtdofs := j_mtdofs s + erasesize s\<rparr>)))))"

definition pad :: "nat \<Rightarrow> 'd mtd_sys \<Rightarrow> int \<Rightarrow> ('d mt, unit) prog" where
  "pad n k sz =
     mbind (mget (\<lambda>s. s)) (\<lambda>s.
     mseq (massert (0 < sz \<and> 0 < erasesize s))
     (if j_ofs s mod sz = 0 \<and> j_ofs s < erasesize s then mret ()
      else mseq (if j_ofs s < erasesize s
                 then mseq (j_store (j_ofs s) (replicate (nat (sz - j_ofs s mod sz)) 0xff))
                        (mupd (\<lambda>s. s\<lparr>j_ofs := j_ofs s + (sz - j_ofs s mod sz)\<rparr>))
                 else mret ())
           (mseq (mupd (\<lambda>s. s\<lparr>j_ofs := j_ofs s mod erasesize s\<rparr>))
              (mbind (mget j_ofs) (\<lambda>p. if p = 0 then pad_flush n k else mret ())))))"

definition rbytes :: "'d mt \<Rightarrow> int" where
  "rbytes s = erasesize s - j_ofs s mod erasesize s"

text \<open>
  \<^verbatim>\<open>memcpy(buf + ofs, ptr, len)\<close>. When the erase block is too small even for the clean
  marker, \<^verbatim>\<open>add_data\<close> and \<^verbatim>\<open>prep_eraseblock\<close> call each other without end; the model
  reports the fault of the copy instead.
\<close>

definition j_put :: "bytes \<Rightarrow> ('d mt, unit) prog" where
  "j_put bs =
     mbind (mget j_ofs) (\<lambda>p. mseq (j_store p bs) (mupd (\<lambda>s. s\<lparr>j_ofs := p + int (length bs)\<rparr>)))"

definition prep_eraseblock :: "('d mt, unit) prog" where
  "prep_eraseblock = mbind (mget j_ofs) (\<lambda>p. if p > 0 then mret () else j_put CLEANMARKER)"

definition add_data :: "nat \<Rightarrow> 'd mtd_sys \<Rightarrow> bytes \<Rightarrow> ('d mt, unit) prog" where
  "add_data n k bs =
     mbind (mget (\<lambda>s. s)) (\<lambda>s.
       mseq (if j_ofs s + int (length bs) > erasesize s
             then mseq (pad n k (erasesize s)) prep_eraseblock else mret ())
         (j_put bs))"

section \<open>Nodes\<close>

definition dirent_bytes :: "u32 \<Rightarrow> u32 \<Rightarrow> u32 \<Rightarrow> u32 \<Rightarrow> u8 \<Rightarrow> u8 \<Rightarrow> bytes \<Rightarrow> bytes" where
  "dirent_bytes totlen pino version ino nsize type name =
     (let hdr = le16 JFFS2_MAGIC_BITMASK @ le16 JFFS2_NODETYPE_DIRENT @ le32 totlen;
          node = hdr @ le32 (crc32 0 hdr) @ le32 pino @ le32 version @ le32 ino @ le32 0 @ [nsize, type, 0, 0] in
      node @ le32 (crc32 0 node) @ le32 (crc32 0 name) @ name)"

text \<open>
  \<^verbatim>\<open>add_dirent\<close>: the test for the room left subtracts the erase size from the offset, as
  an unsigned number, so it holds only when the block is exactly full. The number of the inode
  is taken between two increments.
\<close>

definition add_dirent :: "nat \<Rightarrow> 'd mtd_sys \<Rightarrow> bytes \<Rightarrow> u8 \<Rightarrow> int \<Rightarrow> ('d mt, int) prog" where
  "add_dirent n k name type parent =
     mbind (mget (\<lambda>s. s)) (\<lambda>s.
     mseq (if 0 \<le> j_ofs s - erasesize s \<and> j_ofs s - erasesize s < 40 + int (length name)
           then pad n k (erasesize s) else mret ())
     (mseq prep_eraseblock (mbind (mget (\<lambda>s. s)) (\<lambda>s.
       let ino = j_last_ino s + 1;
           nsize = of_nat (length name) in
       mseq (mupd (\<lambda>s. s\<lparr>j_last_ino := ino + 1, j_last_version := j_last_version s + 1\<rparr>))
       (mseq (j_store (j_ofs s) (dirent_bytes (of_nat (40 + length name)) (of_int parent)
            (of_int (j_last_version s)) (of_int ino) nsize type name))
       (mseq (mupd (\<lambda>s. s\<lparr>j_ofs := j_ofs s + 40 + int (unat nsize)\<rparr>))
       (mseq (pad n k 4) (mret ino))))))))"

definition inode_bytes :: "u32 \<Rightarrow> u32 \<Rightarrow> u32 \<Rightarrow> u32 \<Rightarrow> u32 \<Rightarrow> file_meta \<Rightarrow> u32 \<Rightarrow> u32 \<Rightarrow> u32 \<Rightarrow> bytes" where
  "inode_bytes totlen ino version mode isize st offset dsize data_crc =
     (let hdr = le16 JFFS2_MAGIC_BITMASK @ le16 JFFS2_NODETYPE_INODE @ le32 totlen;
          node = hdr @ le32 (crc32 0 hdr) @ le32 ino @ le32 version @ le32 mode @ [0, 0, 0, 0] @ le32 isize @
            le32 (st_atime st) @ le32 (st_mtime st) @ le32 (st_ctime st) @ le32 offset @ le32 dsize @ le32 dsize @
            [0, 0, 0, 0] in
      node @ le32 data_crc @ le32 (crc32 0 node))"

definition no_times :: file_meta where
  "no_times = \<lparr>st_mode = 0, st_atime = 0, st_mtime = 0, st_ctime = 0\<rparr>"

definition add_dir :: "nat \<Rightarrow> 'd mtd_sys \<Rightarrow> bytes \<Rightarrow> int \<Rightarrow> ('d mt, int) prog" where
  "add_dir n k name parent =
     mbind (add_dirent n k name 4 parent) (\<lambda>inode.
     mseq (mbind (mget (\<lambda>s. s)) (\<lambda>s. if rbytes s < 68 then pad n k (erasesize s) else mret ()))
     (mseq prep_eraseblock
     (mseq (add_data n k (inode_bytes 68 (of_int inode) 1 0x41ed 0 no_times 0 0 0))
     (mseq (pad n k 4) (mret inode)))))"

text \<open>The inner loop of \<^verbatim>\<open>add_file\<close>: a new block is begun until there is room for more than 128 bytes.\<close>

fun add_file_room :: "nat \<Rightarrow> 'd mtd_sys \<Rightarrow> ('d mt, int) prog" where
  "add_file_room 0 k = mspin"
| "add_file_room (Suc n) k =
     mbind (mget rbytes) (\<lambda>r. mbind (mget erasesize) (\<lambda>es.
       if r - 68 > 128 then mret (r - 68)
       else mseq (pad n k es) (mseq prep_eraseblock (add_file_room n k))))"

fun add_file_loop :: "nat \<Rightarrow> 'd mtd_sys \<Rightarrow> int \<Rightarrow> file_meta \<Rightarrow> nat \<Rightarrow> nat \<Rightarrow> bytes \<Rightarrow> ('d mt, unit) prog" where
  "add_file_loop 0 k inode st isize f_offset content = mspin"
| "add_file_loop (Suc n) k inode st isize f_offset content =
     mbind (add_file_room n k) (\<lambda>room.
     let wbuf = take (nat (min room 4096)) content; len = length wbuf in
     if len = 0 then mret ()
     else mseq (mupd (\<lambda>s. s\<lparr>j_last_version := j_last_version s + 1\<rparr>))
       (mbind (mget j_last_version) (\<lambda>version.
        mseq (add_data n k (inode_bytes (of_nat (68 + len)) (of_int inode) (of_int version) (st_mode st)
            (of_nat isize) st (of_nat f_offset) (of_nat len) (crc32 0 wbuf)))
        (mseq (add_data n k wbuf)
        (mseq (pad n k 4)
        (mseq prep_eraseblock
          (add_file_loop n k inode st isize (f_offset + len) (drop len content))))))))"

definition base_name :: "string \<Rightarrow> string" where
  "base_name name = rev (takeWhile (\<lambda>c. c \<noteq> CHR ''/'') (rev name))"

definition name_bytes :: "string \<Rightarrow> bytes" where
  "name_bytes name = map of_char name"

definition add_file :: "nat \<Rightarrow> 'd mtd_sys \<Rightarrow> string \<Rightarrow> int \<Rightarrow> ('d mt, unit) prog" where
  "add_file n k name parent =
     (case sy_file k name of
        None \<Rightarrow> mret ()
      | Some (content, st) \<Rightarrow>
          mbind (add_dirent n k (name_bytes (base_name name)) 8 parent) (\<lambda>inode.
            add_file_loop n k inode st (length content) 0 content))"

section \<open>Appending\<close>

definition mtd_replace_jffs2 :: "nat \<Rightarrow> 'd mtd_sys \<Rightarrow> nat \<Rightarrow> int \<Rightarrow> string \<Rightarrow> ('d mt, int) prog" where
  "mtd_replace_jffs2 n k fd ofs filename =
     mseq (mupd (\<lambda>s. s\<lparr>j_outfd := fd, j_mtdofs := ofs, j_buf := replicate (nat (erasesize s)) 0,
         j_target_ino := 1, j_last_ino := (if j_last_ino s = 0 then 1 else j_last_ino s)\<rparr>))
     (mbind (mget erasesize) (\<lambda>es.
      mseq (add_file n k filename 1)
      (mseq (pad n k es)
      (mseq (add_data n k JFFS2_EOF)
      (mseq (pad n k es)
      (mbind (mget j_mtdofs) (\<lambda>m. mret (m - ofs))))))))"

text \<open>
  \<^verbatim>\<open>strncmp(name, dir, n) == 0\<close>, where \<open>name\<close> is the rest of the buffer and \<open>dir\<close> ends
  with a zero byte; \<open>None\<close> when the comparison runs behind the buffer.
\<close>

fun strncmp_eq :: "nat \<Rightarrow> bytes \<Rightarrow> bytes \<Rightarrow> bool option" where
  "strncmp_eq 0 name dir = Some True"
| "strncmp_eq (Suc n) [] dir = None"
| "strncmp_eq (Suc n) (a # name) dir =
     (let b = (case dir of [] \<Rightarrow> 0 | c # _ \<Rightarrow> c) in
      if a \<noteq> b then Some False else if a = 0 then Some True else strncmp_eq n name (tl dir))"

definition PAD :: "u32 \<Rightarrow> u32" where
  "PAD x = (x + 3) AND NOT 3"

definition u16_at :: "bytes \<Rightarrow> nat \<Rightarrow> nat" where
  "u16_at b i = of_le16 (drop i b)"

text \<open>What a directory entry at offset \<open>p\<close> of the block changes.\<close>

definition parse_dirent :: "bytes \<Rightarrow> bytes \<Rightarrow> nat \<Rightarrow> ('d mt, unit) prog" where
  "parse_dirent b dir p =
     (let pino = u32_at b (p + 12); version = u32_at b (p + 16); ino = u32_at b (p + 20);
          nsize = unat (byte_at b (p + 28)) in
      mseq (massert (p + 29 \<le> length b))
      (mseq (if dir \<noteq> [] \<and> pino = 1
             then case strncmp_eq nsize (drop (p + 40) b) dir of
                    None \<Rightarrow> mfault
                  | Some eq \<Rightarrow> if eq then mupd (\<lambda>s. s\<lparr>j_target_ino := sint ino\<rparr>) else mret ()
             else mret ())
      (mupd (\<lambda>s. s\<lparr>j_last_ino := (if to_u32 (j_last_ino s) < unat ino then sint ino else j_last_ino s),
           j_last_version := (if to_u32 (j_last_version s) < unat version then sint version else j_last_version s)\<rparr>))))"

fun mtd_parse_jffs2data :: "nat \<Rightarrow> bytes \<Rightarrow> bytes \<Rightarrow> u32 \<Rightarrow> ('d mt, unit) prog" where
  "mtd_parse_jffs2data 0 b dir p = mspin"
| "mtd_parse_jffs2data (Suc n) b dir p =
     mbind (mget erasesize) (\<lambda>es.
       if unat p < to_u32 es
       then mseq (massert (unat p + 2 \<le> length b))
         (if u16_at b (unat p) \<noteq> JFFS2_MAGIC_BITMASK then mret ()
          else mseq (massert (unat p + 8 \<le> length b))
            (mseq (if u16_at b (unat p + 2) = JFFS2_NODETYPE_DIRENT then parse_dirent b dir (unat p) else mret ())
              (mtd_parse_jffs2data n b dir (p + PAD (u32_at b (unat p + 4))))))
       else mret ())"

text \<open>The scan of \<^verbatim>\<open>mtd_write_jffs2\<close> and the three ways it ends: the end of the file system, the end of the device, foreign byte order.\<close>

datatype jffs2_scan = ScanEnd | ScanFull | ScanWrongEndian

fun write_jffs2_scan :: "nat \<Rightarrow> 'd mtd_sys \<Rightarrow> bytes \<Rightarrow> ('d mt, jffs2_scan) prog" where
  "write_jffs2_scan 0 k dir = mspin"
| "write_jffs2_scan (Suc n) k dir =
     mbind (mget j_outfd) (\<lambda>fd. mbind (mget erasesize) (\<lambda>es.
     mbind (sys_read k fd (nat es)) (\<lambda>r. case r of
       RdData bs \<Rightarrow>
         mseq (j_store 0 bs)
         (if int (length bs) \<noteq> es then mret ScanFull
          else mseq (mupd (\<lambda>s. s\<lparr>j_mtdofs := j_mtdofs s + es\<rparr>))
            (mseq (massert (2 \<le> length bs))
            (if u16_at bs 0 = KSAMTIB_CIGAM_2SFFJ then mret ScanWrongEndian
             else if u16_at bs 0 \<noteq> JFFS2_MAGIC_BITMASK then mret ScanEnd
             else mseq (mtd_parse_jffs2data n bs dir 0) (write_jffs2_scan n k dir))))
     | _ \<Rightarrow> mret ScanFull)))"

definition mtd_write_jffs2 :: "nat \<Rightarrow> 'd mtd_sys \<Rightarrow> mtd_opts \<Rightarrow> string \<Rightarrow> string \<Rightarrow> ('d mt, int) prog" where
  "mtd_write_jffs2 n k opt mtd filename =
     mbind (mtd_check_open k mtd True) (\<lambda>r. case r of
       None \<Rightarrow> mret (- 1)
     | Some fd \<Rightarrow>
         mseq (mupd (\<lambda>s. s\<lparr>j_outfd := fd, j_buf := replicate (nat (erasesize s)) 0,
             j_target_ino := (if jffs2dir opt = [] then 1 else j_target_ino s)\<rparr>))
         (mbind (write_jffs2_scan n k (name_bytes (jffs2dir opt))) (\<lambda>sc. case sc of
            ScanWrongEndian \<Rightarrow> mret (- 1)
          | ScanFull \<Rightarrow> mret (- 1)
          | ScanEnd \<Rightarrow>
              mbind (mget (\<lambda>s. s)) (\<lambda>s. let back = j_mtdofs s - erasesize s; es = erasesize s in
              mseq (mupd (\<lambda>s. s\<lparr>j_mtdofs := back\<rparr>))
              (mseq (sys_lseek k fd back)
              (mseq (mupd (\<lambda>s. s\<lparr>j_ofs := 0, j_last_ino := (if j_last_ino s = 0 then 1 else j_last_ino s)\<rparr>))
              (mseq (if j_target_ino s = 0
                     then mbind (add_dir n k (name_bytes (jffs2dir opt)) 1) (\<lambda>i. mupd (\<lambda>s. s\<lparr>j_target_ino := i\<rparr>))
                     else mret ())
              (mbind (mget j_target_ino) (\<lambda>target.
               mseq (add_file n k filename target)
               (mseq (pad n k es)
               (mseq (add_data n k JFFS2_EOF)
               (mseq (pad n k es)
               (mseq (if lk_trx opt then mseq (trx_fixup k opt fd mtd) (mret ()) else mret ())
                 (mret 0))))))))))))))"

end
