(* ===== verification/Mtd_Write.thy ===== *)
theory Mtd_Write
  imports Mtd_Jffs2
begin

text \<open>
  Writing an image and the command line of the flashing tool (\<^verbatim>\<open>mtd.c\<close>). The code under
  \<^verbatim>\<open>FIS_SUPPORT\<close>, which is built for the targets with RedBoot partitions only, is left out,
  and with it the variable \<^verbatim>\<open>buflen_raw\<close> that only it reads.
\<close>

section \<open>The image buffer\<close>

text \<open>
  The loop that fills the buffer from the image: up to \<open>want\<close> bytes, until the end of the file
  or an error. An interrupted call is repeated by \<^verbatim>\<open>mtd_write\<close> and ends the loop of
  \<^verbatim>\<open>image_check\<close>. After an error the loop ends as at the end of the file.
\<close>

fun fill_buf :: "bool \<Rightarrow> nat \<Rightarrow> bytes \<Rightarrow> rd_ev list \<Rightarrow> bytes \<times> rd_ev list" where
  "fill_buf retry want acc [] = (acc, [])"
| "fill_buf retry want acc (e # evs) =
     (if want \<le> length acc then (acc, e # evs)
      else case e of
        RdData bs \<Rightarrow>
          if bs = [] then (acc, evs)
          else if length bs \<le> want - length acc then fill_buf retry want (acc @ bs) evs
          else (acc @ take (want - length acc) bs, RdData (drop (want - length acc) bs) # evs)
      | RdIntr \<Rightarrow> if retry then fill_buf retry want acc evs else (acc, evs)
      | RdErr \<Rightarrow> (acc, evs))"

definition read_image_into :: "bool \<Rightarrow> nat \<Rightarrow> ('d mt, unit) prog" where
  "read_image_into retry want s =
     (case mbuf s of
        None \<Rightarrow> (Fault, s)
      | Some b \<Rightarrow>
          let r = fill_buf retry want (take (buflen s) b) (img_left s) in
          if length (fst r) \<le> length b
          then (Ret (), s\<lparr>mbuf := Some (overlay b (fst r)), buflen := length (fst r), img_left := snd r\<rparr>)
          else (Fault, s))"

definition set_format :: "mtd_opts \<Rightarrow> bytes \<Rightarrow> mtd_image_format \<Rightarrow> mtd_image_format" where
  "set_format opt magic old =
     (if be32_at magic 0 = opt_trxmagic opt then FMT_TRX
      else if be32_at magic 0 = FIX_SEAMA_MAGIC then FMT_SEAMA
      else if u32_at magic 0 = FIX_WRG_MAGIC then FMT_WRG
      else if u32_at magic 0 = FIX_WRGG03_MAGIC then FMT_WRGG03 else old)"

definition image_check :: "'d mtd_sys \<Rightarrow> mtd_opts \<Rightarrow> string \<Rightarrow> ('d mt, bool) prog" where
  "image_check k opt mtd =
     mseq (read_image_into False 4) (mbind (mget buflen) (\<lambda>len.
       if len < 4 then mret False
       else mbind (buf_get 0 4) (\<lambda>magic.
         mseq (mupd (\<lambda>s. s\<lparr>imageformat := set_format opt magic (imageformat s)\<rparr>))
         (mbind (mget imageformat) (\<lambda>f. case f of
            FMT_TRX \<Rightarrow> if lk_trx opt then trx_check k opt mtd else mret True
          | FMT_UNKNOWN \<Rightarrow> mret (\<not> (target_brcm opt \<and> mtd = ''firmware''))
          | _ \<Rightarrow> mret True)))))"

section \<open>Writing\<close>

text \<open>
  The local variables of \<^verbatim>\<open>mtd_write\<close>: bytes written and erased on the current partition,
  bytes of the image still to be skipped after a replaced file system, where in the buffer the
  next write starts, the size of the bad blocks passed, and whether the file system was
  replaced.
\<close>

record wr_loc =
  wl_w :: int
  wl_e :: int
  wl_skip :: int
  wl_offset :: nat
  wl_skip_bad :: int
  wl_replaced :: bool

definition seek_cur :: "'d mtd_sys \<Rightarrow> nat \<Rightarrow> int \<Rightarrow> ('d mt, unit) prog" where
  "seek_cur k fd d =
     mbind (mget (\<lambda>s. fd_pos s fd)) (\<lambda>p. mseq (sys_lseek k fd (int p + d)) (mret ()))"

text \<open>The loop that erases ahead of the next write; \<open>False\<close> when a block could not be erased.\<close>

fun erase_ahead :: "nat \<Rightarrow> 'd mtd_sys \<Rightarrow> nat \<Rightarrow> nat \<Rightarrow> wr_loc \<Rightarrow> ('d mt, wr_loc \<times> bool) prog" where
  "erase_ahead 0 k fd part_offset l = mspin"
| "erase_ahead (Suc n) k fd part_offset l =
     mbind (mget buflen) (\<lambda>len. mbind (mget erasesize) (\<lambda>es.
       if wl_w l + int len > wl_e l - wl_skip_bad l
       then mbind (mtd_block_is_bad k fd (wl_e l)) (\<lambda>bad.
         if bad
         then mseq (seek_cur k fd es)
                (erase_ahead n k fd part_offset (l\<lparr>wl_skip_bad := wl_skip_bad l + es, wl_e := wl_e l + es\<rparr>))
         else mbind (mtd_erase_block k fd (wl_e l + int part_offset)) (\<lambda>ok.
           if ok then erase_ahead n k fd part_offset (l\<lparr>wl_e := wl_e l + es\<rparr>) else mret (l, False)))
       else mret (l, True)))"

text \<open>From \<^verbatim>\<open>resume\<close> to the loop: opening a partition, seeking, the recovery flag.\<close>

definition wr_flag :: "'d mtd_sys \<Rightarrow> mtd_opts \<Rightarrow> bool \<Rightarrow> ('d mt, unit) prog" where
  "wr_flag k opt active =
     (case tpl_uboot_args_part opt of
        None \<Rightarrow> mret ()
      | Some part \<Rightarrow>
          if lk_tpl opt
          then mbind (mtd_tpl_recoverflag_write k part active) (\<lambda>r. if r < 0 then mexit else mret ())
          else mret ())"

definition wr_open :: "'d mtd_sys \<Rightarrow> mtd_opts \<Rightarrow> nat \<Rightarrow> string \<Rightarrow> ('d mt, nat) prog" where
  "wr_open k opt part_offset mtd =
     mbind (mtd_must_open k mtd) (\<lambda>fd.
       mseq (if part_offset > 0 then mseq (sys_lseek k fd (int part_offset)) (mret ()) else mret ())
         (mseq (wr_flag k opt True) (mret fd)))"

text \<open>Reading the next block of the image and padding it to the erase size.\<close>

definition wr_fill :: "('d mt, nat) prog" where
  "wr_fill =
     mbind (mget erasesize) (\<lambda>es.
     mseq (read_image_into True (nat es)) (mbind (mget buflen) (\<lambda>len.
       if 0 < len \<and> int len < es
       then mseq (buf_store len (replicate (nat es - len) 0xff))
              (mseq (mupd (\<lambda>s. s\<lparr>buflen := nat es\<rparr>)) (mret (nat es)))
       else mret len)))"

text \<open>
  The part on the appended file: \<open>Some\<close> the new local variables when the end marker was found
  and the file system was replaced.
\<close>

definition wr_jffs2 :: "nat \<Rightarrow> 'd mtd_sys \<Rightarrow> mtd_opts \<Rightarrow> nat \<Rightarrow> nat \<Rightarrow> wr_loc \<Rightarrow> ('d mt, wr_loc option) prog" where
  "wr_jffs2 n k opt fd len l =
     mbind (mget jffs2file) (\<lambda>f. case f of
       None \<Rightarrow> mret None
     | Some fname \<Rightarrow>
         if wl_w l \<ge> jffs2_skip_bytes opt
         then mbind (buf_get 0 4) (\<lambda>mark.
           if mark = JFFS2_EOF
           then mbind (mtd_replace_jffs2 n k fd (wl_e l) fname) (\<lambda>skip.
             mseq (mupd (\<lambda>s. s\<lparr>jffs2file := None\<rparr>))
               (mret (Some (l\<lparr>wl_w := wl_w l + skip, wl_e := wl_e l + skip, wl_skip := skip - int len,
                  wl_offset := 0, wl_replaced := True\<rparr>))))
           else mbind (mget mbuf) (\<lambda>b.
             mseq (mtd_parse_jffs2data n (case b of None \<Rightarrow> [] | Some x \<Rightarrow> x) (name_bytes (jffs2dir opt)) 0)
               (mret None)))
         else mret None)"

definition wr_block :: "'d mtd_sys \<Rightarrow> nat \<Rightarrow> nat \<Rightarrow> wr_loc \<Rightarrow> ('d mt, wr_loc) prog" where
  "wr_block k fd len l =
     mbind (buf_get (wl_offset l) len) (\<lambda>b. mbind (sys_write k fd b) (\<lambda>result.
       if result < int len then mexit
       else mseq (mupd (\<lambda>s. s\<lparr>buflen := 0\<rparr>)) (mret (l\<lparr>wl_w := wl_w l + int len, wl_offset := 0\<rparr>))))"

text \<open>What is done with the partition when a block could not be erased and another partition follows.\<close>

definition wr_leave :: "'d mtd_sys \<Rightarrow> nat \<Rightarrow> wr_loc \<Rightarrow> ('d mt, wr_loc) prog" where
  "wr_leave k fd l =
     (if wl_w l < wl_e l
      then mbind (buf_get (wl_offset l) (nat (wl_e l - wl_w l))) (\<lambda>b.
        mseq (sys_write k fd b) (mret (l\<lparr>wl_offset := nat (wl_e l - wl_w l), wl_w := 0, wl_e := 0\<rparr>)))
      else mret (l\<lparr>wl_w := 0, wl_e := 0\<rparr>))"

fun write_loop :: "nat \<Rightarrow> 'd mtd_sys \<Rightarrow> mtd_opts \<Rightarrow> nat \<Rightarrow> string list \<Rightarrow> nat \<Rightarrow> string \<Rightarrow> wr_loc
    \<Rightarrow> ('d mt, nat \<times> string \<times> wr_loc) prog" where
  "write_loop 0 k opt part_offset next_parts fd mtd l = mspin"
| "write_loop (Suc n) k opt part_offset next_parts fd mtd l =
     mbind wr_fill (\<lambda>len.
     if len = 0 then mret (fd, mtd, l)
     else if wl_skip l > 0
     then mseq (mupd (\<lambda>s. s\<lparr>buflen := 0\<rparr>))
            (write_loop n k opt part_offset next_parts fd mtd (l\<lparr>wl_skip := wl_skip l - int len\<rparr>))
     else mbind (wr_jffs2 n k opt fd len l) (\<lambda>j. case j of
       Some l1 \<Rightarrow> mseq (mupd (\<lambda>s. s\<lparr>buflen := 0\<rparr>)) (write_loop n k opt part_offset next_parts fd mtd l1)
     | None \<Rightarrow>
         mbind (if no_erase opt then mret (l, True) else erase_ahead n k fd part_offset l) (\<lambda>er.
         if snd er
         then mbind (wr_block k fd len (fst er)) (\<lambda>l2. write_loop n k opt part_offset next_parts fd mtd l2)
         else case next_parts of
           [] \<Rightarrow> mexit
         | m # ms \<Rightarrow> mbind (wr_leave k fd (fst er)) (\<lambda>l2.
             mbind (wr_open k opt part_offset m) (\<lambda>fd2. write_loop n k opt part_offset ms fd2 m l2)))))"

text \<open>The header is corrected after the file system was replaced.\<close>

definition wr_fixup :: "'d mtd_sys \<Rightarrow> mtd_opts \<Rightarrow> nat \<Rightarrow> string \<Rightarrow> ('d mt, unit) prog" where
  "wr_fixup k opt fd mtd =
     mbind (mget imageformat) (\<lambda>f. case f of
       FMT_TRX \<Rightarrow> if lk_trx opt then mseq (trx_fixup k opt fd mtd) (mret ()) else mret ()
     | FMT_SEAMA \<Rightarrow> if lk_seama opt then mseq (mtd_fixseama k mtd 0 0) (mret ()) else mret ()
     | FMT_WRG \<Rightarrow> if lk_wrg opt then mseq (mtd_fixwrg k mtd 0 0) (mret ()) else mret ()
     | FMT_WRGG03 \<Rightarrow> if lk_wrgg opt then mseq (mtd_fixwrgg k mtd 0 0) (mret ()) else mret ()
     | FMT_UNKNOWN \<Rightarrow> mret ())"

definition wr_start :: wr_loc where
  "wr_start = \<lparr>wl_w = 0, wl_e = 0, wl_skip = 0, wl_offset = 0, wl_skip_bad = 0, wl_replaced = False\<rparr>"

definition mtd_write :: "nat \<Rightarrow> 'd mtd_sys \<Rightarrow> mtd_opts \<Rightarrow> string \<Rightarrow> nat \<Rightarrow> ('d mt, unit) prog" where
  "mtd_write n k opt mtd part_offset =
     (case split_colon mtd of
        [] \<Rightarrow> mret ()
      | m # ms \<Rightarrow>
          mbind (wr_open k opt part_offset m) (\<lambda>fd.
          mbind (write_loop n k opt part_offset ms fd m wr_start) (\<lambda>r. case r of (fd, m, l) \<Rightarrow>
            mseq (if wl_replaced l then wr_fixup k opt fd m else mret ())
              (wr_flag k opt False))))"

section \<open>The command line\<close>

text \<open>
  The commands, after the options were read. The array of the partitions to erase first has
  eight entries, the last of which has to stay empty; an option \<^verbatim>\<open>-e\<close> that does not fit is
  stored behind its end.
\<close>

datatype mtd_cmd = CMD_ERASE | CMD_WRITE | CMD_UNLOCK | CMD_JFFS2WRITE | CMD_FIXTRX | CMD_FIXSEAMA
  | CMD_FIXWRG | CMD_FIXWRGG | CMD_VERIFY | CMD_DUMP | CMD_RESETBC

definition MAX_ARGS :: nat where
  "MAX_ARGS = 8"

definition add_erase :: "string list \<Rightarrow> string \<Rightarrow> string list option" where
  "add_erase erase arg = (if length erase + 1 < MAX_ARGS then Some (erase @ [arg]) else None)"

definition mtd_command :: "mtd_opts \<Rightarrow> string list \<Rightarrow> (mtd_cmd \<times> string \<times> string) option" where
  "mtd_command opt argv =
     (case argv of
        [c, dev] \<Rightarrow>
          if c = ''unlock'' then Some (CMD_UNLOCK, [], dev)
          else if c = ''erase'' then Some (CMD_ERASE, [], dev)
          else if c = ''resetbc'' \<and> lk_resetbc opt then Some (CMD_RESETBC, [], dev)
          else if c = ''fixtrx'' \<and> lk_trx opt then Some (CMD_FIXTRX, [], dev)
          else if c = ''fixseama'' \<and> lk_seama opt then Some (CMD_FIXSEAMA, [], dev)
          else if c = ''fixwrg'' \<and> lk_wrg opt then Some (CMD_FIXWRG, [], dev)
          else if c = ''fixwrgg'' \<and> lk_wrgg opt then Some (CMD_FIXWRGG, [], dev)
          else if c = ''dump'' then Some (CMD_DUMP, [], dev)
          else None
      | [c, f, dev] \<Rightarrow>
          if c = ''verify'' then Some (CMD_VERIFY, f, dev)
          else if c = ''write'' then Some (CMD_WRITE, f, dev)
          else if c = ''jffs2write'' then Some (CMD_JFFS2WRITE, f, dev)
          else None
      | _ \<Rightarrow> None)"

text \<open>The numeric options and \<^verbatim>\<open>-f\<close>; \<open>img\<close> is what reading an image file yields, if it can be opened.\<close>

record mtd_args =
  ar_force :: bool
  ar_offset :: nat
  ar_data_size :: nat
  ar_part_offset :: nat
  ar_dump_len :: nat

definition main_open :: "'d mtd_sys \<Rightarrow> mtd_opts \<Rightarrow> mtd_args \<Rightarrow> (string \<Rightarrow> rd_ev list option) \<Rightarrow> mtd_cmd
    \<Rightarrow> string \<Rightarrow> string \<Rightarrow> ('d mt, unit) prog" where
  "main_open k opt a img cmd f device =
     (case cmd of
        CMD_WRITE \<Rightarrow> (case img f of
          None \<Rightarrow> mexit
        | Some evs \<Rightarrow> mseq (mupd (\<lambda>s. s\<lparr>img_left := evs\<rparr>))
            (mbind (mtd_check k device) (\<lambda>ok. if \<not> ok then mexit
               else mbind (image_check k opt device) (\<lambda>good. if \<not> good \<and> \<not> ar_force a then mexit else mret ()))))
      | CMD_JFFS2WRITE \<Rightarrow> mbind (mtd_check k device) (\<lambda>ok. if \<not> ok then mexit else mret ())
      | _ \<Rightarrow> mret ())"

fun main_erase :: "nat \<Rightarrow> 'd mtd_sys \<Rightarrow> string \<Rightarrow> string list \<Rightarrow> bool \<Rightarrow> ('d mt, bool) prog" where
  "main_erase n k device [] unlocked = mret unlocked"
| "main_erase n k device (e # es) unlocked =
     mseq (mtd_unlock k e) (mseq (mtd_erase n k e) (main_erase n k device es (unlocked \<or> e = device)))"

definition main_command :: "nat \<Rightarrow> 'd mtd_sys \<Rightarrow> mtd_opts \<Rightarrow> mtd_args \<Rightarrow> mtd_cmd \<Rightarrow> string \<Rightarrow> string \<Rightarrow> bool
    \<Rightarrow> ('d mt, unit) prog" where
  "main_command n k opt a cmd f device unlocked =
     (let unlock = (if unlocked then mret () else mtd_unlock k device) in
      case cmd of
        CMD_UNLOCK \<Rightarrow> unlock
      | CMD_VERIFY \<Rightarrow> mseq (mtd_verify n k device f) (mret ())
      | CMD_DUMP \<Rightarrow> mseq (mtd_dump n k device (to_s32 (int (ar_offset a))) (to_s32 (int (ar_dump_len a)))) (mret ())
      | CMD_ERASE \<Rightarrow> mseq unlock (mtd_erase n k device)
      | CMD_WRITE \<Rightarrow> mseq unlock (mtd_write n k opt device (ar_part_offset a))
      | CMD_JFFS2WRITE \<Rightarrow> mseq unlock (mseq (mtd_write_jffs2 n k opt device f) (mret ()))
      | CMD_FIXTRX \<Rightarrow> mseq (mtd_fixtrx n k opt device (ar_offset a) (ar_data_size a)) (mret ())
      | CMD_RESETBC \<Rightarrow> mseq (mtd_resetbc k device) (mret ())
      | CMD_FIXSEAMA \<Rightarrow> mseq (mtd_fixseama k device 0 (ar_data_size a)) (mret ())
      | CMD_FIXWRG \<Rightarrow> mseq (mtd_fixwrg k device 0 (ar_data_size a)) (mret ())
      | CMD_FIXWRGG \<Rightarrow> mseq (mtd_fixwrgg k device 0 (ar_data_size a)) (mret ()))"

definition mtd_main :: "nat \<Rightarrow> 'd mtd_sys \<Rightarrow> mtd_opts \<Rightarrow> mtd_args \<Rightarrow> (string \<Rightarrow> rd_ev list option) \<Rightarrow> string list
    \<Rightarrow> string list \<Rightarrow> ('d mt, unit) prog" where
  "mtd_main n k opt a img erase argv =
     (case mtd_command opt argv of
        None \<Rightarrow> mexit
      | Some (cmd, f, device) \<Rightarrow>
          mseq (main_open k opt a img cmd f device)
            (mbind (main_erase n k device erase False) (\<lambda>unlocked. main_command n k opt a cmd f device unlocked)))"

end
