(* ===== verification/Mtd_Flash.thy ===== *)
theory Mtd_Flash
  imports Mtd_Write
begin

text \<open>
  The contract of a flash device, as the locale \<open>mtd_flash\<close> over the kernel \<open>mtd_sys\<close>, and what
  the loop that writes an image does on a device that keeps it. The states of the run are
  tracked with \<open>open_at\<close> and \<open>upd_dev\<close>; \<open>run_simps\<close> executes the calls in between.
\<close>

section \<open>Executing runs\<close>

named_theorems run_simps \<open>symbolic execution of the runs of the flashing tool\<close>

lemma mbind_mret [run_simps]: "mbind (mret x) f s = f x s"
  by (simp add: mbind_def mret_def)

lemma mbind_mget [run_simps]: "mbind (mget g) f s = f (g s) s"
  by (simp add: mbind_def mget_def)

lemma mseq_mret [run_simps]: "mseq (mret x) q s = q s"
  by (simp add: mseq_def mbind_mret)

lemma mseq_mupd [run_simps]: "mseq (mupd g) q s = q (g s)"
  by (simp add: mseq_def mbind_def mupd_def)

lemma mseq_massert [run_simps]: "mseq (massert b) q s = (if b then q s else (Fault, s))"
  by (simp add: massert_def mseq_def mbind_def mret_def mfault_def)

lemma mret_run [run_simps]: "mret x s = (Ret x, s)"
  by (simp add: mret_def)

lemma mexit_run [run_simps]: "mexit s = (Exit, s)"
  by (simp add: mexit_def)

lemma mupd_run [run_simps]: "mupd g s = (Ret (), g s)"
  by (simp add: mupd_def)

lemma mbind_Ret: "p s = (Ret x, t) \<Longrightarrow> mbind p f s = f x t"
  by (simp add: mbind_def)

lemma mseq_Ret: "p s = (Ret x, t) \<Longrightarrow> mseq p q s = q t"
  by (simp add: mseq_def mbind_def)

lemma mbind_Exit: "p s = (Exit, t) \<Longrightarrow> mbind p f s = (Exit, t)"
  by (simp add: mbind_def)

lemma mbind_mseq [run_simps]: "mbind (mseq p q) f s = mseq p (mbind q f) s"
  by (auto simp: mseq_def mbind_def split: run.splits prod.splits)

lemma mbind_mbind [run_simps]: "mbind (mbind p q) f s = mbind p (\<lambda>x. mbind (q x) f) s"
  by (auto simp: mbind_def split: run.splits prod.splits)

lemma mseq_mbind [run_simps]: "mseq (mbind p q) r s = mbind p (\<lambda>x. mseq (q x) r) s"
  by (auto simp: mseq_def mbind_def split: run.splits prod.splits)

lemma mseq_mseq [run_simps]: "mseq (mseq p q) r s = mseq p (mseq q r) s"
  by (auto simp: mseq_def mbind_def split: run.splits prod.splits)

lemma mbind_on_dev [run_simps]:
  "mbind (on_dev fd g) f s = f (fst (g (devs s (fd_dev s fd))))
     (s\<lparr>devs := (devs s)(fd_dev s fd := snd (g (devs s (fd_dev s fd))))\<rparr>)"
  by (simp add: mbind_def on_dev_def Let_def)

lemma mseq_on_dev [run_simps]:
  "mseq (on_dev fd g) q s = q (s\<lparr>devs := (devs s)(fd_dev s fd := snd (g (devs s (fd_dev s fd))))\<rparr>)"
  by (simp add: mseq_def mbind_on_dev)

section \<open>Which device a name opens\<close>

definition dev_number :: "'d mtd_sys \<Rightarrow> string \<Rightarrow> bool \<Rightarrow> bool \<Rightarrow> nat option" where
  "dev_number k mtd block write_mode =
     (let dir = ''/dev/mtd'' @ (if block then ''block'' else []) in
      case (case sy_proc k of None \<Rightarrow> None | Some ls \<Rightarrow> find_line ([CHR 0x22] @ mtd @ [CHR 0x22]) ls) of
        Some i \<Rightarrow> (case sy_open k (dir @ ''/'' @ decimal i) write_mode of
          Some d \<Rightarrow> Some d | None \<Rightarrow> sy_open k (dir @ decimal i) write_mode)
      | None \<Rightarrow> sy_open k mtd write_mode)"

lemma open_path_eq:
  "open_path k path w s = (case sy_open k path w of None \<Rightarrow> (Ret None, s)
     | Some d \<Rightarrow> (Ret (Some (length (fds s))), s\<lparr>fds := fds s @ [(d, 0)]\<rparr>))"
  by (simp add: open_path_def alloc_fd_def mret_def split: option.split)

lemma mtd_open_eq:
  "mtd_open k mtd block w s = (case dev_number k mtd block w of None \<Rightarrow> (Ret None, s)
     | Some d \<Rightarrow> (Ret (Some (length (fds s))), s\<lparr>fds := fds s @ [(d, 0)]\<rparr>))"
  by (simp add: mtd_open_def dev_number_def Let_def mbind_def open_path_eq mret_def split: option.split)

section \<open>The contract of a flash device\<close>

text \<open>
  What the tool relies on, for the devices that satisfy \<open>ok\<close>: \<open>cont\<close> is the content,
  \<open>info\<close> the geometry, \<open>bad\<close> the set of bad blocks, by number. A good block can be erased,
  erased bytes can be written in units of the write size, reads return the content, positions
  up to the size are accepted, and none of this changes the geometry or the bad blocks.
\<close>

locale mtd_flash =
  fixes k :: "'d mtd_sys" and cont :: "'d \<Rightarrow> bytes" and info :: "'d \<Rightarrow> mtd_info_user"
    and bad :: "'d \<Rightarrow> nat \<Rightarrow> bool" and ok :: "'d \<Rightarrow> bool"
  assumes getinfo: "ok d \<Longrightarrow> sy_getinfo k d = Some (info d)"
    and geometry: "ok d \<Longrightarrow> length (cont d) = mi_size (info d) \<and> 0 < mi_erasesize (info d) \<and>
      mi_erasesize (info d) dvd mi_size (info d) \<and> mi_writesize (info d) dvd mi_erasesize (info d) \<and>
      mi_erasesize (info d) < 2 ^ 31 \<and> mi_size (info d) < 2 ^ 31"
    and isbad: "ok d \<Longrightarrow> off < mi_size (info d) \<Longrightarrow>
      sy_isbad k d (int off) = (if bad d (off div mi_erasesize (info d)) then 1 else 0)"
    and bad_nand: "ok d \<Longrightarrow> bad d b \<Longrightarrow> mi_type (info d) = MTD_NANDFLASH"
    and unlock: "ok d \<Longrightarrow> ok (sy_unlock k d start len) \<and> cont (sy_unlock k d start len) = cont d \<and>
      info (sy_unlock k d start len) = info d \<and> bad (sy_unlock k d start len) = bad d"
    and erase: "ok d \<Longrightarrow> (b + 1) * mi_erasesize (info d) \<le> mi_size (info d) \<Longrightarrow> \<not> bad d b \<Longrightarrow>
      \<exists>d'. sy_erase k d (b * mi_erasesize (info d)) (mi_erasesize (info d)) = (0, d') \<and> ok d' \<and>
        info d' = info d \<and> bad d' = bad d \<and>
        cont d' = store_at (cont d) (b * mi_erasesize (info d)) (replicate (mi_erasesize (info d)) 0xff)"
    and reads: "ok d \<Longrightarrow> p \<le> mi_size (info d) \<Longrightarrow> sy_read k d p n = (RdData (take n (drop p (cont d))), d)"
    and writes: "ok d \<Longrightarrow> p + length bs \<le> mi_size (info d) \<Longrightarrow>
      take (length bs) (drop p (cont d)) = replicate (length bs) 0xff \<Longrightarrow>
      mi_writesize (info d) dvd p \<Longrightarrow> mi_writesize (info d) dvd length bs \<Longrightarrow>
      \<exists>d'. sy_write k d p bs = (int (length bs), d') \<and> ok d' \<and> info d' = info d \<and> bad d' = bad d \<and>
        cont d' = store_at (cont d) p bs"
    and seek: "ok d \<Longrightarrow> sy_seek k d (int p) \<longleftrightarrow> p \<le> mi_size (info d)"
begin

lemma check_open:
  assumes "dev_number k mtd False w = Some i" "ok (devs s i)"
  shows "mtd_check_open k mtd w s = (Ret (Some (length (fds s))),
     s\<lparr>fds := fds s @ [(i, 0)], mtdsize := int (mi_size (info (devs s i))),
       erasesize := int (mi_erasesize (info (devs s i))), mtdtype := mi_type (info (devs s i))\<rparr>)"
  using geometry[OF assms(2)]
  by (simp add: mtd_check_open_def mbind_def[of "mtd_open _ _ _ _"] mtd_open_eq assms(1) run_simps
      fd_dev_def getinfo[OF assms(2)] width_simps)

lemma must_open:
  assumes "dev_number k mtd False True = Some i" "ok (devs s i)"
  shows "mtd_must_open k mtd s = (Ret (length (fds s)),
     s\<lparr>fds := fds s @ [(i, 0)], mtdsize := int (mi_size (info (devs s i))),
       erasesize := int (mi_erasesize (info (devs s i))), mtdtype := mi_type (info (devs s i))\<rparr>)"
  by (simp add: mtd_must_open_def mbind_def check_open[OF assms] mret_def)

end

section \<open>Writing the image, block by block\<close>

text \<open>\<open>upd_dev\<close>: the state after the device \<open>i\<close>, open as \<open>fd\<close>, changed to \<open>d\<close> and the position to \<open>p\<close>.\<close>

definition upd_dev :: "nat \<Rightarrow> 'd \<Rightarrow> nat \<Rightarrow> nat \<Rightarrow> 'd mt \<Rightarrow> 'd mt" where
  "upd_dev i d fd p s = s\<lparr>devs := (devs s)(i := d), fds := (fds s)[fd := (i, p)]\<rparr>"

lemma upd_dev_sel [simp]:
  "devs (upd_dev i d fd p s) = (devs s)(i := d)" "fds (upd_dev i d fd p s) = (fds s)[fd := (i, p)]"
  "mtdtype (upd_dev i d fd p s) = mtdtype s" "mtdsize (upd_dev i d fd p s) = mtdsize s"
  "erasesize (upd_dev i d fd p s) = erasesize s" "buflen (upd_dev i d fd p s) = buflen s"
  "mbuf (upd_dev i d fd p s) = mbuf s" "img_left (upd_dev i d fd p s) = img_left s"
  "jffs2file (upd_dev i d fd p s) = jffs2file s" "stdout_bytes (upd_dev i d fd p s) = stdout_bytes s"
  by (simp_all add: upd_dev_def)

lemma upd_dev_twice [simp]: "upd_dev i d fd p (upd_dev i d' fd p' s) = upd_dev i d fd p s"
  by (simp add: upd_dev_def)

lemma upd_dev_stay: "fds s ! fd = (i, p) \<Longrightarrow> upd_dev i d fd p s = s\<lparr>devs := (devs s)(i := d)\<rparr>"
proof (rule mt.equality)
  assume "fds s ! fd = (i, p)"
  then have "(fds s)[fd := (i, p)] = fds s" by (metis list_update_id)
  then show "fds (upd_dev i d fd p s) = fds (s\<lparr>devs := (devs s)(i := d)\<rparr>)" by simp
qed (simp_all add: upd_dev_def)

lemma upd_dev_same: "fds s ! fd = (i, p) \<Longrightarrow> devs s i = d \<Longrightarrow> upd_dev i d fd p s = s"
  by (rule mt.equality) (auto simp: upd_dev_stay)

lemma upd_dev_move: "devs s i = d \<Longrightarrow> upd_dev i d fd p s = s\<lparr>fds := (fds s)[fd := (i, p)]\<rparr>"
  by (rule mt.equality) (auto simp: upd_dev_def)

text \<open>\<open>open_at k ... s\<close>: the file \<open>fd\<close> is the device \<open>i\<close> in state \<open>d\<close> at position \<open>p\<close>, and the
  global variables describe that device.\<close>

definition open_at :: "('d \<Rightarrow> mtd_info_user) \<Rightarrow> nat \<Rightarrow> nat \<Rightarrow> 'd \<Rightarrow> nat \<Rightarrow> 'd mt \<Rightarrow> bool" where
  "open_at info fd i d p s \<longleftrightarrow> fd < length (fds s) \<and> fds s ! fd = (i, p) \<and> devs s i = d \<and>
     mtdtype s = mi_type (info d) \<and> mtdsize s = int (mi_size (info d)) \<and> erasesize s = int (mi_erasesize (info d))"

lemma open_at_upd:
  "open_at info fd i d p s \<Longrightarrow> info d' = info d \<Longrightarrow> open_at info fd i d' p' (upd_dev i d' fd p' s)"
  by (simp add: open_at_def)

context mtd_flash
begin

lemma blk_lt: "b + 1 \<le> (N::nat) \<Longrightarrow> 0 < es \<Longrightarrow> b * es < N * es"
  by simp

lemma block_is_bad:
  assumes "open_at info fd i d p s" "ok d" "(b + 1) * mi_erasesize (info d) \<le> mi_size (info d)"
  shows "mtd_block_is_bad k fd (int (b * mi_erasesize (info d))) s = (Ret (bad d b), s)"
proof -
  let ?es = "mi_erasesize (info d)"
  have lt: "b * ?es < mi_size (info d)" and es: "0 < ?es" and sm: "mi_size (info d) < 2 ^ 31"
    using assms(3) geometry[OF assms(2)] by (auto simp: distrib_right)
  then have "to_s32 (int (b * ?es)) = int (b * ?es)"
    by (intro to_s32_id) (auto simp del: of_nat_mult)
  then show ?thesis
    using assms(1,2) isbad[OF assms(2) lt] es bad_nand[OF assms(2), of b]
    by (auto simp: mtd_block_is_bad_def open_at_def fd_dev_def Let_def simp del: of_nat_mult)
qed

lemma erase_block:
  assumes "open_at info fd i d p s" "ok d" "(b + 1) * mi_erasesize (info d) \<le> mi_size (info d)" "\<not> bad d b"
  obtains d' where "mtd_erase_block k fd (int (b * mi_erasesize (info d))) s = (Ret True, upd_dev i d' fd p s)"
    "ok d'" "info d' = info d" "bad d' = bad d"
    "cont d' = store_at (cont d) (b * mi_erasesize (info d)) (replicate (mi_erasesize (info d)) 0xff)"
proof -
  let ?es = "mi_erasesize (info d)" and ?u = "sy_unlock k d (b * mi_erasesize (info d)) (mi_erasesize (info d))"
  have lt: "b * ?es < mi_size (info d)" "?es < 2 ^ 31" "mi_size (info d) < 2 ^ 31"
    using assms(3) geometry[OF assms(2)] by (auto simp: distrib_right)
  then have u: "to_u32 (int (b * ?es)) = b * ?es" "to_u32 (int ?es) = ?es"
    by (auto intro!: to_u32_of_nat simp del: of_nat_mult)
  have un: "ok ?u" "cont ?u = cont d" "info ?u = info d" "bad ?u = bad d" using unlock[OF assms(2)] by auto
  obtain d' where d': "sy_erase k ?u (b * ?es) ?es = (0, d')" "ok d'" "info d' = info d" "bad d' = bad d"
      "cont d' = store_at (cont d) (b * ?es) (replicate ?es 0xff)"
    using erase[OF un(1), of b] assms(3,4) un by auto
  have "mtd_erase_block k fd (int (b * ?es)) s = (Ret True, upd_dev i d' fd p s)"
    using assms(1) d'(1)
    by (simp add: mtd_erase_block_def run_simps u open_at_def mtd_unlock_range_def fd_dev_def upd_dev_stay
        del: of_nat_mult)
  with d' show ?thesis by (intro that) auto
qed

lemma seek_cur_moves:
  assumes "open_at info fd i d p s" "ok d" "p + n \<le> mi_size (info d)"
  shows "seek_cur k fd (int n) s = (Ret (), upd_dev i d fd (p + n) s)"
proof -
  have "sy_seek k d (int p + int n)" using seek[OF assms(2), of "p + n"] assms(3) by simp
  then show ?thesis
    using assms(1)
    by (simp add: seek_cur_def run_simps open_at_def mseq_def mbind_def[of "sys_lseek _ _ _"] sys_lseek_def
        fd_pos_def fd_dev_def set_pos_def upd_dev_move nat_add_distrib)
qed


lemma erase_ahead_block:
  assumes "open_at info fd i d (q * mi_erasesize (info d)) s" "ok d" "buflen s = mi_erasesize (info d)"
    and "wl_w l = int (j * mi_erasesize (info d))" "wl_e l = int (q * mi_erasesize (info d))"
    and "wl_skip_bad l = wl_e l - wl_w l" "q \<le> g" "\<forall>b. q \<le> b \<and> b < g \<longrightarrow> bad d b" "\<not> bad d g"
    and "(g + 1) * mi_erasesize (info d) \<le> mi_size (info d)" "g - q + 1 < n"
  shows "\<exists>d'. erase_ahead n k fd 0 l s =
       (Ret (l\<lparr>wl_e := int ((g + 1) * mi_erasesize (info d)),
               wl_skip_bad := int (g * mi_erasesize (info d)) - wl_w l\<rparr>, True),
        upd_dev i d' fd (g * mi_erasesize (info d)) s) \<and>
     ok d' \<and> info d' = info d \<and> bad d' = bad d \<and>
     cont d' = store_at (cont d) (g * mi_erasesize (info d)) (replicate (mi_erasesize (info d)) 0xff)"
  using assms
proof (induction n arbitrary: q s l)
  case (Suc n)
  let ?es = "mi_erasesize (info d)"
  note op = Suc.prems(1) and okd = Suc.prems(2)
  have es: "0 < ?es" using geometry[OF okd] by simp
  have esz: "erasesize s = int ?es" using op by (simp add: open_at_def)
  have need: "wl_w l + int (buflen s) > wl_e l - wl_skip_bad l" using Suc.prems es by simp
  have in_dev: "(q + 1) * ?es \<le> mi_size (info d)"
    using Suc.prems(7,10) by (meson add_le_cancel_right le_trans mult_le_mono1)
  have isb: "mtd_block_is_bad k fd (wl_e l) s = (Ret (bad d q), s)"
    unfolding Suc.prems(5) by (rule block_is_bad[OF op okd in_dev])
  show ?case
  proof (cases "q = g")
    case True
    obtain d' where d': "mtd_erase_block k fd (wl_e l) s = (Ret True, upd_dev i d' fd (q * ?es) s)"
      "ok d'" "info d' = info d" "bad d' = bad d" "cont d' = store_at (cont d) (q * ?es) (replicate ?es 0xff)"
      using erase_block[OF op okd in_dev] Suc.prems(5,9) True by metis
    obtain m where n: "n = Suc m" using Suc.prems(11) True by (cases n) auto
    have stop: "\<not> wl_w l + int (buflen s) > (wl_e l + int ?es) - wl_skip_bad l" using Suc.prems by simp
    have ls: "l\<lparr>wl_e := wl_e l + int ?es\<rparr> = l\<lparr>wl_e := int ((g + 1) * ?es), wl_skip_bad := int (g * ?es) - wl_w l\<rparr>"
      using Suc.prems(5,6) True by (simp add: algebra_simps)
    have "erase_ahead (Suc n) k fd 0 l s = (Ret (l\<lparr>wl_e := wl_e l + int ?es\<rparr>, True), upd_dev i d' fd (q * ?es) s)"
      using need stop True Suc.prems(9)
      by (simp add: run_simps mbind_Ret[of "mtd_block_is_bad k fd (wl_e l)" s, OF isb] mbind_Ret[of "mtd_erase_block k fd (wl_e l)" s, OF d'(1)] esz n del: of_nat_mult)
    then show ?thesis using d' True unfolding ls by blast
  next
    case False
    then have bd: "bad d q" and lt: "q < g" using Suc.prems(7,8) by auto
    let ?s = "upd_dev i d fd (q * ?es + ?es) s" and ?l = "l\<lparr>wl_skip_bad := wl_skip_bad l + int ?es, wl_e := wl_e l + int ?es\<rparr>"
    have seeks: "seek_cur k fd (int ?es) s = (Ret (), ?s)"
      using in_dev by (intro seek_cur_moves[OF op okd]) simp
    have "erase_ahead (Suc n) k fd 0 l s = erase_ahead n k fd 0 ?l ?s"
      using need bd by (simp add: run_simps mbind_Ret[of "mtd_block_is_bad k fd (wl_e l)" s, OF isb] mseq_Ret[of "seek_cur k fd (int ?es)" s, OF seeks] esz)
    moreover have "\<exists>d'. erase_ahead n k fd 0 ?l ?s =
       (Ret (?l\<lparr>wl_e := int ((g + 1) * ?es), wl_skip_bad := int (g * ?es) - wl_w ?l\<rparr>, True), upd_dev i d' fd (g * ?es) ?s) \<and>
       ok d' \<and> info d' = info d \<and> bad d' = bad d \<and> cont d' = store_at (cont d) (g * ?es) (replicate ?es 0xff)"
      using Suc.prems lt open_at_upd[OF op refl, of "q * ?es + ?es"]
      by (intro Suc.IH[where q = "Suc q"]) (auto simp: algebra_simps)
    ultimately show ?thesis by simp
  qed
qed simp

lemma write_block_here:
  assumes "open_at info fd i d p s" "ok d" "mbuf s = Some b" "length b = mi_erasesize (info d)"
    and "p + mi_erasesize (info d) \<le> mi_size (info d)" "mi_erasesize (info d) dvd p" "wl_offset l = 0"
    and "take (mi_erasesize (info d)) (drop p (cont d)) = replicate (mi_erasesize (info d)) 0xff"
  shows "\<exists>d'. wr_block k fd (mi_erasesize (info d)) l s =
      (Ret (l\<lparr>wl_w := wl_w l + int (mi_erasesize (info d)), wl_offset := 0\<rparr>),
       (upd_dev i d' fd (p + mi_erasesize (info d)) s)\<lparr>buflen := 0\<rparr>) \<and>
     ok d' \<and> info d' = info d \<and> bad d' = bad d \<and> cont d' = store_at (cont d) p b"
proof -
  let ?es = "mi_erasesize (info d)"
  have ws: "mi_writesize (info d) dvd ?es" using geometry[OF assms(2)] by simp
  then obtain d' where d': "sy_write k d p b = (int ?es, d')" "ok d'" "info d' = info d" "bad d' = bad d"
      "cont d' = store_at (cont d) p b"
    using writes[OF assms(2), of p b] assms(4,5,6,8) dvd_trans by metis
  have wr: "sys_write k fd b s = (Ret (int ?es), upd_dev i d' fd (p + ?es) s)"
    using assms(1) d'(1)
    by (simp add: sys_write_def Let_def run_simps open_at_def fd_dev_def fd_pos_def set_pos_def upd_dev_def)
  have get: "buf_get 0 ?es s = (Ret b, s)" using assms(3,4) by (simp add: buf_get_def)
  have "wr_block k fd ?es l s =
      (Ret (l\<lparr>wl_w := wl_w l + int ?es, wl_offset := 0\<rparr>), (upd_dev i d' fd (p + ?es) s)\<lparr>buflen := 0\<rparr>)"
    by (simp add: wr_block_def assms(7) run_simps mbind_Ret[of "sys_write k fd b" s, OF wr]
        mbind_Ret[of "buf_get 0 ?es" s, OF get])
  with d' show ?thesis by blast
qed

end

section \<open>What is written where\<close>

text \<open>
  The bytes of an image file that delivers them in pieces, with interruptions but without
  errors; the image cut into erase blocks, the last one padded; and the content of the device
  after blocks were stored at given block numbers.
\<close>

fun flat :: "rd_ev list \<Rightarrow> bytes" where
  "flat [] = []"
| "flat (RdData bs # evs) = bs @ flat evs"
| "flat (_ # evs) = flat evs"

definition img_ok :: "rd_ev list \<Rightarrow> bool" where
  "img_ok evs \<longleftrightarrow> RdErr \<notin> set evs \<and> RdData [] \<notin> set evs"

definition pad_block :: "nat \<Rightarrow> bytes \<Rightarrow> bytes" where
  "pad_block es bs = bs @ replicate (es - length bs) 0xff"

function img_blocks :: "nat \<Rightarrow> bytes \<Rightarrow> bytes list" where
  "img_blocks es bs = (if bs = [] \<or> es = 0 then [] else pad_block es (take es bs) # img_blocks es (drop es bs))"
  by pat_completeness auto
termination by (relation "measure (length \<circ> snd)") auto

declare img_blocks.simps [simp del]

fun put_blocks :: "nat \<Rightarrow> bytes \<Rightarrow> (nat \<times> bytes) list \<Rightarrow> bytes" where
  "put_blocks es c [] = c"
| "put_blocks es c ((g, b) # rest) = put_blocks es (store_at c (g * es) b) rest"

lemma img_blocks_Nil [simp]: "img_blocks es [] = []"
  by (simp add: img_blocks.simps)

lemma img_blocks_Cons:
  "bs \<noteq> [] \<Longrightarrow> 0 < es \<Longrightarrow> img_blocks es bs = pad_block es (take es bs) # img_blocks es (drop es bs)"
  by (subst img_blocks.simps) simp

lemma length_pad_block [simp]: "length bs \<le> es \<Longrightarrow> length (pad_block es bs) = es"
  by (simp add: pad_block_def)

lemma fill_buf_flat:
  "img_ok evs \<Longrightarrow> length acc \<le> want \<Longrightarrow>
     \<exists>evs'. fill_buf True want acc evs = (take want (acc @ flat evs), evs') \<and>
       flat evs' = drop want (acc @ flat evs) \<and> img_ok evs'"
proof (induction evs arbitrary: acc)
  case (Cons e evs)
  then have ok: "img_ok evs" by (simp add: img_ok_def)
  show ?case
  proof (cases "length acc = want")
    case True
    then show ?thesis using Cons.prems by (intro exI[of _ "e # evs"]) simp
  next
    case False
    show ?thesis
    proof (cases e)
      case (RdData bs)
      then have bs: "bs \<noteq> []" using Cons.prems(1) by (auto simp: img_ok_def)
      show ?thesis
      proof (cases "length bs \<le> want - length acc")
        case True
        then show ?thesis using Cons.IH[OF ok, of "acc @ bs"] Cons.prems(2) False RdData bs by simp
      next
        case False
        then show ?thesis using Cons.prems \<open>length acc \<noteq> want\<close> RdData bs ok by (simp add: img_ok_def)
      qed
    next
      case RdIntr
      then show ?thesis using Cons.IH[OF ok, of acc] Cons.prems(2) False by simp
    next
      case RdErr
      then show ?thesis using Cons.prems(1) by (simp add: img_ok_def)
    qed
  qed
qed (simp add: img_ok_def)

lemma filter_upt_Cons:
  assumes "filter P [q..<N] = g # gs"
  shows "q \<le> g \<and> g < N \<and> P g \<and> (\<forall>b. q \<le> b \<and> b < g \<longrightarrow> \<not> P b) \<and> gs = filter P [Suc g..<N]"
  using assms
proof (induction "N - q" arbitrary: q)
  case (Suc x)
  then have c: "[q..<N] = q # [Suc q..<N]" by (simp add: upt_conv_Cons)
  show ?case
  proof (cases "P q")
    case True
    then show ?thesis using Suc.prems Suc.hyps(2) c by auto
  next
    case False
    then have "filter P [Suc q..<N] = g # gs" using Suc.prems c by simp
    from Suc.hyps(1)[OF _ this] Suc.hyps(2) have ih: "Suc q \<le> g" "g < N" "P g"
      "\<forall>b. Suc q \<le> b \<and> b < g \<longrightarrow> \<not> P b" "gs = filter P [Suc g..<N]" by auto
    have "\<not> P b" if "q \<le> b" "b < g" for b using that False ih(4) by (cases "b = q") auto
    then show ?thesis using ih by auto
  qed
qed simp

text \<open>One round of reading: the next block of what is left of the image, padded.\<close>

lemma wr_fill_block:
  assumes "mbuf s = Some b" "length b = es" "buflen s \<le> es" "erasesize s = int es" "img_ok (img_left s)"
  defines "rest \<equiv> take (buflen s) b @ flat (img_left s)"
  shows "\<exists>evs. flat evs = drop es rest \<and> img_ok evs \<and>
    wr_fill s = (if rest = [] then (Ret 0, s\<lparr>mbuf := Some b, buflen := 0, img_left := evs\<rparr>)
      else (Ret es, s\<lparr>mbuf := Some (pad_block es (take es rest)), buflen := es, img_left := evs\<rparr>))"
proof -
  have "length (take (buflen s) b) \<le> es" using assms(2,3) by simp
  from fill_buf_flat[OF assms(5) this] obtain evs where
    f: "fill_buf True es (take (buflen s) b) (img_left s) = (take es rest, evs)" "flat evs = drop es rest" "img_ok evs"
    unfolding rest_def by blast
  let ?s = "s\<lparr>mbuf := Some (overlay b (take es rest)), buflen := length (take es rest), img_left := evs\<rparr>"
  have r: "read_image_into True es s = (Ret (), ?s)"
    using f assms(1,2) by (simp add: read_image_into_def Let_def)
  have "wr_fill s = (if rest = [] then (Ret 0, s\<lparr>mbuf := Some b, buflen := 0, img_left := evs\<rparr>)
      else (Ret es, s\<lparr>mbuf := Some (pad_block es (take es rest)), buflen := es, img_left := evs\<rparr>))"
  proof (cases "length rest < es")
    case True
    have "store_at (overlay b rest) (length rest) (replicate (es - length rest) 0xff) = pad_block es rest"
      using True assms(2) by (simp add: store_at_def overlay_def pad_block_def)
    then show ?thesis
      using True assms(2,4)
      by (auto simp: wr_fill_def run_simps mseq_Ret[of "read_image_into True es" s, OF r] mseq_def[of "buf_store _ _"]
          mbind_def[of "buf_store _ _"] buf_store_def)
  next
    case False
    then have "overlay b (take es rest) = take es rest" using assms(2) by (simp add: overlay_def)
    then show ?thesis
      using False assms(2,4)
      by (auto simp: wr_fill_def run_simps mseq_Ret[of "read_image_into True es" s, OF r] pad_block_def min_def)
  qed
  with f show ?thesis by blast
qed


lemma write_loop_step:
  assumes "wr_fill s = (Ret len, t)" "len \<noteq> 0" "wl_skip l = 0" "wr_jffs2 n k opt fd len l t = (Ret None, t)"
    and "\<not> no_erase opt"
  shows "write_loop (Suc n) k opt part_offset ms fd mtd l s =
     mbind (erase_ahead n k fd part_offset l) (\<lambda>er. if snd er then mbind (wr_block k fd len (fst er))
            (\<lambda>l2. write_loop n k opt part_offset ms fd mtd l2)
       else case ms of [] \<Rightarrow> mexit | m # ms \<Rightarrow> mbind (wr_leave k fd (fst er)) (\<lambda>l2.
             mbind (wr_open k opt part_offset m) (\<lambda>fd2. write_loop n k opt part_offset ms fd2 m l2))) t"
  using assms(2,3,5)
  by (simp add: mbind_Ret[of wr_fill s, OF assms(1)] mbind_Ret[of "wr_jffs2 n k opt fd len l" t, OF assms(4)])

lemma store_at_twice:
  "length bs = length cs \<Longrightarrow> p + length bs \<le> length c \<Longrightarrow> store_at (store_at c p cs) p bs = store_at c p bs"
  by (simp add: store_at_def)

context mtd_flash
begin

text \<open>One block of the image goes to the next good block.\<close>

lemma write_one_block:
  assumes "open_at info fd i d (q * mi_erasesize (info d)) s" "ok d" "buflen s = mi_erasesize (info d)"
    and "mbuf s = Some b" "length b = mi_erasesize (info d)" "jffs2file s = None"
    and "wl_w l = int (j * mi_erasesize (info d))" "wl_e l = int (q * mi_erasesize (info d))"
    and "wl_skip_bad l = wl_e l - wl_w l" "wl_offset l = 0"
    and "q \<le> g" "\<forall>b. q \<le> b \<and> b < g \<longrightarrow> bad d b" "\<not> bad d g"
    and "(g + 1) * mi_erasesize (info d) \<le> mi_size (info d)" "g - q + 1 < n"
  shows "\<exists>d'. mbind (erase_ahead n k fd 0 l) (\<lambda>er. if snd er then mbind (wr_block k fd (mi_erasesize (info d)) (fst er)) f
         else h er) s =
      f (l\<lparr>wl_w := int (Suc j * mi_erasesize (info d)), wl_e := int (Suc g * mi_erasesize (info d)),
           wl_skip_bad := int (Suc g * mi_erasesize (info d)) - int (Suc j * mi_erasesize (info d))\<rparr>)
        ((upd_dev i d' fd (Suc g * mi_erasesize (info d)) s)\<lparr>buflen := 0\<rparr>) \<and>
     ok d' \<and> info d' = info d \<and> bad d' = bad d \<and> cont d' = store_at (cont d) (g * mi_erasesize (info d)) b"
proof -
  let ?es = "mi_erasesize (info d)"
  let ?l = "l\<lparr>wl_e := int ((g + 1) * ?es), wl_skip_bad := int (g * ?es) - wl_w l\<rparr>"
  obtain d1 where d1: "erase_ahead n k fd 0 l s = (Ret (?l, True), upd_dev i d1 fd (g * ?es) s)"
    "ok d1" "info d1 = info d" "bad d1 = bad d" "cont d1 = store_at (cont d) (g * ?es) (replicate ?es 0xff)"
    using erase_ahead_block[OF assms(1,2,3,7,8,9,11,12,13,14,15)] by blast
  let ?s = "upd_dev i d1 fd (g * ?es) s"
  have lc: "length (cont d) = mi_size (info d)" using geometry[OF assms(2)] by simp
  have gin: "g * ?es + ?es \<le> mi_size (info d)" using assms(14) by simp
  have "take ?es (drop (g * ?es) (cont d1)) = replicate ?es 0xff"
    unfolding d1(5) using gin lc take_drop_store_at[of "g * ?es" "replicate ?es 0xff" "cont d"] by simp
  then obtain d2 where d2: "wr_block k fd ?es ?l ?s = (Ret (?l\<lparr>wl_w := wl_w ?l + int ?es, wl_offset := 0\<rparr>),
       (upd_dev i d2 fd (g * ?es + ?es) ?s)\<lparr>buflen := 0\<rparr>)"
    "ok d2" "info d2 = info d" "bad d2 = bad d" "cont d2 = store_at (cont d1) (g * ?es) b"
    using write_block_here[OF open_at_upd[OF assms(1) d1(3), of "g * ?es"] d1(2), of b ?l] assms(4,5,10) gin d1(3,4) by auto
  have ll: "?l\<lparr>wl_w := wl_w ?l + int ?es, wl_offset := 0\<rparr> =
      l\<lparr>wl_w := int (Suc j * ?es), wl_e := int (Suc g * ?es), wl_skip_bad := int (Suc g * ?es) - int (Suc j * ?es)\<rparr>"
    using assms(7,10) by (simp add: algebra_simps)
  have "mbind (erase_ahead n k fd 0 l) (\<lambda>er. if snd er then mbind (wr_block k fd ?es (fst er)) f else h er) s =
      f (?l\<lparr>wl_w := wl_w ?l + int ?es, wl_offset := 0\<rparr>) ((upd_dev i d2 fd (g * ?es + ?es) ?s)\<lparr>buflen := 0\<rparr>)"
    unfolding mbind_Ret[of "erase_ahead n k fd 0 l" s, OF d1(1)] fst_conv snd_conv if_True
    by (rule mbind_Ret[of "wr_block k fd ?es ?l" ?s, OF d2(1)])
  moreover have "cont d2 = store_at (cont d) (g * ?es) b"
    unfolding d2(5) d1(5) using gin lc assms(5) by (intro store_at_twice) simp_all
  ultimately show ?thesis using d2(2-4) unfolding ll by (auto simp: add.commute)
qed

lemma write_loop_blocks:
  assumes "open_at info fd i d (q * mi_erasesize (info d)) s" "ok d" "jffs2file s = None" "\<not> no_erase opt"
    and "mbuf s = Some b" "length b = mi_erasesize (info d)" "buflen s \<le> mi_erasesize (info d)" "img_ok (img_left s)"
    and "wl_w l = int (j * mi_erasesize (info d))" "wl_e l = int (q * mi_erasesize (info d))"
    and "wl_skip_bad l = wl_e l - wl_w l" "wl_offset l = 0" "wl_skip l = 0"
    and "mi_size (info d) = N * mi_erasesize (info d)"
    and "blks = img_blocks (mi_erasesize (info d)) (take (buflen s) b @ flat (img_left s))"
    and "gs = filter (\<lambda>g. \<not> bad d g) [q..<N]" "length blks \<le> length gs" "length blks + N + 1 < n"
  shows "\<exists>d' s' l'. write_loop n k opt 0 ms fd mtd l s = (Ret (fd, mtd, l'), s') \<and> wl_replaced l' = wl_replaced l \<and>
     devs s' = (devs s)(i := d') \<and> ok d' \<and> info d' = info d \<and> bad d' = bad d \<and>
     cont d' = put_blocks (mi_erasesize (info d)) (cont d) (zip gs blks)"
  using assms
proof (induction n arbitrary: q j s l d b blks gs)
  case (Suc n)
  let ?es = "mi_erasesize (info d)" and ?rest = "take (buflen s) b @ flat (img_left s)"
  note op = Suc.prems(1) and okd = Suc.prems(2)
  have es: "0 < ?es" and esz: "erasesize s = int ?es" using geometry[OF okd] op by (simp_all add: open_at_def)
  obtain evs where evs: "flat evs = drop ?es ?rest" "img_ok evs" and fill:
    "wr_fill s = (if ?rest = [] then (Ret 0, s\<lparr>mbuf := Some b, buflen := 0, img_left := evs\<rparr>)
      else (Ret ?es, s\<lparr>mbuf := Some (pad_block ?es (take ?es ?rest)), buflen := ?es, img_left := evs\<rparr>))"
    using wr_fill_block[OF Suc.prems(5,6,7) esz Suc.prems(8)] by blast
  show ?case
  proof (cases "?rest = []")
    case True
    have f0: "wr_fill s = (Ret 0, s\<lparr>mbuf := Some b, buflen := 0, img_left := evs\<rparr>)" using fill unfolding if_P[OF True] .
    have "write_loop (Suc n) k opt 0 ms fd mtd l s = (Ret (fd, mtd, l), s\<lparr>mbuf := Some b, buflen := 0, img_left := evs\<rparr>)"
      by (simp add: mbind_Ret[of wr_fill s, OF f0] run_simps)
    moreover have "blks = []" using Suc.prems(15) unfolding True by simp
    moreover have "devs s = (devs s)(i := d)" using op by (auto simp: open_at_def)
    ultimately show ?thesis using okd
      by (intro exI[of _ d] exI[of _ "s\<lparr>mbuf := Some b, buflen := 0, img_left := evs\<rparr>"] exI[of _ l])
         (simp del: write_loop.simps)
  next
    case False
    let ?blk = "pad_block ?es (take ?es ?rest)"
    let ?s = "s\<lparr>mbuf := Some ?blk, buflen := ?es, img_left := evs\<rparr>"
    have f1: "wr_fill s = (Ret ?es, ?s)" using fill unfolding if_not_P[OF False] .
    have blks: "blks = ?blk # img_blocks ?es (drop ?es ?rest)"
      unfolding Suc.prems(15) using False es by (rule img_blocks_Cons)
    then obtain g gs' where gs: "gs = g # gs'" using Suc.prems(17) by (cases gs) auto
    have "filter (\<lambda>g. \<not> bad d g) [q..<N] = g # gs'" using Suc.prems(16) gs by simp
    from filter_upt_Cons[OF this] have g: "q \<le> g" "g < N" "\<not> bad d g" "\<forall>b. q \<le> b \<and> b < g \<longrightarrow> bad d b"
      and gs': "gs' = filter (\<lambda>g. \<not> bad d g) [Suc g..<N]" by blast+
    have gin: "(g + 1) * ?es \<le> mi_size (info d)" 
      using g(2) unfolding Suc.prems(14) by (intro mult_le_mono1) simp
    let ?l = "l\<lparr>wl_w := int (Suc j * ?es), wl_e := int (Suc g * ?es),
           wl_skip_bad := int (Suc g * ?es) - int (Suc j * ?es)\<rparr>"
    have ops: "open_at info fd i d (q * ?es) ?s" using op by (simp add: open_at_def)
    have j0: "wr_jffs2 n k opt fd ?es l ?s = (Ret None, ?s)" using Suc.prems(3) by (simp add: wr_jffs2_def run_simps)
    let ?h = "\<lambda>er. case ms of [] \<Rightarrow> mexit | m # ms \<Rightarrow> mbind (wr_leave k fd (fst er)) (\<lambda>l2.
             mbind (wr_open k opt 0 m) (\<lambda>fd2. write_loop n k opt 0 ms fd2 m l2))"
    have pre: "buflen ?s = ?es" "mbuf ?s = Some ?blk" "length ?blk = ?es" "jffs2file ?s = None" "g - q + 1 < n"
      using Suc.prems(3,18) g(2) by simp_all
    obtain d' where d': "mbind (erase_ahead n k fd 0 l) (\<lambda>er. if snd er then mbind (wr_block k fd ?es (fst er))
            (\<lambda>l2. write_loop n k opt 0 ms fd mtd l2) else ?h er) ?s =
        write_loop n k opt 0 ms fd mtd ?l ((upd_dev i d' fd (Suc g * ?es) ?s)\<lparr>buflen := 0\<rparr>)"
      "ok d'" "info d' = info d" "bad d' = bad d" "cont d' = store_at (cont d) (g * ?es) ?blk"
      using write_one_block[OF ops okd pre(1-4) Suc.prems(9,10,11,12) g(1,4,3) gin pre(5), of
          "\<lambda>l2. write_loop n k opt 0 ms fd mtd l2" ?h]
      by (elim exE conjE) (rule that)
    let ?t = "(upd_dev i d' fd (Suc g * ?es) ?s)\<lparr>buflen := 0\<rparr>"
    have step: "write_loop (Suc n) k opt 0 ms fd mtd l s = write_loop n k opt 0 ms fd mtd ?l ?t"
      unfolding write_loop_step[OF f1 less_imp_neq[OF es, THEN not_sym] Suc.prems(13) j0 Suc.prems(4), of 0 ms mtd]
      by (rule d'(1))
    have "\<exists>d'' s' l'. write_loop n k opt 0 ms fd mtd ?l ?t = (Ret (fd, mtd, l'), s') \<and> wl_replaced l' = wl_replaced ?l \<and>
       devs s' = (devs ?t)(i := d'') \<and> ok d'' \<and> info d'' = info d' \<and> bad d'' = bad d' \<and>
       cont d'' = put_blocks (mi_erasesize (info d')) (cont d') (zip gs' (img_blocks ?es (drop ?es ?rest)))"
    proof (rule Suc.IH[where q = "Suc g" and j = "Suc j" and b = ?blk])
      show "open_at info fd i d' (Suc g * mi_erasesize (info d')) ?t"
        using op d'(3) by (simp add: open_at_def)
      show "length (img_blocks ?es (drop ?es ?rest)) + N + 1 < n" using Suc.prems(18) blks by simp
      show "gs' = filter (\<lambda>g. \<not> bad d' g) [Suc g..<N]" using gs' d'(4) by simp
      show "length (img_blocks ?es (drop ?es ?rest)) \<le> length gs'" using Suc.prems(17) blks gs by simp
      show "img_blocks ?es (drop ?es ?rest) = img_blocks (mi_erasesize (info d')) (take (buflen ?t) ?blk @ flat (img_left ?t))"
        using evs(1) d'(3) by simp
    qed (use Suc.prems d' evs in simp_all)
    then obtain d2 s' l' where fin: "write_loop n k opt 0 ms fd mtd ?l ?t = (Ret (fd, mtd, l'), s')"
      "wl_replaced l' = wl_replaced ?l" "devs s' = (devs ?t)(i := d2)" "ok d2" "info d2 = info d'" "bad d2 = bad d'"
      "cont d2 = put_blocks (mi_erasesize (info d')) (cont d') (zip gs' (img_blocks ?es (drop ?es ?rest)))" by blast
    have "cont d2 = put_blocks ?es (cont d) (zip gs blks)" unfolding fin(7) d'(3,5) blks gs by simp
    moreover have "devs s' = (devs s)(i := d2)" unfolding fin(3) by simp
    moreover have "wl_replaced l' = wl_replaced l" using fin(2) by simp
    ultimately show ?thesis unfolding step using fin(1,4) fin(5,6)[unfolded d'(3,4)] by blast
  qed
qed simp

end

section \<open>Blocks of an image and of a device\<close>

lemma nth_img_blocks:
  "r * es < length bs \<Longrightarrow> 0 < es \<Longrightarrow> r < length (img_blocks es bs) \<and>
     img_blocks es bs ! r = pad_block es (take es (drop (r * es) bs))"
proof (induction r arbitrary: bs)
  case 0
  then show ?case by (simp add: img_blocks_Cons)
next
  case (Suc r)
  then have "bs \<noteq> []" "r * es < length (drop es bs)" by auto
  with Suc.IH[of "drop es bs"] Suc.prems(2) show ?case
    by (simp add: img_blocks_Cons add.commute)
qed

lemma img_blocks_bound: "length bs \<le> m * es \<Longrightarrow> 0 < es \<Longrightarrow> length (img_blocks es bs) \<le> m"
proof (induction m arbitrary: bs)
  case (Suc m)
  show ?case
  proof (cases "bs = []")
    case False
    then show ?thesis using Suc.IH[of "drop es bs"] Suc.prems by (simp add: img_blocks_Cons)
  qed simp
qed simp

lemma img_blocks_cover: "r < length (img_blocks es bs) \<Longrightarrow> r * es < length bs"
proof (induction es bs arbitrary: r rule: img_blocks.induct)
  case (1 es bs)
  then show ?case
  proof (cases "bs = [] \<or> es = 0")
    case False
    show ?thesis
    proof (cases r)
      case (Suc r')
      then have "r' * es < length (drop es bs)" using 1 False by (auto simp: img_blocks_Cons)
      then show ?thesis using Suc by simp
    qed (use False in simp)
  qed (auto simp: img_blocks.simps)
qed

lemma length_of_img_blocks: "b \<in> set (img_blocks es bs) \<Longrightarrow> length b = es"
proof (induction es bs rule: img_blocks.induct)
  case (1 es bs)
  then show ?case by (cases "bs = [] \<or> es = 0") (auto simp: img_blocks.simps[of es bs])
qed

text \<open>Storing blocks at distinct places: each place holds its block, the rest is unchanged.\<close>

lemma put_blocks_length:
  "\<forall>(g, b) \<in> set gbs. length b = es \<and> g * es + es \<le> length c \<Longrightarrow> length (put_blocks es c gbs) = length c"
  by (induction gbs arbitrary: c) auto

lemma put_blocks_other:
  "\<forall>(g, b) \<in> set gbs. length b = es \<and> g * es + es \<le> length c \<Longrightarrow> 0 < es \<Longrightarrow> x < length c \<Longrightarrow>
     x div es \<notin> fst ` set gbs \<Longrightarrow> put_blocks es c gbs ! x = c ! x"
proof (induction gbs arbitrary: c)
  case (Cons gb gbs)
  obtain g b where gb: "gb = (g, b)" by force
  have "\<not> (g * es \<le> x \<and> x < g * es + es)" using Cons.prems(2,4) gb in_block_iff[of es g x] by auto
  then have "store_at c (g * es) b ! x = c ! x" using Cons.prems(1,3) gb by (auto simp: nth_store_at)
  then show ?case using Cons.IH[of "store_at c (g * es) b"] Cons.prems gb by auto
qed simp

lemma put_blocks_block:
  "\<forall>(g, b) \<in> set gbs. length b = es \<and> g * es + es \<le> length c \<Longrightarrow> 0 < es \<Longrightarrow> distinct (map fst gbs) \<Longrightarrow>
     r < length gbs \<Longrightarrow> take es (drop (fst (gbs ! r) * es) (put_blocks es c gbs)) = snd (gbs ! r)"
proof (induction gbs arbitrary: c r)
  case (Cons gb gbs)
  obtain g b where gb: "gb = (g, b)" by force
  let ?c = "store_at c (g * es) b"
  have len: "length b = es" "g * es + es \<le> length c" and lc: "length ?c = length c"
    using Cons.prems(1) gb by auto
  have ok: "\<forall>(g, b) \<in> set gbs. length b = es \<and> g * es + es \<le> length ?c" using Cons.prems(1) lc by auto
  show ?case
  proof (cases r)
    case 0
    have "put_blocks es ?c gbs ! x = ?c ! x" if "g * es \<le> x" "x < g * es + es" for x
    proof (rule put_blocks_other[OF ok Cons.prems(2)])
      show "x < length ?c" using that len(2) lc by simp
      have "x div es = g" using that in_block_iff[OF Cons.prems(2), of g x] by simp
      then show "x div es \<notin> fst ` set gbs" using Cons.prems(3) gb by simp
    qed
    then have "take es (drop (g * es) (put_blocks es ?c gbs)) = take es (drop (g * es) ?c)"
      using put_blocks_length[OF ok] lc len by (intro nth_equalityI) auto
    then show ?thesis using 0 gb len take_drop_store_at[of "g * es" b c] by simp
  next
    case (Suc r')
    then show ?thesis using Cons.IH[OF ok Cons.prems(2), of r'] Cons.prems(3,4) gb by simp
  qed
qed simp

lemma split_colon_single: "CHR '':'' \<notin> set m \<Longrightarrow> split_colon m = [m]"
  by (induction m) auto

section \<open>Images that are accepted\<close>

text \<open>
  When \<^verbatim>\<open>image_check\<close> accepts an image: its first four bytes are read without an interrupted call;
  and for a partition called \<^verbatim>\<open>firmware\<close>, a TRX image comes with its whole header in the first read,
  its magic number and a length that fits into the partition, and an image of unknown format is
  not written on the targets that require one.
\<close>

definition magic_read :: "rd_ev list \<Rightarrow> bool" where
  "magic_read evs \<longleftrightarrow> (\<exists>pre later. evs = pre @ later \<and> RdIntr \<notin> set pre \<and> 4 \<le> length (flat pre))"

definition trx_accepted :: "mtd_opts \<Rightarrow> mtd_info_user \<Rightarrow> rd_ev list \<Rightarrow> bool" where
  "trx_accepted opt i evs \<longleftrightarrow>
     (\<exists>bs later. evs = RdData bs # later \<and> 32 \<le> length bs) \<and> 32 \<le> mi_erasesize i \<and>
     be32_at (flat evs) 0 = opt_trxmagic opt \<and> 28 \<le> unat (u32_at (flat evs) 4) \<and> unat (u32_at (flat evs) 4) \<le> mi_size i"

definition image_accepted ::
  "mtd_opts \<Rightarrow> string \<Rightarrow> mtd_info_user \<Rightarrow> mtd_image_format \<Rightarrow> rd_ev list \<Rightarrow> bool" where
  "image_accepted opt mtd i fmt evs \<longleftrightarrow>
     magic_read evs \<and>
     (mtd = ''firmware'' \<longrightarrow>
        (case set_format opt (take 4 (flat evs)) fmt of
           FMT_TRX \<Rightarrow> lk_trx opt \<longrightarrow> trx_accepted opt i evs
         | FMT_UNKNOWN \<Rightarrow> \<not> target_brcm opt
         | _ \<Rightarrow> True))"

lemma image_accepted_other:
  "RdIntr \<notin> set evs \<Longrightarrow> 4 \<le> length (flat evs) \<Longrightarrow> mtd \<noteq> ''firmware'' \<Longrightarrow> image_accepted opt mtd i fmt evs"
  unfolding image_accepted_def magic_read_def by (auto intro: exI[of _ evs])

lemma flat_append [simp]: "flat (a @ b) = flat a @ flat b"
  by (induction a rule: flat.induct) auto

lemma fill_buf_no_intr:
  "RdIntr \<notin> set pre \<Longrightarrow> img_ok (pre @ later) \<Longrightarrow> want \<le> length acc + length (flat pre) \<Longrightarrow>
     fill_buf False want acc (pre @ later) = fill_buf True want acc (pre @ later)"
proof (induction pre arbitrary: acc)
  case Nil
  then show ?case by (cases later) auto
next
  case (Cons e pre)
  then show ?case by (cases e) (auto simp: img_ok_def)
qed

lemma be32_at_of_take: "i + 4 \<le> n \<Longrightarrow> be32_at (take n bs) i = be32_at bs i"
  by (auto simp: be32_at_def byte_at_def)

lemma u32_at_of_take: "i + 4 \<le> n \<Longrightarrow> u32_at (take n bs) i = u32_at bs i"
  by (auto simp: u32_at_def byte_at_def)

lemma image_read_first:
  assumes "RdData bs # later = evs" "32 \<le> length bs" "img_ok evs"
  shows "\<exists>rest. image_read 28 (snd (fill_buf False 4 [] evs)) = (RdData (take 28 (drop 4 bs)), rest) \<and>
     flat rest = drop 32 (flat evs) \<and> img_ok rest"
proof -
  have f: "fill_buf False 4 [] evs = (take 4 bs, RdData (drop 4 bs) # later)" using assms by auto
  have "drop 32 bs = [] \<Longrightarrow> length bs = 32" using assms(2) by simp
  then show ?thesis using assms by (auto simp: f img_ok_def)
qed

section \<open>Good blocks\<close>

definition good_blocks :: "('d \<Rightarrow> mtd_info_user) \<Rightarrow> ('d \<Rightarrow> nat \<Rightarrow> bool) \<Rightarrow> 'd \<Rightarrow> nat list" where
  "good_blocks info bad d = filter (\<lambda>g. \<not> bad d g) [0..<mi_size (info d) div mi_erasesize (info d)]"

context mtd_flash
begin

lemma unlock_device:
  assumes "dev_number k mtd False True = Some i" "ok (devs s i)" "CHR '':'' \<notin> set mtd"
  obtains d' where "mtd_unlock k mtd s = (Ret (),
     s\<lparr>fds := fds s @ [(i, 0)], mtdsize := int (mi_size (info (devs s i))),
       erasesize := int (mi_erasesize (info (devs s i))), mtdtype := mi_type (info (devs s i)), devs := (devs s)(i := d')\<rparr>)"
    "ok d'" "cont d' = cont (devs s i)" "info d' = info (devs s i)" "bad d' = bad (devs s i)"
proof -
  let ?n = "to_u32 (int (mi_size (info (devs s i))))"
  note op = must_open[OF assms(1,2)]
  have "mtd_unlock k mtd s = (Ret (), s\<lparr>fds := fds s @ [(i, 0)], mtdsize := int (mi_size (info (devs s i))),
       erasesize := int (mi_erasesize (info (devs s i))), mtdtype := mi_type (info (devs s i)),
       devs := (devs s)(i := sy_unlock k (devs s i) 0 ?n)\<rparr>)"
    by (simp add: mtd_unlock_def split_colon_single[OF assms(3)] mbind_Ret[of "mtd_must_open k mtd" s, OF op] run_simps
        mtd_unlock_range_def fd_dev_def)
  then show ?thesis using unlock[OF assms(2), of 0 ?n] by (intro that[of "sy_unlock k (devs s i) 0 ?n"]) auto
qed

text \<open>A partition without a recovery flag to write: the image goes to the good blocks in order.\<close>

lemma write_partition:
  assumes "dev_number k mtd False True = Some i" "ok (devs s i)" "CHR '':'' \<notin> set mtd"
    and "jffs2file s = None" "\<not> no_erase opt" "tpl_uboot_args_part opt = None"
    and "mbuf s = Some b" "length b = mi_erasesize (info (devs s i))" "buflen s \<le> length b" "img_ok (img_left s)"
    and "length (take (buflen s) b @ flat (img_left s)) \<le> length (good_blocks info bad (devs s i)) * mi_erasesize (info (devs s i))"
    and "2 * (mi_size (info (devs s i)) div mi_erasesize (info (devs s i))) + 1 < n"
  shows "\<exists>t d'. mtd_write n k opt mtd 0 s = (Ret (), t) \<and> devs t = (devs s)(i := d') \<and> ok d' \<and>
     info d' = info (devs s i) \<and> bad d' = bad (devs s i) \<and>
     cont d' = put_blocks (mi_erasesize (info (devs s i))) (cont (devs s i)) (zip (good_blocks info bad (devs s i))
       (img_blocks (mi_erasesize (info (devs s i))) (take (buflen s) b @ flat (img_left s))))"
proof -
  let ?d = "devs s i" and ?fd = "length (fds s)" let ?es = "mi_erasesize (info ?d)" let ?N = "mi_size (info ?d) div ?es"
  let ?bs = "img_blocks ?es (take (buflen s) b @ flat (img_left s))"
  let ?s = "s\<lparr>fds := fds s @ [(i, 0)], mtdsize := int (mi_size (info ?d)), erasesize := int ?es, mtdtype := mi_type (info ?d)\<rparr>"
  have geo: "0 < ?es" "?es dvd mi_size (info ?d)" using geometry[OF assms(2)] by auto
  have nb: "length ?bs \<le> length (good_blocks info bad ?d)" using img_blocks_bound[OF assms(11) geo(1)] .
  have "length (good_blocks info bad ?d) \<le> ?N"
    unfolding good_blocks_def using length_filter_le[of _ "[0..<?N]"] by simp
  with nb have fuel: "length ?bs + ?N + 1 < n" using assms(12) by linarith
  have wo: "wr_open k opt 0 mtd s = (Ret ?fd, ?s)"
    by (simp add: wr_open_def mbind_Ret[of "mtd_must_open k mtd" s, OF must_open[OF assms(1,2)]] run_simps wr_flag_def assms(6))
  have "\<exists>d' s' l'. write_loop n k opt 0 [] ?fd mtd wr_start ?s = (Ret (?fd, mtd, l'), s') \<and> wl_replaced l' = wl_replaced wr_start \<and>
     devs s' = (devs ?s)(i := d') \<and> ok d' \<and> info d' = info ?d \<and> bad d' = bad ?d \<and>
     cont d' = put_blocks ?es (cont ?d) (zip (good_blocks info bad ?d) ?bs)"
    by (rule write_loop_blocks[where q = 0 and j = 0 and N = ?N])
       (use assms geo nb fuel in \<open>auto simp: open_at_def wr_start_def good_blocks_def\<close>)
  then obtain d' s' l' where lp: "write_loop n k opt 0 [] ?fd mtd wr_start ?s = (Ret (?fd, mtd, l'), s')"
    "\<not> wl_replaced l'" "devs s' = (devs s)(i := d')" "ok d'" "info d' = info ?d" "bad d' = bad ?d"
    "cont d' = put_blocks ?es (cont ?d) (zip (good_blocks info bad ?d) ?bs)"
    by (auto simp: wr_start_def)
  have "mtd_write n k opt mtd 0 s = (Ret (), s')"
    using lp(2) by (simp add: mtd_write_def split_colon_single[OF assms(3)] mbind_Ret[of "wr_open k opt 0 mtd" s, OF wo]
        mbind_Ret[of "write_loop n k opt 0 [] ?fd mtd wr_start" ?s, OF lp(1)] run_simps wr_flag_def assms(6)
        del: write_loop.simps)
  with lp show ?thesis by blast
qed


lemma read_magic:
  assumes "img_ok evs" "magic_read evs" "mbuf s = Some b" "4 \<le> length b" "buflen s = 0" "img_left s = evs"
  shows "\<exists>evs'. read_image_into False 4 s = (Ret (), s\<lparr>mbuf := Some (overlay b (take 4 (flat evs))), buflen := 4, img_left := evs'\<rparr>) \<and>
     evs' = snd (fill_buf False 4 [] evs) \<and> flat evs' = drop 4 (flat evs) \<and> img_ok evs' \<and> 4 \<le> length (flat evs)"
proof -
  obtain pre later where pre: "evs = pre @ later" "RdIntr \<notin> set pre" "4 \<le> length (flat pre)"
    using assms(2) by (auto simp: magic_read_def)
  then have same: "fill_buf False 4 [] evs = fill_buf True 4 [] evs"
    using fill_buf_no_intr[of pre later 4 "[]"] assms(1) by simp
  obtain evs' where "fill_buf True 4 [] evs = (take 4 (flat evs), evs')" "flat evs' = drop 4 (flat evs)" "img_ok evs'"
    using fill_buf_flat[OF assms(1), of "[]" 4] by auto
  moreover have "4 \<le> length (flat evs)" using pre by simp
  ultimately show ?thesis using assms by (auto simp: read_image_into_def same Let_def)
qed

lemma trx_check_accepts:
  assumes "dev_number k ''firmware'' False True = Some i" "ok (devs s i)" "trx_accepted opt (info (devs s i)) evs" "img_ok evs"
    and "mbuf s = Some b" "length b = mi_erasesize (info (devs s i))" "take 4 b = take 4 (flat evs)" "buflen s = 4"
    and "img_left s = snd (fill_buf False 4 [] evs)"
  shows "\<exists>t b'. trx_check k opt ''firmware'' s = (Ret True, t) \<and> mbuf t = Some b' \<and> length b' = length b \<and>
     buflen t = 32 \<and> take 32 b' @ flat (img_left t) = flat evs \<and> img_ok (img_left t) \<and>
     devs t = devs s \<and> jffs2file t = jffs2file s"
proof -
  let ?d = "devs s i"
  obtain bs later where bs: "RdData bs # later = evs" "32 \<le> length bs" using assms(3) by (auto simp: trx_accepted_def)
  obtain rest where r: "image_read 28 (img_left s) = (RdData (take 28 (drop 4 bs)), rest)" "flat rest = drop 32 (flat evs)" "img_ok rest"
    using image_read_first[OF bs assms(4)] assms(9) by auto
  have fl: "flat evs = bs @ flat later" using bs(1) by auto
  have es: "32 \<le> length b" using assms(3,6) by (simp add: trx_accepted_def)
  let ?h = "take 28 (drop 4 bs)" let ?b = "store_at b 4 ?h"
  have lh: "length ?h = 28" using bs(2) by simp
  have b32: "take 32 ?b = take 32 (flat evs)"
  proof -
    have "take 32 ?b = take 4 b @ ?h" using es lh by (simp add: store_at_def min_def)
    also have "\<dots> = take 32 (flat evs)" using assms(7) bs(2) by (simp add: fl take_add[of 4 28, symmetric])
    finally show ?thesis .
  qed
  have hdr: "take 28 ?b = take 28 (flat evs)" using arg_cong[OF b32, of "take 28"] by simp
  have "mi_size (info ?d) < 2 ^ 31" using geometry[OF assms(2)] by auto
  then have sz: "to_u32 (int (mi_size (info ?d))) = mi_size (info ?d)" by (intro to_u32_of_nat) simp
  let ?s1 = "s\<lparr>img_left := rest, mbuf := Some ?b, buflen := 32\<rparr>"
  let ?t = "?s1\<lparr>fds := fds s @ [(i, 0)], mtdsize := int (mi_size (info ?d)), erasesize := int (mi_erasesize (info ?d)), mtdtype := mi_type (info ?d)\<rparr>"
  have op: "mtd_must_open k ''firmware'' ?s1 = (Ret (length (fds s)), ?t)"
    using must_open[OF assms(1), of ?s1] assms(2) by simp
  have st: "buf_store 4 ?h (s\<lparr>img_left := rest\<rparr>) = (Ret (), s\<lparr>img_left := rest, mbuf := Some ?b\<rparr>)"
    using assms(5) es lh by (simp add: buf_store_def)
  have gt: "buf_get 0 28 ?s1 = (Ret (take 28 (flat evs)), ?s1)" using es lh by (simp add: buf_get_def hdr)
  have rd: "sys_read_image 28 s = (Ret (RdData ?h), s\<lparr>img_left := rest\<rparr>)" by (simp add: sys_read_image_def r(1))
  have "trx_check k opt ''firmware'' s = (Ret True, ?t)"
    using assms(3,8) lh
    by (simp add: trx_check_def run_simps mbind_Ret[of "sys_read_image 28" s, OF rd]
        mseq_Ret[of "buf_store 4 ?h" "s\<lparr>img_left := rest\<rparr>", OF st] mbind_Ret[of "buf_get 0 28" ?s1, OF gt]
        mseq_Ret[of "mtd_must_open k ''firmware''" ?s1, OF op] be32_at_of_take u32_at_of_take trx_accepted_def sz)
  then show ?thesis using b32 r(2,3) es lh by auto
qed

text \<open>The check of the image, when it accepts it: the bytes read are in the buffer.\<close>

lemma image_check_accepts:
  assumes "dev_number k mtd False True = Some i" "ok (devs s i)" "image_accepted opt mtd (info (devs s i)) (imageformat s) evs"
    and "img_ok evs" "mbuf s = Some b" "length b = mi_erasesize (info (devs s i))" "4 \<le> length b" "buflen s = 0" "img_left s = evs"
  shows "\<exists>t b'. image_check k opt mtd s = (Ret True, t) \<and> mbuf t = Some b' \<and> length b' = length b \<and>
     buflen t \<le> length b' \<and> take (buflen t) b' @ flat (img_left t) = flat evs \<and> img_ok (img_left t) \<and>
     devs t = devs s \<and> jffs2file t = jffs2file s"
proof -
  have mr: "magic_read evs" using assms(3) by (simp add: image_accepted_def)
  let ?b = "overlay b (take 4 (flat evs))"
  obtain evs' where rd: "read_image_into False 4 s = (Ret (), s\<lparr>mbuf := Some ?b, buflen := 4, img_left := evs'\<rparr>)"
    and ev: "evs' = snd (fill_buf False 4 [] evs)" "flat evs' = drop 4 (flat evs)" "img_ok evs'" "4 \<le> length (flat evs)"
    using read_magic[OF assms(4) mr assms(5,7-9)] by blast
  let ?t = "s\<lparr>mbuf := Some ?b, buflen := 4, img_left := evs'\<rparr>"
  let ?f = "set_format opt (take 4 (flat evs)) (imageformat s)"
  let ?u = "?t\<lparr>imageformat := ?f\<rparr>"
  have lb: "length ?b = length b" "take 4 ?b = take 4 (flat evs)" using assms(7) ev(4) by (simp_all add: overlay_def)
  have bg: "buf_get 0 4 ?t = (Ret (take 4 (flat evs)), ?t)" using assms(7) lb by (simp add: buf_get_def)
  have ic: "image_check k opt mtd s = (case ?f of
       FMT_TRX \<Rightarrow> if lk_trx opt then trx_check k opt mtd ?u else (Ret True, ?u)
     | FMT_UNKNOWN \<Rightarrow> (Ret (\<not> (target_brcm opt \<and> mtd = ''firmware'')), ?u)
     | _ \<Rightarrow> (Ret True, ?u))"
    by (simp add: image_check_def mseq_Ret[of "read_image_into False 4" s, OF rd] mbind_Ret[of "buf_get 0 4" ?t, OF bg]
        run_simps split: mtd_image_format.split)
  have dn: "take (buflen ?u) ?b @ flat (img_left ?u) = flat evs" using lb(2) ev(2) by simp
  show ?thesis
  proof (cases "?f = FMT_TRX \<and> lk_trx opt \<and> mtd = ''firmware''")
    case True
    then have acc: "trx_accepted opt (info (devs ?u i)) evs" using assms(3) by (simp add: image_accepted_def)
    have "\<exists>t b'. trx_check k opt ''firmware'' ?u = (Ret True, t) \<and> mbuf t = Some b' \<and> length b' = length ?b \<and>
        buflen t = 32 \<and> take 32 b' @ flat (img_left t) = flat evs \<and> img_ok (img_left t) \<and>
        devs t = devs ?u \<and> jffs2file t = jffs2file ?u"
      by (rule trx_check_accepts[OF _ _ acc assms(4)]) (use True assms(1,2,6) lb ev(1) in simp_all)
    then obtain t b' where t: "trx_check k opt ''firmware'' ?u = (Ret True, t)" "mbuf t = Some b'" "length b' = length b"
        "buflen t = 32" "take 32 b' @ flat (img_left t) = flat evs" "img_ok (img_left t)" "devs t = devs s" "jffs2file t = jffs2file s"
      using lb(1) by auto
    have "image_check k opt mtd s = (Ret True, t)" using ic True t(1) by simp
    moreover have "32 \<le> length b" using acc assms(6) by (simp add: trx_accepted_def)
    ultimately show ?thesis using t by (intro exI[of _ t] exI[of _ b']) simp
  next
    case False
    then have "image_check k opt mtd s = (Ret True, ?u)"
      using assms(3) by (auto simp: ic image_accepted_def trx_check_def run_simps split: mtd_image_format.splits)
    then show ?thesis using dn lb ev(3) assms(7) by auto
  qed
qed

text \<open>What \<^verbatim>\<open>main\<close> does before it writes: the buffer holds the first four bytes of the image.\<close>

lemma write_prepared:
  assumes "dev_number k mtd False True = Some i" "ok (devs s i)" "CHR '':'' \<notin> set mtd"
    and "image_accepted opt mtd (info (devs s i)) (imageformat s) evs"
    and "img f = Some evs" "img_ok evs" "mbuf s = None" "buflen s = 0"
    and "4 \<le> mi_erasesize (info (devs s i))"
  obtains t b where "main_open k opt a img CMD_WRITE f mtd s = (Ret (), t)" "mbuf t = Some b"
    "length b = mi_erasesize (info (devs s i))" "buflen t \<le> length b" "take (buflen t) b @ flat (img_left t) = flat evs"
    "img_ok (img_left t)"
    "devs t = devs s" "jffs2file t = jffs2file s"
proof -
  let ?d = "devs s i" let ?es = "mi_erasesize (info ?d)"
  let ?s = "s\<lparr>img_left := evs, fds := fds s @ [(i, 0)], mtdsize := int (mi_size (info ?d)), erasesize := int ?es,
     mtdtype := mi_type (info ?d), mbuf := Some (replicate ?es 0)\<rparr>"
  have op: "mtd_check_open k mtd True (s\<lparr>img_left := evs\<rparr>) = (Ret (Some (length (fds s))), s\<lparr>img_left := evs, fds := fds s @ [(i, 0)],
      mtdsize := int (mi_size (info ?d)), erasesize := int ?es, mtdtype := mi_type (info ?d)\<rparr>)"
    using check_open[OF assms(1), of "s\<lparr>img_left := evs\<rparr>"] assms(2) by simp
  have ck: "mtd_check k mtd (s\<lparr>img_left := evs\<rparr>) = (Ret True, ?s)"
    by (simp add: mtd_check_def split_colon_single[OF assms(3)] mbind_Ret[of "mtd_check_open k mtd True" "s\<lparr>img_left := evs\<rparr>", OF op]
        run_simps assms(7))
  have "\<exists>t b'. image_check k opt mtd ?s = (Ret True, t) \<and> mbuf t = Some b' \<and> length b' = length (replicate ?es (0::u8)) \<and>
     buflen t \<le> length b' \<and> take (buflen t) b' @ flat (img_left t) = flat evs \<and> img_ok (img_left t) \<and>
     devs t = devs ?s \<and> jffs2file t = jffs2file ?s"
    by (rule image_check_accepts[OF assms(1)]) (use assms in simp_all)
  then obtain t b where t: "image_check k opt mtd ?s = (Ret True, t)" "mbuf t = Some b" "length b = ?es"
      "buflen t \<le> length b" "take (buflen t) b @ flat (img_left t) = flat evs" "img_ok (img_left t)"
      "devs t = devs s" "jffs2file t = jffs2file s"
    by auto
  have "main_open k opt a img CMD_WRITE f mtd s = (Ret (), t)"
    by (simp add: main_open_def assms(5) run_simps mbind_Ret[of "mtd_check k mtd" "s\<lparr>img_left := evs\<rparr>", OF ck]
        mbind_Ret[of "image_check k opt mtd" ?s, OF t(1)])
  then show ?thesis using t by (intro that)
qed

lemma write_command:
  assumes "dev_number k mtd False True = Some i" "ok (devs s i)" "CHR '':'' \<notin> set mtd"
    and "image_accepted opt mtd (info (devs s i)) (imageformat s) evs"
    and "img f = Some evs" "img_ok evs" "mbuf s = None" "buflen s = 0"
    and "4 \<le> mi_erasesize (info (devs s i))" "jffs2file s = None" "\<not> no_erase opt" "tpl_uboot_args_part opt = None"
    and "length (flat evs) \<le> length (good_blocks info bad (devs s i)) * mi_erasesize (info (devs s i))"
    and "2 * (mi_size (info (devs s i)) div mi_erasesize (info (devs s i))) + 1 < n" "ar_part_offset a = 0"
  shows "\<exists>t d'. mtd_main n k opt a img [] [''write'', f, mtd] s = (Ret (), t) \<and> devs t = (devs s)(i := d') \<and> ok d' \<and>
     info d' = info (devs s i) \<and> bad d' = bad (devs s i) \<and>
     cont d' = put_blocks (mi_erasesize (info (devs s i))) (cont (devs s i)) (zip (good_blocks info bad (devs s i))
       (img_blocks (mi_erasesize (info (devs s i))) (flat evs)))"
proof -
  let ?d = "devs s i"
  obtain t b where pr: "main_open k opt a img CMD_WRITE f mtd s = (Ret (), t)" "mbuf t = Some b"
    "length b = mi_erasesize (info ?d)" "buflen t \<le> length b" "take (buflen t) b @ flat (img_left t) = flat evs"
    "img_ok (img_left t)"
    "devs t = devs s" "jffs2file t = jffs2file s"
    by (rule write_prepared[of mtd i s opt evs img f, OF assms(1-9), of a])
  obtain d1 where un: "mtd_unlock k mtd t = (Ret (), t\<lparr>fds := fds t @ [(i, 0)], mtdsize := int (mi_size (info ?d)),
       erasesize := int (mi_erasesize (info ?d)), mtdtype := mi_type (info ?d), devs := (devs s)(i := d1)\<rparr>)"
    "ok d1" "cont d1 = cont ?d" "info d1 = info ?d" "bad d1 = bad ?d"
    using unlock_device[OF assms(1) _ assms(3), of t] assms(2) pr(7) by metis
  let ?t = "t\<lparr>fds := fds t @ [(i, 0)], mtdsize := int (mi_size (info ?d)),
       erasesize := int (mi_erasesize (info ?d)), mtdtype := mi_type (info ?d), devs := (devs s)(i := d1)\<rparr>"
  have gb: "good_blocks info bad d1 = good_blocks info bad ?d" by (simp add: good_blocks_def un)
  have "\<exists>u d'. mtd_write n k opt mtd 0 ?t = (Ret (), u) \<and> devs u = (devs ?t)(i := d') \<and> ok d' \<and>
     info d' = info (devs ?t i) \<and> bad d' = bad (devs ?t i) \<and>
     cont d' = put_blocks (mi_erasesize (info (devs ?t i))) (cont (devs ?t i)) (zip (good_blocks info bad (devs ?t i))
       (img_blocks (mi_erasesize (info (devs ?t i))) (take (buflen ?t) b @ flat (img_left ?t))))"
    by (rule write_partition) (use assms pr un gb in \<open>simp_all\<close>)
  then obtain u d' where w: "mtd_write n k opt mtd 0 ?t = (Ret (), u)" "devs u = (devs s)(i := d')" "ok d'"
     "info d' = info ?d" "bad d' = bad ?d" "cont d' = put_blocks (mi_erasesize (info ?d)) (cont ?d) (zip (good_blocks info bad ?d)
       (img_blocks (mi_erasesize (info ?d)) (flat evs)))"
    by (auto simp: un gb pr)
  have "mtd_main n k opt a img [] [''write'', f, mtd] s = (Ret (), u)"
    by (simp add: mtd_main_def mtd_command_def mseq_Ret[of "main_open k opt a img CMD_WRITE f mtd" s, OF pr(1)] run_simps
        main_command_def mseq_Ret[of "mtd_unlock k mtd" t, OF un(1)] assms(15) w(1))
  with w show ?thesis by blast
qed

end

section \<open>Dump and erase\<close>

definition dev_block :: "('d \<Rightarrow> mtd_info_user) \<Rightarrow> ('d \<Rightarrow> bytes) \<Rightarrow> 'd \<Rightarrow> nat \<Rightarrow> bytes" where
  "dev_block info cont d g = take (mi_erasesize (info d)) (drop (g * mi_erasesize (info d)) (cont d))"

context mtd_flash
begin

lemma read_here:
  assumes "open_at info fd i d p s" "ok d" "p \<le> mi_size (info d)"
  shows "sys_read k fd n s = (Ret (RdData (take n (drop p (cont d)))),
     upd_dev i d fd (p + length (take n (drop p (cont d)))) s)"
  using assms(1) reads[OF assms(2,3), of n]
  by (simp add: sys_read_def Let_def run_simps open_at_def fd_dev_def fd_pos_def set_pos_def upd_dev_def fun_upd_idem)

lemma dump_loop_blocks:
  assumes "open_at info fd i d (q * mi_erasesize (info d)) s" "ok d" "mi_size (info d) = N * mi_erasesize (info d)"
    and "q \<le> N" "0 < m" "N - q + 1 < n"
  shows "\<exists>t. mtd_dump_loop n k fd (int (m * mi_erasesize (info d))) (int (q * mi_erasesize (info d))) s = (Ret 0, t) \<and>
     devs t = devs s \<and>
     stdout_bytes t = stdout_bytes s @ concat (map (dev_block info cont d) (take m (filter (\<lambda>g. \<not> bad d g) [q..<N])))"
  using assms
proof (induction n arbitrary: q s m)
  case (Suc n)
  let ?es = "mi_erasesize (info d)" and ?p = "q * mi_erasesize (info d)"
  note op = Suc.prems(1) and okd = Suc.prems(2)
  have geo: "0 < ?es" "?es < 2 ^ 31" "length (cont d) = N * ?es" using geometry[OF okd] Suc.prems(3) by auto
  have esz: "erasesize s = int ?es" using op by (simp add: open_at_def)
  have len: "(if int (m * ?es) > int ?es then int ?es else int (m * ?es)) = int ?es"
    using Suc.prems(5) geo(1) by (cases m) (auto simp: zero_less_mult_iff)
  have u: "to_u32 (int ?es) = ?es" using geo(2) by (intro to_u32_of_nat) simp
  have "?p \<le> mi_size (info d)" unfolding Suc.prems(3) using Suc.prems(4) by simp
  note rd = read_here[OF op okd this, of ?es]
  show ?case
  proof (cases "q = N")
    case True
    then have e: "take ?es (drop ?p (cont d)) = []" using geo(3) by simp
    have "mtd_dump_loop (Suc n) k fd (int (m * ?es)) (int ?p) s = (Ret 0, upd_dev i d fd ?p s)"
      unfolding mtd_dump_loop.simps Let_def mbind_mget esz len u
      using rd by (simp add: mbind_def[of "sys_read _ _ _"] e mret_def)
    then show ?thesis using op True by (auto simp: open_at_def)
  next
    case False
    then have qN: "q < N" using Suc.prems(4) by simp
    then have "Suc q * ?es \<le> N * ?es" by (intro mult_le_mono1) simp
    then have blk: "length (take ?es (drop ?p (cont d))) = ?es" and inb: "(q + 1) * ?es \<le> mi_size (info d)"
      using geo(3) Suc.prems(3) by (auto simp: add.commute)
    let ?b = "dev_block info cont d q" let ?s = "upd_dev i d fd (?p + ?es) s"
    have rd': "sys_read k fd ?es s = (Ret (RdData ?b), ?s)" using rd blk by (simp add: dev_block_def)
    have lb: "length ?b = ?es" "?b \<noteq> []" using blk geo(1) by (auto simp: dev_block_def)
    have ops: "open_at info fd i d (Suc q * ?es) ?s" using open_at_upd[OF op refl, of "?p + ?es"] by (simp add: add.commute)
    have isb: "mtd_block_is_bad k fd (int ?p) ?s = (Ret (bad d q), ?s)" by (rule block_is_bad[OF ops okd inb])
    have c: "[q..<N] = q # [Suc q..<N]" using qN by (simp add: upt_conv_Cons)
    show ?thesis
    proof (cases "bad d q")
      case True
      have "mtd_dump_loop (Suc n) k fd (int (m * ?es)) (int ?p) s =
          mtd_dump_loop n k fd (int (m * ?es)) (int (Suc q * ?es)) ?s"
        unfolding mtd_dump_loop.simps Let_def mbind_mget esz len u mbind_Ret[of "sys_read k fd ?es" s, OF rd']
        using True isb Suc.prems(5) geo(1) lb
        by (simp add: mbind_def[of "mtd_block_is_bad _ _ _"] add.commute)
      moreover have "\<exists>t. mtd_dump_loop n k fd (int (m * ?es)) (int (Suc q * ?es)) ?s = (Ret 0, t) \<and> devs t = devs ?s \<and>
         stdout_bytes t = stdout_bytes ?s @ concat (map (dev_block info cont d) (take m (filter (\<lambda>g. \<not> bad d g) [Suc q..<N])))"
        by (rule Suc.IH[OF ops okd Suc.prems(3)]) (use qN Suc.prems in simp_all)
      ultimately show ?thesis using True c op by (auto simp: open_at_def fun_upd_idem)
    next
      case False
      let ?t = "?s\<lparr>stdout_bytes := stdout_bytes s @ ?b\<rparr>"
      obtain m' where m: "m = Suc m'" using Suc.prems(5) by (cases m) auto
      have st: "mtd_dump_loop (Suc n) k fd (int (m * ?es)) (int ?p) s =
          (if 0 < m' then mtd_dump_loop n k fd (int (m' * ?es)) (int (Suc q * ?es)) ?t else (Ret 0, ?t))"
        unfolding mtd_dump_loop.simps Let_def mbind_mget esz len u mbind_Ret[of "sys_read k fd ?es" s, OF rd']
        using False isb geo(1) lb m
        by (simp add: mbind_def[of "mtd_block_is_bad _ _ _"] run_simps algebra_simps)
      have opt: "open_at info fd i d (Suc q * ?es) ?t" using ops by (simp add: open_at_def)
      show ?thesis
      proof (cases "0 < m'")
        case True
        have "\<exists>t. mtd_dump_loop n k fd (int (m' * ?es)) (int (Suc q * ?es)) ?t = (Ret 0, t) \<and> devs t = devs ?t \<and>
           stdout_bytes t = stdout_bytes ?t @ concat (map (dev_block info cont d) (take m' (filter (\<lambda>g. \<not> bad d g) [Suc q..<N])))"
          by (rule Suc.IH[OF opt okd Suc.prems(3)]) (use qN Suc.prems True in simp_all)
        then show ?thesis unfolding st using True False c m op by (auto simp: open_at_def fun_upd_idem)
      next
        case False
        then show ?thesis unfolding st using \<open>\<not> bad d q\<close> c m op by (auto simp: open_at_def fun_upd_idem)
      qed
    qed
  qed
qed simp


lemma dump_device:
  assumes "dev_number k mtd False False = Some i" "ok (devs s i)" "0 < m"
    and "mi_size (info (devs s i)) div mi_erasesize (info (devs s i)) + 1 < n"
  shows "\<exists>t. mtd_dump n k mtd 0 (int (m * mi_erasesize (info (devs s i)))) s = (Ret 0, t) \<and> devs t = devs s \<and>
     stdout_bytes t = stdout_bytes s @ concat (map (dev_block info cont (devs s i))
       (take m (filter (\<lambda>g. \<not> bad (devs s i) g) [0..<mi_size (info (devs s i)) div mi_erasesize (info (devs s i))])))"
proof -
  let ?d = "devs s i" let ?es = "mi_erasesize (info ?d)"
  let ?s = "s\<lparr>fds := fds s @ [(i, 0)], mtdsize := int (mi_size (info ?d)), erasesize := int ?es, mtdtype := mi_type (info ?d)\<rparr>"
  have geo: "0 < ?es" "?es dvd mi_size (info ?d)" using geometry[OF assms(2)] by auto
  have "open_at info (length (fds s)) i ?d (0 * ?es) ?s" by (simp add: open_at_def)
  from dump_loop_blocks[OF this assms(2) _ _ assms(3), of "mi_size (info ?d) div ?es" n] geo assms(4)
  obtain t where t: "mtd_dump_loop n k (length (fds s)) (int (m * ?es)) 0 ?s = (Ret 0, t)" "devs t = devs s"
    "stdout_bytes t = stdout_bytes s @ concat (map (dev_block info cont ?d) (take m (filter (\<lambda>g. \<not> bad ?d g) [0..<mi_size (info ?d) div ?es])))"
    by auto
  have "mtd_dump n k mtd 0 (int (m * ?es)) s = mtd_dump_loop n k (length (fds s)) (int (m * ?es)) 0 ?s"
    using assms(3) geo(1)
    by (simp add: mtd_dump_def mbind_Ret[of "mtd_check_open k mtd False" s, OF check_open[OF assms(1,2)]] run_simps
        del: mtd_dump_loop.simps)
  with t show ?thesis by auto
qed

lemma erase_loop_blocks:
  assumes "open_at info fd i d 0 s" "ok d" "mi_size (info d) = N * mi_erasesize (info d)" "q \<le> N" "N - q < n"
  shows "\<exists>d'. mtd_erase_loop n k fd (q * mi_erasesize (info d)) s = (Ret (), s\<lparr>devs := (devs s)(i := d')\<rparr>) \<and>
     ok d' \<and> info d' = info d \<and> bad d' = bad d \<and>
     cont d' = put_blocks (mi_erasesize (info d)) (cont d)
       (map (\<lambda>g. (g, replicate (mi_erasesize (info d)) 0xff)) (filter (\<lambda>g. \<not> bad d g) [q..<N]))"
  using assms
proof (induction n arbitrary: q s d)
  case (Suc n)
  let ?es = "mi_erasesize (info d)" and ?p = "q * mi_erasesize (info d)"
  note op = Suc.prems(1) and okd = Suc.prems(2)
  have geo: "0 < ?es" "?es < 2 ^ 31" "mi_size (info d) < 2 ^ 31" using geometry[OF okd] by auto
  have sz: "to_u32 (mtdsize s) = N * ?es" "erasesize s = int ?es" "to_u32 (int ?es) = ?es"
    using op geo Suc.prems(3) by (auto simp: open_at_def intro!: to_u32_of_nat simp del: of_nat_mult)
  have dv: "fd_dev s fd = i" "devs s i = d" using op by (auto simp: open_at_def fd_dev_def)
  show ?case
  proof (cases "q = N")
    case True
    then have "mtd_erase_loop (Suc n) k fd ?p s = (Ret (), s\<lparr>devs := (devs s)(i := d)\<rparr>)"
      using sz dv by (simp add: run_simps fun_upd_idem)
    moreover have "cont d = put_blocks ?es (cont d) (map (\<lambda>g. (g, replicate ?es 0xff)) (filter (\<lambda>g. \<not> bad d g) [q..<N]))"
      using True by simp
    ultimately show ?thesis using okd by blast
  next
    case False
    then have qN: "q < N" using Suc.prems(4) by simp
    then have lt: "?p < N * ?es" and inb: "(q + 1) * ?es \<le> mi_size (info d)"
      using geo(1) unfolding Suc.prems(3) by (simp_all only: mult_le_mono1 Suc_eq_plus1[symmetric] Suc_leI mult_less_mono1)
    have nxt: "to_u32 (int ?p + int ?es) = Suc q * ?es"
    proof -
      have "Suc q * ?es < 4294967296" using inb geo(3) by simp
      from to_u32_of_nat[OF this] show ?thesis by (simp add: algebra_simps)
    qed
    have isb: "mtd_block_is_bad k fd (int ?p) s = (Ret (bad d q), s)" by (rule block_is_bad[OF op okd inb])
    have c: "[q..<N] = q # [Suc q..<N]" using qN by (simp add: upt_conv_Cons)
    show ?thesis
    proof (cases "bad d q")
      case True
      have "mtd_erase_loop (Suc n) k fd ?p s = mtd_erase_loop n k fd (Suc q * ?es) s"
        unfolding mtd_erase_loop.simps mbind_mget sz nxt mseq_mbind
        using True lt isb by (simp add: mbind_def[of "mtd_block_is_bad _ _ _"] run_simps)
      with Suc.IH[OF op okd Suc.prems(3), of "Suc q"] qN Suc.prems(5) True c show ?thesis by simp
    next
      case False
      let ?u = "sy_unlock k d ?p ?es"
      have un: "ok ?u" "cont ?u = cont d" "info ?u = info d" "bad ?u = bad d" using unlock[OF okd] by auto
      obtain d1 where d1: "sy_erase k ?u ?p ?es = (0, d1)" "ok d1" "info d1 = info d" "bad d1 = bad d"
          "cont d1 = store_at (cont d) ?p (replicate ?es 0xff)"
        using erase[OF un(1), of q] inb False un by auto
      let ?s = "s\<lparr>devs := (devs s)(i := d1)\<rparr>"
      have st: "mtd_erase_loop (Suc n) k fd ?p s = mtd_erase_loop n k fd (Suc q * ?es) ?s"
        unfolding mtd_erase_loop.simps mbind_mget sz nxt mseq_mbind
        using False lt isb dv d1(1)
        by (simp add: mbind_def[of "mtd_block_is_bad _ _ _"] run_simps mtd_unlock_range_def fd_dev_def)
      have ops: "open_at info fd i d1 0 ?s" using op d1(3) by (simp add: open_at_def)
      have pre: "mi_size (info d1) = N * mi_erasesize (info d1)" "Suc q \<le> N" "N - Suc q < n"
        using qN Suc.prems(3,5) d1(3) by simp_all
      obtain d2 where d2: "mtd_erase_loop n k fd (Suc q * ?es) ?s = (Ret (), ?s\<lparr>devs := (devs ?s)(i := d2)\<rparr>)"
        "ok d2" "info d2 = info d" "bad d2 = bad d"
        "cont d2 = put_blocks ?es (cont d1) (map (\<lambda>g. (g, replicate ?es 0xff)) (filter (\<lambda>g. \<not> bad d g) [Suc q..<N]))"
        using Suc.IH[OF ops d1(2) pre] unfolding d1(3,4) by blast
      have "?s\<lparr>devs := (devs ?s)(i := d2)\<rparr> = s\<lparr>devs := (devs s)(i := d2)\<rparr>" by simp
      moreover have "cont d2 = put_blocks ?es (cont d) (map (\<lambda>g. (g, replicate ?es 0xff)) (filter (\<lambda>g. \<not> bad d g) [q..<N]))"
        using False by (simp add: c d2(5) d1(5))
      ultimately show ?thesis unfolding st using d2(1-4) by metis
    qed
  qed
qed simp

lemma erase_device:
  assumes "dev_number k mtd False True = Some i" "ok (devs s i)"
    and "mi_size (info (devs s i)) div mi_erasesize (info (devs s i)) < n"
  shows "\<exists>t d'. mtd_erase n k mtd s = (Ret (), t) \<and> devs t = (devs s)(i := d') \<and>
     ok d' \<and> info d' = info (devs s i) \<and> bad d' = bad (devs s i) \<and>
     cont d' = put_blocks (mi_erasesize (info (devs s i))) (cont (devs s i))
       (map (\<lambda>g. (g, replicate (mi_erasesize (info (devs s i))) 0xff))
         (filter (\<lambda>g. \<not> bad (devs s i) g) [0..<mi_size (info (devs s i)) div mi_erasesize (info (devs s i))]))"
proof -
  let ?d = "devs s i" let ?es = "mi_erasesize (info ?d)"
  let ?s = "s\<lparr>fds := fds s @ [(i, 0)], mtdsize := int (mi_size (info ?d)), erasesize := int ?es, mtdtype := mi_type (info ?d)\<rparr>"
  have geo: "?es dvd mi_size (info ?d)" using geometry[OF assms(2)] by auto
  have "open_at info (length (fds s)) i ?d 0 ?s" by (simp add: open_at_def)
  from erase_loop_blocks[OF this assms(2), of "mi_size (info ?d) div ?es" 0 n] geo assms(3)
  show ?thesis
    by (auto simp: mtd_erase_def mbind_Ret[of "mtd_must_open k mtd" s, OF must_open[OF assms(1,2)]] simp del: mtd_erase_loop.simps)
qed

end

end
