(* ===== verification/Mtd_Props.thy ===== *)
theory Mtd_Props
  imports Mtd_Flash
begin

unbundle bit_operations_syntax

text \<open>
  Properties of the commands of the flashing tool on a device that keeps the contract
  \<open>mtd_flash\<close>, and an instance of the contract in memory for their witnesses.
\<close>

section \<open>A device in memory\<close>

text \<open>
  An instance of the contract: the content is a list of bytes, a write clears bits as flash
  does, blocks on a list are bad. Device 0 is called \<^verbatim>\<open>rootfs\<close> and device 1 \<^verbatim>\<open>firmware\<close>.
\<close>

record ram_dev =
  rm_info :: mtd_info_user
  rm_cont :: bytes
  rm_bad :: "nat list"

definition ram_bad :: "ram_dev \<Rightarrow> nat \<Rightarrow> bool" where
  "ram_bad d b \<longleftrightarrow> b \<in> set (rm_bad d)"

definition ram_ok :: "ram_dev \<Rightarrow> bool" where
  "ram_ok d \<longleftrightarrow> length (rm_cont d) = mi_size (rm_info d) \<and> 0 < mi_erasesize (rm_info d) \<and>
     mi_erasesize (rm_info d) dvd mi_size (rm_info d) \<and> mi_writesize (rm_info d) dvd mi_erasesize (rm_info d) \<and>
     mi_erasesize (rm_info d) < 2 ^ 31 \<and> mi_size (rm_info d) < 2 ^ 31 \<and>
     (rm_bad d = [] \<or> mi_type (rm_info d) = MTD_NANDFLASH)"

definition ram_isbad :: "ram_dev \<Rightarrow> int \<Rightarrow> int" where
  "ram_isbad d off = (if off < 0 \<or> int (mi_size (rm_info d)) \<le> off then - EINVAL
     else if nat off div mi_erasesize (rm_info d) \<in> set (rm_bad d) then 1 else 0)"

definition ram_erase :: "ram_dev \<Rightarrow> nat \<Rightarrow> nat \<Rightarrow> int \<times> ram_dev" where
  "ram_erase d start len =
     (let es = mi_erasesize (rm_info d) in
      if es dvd start \<and> es dvd len \<and> start + len \<le> mi_size (rm_info d) \<and>
         list_all (\<lambda>b. b \<notin> set (rm_bad d)) [start div es..<(start + len) div es]
      then (0, d\<lparr>rm_cont := store_at (rm_cont d) start (replicate len 0xff)\<rparr>) else (- EINVAL, d))"

definition ram_write :: "ram_dev \<Rightarrow> nat \<Rightarrow> bytes \<Rightarrow> int \<times> ram_dev" where
  "ram_write d p bs =
     (let fit = take (mi_size (rm_info d) - p) bs in
      if mi_writesize (rm_info d) dvd p \<and> mi_writesize (rm_info d) dvd length bs \<and> p \<le> mi_size (rm_info d)
      then (int (length fit), d\<lparr>rm_cont := store_at (rm_cont d) p (map2 (AND) (drop p (rm_cont d)) fit)\<rparr>)
      else (- EINVAL, d))"

definition ram_sys :: "ram_dev mtd_sys" where
  "ram_sys = \<lparr>sy_proc = Some [''mtd0: 00000010 00000004 '' @ [CHR 0x22] @ ''rootfs'' @ [CHR 0x22],
       ''mtd1: 00000060 00000020 '' @ [CHR 0x22] @ ''firmware'' @ [CHR 0x22]],
     sy_open = (\<lambda>path w. if path = ''/dev/mtd0'' then Some 0 else if path = ''/dev/mtd1'' then Some 1 else None), sy_file = (\<lambda>_. None), sy_md5 = md5_ref,
     sy_getinfo = (\<lambda>d. Some (rm_info d)), sy_isbad = ram_isbad, sy_unlock = (\<lambda>d _ _. d), sy_erase = ram_erase,
     sy_read = (\<lambda>d p n. (RdData (take n (drop p (rm_cont d))), d)), sy_write = ram_write,
     sy_seek = (\<lambda>d p. 0 \<le> p \<and> p \<le> int (mi_size (rm_info d))), sy_mmap = (\<lambda>d n. Some (take n (rm_cont d))),
     sy_msync = (\<lambda>d p bs. d\<lparr>rm_cont := store_at (rm_cont d) p bs\<rparr>)\<rparr>"

lemma ram_rootfs: "dev_number ram_sys ''rootfs'' False w = Some 0"
  by (simp add: dev_number_def ram_sys_def scan_mtd_def is_digit_def digits_value_def decimal.simps char_of_def bit_0)

lemma ram_firmware: "dev_number ram_sys ''firmware'' False w = Some 1"
  by (simp add: dev_number_def ram_sys_def scan_mtd_def is_digit_def digits_value_def decimal.simps char_of_def bit_0)

lemma map2_and_ff:
  "length bs \<le> length cs \<Longrightarrow> take (length bs) cs = replicate (length bs) (0xff :: u8) \<Longrightarrow> map2 (AND) cs bs = bs"
proof (induction bs arbitrary: cs)
  case (Cons b bs)
  then obtain c cs' where cs: "cs = c # cs'" by (cases cs) auto
  have "(0xff :: u8) AND b = b" by (intro bit_word_eqI) (auto simp: bit_simps less_Suc_eq_0_disj numeral_eq_Suc)
  then show ?case using Cons cs by simp
qed simp

interpretation ram: mtd_flash ram_sys rm_cont rm_info ram_bad ram_ok
proof unfold_locales
  fix d b assume d: "ram_ok d" and b: "(b + 1) * mi_erasesize (rm_info d) \<le> mi_size (rm_info d)" "\<not> ram_bad d b"
  let ?es = "mi_erasesize (rm_info d)"
  have es: "0 < ?es" "length (rm_cont d) = mi_size (rm_info d)" using d by (auto simp: ram_ok_def)
  have "(b * ?es + ?es) div ?es = Suc b" using es by simp
  then have "[b * ?es div ?es..<(b * ?es + ?es) div ?es] = [b]" using es by (simp add: upt_rec)
  then show "\<exists>d'. sy_erase ram_sys d (b * ?es) ?es = (0, d') \<and> ram_ok d' \<and> rm_info d' = rm_info d \<and> ram_bad d' = ram_bad d \<and>
        rm_cont d' = store_at (rm_cont d) (b * ?es) (replicate ?es 0xff)"
    using b d es by (auto simp: ram_sys_def ram_erase_def Let_def ram_bad_def fun_eq_iff ram_ok_def)
next
  fix d p and bs :: bytes assume d: "ram_ok d" and p: "p + length bs \<le> mi_size (rm_info d)"
    "take (length bs) (drop p (rm_cont d)) = replicate (length bs) 0xff"
    "mi_writesize (rm_info d) dvd p" "mi_writesize (rm_info d) dvd length bs"
  have l: "length (rm_cont d) = mi_size (rm_info d)" using d by (simp add: ram_ok_def)
  have "map2 (AND) (drop p (rm_cont d)) bs = bs" using p l by (intro map2_and_ff) auto
  then show "\<exists>d'. sy_write ram_sys d p bs = (int (length bs), d') \<and> ram_ok d' \<and> rm_info d' = rm_info d \<and> ram_bad d' = ram_bad d \<and>
        rm_cont d' = store_at (rm_cont d) p bs"
    using p d l by (auto simp: ram_sys_def ram_write_def Let_def ram_bad_def fun_eq_iff ram_ok_def)
qed (auto simp: ram_sys_def ram_ok_def ram_isbad_def ram_bad_def nat_div_distrib)


section \<open>Properties\<close>

lemma good_blocks_props:
  "distinct (good_blocks info bad d)" "g \<in> set (good_blocks info bad d) \<Longrightarrow> \<not> bad d g"
  "g \<in> set (good_blocks info bad d) \<Longrightarrow> g < mi_size (info d) div mi_erasesize (info d)"
  by (auto simp: good_blocks_def)

lemma good_block_inside:
  "g \<in> set (good_blocks info bad d) \<Longrightarrow> 0 < mi_erasesize (info d) \<Longrightarrow>
     g * mi_erasesize (info d) + mi_erasesize (info d) \<le> mi_size (info d)"
proof -
  assume g: "g \<in> set (good_blocks info bad d)"
  then have "Suc g * mi_erasesize (info d) \<le> mi_size (info d) div mi_erasesize (info d) * mi_erasesize (info d)"
    by (intro mult_le_mono1) (use good_blocks_props(3)[OF g] in simp)
  also have "\<dots> \<le> mi_size (info d)" by simp
  finally show ?thesis by (simp add: add.commute)
qed

text \<open>What stored blocks mean for the content, in terms of the image.\<close>

lemma put_image:
  fixes d d' :: 'd and image :: bytes
  assumes "cont d' = put_blocks (mi_erasesize (info d)) (cont d) (zip (good_blocks info bad d)
      (img_blocks (mi_erasesize (info d)) image))"
    and "info d' = info d" "0 < mi_erasesize (info d)" "length (cont d) = mi_size (info d)"
    and "length image \<le> length (good_blocks info bad d) * mi_erasesize (info d)"
  shows "\<forall>r. r * mi_erasesize (info d) < length image \<longrightarrow>
       dev_block info cont d' (good_blocks info bad d ! r) =
         pad_block (mi_erasesize (info d)) (take (mi_erasesize (info d)) (drop (r * mi_erasesize (info d)) image))"
    and "\<forall>x < mi_size (info d). (\<forall>r. r * mi_erasesize (info d) < length image \<longrightarrow>
         x div mi_erasesize (info d) \<noteq> good_blocks info bad d ! r) \<longrightarrow> cont d' ! x = cont d ! x"
    and "map (dev_block info cont d') (take (length (img_blocks (mi_erasesize (info d)) image)) (good_blocks info bad d)) =
       img_blocks (mi_erasesize (info d)) image"
proof -
  let ?es = "mi_erasesize (info d)" let ?gs = "good_blocks info bad d" and ?bs = "img_blocks ?es image"
  let ?z = "zip ?gs ?bs"
  have nb: "length ?bs \<le> length ?gs" by (rule img_blocks_bound[OF assms(5,3)])
  have ok: "\<forall>(g, b) \<in> set ?z. length b = ?es \<and> g * ?es + ?es \<le> length (cont d)"
    using good_block_inside[of _ info bad d] assms(3,4)
    by (auto dest: set_zip_leftD set_zip_rightD length_of_img_blocks)
  have mf: "map fst ?z = take (length ?bs) ?gs" using nb by (simp add: map_fst_zip_take)
  have dis: "distinct (map fst ?z)" unfolding mf by (intro distinct_take good_blocks_props)
  have at: "dev_block info cont d' (?gs ! r) = ?bs ! r" if "r < length ?bs" for r
    using put_blocks_block[OF ok assms(3) dis, of r] that nb assms(2) by (simp add: dev_block_def assms(1))
  show "\<forall>r. r * ?es < length image \<longrightarrow> dev_block info cont d' (?gs ! r) = pad_block ?es (take ?es (drop (r * ?es) image))"
    using at nth_img_blocks[OF _ assms(3)] by metis
  show "map (dev_block info cont d') (take (length ?bs) ?gs) = ?bs"
    using nb at by (intro nth_equalityI) auto
  show "\<forall>x < mi_size (info d). (\<forall>r. r * ?es < length image \<longrightarrow> x div ?es \<noteq> ?gs ! r) \<longrightarrow> cont d' ! x = cont d ! x"
  proof (intro allI impI)
    fix x assume x: "x < mi_size (info d)" "\<forall>r. r * ?es < length image \<longrightarrow> x div ?es \<noteq> ?gs ! r"
    have "x div ?es \<notin> set (take (length ?bs) ?gs)"
    proof
      assume "x div ?es \<in> set (take (length ?bs) ?gs)"
      then obtain r where "r < length ?bs" "?gs ! r = x div ?es" by (auto simp: in_set_conv_nth)
      then show False using x(2) img_blocks_cover[of r ?es image] by metis
    qed
    then have "x div ?es \<notin> fst ` set ?z" unfolding mf[symmetric] by simp
    then show "cont d' ! x = cont d ! x"
      unfolding assms(1) using x(1) assms(4) by (intro put_blocks_other[OF ok assms(3)]) simp_all
  qed
qed

lemma concat_img_blocks: "0 < es \<Longrightarrow> \<exists>m. concat (img_blocks es bs) = bs @ replicate m 0xff"
proof (induction es bs rule: img_blocks.induct)
  case (1 es bs)
  show ?case
  proof (cases "length bs \<le> es")
    case True
    then show ?thesis using 1(2) by (cases "bs = []") (auto simp: img_blocks_Cons pad_block_def)
  next
    case False
    then have c: "img_blocks es bs = take es bs # img_blocks es (drop es bs)"
      using 1(2) by (subst img_blocks_Cons) (auto simp: pad_block_def)
    from False have "bs \<noteq> []" by auto
    with 1(1) 1(2) obtain m where "concat (img_blocks es (drop es bs)) = drop es bs @ replicate m 0xff" by auto
    then show ?thesis using c by (metis append.assoc append_take_drop_id concat.simps(2))
  qed
qed

text \<open>
  C36. Writing an image. The command \<^verbatim>\<open>write\<close>, called for one partition on a device that keeps the
  contract of flash, without the options \<^verbatim>\<open>-n\<close>, \<^verbatim>\<open>-j\<close>, \<^verbatim>\<open>-p\<close> and \<^verbatim>\<open>-t\<close>, ends with success for an image
  that can be read, is accepted by the check of the image and fits into the good blocks: block
  after block of the image, the last one padded with 0xff, is in the good blocks of the partition
  in order, and every other byte of the partition, in particular of its bad blocks, and every other
  device is unchanged. The check accepts an image whose first four bytes are read without an
  interruption (so it has four); for the partition \<^verbatim>\<open>firmware\<close>, a TRX image needs its header in the
  first read and a length in it that fits, and one of unknown format is refused on the targets that
  require a format. Later reads may be interrupted. An erase block has at least four bytes.
\<close>

theorem mtd_write_stores_image:
  assumes "mtd_flash k cont info bad ok"
    and "dev_number k mtd False True = Some i" "CHR '':'' \<notin> set mtd"
    and "ok (devs s i)" "d = devs s i" "es = mi_erasesize (info d)" "4 \<le> es"
    and "img f = Some evs" "img_ok evs" "image_accepted opt mtd (info d) (imageformat s) evs"
    and "length (flat evs) \<le> length (good_blocks info bad d) * es"
    and "mbuf s = None" "buflen s = 0" "jffs2file s = None"
    and "\<not> no_erase opt" "tpl_uboot_args_part opt = None" "ar_part_offset a = 0"
    and "2 * (mi_size (info d) div es) + 1 < n"
  shows "\<exists>t d'. mtd_main n k opt a img [] [''write'', f, mtd] s = (Ret (), t) \<and> devs t = (devs s)(i := d') \<and>
     (\<forall>r. r * es < length (flat evs) \<longrightarrow>
        dev_block info cont d' (good_blocks info bad d ! r) = pad_block es (take es (drop (r * es) (flat evs)))) \<and>
     (\<forall>x < mi_size (info d). (\<forall>r. r * es < length (flat evs) \<longrightarrow> x div es \<noteq> good_blocks info bad d ! r) \<longrightarrow>
        cont d' ! x = cont d ! x)"
proof -
  note w = mtd_flash.write_command[of k cont info bad ok mtd i s opt evs img f n a,
      OF assms(1,2,4,3) assms(10)[unfolded assms(5)] assms(8,9,12,13) assms(7)[unfolded assms(5,6)] assms(14,15,16)
        assms(11)[unfolded assms(5,6)] assms(18)[unfolded assms(5,6)] assms(17)]
  have geo: "0 < mi_erasesize (info d)" "length (cont d) = mi_size (info d)"
    using mtd_flash.geometry[OF assms(1), of d] assms(4,5) by auto
  obtain t d' where t: "mtd_main n k opt a img [] [''write'', f, mtd] s = (Ret (), t)" "devs t = (devs s)(i := d')"
    "info d' = info d" "cont d' = put_blocks (mi_erasesize (info d)) (cont d) (zip (good_blocks info bad d)
       (img_blocks (mi_erasesize (info d)) (flat evs)))"
    using w unfolding assms(5) by blast
  note im = put_image[OF t(4,3) geo assms(11)[unfolded assms(6)]]
  show ?thesis using t(1,2) im(1,2) unfolding assms(6) by blast
qed

text \<open>A NAND device of four blocks of four bytes, the second of them bad, and a fresh process.\<close>

definition small_dev :: ram_dev where
  "small_dev = \<lparr>rm_info = \<lparr>mi_type = 4, mi_size = 16, mi_erasesize = 4, mi_writesize = 4\<rparr>,
     rm_cont = [0, 1, 2, 3, 4, 5, 6, 7, 8, 9, 10, 11, 12, 13, 14, 15], rm_bad = [1]\<rparr>"

definition fresh :: "'d \<Rightarrow> 'd mt" where
  "fresh d = \<lparr>devs = (\<lambda>_. d), fds = [], stdout_bytes = [], img_left = [], mbuf = None, buflen = 0, mtdsize = 0,
     erasesize = 0, mtdtype = 0, imageformat = FMT_UNKNOWN, jffs2file = None, j_last_ino = 0, j_last_version = 0,
     j_buf = [], j_ofs = 0, j_outfd = 0, j_mtdofs = 0, j_target_ino = 0\<rparr>"

definition plain_opts :: mtd_opts where
  "plain_opts = \<lparr>no_erase = False, jffs2_skip_bytes = 0, jffs2dir = [], opt_trxmagic = 0x48445230,
     tpl_uboot_args_part = None, lk_trx = True, lk_seama = True, lk_wrg = True, lk_wrgg = True, lk_tpl = True,
     lk_resetbc = True, target_brcm = True\<rparr>"

definition plain_args :: "nat \<Rightarrow> mtd_args" where
  "plain_args len = \<lparr>ar_force = False, ar_offset = 0, ar_data_size = 0, ar_part_offset = 0, ar_dump_len = len\<rparr>"

lemma small_dev_ok: "ram_ok small_dev"
  by (simp add: ram_ok_def small_dev_def MTD_NANDFLASH_def)

lemma small_dev_geo: "mi_size (rm_info small_dev) = 16" "mi_erasesize (rm_info small_dev) = 4"
  by (simp_all add: small_dev_def)

lemma small_dev_blocks: "good_blocks rm_info ram_bad small_dev = [0, 2, 3]"
  by (simp add: good_blocks_def small_dev_def ram_bad_def upt_rec)

text \<open>A second device, of three blocks of 32 bytes, and a TRX image of 40 bytes for it.\<close>

definition fw_dev :: ram_dev where
  "fw_dev = \<lparr>rm_info = \<lparr>mi_type = 4, mi_size = 96, mi_erasesize = 32, mi_writesize = 4\<rparr>, rm_cont = replicate 96 1, rm_bad = [1]\<rparr>"

definition fw_image :: bytes where
  "fw_image = [0x48, 0x44, 0x52, 0x30, 40, 0, 0, 0] @ replicate 24 0 @ replicate 8 7"

lemma fw_dev_ok: "ram_ok fw_dev" "good_blocks rm_info ram_bad fw_dev = [0, 2]"
  by (simp_all add: ram_ok_def fw_dev_def MTD_NANDFLASH_def good_blocks_def ram_bad_def upt_rec)

lemma fw_dev_geo: "mi_size (rm_info fw_dev) = 96" "mi_erasesize (rm_info fw_dev) = 32"
  by (simp_all add: fw_dev_def)

lemma fw_image_accepted:
  "image_accepted plain_opts ''firmware'' (rm_info fw_dev) FMT_UNKNOWN [RdData fw_image, RdIntr]"
proof -
  have "take 4 fw_image = [0x48, 0x44, 0x52, 0x30]" "length fw_image = 40" by (simp_all add: fw_image_def)
  moreover have "be32_at fw_image 0 = 0x48445230" "u32_at fw_image 4 = 40" "be32_at [0x48, 0x44, 0x52, 0x30] 0 = 0x48445230"
    unfolding fw_image_def by code_simp+
  moreover have "magic_read [RdData fw_image, RdIntr]"
    unfolding magic_read_def by (intro exI[of _ "[RdData fw_image]"] exI[of _ "[RdIntr]"]) (simp add: fw_image_def)
  ultimately show ?thesis
    by (simp add: image_accepted_def trx_accepted_def set_format_def plain_opts_def fw_dev_def)
qed

theorem mtd_write_stores_image_witness:
  "\<exists>t. mtd_main 10 ram_sys plain_opts (plain_args 0) (\<lambda>_. Some [RdData fw_image, RdIntr]) []
       [''write'', ''image'', ''firmware''] (fresh fw_dev) = (Ret (), t) \<and>
     dev_block rm_info rm_cont (devs t 1) 0 = take 32 fw_image \<and>
     dev_block rm_info rm_cont (devs t 1) 2 = replicate 8 7 @ replicate 24 0xff \<and> rm_cont (devs t 1) ! 40 = 1"
proof -
  let ?evs = "[RdData fw_image, RdIntr]" and ?s = "fresh fw_dev" and ?gs = "good_blocks rm_info ram_bad fw_dev"
  have len: "length fw_image = 40" "[] \<noteq> fw_image" by (simp_all add: fw_image_def)
  have "\<exists>t d'. mtd_main 10 ram_sys plain_opts (plain_args 0) (\<lambda>_. Some ?evs) [] [''write'', ''image'', ''firmware''] ?s = (Ret (), t) \<and>
     devs t = (devs ?s)(1 := d') \<and>
     (\<forall>r. r * 32 < length (flat ?evs) \<longrightarrow> dev_block rm_info rm_cont d' (?gs ! r) = pad_block 32 (take 32 (drop (r * 32) (flat ?evs)))) \<and>
     (\<forall>x < mi_size (rm_info fw_dev). (\<forall>r. r * 32 < length (flat ?evs) \<longrightarrow> x div 32 \<noteq> ?gs ! r) \<longrightarrow> rm_cont d' ! x = rm_cont fw_dev ! x)"
    by (rule mtd_write_stores_image[OF ram.mtd_flash_axioms ram_firmware])
       (use fw_image_accepted len in \<open>auto simp: fw_dev_ok fw_dev_geo fresh_def plain_args_def plain_opts_def img_ok_def\<close>)
  then obtain t d' where t: "mtd_main 10 ram_sys plain_opts (plain_args 0) (\<lambda>_. Some ?evs) [] [''write'', ''image'', ''firmware''] ?s = (Ret (), t)"
    "devs t = (devs ?s)(1 := d')"
    "\<forall>r. r * 32 < 40 \<longrightarrow> dev_block rm_info rm_cont d' ([0, 2] ! r) = pad_block 32 (take 32 (drop (r * 32) fw_image))"
    "\<forall>x < 96. (\<forall>r. r * 32 < 40 \<longrightarrow> x div 32 \<noteq> [0, 2] ! r) \<longrightarrow> rm_cont d' ! x = rm_cont fw_dev ! x"
    unfolding fw_dev_ok fw_dev_geo by (auto simp: len)
  have r: "r = 0 \<or> r = 1" if "r * 32 < 40" for r :: nat using that by linarith
  have "rm_cont d' ! 40 = rm_cont fw_dev ! 40" by (rule t(4)[rule_format]) (simp, drule r, auto)
  then show ?thesis
    using t(1,2) t(3)[rule_format, of 0] t(3)[rule_format, of 1] by (auto simp: pad_block_def fw_image_def fw_dev_def)
qed

text \<open>
  C37. Writing and dumping. After an image was written to a partition that keeps the contract of
  flash, dumping at least as many whole blocks as the image has prints the image first, also when
  blocks of the partition are bad.
\<close>

theorem mtd_write_dump_roundtrip:
  assumes "mtd_flash k cont info bad ok"
    and "dev_number k mtd False True = Some i" "dev_number k mtd False False = Some i"
    and "CHR '':'' \<notin> set mtd" "mtd \<noteq> ''firmware''"
    and "ok (devs s i)" "d = devs s i" "es = mi_erasesize (info d)" "4 \<le> es"
    and "img f = Some evs" "img_ok evs" "RdIntr \<notin> set evs"
    and "4 \<le> length (flat evs)" "length (flat evs) \<le> length (good_blocks info bad d) * es"
    and "mbuf s = None" "buflen s = 0" "jffs2file s = None"
    and "\<not> no_erase opt" "tpl_uboot_args_part opt = None" "ar_part_offset a = 0"
    and "2 * (mi_size (info d) div es) + 1 < n"
    and "length (flat evs) \<le> m * es" "ar_dump_len b = m * es" "m * es < 2 ^ 31" "ar_offset b = 0"
  shows "\<exists>t u rest. mtd_main n k opt a img [] [''write'', f, mtd] s = (Ret (), t) \<and>
     mtd_main n k opt b img [] [''dump'', mtd] t = (Ret (), u) \<and> stdout_bytes u = stdout_bytes t @ flat evs @ rest"
proof -
  note w = mtd_flash.write_command[of k cont info bad ok mtd i s opt evs img f n a,
      OF assms(1,2,6,4) image_accepted_other[OF assms(12,13,5)] assms(10,11,15,16) assms(9)[unfolded assms(7,8)] assms(17,18,19)
        assms(14)[unfolded assms(7,8)] assms(21)[unfolded assms(7,8)] assms(20)]
  have geo: "0 < mi_erasesize (info d)" "length (cont d) = mi_size (info d)"
    using mtd_flash.geometry[OF assms(1), of d] assms(6,7) by auto
  obtain t d' where t: "mtd_main n k opt a img [] [''write'', f, mtd] s = (Ret (), t)" "devs t = (devs s)(i := d')"
    "ok d'" "info d' = info d" "bad d' = bad d" "cont d' = put_blocks (mi_erasesize (info d)) (cont d) (zip (good_blocks info bad d)
       (img_blocks (mi_erasesize (info d)) (flat evs)))"
    using w unfolding assms(7) by blast
  let ?gs = "good_blocks info bad d" and ?bs = "img_blocks es (flat evs)"
  have m0: "0 < m" using assms(13,22) by (cases m) auto
  have ok': "ok (devs t i)" "mi_size (info (devs t i)) div mi_erasesize (info (devs t i)) + 1 < n" using t assms(8,21) by simp_all
  obtain u where u: "mtd_dump n k mtd 0 (int (m * es)) t = (Ret 0, u)"
    "stdout_bytes u = stdout_bytes t @ concat (map (dev_block info cont d') (take m ?gs))"
    using mtd_flash.dump_device[OF assms(1,3) ok'(1) m0 ok'(2)] t(2,4,5) assms(8) by (auto simp: good_blocks_def)
  have nb: "length ?bs \<le> m" using img_blocks_bound[OF assms(22)] geo(1) assms(8) by simp
  have "take m ?gs = take (length ?bs) ?gs @ drop (length ?bs) (take m ?gs)"
    using nb append_take_drop_id[of "length ?bs" "take m ?gs"] by (simp add: min_def)
  moreover have "map (dev_block info cont d') (take (length ?bs) ?gs) = ?bs"
    using put_image(3)[OF t(6,4) geo assms(14)[unfolded assms(8)]] unfolding assms(8) .
  ultimately have cc: "concat (map (dev_block info cont d') (take m ?gs)) =
      concat ?bs @ concat (map (dev_block info cont d') (drop (length ?bs) (take m ?gs)))"
    by (metis concat_append map_append)
  obtain j where "concat ?bs = flat evs @ replicate j 0xff" using concat_img_blocks[of es "flat evs"] assms(9) by auto
  with cc u(2) obtain rest where "stdout_bytes u = stdout_bytes t @ flat evs @ rest" by (metis append.assoc)
  moreover have "mtd_main n k opt b img [] [''dump'', mtd] t = (Ret (), u)"
  proof -
    have "to_s32 (int (m * es)) = int (m * es)" using assms(24) by (intro to_s32_id) (simp_all del: of_nat_mult)
    then show ?thesis
      by (simp add: mseq_Ret[of "mtd_dump n k mtd 0 (int (m * es))" t, OF u(1)] mtd_main_def mtd_command_def main_open_def main_command_def run_simps assms(23,25) to_s32_id[of 0]
          del: of_nat_mult)
  qed
  ultimately show ?thesis using t(1) by blast
qed


theorem mtd_write_dump_roundtrip_witness:
  "\<exists>t u rest. mtd_main 10 ram_sys plain_opts (plain_args 0) (\<lambda>_. Some [RdData [20, 21, 22], RdData [23, 24, 25]]) []
       [''write'', ''image'', ''rootfs''] (fresh small_dev) = (Ret (), t) \<and>
     mtd_main 10 ram_sys plain_opts (plain_args 8) (\<lambda>_. Some [RdData [20, 21, 22], RdData [23, 24, 25]]) []
       [''dump'', ''rootfs''] t = (Ret (), u) \<and>
     stdout_bytes u = stdout_bytes t @ flat [RdData [20, 21, 22], RdData [23, 24, 25]] @ rest"
  by (rule mtd_write_dump_roundtrip[OF ram.mtd_flash_axioms ram_rootfs ram_rootfs, where m = 2 and d = small_dev and es = 4])
     (simp_all add: small_dev_blocks small_dev_ok fresh_def plain_opts_def plain_args_def img_ok_def small_dev_geo)

text \<open>
  C38. Erasing a partition. On a device that keeps the contract of flash, the command \<^verbatim>\<open>erase\<close>
  sets every byte of the good blocks to 0xff and leaves the bad blocks and every other device
  alone, and it ends after as many rounds as the partition has blocks.
\<close>

theorem mtd_erase_good_blocks:
  assumes "mtd_flash k cont info bad ok"
    and "dev_number k mtd False True = Some i" "CHR '':'' \<notin> set mtd" "ok (devs s i)" "d = devs s i"
    and "mi_size (info d) div mi_erasesize (info d) < n"
  shows "\<exists>t d'. mtd_main n k opt a img [] [''erase'', mtd] s = (Ret (), t) \<and> devs t = (devs s)(i := d') \<and>
     length (cont d') = length (cont d) \<and>
     (\<forall>x < mi_size (info d). cont d' ! x = (if bad d (x div mi_erasesize (info d)) then cont d ! x else 0xff))"
proof -
  let ?es = "mi_erasesize (info d)"
  obtain d1 where un: "mtd_unlock k mtd s = (Ret (), s\<lparr>fds := fds s @ [(i, 0)], mtdsize := int (mi_size (info d)),
       erasesize := int ?es, mtdtype := mi_type (info d), devs := (devs s)(i := d1)\<rparr>)"
    "ok d1" "cont d1 = cont d" "info d1 = info d" "bad d1 = bad d"
    using mtd_flash.unlock_device[OF assms(1,2,4,3)] unfolding assms(5) by metis
  let ?s = "s\<lparr>fds := fds s @ [(i, 0)], mtdsize := int (mi_size (info d)), erasesize := int ?es, mtdtype := mi_type (info d),
     devs := (devs s)(i := d1)\<rparr>"
  let ?gbs = "map (\<lambda>g. (g, replicate ?es (0xff :: u8))) (good_blocks info bad d)"
  obtain t d' where t: "mtd_erase n k mtd ?s = (Ret (), t)" "devs t = (devs s)(i := d')"
    "cont d' = put_blocks ?es (cont d) ?gbs"
    using mtd_flash.erase_device[OF assms(1,2), of ?s n] un assms(6) by (auto simp: good_blocks_def)
  have geo: "0 < ?es" "length (cont d) = mi_size (info d)" "?es dvd mi_size (info d)"
    using mtd_flash.geometry[OF assms(1), of d] assms(4,5) by auto
  have ok: "\<forall>(g, b) \<in> set ?gbs. length b = ?es \<and> g * ?es + ?es \<le> length (cont d)"
    using good_block_inside[of _ info bad d] geo by auto
  have mf: "map fst ?gbs = good_blocks info bad d" by (simp add: o_def)
  have "cont d' ! x = (if bad d (x div ?es) then cont d ! x else 0xff)" if x: "x < mi_size (info d)" for x
  proof (cases "bad d (x div ?es)")
    case True
    then have "x div ?es \<notin> fst ` set ?gbs" by (auto dest: good_blocks_props(2))
    then show ?thesis using True x geo by (simp add: t(3) put_blocks_other[OF ok])
  next
    case False
    have "x div ?es < mi_size (info d) div ?es" using x geo by (intro less_mult_imp_div_less) simp
    then have "x div ?es \<in> set (good_blocks info bad d)" using False by (simp add: good_blocks_def)
    then obtain r where r: "r < length (good_blocks info bad d)" "good_blocks info bad d ! r = x div ?es"
      by (auto simp: in_set_conv_nth)
    have "take ?es (drop (x div ?es * ?es) (cont d')) = replicate ?es 0xff"
      using put_blocks_block[OF ok geo(1), of r] r mf good_blocks_props(1)[of info bad d] by (simp add: t(3))
    from arg_cong[OF this, of "\<lambda>l. l ! (x mod ?es)"] have "cont d' ! x = 0xff"
      using x geo put_blocks_length[OF ok] div_times_less_eq_dividend[of x ?es] by (simp add: t(3) nth_drop)
    then show ?thesis using False by simp
  qed
  moreover have "mtd_main n k opt a img [] [''erase'', mtd] s = (Ret (), t)"
    by (simp add: mtd_main_def mtd_command_def main_open_def main_command_def run_simps
        mseq_Ret[of "mtd_unlock k mtd" s, OF un(1)] t(1))
  ultimately show ?thesis using t(2) put_blocks_length[OF ok] t(3) by auto
qed

theorem mtd_erase_good_blocks_witness:
  "\<exists>t d'. mtd_main 10 ram_sys plain_opts (plain_args 0) (\<lambda>_. None) [] [''erase'', ''rootfs''] (fresh small_dev) = (Ret (), t) \<and>
     devs t = (devs (fresh small_dev))(0 := d') \<and> length (rm_cont d') = length (rm_cont small_dev) \<and>
     (\<forall>x < mi_size (rm_info small_dev). rm_cont d' ! x =
        (if ram_bad small_dev (x div mi_erasesize (rm_info small_dev)) then rm_cont small_dev ! x else 0xff))"
  by (rule mtd_erase_good_blocks[OF ram.mtd_flash_axioms ram_rootfs])
     (simp_all add: small_dev_ok small_dev_geo fresh_def)

end
