(* ===== verification/Nvram.thy ===== *)
theory Nvram
  imports Prelude
begin

unbundle bit_operations_syntax

text \<open>
  The variable store of the Broadcom boards (\<^verbatim>\<open>package/utils/nvram/src\<close>): a library that
  keeps name and value pairs in a hash table and in a flash partition, and the command
  line tool on top of it.

  A C string is the list of its bytes without the terminating zero. The chains of the
  hash table are lists of pairs; the pointer \<^verbatim>\<open>next\<close> of a tuple is the order of the list. The
  mapped partition is the list \<open>nh_mmap\<close>, its address is a multiple of the page size, and
  the machine is little endian with 32 bit \<^verbatim>\<open>long\<close> and signed \<^verbatim>\<open>char\<close>, as the boards are.
  Memory allocation does not fail. The parts that only move bytes between files
  (\<^verbatim>\<open>nvram_find_mtd\<close>, \<^verbatim>\<open>nvram_to_staging\<close>, \<^verbatim>\<open>staging_to_nvram\<close>) are not modelled.
\<close>

section \<open>Checksum\<close>

definition crc8_table :: "u8 list" where
  "crc8_table = [
     0x00, 0xF7, 0xB9, 0x4E, 0x25, 0xD2, 0x9C, 0x6B,
     0x4A, 0xBD, 0xF3, 0x04, 0x6F, 0x98, 0xD6, 0x21,
     0x94, 0x63, 0x2D, 0xDA, 0xB1, 0x46, 0x08, 0xFF,
     0xDE, 0x29, 0x67, 0x90, 0xFB, 0x0C, 0x42, 0xB5,
     0x7F, 0x88, 0xC6, 0x31, 0x5A, 0xAD, 0xE3, 0x14,
     0x35, 0xC2, 0x8C, 0x7B, 0x10, 0xE7, 0xA9, 0x5E,
     0xEB, 0x1C, 0x52, 0xA5, 0xCE, 0x39, 0x77, 0x80,
     0xA1, 0x56, 0x18, 0xEF, 0x84, 0x73, 0x3D, 0xCA,
     0xFE, 0x09, 0x47, 0xB0, 0xDB, 0x2C, 0x62, 0x95,
     0xB4, 0x43, 0x0D, 0xFA, 0x91, 0x66, 0x28, 0xDF,
     0x6A, 0x9D, 0xD3, 0x24, 0x4F, 0xB8, 0xF6, 0x01,
     0x20, 0xD7, 0x99, 0x6E, 0x05, 0xF2, 0xBC, 0x4B,
     0x81, 0x76, 0x38, 0xCF, 0xA4, 0x53, 0x1D, 0xEA,
     0xCB, 0x3C, 0x72, 0x85, 0xEE, 0x19, 0x57, 0xA0,
     0x15, 0xE2, 0xAC, 0x5B, 0x30, 0xC7, 0x89, 0x7E,
     0x5F, 0xA8, 0xE6, 0x11, 0x7A, 0x8D, 0xC3, 0x34,
     0xAB, 0x5C, 0x12, 0xE5, 0x8E, 0x79, 0x37, 0xC0,
     0xE1, 0x16, 0x58, 0xAF, 0xC4, 0x33, 0x7D, 0x8A,
     0x3F, 0xC8, 0x86, 0x71, 0x1A, 0xED, 0xA3, 0x54,
     0x75, 0x82, 0xCC, 0x3B, 0x50, 0xA7, 0xE9, 0x1E,
     0xD4, 0x23, 0x6D, 0x9A, 0xF1, 0x06, 0x48, 0xBF,
     0x9E, 0x69, 0x27, 0xD0, 0xBB, 0x4C, 0x02, 0xF5,
     0x40, 0xB7, 0xF9, 0x0E, 0x65, 0x92, 0xDC, 0x2B,
     0x0A, 0xFD, 0xB3, 0x44, 0x2F, 0xD8, 0x96, 0x61,
     0x55, 0xA2, 0xEC, 0x1B, 0x70, 0x87, 0xC9, 0x3E,
     0x1F, 0xE8, 0xA6, 0x51, 0x3A, 0xCD, 0x83, 0x74,
     0xC1, 0x36, 0x78, 0x8F, 0xE4, 0x13, 0x5D, 0xAA,
     0x8B, 0x7C, 0x32, 0xC5, 0xAE, 0x59, 0x17, 0xE0,
     0x2A, 0xDD, 0x93, 0x64, 0x0F, 0xF8, 0xB6, 0x41,
     0x60, 0x97, 0xD9, 0x2E, 0x45, 0xB2, 0xFC, 0x0B,
     0xBE, 0x49, 0x07, 0xF0, 0x9B, 0x6C, 0x22, 0xD5,
     0xF4, 0x03, 0x4D, 0xBA, 0xD1, 0x26, 0x68, 0x9F]"

fun hndcrc8 :: "bytes \<Rightarrow> u8 \<Rightarrow> u8" where
  "hndcrc8 [] crc = crc"
| "hndcrc8 (b # bs) crc = hndcrc8 bs (crc8_table ! unat (crc XOR b))"

section \<open>Data\<close>

type_synonym nvram_tuple = "bytes \<times> bytes"

record nvram_handle =
  nh_mmap :: bytes
  nh_length :: nat
  nh_offset :: nat
  nvram_hash :: "nvram_tuple list list"
  nvram_dead :: "nvram_tuple list"

definition NVRAM_HASH_SIZE :: nat where "NVRAM_HASH_SIZE = 257"
definition NVRAM_HEADER_SIZE :: nat where "NVRAM_HEADER_SIZE = 20"
definition NVRAM_MIN_SPACE :: nat where "NVRAM_MIN_SPACE = 0x8000"
definition NVRAM_MAGIC :: u32 where "NVRAM_MAGIC = 0x48534C46"
definition NVRAM_VERSION :: u32 where "NVRAM_VERSION = 1"
definition NVRAM_CRC_START_POSITION :: nat where "NVRAM_CRC_START_POSITION = 9"
definition SDRAM_INIT :: u32 where "SDRAM_INIT = 0x419"
definition SDRAM_CONFIG :: u32 where "SDRAM_CONFIG = 0"
definition SDRAM_REFRESH :: u32 where "SDRAM_REFRESH = (0x40 AND 0xff) OR 0x8000"

definition str_sdram_init :: bytes where
  "str_sdram_init = [0x73, 0x64, 0x72, 0x61, 0x6d, 0x5f, 0x69, 0x6e, 0x69, 0x74]"  \<comment> \<open>\<^verbatim>\<open>sdram_init\<close>\<close>
definition str_sdram_config :: bytes where
  "str_sdram_config = [0x73, 0x64, 0x72, 0x61, 0x6d, 0x5f, 0x63, 0x6f, 0x6e, 0x66, 0x69, 0x67]"  \<comment> \<open>\<^verbatim>\<open>sdram_config\<close>\<close>
definition str_sdram_refresh :: bytes where
  "str_sdram_refresh = [0x73, 0x64, 0x72, 0x61, 0x6d, 0x5f, 0x72, 0x65, 0x66, 0x72, 0x65, 0x73, 0x68]"  \<comment> \<open>\<^verbatim>\<open>sdram_refresh\<close>\<close>
definition str_sdram_ncdl :: bytes where
  "str_sdram_ncdl = [0x73, 0x64, 0x72, 0x61, 0x6d, 0x5f, 0x6e, 0x63, 0x64, 0x6c]"  \<comment> \<open>\<^verbatim>\<open>sdram_ncdl\<close>\<close>

text \<open>The header at the beginning of the used area, read field by field.\<close>

record nvram_header =
  hd_magic :: u32
  hd_len :: u32
  hd_crc_ver_init :: u32
  hd_config_refresh :: u32
  hd_config_ncdl :: u32

definition nvram_header_of :: "nvram_handle \<Rightarrow> nvram_header" where
  "nvram_header_of h =
     (let w = (\<lambda>i. u32_at (nh_mmap h) (nh_offset h + i))
      in \<lparr>hd_magic = w 0, hd_len = w 4, hd_crc_ver_init = w 8, hd_config_refresh = w 12,
          hd_config_ncdl = w 16\<rparr>)"

definition header_bytes :: "nvram_header \<Rightarrow> bytes" where
  "header_bytes x = le32 (hd_magic x) @ le32 (hd_len x) @ le32 (hd_crc_ver_init x) @
     le32 (hd_config_refresh x) @ le32 (hd_config_ncdl x)"

section \<open>The hash table\<close>

definition nvram_hash_fn :: "bytes \<Rightarrow> u32" where
  "nvram_hash_fn s = foldl (\<lambda>h c. 31 * h + scast c) 0 s"

definition bucket_of :: "bytes \<Rightarrow> nat" where
  "bucket_of name = unat (nvram_hash_fn name) mod NVRAM_HASH_SIZE"

definition nvram_free :: "nvram_handle \<Rightarrow> nvram_handle" where
  "nvram_free h = h\<lparr>nvram_hash := replicate NVRAM_HASH_SIZE [], nvram_dead := []\<rparr>"

fun find_tuple :: "bytes \<Rightarrow> nvram_tuple list \<Rightarrow> nvram_tuple option" where
  "find_tuple name [] = None"
| "find_tuple name (t # ts) = (if fst t = name then Some t else find_tuple name ts)"

definition nvram_get :: "nvram_handle \<Rightarrow> bytes \<Rightarrow> bytes option" where
  "nvram_get h name = map_option snd (find_tuple name (nvram_hash h ! bucket_of name))"

text \<open>
  \<^verbatim>\<open>_nvram_realloc\<close> returns the tuple it was given with a new value, or a new one; it
  refuses a value that is longer than the whole used area. The subtraction is unsigned.
\<close>

definition nvram_realloc ::
  "nvram_handle \<Rightarrow> nvram_tuple option \<Rightarrow> bytes \<Rightarrow> bytes \<Rightarrow> nvram_tuple option" where
  "nvram_realloc h t name val =
     (if length val + 1 > to_u32 (int (nh_length h) - int (nh_offset h)) then None
      else case t of
             None \<Rightarrow> Some (name, val)
           | Some (n, v) \<Rightarrow> Some (n, val))"

fun upd_tuple :: "bytes \<Rightarrow> nvram_tuple \<Rightarrow> nvram_tuple list \<Rightarrow> nvram_tuple list" where
  "upd_tuple name u [] = []"
| "upd_tuple name u (t # ts) = (if fst t = name then u # ts else t # upd_tuple name u ts)"

fun del_tuple :: "bytes \<Rightarrow> nvram_tuple list \<Rightarrow> nvram_tuple list" where
  "del_tuple name [] = []"
| "del_tuple name (t # ts) = (if fst t = name then ts else t # del_tuple name ts)"

text \<open>
  \<^verbatim>\<open>nvram_set\<close>. A tuple that exists is changed in place: \<^verbatim>\<open>_nvram_realloc\<close> returns the
  pointer it was given, so the branch of the source that moves the old tuple to the dead
  list is never taken.
\<close>

definition nvram_set :: "nvram_handle \<Rightarrow> bytes \<Rightarrow> bytes \<Rightarrow> int \<times> nvram_handle" where
  "nvram_set h name val =
     (let i = bucket_of name;
          chain = nvram_hash h ! i;
          t = find_tuple name chain
      in case nvram_realloc h t name val of
           None \<Rightarrow> (- ENOMEM, h)
         | Some u \<Rightarrow>
             (case t of
                Some _ \<Rightarrow> (0, h\<lparr>nvram_hash := (nvram_hash h)[i := upd_tuple name u chain]\<rparr>)
              | None \<Rightarrow> (0, h\<lparr>nvram_hash := (nvram_hash h)[i := u # chain]\<rparr>)))"

definition nvram_unset :: "nvram_handle \<Rightarrow> bytes \<Rightarrow> int \<times> nvram_handle" where
  "nvram_unset h name =
     (let i = bucket_of name;
          chain = nvram_hash h ! i
      in case find_tuple name chain of
           None \<Rightarrow> (0, h)
         | Some t \<Rightarrow> (0, h\<lparr>nvram_hash := (nvram_hash h)[i := del_tuple name chain],
                          nvram_dead := t # nvram_dead h\<rparr>))"

definition nvram_getall :: "nvram_handle \<Rightarrow> nvram_tuple list" where
  "nvram_getall h = foldl (\<lambda>l t. t # l) [] (concat (nvram_hash h))"

section \<open>Numbers as text\<close>

text \<open>\<^verbatim>\<open>sprintf\<close> with \<^verbatim>\<open>0x%04X\<close> and \<^verbatim>\<open>0x%08X\<close>: at least that many upper case digits.\<close>

definition hex_digit :: "nat \<Rightarrow> u8" where
  "hex_digit n = (if n < 10 then of_nat (48 + n) else of_nat (55 + n))"

fun hex_digits :: "nat \<Rightarrow> nat \<Rightarrow> bytes" where
  "hex_digits 0 n = []"
| "hex_digits (Suc k) n = hex_digits k (n div 16) @ [hex_digit (n mod 16)]"

definition sprintf_hex :: "nat \<Rightarrow> u32 \<Rightarrow> bytes" where
  "sprintf_hex k w = [0x30, 0x78] @ hex_digits k (unat w)"

text \<open>
  \<^verbatim>\<open>strtoul(s, NULL, 0)\<close>: white space, a sign, a prefix that selects the base, and digits
  up to the first character that is none. Too large a number gives the largest one.
\<close>

definition is_space :: "u8 \<Rightarrow> bool" where
  "is_space c \<longleftrightarrow> c = 0x20 \<or> (0x09 \<le> c \<and> c \<le> 0x0d)"

definition digit_val :: "u8 \<Rightarrow> nat option" where
  "digit_val c =
     (if 0x30 \<le> c \<and> c \<le> 0x39 then Some (unat c - 48)
      else if 0x41 \<le> c \<and> c \<le> 0x5a then Some (unat c - 55)
      else if 0x61 \<le> c \<and> c \<le> 0x7a then Some (unat c - 87)
      else None)"

fun strtoul_digits :: "nat \<Rightarrow> nat \<Rightarrow> bytes \<Rightarrow> nat" where
  "strtoul_digits base acc [] = acc"
| "strtoul_digits base acc (c # cs) =
     (case digit_val c of
        Some d \<Rightarrow> if d < base then strtoul_digits base (acc * base + d) cs else acc
      | None \<Rightarrow> acc)"

definition strtoul_base :: "bytes \<Rightarrow> nat" where
  "strtoul_base s =
     (case s of
        c0 # c1 # c2 # cs \<Rightarrow>
          if c0 = 0x30 \<and> (c1 = 0x78 \<or> c1 = 0x58) \<and>
             (case digit_val c2 of Some d \<Rightarrow> d < 16 | None \<Rightarrow> False)
          then strtoul_digits 16 0 (c2 # cs)
          else if c0 = 0x30 then strtoul_digits 8 0 s else strtoul_digits 10 0 s
      | c0 # cs \<Rightarrow> if c0 = 0x30 then strtoul_digits 8 0 s else strtoul_digits 10 0 s
      | [] \<Rightarrow> 0)"

definition strtoul :: "bytes \<Rightarrow> u32" where
  "strtoul s0 =
     (let s = dropWhile is_space s0;
          (neg, s) = (case s of
                        c # cs \<Rightarrow> if c = 0x2d then (True, cs) else if c = 0x2b then (False, cs)
                                  else (False, s)
                      | [] \<Rightarrow> (False, s));
          n = strtoul_base s
      in if n \<ge> 4294967296 then 0xffffffff
         else if neg then - of_nat n else of_nat n)"

section \<open>Reading the partition\<close>

text \<open>
  \<^verbatim>\<open>memchr(a, c, e - a)\<close> as an index. \<open>cstr buf a e\<close> is the C string at \<open>a\<close> when a zero
  byte has been stored at \<open>e\<close>.
\<close>

definition memchr :: "bytes \<Rightarrow> u8 \<Rightarrow> nat \<Rightarrow> nat \<Rightarrow> nat option" where
  "memchr buf c a e = List.find (\<lambda>i. byte_at buf i = c) [a..<e]"

definition cstr :: "bytes \<Rightarrow> nat \<Rightarrow> nat \<Rightarrow> bytes" where
  "cstr buf a e = takeWhile (\<lambda>c. c \<noteq> 0) (take (e - a) (drop a buf))"

lemma memchr_bounds: "memchr buf c a e = Some i \<Longrightarrow> a \<le> i \<and> i < e"
  by (auto simp: memchr_def find_Some_iff)

function rehash_loop :: "bytes \<Rightarrow> nat \<Rightarrow> nat \<Rightarrow> nvram_handle \<Rightarrow> nvram_handle" where
  "rehash_loop buf name e h =
     (if name < e \<and> byte_at buf name \<noteq> 0 then
        (case memchr buf 0x3d name e of
           None \<Rightarrow> h
         | Some eq \<Rightarrow>
             (case memchr buf 0 (eq + 1) e of
                None \<Rightarrow> h
              | Some nul \<Rightarrow>
                  rehash_loop buf (nul + 1) e
                    (snd (nvram_set h (cstr buf name eq) (cstr buf (eq + 1) nul)))))
      else h)"
  by pat_completeness auto
termination
  by (relation "measure (\<lambda>(buf, name, e, h). e - name)") (auto dest!: memchr_bounds)

declare rehash_loop.simps [simp del]

definition set_default :: "bytes \<Rightarrow> bytes \<Rightarrow> nvram_handle \<Rightarrow> nvram_handle" where
  "set_default name val h =
     (case nvram_get h name of Some _ \<Rightarrow> h | None \<Rightarrow> snd (nvram_set h name val))"

definition rehash_end :: "nvram_handle \<Rightarrow> nat" where
  "rehash_end h =
     (let len = unat (hd_len (nvram_header_of h))
      in if len \<ge> NVRAM_HEADER_SIZE \<and> len \<le> to_u32 (int (nh_length h) - int (nh_offset h))
         then nh_offset h + len else nh_length h)"

definition nvram_rehash :: "nvram_handle \<Rightarrow> nvram_handle" where
  "nvram_rehash h0 =
     (let h = nvram_free h0;
          hd = nvram_header_of h;
          h1 = rehash_loop (nh_mmap h) (nh_offset h + NVRAM_HEADER_SIZE) (rehash_end h) h;
          h2 = set_default str_sdram_init (sprintf_hex 4 (drop_bit 16 (hd_crc_ver_init hd))) h1;
          h3 = set_default str_sdram_config (sprintf_hex 4 (hd_config_refresh hd AND 0xffff)) h2;
          h4 = set_default str_sdram_refresh
                 (sprintf_hex 4 (drop_bit 16 (hd_config_refresh hd) AND 0xffff)) h3
      in set_default str_sdram_ncdl (sprintf_hex 8 (hd_config_ncdl hd)) h4)"

section \<open>Writing the partition\<close>

definition tuple_bytes :: "nvram_tuple \<Rightarrow> bytes" where
  "tuple_bytes t = fst t @ [0x3d] @ snd t @ [0]"

text \<open>
  The inner loop of \<^verbatim>\<open>nvram_commit\<close> ends at the first tuple that does not fit; the outer
  one goes on with the next chain.
\<close>

fun commit_chain :: "nat \<Rightarrow> nvram_tuple list \<Rightarrow> nat \<times> bytes \<Rightarrow> nat \<times> bytes" where
  "commit_chain e [] (ptr, buf) = (ptr, buf)"
| "commit_chain e (t # ts) (ptr, buf) =
     (if ptr + length (fst t) + 1 + length (snd t) + 1 > e then (ptr, buf)
      else commit_chain e ts (ptr + length (tuple_bytes t), store_at buf ptr (tuple_bytes t)))"

definition regenerated_header :: "nvram_handle \<Rightarrow> nvram_header" where
  "regenerated_header h =
     (let ver = push_bit 8 NVRAM_VERSION
      in case (nvram_get h str_sdram_init, nvram_get h str_sdram_config,
               nvram_get h str_sdram_refresh, nvram_get h str_sdram_ncdl) of
           (Some init, Some config, Some refresh, Some ncdl) \<Rightarrow>
             \<lparr>hd_magic = NVRAM_MAGIC, hd_len = hd_len (nvram_header_of h),
              hd_crc_ver_init = ver OR push_bit 16 (strtoul init AND 0xffff),
              hd_config_refresh = (strtoul config AND 0xffff) OR
                push_bit 16 (strtoul refresh AND 0xffff),
              hd_config_ncdl = strtoul ncdl\<rparr>
         | _ \<Rightarrow>
             \<lparr>hd_magic = NVRAM_MAGIC, hd_len = hd_len (nvram_header_of h),
              hd_crc_ver_init = ver OR push_bit 16 SDRAM_INIT,
              hd_config_refresh = SDRAM_CONFIG OR push_bit 16 SDRAM_REFRESH,
              hd_config_ncdl = 0\<rparr>)"

text \<open>
  The padding to a multiple of four depends on the address of the buffer, \<^verbatim>\<open>(int) ptr % 4\<close>. The
  buffer is aligned and its address is taken to be positive as an \<^verbatim>\<open>int\<close>; for a negative one the
  source clears four bytes more behind the last variable.
\<close>

definition commit_data :: "nvram_handle \<Rightarrow> nat \<times> bytes" where
  "commit_data h =
     (let off = nh_offset h;
          start = off + NVRAM_HEADER_SIZE;
          cleared = store_at (nh_mmap h) start (replicate (nh_length h - off - NVRAM_HEADER_SIZE) (- 1));
          (ptr, buf) = fold (commit_chain (nh_length h - 2)) (nvram_hash h) (start, cleared);
          buf1 = store_at buf ptr [0];
          ptr1 = ptr + 1;
          buf2 = (if ptr1 mod 4 \<noteq> 0 then store_at buf1 ptr1 (replicate (4 - ptr1 mod 4) 0) else buf1)
      in (ptr1 + 1, buf2))"

definition NVRAM_ROUNDUP :: "nat \<Rightarrow> nat \<Rightarrow> nat" where
  "NVRAM_ROUNDUP x y = ((x + (y - 1)) div y) * y"

definition nvram_commit :: "nvram_handle \<Rightarrow> nvram_handle" where
  "nvram_commit h =
     (let off = nh_offset h;
          hd = regenerated_header h;
          (ptr, buf) = commit_data h;
          len = NVRAM_ROUNDUP (ptr - off) 4;
          hd1 = hd\<lparr>hd_len := of_nat len\<rparr>;
          tmp = header_bytes \<lparr>hd_magic = 0, hd_len = 0, hd_crc_ver_init = hd_crc_ver_init hd1,
                   hd_config_refresh = hd_config_refresh hd1, hd_config_ncdl = hd_config_ncdl hd1\<rparr>;
          crc0 = hndcrc8 (drop NVRAM_CRC_START_POSITION tmp) 0xff;
          crc = hndcrc8 (take (len - NVRAM_HEADER_SIZE) (drop (off + NVRAM_HEADER_SIZE) buf)) crc0;
          hd2 = hd1\<lparr>hd_crc_ver_init := hd_crc_ver_init hd1 OR ucast crc\<rparr>
      in nvram_rehash (h\<lparr>nh_mmap := store_at buf off (header_bytes hd2)\<rparr>))"

section \<open>Opening a partition\<close>

text \<open>
  \<^verbatim>\<open>nvram_open\<close> after the file was found: \<open>st_size\<close> is its size when it is a regular
  file. The result \<open>None\<close> is the null pointer.
\<close>

definition open_length :: "nat \<Rightarrow> nat option \<Rightarrow> nat" where
  "open_length part_size st_size =
     (case st_size of
        Some n \<Rightarrow> if n < part_size then n - n mod 4 else part_size
      | None \<Rightarrow> part_size)"

definition find_magic :: "bytes \<Rightarrow> nat \<Rightarrow> nat option" where
  "find_magic area len =
     (let last = (if len \<ge> NVRAM_MIN_SPACE then (len - NVRAM_MIN_SPACE) div 4 else 0)
      in map_option (\<lambda>i. i * 4) (List.find (\<lambda>i. u32_at area (i * 4) = NVRAM_MAGIC) [0..<last + 1]))"

definition nvram_open :: "nat \<Rightarrow> nat option \<Rightarrow> bytes \<Rightarrow> bool \<Rightarrow> nvram_handle option" where
  "nvram_open part_size st_size contents rdonly =
     (let len = open_length part_size st_size;
          area = take len contents
      in if len < NVRAM_HEADER_SIZE + 4 then None
         else case find_magic area len of
                None \<Rightarrow> None
              | Some offset \<Rightarrow>
                  (let h = \<lparr>nh_mmap = area, nh_length = len, nh_offset = offset,
                            nvram_hash = replicate NVRAM_HASH_SIZE [], nvram_dead = []\<rparr>;
                       hd = nvram_header_of h
                   in if hd_magic hd = NVRAM_MAGIC \<and>
                         (rdonly \<or> unat (hd_len hd) < to_u32 (int len - int offset))
                      then Some (nvram_rehash h) else None))"

section \<open>The command line tool\<close>

definition do_set :: "nvram_handle \<Rightarrow> bytes \<Rightarrow> int \<times> nvram_handle" where
  "do_set h pair =
     (case dropWhile (\<lambda>c. c \<noteq> 0x3d) pair of
        [] \<Rightarrow> (1, h)
      | _ # val \<Rightarrow> nvram_set h (takeWhile (\<lambda>c. c \<noteq> 0x3d) pair) val)"

definition do_get :: "nvram_handle \<Rightarrow> bytes \<Rightarrow> int \<times> bytes list" where
  "do_get h var = (case nvram_get h var of Some v \<Rightarrow> (0, [v]) | None \<Rightarrow> (1, []))"

definition do_show :: "nvram_handle \<Rightarrow> int \<times> bytes list" where
  "do_show h =
     (let ts = nvram_getall h
      in (if ts = [] then 1 else 0, map (\<lambda>t. fst t @ [0x3d] @ snd t) ts))"

definition do_info_len :: "nvram_handle \<Rightarrow> nat" where
  "do_info_len h =
     max NVRAM_CRC_START_POSITION
       (min (unat (hd_len (nvram_header_of h))) (to_u32 (int (nh_length h) - int (nh_offset h))))"

definition do_info_crc :: "nvram_handle \<Rightarrow> u8" where
  "do_info_crc h =
     hndcrc8 (take (do_info_len h - NVRAM_CRC_START_POSITION)
       (drop (nh_offset h + NVRAM_CRC_START_POSITION) (nh_mmap h))) 0xff"

datatype cli_arg = ArgShow | ArgInfo | ArgGet | ArgSet | ArgUnset | ArgCommit | ArgOther bytes

record cli_st =
  cli_h :: nvram_handle
  cli_stat :: int
  cli_done :: nat
  cli_commit :: bool
  cli_out :: "bytes list"

text \<open>
  The loop of \<^verbatim>\<open>main\<close> over the arguments. An argument is one of the commands or some other
  word; the word after a command that takes one is read as text, which \<open>word\<close> gives.
\<close>

fun cli_loop :: "(cli_arg \<Rightarrow> bytes) \<Rightarrow> cli_arg list \<Rightarrow> cli_st \<Rightarrow> cli_st" where
  "cli_loop word [] c = c"
| "cli_loop word (ArgShow # as) c =
     (let (st, out) = do_show (cli_h c)
      in cli_loop word as (c\<lparr>cli_stat := st, cli_out := cli_out c @ out, cli_done := cli_done c + 1\<rparr>))"
| "cli_loop word (ArgInfo # as) c = cli_loop word as (c\<lparr>cli_stat := 0, cli_done := cli_done c + 1\<rparr>)"
| "cli_loop word (ArgCommit # as) c = cli_loop word as (c\<lparr>cli_commit := True, cli_done := cli_done c + 1\<rparr>)"
| "cli_loop word (ArgGet # a # as) c =
     (let (st, out) = do_get (cli_h c) (word a)
      in cli_loop word as (c\<lparr>cli_stat := st, cli_out := cli_out c @ out, cli_done := cli_done c + 1\<rparr>))"
| "cli_loop word (ArgUnset # a # as) c =
     (let (st, h) = nvram_unset (cli_h c) (word a)
      in cli_loop word as (c\<lparr>cli_stat := st, cli_h := h, cli_done := cli_done c + 1\<rparr>))"
| "cli_loop word (ArgSet # a # as) c =
     (let (st, h) = do_set (cli_h c) (word a)
      in cli_loop word as (c\<lparr>cli_stat := st, cli_h := h, cli_done := cli_done c + 1\<rparr>))"
| "cli_loop word [ArgGet] c = c\<lparr>cli_done := 0\<rparr>"
| "cli_loop word [ArgUnset] c = c\<lparr>cli_done := 0\<rparr>"
| "cli_loop word [ArgSet] c = c\<lparr>cli_done := 0\<rparr>"
| "cli_loop word (ArgOther w # as) c = c\<lparr>cli_done := 0\<rparr>"

definition cli_writes :: "cli_arg list \<Rightarrow> bool" where
  "cli_writes args =
     (case args of
        ArgSet # _ # _ \<Rightarrow> True | ArgUnset # _ # _ \<Rightarrow> True | ArgCommit # _ \<Rightarrow> True | _ \<Rightarrow> False)"

text \<open>
  \<^verbatim>\<open>main\<close> once the handle \<open>h\<close> is open. The argument \<open>to_nvram\<close> is what
  \<^verbatim>\<open>staging_to_nvram\<close> returns when the staged copy is written to the flash.
\<close>

definition cli_main ::
  "(cli_arg \<Rightarrow> bytes) \<Rightarrow> int \<Rightarrow> cli_arg list \<Rightarrow> nvram_handle \<Rightarrow> int \<times> cli_st" where
  "cli_main word to_nvram args h =
     (let c = cli_loop word args
                \<lparr>cli_h = h, cli_stat = 1, cli_done = 0, cli_commit = False, cli_out = []\<rparr>;
          c1 = (if cli_writes args then c\<lparr>cli_h := nvram_commit (cli_h c), cli_stat := 0\<rparr> else c);
          c2 = (if cli_commit c1 then c1\<lparr>cli_stat := to_nvram\<rparr> else c1)
      in (if cli_done c2 = 0 then 1 else cli_stat c2, c2))"

section \<open>The store as a map\<close>

text \<open>
  The contract of a store of variables: setting and removing a variable are the updates of a
  map, and a value that does not fit changes nothing.
\<close>

locale var_store =
  fixes get :: "'s \<Rightarrow> 'n \<Rightarrow> 'v option"
    and put :: "'s \<Rightarrow> 'n \<Rightarrow> 'v \<Rightarrow> 's"
    and del :: "'s \<Rightarrow> 'n \<Rightarrow> 's"
    and fits :: "'s \<Rightarrow> 'v \<Rightarrow> bool"
    and wf_name :: "'n \<Rightarrow> bool"
    and wf_val :: "'v \<Rightarrow> bool"
    and inv :: "'s \<Rightarrow> bool"
  assumes inv_put: "inv s \<Longrightarrow> wf_name n \<Longrightarrow> wf_val v \<Longrightarrow> inv (put s n v)"
    and inv_del: "inv s \<Longrightarrow> inv (del s n)"
    and get_put: "inv s \<Longrightarrow> fits s v \<Longrightarrow> get (put s n v) = (get s)(n \<mapsto> v)"
    and put_full: "\<not> fits s v \<Longrightarrow> put s n v = s"
    and get_del: "inv s \<Longrightarrow> get (del s n) = (get s)(n := None)"
    and fits_put: "fits (put s n v) w = fits s w"
begin

definition put_all :: "('n \<times> 'v) list \<Rightarrow> 's \<Rightarrow> 's" where
  "put_all ts s = fold (\<lambda>t s. put s (fst t) (snd t)) ts s"

lemma put_all_simps [simp]:
  "put_all [] s = s" "put_all (t # ts) s = put_all ts (put s (fst t) (snd t))"
  by (simp_all add: put_all_def)

lemma inv_put_all:
  "inv s \<Longrightarrow> (\<forall>t \<in> set ts. wf_name (fst t) \<and> wf_val (snd t)) \<Longrightarrow> inv (put_all ts s)"
  by (induction ts arbitrary: s) (simp_all add: inv_put)

lemma get_put_all:
  "inv s \<Longrightarrow> (\<forall>t \<in> set ts. wf_name (fst t) \<and> wf_val (snd t) \<and> fits s (snd t)) \<Longrightarrow>
   distinct (map fst ts) \<Longrightarrow> get (put_all ts s) = get s ++ map_of ts"
proof (induction ts arbitrary: s)
  case (Cons t ts)
  have "get (put_all ts (put s (fst t) (snd t))) = (get s)(fst t \<mapsto> snd t) ++ map_of ts"
    using Cons by (simp add: inv_put fits_put get_put)
  moreover have "fst t \<notin> dom (map_of ts)" using Cons.prems(3) by (simp add: dom_map_of_conv_image_fst)
  ultimately show ?case
    by (cases t) (auto simp: map_add_upd_left fun_eq_iff map_add_def split: option.split)
qed simp

end

section \<open>Chains and buckets\<close>

lemma find_tuple_map_of: "map_option snd (find_tuple n ts) = map_of ts n"
  by (induction ts) auto

lemma find_tuple_None: "find_tuple n ts = None \<longleftrightarrow> n \<notin> fst ` set ts"
  by (induction ts) auto

lemma find_tuple_Some: "find_tuple n ts = Some t \<Longrightarrow> fst t = n \<and> t \<in> set ts"
  by (induction ts) (auto split: if_splits)

lemma map_of_upd_tuple:
  "n \<in> fst ` set ts \<Longrightarrow> map_of (upd_tuple n (n, v) ts) = (map_of ts)(n \<mapsto> v)"
proof (induction ts)
  case (Cons t ts)
  then show ?case by (cases t) (force simp: fun_eq_iff)
qed simp

lemma fst_upd_tuple [simp]: "map fst (upd_tuple n (n, v) ts) = map fst ts"
  by (induction ts) auto

lemma set_upd_tuple: "set (upd_tuple n u ts) \<subseteq> insert u (set ts)"
  by (induction ts) auto

lemma map_of_del_tuple:
  "distinct (map fst ts) \<Longrightarrow> map_of (del_tuple n ts) = (map_of ts)(n := None)"
proof (induction ts)
  case (Cons t ts)
  then show ?case
    by (cases t) (auto simp: fun_eq_iff map_of_eq_None_iff image_iff)
qed simp

lemma set_del_tuple: "set (del_tuple n ts) \<subseteq> set ts"
  by (induction ts) auto

lemma distinct_del_tuple: "distinct (map fst ts) \<Longrightarrow> distinct (map fst (del_tuple n ts))"
proof (induction ts)
  case (Cons t ts)
  then show ?case using set_del_tuple[of n ts] by auto
qed simp

lemma bucket_lt [simp]: "bucket_of n < 257"
  by (simp add: bucket_of_def NVRAM_HASH_SIZE_def)

text \<open>
  The names of the library contain no equals sign and no zero byte, the values no zero byte;
  every tuple is in the chain of its name, and no chain has a name twice.
\<close>

definition name_ok :: "bytes \<Rightarrow> bool" where
  "name_ok n \<longleftrightarrow> 0 \<notin> set n \<and> 0x3d \<notin> set n"

definition value_ok :: "bytes \<Rightarrow> bool" where
  "value_ok v \<longleftrightarrow> 0 \<notin> set v"

definition chain_ok :: "nat \<Rightarrow> nvram_tuple list \<Rightarrow> bool" where
  "chain_ok i ts \<longleftrightarrow> distinct (map fst ts) \<and>
     (\<forall>t \<in> set ts. bucket_of (fst t) = i \<and> name_ok (fst t) \<and> value_ok (snd t))"

definition nvram_inv :: "nvram_handle \<Rightarrow> bool" where
  "nvram_inv h \<longleftrightarrow> length (nvram_hash h) = 257 \<and> (\<forall>i < 257. chain_ok i (nvram_hash h ! i))"

definition value_fits :: "nvram_handle \<Rightarrow> bytes \<Rightarrow> bool" where
  "value_fits h v \<longleftrightarrow> length v + 1 \<le> to_u32 (int (nh_length h) - int (nh_offset h))"

lemma nvram_get_map_of: "nvram_get h n = map_of (nvram_hash h ! bucket_of n) n"
  by (simp add: nvram_get_def find_tuple_map_of)

lemma nvram_set_cases:
  "nvram_set h n v =
     (if \<not> value_fits h v then (- ENOMEM, h)
      else (0, h\<lparr>nvram_hash := (nvram_hash h)[bucket_of n :=
              (if n \<in> fst ` set (nvram_hash h ! bucket_of n)
               then upd_tuple n (n, v) (nvram_hash h ! bucket_of n)
               else (n, v) # nvram_hash h ! bucket_of n)]\<rparr>))"
  by (auto simp: nvram_set_def nvram_realloc_def value_fits_def Let_def find_tuple_None
      split: option.splits dest: find_tuple_Some)

lemma chain_ok_update:
  assumes "nvram_inv h" "chain_ok k c" "k < 257"
  shows "nvram_inv (h\<lparr>nvram_hash := (nvram_hash h)[k := c]\<rparr>)"
  using assms by (auto simp: nvram_inv_def nth_list_update)

lemma nvram_inv_set:
  assumes "nvram_inv h" "name_ok n" "value_ok v"
  shows "nvram_inv (snd (nvram_set h n v))"
proof -
  let ?c = "nvram_hash h ! bucket_of n"
  have c: "chain_ok (bucket_of n) ?c" using assms(1) by (simp add: nvram_inv_def)
  have "chain_ok (bucket_of n) (upd_tuple n (n, v) ?c)"
    using c assms set_upd_tuple[of n "(n, v)" ?c] by (auto simp: chain_ok_def)
  moreover have "chain_ok (bucket_of n) ((n, v) # ?c)" if "n \<notin> fst ` set ?c"
    using c assms that by (auto simp: chain_ok_def)
  ultimately show ?thesis
    using assms(1) by (auto simp: nvram_set_cases intro!: chain_ok_update)
qed

lemma nvram_inv_unset: "nvram_inv h \<Longrightarrow> nvram_inv (snd (nvram_unset h n))"
proof -
  assume inv: "nvram_inv h"
  let ?c = "nvram_hash h ! bucket_of n"
  have "chain_ok (bucket_of n) ?c" using inv by (simp add: nvram_inv_def)
  then have "chain_ok (bucket_of n) (del_tuple n ?c)"
    using set_del_tuple[of n ?c] by (auto simp: chain_ok_def distinct_del_tuple)
  from chain_ok_update[OF inv this] have
    "nvram_inv (h\<lparr>nvram_hash := (nvram_hash h)[bucket_of n := del_tuple n ?c]\<rparr>)" by simp
  then show ?thesis using inv by (auto simp: nvram_unset_def Let_def nvram_inv_def split: option.split)
qed

lemma hash_update_nth:
  assumes "nvram_inv h"
  shows "(nvram_hash h)[bucket_of n := c] ! bucket_of m =
     (if bucket_of m = bucket_of n then c else nvram_hash h ! bucket_of m)"
  using assms by (simp add: nvram_inv_def nth_list_update)

lemma nvram_get_set:
  assumes "nvram_inv h" "value_fits h v"
  shows "nvram_get (snd (nvram_set h n v)) = (nvram_get h)(n \<mapsto> v)"
proof
  fix m
  let ?c = "nvram_hash h ! bucket_of n"
  define c where "c = (if n \<in> fst ` set ?c then upd_tuple n (n, v) ?c else (n, v) # ?c)"
  have c: "map_of c = (map_of ?c)(n \<mapsto> v)" by (simp add: c_def map_of_upd_tuple)
  have "snd (nvram_set h n v) = h\<lparr>nvram_hash := (nvram_hash h)[bucket_of n := c],
      nvram_dead := nvram_dead h\<rparr>"
    using assms(2) by (simp add: nvram_set_cases c_def)
  then show "nvram_get (snd (nvram_set h n v)) m = ((nvram_get h)(n \<mapsto> v)) m"
    by (cases "bucket_of m = bucket_of n")
      (auto simp: hash_update_nth[OF assms(1)] c nvram_get_map_of)
qed

lemma nvram_get_unset:
  assumes "nvram_inv h"
  shows "nvram_get (snd (nvram_unset h n)) = (nvram_get h)(n := None)"
proof
  fix m
  let ?c = "nvram_hash h ! bucket_of n"
  have d: "distinct (map fst ?c)" using assms by (simp add: nvram_inv_def chain_ok_def)
  show "nvram_get (snd (nvram_unset h n)) m = ((nvram_get h)(n := None)) m"
  proof (cases "find_tuple n ?c")
    case None
    then have "nvram_get h n = None" by (simp add: nvram_get_def)
    then show ?thesis using None by (simp add: nvram_unset_def)
  next
    case (Some t)
    then show ?thesis
      by (cases "bucket_of m = bucket_of n")
        (auto simp: nvram_unset_def Let_def hash_update_nth[OF assms] map_of_del_tuple[OF d]
          nvram_get_map_of)
  qed
qed

interpretation nv: var_store nvram_get "\<lambda>h n v. snd (nvram_set h n v)" "\<lambda>h n. snd (nvram_unset h n)"
  value_fits name_ok value_ok nvram_inv
proof (unfold_locales, goal_cases)
  case 1 then show ?case by (rule nvram_inv_set)
next
  case 2 then show ?case by (rule nvram_inv_unset)
next
  case 3 then show ?case by (rule nvram_get_set)
next
  case 4 then show ?case by (simp add: nvram_set_cases)
next
  case 5 then show ?case by (rule nvram_get_unset)
next
  case 6 show ?case by (simp add: nvram_set_cases value_fits_def)
qed

section \<open>Bytes at a place of a buffer\<close>

definition holds_at :: "bytes \<Rightarrow> nat \<Rightarrow> bytes \<Rightarrow> bool" where
  "holds_at buf p bs \<longleftrightarrow> p + length bs \<le> length buf \<and> (\<forall>k < length bs. buf ! (p + k) = bs ! k)"

lemma holds_at_append:
  "holds_at buf p (xs @ ys) \<longleftrightarrow> holds_at buf p xs \<and> holds_at buf (p + length xs) ys"
proof -
  have "(\<forall>k < length xs + length ys. buf ! (p + k) = (xs @ ys) ! k) \<longleftrightarrow>
      (\<forall>k < length xs. buf ! (p + k) = xs ! k) \<and>
      (\<forall>k < length ys. buf ! (p + length xs + k) = ys ! k)"
  proof (intro iffI conjI allI impI)
    fix k assume "\<forall>k < length xs + length ys. buf ! (p + k) = (xs @ ys) ! k" "k < length xs"
    then show "buf ! (p + k) = xs ! k" by (auto simp: nth_append dest: spec[of _ k])
  next
    fix k assume "\<forall>k < length xs + length ys. buf ! (p + k) = (xs @ ys) ! k" "k < length ys"
    then show "buf ! (p + length xs + k) = ys ! k"
      by (auto simp: nth_append add.assoc dest: spec[of _ "length xs + k"])
  next
    fix k assume a: "(\<forall>k < length xs. buf ! (p + k) = xs ! k) \<and>
      (\<forall>k < length ys. buf ! (p + length xs + k) = ys ! k)" "k < length xs + length ys"
    show "buf ! (p + k) = (xs @ ys) ! k"
    proof (cases "k < length xs")
      case False
      then obtain j where "k = length xs + j" by (metis le_Suc_ex not_less)
      with a show ?thesis by (simp add: nth_append add.assoc)
    qed (use a in \<open>simp add: nth_append\<close>)
  qed
  then show ?thesis by (auto simp: holds_at_def)
qed

lemma holds_at_Cons:
  "holds_at buf p (x # xs) \<longleftrightarrow> p < length buf \<and> buf ! p = x \<and> holds_at buf (Suc p) xs"
  using holds_at_append[of buf p "[x]" xs] by (auto simp: holds_at_def)

lemma holds_at_take: "holds_at buf p bs \<Longrightarrow> take (length bs) (drop p buf) = bs"
  by (auto simp: holds_at_def intro!: nth_equalityI)

lemma holds_at_byte: "holds_at buf p bs \<Longrightarrow> k < length bs \<Longrightarrow> byte_at buf (p + k) = bs ! k"
  by (simp add: holds_at_def byte_at_def)

lemma memchr_holds:
  assumes "holds_at buf p (xs @ [c])" "c \<notin> set xs" "p + length xs < e"
  shows "memchr buf c p e = Some (p + length xs)"
proof -
  have "byte_at buf (p + k) = (xs @ [c]) ! k" if "k \<le> length xs" for k
    using holds_at_byte[OF assms(1), of k] that by simp
  moreover have "xs ! k \<noteq> c" if "k < length xs" for k using assms(2) that by (metis nth_mem)
  ultimately show ?thesis
    using assms(3) unfolding memchr_def find_Some_iff
    by (intro exI[of _ "length xs"]) (auto simp: nth_append)
qed

lemma cstr_holds:
  assumes "holds_at buf p xs" "0 \<notin> set xs"
  shows "cstr buf p (p + length xs) = xs"
  using holds_at_take[OF assms(1)] assms(2) by (auto simp: cstr_def takeWhile_eq_all_conv)

lemma u32_at_holds: "holds_at buf p (le32 w) \<Longrightarrow> u32_at buf p = w"
  using holds_at_byte[of buf p "le32 w" 0] holds_at_byte[of buf p "le32 w" 1]
    holds_at_byte[of buf p "le32 w" 2] holds_at_byte[of buf p "le32 w" 3]
  by (simp add: u32_at_def le32_def u32_of4_le32 numeral_2_eq_2 numeral_3_eq_3)

section \<open>Parsing what was written\<close>

lemma rehash_step:
  assumes "holds_at buf p (tuple_bytes (n, v))" "name_ok n" "value_ok v" "p + length (tuple_bytes (n, v)) \<le> e"
  shows "rehash_loop buf p e h =
     rehash_loop buf (p + length (tuple_bytes (n, v))) e (snd (nvram_set h n v))"
proof -
  have H: "holds_at buf p (n @ [0x3d])" "holds_at buf (p + length n + 1) (v @ [0])"
    using assms(1) holds_at_append[of buf p "n @ [0x3d]" "v @ [0]"] by (simp_all add: tuple_bytes_def)
  have eq: "memchr buf 0x3d p e = Some (p + length n)"
    using memchr_holds[OF H(1)] assms(2,4) by (simp add: name_ok_def tuple_bytes_def)
  have nul: "memchr buf 0 (p + length n + 1) e = Some (p + length n + 1 + length v)"
    using memchr_holds[OF H(2)] assms(3,4) by (simp add: value_ok_def tuple_bytes_def)
  have nz: "byte_at buf p \<noteq> 0"
    using holds_at_byte[OF H(1), of 0] assms(2) by (cases n) (auto simp: name_ok_def)
  have cs: "cstr buf p (p + length n) = n"
    "cstr buf (p + length n + 1) (p + length n + 1 + length v) = v"
    using H assms(2,3) cstr_holds[of buf p n] cstr_holds[of buf "p + length n + 1" v]
    by (simp_all add: holds_at_append name_ok_def value_ok_def)
  show ?thesis
    using eq nul nz cs assms(4)
    by (subst rehash_loop.simps) (simp add: tuple_bytes_def add.commute add.left_commute)
qed

lemma rehash_parses:
  assumes "holds_at buf p (concat (map tuple_bytes ts) @ [0])"
    and "\<forall>t \<in> set ts. name_ok (fst t) \<and> value_ok (snd t)"
    and "p + length (concat (map tuple_bytes ts)) < e"
  shows "rehash_loop buf p e h = nv.put_all ts h"
  using assms
proof (induction ts arbitrary: p h)
  case Nil
  then have "byte_at buf p = 0" using holds_at_byte[of buf p "[0]" 0] by simp
  then show ?case by (subst rehash_loop.simps) simp
next
  case (Cons t ts)
  obtain n v where t: "t = (n, v)" by (cases t)
  have H: "holds_at buf p (tuple_bytes (n, v))"
    "holds_at buf (p + length (tuple_bytes (n, v))) (concat (map tuple_bytes ts) @ [0])"
    using Cons.prems(1) by (simp_all add: t holds_at_append)
  have "rehash_loop buf p e h =
      rehash_loop buf (p + length (tuple_bytes (n, v))) e (snd (nvram_set h n v))"
    using Cons.prems(2,3) by (intro rehash_step[OF H(1)]) (simp_all add: t)
  also have "\<dots> = nv.put_all ts (snd (nvram_set h n v))"
    using Cons.prems(2,3) by (intro Cons.IH[OF H(2)]) (simp_all add: t add.assoc)
  finally show ?case by (simp add: t)
qed

lemma store_at_append:
  "p + length xs + length ys \<le> length buf \<Longrightarrow>
   store_at (store_at buf p xs) (p + length xs) ys = store_at buf p (xs @ ys)"
  by (simp add: store_at_def add.commute add.left_commute)

lemma holds_at_store: "p + length bs \<le> length buf \<Longrightarrow> holds_at (store_at buf p bs) p bs"
  by (simp add: holds_at_def nth_store_at)

lemma holds_at_store_other:
  assumes "holds_at buf p xs" "q + length ys \<le> length buf" "p + length xs \<le> q \<or> q + length ys \<le> p"
  shows "holds_at (store_at buf q ys) p xs"
  using assms by (auto simp: holds_at_def nth_store_at)

lemma take_store_at: "n \<le> p \<Longrightarrow> p \<le> length buf \<Longrightarrow> take n (store_at buf p bs) = take n buf"
  by (simp add: store_at_def min_def)

section \<open>What a commit writes\<close>

abbreviation stored :: "nvram_tuple list \<Rightarrow> bytes" where
  "stored ts \<equiv> concat (map tuple_bytes ts)"

lemma length_tuple_bytes: "length (tuple_bytes t) = length (fst t) + length (snd t) + 2"
  by (simp add: tuple_bytes_def)

lemma commit_chain_fits:
  "p + length (stored ts) \<le> e \<Longrightarrow> e \<le> length buf \<Longrightarrow>
   commit_chain e ts (p, buf) = (p + length (stored ts), store_at buf p (stored ts))"
proof (induction ts arbitrary: p buf)
  case Nil
  then show ?case by (simp add: store_at_def)
next
  case (Cons t ts)
  have fit: "\<not> e < p + length (fst t) + 1 + length (snd t) + 1"
    using Cons.prems by (simp add: length_tuple_bytes)
  have "commit_chain e (t # ts) (p, buf) =
      commit_chain e ts (p + length (tuple_bytes t), store_at buf p (tuple_bytes t))"
    using fit by simp
  also have "\<dots> = (p + length (tuple_bytes t) + length (stored ts),
      store_at (store_at buf p (tuple_bytes t)) (p + length (tuple_bytes t)) (stored ts))"
    using Cons.prems by (intro Cons.IH) simp_all
  finally show ?case using Cons.prems by (simp add: store_at_append)
qed

lemma commit_chains_fit:
  "p + length (stored (concat table)) \<le> e \<Longrightarrow> e \<le> length buf \<Longrightarrow>
   fold (commit_chain e) table (p, buf) =
     (p + length (stored (concat table)), store_at buf p (stored (concat table)))"
proof (induction table arbitrary: p buf)
  case Nil
  then show ?case by (simp add: store_at_def)
next
  case (Cons c cs)
  have "commit_chain e c (p, buf) = (p + length (stored c), store_at buf p (stored c))"
    using Cons.prems by (intro commit_chain_fits) simp_all
  moreover have "fold (commit_chain e) cs (p + length (stored c), store_at buf p (stored c)) =
      (p + length (stored c) + length (stored (concat cs)),
       store_at (store_at buf p (stored c)) (p + length (stored c)) (stored (concat cs)))"
    using Cons.prems by (intro Cons.IH) simp_all
  ultimately show ?case using Cons.prems by (simp add: store_at_append add.assoc)
qed

text \<open>
  The place of the store in the partition, and when all variables fit into it with the two
  zero bytes at the end.
\<close>

definition nvram_place :: "nvram_handle \<Rightarrow> bool" where
  "nvram_place h \<longleftrightarrow> length (nh_mmap h) = nh_length h \<and> nh_offset h + 24 \<le> nh_length h \<and>
     nh_offset h mod 4 = 0 \<and> nh_length h mod 4 = 0 \<and> nh_length h < 4294967296"

definition used_bytes :: "nvram_handle \<Rightarrow> nat" where
  "used_bytes h = NVRAM_HEADER_SIZE + length (stored (concat (nvram_hash h)))"

definition all_fit :: "nvram_handle \<Rightarrow> bool" where
  "all_fit h \<longleftrightarrow> nh_offset h + used_bytes h + 2 \<le> nh_length h"

lemma commit_data_fits:
  assumes "nvram_place h" "all_fit h"
  obtains buf where "commit_data h = (nh_offset h + used_bytes h + 2, buf)"
    "length buf = nh_length h"
    "holds_at buf (nh_offset h + NVRAM_HEADER_SIZE) (stored (concat (nvram_hash h)) @ [0])"
    "take (nh_offset h) buf = take (nh_offset h) (nh_mmap h)"
proof -
  let ?off = "nh_offset h" and ?I = "stored (concat (nvram_hash h))"
  let ?s = "?off + NVRAM_HEADER_SIZE"
  define cleared where
    "cleared = store_at (nh_mmap h) ?s (replicate (nh_length h - ?off - NVRAM_HEADER_SIZE) (- 1))"
  have len: "length (nh_mmap h) = nh_length h" "?off + 24 \<le> nh_length h" "nh_length h mod 4 = 0"
    using assms(1) by (simp_all add: nvram_place_def)
  have fit: "?s + length ?I + 2 \<le> nh_length h"
    using assms(2) by (simp add: all_fit_def used_bytes_def)
  have lc: "length cleared = nh_length h"
    using len by (simp add: cleared_def NVRAM_HEADER_SIZE_def)
  have table: "fold (commit_chain (nh_length h - 2)) (nvram_hash h) (?s, cleared) =
      (?s + length ?I, store_at cleared ?s ?I)"
    using fit lc by (intro commit_chains_fit) simp_all
  define ptr1 where "ptr1 = ?s + length ?I + 1"
  define buf1 where "buf1 = store_at cleared ?s (?I @ [0])"
  have b1: "store_at (store_at cleared ?s ?I) (?s + length ?I) [0] = buf1"
    unfolding buf1_def using fit lc by (intro store_at_append) simp
  define buf where
    "buf = (if ptr1 mod 4 \<noteq> 0 then store_at buf1 ptr1 (replicate (4 - ptr1 mod 4) 0) else buf1)"
  have l1: "length buf1 = nh_length h" using fit lc by (simp add: buf1_def)
  have pad: "ptr1 + (4 - ptr1 mod 4) \<le> nh_length h" if "ptr1 mod 4 \<noteq> 0"
  proof -
    have "ptr1 < nh_length h" using fit by (simp add: ptr1_def)
    then show ?thesis using that len(3) by presburger
  qed
  have H: "holds_at buf1 ?s (?I @ [0])"
    unfolding buf1_def using fit lc by (intro holds_at_store) simp
  have "holds_at buf ?s (?I @ [0])"
    using H pad l1 by (auto simp: buf_def ptr1_def intro!: holds_at_store_other)
  moreover have "length buf = nh_length h" using pad l1 by (auto simp: buf_def)
  moreover have "commit_data h = (?off + used_bytes h + 2, buf)"
    unfolding commit_data_def Let_def cleared_def[symmetric] table prod.case b1
    by (simp add: buf_def ptr1_def used_bytes_def)
  moreover have "take ?off buf = take ?off (nh_mmap h)"
    using l1 lc len fit by (simp add: buf_def buf1_def cleared_def take_store_at ptr1_def)
  ultimately show ?thesis using that by blast
qed

lemma roundup_bounds: "x \<le> NVRAM_ROUNDUP x 4 \<and> NVRAM_ROUNDUP x 4 < x + 4 \<and> NVRAM_ROUNDUP x 4 mod 4 = 0"
  unfolding NVRAM_ROUNDUP_def by presburger

lemma roundup_le: "x \<le> n \<Longrightarrow> n mod 4 = 0 \<Longrightarrow> NVRAM_ROUNDUP x 4 \<le> n"
  using roundup_bounds[of x] by presburger

definition commit_len :: "nvram_handle \<Rightarrow> nat" where
  "commit_len h = NVRAM_ROUNDUP (used_bytes h + 2) 4"

lemma commit_len_bounds:
  assumes "nvram_place h" "all_fit h"
  shows "used_bytes h + 2 \<le> commit_len h" "commit_len h \<le> nh_length h - nh_offset h"
    "commit_len h < 4294967296"
proof -
  have "(nh_length h - nh_offset h) mod 4 = 0"
    using assms(1) unfolding nvram_place_def by (metis mod_0_imp_dvd dvd_diff_nat dvd_imp_mod_0)
  moreover have "used_bytes h + 2 \<le> nh_length h - nh_offset h" using assms(2) by (simp add: all_fit_def)
  ultimately show b: "commit_len h \<le> nh_length h - nh_offset h"
    unfolding commit_len_def by (intro roundup_le)
  show "used_bytes h + 2 \<le> commit_len h" using roundup_bounds by (simp add: commit_len_def)
  show "commit_len h < 4294967296" using b assms(1) unfolding nvram_place_def by linarith
qed

text \<open>The partition as a commit leaves it, before the table is read back.\<close>

lemma nvram_commit_image:
  assumes "nvram_place h" "all_fit h"
  obtains m crc where "nvram_commit h = nvram_rehash (h\<lparr>nh_mmap := m\<rparr>)"
    "length m = nh_length h" "take (nh_offset h) m = take (nh_offset h) (nh_mmap h)"
    "holds_at m (nh_offset h + NVRAM_HEADER_SIZE) (stored (concat (nvram_hash h)) @ [0])"
    "holds_at m (nh_offset h) (header_bytes ((regenerated_header h)\<lparr>hd_len := of_nat (commit_len h),
       hd_crc_ver_init := hd_crc_ver_init (regenerated_header h) OR ucast crc\<rparr>))"
    "crc = hndcrc8 (take (commit_len h - NVRAM_HEADER_SIZE) (drop (nh_offset h + NVRAM_HEADER_SIZE) m))
       (hndcrc8 (drop NVRAM_CRC_START_POSITION (header_bytes \<lparr>hd_magic = 0, hd_len = 0,
          hd_crc_ver_init = hd_crc_ver_init (regenerated_header h),
          hd_config_refresh = hd_config_refresh (regenerated_header h),
          hd_config_ncdl = hd_config_ncdl (regenerated_header h)\<rparr>)) 0xff)"
proof -
  obtain buf where cd: "commit_data h = (nh_offset h + used_bytes h + 2, buf)"
    "length buf = nh_length h"
    "holds_at buf (nh_offset h + NVRAM_HEADER_SIZE) (stored (concat (nvram_hash h)) @ [0])"
    "take (nh_offset h) buf = take (nh_offset h) (nh_mmap h)"
    using commit_data_fits[OF assms] by metis
  let ?off = "nh_offset h" and ?g = "regenerated_header h"
  define crc where "crc = hndcrc8 (take (commit_len h - NVRAM_HEADER_SIZE) (drop (?off + NVRAM_HEADER_SIZE) buf))
       (hndcrc8 (drop NVRAM_CRC_START_POSITION (header_bytes \<lparr>hd_magic = 0, hd_len = 0,
          hd_crc_ver_init = hd_crc_ver_init ?g, hd_config_refresh = hd_config_refresh ?g,
          hd_config_ncdl = hd_config_ncdl ?g\<rparr>)) 0xff)"
  define hdr where "hdr = header_bytes (?g\<lparr>hd_len := of_nat (commit_len h),
       hd_crc_ver_init := hd_crc_ver_init ?g OR ucast crc\<rparr>)"
  define m where "m = store_at buf ?off hdr"
  have lh: "length hdr = NVRAM_HEADER_SIZE"
    by (simp add: hdr_def header_bytes_def NVRAM_HEADER_SIZE_def)
  have room: "?off + NVRAM_HEADER_SIZE \<le> length buf"
    using assms(1) cd(2) by (simp add: nvram_place_def NVRAM_HEADER_SIZE_def)
  have same: "drop (?off + NVRAM_HEADER_SIZE) m = drop (?off + NVRAM_HEADER_SIZE) buf"
    using lh room by (simp add: m_def store_at_def)
  have "nvram_commit h = nvram_rehash (h\<lparr>nh_mmap := m\<rparr>)"
    by (simp add: nvram_commit_def Let_def cd(1) m_def hdr_def crc_def commit_len_def)
  moreover have "length m = nh_length h" using lh room cd(2) by (simp add: m_def)
  moreover have "take ?off m = take ?off (nh_mmap h)"
    using cd(4) room by (simp add: m_def take_store_at)
  moreover have "holds_at m (?off + NVRAM_HEADER_SIZE) (stored (concat (nvram_hash h)) @ [0])"
    unfolding m_def using cd(3) lh room by (intro holds_at_store_other) simp_all
  moreover have "holds_at m ?off hdr" unfolding m_def using lh room by (intro holds_at_store) simp
  ultimately show ?thesis
    using that[of m crc] by (simp add: same crc_def hdr_def)
qed

section \<open>The whole table\<close>

lemma concat_buckets:
  assumes "\<forall>i < length xss. distinct (map fst (xss ! i)) \<and> (\<forall>t \<in> set (xss ! i). g (fst t) = k + i)"
  shows "distinct (map fst (concat xss)) \<and> (\<forall>t \<in> set (concat xss). k \<le> g (fst t)) \<and>
     map_of (concat xss) n =
       (if k \<le> g n \<and> g n < k + length xss then map_of (xss ! (g n - k)) n else None)"
  using assms
proof (induction xss arbitrary: k)
  case (Cons xs xss)
  have IH: "distinct (map fst (concat xss)) \<and> (\<forall>t \<in> set (concat xss). Suc k \<le> g (fst t)) \<and>
     map_of (concat xss) n =
       (if Suc k \<le> g n \<and> g n < Suc k + length xss then map_of (xss ! (g n - Suc k)) n else None)"
  proof (rule Cons.IH)
    show "\<forall>i < length xss. distinct (map fst (xss ! i)) \<and> (\<forall>t \<in> set (xss ! i). g (fst t) = Suc k + i)"
      using Cons.prems by (metis (no_types, lifting) Suc_less_eq add_Suc_right add_Suc length_Cons nth_Cons_Suc)
  qed
  have xs: "distinct (map fst xs)" "\<forall>t \<in> set xs. g (fst t) = k" using Cons.prems by force+
  have disj: "fst ` set xs \<inter> fst ` set (concat xss) = {}" using IH xs(2) by fastforce
  have not: "g n \<noteq> k \<Longrightarrow> map_of xs n = None" using xs(2) by (auto simp: map_of_eq_None_iff)
  have not': "g n = k \<Longrightarrow> map_of (concat xss) n = None" using IH by auto
  have "\<forall>t \<in> set (concat (xs # xss)). k \<le> g (fst t)" using IH xs(2) by fastforce
  moreover have "distinct (map fst (concat (xs # xss)))" using IH xs(1) disj by auto
  moreover have "map_of (concat (xs # xss)) n = (if k \<le> g n \<and> g n < k + length (xs # xss)
      then map_of ((xs # xss) ! (g n - k)) n else None)"
  proof (cases "g n = k")
    case True
    then show ?thesis using not' by (simp add: map_add_def split: option.split)
  next
    case False
    then show ?thesis using not IH by (auto simp: map_add_def nth_Cons' Suc_le_eq)
  qed
  ultimately show ?case by blast
qed auto

lemma nvram_table:
  assumes "nvram_inv h"
  shows "distinct (map fst (concat (nvram_hash h)))" "map_of (concat (nvram_hash h)) = nvram_get h"
    "\<forall>t \<in> set (concat (nvram_hash h)). name_ok (fst t) \<and> value_ok (snd t)"
proof -
  have b: "\<forall>i < length (nvram_hash h). distinct (map fst (nvram_hash h ! i)) \<and>
      (\<forall>t \<in> set (nvram_hash h ! i). bucket_of (fst t) = 0 + i)" and l: "length (nvram_hash h) = 257"
    using assms by (auto simp: nvram_inv_def chain_ok_def)
  show "distinct (map fst (concat (nvram_hash h)))" using concat_buckets[OF b] by blast
  show "map_of (concat (nvram_hash h)) = nvram_get h"
    using concat_buckets[OF b] l by (auto simp: fun_eq_iff nvram_get_map_of)
  show "\<forall>t \<in> set (concat (nvram_hash h)). name_ok (fst t) \<and> value_ok (snd t)"
  proof
    fix t assume "t \<in> set (concat (nvram_hash h))"
    then obtain i where "i < 257" "t \<in> set (nvram_hash h ! i)"
      using l by (auto simp: in_set_conv_nth[of _ "nvram_hash h"])
    then show "name_ok (fst t) \<and> value_ok (snd t)" using assms by (simp add: nvram_inv_def chain_ok_def)
  qed
qed

lemma nvram_inv_free [simp]: "nvram_inv (nvram_free h)"
  by (simp add: nvram_inv_def nvram_free_def chain_ok_def NVRAM_HASH_SIZE_def)

lemma nvram_get_free [simp]: "nvram_get (nvram_free h) = Map.empty"
  using bucket_lt by (simp add: fun_eq_iff nvram_get_map_of nvram_free_def NVRAM_HASH_SIZE_def)

section \<open>Reading back a commit\<close>

lemma nvram_set_frame [simp]:
  "nh_mmap (snd (nvram_set h n v)) = nh_mmap h" "nh_length (snd (nvram_set h n v)) = nh_length h"
  "nh_offset (snd (nvram_set h n v)) = nh_offset h"
  by (simp_all add: nvram_set_cases)

lemma set_default_frame [simp]:
  "nh_mmap (set_default n v h) = nh_mmap h" "nh_length (set_default n v h) = nh_length h"
  "nh_offset (set_default n v h) = nh_offset h"
  by (simp_all add: set_default_def split: option.split)

definition same_place :: "nvram_handle \<Rightarrow> nvram_handle \<Rightarrow> bool" where
  "same_place g h \<longleftrightarrow> nh_mmap g = nh_mmap h \<and> nh_length g = nh_length h \<and> nh_offset g = nh_offset h"

lemma rehash_loop_place: "same_place (rehash_loop buf p e h) h"
proof (induction buf p e h rule: rehash_loop.induct)
  case (1 buf p e h)
  then show ?case by (subst rehash_loop.simps) (auto simp: same_place_def split: option.split)
qed

lemma rehash_loop_frame [simp]:
  "nh_mmap (rehash_loop buf p e h) = nh_mmap h" "nh_length (rehash_loop buf p e h) = nh_length h"
  "nh_offset (rehash_loop buf p e h) = nh_offset h"
  using rehash_loop_place[of buf p e h] by (simp_all add: same_place_def)

lemma nvram_free_frame [simp]:
  "nh_mmap (nvram_free h) = nh_mmap h" "nh_length (nvram_free h) = nh_length h"
  "nh_offset (nvram_free h) = nh_offset h"
  by (simp_all add: nvram_free_def)

lemma nvram_rehash_frame [simp]:
  "nh_mmap (nvram_rehash h) = nh_mmap h" "nh_length (nvram_rehash h) = nh_length h"
  "nh_offset (nvram_rehash h) = nh_offset h"
  by (simp_all add: nvram_rehash_def Let_def)

lemma name_ok_sdram:
  "name_ok str_sdram_init" "name_ok str_sdram_config" "name_ok str_sdram_refresh" "name_ok str_sdram_ncdl"
  by (simp_all add: name_ok_def str_sdram_init_def str_sdram_config_def str_sdram_refresh_def
      str_sdram_ncdl_def)

lemma hex_digit_nz: "n < 16 \<Longrightarrow> hex_digit n \<noteq> 0"
proof -
  assume n: "n < 16"
  define m where "m = (if n < 10 then 48 + n else 55 + n)"
  have "unat (of_nat m :: u8) = m" using n by (simp add: m_def unat_of_nat)
  then have "(of_nat m :: u8) \<noteq> 0" by (auto simp: m_def simp del: of_nat_add)
  then show ?thesis by (simp add: hex_digit_def m_def split: if_splits)
qed

lemma value_ok_hex: "value_ok (sprintf_hex k w)"
proof -
  have "0 \<notin> set (hex_digits k n)" for n
    by (induction k n rule: hex_digits.induct) (auto simp: hex_digit_nz dest: hex_digit_nz sym)
  then show ?thesis by (simp add: value_ok_def sprintf_hex_def)
qed

lemma set_default_get:
  assumes "nvram_inv h"
  shows "m \<noteq> n \<or> nvram_get h m \<noteq> None \<Longrightarrow> nvram_get (set_default n v h) m = nvram_get h m"
  using nvram_get_set[OF assms] nv.put_full[of h v n]
  by (cases "value_fits h v") (auto simp: set_default_def split: option.split)

lemma set_default_inv:
  "nvram_inv h \<Longrightarrow> name_ok n \<Longrightarrow> value_ok v \<Longrightarrow> nvram_inv (set_default n v h)"
  by (simp add: set_default_def nvram_inv_set split: option.split)

definition sdram_names :: "bytes set" where
  "sdram_names = {str_sdram_init, str_sdram_config, str_sdram_refresh, str_sdram_ncdl}"

lemma nvram_rehash_get:
  assumes "h1 = rehash_loop (nh_mmap h) (nh_offset h + NVRAM_HEADER_SIZE) (rehash_end (nvram_free h)) (nvram_free h)"
    and "nvram_inv h1"
  shows "nvram_inv (nvram_rehash h) \<and>
    (m \<notin> sdram_names \<or> nvram_get h1 m \<noteq> None \<longrightarrow> nvram_get (nvram_rehash h) m = nvram_get h1 m)"
proof -
  have i: "nvram_inv (set_default n v g) \<and>
      (m \<noteq> n \<or> nvram_get g m \<noteq> None \<longrightarrow> nvram_get (set_default n v g) m = nvram_get g m)"
    if "nvram_inv g" "name_ok n" "value_ok v" for g n v
    using set_default_get[OF that(1)] set_default_inv[OF that] by blast
  note D = i[OF _ name_ok_sdram(1) value_ok_hex] i[OF _ name_ok_sdram(2) value_ok_hex]
    i[OF _ name_ok_sdram(3) value_ok_hex] i[OF _ name_ok_sdram(4) value_ok_hex]
  show ?thesis
    using assms(2) unfolding nvram_rehash_def Let_def nvram_free_frame assms(1)[symmetric] sdram_names_def
    by (auto simp: D)
qed

lemma header_read:
  assumes "holds_at (nh_mmap h) (nh_offset h) (header_bytes x)"
  shows "nvram_header_of h = x"
proof -
  have "holds_at (nh_mmap h) (nh_offset h) (le32 (hd_magic x))"
    "holds_at (nh_mmap h) (nh_offset h + 4) (le32 (hd_len x))"
    "holds_at (nh_mmap h) (nh_offset h + 8) (le32 (hd_crc_ver_init x))"
    "holds_at (nh_mmap h) (nh_offset h + 12) (le32 (hd_config_refresh x))"
    "holds_at (nh_mmap h) (nh_offset h + 16) (le32 (hd_config_ncdl x))"
    using assms by (simp_all add: header_bytes_def holds_at_append add.assoc)
  then show ?thesis by (simp add: nvram_header_of_def Let_def u32_at_holds)
qed

lemma tuple_in_stored: "t \<in> set ts \<Longrightarrow> length (tuple_bytes t) \<le> length (stored ts)"
  by (induction ts) auto

lemma place_size:
  "nvram_place h \<Longrightarrow> to_u32 (int (nh_length h) - int (nh_offset h)) = nh_length h - nh_offset h"
  by (auto simp: nvram_place_def to_u32_def nat_diff_distrib)

lemma all_fit_values:
  assumes "nvram_place h" "all_fit h" "t \<in> set (concat (nvram_hash h))"
  shows "value_fits h (snd t)"
  using tuple_in_stored[OF assms(3)] assms(2)
  by (simp add: value_fits_def all_fit_def used_bytes_def length_tuple_bytes place_size[OF assms(1)])

lemma nvram_commit_parsed:
  assumes inv: "nvram_inv h" and place: "nvram_place h" and fit: "all_fit h"
  shows "nvram_inv (nvram_commit h) \<and>
    (n \<notin> sdram_names \<or> nvram_get h n \<noteq> None \<longrightarrow> nvram_get (nvram_commit h) n = nvram_get h n)"
proof -
  obtain m and crc :: u8 where c: "nvram_commit h = nvram_rehash (h\<lparr>nh_mmap := m\<rparr>)" "length m = nh_length h"
    "holds_at m (nh_offset h + NVRAM_HEADER_SIZE) (stored (concat (nvram_hash h)) @ [0])"
    "holds_at m (nh_offset h) (header_bytes ((regenerated_header h)\<lparr>hd_len := of_nat (commit_len h),
       hd_crc_ver_init := hd_crc_ver_init (regenerated_header h) OR ucast crc\<rparr>))"
    using nvram_commit_image[OF place fit] by metis
  let ?ts = "concat (nvram_hash h)" and ?h = "h\<lparr>nh_mmap := m\<rparr>"
  note L = commit_len_bounds[OF place fit] and T = nvram_table[OF inv]
  have "hd_len (nvram_header_of (nvram_free ?h)) = of_nat (commit_len h)"
    using header_read[of "nvram_free ?h"] c(4) by simp
  then have e: "rehash_end (nvram_free ?h) = nh_offset h + commit_len h"
    using L place_size[OF place] by (simp add: rehash_end_def Let_def unat_of_nat used_bytes_def)
  have "rehash_loop m (nh_offset h + NVRAM_HEADER_SIZE) (nh_offset h + commit_len h) (nvram_free ?h) =
      nv.put_all ?ts (nvram_free ?h)"
    using L(1) by (intro rehash_parses[OF c(3) T(3)]) (simp add: used_bytes_def)
  moreover have fits: "\<forall>t \<in> set ?ts. name_ok (fst t) \<and> value_ok (snd t) \<and> value_fits (nvram_free ?h) (snd t)"
    using T(3) all_fit_values[OF place fit] by (simp add: value_fits_def)
  have "nvram_inv (nv.put_all ?ts (nvram_free ?h))"
    using T(3) by (intro nv.inv_put_all) auto
  moreover have "nvram_get (nv.put_all ?ts (nvram_free ?h)) = nvram_get h"
    using nv.get_put_all[OF nvram_inv_free fits T(1)] T(2) by simp
  ultimately show ?thesis
    using nvram_rehash_get[OF refl, of ?h n] e unfolding c(1) by simp
qed

section \<open>The checksum of a commit\<close>

lemma hndcrc8_append: "hndcrc8 (xs @ ys) c = hndcrc8 ys (hndcrc8 xs c)"
  by (induction xs arbitrary: c) simp_all

lemma le32_or_low:
  fixes w :: u32 and c :: u8
  shows "drop 1 (le32 (w OR ucast c)) = drop 1 (le32 w)"
proof -
  have "(ucast (drop_bit k (w OR ucast c)) :: u8) = ucast (drop_bit k w)" if "8 \<le> k" for k
    using that by (intro bit_word_eqI) (auto simp: bit_simps dest: bit_imp_le_length)
  then show ?thesis by (simp add: le32_def)
qed

lemma header_tail:
  fixes c :: u8
  shows "drop NVRAM_CRC_START_POSITION (header_bytes (x\<lparr>hd_len := l, hd_crc_ver_init := hd_crc_ver_init x OR ucast c\<rparr>)) =
   drop NVRAM_CRC_START_POSITION (header_bytes \<lparr>hd_magic = 0, hd_len = 0, hd_crc_ver_init = hd_crc_ver_init x,
     hd_config_refresh = hd_config_refresh x, hd_config_ncdl = hd_config_ncdl x\<rparr>)"
proof -
  have "drop 9 (header_bytes y) = drop 1 (le32 (hd_crc_ver_init y)) @ le32 (hd_config_refresh y) @
      le32 (hd_config_ncdl y)" for y :: nvram_header
    by (simp add: header_bytes_def)
  then show ?thesis
    using le32_or_low[of "hd_crc_ver_init x" c] by (simp add: NVRAM_CRC_START_POSITION_def)
qed

lemma low_byte_or:
  fixes a b :: u32 and c :: u8
  shows "ucast ((push_bit 8 a OR push_bit 16 b) OR ucast c) = c"
proof (rule bit_word_eqI)
  fix n assume "n < LENGTH(8)"
  then show "bit (ucast ((push_bit 8 a OR push_bit 16 b) OR ucast c) :: u8) n = bit c n"
    by (auto simp: bit_simps)
qed

lemma regenerated_crc_byte:
  fixes c :: u8
  shows "ucast (hd_crc_ver_init (regenerated_header h) OR ucast c) = c"
proof -
  have "\<exists>b. hd_crc_ver_init (regenerated_header h) = push_bit 8 NVRAM_VERSION OR push_bit 16 b"
    unfolding regenerated_header_def Let_def prod.case
    by (simp only: split: option.split) (simp only: nvram_header.simps, blast)
  then show ?thesis by (auto simp: low_byte_or)
qed

lemma header_data_split:
  assumes "take (length hdr) (drop p m) = hdr" "length hdr = 20" "20 \<le> n"
  shows "take (n - 9) (drop (p + 9) m) = drop 9 hdr @ take (n - 20) (drop (p + 20) m)"
proof -
  have "drop 9 (take 20 (drop p m)) = take 11 (drop (p + 9) m)"
    by (simp add: drop_take add.commute)
  then have "drop 9 hdr = take 11 (drop (p + 9) m)" using assms(1,2) by simp
  moreover have "n - 9 = 11 + (n - 20)" using assms(3) by simp
  ultimately show ?thesis by (simp only: take_add drop_drop) (simp add: add.commute)
qed

lemma nvram_commit_checksum:
  assumes place: "nvram_place h" and fit: "all_fit h"
  shows "do_info_crc (nvram_commit h) = ucast (hd_crc_ver_init (nvram_header_of (nvram_commit h)))"
proof -
  obtain m and crc :: u8 where c: "nvram_commit h = nvram_rehash (h\<lparr>nh_mmap := m\<rparr>)" "length m = nh_length h"
    and H: "holds_at m (nh_offset h) (header_bytes ((regenerated_header h)\<lparr>hd_len := of_nat (commit_len h),
       hd_crc_ver_init := hd_crc_ver_init (regenerated_header h) OR ucast crc\<rparr>))"
    and crc: "crc = hndcrc8 (take (commit_len h - NVRAM_HEADER_SIZE) (drop (nh_offset h + NVRAM_HEADER_SIZE) m))
       (hndcrc8 (drop NVRAM_CRC_START_POSITION (header_bytes \<lparr>hd_magic = 0, hd_len = 0,
          hd_crc_ver_init = hd_crc_ver_init (regenerated_header h),
          hd_config_refresh = hd_config_refresh (regenerated_header h),
          hd_config_ncdl = hd_config_ncdl (regenerated_header h)\<rparr>)) 0xff)"
    using nvram_commit_image[OF place fit] by metis
  define x where "x = (regenerated_header h)\<lparr>hd_len := of_nat (commit_len h),
       hd_crc_ver_init := hd_crc_ver_init (regenerated_header h) OR ucast crc\<rparr>"
  note L = commit_len_bounds[OF place fit]
  have hdr: "nvram_header_of (nvram_commit h) = x"
    using header_read[of "nvram_commit h" x] H by (simp add: c(1) x_def)
  have "length (header_bytes x) = 20" by (simp add: header_bytes_def)
  then have split: "take (commit_len h - 9) (drop (nh_offset h + 9) m) =
      drop 9 (header_bytes x) @ take (commit_len h - 20) (drop (nh_offset h + 20) m)"
    using header_data_split[OF holds_at_take[OF H[folded x_def]]] L(1)
    by (simp add: used_bytes_def NVRAM_HEADER_SIZE_def)
  have fr: "nh_length (nvram_commit h) = nh_length h" "nh_offset (nvram_commit h) = nh_offset h"
    by (simp_all add: c(1))
  have len: "do_info_len (nvram_commit h) = commit_len h"
    using L place_size[OF place] fr
    by (simp add: do_info_len_def hdr x_def unat_of_nat NVRAM_CRC_START_POSITION_def used_bytes_def
        NVRAM_HEADER_SIZE_def)
  have "do_info_crc (nvram_commit h) = crc"
    unfolding do_info_crc_def len crc
    by (simp add: c(1) split NVRAM_CRC_START_POSITION_def NVRAM_HEADER_SIZE_def hndcrc8_append
        header_tail[unfolded NVRAM_CRC_START_POSITION_def] x_def)
  then show ?thesis by (simp add: hdr x_def regenerated_crc_byte)
qed

section \<open>Opening a committed partition\<close>

lemma u32_at_take: "i + 4 \<le> n \<Longrightarrow> take n a = take n b \<Longrightarrow> u32_at a i = u32_at b i"
proof -
  assume i: "i + 4 \<le> n" and t: "take n a = take n b"
  have "byte_at a j = byte_at b j" if "j < n" for j
  proof -
    have "length a \<le> j \<longleftrightarrow> length b \<le> j" using arg_cong[OF t, of length] that by (auto simp: min_def split: if_splits)
    then show ?thesis using t that by (auto simp: byte_at_def) (metis nth_take)
  qed
  then show ?thesis using i by (simp add: u32_at_def)
qed

lemma find_magic_commit:
  assumes "find_magic a n = Some off" "take off b = take off a" "u32_at b off = NVRAM_MAGIC" "off mod 4 = 0"
  shows "find_magic b n = Some off"
proof -
  define k where "k = (if n \<ge> NVRAM_MIN_SPACE then (n - NVRAM_MIN_SPACE) div 4 else 0) + 1"
  have fm: "find_magic x n = map_option (\<lambda>i. i * 4) (List.find (\<lambda>i. u32_at x (i * 4) = NVRAM_MAGIC) [0..<k])" for x
    unfolding find_magic_def k_def Let_def ..
  obtain i where i: "off = i * 4" "i < k" "\<forall>j < i. u32_at a (j * 4) \<noteq> NVRAM_MAGIC"
    using assms(1) by (auto simp: fm find_Some_iff)
  have "u32_at b (j * 4) \<noteq> NVRAM_MAGIC" if "j < i" for j
    using i(3) that u32_at_take[of "j * 4" off b a] assms(2) i(1) by simp
  then have "List.find (\<lambda>i. u32_at b (i * 4) = NVRAM_MAGIC) [0..<k] = Some i"
    using i assms(3) unfolding find_Some_iff by (intro exI[of _ i]) auto
  then show ?thesis by (simp add: fm i(1))
qed

lemma nvram_reopen:
  assumes place: "nvram_place h" and fit: "all_fit h"
    and magic: "find_magic (nh_mmap h) (nh_length h) = Some (nh_offset h)"
  shows "nvram_open (nh_length h) None (nh_mmap (nvram_commit h)) False =
     (if commit_len h < nh_length h - nh_offset h then Some (nvram_commit h) else None)"
proof -
  obtain m and crc :: u8 where c: "nvram_commit h = nvram_rehash (h\<lparr>nh_mmap := m\<rparr>)" "length m = nh_length h"
    "take (nh_offset h) m = take (nh_offset h) (nh_mmap h)"
    and H: "holds_at m (nh_offset h) (header_bytes ((regenerated_header h)\<lparr>hd_len := of_nat (commit_len h),
       hd_crc_ver_init := hd_crc_ver_init (regenerated_header h) OR ucast crc\<rparr>))"
    using nvram_commit_image[OF place fit] by metis
  have mg: "hd_magic (regenerated_header h) = NVRAM_MAGIC"
    unfolding regenerated_header_def Let_def prod.case by (simp split: option.split)
  have "u32_at m (nh_offset h) = NVRAM_MAGIC"
    using H mg by (intro u32_at_holds) (simp add: header_bytes_def holds_at_append)
  then have fm: "find_magic m (nh_length h) = Some (nh_offset h)"
    using find_magic_commit[OF magic c(3)] place by (simp add: nvram_place_def)
  define g where "g = \<lparr>nh_mmap = m, nh_length = nh_length h, nh_offset = nh_offset h,
      nvram_hash = replicate NVRAM_HASH_SIZE [], nvram_dead = []\<rparr>"
  have gh: "nvram_free g = nvram_free (h\<lparr>nh_mmap := m\<rparr>)"
    by (simp add: g_def nvram_free_def)
  have reh: "nvram_rehash g = nvram_commit h"
    unfolding c(1) nvram_rehash_def gh ..
  have hd: "hd_magic (nvram_header_of g) = NVRAM_MAGIC" "hd_len (nvram_header_of g) = of_nat (commit_len h)"
    using header_read[of g] H mg by (auto simp: g_def)
  have "unat (of_nat (commit_len h) :: u32) = commit_len h"
    using commit_len_bounds[OF place fit] by (simp add: unat_of_nat)
  moreover have mm: "nh_mmap (nvram_commit h) = m" by (simp add: c(1))
  ultimately show ?thesis
    using place fm c(2) hd place_size[OF place] reh
    by (simp add: nvram_open_def open_length_def Let_def mm g_def[symmetric]
        nvram_place_def NVRAM_HEADER_SIZE_def)
qed

section \<open>The checksum table\<close>

text \<open>
  The reference: the checksum of one byte, bit by bit, with the reversed polynomial
  \<^verbatim>\<open>x^8 + x^7 + x^6 + x^4 + x^2 + 1\<close>. It is linear, so the table is spanned by its
  values at the powers of two.
\<close>

definition crc8_bit :: "u8 \<Rightarrow> u8" where
  "crc8_bit c = (if odd c then drop_bit 1 c XOR 0xAB else drop_bit 1 c)"

definition crc8_byte :: "u8 \<Rightarrow> u8" where
  "crc8_byte c = crc8_bit (crc8_bit (crc8_bit (crc8_bit (crc8_bit (crc8_bit (crc8_bit (crc8_bit c)))))))"

lemma crc8_bit_xor: "crc8_bit (a XOR b) = crc8_bit a XOR crc8_bit b"
proof -
  have "drop_bit 1 (a XOR b) = drop_bit 1 a XOR drop_bit 1 b"
    by (intro bit_word_eqI) (auto simp: bit_simps)
  then show ?thesis
    by (auto simp: crc8_bit_def even_xor_iff xor.assoc xor.left_commute xor.commute)
qed

lemma crc8_byte_xor: "crc8_byte (a XOR b) = crc8_byte a XOR crc8_byte b"
  by (simp add: crc8_byte_def crc8_bit_xor)

lemma crc8_basis:
  "map (\<lambda>k. crc8_byte (of_nat (2 ^ k))) (rev [0..<8]) = [0xAB, 0xFE, 0x7F, 0x94, 0x4A, 0x25, 0xB9, 0xF7]"
  by (simp add: crc8_byte_def crc8_bit_def upt_rec numeral_2_eq_2[symmetric])

lemma crc8_table_span: "crc8_table = xor_span [0xAB, 0xFE, 0x7F, 0x94, 0x4A, 0x25, 0xB9, 0xF7]"
  by (simp add: crc8_table_def Let_def)

lemma unsigned_ucast_eq_id: "unsigned (c :: u8) = c"
  by simp

lemma crc8_table_correct: "crc8_table ! unat (c :: u8) = crc8_byte c"
proof -
  have "unat c < 2 ^ LENGTH(8)" by (rule unsigned_less)
  then have "unat c < 2 ^ 8" by simp
  from xor_span_linear[OF crc8_byte_xor _ this] show ?thesis
    unfolding crc8_table_span crc8_basis of_nat_unat unsigned_ucast_eq_id by simp
qed

lemma xor_zero_eq: "a XOR b = 0 \<Longrightarrow> a = (b :: u8)"
proof -
  assume z: "a XOR b = 0"
  have "a = (a XOR b) XOR b" by (simp add: xor.assoc)
  with z show ?thesis by simp
qed

lemma crc8_bit_zero: "crc8_bit c = 0 \<Longrightarrow> c = 0"
proof -
  assume z: "crc8_bit c = 0"
  have "\<not> odd c"
  proof
    assume "odd c"
    then have "drop_bit 1 c = 0xAB" using z by (auto simp: crc8_bit_def intro: xor_zero_eq)
    moreover have "\<not> bit (drop_bit 1 c) 7" by (auto simp: bit_simps dest: bit_imp_le_length)
    moreover have "bit (0xAB :: u8) 7" by simp
    ultimately show False by simp
  qed
  then have "drop_bit 1 c = 0" "\<not> bit c 0" using z by (simp_all add: crc8_bit_def bit_0)
  then have "\<not> bit c n" for n by (cases n) (auto simp: bit_drop_bit_eq dest: arg_cong[where f = "\<lambda>w. bit w (n - 1)"])
  then show ?thesis by (intro bit_word_eqI) simp
qed

lemma crc8_byte_inj: "crc8_byte a = crc8_byte b \<Longrightarrow> a = b"
proof -
  assume "crc8_byte a = crc8_byte b"
  then have "crc8_byte (a XOR b) = 0" by (simp add: crc8_byte_xor)
  then have "a XOR b = 0" unfolding crc8_byte_def by (blast dest: crc8_bit_zero)
  then show ?thesis by (rule xor_zero_eq)
qed

lemma hndcrc8_reference: "hndcrc8 bs c = foldl (\<lambda>c b. crc8_byte (c XOR b)) c bs"
  by (induction bs arbitrary: c) (simp_all add: crc8_table_correct)

lemma hndcrc8_state_inj: "hndcrc8 bs c = hndcrc8 bs d \<Longrightarrow> c = d"
proof (induction bs arbitrary: c d)
  case (Cons b bs)
  then have "crc8_byte (c XOR b) = crc8_byte (d XOR b)"
    unfolding hndcrc8.simps crc8_table_correct by blast
  then have "c XOR b = d XOR b" by (rule crc8_byte_inj)
  then show ?case by (metis xor.assoc xor_self_eq xor.right_neutral)
qed simp

section \<open>The tool keeps the table sound\<close>

lemma cstr_name_ok:
  assumes "memchr buf 0x3d a e = Some i"
  shows "name_ok (cstr buf a i)"
proof -
  have "x \<noteq> 0x3d" if x: "x \<in> set (take (i - a) (drop a buf))" for x
  proof -
    obtain k where k: "k < i - a" "a + k < length buf" "x = buf ! (a + k)"
      using x by (auto simp: in_set_conv_nth)
    obtain j where j: "j < e - a" "i = a + j" "\<forall>l < j. byte_at buf (a + l) \<noteq> 0x3d"
      using assms by (auto simp: memchr_def find_Some_iff)
    with k show ?thesis by (auto simp: byte_at_def)
  qed
  then show ?thesis
    by (auto simp: name_ok_def cstr_def dest: set_takeWhileD)
qed

lemma cstr_value_ok: "value_ok (cstr buf a i)"
  by (auto simp: value_ok_def cstr_def dest: set_takeWhileD)

lemma rehash_loop_inv: "nvram_inv h \<Longrightarrow> nvram_inv (rehash_loop buf p e h)"
proof (induction buf p e h rule: rehash_loop.induct)
  case (1 buf p e h)
  then show ?case
    by (subst rehash_loop.simps)
      (auto intro: nvram_inv_set cstr_name_ok cstr_value_ok split: option.split)
qed

lemma nvram_rehash_inv: "nvram_inv (nvram_rehash h)"
  using nvram_rehash_get[OF refl] rehash_loop_inv[OF nvram_inv_free] by blast

lemma nvram_commit_inv: "nvram_inv (nvram_commit h)"
  by (simp add: nvram_commit_def Let_def nvram_rehash_inv split: prod.split)

lemma do_set_inv:
  assumes "nvram_inv h" "0 \<notin> set pair"
  shows "nvram_inv (snd (do_set h pair))"
proof -
  have "value_ok v" if "dropWhile (\<lambda>c. c \<noteq> 0x3d) pair = c # v" for c v
  proof -
    have "set (c # v) \<subseteq> set pair" unfolding that[symmetric] by (auto dest: set_dropWhileD)
    then show ?thesis using assms(2) by (auto simp: value_ok_def)
  qed
  moreover have "name_ok (takeWhile (\<lambda>c. c \<noteq> 0x3d) pair)"
    using assms(2) by (auto simp: name_ok_def dest: set_takeWhileD)
  ultimately show ?thesis
    using assms(1) by (auto simp: do_set_def intro: nvram_inv_set split: list.split)
qed

lemma cli_loop_inv:
  "nvram_inv (cli_h c) \<Longrightarrow> (\<And>a. 0 \<notin> set (word a)) \<Longrightarrow> nvram_inv (cli_h (cli_loop word args c))"
proof (induction word args c rule: cli_loop.induct)
  case (6 word a as c)
  obtain st h where e: "nvram_unset (cli_h c) (word a) = (st, h)" by fastforce
  then have "nvram_inv h" using nvram_inv_unset[OF "6.prems"(1), of "word a"] by simp
  then show ?case using "6.IH"[OF e[symmetric] refl] "6.prems"(2) e by simp
next
  case (7 word a as c)
  obtain st h where e: "do_set (cli_h c) (word a) = (st, h)" by fastforce
  then have "nvram_inv h" using do_set_inv[OF "7.prems"(1), of "word a"] "7.prems"(2) by simp
  then show ?case using "7.IH"[OF e[symmetric] refl] "7.prems"(2) e by simp
qed (simp_all add: Let_def split: prod.split)

section \<open>Properties\<close>

text \<open>A store of 64 bytes with one variable, to instantiate the theorems.\<close>

definition small_nv :: nvram_handle where
  "small_nv = snd (nvram_set (nvram_free
     \<lparr>nh_mmap = store_at (replicate 64 (- 1)) 0 (le32 NVRAM_MAGIC), nh_length = 64, nh_offset = 0,
      nvram_hash = [], nvram_dead = []\<rparr>) [0x61] [0x31])"

lemma concat_one_bucket: "k < n \<Longrightarrow> concat ((replicate n [])[k := xs]) = xs"
  by (induction n arbitrary: k) (auto split: nat.split)

lemma small_nv_inv: "nvram_inv small_nv"
  unfolding small_nv_def by (rule nvram_inv_set) (simp_all add: name_ok_def value_ok_def)

lemma small_nv_sel:
  "nh_length small_nv = 64" "nh_offset small_nv = 0"
  "nh_mmap small_nv = store_at (replicate 64 (- 1)) 0 (le32 NVRAM_MAGIC)"
  by (simp_all add: small_nv_def nvram_free_def)

lemma small_nv_get: "nvram_get small_nv [0x61] = Some [0x31]"
  unfolding small_nv_def
  by (subst nvram_get_set[OF nvram_inv_free]) (simp_all add: value_fits_def to_u32_def)

lemma small_nv_place: "nvram_place small_nv"
  by (simp add: nvram_place_def small_nv_sel store_at_def)

lemma small_nv_table: "concat (nvram_hash small_nv) = [([0x61], [0x31])]"
  using concat_one_bucket[OF bucket_lt, of "[0x61]" "[([0x61], [0x31])]"]
  by (simp add: small_nv_def nvram_set_cases value_fits_def nvram_free_def to_u32_def NVRAM_HASH_SIZE_def)

lemma small_nv_fit: "all_fit small_nv"
  by (simp add: all_fit_def used_bytes_def small_nv_table tuple_bytes_def small_nv_sel NVRAM_HEADER_SIZE_def)

lemma small_nv_magic: "find_magic (nh_mmap small_nv) (nh_length small_nv) = Some (nh_offset small_nv)"
proof -
  have "holds_at (nh_mmap small_nv) 0 (le32 NVRAM_MAGIC)"
    unfolding small_nv_sel by (rule holds_at_store) simp
  then have "u32_at (nh_mmap small_nv) 0 = NVRAM_MAGIC" by (rule u32_at_holds)
  then show ?thesis by (simp add: find_magic_def small_nv_sel(1,2) NVRAM_MIN_SPACE_def)
qed

text \<open>
  C19. The hash table is a map from names to values. Setting a variable updates the map at that
  name, or fails with \<^verbatim>\<open>-ENOMEM\<close> and changes nothing; removing one deletes it; both keep the
  table well formed.
\<close>

theorem nvram_variables_are_a_map:
  assumes "nvram_inv h" "name_ok n" "value_ok v"
  shows "(case nvram_set h n v of (r, h') \<Rightarrow> nvram_inv h' \<and>
            (r = 0 \<longrightarrow> nvram_get h' = (nvram_get h)(n \<mapsto> v)) \<and> (r \<noteq> 0 \<longrightarrow> r = - ENOMEM \<and> h' = h)) \<and>
         (case nvram_unset h n of (r, h') \<Rightarrow> r = 0 \<and> nvram_inv h' \<and>
            nvram_get h' = (nvram_get h)(n := None))"
proof -
  have "fst (nvram_unset h n) = 0" by (simp add: nvram_unset_def Let_def split: option.split)
  then show ?thesis
    using nvram_inv_set[OF assms] nvram_get_set[OF assms(1), of v n] nvram_inv_unset[OF assms(1), of n]
      nvram_get_unset[OF assms(1), of n]
    by (cases "value_fits h v") (auto simp: nvram_set_cases split: prod.split)
qed

theorem nvram_variables_are_a_map_witness:
  "nvram_get (snd (nvram_unset small_nv [0x61])) = (nvram_get small_nv)([0x61] := None)"
  using nvram_variables_are_a_map[OF small_nv_inv, of "[0x61]" "[0x32]"]
  by (simp add: name_ok_def value_ok_def split: prod.splits)

text \<open>
  The list of all variables is complete: it has every variable of the map once.
\<close>

theorem nvram_getall_complete:
  assumes "nvram_inv h"
  shows "distinct (map fst (nvram_getall h)) \<and>
    (\<forall>n v. (n, v) \<in> set (nvram_getall h) \<longleftrightarrow> nvram_get h n = Some v)"
proof -
  have "nvram_getall h = rev (concat (nvram_hash h))"
    by (simp add: nvram_getall_def foldl_conv_fold rev_conv_fold)
  then show ?thesis
    using nvram_table(1)[OF assms] nvram_table(2)[OF assms, symmetric]
    by (simp add: rev_map[symmetric] map_of_eq_Some_iff)
qed

theorem nvram_getall_complete_witness: "([0x61], [0x31]) \<in> set (nvram_getall small_nv)"
  using nvram_getall_complete[OF small_nv_inv] small_nv_get by blast

text \<open>
  C18. A commit loses nothing. When the variables fit into the partition, every variable has the
  same value after the table was written to the partition and read back, and no variable
  appears except the four memory parameters, which get default values.
\<close>

theorem nvram_commit_keeps_variables:
  assumes "nvram_inv h" "nvram_place h" "all_fit h" and "nvram_get h n \<noteq> None \<or> n \<notin> sdram_names"
  shows "nvram_get (nvram_commit h) n = nvram_get h n"
  using nvram_commit_parsed[OF assms(1-3)] assms(4) by blast

theorem nvram_commit_keeps_variables_witness:
  "nvram_get (nvram_commit small_nv) [0x61] = Some [0x31]"
  using nvram_commit_keeps_variables[OF small_nv_inv small_nv_place small_nv_fit, of "[0x61]"] small_nv_get
  by simp

text \<open>
  The checksum that a commit stores is the one that \<^verbatim>\<open>nvram info\<close> calculates.
\<close>

theorem nvram_commit_checksum_agrees:
  assumes "nvram_place h" "all_fit h"
  shows "do_info_crc (nvram_commit h) = ucast (hd_crc_ver_init (nvram_header_of (nvram_commit h)))"
  using assms by (rule nvram_commit_checksum)

theorem nvram_commit_checksum_agrees_witness:
  "do_info_crc (nvram_commit small_nv) = ucast (hd_crc_ver_init (nvram_header_of (nvram_commit small_nv)))"
  by (rule nvram_commit_checksum_agrees[OF small_nv_place small_nv_fit])

text \<open>
  A committed partition opens again for writing with the same table, unless it is full: when
  the rounded length of the data is the whole area, \<^verbatim>\<open>nvram_open\<close> refuses it, although
  \<^verbatim>\<open>nvram_commit\<close> wrote it.
\<close>

theorem nvram_reopen_after_commit:
  assumes "nvram_place h" "all_fit h" "find_magic (nh_mmap h) (nh_length h) = Some (nh_offset h)"
  shows "nvram_open (nh_length h) None (nh_mmap (nvram_commit h)) False =
     (if NVRAM_ROUNDUP (used_bytes h + 2) 4 < nh_length h - nh_offset h then Some (nvram_commit h) else None)"
  using nvram_reopen[OF assms] by (simp add: commit_len_def)

theorem nvram_reopen_after_commit_witness:
  "nvram_open 64 None (nh_mmap (nvram_commit small_nv)) False = Some (nvram_commit small_nv)"
  using nvram_reopen_after_commit[OF small_nv_place small_nv_fit small_nv_magic]
  by (simp add: small_nv_sel used_bytes_def small_nv_table tuple_bytes_def NVRAM_HEADER_SIZE_def
      NVRAM_ROUNDUP_def)

text \<open>
  The table-driven checksum is the bit-wise one: \<^verbatim>\<open>hndcrc8\<close> computes, for every input, the
  cyclic redundancy check with the polynomial its comment names.
\<close>

theorem hndcrc8_is_bitwise: "hndcrc8 bs c = foldl (\<lambda>c b. crc8_byte (c XOR b)) c bs"
  by (rule hndcrc8_reference)

text \<open>
  The checksum detects every change of a single byte.
\<close>

theorem hndcrc8_detects_byte: "x \<noteq> y \<Longrightarrow> hndcrc8 (xs @ x # ys) c \<noteq> hndcrc8 (xs @ y # ys) c"
proof
  assume ne: "x \<noteq> y" and eq: "hndcrc8 (xs @ x # ys) c = hndcrc8 (xs @ y # ys) c"
  let ?s = "hndcrc8 xs c"
  have "hndcrc8 ys (crc8_byte (?s XOR x)) = hndcrc8 ys (crc8_byte (?s XOR y))"
    using eq by (simp add: hndcrc8_append crc8_table_correct)
  then have "?s XOR x = ?s XOR y" by (blast dest: hndcrc8_state_inj crc8_byte_inj)
  then have "x = y" by (metis xor.assoc xor_self_eq xor.left_neutral)
  with ne show False ..
qed

theorem hndcrc8_detects_byte_witness: "hndcrc8 ([1] @ 2 # [3]) 0xff \<noteq> hndcrc8 ([1] @ 4 # [3]) 0xff"
  by (rule hndcrc8_detects_byte) simp

text \<open>
  No command line breaks the table: for all arguments the tool ends with a well formed
  table, so that the laws of the map hold for the next command.
\<close>

theorem nvram_cli_keeps_table:
  assumes "nvram_inv h" and "\<forall>a. 0 \<notin> set (word a)"
  shows "nvram_inv (cli_h (snd (cli_main word to_nvram args h)))"
  using cli_loop_inv[of "\<lparr>cli_h = h, cli_stat = 1, cli_done = 0, cli_commit = False, cli_out = []\<rparr>" word args] assms
  by (auto simp: cli_main_def Let_def nvram_commit_inv)

theorem nvram_cli_keeps_table_witness:
  "nvram_inv (cli_h (snd (cli_main (\<lambda>_. [0x61, 0x3d, 0x62]) 0 [ArgSet, ArgOther [0x61, 0x3d, 0x62]] small_nv)))"
  by (rule nvram_cli_keeps_table[OF small_nv_inv]) simp

end
