(* ===== verification/Mtdsplit.thy ===== *)
theory Mtdsplit
  imports Prelude
begin

unbundle bit_operations_syntax

text \<open>
  The common part of the firmware splitters (\<^verbatim>\<open>drivers/mtd/mtdsplit/mtdsplit.c\<close> and
  \<^verbatim>\<open>mtdsplit.h\<close>): a splitter looks at a firmware partition of a flash chip, finds out
  where the kernel ends and the root file system starts, and returns the partitions that the
  kernel then registers.

  The platform is a parameter: byte order, width of \<^verbatim>\<open>size_t\<close> and the success of each
  allocation. Reading the flash is a parameter too, a function in the record of the device,
  because the \<^verbatim>\<open>mtd_read\<close> of the kernel is not part of this tree. All arithmetic on
  \<^verbatim>\<open>size_t\<close> and \<^verbatim>\<open>uint64_t\<close> is on natural numbers with the wrap-around written out.

  A loop that may not end has fuel and gives \<open>Diverges\<close> when the fuel is used up. A read
  outside a buffer is \<open>Fault\<close>.
\<close>

section \<open>Results\<close>

datatype 'a res = Ret 'a | Fail int | Diverges | Fault

primrec bind_res :: "'a res \<Rightarrow> ('a \<Rightarrow> 'b res) \<Rightarrow> 'b res" where
  "bind_res (Ret x) f = f x"
| "bind_res (Fail e) f = Fail e"
| "bind_res Diverges f = Diverges"
| "bind_res Fault f = Fault"

lemma bind_res_Ret_iff [simp]: "bind_res r f = Ret y \<longleftrightarrow> (\<exists>x. r = Ret x \<and> f x = Ret y)"
  by (cases r) auto

lemma bind_res_Diverges_iff [simp]:
  "bind_res r f = Diverges \<longleftrightarrow> r = Diverges \<or> (\<exists>x. r = Ret x \<and> f x = Diverges)"
  by (cases r) auto

lemma bind_res_Fault_iff [simp]:
  "bind_res r f = Fault \<longleftrightarrow> r = Fault \<or> (\<exists>x. r = Ret x \<and> f x = Fault)"
  by (cases r) auto

definition require :: "bool \<Rightarrow> int \<Rightarrow> unit res" where
  "require b e = (if b then Ret () else Fail e)"

lemma require_Ret_iff [simp]: "require b e = Ret u \<longleftrightarrow> b"
  by (simp add: require_def)

lemma require_not_Diverges [simp]: "require b e \<noteq> Diverges" "require b e \<noteq> Fault"
  by (simp_all add: require_def)

definition fail_with :: "int \<Rightarrow> 'a res \<Rightarrow> 'a res" where
  "fail_with e r = (case r of Fail _ \<Rightarrow> Fail e | _ \<Rightarrow> r)"

lemma fail_with_iff [simp]:
  "fail_with e r = Ret x \<longleftrightarrow> r = Ret x" "fail_with e r = Diverges \<longleftrightarrow> r = Diverges"
  "fail_with e r = Fault \<longleftrightarrow> r = Fault"
  by (cases r; simp add: fail_with_def)+

abbreviation (input) ENOENT :: int where "ENOENT \<equiv> 2"

section \<open>Platform and device\<close>

record platform =
  pf_big_endian :: bool
  pf_size_bits :: nat
  pf_alloc :: "nat \<Rightarrow> bool"

record of_node =
  of_compatible :: "string \<Rightarrow> bool"
  of_u32 :: "string \<Rightarrow> int + nat"
  of_u64 :: "string \<Rightarrow> int + nat"
  of_string :: "string \<Rightarrow> int + string"

record mtd_info =
  mtd_name :: string
  mtd_size :: nat
  mtd_erasesize :: nat
  mtd_is_nand :: bool
  mtd_np :: "of_node option"
  mtd_rd :: "int \<Rightarrow> nat \<Rightarrow> int \<times> bytes"

record mtd_partition =
  part_name :: string
  part_offset :: nat
  part_size :: nat

text \<open>
  Conversions to \<^verbatim>\<open>size_t\<close>, to \<^verbatim>\<open>uint64_t\<close> and to the signed 64 bit
  \<^verbatim>\<open>loff_t\<close>.
\<close>

definition sz :: "platform \<Rightarrow> int \<Rightarrow> nat" where
  "sz p i = nat (i mod 2 ^ pf_size_bits p)"

definition u64 :: "int \<Rightarrow> nat" where
  "u64 i = nat (i mod 2 ^ 64)"

definition loff :: "nat \<Rightarrow> int" where
  "loff n = (if n < 2 ^ 63 then int n else int n - 2 ^ 64)"

text \<open>
  The call \<^verbatim>\<open>mtd_read\<close> and the two tests that follow nearly every call: its error is
  passed on, a short read is \<^verbatim>\<open>-EIO\<close>.
\<close>

definition read_exact :: "mtd_info \<Rightarrow> nat \<Rightarrow> nat \<Rightarrow> bytes res" where
  "read_exact m ofs len =
     (let (ret, buf) = mtd_rd m (loff ofs) len
      in if ret \<noteq> 0 then Fail ret else if length buf \<noteq> len then Fail (- EIO) else Ret buf)"

text \<open>Integers in memory, in a given byte order.\<close>

definition get_le16 :: "bytes \<Rightarrow> nat \<Rightarrow> nat" where
  "get_le16 b i = unat (byte_at b i) + 256 * unat (byte_at b (i + 1))"

definition get_be16 :: "bytes \<Rightarrow> nat \<Rightarrow> nat" where
  "get_be16 b i = 256 * unat (byte_at b i) + unat (byte_at b (i + 1))"

definition get_le32 :: "bytes \<Rightarrow> nat \<Rightarrow> nat" where
  "get_le32 b i = get_le16 b i + 65536 * get_le16 b (i + 2)"

definition get_be32 :: "bytes \<Rightarrow> nat \<Rightarrow> nat" where
  "get_be32 b i = 65536 * get_be16 b i + get_be16 b (i + 2)"

definition get_le64 :: "bytes \<Rightarrow> nat \<Rightarrow> nat" where
  "get_le64 b i = get_le32 b i + 4294967296 * get_le32 b (i + 4)"

definition get_be64 :: "bytes \<Rightarrow> nat \<Rightarrow> nat" where
  "get_be64 b i = 4294967296 * get_be32 b i + get_be32 b (i + 4)"

definition get_cpu16 :: "platform \<Rightarrow> bytes \<Rightarrow> nat \<Rightarrow> nat" where
  "get_cpu16 p b i = (if pf_big_endian p then get_be16 b i else get_le16 b i)"

definition get_cpu32 :: "platform \<Rightarrow> bytes \<Rightarrow> nat \<Rightarrow> nat" where
  "get_cpu32 p b i = (if pf_big_endian p then get_be32 b i else get_le32 b i)"

definition get_cpu64 :: "platform \<Rightarrow> bytes \<Rightarrow> nat \<Rightarrow> nat" where
  "get_cpu64 p b i = (if pf_big_endian p then get_be64 b i else get_le64 b i)"

section \<open>Erase blocks\<close>

text \<open>
  The quotient and the product with the erase size are 32 bits wide.
\<close>

definition mtd_roundup_to_eb :: "nat \<Rightarrow> mtd_info \<Rightarrow> nat" where
  "mtd_roundup_to_eb n m =
     (if n mod mtd_erasesize m = 0 then n
      else ((n div mtd_erasesize m) mod 2 ^ 32 + 1) mod 2 ^ 32 * mtd_erasesize m mod 2 ^ 32)"

definition mtd_rounddown_to_eb :: "nat \<Rightarrow> mtd_info \<Rightarrow> nat" where
  "mtd_rounddown_to_eb n m =
     (if n mod mtd_erasesize m = 0 then n
      else (n div mtd_erasesize m) mod 2 ^ 32 * mtd_erasesize m mod 2 ^ 32)"

definition mtd_next_eb :: "platform \<Rightarrow> mtd_info \<Rightarrow> nat \<Rightarrow> nat" where
  "mtd_next_eb p m ofs = sz p (int (mtd_rounddown_to_eb ofs m + mtd_erasesize m))"

section \<open>Finding the root file system\<close>

definition KERNEL_PART_NAME :: string where "KERNEL_PART_NAME = ''kernel''"
definition ROOTFS_PART_NAME :: string where "ROOTFS_PART_NAME = ''rootfs''"
definition UBI_PART_NAME :: string where "UBI_PART_NAME = ''ubi''"
definition ROOTFS_SPLIT_NAME :: string where "ROOTFS_SPLIT_NAME = ''rootfs_data''"

abbreviation (input) SQUASHFS_MAGIC :: nat where "SQUASHFS_MAGIC \<equiv> 0x73717368"
definition UBI_EC_MAGIC :: nat where "UBI_EC_MAGIC = 0x55424923"

datatype mtdsplit_part_type =
  MTDSPLIT_PART_TYPE_UNK | MTDSPLIT_PART_TYPE_SQUASHFS | MTDSPLIT_PART_TYPE_JFFS2
| MTDSPLIT_PART_TYPE_UBI

definition mtd_get_squashfs_len :: "platform \<Rightarrow> mtd_info \<Rightarrow> nat \<Rightarrow> nat res" where
  "mtd_get_squashfs_len p m ofs =
     (case read_exact m ofs 48 of
        Ret sb \<Rightarrow>
          (let retlen = sz p (int (get_le64 sb 40))
           in if get_le32 sb 0 \<noteq> SQUASHFS_MAGIC then Fail (- EINVAL)
              else if retlen = 0 then Fail (- ENOENT)
              else if sz p (int (ofs + retlen)) > mtd_size m then Fail (- EINVAL)
              else Ret retlen)
      | _ \<Rightarrow> Fail (- EIO))"

definition mtd_check_rootfs_magic :: "platform \<Rightarrow> mtd_info \<Rightarrow> nat \<Rightarrow> mtdsplit_part_type res" where
  "mtd_check_rootfs_magic p m ofs =
     bind_res (read_exact m ofs 4) (\<lambda>b.
       if get_le32 b 0 = SQUASHFS_MAGIC then Ret MTDSPLIT_PART_TYPE_SQUASHFS
       else if get_cpu32 p b 0 = 0x19852003 then Ret MTDSPLIT_PART_TYPE_JFFS2
       else if get_be32 b 0 = UBI_EC_MAGIC then Ret MTDSPLIT_PART_TYPE_UBI
       else Fail (- EINVAL))"

fun find_rootfs_loop ::
  "nat \<Rightarrow> platform \<Rightarrow> mtd_info \<Rightarrow> nat \<Rightarrow> nat \<Rightarrow> (nat \<times> mtdsplit_part_type) res" where
  "find_rootfs_loop 0 p m ofs limit = Diverges"
| "find_rootfs_loop (Suc fuel) p m ofs limit =
     (if ofs < limit then
        (case mtd_check_rootfs_magic p m ofs of
           Ret t \<Rightarrow> Ret (ofs, t)
         | _ \<Rightarrow> find_rootfs_loop fuel p m (mtd_next_eb p m ofs) limit)
      else Fail (- ENOENT))"

text \<open>
  The fuel is the number of erase blocks below the limit and two more.
\<close>

definition mtd_find_rootfs_from ::
  "platform \<Rightarrow> mtd_info \<Rightarrow> nat \<Rightarrow> nat \<Rightarrow> (nat \<times> mtdsplit_part_type) res" where
  "mtd_find_rootfs_from p m start limit =
     find_rootfs_loop (limit div mtd_erasesize m + 2) p m start limit"

section \<open>The splitter of the root file system\<close>

text \<open>
  \<^verbatim>\<open>mtdsplit_parse_squashfs\<close>: the space behind a squashfs image becomes the partition
  for the overlay file system. \<open>parent\<close> is the device at the root of the partition tree and
  \<open>part_ofs\<close> the position of this partition in it.
\<close>

definition mtdsplit_parse_squashfs ::
  "platform \<Rightarrow> mtd_info \<Rightarrow> nat \<Rightarrow> mtd_info \<Rightarrow> mtd_partition list res" where
  "mtdsplit_parse_squashfs p parent part_ofs m =
     bind_res (mtd_get_squashfs_len p m 0) (\<lambda>len.
     bind_res (require (pf_alloc p 0) (- ENOMEM)) (\<lambda>_.
       let po = sz p (int part_ofs);
           ofs = u64 (int (mtd_roundup_to_eb (sz p (int (po + len))) parent) - int po)
       in Ret [\<lparr>part_name = ROOTFS_SPLIT_NAME, part_offset = ofs,
                part_size = mtd_rounddown_to_eb (u64 (int (mtd_size m) - int ofs)) m\<rparr>]))"

section \<open>Devices of at most 4 GiB\<close>

text \<open>
  The facts below are for a device whose size, with one more erase block, fits 32 bits, so that
  no conversion loses anything. Larger devices leave the range of the 32 bit block arithmetic.
\<close>

definition mtd_ok :: "platform \<Rightarrow> mtd_info \<Rightarrow> bool" where
  "mtd_ok p m = (32 \<le> pf_size_bits p \<and> 0 < mtd_erasesize m \<and> mtd_size m + mtd_erasesize m \<le> 2 ^ 32)"

lemma sz_id [width_simps]:
  assumes "32 \<le> pf_size_bits p" "n < 2 ^ 32"
  shows "sz p (int n) = n"
proof -
  have "int n < 2 ^ 32" using assms(2) by simp
  also have "(2 :: int) ^ 32 \<le> 2 ^ pf_size_bits p" by (rule power_increasing) (use assms in auto)
  finally show ?thesis by (simp add: sz_def)
qed

lemma u64_id [width_simps]: "n < 2 ^ 64 \<Longrightarrow> u64 (int n) = n"
  by (simp add: u64_def)

lemma u64_diff [width_simps]: "b \<le> a \<Longrightarrow> a < 2 ^ 64 \<Longrightarrow> u64 (int a - int b) = a - b"
  by (simp add: u64_id flip: of_nat_diff)

lemma loff_id [width_simps]: "n < 2 ^ 32 \<Longrightarrow> loff n = int n"
  by (simp add: loff_def)

lemma rounddown_eq:
  assumes "0 < mtd_erasesize m" "n < 2 ^ 32"
  shows "mtd_rounddown_to_eb n m = n div mtd_erasesize m * mtd_erasesize m"
proof -
  have "n div mtd_erasesize m \<le> n" "n div mtd_erasesize m * mtd_erasesize m \<le> n" by simp_all
  then have "n div mtd_erasesize m < 2 ^ 32" "n div mtd_erasesize m * mtd_erasesize m < 2 ^ 32"
    using assms(2) by linarith+
  then show ?thesis by (auto simp: mtd_rounddown_to_eb_def)
qed

lemma roundup_eq:
  assumes "0 < mtd_erasesize m" "n + mtd_erasesize m \<le> 2 ^ 32" "n mod mtd_erasesize m \<noteq> 0"
  shows "mtd_roundup_to_eb n m = (n div mtd_erasesize m + 1) * mtd_erasesize m"
proof -
  have "n div mtd_erasesize m * mtd_erasesize m + n mod mtd_erasesize m = n" by simp
  then have "n div mtd_erasesize m * mtd_erasesize m < n"
    using assms(3) by linarith
  then have *: "(n div mtd_erasesize m + 1) * mtd_erasesize m < 2 ^ 32" 
    using assms(2) unfolding distrib_right by linarith
  moreover have "n div mtd_erasesize m + 1 \<le> (n div mtd_erasesize m + 1) * mtd_erasesize m"
    using mult_le_mono2 [of 1 "mtd_erasesize m" "n div mtd_erasesize m + 1"] assms(1) by simp
  ultimately have "n div mtd_erasesize m + 1 < 2 ^ 32" by (rule le_less_trans [rotated])
  then show ?thesis using assms(3) * by (simp add: mtd_roundup_to_eb_def)
qed

lemma next_eb_eq:
  assumes "mtd_ok p m" "ofs < mtd_size m"
  shows "mtd_next_eb p m ofs = (ofs div mtd_erasesize m + 1) * mtd_erasesize m"
proof -
  have "ofs div mtd_erasesize m * mtd_erasesize m \<le> ofs" by simp
  then have "ofs div mtd_erasesize m * mtd_erasesize m + mtd_erasesize m < 2 ^ 32"
    using assms unfolding mtd_ok_def by linarith
  then show ?thesis
    using assms by (simp add: mtd_next_eb_def mtd_ok_def rounddown_eq sz_id add.commute del: of_nat_add)
qed

section \<open>The search\<close>

text \<open>
  The places where the search looks: its start and every later boundary of an erase block.
\<close>

definition rootfs_place :: "mtd_info \<Rightarrow> nat \<Rightarrow> nat \<Rightarrow> bool" where
  "rootfs_place m start x = (x = start \<or> start < x \<and> x mod mtd_erasesize m = 0)"

definition has_rootfs :: "platform \<Rightarrow> mtd_info \<Rightarrow> nat \<Rightarrow> bool" where
  "has_rootfs p m x = (case mtd_check_rootfs_magic p m x of Ret t \<Rightarrow> True | _ \<Rightarrow> False)"

lemma next_place:
  assumes "0 < e" "ofs < x" "x mod e = (0 :: nat)"
  shows "(ofs div e + 1) * e \<le> x"
proof -
  obtain k where "x = e * k" using assms(3) by (auto simp: mod_eq_0_iff_dvd)
  then have "ofs div e < k" using assms by (simp add: div_less_iff_less_mult mult.commute)
  then have "(ofs div e + 1) * e \<le> k * e" by (intro mult_le_mono) auto
  then show ?thesis using \<open>x = e * k\<close> by (simp add: mult.commute)
qed

lemma place_skip:
  assumes "ofs < n" "n mod mtd_erasesize m = 0" "x \<noteq> ofs"
    and "ofs < x \<Longrightarrow> x mod mtd_erasesize m = 0 \<Longrightarrow> n \<le> x"
  shows "rootfs_place m ofs x = rootfs_place m n x"
proof (cases "ofs < x \<and> x mod mtd_erasesize m = 0")
  case True
  then have "n \<le> x" by (intro assms(4)) simp_all
  then show ?thesis using True by (auto simp: rootfs_place_def)
next
  case False
  then show ?thesis using assms(1-3) by (auto simp: rootfs_place_def)
qed

lemma place_step:
  assumes e: "0 < mtd_erasesize m" and x: "x \<noteq> ofs"
  shows "rootfs_place m ofs x = rootfs_place m ((ofs div mtd_erasesize m + 1) * mtd_erasesize m) x"
proof (rule place_skip)
  show "ofs < (ofs div mtd_erasesize m + 1) * mtd_erasesize m"
    using e by (simp add: dividend_less_div_times)
qed (use x next_place [OF e] in auto)

lemma find_rootfs_loop_spec:
  assumes ok: "mtd_ok p m" and limit: "limit \<le> mtd_size m"
  shows "0 < fuel \<Longrightarrow> (ofs < limit \<longrightarrow> limit div mtd_erasesize m + 2 \<le> fuel + ofs div mtd_erasesize m) \<Longrightarrow>
    (case find_rootfs_loop fuel p m ofs limit of
       Ret (r, t) \<Rightarrow> ofs \<le> r \<and> r < limit \<and> rootfs_place m ofs r \<and> mtd_check_rootfs_magic p m r = Ret t
         \<and> (\<forall>x < r. rootfs_place m ofs x \<longrightarrow> \<not> has_rootfs p m x)
     | Fail e \<Rightarrow> e = - ENOENT \<and> (\<forall>x < limit. rootfs_place m ofs x \<longrightarrow> \<not> has_rootfs p m x)
     | _ \<Rightarrow> False)"
proof (induction fuel arbitrary: ofs)
  case (Suc fuel)
  let ?e = "mtd_erasesize m" and ?n = "(ofs div mtd_erasesize m + 1) * mtd_erasesize m"
  have e: "0 < ?e" using ok by (simp add: mtd_ok_def)
  show ?case
  proof (cases "ofs < limit \<and> \<not> has_rootfs p m ofs")
    case False
    have "ofs \<le> x" if "rootfs_place m ofs x" for x using that by (auto simp: rootfs_place_def)
    then show ?thesis using False
      by (auto simp: has_rootfs_def rootfs_place_def split: res.splits)
  next
    case True
    have lt: "ofs < ?n" using e by (simp add: dividend_less_div_times)
    have div: "?n div ?e = ofs div ?e + 1" using e by simp
    have "ofs div ?e \<le> limit div ?e" using True by (simp add: div_le_mono)
    then have pre: "0 < fuel" "?n < limit \<longrightarrow> limit div ?e + 2 \<le> fuel + ?n div ?e"
      using Suc.prems True div by auto
    have loop: "find_rootfs_loop (Suc fuel) p m ofs limit = find_rootfs_loop fuel p m ?n limit"
      using True limit ok by (auto simp: has_rootfs_def next_eb_eq split: res.splits)
    have place: "rootfs_place m ofs x \<longleftrightarrow> x = ofs \<or> rootfs_place m ?n x" for x
      using place_step [OF e, of x ofs] by (auto simp: rootfs_place_def)
    show ?thesis
      unfolding loop using Suc.IH [OF pre] True lt place by (auto split: res.splits)
  qed
qed simp

lemma find_rootfs_from_spec:
  assumes "mtd_ok p m" "limit \<le> mtd_size m"
  shows "case mtd_find_rootfs_from p m start limit of
       Ret (r, t) \<Rightarrow> start \<le> r \<and> r < limit \<and> rootfs_place m start r \<and> mtd_check_rootfs_magic p m r = Ret t
         \<and> (\<forall>x < r. rootfs_place m start x \<longrightarrow> \<not> has_rootfs p m x)
     | Fail e \<Rightarrow> e = - ENOENT \<and> (\<forall>x < limit. rootfs_place m start x \<longrightarrow> \<not> has_rootfs p m x)
     | _ \<Rightarrow> False"
  unfolding mtd_find_rootfs_from_def by (rule find_rootfs_loop_spec) (use assms in auto)

text \<open>
  C21. The search for the root file system ends and is exact: it returns the first place,
  among its start and the later erase block boundaries below the limit, that carries one of
  the known magic numbers, and \<^verbatim>\<open>-ENOENT\<close> only if there is no such place. Read
  errors on the way do not stop it.
\<close>

theorem mtd_find_rootfs_from_first:
  assumes "mtd_ok p m" "limit \<le> mtd_size m"
  shows "(\<exists>r t. mtd_find_rootfs_from p m start limit = Ret (r, t) \<and> start \<le> r \<and> r < limit
            \<and> rootfs_place m start r \<and> mtd_check_rootfs_magic p m r = Ret t
            \<and> (\<forall>x < r. rootfs_place m start x \<longrightarrow> \<not> has_rootfs p m x))
       \<or> (mtd_find_rootfs_from p m start limit = Fail (- ENOENT)
            \<and> (\<forall>x < limit. rootfs_place m start x \<longrightarrow> \<not> has_rootfs p m x))"
  using find_rootfs_from_spec [OF assms, of start] by (auto split: res.splits)

text \<open>
  A device that answers from a list of bytes.
\<close>

definition ram_mtd :: "nat \<Rightarrow> bytes \<Rightarrow> mtd_info" where
  "ram_mtd eb data =
     \<lparr>mtd_name = ''firmware'', mtd_size = length data, mtd_erasesize = eb, mtd_is_nand = False,
      mtd_np = None,
      mtd_rd = (\<lambda>ofs len. if 0 \<le> ofs \<and> ofs + int len \<le> int (length data)
                  then (0, take len (drop (nat ofs) data)) else (- EINVAL, []))\<rparr>"

definition host64 :: platform where
  "host64 = \<lparr>pf_big_endian = False, pf_size_bits = 64, pf_alloc = (\<lambda>_. True)\<rparr>"

lemma find_rootfs_loop_numeral:
  "find_rootfs_loop (numeral k) p m ofs limit =
     (if ofs < limit then
        (case mtd_check_rootfs_magic p m ofs of
           Ret t \<Rightarrow> Ret (ofs, t)
         | _ \<Rightarrow> find_rootfs_loop (pred_numeral k) p m (mtd_next_eb p m ofs) limit)
      else Fail (- ENOENT))"
  by (simp add: numeral_eq_Suc)

lemmas search_eval = find_rootfs_loop_numeral mtd_find_rootfs_from_def mtd_check_rootfs_magic_def read_exact_def Let_def
  get_le32_def get_le16_def get_cpu32_def get_be32_def get_be16_def byte_at_def UBI_EC_MAGIC_def
  mtd_next_eb_def mtd_rounddown_to_eb_def sz_def loff_def

definition squashfs_at_8 :: bytes where
  "squashfs_at_8 = [1, 2, 3, 4, 5, 6, 7, 8, 0x68, 0x73, 0x71, 0x73, 0, 0, 0, 0]"

theorem mtd_find_rootfs_from_first_witness:
  "mtd_find_rootfs_from host64 (ram_mtd 4 squashfs_at_8) 1 16 = Ret (8, MTDSPLIT_PART_TYPE_SQUASHFS)
   \<and> rootfs_place (ram_mtd 4 squashfs_at_8) 1 8 \<and> \<not> has_rootfs host64 (ram_mtd 4 squashfs_at_8) 1
   \<and> \<not> has_rootfs host64 (ram_mtd 4 squashfs_at_8) 4"
proof -
  have ok: "mtd_ok host64 (ram_mtd 4 squashfs_at_8)" "16 \<le> mtd_size (ram_mtd 4 squashfs_at_8)"
    by (simp_all add: mtd_ok_def host64_def ram_mtd_def squashfs_at_8_def)
  have "mtd_find_rootfs_from host64 (ram_mtd 4 squashfs_at_8) 1 16 = Ret (8, MTDSPLIT_PART_TYPE_SQUASHFS)"
    by (simp add: search_eval ram_mtd_def host64_def squashfs_at_8_def)
  moreover have "rootfs_place (ram_mtd 4 squashfs_at_8) 1 1" "rootfs_place (ram_mtd 4 squashfs_at_8) 1 4"
    by (simp_all add: rootfs_place_def ram_mtd_def)
  ultimately show ?thesis
    using mtd_find_rootfs_from_first [OF ok, of 1] by auto
qed

section \<open>The overlay partition\<close>

lemma roundup_ge:
  assumes "0 < mtd_erasesize m" "n + mtd_erasesize m \<le> 2 ^ 32"
  shows "n \<le> mtd_roundup_to_eb n m \<and> mtd_roundup_to_eb n m mod mtd_erasesize m = 0
       \<and> mtd_roundup_to_eb n m < n + mtd_erasesize m"
proof (cases "n mod mtd_erasesize m = 0")
  case True
  then show ?thesis using assms(1) by (simp add: mtd_roundup_to_eb_def)
next
  case False
  have "n < (n div mtd_erasesize m + 1) * mtd_erasesize m"
    using assms(1) by (simp add: dividend_less_div_times)
  moreover have "n div mtd_erasesize m * mtd_erasesize m + n mod mtd_erasesize m = n" by simp
  then have "n div mtd_erasesize m * mtd_erasesize m < n" using False by linarith
  ultimately show ?thesis using roundup_eq [OF assms False] by simp
qed

lemma u64_diff32: "b \<le> a \<Longrightarrow> a \<le> 2 ^ 32 \<Longrightarrow> u64 (int a - int b) = a - b"
  by (simp add: u64_diff)

lemma squashfs_len_bounds:
  assumes "mtd_get_squashfs_len p m 0 = Ret len"
  shows "0 < len \<and> len \<le> mtd_size m"
proof -
  have "sz p (int (sz p x)) = sz p x" for x by (simp add: sz_def)
  then show ?thesis
    using assms by (auto simp: mtd_get_squashfs_len_def Let_def split: res.splits if_splits)
qed

text \<open>
  The overlay partition never overlaps the squashfs image: it starts at or behind the end
  of the image, on an erase block boundary of the chip, less than one erase block later, and
  its size is a multiple of the erase size that stays inside the device when the device ends
  on such a boundary.
\<close>

theorem squashfs_overlay_partition:
  assumes "mtd_ok p m" "mtd_ok p parent" "mtd_erasesize m = mtd_erasesize parent"
    and "part_ofs + mtd_size m \<le> mtd_size parent"
    and "(part_ofs + mtd_size m) mod mtd_erasesize m = 0"
    and "mtdsplit_parse_squashfs p parent part_ofs m = Ret parts"
  shows "\<exists>len x. mtd_get_squashfs_len p m 0 = Ret len \<and> parts = [x]
       \<and> part_name x = ROOTFS_SPLIT_NAME
       \<and> len \<le> part_offset x \<and> part_offset x < len + mtd_erasesize m
       \<and> (part_ofs + part_offset x) mod mtd_erasesize m = 0
       \<and> part_size x mod mtd_erasesize m = 0
       \<and> part_offset x + part_size x \<le> mtd_size m"
proof -
  let ?e = "mtd_erasesize m"
  obtain len where len: "mtd_get_squashfs_len p m 0 = Ret len" using assms(6)
    by (auto simp: mtdsplit_parse_squashfs_def)
  define up where "up = mtd_roundup_to_eb (part_ofs + len) parent"
  have b: "0 < ?e" "len \<le> mtd_size m" "mtd_size m + ?e \<le> 2 ^ 32" "mtd_size parent + ?e \<le> 2 ^ 32"
    "32 \<le> pf_size_bits p"
    using assms squashfs_len_bounds [OF len] by (auto simp: mtd_ok_def)
  then have up: "part_ofs + len \<le> up" "up mod ?e = 0" "up < part_ofs + len + ?e"
    using roundup_ge [of parent "part_ofs + len"] assms(3,4) by (auto simp: up_def)
  have end_le: "up \<le> part_ofs + mtd_size m"
  proof (rule ccontr)
    assume *: "\<not> ?thesis"
    obtain j k where "part_ofs + mtd_size m = ?e * j" "up = ?e * k"
      using up(2) assms(5) by (metis mod_0_imp_dvd dvdE)
    then have "?e * j < ?e * k" "?e * k < ?e * (j + 1)"
      using * up b(2) by auto
    then have "j < k \<and> k < j + 1" by (simp only: mult_less_cancel1)
    then show False by auto
  qed
  define ofs where "ofs = up - part_ofs"
  define s where "s = (mtd_size m - ofs) div ?e * ?e"
  have "parts = [\<lparr>part_name = ROOTFS_SPLIT_NAME, part_offset = ofs, part_size = s\<rparr>]"
  proof -
    have "sz p (int part_ofs) = part_ofs" "sz p (int (part_ofs + len)) = part_ofs + len"
      using b assms(4) by (intro sz_id; linarith)+
    moreover have "u64 (int up - int part_ofs) = ofs" "u64 (int (mtd_size m) - int ofs) = mtd_size m - ofs"
      unfolding ofs_def by (rule u64_diff32; use up end_le b assms(4) in linarith)+
    moreover have "mtd_rounddown_to_eb (mtd_size m - ofs) m = s"
      unfolding s_def using b by (intro rounddown_eq) linarith+
    ultimately show ?thesis
      using assms(6) len by (auto simp: mtdsplit_parse_squashfs_def Let_def up_def)
  qed
  moreover have "s \<le> mtd_size m - ofs" "s mod ?e = 0" by (simp_all add: s_def)
  ultimately show ?thesis
    using len up end_le b(2) by (auto simp: ofs_def)
qed

definition squashfs_image :: bytes where
  "squashfs_image = [0x68, 0x73, 0x71, 0x73, 0, 0, 0, 0, 0, 0, 0, 0, 0, 0, 0, 0, 0, 0, 0, 0,
     0, 0, 0, 0, 0, 0, 0, 0, 0, 0, 0, 0, 0, 0, 0, 0, 0, 0, 0, 0, 50, 0, 0, 0, 0, 0, 0, 0] @ replicate 48 7"

lemma squashfs_image_facts:
  "mtd_ok host64 (ram_mtd 16 squashfs_image)" "mtd_size (ram_mtd 16 squashfs_image) = 96"
  "mtd_erasesize (ram_mtd 16 squashfs_image) = 16"
  by (simp_all add: mtd_ok_def host64_def ram_mtd_def squashfs_image_def)

lemma squashfs_image_len: "mtd_get_squashfs_len host64 (ram_mtd 16 squashfs_image) 0 = Ret 50"
proof -
  have "read_exact (ram_mtd 16 squashfs_image) 0 48 = Ret (take 48 squashfs_image)"
    by (simp add: read_exact_def ram_mtd_def loff_def squashfs_image_def)
  moreover have "get_le64 (take 48 squashfs_image) 40 = 50"
    by (simp add: squashfs_image_def get_le64_def get_le32_def get_le16_def byte_at_def)
  moreover have "get_le32 (take 48 squashfs_image) 0 = 0x73717368"
    by (simp add: squashfs_image_def get_le32_def get_le16_def byte_at_def)
  ultimately show ?thesis
    by (simp add: mtd_get_squashfs_len_def sz_def host64_def squashfs_image_facts(2))
qed

lemma squashfs_image_split:
  "mtdsplit_parse_squashfs host64 (ram_mtd 16 squashfs_image) 0 (ram_mtd 16 squashfs_image)
   = Ret [\<lparr>part_name = ROOTFS_SPLIT_NAME, part_offset = 64, part_size = 32\<rparr>]"
proof -
  let ?m = "ram_mtd 16 squashfs_image"
  have "mtd_roundup_to_eb 50 ?m = 64" "mtd_rounddown_to_eb 32 ?m = 32"
    by (simp_all add: mtd_roundup_to_eb_def mtd_rounddown_to_eb_def squashfs_image_facts(3))
  moreover have "sz host64 50 = 50" "sz host64 0 = 0" "u64 64 = 64" "u64 32 = 32"
    by (simp_all add: sz_def u64_def host64_def)
  moreover have "require (pf_alloc host64 0) (- ENOMEM) = Ret ()"
    by (simp add: host64_def)
  ultimately show ?thesis
    by (simp add: mtdsplit_parse_squashfs_def squashfs_image_len squashfs_image_facts(2))
qed

theorem squashfs_overlay_partition_witness:
  "\<exists>len x. mtd_get_squashfs_len host64 (ram_mtd 16 squashfs_image) 0 = Ret len
     \<and> mtdsplit_parse_squashfs host64 (ram_mtd 16 squashfs_image) 0 (ram_mtd 16 squashfs_image) = Ret [x]
     \<and> len \<le> part_offset x \<and> part_offset x + part_size x \<le> mtd_size (ram_mtd 16 squashfs_image)"
  using squashfs_overlay_partition [of host64 "ram_mtd 16 squashfs_image" "ram_mtd 16 squashfs_image" 0,
      OF squashfs_image_facts(1) squashfs_image_facts(1) refl _ _ squashfs_image_split]
    squashfs_image_split squashfs_image_facts(2,3) by auto

end
