(* ===== verification/Mtdsplit_Fw.thy ===== *)
theory Mtdsplit_Fw
  imports Mtdsplit
begin

unbundle bit_operations_syntax

text \<open>
  The firmware splitters that check a header and then search for the root file system:
  \<^verbatim>\<open>mtdsplit_lzma.c\<close>, \<^verbatim>\<open>mtdsplit_minor.c\<close>, \<^verbatim>\<open>mtdsplit_wrgg.c\<close>,
  \<^verbatim>\<open>mtdsplit_elf.c\<close>, \<^verbatim>\<open>mtdsplit_seil.c\<close>, \<^verbatim>\<open>mtdsplit_h3c_vfs.c\<close> and
  \<^verbatim>\<open>mtdsplit_cfe_bootfs.c\<close>. Header fields are read at their offsets in the C structures.
  The locale \<open>rootfs_splitter\<close> states what they have in common, and every one of them is an
  instance.
\<close>

section \<open>The partitions\<close>

definition kernel_rootfs :: "string \<Rightarrow> string \<Rightarrow> mtd_info \<Rightarrow> nat \<Rightarrow> mtd_partition list" where
  "kernel_rootfs kname rname m r =
     [\<lparr>part_name = kname, part_offset = 0, part_size = r\<rparr>,
      \<lparr>part_name = rname, part_offset = r, part_size = u64 (int (mtd_size m) - int r)\<rparr>]"

definition rootfs_name :: "mtdsplit_part_type \<Rightarrow> string" where
  "rootfs_name t = (if t = MTDSPLIT_PART_TYPE_UBI then UBI_PART_NAME else ROOTFS_PART_NAME)"

definition find_rootfs :: "platform \<Rightarrow> mtd_info \<Rightarrow> nat \<Rightarrow> (nat \<times> mtdsplit_part_type) res" where
  "find_rootfs p m start = mtd_find_rootfs_from p m start (sz p (int (mtd_size m)))"

section \<open>LZMA\<close>

definition is_power_of_2 :: "nat \<Rightarrow> bool" where
  "is_power_of_2 n = (n \<noteq> 0 \<and> n AND (n - 1) = 0)"

definition mtdsplit_parse_lzma :: "platform \<Rightarrow> mtd_info \<Rightarrow> mtd_partition list res" where
  "mtdsplit_parse_lzma p m =
     bind_res (read_exact m 0 13) (\<lambda>hdr.
     bind_res (require (unat (byte_at hdr 0) < 9 * 5 * 5) (- EINVAL)) (\<lambda>_.
     bind_res (require (is_power_of_2 (get_le32 hdr 1)) (- EINVAL)) (\<lambda>_.
     bind_res (require (get_le32 hdr 9 = 0) (- EINVAL)) (\<lambda>_.
     bind_res (find_rootfs p m (mtd_erasesize m)) (\<lambda>(r, t).
     bind_res (require (pf_alloc p 0) (- ENOMEM)) (\<lambda>_.
       Ret (kernel_rootfs KERNEL_PART_NAME ROOTFS_PART_NAME m r)))))))"

section \<open>MikroTik\<close>

definition str_bytes :: "string \<Rightarrow> bytes" where
  "str_bytes s = map of_char s"

definition mtdsplit_parse_minor :: "platform \<Rightarrow> mtd_info \<Rightarrow> mtd_partition list res" where
  "mtdsplit_parse_minor p m =
     bind_res (read_exact m 0 140) (\<lambda>hdr.
     bind_res (require (get_cpu32 p hdr 0 = 1) (- ENOENT)) (\<lambda>_.
     bind_res (require (get_cpu32 p hdr 4 = 1) (- ENOENT)) (\<lambda>_.
     bind_res (require (get_cpu16 p hdr 8 = 0xFFFF) (- ENOENT)) (\<lambda>_.
     bind_res (require (take 7 (drop 10 hdr) = str_bytes ''kernel'' @ [0]
                        \<or> take 10 (drop 10 hdr) = str_bytes ''bootimage'' @ [0]) (- ENOENT)) (\<lambda>_.
     bind_res (find_rootfs p m (mtd_erasesize m)) (\<lambda>(r, t).
     bind_res (require (pf_alloc p 0) (- ENOMEM)) (\<lambda>_.
       Ret (kernel_rootfs KERNEL_PART_NAME ROOTFS_PART_NAME m r))))))))"

section \<open>WRGG\<close>

definition WRGG03_MAGIC :: nat where "WRGG03_MAGIC = 0x20080321"
definition WRG_MAGIC :: nat where "WRG_MAGIC = 0x20040220"
definition WRGG_MIN_ROOTFS_OFFS :: nat where "WRGG_MIN_ROOTFS_OFFS = 0x80000"

definition wrgg_kernel_size :: "platform \<Rightarrow> mtd_info \<Rightarrow> bytes \<Rightarrow> nat res" where
  "wrgg_kernel_size p m hdr =
     (if get_le32 hdr 32 = WRGG03_MAGIC then
        (let k1 = sz p (int (160 + get_be32 hdr 104));
             k = (if k1 > mtd_size m then sz p (int (160 + get_le32 hdr 104)) else k1)
         in if k > mtd_size m then Fail (- EINVAL) else Ret k)
      else if get_le32 hdr 32 = WRG_MAGIC then Ret (sz p (int (96 + get_le32 hdr 40)))
      else Fail (- EINVAL))"

definition mtdsplit_parse_wrgg :: "platform \<Rightarrow> mtd_info \<Rightarrow> mtd_partition list res" where
  "mtdsplit_parse_wrgg p m =
     bind_res (read_exact m 0 160) (\<lambda>hdr.
     bind_res (wrgg_kernel_size p m hdr) (\<lambda>kernel_ent_size.
     bind_res (require (kernel_ent_size \<le> mtd_size m) (- EINVAL)) (\<lambda>_.
     bind_res (find_rootfs p m WRGG_MIN_ROOTFS_OFFS) (\<lambda>(r, t).
     bind_res (require (pf_alloc p 0) (- ENOMEM)) (\<lambda>_.
       Ret (kernel_rootfs KERNEL_PART_NAME ROOTFS_PART_NAME m r))))))"

section \<open>ELF\<close>

definition ELF_MAGIC :: nat where "ELF_MAGIC = 0x7f454c46"

text \<open>
  The walk over the program headers. \<open>rd\<close> reads one header and gives the end of its segment.
\<close>

fun elf_ph_loop :: "nat \<Rightarrow> platform \<Rightarrow> (nat \<Rightarrow> nat res) \<Rightarrow> nat \<Rightarrow> nat \<Rightarrow> nat \<Rightarrow> nat \<Rightarrow> nat res" where
  "elf_ph_loop 0 p rd phentsize ph_entry ph_table_end len = Diverges"
| "elf_ph_loop (Suc fuel) p rd phentsize ph_entry ph_table_end len =
     (if ph_entry < ph_table_end then
        bind_res (rd ph_entry) (\<lambda>section_end.
          elf_ph_loop fuel p rd phentsize (sz p (int (ph_entry + phentsize))) ph_table_end
            (max len section_end))
      else Ret len)"

definition mtdsplit_elf_read_mtd :: "mtd_info \<Rightarrow> nat \<Rightarrow> nat \<Rightarrow> bytes res" where
  "mtdsplit_elf_read_mtd m ofs len = read_exact m ofs len"

definition elf32_segment_end :: "platform \<Rightarrow> mtd_info \<Rightarrow> nat \<Rightarrow> nat res" where
  "elf32_segment_end p m ph_entry =
     bind_res (mtdsplit_elf_read_mtd m ph_entry 28) (\<lambda>ph.
       Ret (to_u32 (int (get_cpu32 p ph 4) + int (get_cpu32 p ph 16))))"

definition elf64_segment_end :: "platform \<Rightarrow> mtd_info \<Rightarrow> nat \<Rightarrow> nat res" where
  "elf64_segment_end p m ph_entry =
     bind_res (mtdsplit_elf_read_mtd m ph_entry 48) (\<lambda>ph.
       Ret (sz p (int (u64 (int (get_cpu64 p ph 8) + int (get_cpu64 p ph 32))))))"

text \<open>
  The products of two 16 bit fields are computed in a 32 bit \<^verbatim>\<open>int\<close>. The fuel is the
  size of the device and two more: every iteration but the last reads inside the device.
\<close>

definition elf32_determine_size :: "platform \<Rightarrow> mtd_info \<Rightarrow> bytes \<Rightarrow> nat res" where
  "elf32_determine_size p m hdr =
     (let phoff = get_cpu32 p hdr 28; shoff = get_cpu32 p hdr 32; phentsize = get_cpu16 p hdr 42;
          phnum = get_cpu16 p hdr 44; shentsize = get_cpu16 p hdr 46; shnum = get_cpu16 p hdr 48
      in if shoff > 0 then Ret (to_u32 (int shoff + to_s32 (int (shentsize * shnum))))
         else elf_ph_loop (mtd_size m + 2) p (elf32_segment_end p m) phentsize phoff
                (to_u32 (int phoff + to_s32 (int (phentsize * phnum)))) 0)"

definition elf64_determine_size :: "platform \<Rightarrow> mtd_info \<Rightarrow> bytes \<Rightarrow> nat res" where
  "elf64_determine_size p m hdr =
     (let phoff = get_cpu64 p hdr 32; shoff = get_cpu64 p hdr 40; phentsize = get_cpu16 p hdr 54;
          phnum = get_cpu16 p hdr 56; shentsize = get_cpu16 p hdr 58; shnum = get_cpu16 p hdr 60
      in if shoff > 0 then Ret (sz p (int (u64 (int shoff + to_s32 (int (shentsize * shnum))))))
         else elf_ph_loop (mtd_size m + 2) p (elf64_segment_end p m) phentsize (sz p (int phoff))
                (sz p (int (u64 (int phoff + to_s32 (int (phentsize * phnum)))))) 0)"

definition elf_loader_size :: "platform \<Rightarrow> mtd_info \<Rightarrow> bytes \<Rightarrow> nat res" where
  "elf_loader_size p m hdr =
     (if byte_at hdr 4 = 1 then elf32_determine_size p m hdr
      else if byte_at hdr 4 = 2 then elf64_determine_size p m hdr
      else Fail (- EINVAL))"

definition mtdsplit_parse_elf :: "platform \<Rightarrow> mtd_info \<Rightarrow> mtd_partition list res" where
  "mtdsplit_parse_elf p m =
     bind_res (mtdsplit_elf_read_mtd m 0 64) (\<lambda>hdr.
     bind_res (require (get_be32 hdr 0 = ELF_MAGIC) (- EINVAL)) (\<lambda>_.
     bind_res (elf_loader_size p m hdr) (\<lambda>loader_size.
     bind_res (find_rootfs p m loader_size) (\<lambda>(r, t).
     bind_res (require (r \<noteq> mtd_size m) (- ENOENT)) (\<lambda>_.
     bind_res (require (pf_alloc p 0) (- ENOMEM)) (\<lambda>_.
       Ret (kernel_rootfs KERNEL_PART_NAME (rootfs_name t) m r)))))))"

declare mtdsplit_elf_read_mtd_def [simp]

section \<open>SEIL\<close>

text \<open>
  The environment of the boot loader is a list of strings \<^verbatim>\<open>name=value\<close>, each ended by a
  zero byte. \<open>split_eq\<close> is \<^verbatim>\<open>strchr(var, '=')\<close>, \<open>skip_str\<close> goes behind the next
  zero byte, \<open>str_eq_at\<close> is \<^verbatim>\<open>!strcmp\<close>; running out of the buffer is a fault.
\<close>

fun split_eq :: "bytes \<Rightarrow> (bytes \<times> bytes) option res" where
  "split_eq [] = Fault"
| "split_eq (c # cs) =
     (if c = of_char (CHR ''='') then Ret (Some ([], cs))
      else if c = 0 then Ret None
      else bind_res (split_eq cs) (\<lambda>r. Ret (map_option (\<lambda>(a, b). (c # a, b)) r)))"

fun skip_str :: "bytes \<Rightarrow> bytes res" where
  "skip_str [] = Fault"
| "skip_str (c # cs) = (if c = 0 then Ret cs else skip_str cs)"

fun str_eq_at :: "bytes \<Rightarrow> bytes \<Rightarrow> bool res" where
  "str_eq_at s [] = Fault"
| "str_eq_at [] (c # cs) = Ret (c = 0)"
| "str_eq_at (a # as) (c # cs) = (if a = c then str_eq_at as cs else Ret False)"

lemma split_eq_shorter: "split_eq cs = Ret (Some (a, b)) \<Longrightarrow> length b < length cs"
  by (induction cs arbitrary: a b) (auto split: if_splits)

lemma skip_str_shorter: "skip_str cs = Ret b \<Longrightarrow> length b < length cs"
  by (induction cs arbitrary: b) (auto split: if_splits)

function seil_env_loop :: "bytes \<Rightarrow> bytes \<Rightarrow> bool res" where
  "seil_env_loop devnm var =
     (if var = [] \<or> byte_at var 0 = 0 then Ret False
      else case split_eq var of
             Ret (Some (name, value)) \<Rightarrow>
               if name = str_bytes ''BOOTDEV'' then str_eq_at devnm value
               else (case skip_str value of
                       Ret rest \<Rightarrow> seil_env_loop devnm rest
                     | _ \<Rightarrow> Fault)
           | Ret None \<Rightarrow> Ret False
           | _ \<Rightarrow> Fault)"
  by pat_completeness auto
termination
  by (relation "measure (\<lambda>(devnm, var). length var)") (auto dest!: split_eq_shorter skip_str_shorter)

declare seil_env_loop.simps [simp del]

definition node_string :: "of_node option \<Rightarrow> string \<Rightarrow> int + string" where
  "node_string np name = (case np of None \<Rightarrow> Inl (- EINVAL) | Some n \<Rightarrow> of_string n name)"

definition node_u64 :: "of_node option \<Rightarrow> string \<Rightarrow> int + nat" where
  "node_u64 np name = (case np of None \<Rightarrow> Inl (- EINVAL) | Some n \<Rightarrow> of_u64 n name)"

text \<open>
  \<open>env\<close> is the partition \<^verbatim>\<open>bootloader-env\<close>, if there is one.
\<close>

definition seil_bootdev_is_active :: "platform \<Rightarrow> mtd_info option \<Rightarrow> of_node option \<Rightarrow> bool res" where
  "seil_bootdev_is_active p env np =
     (case node_string np ''iij,bootdev-name'' of
        Inl e \<Rightarrow> Ret (e = - EINVAL)
      | Inr devnm \<Rightarrow>
          (case env of
             None \<Rightarrow> Ret False
           | Some em \<Rightarrow>
               if \<not> pf_alloc p 1 then Ret False
               else (case read_exact em 0 (mtd_size em) of
                       Ret buf \<Rightarrow> seil_env_loop (str_bytes devnm) buf
                     | _ \<Rightarrow> Ret False)))"

definition mtdsplit_parse_seil_fw ::
  "mtd_info option \<Rightarrow> platform \<Rightarrow> mtd_info \<Rightarrow> mtd_partition list res" where
  "mtdsplit_parse_seil_fw env p m =
     bind_res (seil_bootdev_is_active p env (mtd_np m)) (\<lambda>active.
     bind_res (require active (- ENOENT)) (\<lambda>_.
     bind_res (case node_u64 (mtd_np m) ''iij,seil-id'' of Inl e \<Rightarrow> Fail e | Inr i \<Rightarrow> Ret i) (\<lambda>i.
     bind_res (require (pf_alloc p 0) (- ENOMEM)) (\<lambda>_.
     bind_res (read_exact m 0 144) (\<lambda>hdr.
     bind_res (require (get_be64 hdr 0 = i \<and> get_be32 hdr 92 = 1) (- ENOENT)) (\<lambda>_.
     let image_size = sz p (int (144 + get_be32 hdr 140))
     in bind_res (require (image_size \<le> mtd_size m) (- EINVAL)) (\<lambda>_.
     bind_res (fail_with (- ENOENT) (find_rootfs p m image_size)) (\<lambda>(r, t).
     bind_res (require (u64 (int (mtd_size m) - int r) \<noteq> 0) (- ENOENT)) (\<lambda>_.
       Ret (kernel_rootfs KERNEL_PART_NAME ROOTFS_PART_NAME m r))))))))))"

section \<open>H3C\<close>

definition VFS_ERASEBLOCK_SIZE :: nat where "VFS_ERASEBLOCK_SIZE = 0x10000"
definition VFS_BLOCK_SIZE :: nat where "VFS_BLOCK_SIZE = 0x400"
definition VFS_BLOCKS_PER_ERASEBLOCK :: nat where
  "VFS_BLOCKS_PER_ERASEBLOCK = VFS_ERASEBLOCK_SIZE div VFS_BLOCK_SIZE"
definition FORMAT_FLAG :: nat where "FORMAT_FLAG = 0x10000400"

definition block_offset :: "platform \<Rightarrow> nat \<Rightarrow> nat" where
  "block_offset p block =
     sz p (to_s32 (int (VFS_ERASEBLOCK_SIZE * (block div (VFS_BLOCKS_PER_ERASEBLOCK - 1))
                 + VFS_BLOCK_SIZE * (1 + block mod (VFS_BLOCKS_PER_ERASEBLOCK - 1)))))"

definition block_count :: "nat \<Rightarrow> nat" where
  "block_count n = (n + VFS_BLOCK_SIZE - 1) div VFS_BLOCK_SIZE"

definition mtdsplit_h3c_vfs_parse :: "platform \<Rightarrow> mtd_info \<Rightarrow> mtd_partition list res" where
  "mtdsplit_h3c_vfs_parse p m =
     bind_res (require (mtd_erasesize m = VFS_ERASEBLOCK_SIZE) (- EINVAL)) (\<lambda>_.
     bind_res (read_exact m 0 4) (\<lambda>flag.
     bind_res (require (get_cpu32 p flag 0 = FORMAT_FLAG) (- ENOENT)) (\<lambda>_.
     bind_res (read_exact m 0x800 128) (\<lambda>fe.
     bind_res (require (byte_at fe 0 = 0x3f) (- ENOENT)) (\<lambda>_.
     bind_res (require (get_cpu32 p fe 20 = 0) (- ENOENT)) (\<lambda>_.
     bind_res (require (get_cpu16 p fe 24 = 0) (- ENOENT)) (\<lambda>_.
     bind_res (require (get_cpu32 p fe 28 = 2) (- ENOENT)) (\<lambda>_.
     bind_res (require (take 19 (drop 32 fe) = str_bytes ''openwrt-kernel.bin'' @ [0]) (- ENOENT)) (\<lambda>_.
     let kernel_size = sz p (int (block_offset p (get_cpu32 p fe 28 + block_count (get_cpu32 p fe 16) - 1)
                                + VFS_BLOCK_SIZE));
         expected_offset = sz p (int (mtd_roundup_to_eb kernel_size m))
     in bind_res (find_rootfs p m expected_offset) (\<lambda>(r, t).
     bind_res (require (pf_alloc p 0) (- ENOMEM)) (\<lambda>_.
       Ret (kernel_rootfs KERNEL_PART_NAME ROOTFS_PART_NAME m r))))))))))))"

section \<open>CFE boot file system\<close>

text \<open>
  The walk over the nodes of the boot file system. Its result is not used afterwards; the loop
  matters because it may not end, so its fuel is an argument.
\<close>

fun cfe_bootfs_loop :: "nat \<Rightarrow> platform \<Rightarrow> mtd_info \<Rightarrow> nat \<Rightarrow> nat res" where
  "cfe_bootfs_loop 0 p m ofs = Diverges"
| "cfe_bootfs_loop (Suc fuel) p m ofs =
     (case read_exact m ofs 40 of
        Ret node \<Rightarrow>
          if get_cpu16 p node 0 \<noteq> 0x1985 then Ret ofs
          else (let ofs1 = sz p (int (ofs + get_cpu32 p node 4));
                    ofs2 = sz p (int (sz p (int (ofs1 + 3)) div 4 * 4))
                in if ofs2 < mtd_size m then cfe_bootfs_loop fuel p m ofs2 else Ret ofs2)
      | _ \<Rightarrow> Ret ofs)"

definition mtdsplit_cfe_bootfs_parse :: "nat \<Rightarrow> platform \<Rightarrow> mtd_info \<Rightarrow> mtd_partition list res" where
  "mtdsplit_cfe_bootfs_parse fuel p m =
     bind_res (require (mtd_name m = ''firmware'') (- EINVAL)) (\<lambda>_.
     bind_res (cfe_bootfs_loop fuel p m 0) (\<lambda>_.
     bind_res (find_rootfs p m (mtd_erasesize m)) (\<lambda>(r, t).
     bind_res (require (pf_alloc p 0) (- ENOMEM)) (\<lambda>_.
       Ret (kernel_rootfs ''bootfs'' (rootfs_name t) m r)))))"

section \<open>What the splitters promise\<close>

definition split_sound :: "platform \<Rightarrow> mtd_info \<Rightarrow> mtd_partition list \<Rightarrow> bool" where
  "split_sound p m parts =
     (case parts of
        [k, r] \<Rightarrow> part_offset k = 0 \<and> part_size k = part_offset r
          \<and> part_offset r + part_size r = mtd_size m \<and> 0 < part_size r
          \<and> has_rootfs p m (part_offset r)
      | _ \<Rightarrow> False)"

lemma find_rootfs_Ret:
  assumes "mtd_ok p m" "find_rootfs p m start = Ret (r, t)"
  shows "start \<le> r \<and> r < mtd_size m \<and> mtd_check_rootfs_magic p m r = Ret t"
proof -
  have "sz p (int (mtd_size m)) = mtd_size m"
    using assms(1) by (intro sz_id) (auto simp: mtd_ok_def)
  then show ?thesis
    using assms find_rootfs_from_spec [OF assms(1), of "mtd_size m" start]
    by (auto simp: find_rootfs_def)
qed

lemma find_rootfs_ends:
  assumes "mtd_ok p m"
  shows "find_rootfs p m start \<noteq> Diverges \<and> find_rootfs p m start \<noteq> Fault"
proof -
  have "sz p (int (mtd_size m)) = mtd_size m"
    using assms(1) by (intro sz_id) (auto simp: mtd_ok_def)
  then show ?thesis
    using find_rootfs_from_spec [OF assms(1), of "mtd_size m" start]
    by (auto simp: find_rootfs_def split: res.splits)
qed

lemma kernel_rootfs_sound:
  assumes "mtd_ok p m" "find_rootfs p m start = Ret (r, t)"
  shows "split_sound p m (kernel_rootfs kname rname m r)"
proof -
  have "start \<le> r \<and> r < mtd_size m \<and> mtd_check_rootfs_magic p m r = Ret t"
    by (rule find_rootfs_Ret [OF assms])
  moreover have "mtd_size m \<le> 2 ^ 32" using assms(1) by (simp add: mtd_ok_def)
  ultimately show ?thesis
    by (simp add: split_sound_def kernel_rootfs_def has_rootfs_def u64_diff32)
qed

text \<open>
  The contract of a splitter that cuts the device where a search found the root file system.
\<close>

locale rootfs_splitter =
  fixes parse :: "platform \<Rightarrow> mtd_info \<Rightarrow> mtd_partition list res"
    and front :: string
  assumes parse_splits:
    "parse p m = Ret parts
      \<Longrightarrow> \<exists>start r t rname. find_rootfs p m start = Ret (r, t) \<and> rname \<in> {ROOTFS_PART_NAME, rootfs_name t}
            \<and> parts = kernel_rootfs front rname m r"
begin

lemma sound: "mtd_ok p m \<Longrightarrow> parse p m = Ret parts \<Longrightarrow> split_sound p m parts"
  using kernel_rootfs_sound parse_splits by blast

lemma names:
  "parse p m = Ret parts \<Longrightarrow> map part_name parts \<in> {[front, ROOTFS_PART_NAME], [front, UBI_PART_NAME]}"
  using parse_splits by (fastforce simp: kernel_rootfs_def rootfs_name_def)

end

lemmas parse_simps = case_prod_unfold Let_def

interpretation lzma: rootfs_splitter mtdsplit_parse_lzma KERNEL_PART_NAME
  by unfold_locales (force simp: mtdsplit_parse_lzma_def parse_simps)

interpretation minor: rootfs_splitter mtdsplit_parse_minor KERNEL_PART_NAME
  by unfold_locales (force simp: mtdsplit_parse_minor_def parse_simps)

interpretation wrgg: rootfs_splitter mtdsplit_parse_wrgg KERNEL_PART_NAME
  by unfold_locales (force simp: mtdsplit_parse_wrgg_def parse_simps)

interpretation elf: rootfs_splitter mtdsplit_parse_elf KERNEL_PART_NAME
  by unfold_locales (force simp: mtdsplit_parse_elf_def parse_simps)

interpretation seil: rootfs_splitter "mtdsplit_parse_seil_fw env" KERNEL_PART_NAME for env
  by unfold_locales (force simp: mtdsplit_parse_seil_fw_def parse_simps)

interpretation h3c: rootfs_splitter mtdsplit_h3c_vfs_parse KERNEL_PART_NAME
  by unfold_locales (force simp: mtdsplit_h3c_vfs_parse_def parse_simps)

interpretation cfe: rootfs_splitter "mtdsplit_cfe_bootfs_parse fuel" "''bootfs''" for fuel
  by unfold_locales (force simp: mtdsplit_cfe_bootfs_parse_def parse_simps)

text \<open>
  C22. Whatever the flash contains, a splitter that succeeds returns two partitions that
  divide the device: the first starts at 0, the second follows it without a gap, is not empty,
  ends at the end of the device, and starts with the magic number of a root file system.
\<close>

theorem header_splitters_sound:
  assumes "mtd_ok p m"
    and "parse \<in> {mtdsplit_parse_lzma, mtdsplit_parse_minor, mtdsplit_parse_wrgg, mtdsplit_parse_elf,
           mtdsplit_parse_seil_fw env, mtdsplit_h3c_vfs_parse, mtdsplit_cfe_bootfs_parse fuel}"
    and "parse p m = Ret parts"
  shows "split_sound p m parts"
  using assms by (auto intro: lzma.sound minor.sound wrgg.sound elf.sound seil.sound h3c.sound cfe.sound)

definition lzma_image :: bytes where
  "lzma_image = [0x5d, 0, 0, 0x80, 0, 1, 0, 0, 0, 0, 0, 0, 0, 0, 0, 0,
     9, 9, 9, 9, 9, 9, 9, 9, 9, 9, 9, 9, 9, 9, 9, 9,
     0x68, 0x73, 0x71, 0x73, 5, 5, 5, 5, 5, 5, 5, 5, 5, 5, 5, 5]"

lemma lzma_image_search:
  "find_rootfs host64 (ram_mtd 16 lzma_image) 16 = Ret (32, MTDSPLIT_PART_TYPE_SQUASHFS)"
  by (simp add: find_rootfs_def search_eval ram_mtd_def host64_def lzma_image_def)

lemma lzma_image_splits:
  "mtdsplit_parse_lzma host64 (ram_mtd 16 lzma_image)
   = Ret (kernel_rootfs KERNEL_PART_NAME ROOTFS_PART_NAME (ram_mtd 16 lzma_image) 32)"
proof -
  have "read_exact (ram_mtd 16 lzma_image) 0 13 = Ret (take 13 lzma_image)"
    by (simp add: read_exact_def ram_mtd_def loff_def lzma_image_def)
  moreover have "byte_at (take 13 lzma_image) 0 = 0x5d" "get_le32 (take 13 lzma_image) 1 = 0x800000"
    "get_le32 (take 13 lzma_image) 9 = 0"
    by (simp_all add: lzma_image_def get_le32_def get_le16_def byte_at_def)
  moreover have "is_power_of_2 0x800000" by (simp add: is_power_of_2_def)
  moreover have "mtd_erasesize (ram_mtd 16 lzma_image) = 16" by (simp add: ram_mtd_def)
  moreover have "pf_alloc host64 0" by (simp add: host64_def)
  ultimately show ?thesis
    by (simp add: mtdsplit_parse_lzma_def lzma_image_search require_def)
qed

theorem header_splitters_sound_witness:
  "split_sound host64 (ram_mtd 16 lzma_image)
     (kernel_rootfs KERNEL_PART_NAME ROOTFS_PART_NAME (ram_mtd 16 lzma_image) 32)"
proof -
  have "mtd_ok host64 (ram_mtd 16 lzma_image)"
    by (simp add: mtd_ok_def host64_def ram_mtd_def lzma_image_def)
  from header_splitters_sound [OF this, of mtdsplit_parse_lzma None 0, OF _ lzma_image_splits]
  show ?thesis by simp
qed

section \<open>Ending\<close>

text \<open>
  What is documented of \<^verbatim>\<open>mtd_read\<close>: it refuses a range that is not inside the device.
\<close>

definition reads_inside :: "mtd_info \<Rightarrow> bool" where
  "reads_inside m = (\<forall>ofs len b. mtd_rd m ofs len = (0, b) \<longrightarrow> 0 \<le> ofs \<and> ofs + int len \<le> int (mtd_size m))"

lemma read_exact_inside:
  assumes "reads_inside m" "read_exact m ofs len = Ret b" "ofs < 2 ^ 64"
  shows "ofs + len \<le> mtd_size m"
proof -
  have "mtd_rd m (loff ofs) len = (0, b)"
    using assms(2) by (auto simp: read_exact_def Let_def split: prod.splits if_splits)
  then have "0 \<le> loff ofs \<and> loff ofs + int len \<le> int (mtd_size m)"
    using assms(1) by (auto simp: reads_inside_def)
  then show ?thesis using assms(3) by (simp add: loff_def split: if_splits)
qed

lemma read_exact_not [simp]: "read_exact m ofs len \<noteq> Diverges" "read_exact m ofs len \<noteq> Fault"
  by (auto simp: read_exact_def Let_def split: prod.splits if_splits)

lemma elf_ph_loop_ends:
  assumes rd: "\<And>e. rd e \<noteq> Diverges \<and> rd e \<noteq> Fault" "\<And>e b. rd e = Ret b \<Longrightarrow> e < 2 ^ 64 \<Longrightarrow> e < s"
    and "0 < es" "s + es \<le> 2 ^ 32" "32 \<le> pf_size_bits p"
  shows "0 < fuel \<Longrightarrow> e < 2 ^ 64 \<Longrightarrow> s + 2 \<le> fuel + e
    \<Longrightarrow> elf_ph_loop fuel p rd es e tend len \<noteq> Diverges \<and> elf_ph_loop fuel p rd es e tend len \<noteq> Fault"
proof (induction fuel arbitrary: e len)
  case (Suc fuel)
  show ?case
  proof (cases "\<exists>b. rd e = Ret b")
    case True
    then have "e < s" using rd(2) Suc.prems(2) by blast
    then have next_e: "sz p (int (e + es)) = e + es" using assms by (intro sz_id) auto
    have "0 < fuel" "e + es < 2 ^ 64" "s + 2 \<le> fuel + (e + es)"
      using Suc.prems \<open>e < s\<close> assms(3,4) by auto
    from Suc.IH [OF this] show ?thesis using rd(1) next_e by (auto simp del: of_nat_add)
  next
    case False
    then show ?thesis using rd(1) [of e] by (cases "rd e") auto
  qed
qed simp


lemma get_16_lt [simp]: "get_le16 b i < 65536" "get_be16 b i < 65536"
proof -
  have "unat x < 256" for x :: u8 using unsigned_less [of x, where ?'a = nat] by simp
  from this [of "byte_at b i"] this [of "byte_at b (i + 1)"]
  show "get_le16 b i < 65536" "get_be16 b i < 65536"
    unfolding get_le16_def get_be16_def by linarith+
qed

lemma get_32_lt [simp]: "get_le32 b i < 2 ^ 32" "get_be32 b i < 2 ^ 32"
  using get_16_lt [of b i] get_16_lt [of b "i + 2"] by (simp_all add: get_le32_def get_be32_def del: get_16_lt)

lemma get_64_lt [simp]: "get_le64 b i < 2 ^ 64" "get_be64 b i < 2 ^ 64"
  using get_32_lt [of b i] get_32_lt [of b "i + 4"] by (simp_all add: get_le64_def get_be64_def del: get_32_lt)

lemma get_cpu_lt [simp]: "get_cpu16 p b i < 65536" "get_cpu32 p b i < 2 ^ 32" "get_cpu64 p b i < 2 ^ 64"
  using get_32_lt [of b i] get_64_lt [of b i] by (simp_all add: get_cpu16_def get_cpu32_def get_cpu64_def del: get_32_lt get_64_lt)

lemma sz_lt: "pf_size_bits p \<le> 64 \<Longrightarrow> sz p i < 2 ^ 64"
proof -
  assume "pf_size_bits p \<le> 64"
  then have "(2 :: int) ^ pf_size_bits p \<le> 2 ^ 64" by (intro power_increasing) auto
  moreover have "i mod 2 ^ pf_size_bits p < 2 ^ pf_size_bits p" by simp
  ultimately have "i mod 2 ^ pf_size_bits p < 2 ^ 64" by linarith
  then show ?thesis by (simp add: sz_def nat_less_iff)
qed

lemma elf_loader_size_ends:
  assumes "mtd_ok p m" "reads_inside m" "pf_size_bits p \<le> 64" "mtd_size m + 65536 \<le> 2 ^ 32"
  shows "elf_loader_size p m hdr \<noteq> Diverges \<and> elf_loader_size p m hdr \<noteq> Fault"
proof -
  have bits: "32 \<le> pf_size_bits p" using assms(1) by (simp add: mtd_ok_def)
  have rd32: "elf32_segment_end p m e \<noteq> Diverges \<and> elf32_segment_end p m e \<noteq> Fault"
    "elf32_segment_end p m e = Ret b \<Longrightarrow> e < 2 ^ 64 \<Longrightarrow> e < mtd_size m" for e b
    using read_exact_inside [OF assms(2), of e 28] by (auto simp: elf32_segment_end_def)
  have rd64: "elf64_segment_end p m e \<noteq> Diverges \<and> elf64_segment_end p m e \<noteq> Fault"
    "elf64_segment_end p m e = Ret b \<Longrightarrow> e < 2 ^ 64 \<Longrightarrow> e < mtd_size m" for e b
    using read_exact_inside [OF assms(2), of e 48] by (auto simp: elf64_segment_end_def)
  have es: "mtd_size m + get_cpu16 p hdr i \<le> 2 ^ 32" for i
    using get_cpu_lt(1) [of p hdr i] assms(4) by linarith
  have "elf32_determine_size p m hdr \<noteq> Diverges \<and> elf32_determine_size p m hdr \<noteq> Fault"
  proof (cases "get_cpu16 p hdr 42 = 0")
    case True
    then show ?thesis using get_cpu_lt(2) [of p hdr 28]
      by (simp add: elf32_determine_size_def Let_def to_s32_def to_u32_of_nat)
  next
    case False
    have "get_cpu32 p hdr 28 < 2 ^ 64" using get_cpu_lt(2) [of p hdr 28] by simp
    then show ?thesis
      using elf_ph_loop_ends [of "elf32_segment_end p m" "mtd_size m" "get_cpu16 p hdr 42" p
          "mtd_size m + 2", OF rd32 _ es bits] False
      by (simp add: elf32_determine_size_def Let_def)
  qed
  moreover have "elf64_determine_size p m hdr \<noteq> Diverges \<and> elf64_determine_size p m hdr \<noteq> Fault"
  proof (cases "get_cpu16 p hdr 54 = 0")
    case True
    then show ?thesis using get_cpu_lt(3) [of p hdr 32]
      by (simp add: elf64_determine_size_def Let_def to_s32_def u64_id)
  next
    case False
    then show ?thesis
      using elf_ph_loop_ends [of "elf64_segment_end p m" "mtd_size m" "get_cpu16 p hdr 54" p
          "mtd_size m + 2", OF rd64 _ es bits] sz_lt [OF assms(3)]
      by (simp add: elf64_determine_size_def Let_def)
  qed
  ultimately show ?thesis by (simp add: elf_loader_size_def)
qed

lemma split_eq_ends [simp]: "split_eq cs \<noteq> Diverges"
  by (induction cs) auto

lemma str_eq_at_ends [simp]: "str_eq_at s cs \<noteq> Diverges"
  by (induction s cs rule: str_eq_at.induct) auto

lemma seil_env_loop_ends: "seil_env_loop devnm var \<noteq> Diverges"
proof (induction devnm var rule: seil_env_loop.induct)
  case (1 devnm var)
  then show ?case
    by (subst seil_env_loop.simps) (auto split: res.splits option.splits)
qed

lemma seil_active_ends: "seil_bootdev_is_active p env np \<noteq> Diverges"
  by (auto simp: seil_bootdev_is_active_def seil_env_loop_ends split: sum.splits option.splits res.splits)

lemma wrgg_kernel_size_ends [simp]: "wrgg_kernel_size p m hdr \<noteq> Diverges"
  by (simp add: wrgg_kernel_size_def Let_def)

text \<open>
  The splitters end: on a device that refuses reads outside its size, with any content and
  any read errors, none of the loops of these splitters runs forever, the walk over the ELF
  program headers and over the boot loader environment included.
\<close>

theorem header_splitters_end:
  assumes "mtd_ok p m" "reads_inside m" "pf_size_bits p \<le> 64" "mtd_size m + 65536 \<le> 2 ^ 32"
    and "parse \<in> {mtdsplit_parse_lzma, mtdsplit_parse_minor, mtdsplit_parse_wrgg, mtdsplit_parse_elf,
           mtdsplit_parse_seil_fw env, mtdsplit_h3c_vfs_parse}"
  shows "parse p m \<noteq> Diverges"
proof -
  have "find_rootfs p m start \<noteq> Diverges" for start using find_rootfs_ends [OF assms(1)] by blast
  moreover have "elf_loader_size p m hdr \<noteq> Diverges" for hdr
    using elf_loader_size_ends [OF assms(1-4)] by blast
  ultimately show ?thesis
    using assms(5) seil_active_ends
    by (auto simp: mtdsplit_parse_lzma_def mtdsplit_parse_minor_def mtdsplit_parse_wrgg_def
        mtdsplit_parse_elf_def mtdsplit_parse_seil_fw_def mtdsplit_h3c_vfs_parse_def parse_simps
        split: sum.splits)
qed

lemma ram_mtd_reads_inside: "reads_inside (ram_mtd eb data)"
  by (auto simp: reads_inside_def ram_mtd_def split: if_splits)

theorem header_splitters_end_witness:
  "mtdsplit_parse_elf host64 (ram_mtd 16 lzma_image) \<noteq> Diverges"
proof -
  have "mtd_ok host64 (ram_mtd 16 lzma_image)" "pf_size_bits host64 \<le> 64"
    "mtd_size (ram_mtd 16 lzma_image) + 65536 \<le> 2 ^ 32"
    by (simp_all add: mtd_ok_def host64_def ram_mtd_def lzma_image_def)
  from header_splitters_end [OF this(1) ram_mtd_reads_inside this(2,3), of mtdsplit_parse_elf None]
  show ?thesis by simp
qed

section \<open>The end of an ELF loader\<close>

lemma elf_ph_loop_covers:
  assumes rd: "\<And>e b. rd e = Ret b \<Longrightarrow> e < 2 ^ 64 \<Longrightarrow> e < s"
    and "s + es \<le> 2 ^ 32" "32 \<le> pf_size_bits p" "e < 2 ^ 64"
    and "elf_ph_loop fuel p rd es e tend len = Ret l"
  shows "len \<le> l \<and> (\<forall>k. e + k * es < tend \<longrightarrow> (\<exists>b. rd (e + k * es) = Ret b \<and> b \<le> l))"
  using assms(4,5)
proof (induction fuel arbitrary: e len)
  case (Suc fuel)
  show ?case
  proof (cases "e < tend")
    case True
    then obtain b where b: "rd e = Ret b"
      and loop: "elf_ph_loop fuel p rd es (sz p (int (e + es))) tend (max len b) = Ret l"
      using Suc.prems by auto
    have "e < s" using rd b Suc.prems by blast
    then have next_e: "sz p (int (e + es)) = e + es" "e + es < 2 ^ 64"
      using assms(2,3) sz_id [of p "e + es"] by simp_all
    note ih = Suc.IH [OF next_e(2) loop [unfolded next_e(1)]]
    have "\<exists>c. rd (e + k * es) = Ret c \<and> c \<le> l" if "e + k * es < tend" for k
    proof (cases k)
      case 0
      then show ?thesis using b ih by auto
    next
      case (Suc j)
      then show ?thesis using ih that by (auto simp: add.assoc)
    qed
    then show ?thesis using ih by auto
  next
    case False
    then show ?thesis using Suc.prems by auto
  qed
qed simp

text \<open>
  The root file system never overlaps the loader: for a 32 bit ELF loader without a
  section table whose program header table does not overflow, every program header was read and
  the segment it describes ends at or before the start of the second partition.
\<close>

theorem elf32_rootfs_behind_segments:
  assumes "mtd_ok p m" "reads_inside m" "mtd_size m + 65536 \<le> 2 ^ 32"
    and hdr: "read_exact m 0 64 = Ret hdr" "byte_at hdr 4 = 1" "get_cpu32 p hdr 32 = 0"
    and parts: "mtdsplit_parse_elf p m = Ret parts"
    and k: "k < get_cpu16 p hdr 44" "get_cpu32 p hdr 28 + get_cpu16 p hdr 42 * get_cpu16 p hdr 44 < 2 ^ 31"
      "0 < get_cpu16 p hdr 42"
  shows "\<exists>e. elf32_segment_end p m (get_cpu32 p hdr 28 + k * get_cpu16 p hdr 42) = Ret e
           \<and> e \<le> part_offset (parts ! 1)"
proof -
  define phoff es num where d: "phoff = get_cpu32 p hdr 28" "es = get_cpu16 p hdr 42" "num = get_cpu16 p hdr 44"
  have bits: "32 \<le> pf_size_bits p" using assms(1) by (simp add: mtd_ok_def)
  have sum: "phoff + es * num < 2 ^ 31" using k(2) by (simp add: d)
  obtain l r t where l: "elf32_determine_size p m hdr = Ret l" "find_rootfs p m l = Ret (r, t)"
    "parts ! 1 = kernel_rootfs KERNEL_PART_NAME (rootfs_name t) m r ! 1"
    using parts hdr by (auto simp: mtdsplit_parse_elf_def elf_loader_size_def parse_simps)
  then have r: "l \<le> r" "part_offset (parts ! 1) = r"
    using find_rootfs_Ret [OF assms(1) l(2)] by (auto simp: kernel_rootfs_def)
  have "es * num < 2147483648" using sum by simp
  then have "int (es * num) < 2147483648" by (simp only: of_nat_less_numeral_iff)
  then have "to_s32 (int (es * num)) = int (es * num)" by (intro to_s32_id) linarith+
  then have "to_u32 (int phoff + to_s32 (int (es * num))) = phoff + es * num"
    using sum to_u32_of_nat [of "phoff + es * num"] by simp
  then have "elf_ph_loop (mtd_size m + 2) p (elf32_segment_end p m) es phoff (phoff + es * num) 0 = Ret l"
    using l(1) hdr(3) by (simp add: elf32_determine_size_def Let_def d del: elf_ph_loop.simps)
  moreover have "elf32_segment_end p m e = Ret b \<Longrightarrow> e < 2 ^ 64 \<Longrightarrow> e < mtd_size m" for e b
    using read_exact_inside [OF assms(2), of e 28] by (auto simp: elf32_segment_end_def)
  moreover have "mtd_size m + es \<le> 2 ^ 32" using get_cpu_lt(1) [of p hdr 42] assms(3) unfolding d by linarith
  ultimately have cover: "\<forall>j. phoff + j * es < phoff + es * num
      \<longrightarrow> (\<exists>b. elf32_segment_end p m (phoff + j * es) = Ret b \<and> b \<le> l)"
    using sum elf_ph_loop_covers [OF _ _ bits, of "elf32_segment_end p m" "mtd_size m" es phoff] by (simp del: elf_ph_loop.simps)
  have "k * es < es * num" using k by (simp add: d)
  then show ?thesis using cover r by (fastforce simp: d)
qed

lemma elf_ph_loop_numeral:
  "elf_ph_loop (numeral k) p rd es e tend len =
     (if e < tend then
        bind_res (rd e) (\<lambda>b. elf_ph_loop (pred_numeral k) p rd es (sz p (int (e + es))) tend (max len b))
      else Ret len)"
  by (simp add: numeral_eq_Suc)

definition elf_image :: bytes where
  "elf_image = [127, 69, 76, 70, 1, 1, 1, 0, 0, 0, 0, 0, 0, 0, 0, 0, 0, 0, 0, 0, 0, 0, 0, 0, 0, 0, 0, 0,
     64, 0, 0, 0, 0, 0, 0, 0, 0, 0, 0, 0, 52, 0, 28, 0, 1, 0, 0, 0, 0, 0, 0, 0, 0, 0, 0, 0,
     0, 0, 0, 0, 0, 0, 0, 0, 1, 0, 0, 0, 0, 0, 0, 0, 0, 0, 0, 0, 0, 0, 0, 0, 92, 0, 0, 0,
     0, 0, 0, 0, 0, 0, 0, 0, 7, 7, 7, 7, 104, 115, 113, 115, 5, 5, 5, 5, 5, 5, 5, 5, 5, 5, 5, 5]"

lemma elf_image_header:
  "read_exact (ram_mtd 16 elf_image) 0 64 = Ret (take 64 elf_image)"
  "read_exact (ram_mtd 16 elf_image) 64 28 = Ret (take 28 (drop 64 elf_image))"
  by (simp_all add: read_exact_def ram_mtd_def loff_def elf_image_def)

lemmas field_eval = get_cpu16_def get_cpu32_def get_le32_def get_le16_def get_be32_def get_be16_def byte_at_def

lemma elf_image_fields:
  "get_be32 (take 64 elf_image) 0 = ELF_MAGIC" "byte_at (take 64 elf_image) 4 = 1"
  "get_cpu32 host64 (take 64 elf_image) 32 = 0" "get_cpu32 host64 (take 64 elf_image) 28 = 64"
  "get_cpu16 host64 (take 64 elf_image) 42 = 28" "get_cpu16 host64 (take 64 elf_image) 44 = 1"
  by (simp_all add: elf_image_def field_eval host64_def ELF_MAGIC_def)

lemma elf_image_segment: "elf32_segment_end host64 (ram_mtd 16 elf_image) 64 = Ret 92"
  unfolding elf32_segment_end_def mtdsplit_elf_read_mtd_def elf_image_header
  by (simp add: elf_image_def field_eval host64_def to_u32_def)

lemma elf_image_search:
  "find_rootfs host64 (ram_mtd 16 elf_image) 92 = Ret (96, MTDSPLIT_PART_TYPE_SQUASHFS)"
  by (simp add: find_rootfs_def search_eval ram_mtd_def host64_def elf_image_def)

lemma elf_image_splits:
  "mtdsplit_parse_elf host64 (ram_mtd 16 elf_image)
   = Ret (kernel_rootfs KERNEL_PART_NAME ROOTFS_PART_NAME (ram_mtd 16 elf_image) 96)"
proof -
  have m: "mtd_size (ram_mtd 16 elf_image) = 112" by (simp add: ram_mtd_def elf_image_def)
  have "sz host64 92 = 92" by (simp add: sz_def host64_def)
  then have "elf32_determine_size host64 (ram_mtd 16 elf_image) (take 64 elf_image) = Ret 92"
    by (simp add: elf32_determine_size_def elf_image_fields elf_ph_loop_numeral elf_image_segment m
        to_u32_def to_s32_def Let_def del: elf_ph_loop.simps)
  moreover have "pf_alloc host64 0" by (simp add: host64_def)
  ultimately show ?thesis
    by (simp add: mtdsplit_parse_elf_def elf_loader_size_def elf_image_header elf_image_fields
        elf_image_search require_def rootfs_name_def m)
qed

theorem elf32_rootfs_behind_segments_witness:
  "\<exists>e. elf32_segment_end host64 (ram_mtd 16 elf_image) 64 = Ret e \<and> e \<le> 96"
proof -
  have "mtd_ok host64 (ram_mtd 16 elf_image)" "mtd_size (ram_mtd 16 elf_image) + 65536 \<le> 2 ^ 32"
    by (simp_all add: mtd_ok_def host64_def ram_mtd_def elf_image_def)
  from elf32_rootfs_behind_segments [OF this(1) ram_mtd_reads_inside this(2) elf_image_header(1)
      elf_image_fields(2,3) elf_image_splits, of 0]
  show ?thesis by (simp add: elf_image_fields kernel_rootfs_def)
qed

text \<open>
  The walk over the boot file system can hang: if the first node of the device has the
  right magic number and the length 0, the position never moves and the splitter never
  returns, with any amount of fuel.
\<close>

theorem cfe_bootfs_zero_node_hangs:
  assumes "mtd_name m = ''firmware''" "0 < mtd_size m"
    and "read_exact m 0 40 = Ret node" "get_cpu16 p node 0 = 0x1985" "get_cpu32 p node 4 = 0"
    and "32 \<le> pf_size_bits p"
  shows "mtdsplit_cfe_bootfs_parse fuel p m = Diverges"
proof -
  have "sz p 0 = 0" "sz p (int (0 + 3)) = 3" using sz_id [of p 0] sz_id [of p 3] assms(6) by simp_all
  then have "cfe_bootfs_loop fuel p m 0 = Diverges"
    using assms by (induction fuel) (simp_all add: Let_def)
  then show ?thesis using assms(1) by (simp add: mtdsplit_cfe_bootfs_parse_def require_def)
qed

definition zero_node :: bytes where
  "zero_node = [0x85, 0x19] @ replicate 46 0"

theorem cfe_bootfs_zero_node_hangs_witness:
  "mtdsplit_cfe_bootfs_parse 1000 host64 (ram_mtd 16 zero_node) = Diverges"
proof (rule cfe_bootfs_zero_node_hangs)
  show "mtd_name (ram_mtd 16 zero_node) = ''firmware''" "0 < mtd_size (ram_mtd 16 zero_node)"
    by (simp_all add: ram_mtd_def zero_node_def)
  show "read_exact (ram_mtd 16 zero_node) 0 40 = Ret (take 40 zero_node)"
    by (simp add: read_exact_def ram_mtd_def loff_def zero_node_def)
  show "get_cpu16 host64 (take 40 zero_node) 0 = 0x1985" "get_cpu32 host64 (take 40 zero_node) 4 = 0"
    by (simp_all add: zero_node_def get_cpu16_def get_cpu32_def get_le32_def get_le16_def byte_at_def
        host64_def nth_append nth_Cons')
qed (simp add: host64_def)

end
