(* ===== verification/Mtdsplit_Img.thy ===== *)
theory Mtdsplit_Img
  imports Mtdsplit_Fw
begin

unbundle bit_operations_syntax

text \<open>
  The splitters that look for an image on every erase block (\<^verbatim>\<open>mtdsplit_uimage.c\<close>,
  \<^verbatim>\<open>mtdsplit_jimage.c\<close>, \<^verbatim>\<open>mtdsplit_trx.c\<close>) and those that take the position of the
  root file system from a header (\<^verbatim>\<open>mtdsplit_tplink.c\<close>, \<^verbatim>\<open>mtdsplit_seama.c\<close>,
  \<^verbatim>\<open>mtdsplit_eva.c\<close>, \<^verbatim>\<open>mtdsplit_brnimage.c\<close>, \<^verbatim>\<open>mtdsplit_owrt_prolog.c\<close>).
\<close>

section \<open>Scanning the erase blocks\<close>

text \<open>
  The loop the three scanning splitters share. \<open>probe ofs\<close> is the header found at \<open>ofs\<close>, if
  any, with the size of the image it announces. \<open>last\<close> holds the variables of the loop after
  the previous iteration: size 0 if there was no header, and the announced size if the image
  was too large.
\<close>

fun scan_blocks ::
  "nat \<Rightarrow> platform \<Rightarrow> mtd_info \<Rightarrow> (nat \<Rightarrow> (nat \<times> bytes) option) \<Rightarrow> nat \<Rightarrow> nat \<times> bytes
     \<Rightarrow> (nat \<times> nat \<times> bytes) res" where
  "scan_blocks 0 p m probe ofs last_hdr = Diverges"
| "scan_blocks (Suc fuel) p m probe ofs last_hdr =
     (if ofs < mtd_size m then
        (let next_ofs = sz p (int (ofs + mtd_erasesize m))
         in case probe ofs of
              None \<Rightarrow> scan_blocks fuel p m probe next_ofs (0, [])
            | Some (s, hdr) \<Rightarrow>
                if sz p (int (ofs + s)) > mtd_size m
                then scan_blocks fuel p m probe next_ofs (s, hdr)
                else Ret (ofs, s, hdr))
      else Ret (ofs, last_hdr))"

definition find_image ::
  "platform \<Rightarrow> mtd_info \<Rightarrow> (nat \<Rightarrow> (nat \<times> bytes) option) \<Rightarrow> (nat \<times> nat \<times> bytes) res" where
  "find_image p m probe = scan_blocks (mtd_size m div mtd_erasesize m + 2) p m probe 0 (0, [])"

text \<open>
  The partitions around an image at \<open>ofs\<close>: at the start of the device the root file system is
  searched behind the image, otherwise it has to be at the start.
\<close>

definition split_around ::
  "int option \<Rightarrow> platform \<Rightarrow> mtd_info \<Rightarrow> nat \<Rightarrow> nat \<Rightarrow> mtd_partition list res" where
  "split_around no_rootfs p m ofs s =
     (if ofs = 0 then
        bind_res (find_rootfs p m (sz p (int (ofs + s)))) (\<lambda>(r, t).
          let rootfs_size = sz p (int (mtd_size m) - int r)
          in bind_res (require (rootfs_size \<noteq> 0) (- ENOENT)) (\<lambda>_.
               Ret [\<lparr>part_name = KERNEL_PART_NAME, part_offset = ofs, part_size = sz p (int r - int ofs)\<rparr>,
                    \<lparr>part_name = rootfs_name t, part_offset = r, part_size = rootfs_size\<rparr>]))
      else
        bind_res (case no_rootfs of
                    None \<Rightarrow> mtd_check_rootfs_magic p m 0
                  | Some e \<Rightarrow> fail_with e (mtd_check_rootfs_magic p m 0)) (\<lambda>t.
          Ret [\<lparr>part_name = rootfs_name t, part_offset = 0, part_size = ofs\<rparr>,
               \<lparr>part_name = KERNEL_PART_NAME, part_offset = ofs, part_size = s\<rparr>]))"

section \<open>U-Boot images\<close>

abbreviation (input) IH_MAGIC :: nat where "IH_MAGIC \<equiv> 0x27051956"
abbreviation (input) IH_OS_LINUX :: nat where "IH_OS_LINUX \<equiv> 5"
abbreviation (input) IH_TYPE_KERNEL :: nat where "IH_TYPE_KERNEL \<equiv> 2"

record uimage_dt =
  ui_extralen :: int
  ui_ih_magic :: nat
  ui_ih_type :: nat
  ui_header_offset :: nat
  ui_part_magic :: nat

definition dt_or :: "of_node \<Rightarrow> string \<Rightarrow> nat \<Rightarrow> nat" where
  "dt_or n name dflt = (case of_u32 n name of Inl _ \<Rightarrow> dflt | Inr v \<Rightarrow> v)"

definition uimage_parse_dt :: "mtd_info \<Rightarrow> uimage_dt" where
  "uimage_parse_dt m =
     (let dflt = \<lparr>ui_extralen = 0, ui_ih_magic = IH_MAGIC, ui_ih_type = IH_TYPE_KERNEL,
                  ui_header_offset = 0, ui_part_magic = 0\<rparr>
      in case mtd_np m of
           None \<Rightarrow> dflt
         | Some n \<Rightarrow>
             if \<not> of_compatible n ''openwrt,uimage'' then dflt
             else \<lparr>ui_extralen = to_s32 (int (dt_or n ''openwrt,padding'' 0)),
                   ui_ih_magic = dt_or n ''openwrt,ih-magic'' IH_MAGIC,
                   ui_ih_type = dt_or n ''openwrt,ih-type'' IH_TYPE_KERNEL,
                   ui_header_offset = dt_or n ''openwrt,offset'' 0,
                   ui_part_magic = dt_or n ''openwrt,partition-magic'' 0\<rparr>)"

definition read_uimage_header :: "mtd_info \<Rightarrow> nat \<Rightarrow> nat \<Rightarrow> bytes res" where
  "read_uimage_header m ofs header_len = read_exact m ofs header_len"

definition uimage_verify_default :: "bytes \<Rightarrow> nat \<Rightarrow> nat \<Rightarrow> bool" where
  "uimage_verify_default h ih_magic ih_type =
     (get_be32 h 0 = ih_magic \<and> unat (byte_at h 28) = IH_OS_LINUX \<and> unat (byte_at h 30) = ih_type)"

definition uimage_probe :: "platform \<Rightarrow> mtd_info \<Rightarrow> uimage_dt \<Rightarrow> nat \<Rightarrow> (nat \<times> bytes) option" where
  "uimage_probe p m dt ofs =
     (case read_uimage_header m ofs (sz p (int (64 + ui_header_offset dt))) of
        Ret buf \<Rightarrow>
          (let h = drop (ui_header_offset dt) buf
           in if ui_header_offset dt \<noteq> 0 \<and> ui_part_magic dt \<noteq> 0 \<and> get_be32 buf 0 \<noteq> ui_part_magic dt
              then None
              else if \<not> uimage_verify_default h (ui_ih_magic dt) (ui_ih_type dt) then None
              else Some (sz p (int (64 + get_be32 h 12 + ui_header_offset dt) + ui_extralen dt), h))
      | _ \<Rightarrow> None)"

definition mtdsplit_parse_uimage :: "platform \<Rightarrow> mtd_info \<Rightarrow> mtd_partition list res" where
  "mtdsplit_parse_uimage p m =
     bind_res (require (pf_alloc p 0) (- ENOMEM)) (\<lambda>_.
     bind_res (require (pf_alloc p 1) (- ENOMEM)) (\<lambda>_.
     bind_res (find_image p m (uimage_probe p m (uimage_parse_dt m))) (\<lambda>(ofs, s, hdr).
       if s = 0 then Ret [] else split_around (Some (- ENOENT)) p m ofs s)))"

section \<open>JBOOT images\<close>

definition read_jimage_header :: "mtd_info \<Rightarrow> nat \<Rightarrow> nat \<Rightarrow> bytes res" where
  "read_jimage_header m ofs header_len = read_exact m ofs header_len"

definition jimage_verify_default :: "platform \<Rightarrow> bytes \<Rightarrow> bool" where
  "jimage_verify_default p h =
     (get_cpu16 p h 2 = 0x2B24 \<and> get_cpu16 p h 16 = 0x2124 \<and> byte_at h 0 = byte_at h 1
      \<and> byte_at h 1 = 4 \<and> byte_at h 19 = 2)"

definition jimage_probe :: "platform \<Rightarrow> mtd_info \<Rightarrow> nat \<Rightarrow> (nat \<times> bytes) option" where
  "jimage_probe p m ofs =
     (case read_jimage_header m ofs 56 of
        Ret h \<Rightarrow>
          if jimage_verify_default p h then Some (sz p (int (56 + get_cpu32 p h 24)), h) else None
      | _ \<Rightarrow> None)"

definition mtdsplit_parse_jimage :: "platform \<Rightarrow> mtd_info \<Rightarrow> mtd_partition list res" where
  "mtdsplit_parse_jimage p m =
     bind_res (require (pf_alloc p 0) (- ENOMEM)) (\<lambda>_.
     bind_res (require (pf_alloc p 1) (- ENOMEM)) (\<lambda>_.
     bind_res (find_image p m (jimage_probe p m)) (\<lambda>(ofs, s, hdr).
       if s = 0 then Fail (- ENOENT) else split_around None p m ofs s)))"

section \<open>TRX images\<close>

definition TRX_MAGIC :: nat where "TRX_MAGIC = 0x30524448"

definition read_trx_header :: "mtd_info \<Rightarrow> nat \<Rightarrow> bytes res" where
  "read_trx_header m ofs = read_exact m ofs 32"

definition trx_probe :: "mtd_info \<Rightarrow> nat \<Rightarrow> (nat \<times> bytes) option" where
  "trx_probe m ofs =
     (case read_trx_header m ofs of
        Ret h \<Rightarrow> if get_le32 h 0 = TRX_MAGIC then Some (get_le32 h 4, h) else None
      | _ \<Rightarrow> None)"

text \<open>
  The two offsets of the header are used without conversion from little endian.
\<close>

definition mtdsplit_parse_trx :: "platform \<Rightarrow> mtd_info \<Rightarrow> mtd_partition list res" where
  "mtdsplit_parse_trx p m =
     bind_res (require (pf_alloc p 0) (- ENOMEM)) (\<lambda>_.
     bind_res (find_image p m (trx_probe m)) (\<lambda>(ofs, s, hdr).
       if s = 0 then Fail (- ENOENT)
       else
         (let trx_offset = sz p (int (ofs + get_cpu32 p hdr 16));
              rootfs_offset = sz p (int (ofs + get_cpu32 p hdr 20));
              rootfs_size = sz p (int (mtd_size m) - int rootfs_offset);
              trx_size = sz p (int rootfs_offset - int trx_offset)
          in bind_res (require (rootfs_size \<noteq> 0) (- ENOENT)) (\<lambda>_.
               Ret [\<lparr>part_name = KERNEL_PART_NAME, part_offset = trx_offset, part_size = trx_size\<rparr>,
                    \<lparr>part_name = ROOTFS_PART_NAME, part_offset = rootfs_offset,
                     part_size = rootfs_size\<rparr>]))))"

section \<open>TP-Link\<close>

definition TPLINK_MIN_ROOTFS_OFFS :: nat where "TPLINK_MIN_ROOTFS_OFFS = 0x80000"

text \<open>
  Kernel size and position of the root file system in the two versions of the header.
\<close>

definition tplink_fields :: "platform \<Rightarrow> bytes \<Rightarrow> (nat \<times> nat) res" where
  "tplink_fields p hdr =
     (if get_le32 hdr 0 = 1 then
        bind_res (require (get_be32 hdr 128 = 512) (- EINVAL)) (\<lambda>_.
          Ret (sz p (int (512 + get_be32 hdr 132)), get_be32 hdr 136))
      else if get_le32 hdr 0 = 2 \<or> get_le32 hdr 0 = 3 then
        bind_res (require (get_be32 hdr 116 = 512) (- EINVAL)) (\<lambda>_.
          Ret (sz p (int (512 + get_be32 hdr 120)), get_be32 hdr 124))
      else Fail (- EINVAL))"

text \<open>
  \<open>check_or_find\<close>: the root file system at \<open>ofs\<close>, and if there is none, the first one from
  \<open>start\<close> on.
\<close>

definition check_or_find ::
  "platform \<Rightarrow> mtd_info \<Rightarrow> nat \<Rightarrow> nat \<Rightarrow> (nat \<times> mtdsplit_part_type) res" where
  "check_or_find p m ofs start =
     (case mtd_check_rootfs_magic p m ofs of
        Ret t \<Rightarrow> Ret (ofs, t)
      | _ \<Rightarrow> find_rootfs p m start)"

definition mtdsplit_parse_tplink :: "platform \<Rightarrow> mtd_info \<Rightarrow> mtd_partition list res" where
  "mtdsplit_parse_tplink p m =
     bind_res (read_exact m 0 512) (\<lambda>hdr.
     bind_res (tplink_fields p hdr) (\<lambda>(kernel_size, ofs).
     bind_res (require (kernel_size \<le> mtd_size m) (- EINVAL)) (\<lambda>_.
     bind_res (check_or_find p m ofs TPLINK_MIN_ROOTFS_OFFS) (\<lambda>(r, t).
     bind_res (require (pf_alloc p 0) (- ENOMEM)) (\<lambda>_.
       Ret [\<lparr>part_name = KERNEL_PART_NAME, part_offset = 0, part_size = kernel_size\<rparr>,
            \<lparr>part_name = ROOTFS_PART_NAME, part_offset = r,
             part_size = u64 (int (mtd_size m) - int r)\<rparr>])))))"

section \<open>Seama\<close>

definition SEAMA_MAGIC :: nat where "SEAMA_MAGIC = 0x5EA3A417"
definition SEAMA_MIN_ROOTFS_OFFS :: nat where "SEAMA_MIN_ROOTFS_OFFS = 0x80000"

definition mtdsplit_parse_seama :: "platform \<Rightarrow> mtd_info \<Rightarrow> mtd_partition list res" where
  "mtdsplit_parse_seama p m =
     bind_res (read_exact m 0 28) (\<lambda>hdr.
     bind_res (require (get_be32 hdr 0 = SEAMA_MAGIC) (- EINVAL)) (\<lambda>_.
     let kernel_ent_size = sz p (int (28 + get_be32 hdr 8 + get_be16 hdr 6))
     in bind_res (require (kernel_ent_size \<le> mtd_size m) (- EINVAL)) (\<lambda>_.
     bind_res (check_or_find p m kernel_ent_size SEAMA_MIN_ROOTFS_OFFS) (\<lambda>(r, t).
     bind_res (require (pf_alloc p 0) (- ENOMEM)) (\<lambda>_.
       let k = u64 (int (28 + get_be16 hdr 6))
       in Ret [\<lparr>part_name = KERNEL_PART_NAME, part_offset = k, part_size = u64 (int r - int k)\<rparr>,
               \<lparr>part_name = rootfs_name t, part_offset = r,
                part_size = u64 (int (mtd_size m) - int r)\<rparr>])))))"

section \<open>EVA\<close>

definition EVA_MAGIC :: nat where "EVA_MAGIC = 0xfeed1281"
definition EVA_FOOTER_SIZE :: nat where "EVA_FOOTER_SIZE = 0x18"
definition EVA_DUMMY_SQUASHFS_SIZE :: nat where "EVA_DUMMY_SQUASHFS_SIZE = 0x100"

definition round_up :: "platform \<Rightarrow> nat \<Rightarrow> nat \<Rightarrow> nat" where
  "round_up p n a = sz p (int ((n + a - 1) div a * a))"

definition mtdsplit_parse_eva :: "platform \<Rightarrow> mtd_info \<Rightarrow> mtd_partition list res" where
  "mtdsplit_parse_eva p m =
     bind_res (read_exact m 0 8) (\<lambda>hdr.
     bind_res (require (get_le32 hdr 0 = EVA_MAGIC) (- EINVAL)) (\<lambda>_.
     let kernel_size = to_u32 (int (get_le32 hdr 4 + EVA_FOOTER_SIZE));
         rootfs_offset = sz p (int (round_up p kernel_size 0x10000 + EVA_DUMMY_SQUASHFS_SIZE))
     in bind_res (require (rootfs_offset < mtd_size m) (- EINVAL)) (\<lambda>_.
     bind_res (mtd_check_rootfs_magic p m rootfs_offset) (\<lambda>_.
     bind_res (require (pf_alloc p 0) (- ENOMEM)) (\<lambda>_.
       Ret [\<lparr>part_name = KERNEL_PART_NAME, part_offset = 0, part_size = kernel_size\<rparr>,
            \<lparr>part_name = ROOTFS_PART_NAME, part_offset = rootfs_offset,
             part_size = u64 (int (mtd_size m) - int rootfs_offset)\<rparr>])))))"

section \<open>brnImage\<close>

definition BRNIMAGE_ALIGN_BYTES :: nat where "BRNIMAGE_ALIGN_BYTES = 0x400"
definition BRNIMAGE_FOOTER_SIZE :: nat where "BRNIMAGE_FOOTER_SIZE = 12"
definition BRNIMAGE_MAX_OVERHEAD :: nat where
  "BRNIMAGE_MAX_OVERHEAD = BRNIMAGE_ALIGN_BYTES + BRNIMAGE_FOOTER_SIZE"

text \<open>
  \<open>ret\<close> is the result of the last check, 0 before the first.
\<close>

fun brn_scan :: "nat \<Rightarrow> platform \<Rightarrow> mtd_info \<Rightarrow> nat \<Rightarrow> int \<Rightarrow> (nat \<times> int) res" where
  "brn_scan 0 p m ofs ret = Diverges"
| "brn_scan (Suc fuel) p m ofs ret =
     (if ofs < mtd_size m then
        (case mtd_check_rootfs_magic p m ofs of
           Ret t \<Rightarrow> Ret (ofs, 0)
         | Fail e \<Rightarrow> brn_scan fuel p m (sz p (int (ofs + BRNIMAGE_ALIGN_BYTES))) e
         | Diverges \<Rightarrow> Diverges
         | Fault \<Rightarrow> Fault)
      else Ret (ofs, ret))"

definition mtdsplit_parse_brnimage :: "platform \<Rightarrow> mtd_info \<Rightarrow> mtd_partition list res" where
  "mtdsplit_parse_brnimage p m =
     bind_res (brn_scan (mtd_size m div BRNIMAGE_ALIGN_BYTES + 2) p m 0 0) (\<lambda>(r, ret).
     bind_res (require (ret = 0) ret) (\<lambda>_.
     bind_res (require (r < mtd_size m) (- EINVAL)) (\<lambda>_.
     bind_res (read_exact m (sz p (int r - int BRNIMAGE_FOOTER_SIZE)) 4) (\<lambda>buf.
     let kernel_size = get_le32 buf 0
     in bind_res (require (kernel_size \<le> sz p (int r - int BRNIMAGE_FOOTER_SIZE)) (- EINVAL)) (\<lambda>_.
     bind_res (require (kernel_size \<ge> sz p (int r - int BRNIMAGE_MAX_OVERHEAD)) (- EINVAL)) (\<lambda>_.
     bind_res (require (pf_alloc p 0) (- ENOMEM)) (\<lambda>_.
       Ret [\<lparr>part_name = KERNEL_PART_NAME, part_offset = 0, part_size = kernel_size\<rparr>,
            \<lparr>part_name = ROOTFS_PART_NAME, part_offset = r,
             part_size = sz p (int (mtd_size m) - int r - int BRNIMAGE_FOOTER_SIZE)\<rparr>])))))))"

section \<open>Executable prolog\<close>

definition OWRT_PROLOG_SIZE :: nat where "OWRT_PROLOG_SIZE = 512"
definition OWRT_PROLOG_MAX_OVERHEAD :: nat where "OWRT_PROLOG_MAX_OVERHEAD = 32"
definition OWRT_PROLOG_MAGIC :: string where "OWRT_PROLOG_MAGIC = ''OPENWRT-PROLOG-512''"

text \<open>
  \<open>kstrtol\<close> is the conversion function of the kernel, applied to the rest of the buffer.
\<close>

fun find_prolog :: "nat \<Rightarrow> bytes \<Rightarrow> nat \<Rightarrow> nat option" where
  "find_prolog 0 buf i = None"
| "find_prolog (Suc n) buf i =
     (if take (length OWRT_PROLOG_MAGIC) (drop i buf) = str_bytes OWRT_PROLOG_MAGIC then Some i
      else find_prolog n buf (i + 1))"

definition mtdsplit_parse_owrt_prolog ::
  "(bytes \<Rightarrow> int res) \<Rightarrow> platform \<Rightarrow> mtd_info \<Rightarrow> mtd_partition list res" where
  "mtdsplit_parse_owrt_prolog kstrtol p m =
     bind_res (read_exact m 0 OWRT_PROLOG_SIZE) (\<lambda>buf.
     bind_res (case find_prolog (OWRT_PROLOG_SIZE - OWRT_PROLOG_MAX_OVERHEAD) buf 0 of
                 None \<Rightarrow> Fail (- EINVAL) | Some i \<Rightarrow> Ret i) (\<lambda>i.
     bind_res (kstrtol (drop (i + length OWRT_PROLOG_MAGIC + 1) buf)) (\<lambda>n.
     let kernel_size = sz p (int (sz p n) + int OWRT_PROLOG_SIZE);
         rootfs_offset = round_up p kernel_size 0x20000
     in bind_res (require (rootfs_offset < mtd_size m) (- EINVAL)) (\<lambda>_.
     bind_res (mtd_check_rootfs_magic p m rootfs_offset) (\<lambda>_.
     bind_res (require (pf_alloc p 0) (- ENOMEM)) (\<lambda>_.
       Ret [\<lparr>part_name = KERNEL_PART_NAME, part_offset = 0, part_size = kernel_size\<rparr>,
            \<lparr>part_name = ROOTFS_PART_NAME, part_offset = rootfs_offset,
             part_size = u64 (int (mtd_size m) - int rootfs_offset)\<rparr>]))))))"

section \<open>The scan\<close>

text \<open>
  What the scan returns: the first image at a multiple of the erase size that fits into the
  device, or, at the end of the device, the variables left by its last iteration. The announced
  sizes are small enough for the 64 bit arithmetic not to wrap around.
\<close>

definition image_fits :: "mtd_info \<Rightarrow> (nat \<Rightarrow> (nat \<times> bytes) option) \<Rightarrow> nat \<Rightarrow> bool" where
  "image_fits m probe b \<longleftrightarrow> (case probe b of Some (s, h) \<Rightarrow> b + s \<le> mtd_size m | None \<Rightarrow> False)"

definition none_fits :: "mtd_info \<Rightarrow> (nat \<Rightarrow> (nat \<times> bytes) option) \<Rightarrow> nat \<Rightarrow> bool" where
  "none_fits m probe e \<longleftrightarrow> (\<forall>b < e. b mod mtd_erasesize m = 0 \<longrightarrow> \<not> image_fits m probe b)"

definition first_image :: "mtd_info \<Rightarrow> (nat \<Rightarrow> (nat \<times> bytes) option) \<Rightarrow> nat \<Rightarrow> nat \<Rightarrow> bytes \<Rightarrow> bool" where
  "first_image m probe ofs s h \<longleftrightarrow>
     ofs < mtd_size m \<and> ofs mod mtd_erasesize m = 0 \<and> probe ofs = Some (s, h) \<and> ofs + s \<le> mtd_size m
     \<and> none_fits m probe ofs"

definition off_the_end :: "mtd_info \<Rightarrow> (nat \<Rightarrow> (nat \<times> bytes) option) \<Rightarrow> nat \<Rightarrow> nat \<Rightarrow> bytes \<Rightarrow> bool" where
  "off_the_end m probe ofs s h \<longleftrightarrow>
     mtd_size m \<le> ofs \<and> mtd_erasesize m \<le> ofs \<and> ofs mod mtd_erasesize m = 0 \<and> ofs - mtd_erasesize m < mtd_size m
     \<and> probe (ofs - mtd_erasesize m) = Some (s, h) \<and> mtd_size m < ofs - mtd_erasesize m + s
     \<and> none_fits m probe ofs"

definition sizes_ok :: "(nat \<Rightarrow> (nat \<times> bytes) option) \<Rightarrow> bool" where
  "sizes_ok probe \<longleftrightarrow> (\<forall>b s h. probe b = Some (s, h) \<longrightarrow> s < 2 ^ 63)"

lemma sz64: "pf_size_bits p = 64 \<Longrightarrow> n < 2 ^ 64 \<Longrightarrow> sz p (int n) = n"
  by (simp add: sz_def)

lemma none_fits_next:
  assumes "none_fits m probe ofs" "ofs mod mtd_erasesize m = 0" "0 < mtd_erasesize m" "\<not> image_fits m probe ofs"
  shows "none_fits m probe (ofs + mtd_erasesize m)"
  unfolding none_fits_def
proof (intro allI impI)
  fix b assume b: "b < ofs + mtd_erasesize m" "b mod mtd_erasesize m = 0"
  have ij: "ofs = ofs div mtd_erasesize m * mtd_erasesize m" "b = b div mtd_erasesize m * mtd_erasesize m"
    using assms(2) b(2) by (metis add.right_neutral div_mult_mod_eq)+
  have "b div mtd_erasesize m < (ofs + mtd_erasesize m) div mtd_erasesize m"
    using b assms(2,3) by (intro div_less_mono) simp_all
  moreover have "(ofs + mtd_erasesize m) div mtd_erasesize m = Suc (ofs div mtd_erasesize m)"
    using assms(3) by (simp add: div_add_self2)
  ultimately have "b div mtd_erasesize m \<le> ofs div mtd_erasesize m" by simp
  then have "b \<le> ofs" using ij by (metis mult_le_mono1)
  then have "b < ofs \<or> b = ofs" by auto
  then show "\<not> image_fits m probe b" using assms(1,4) b(2) by (auto simp: none_fits_def)
qed

lemma scan_blocks_spec:
  assumes ok: "mtd_ok p m" "pf_size_bits p = 64" and sizes: "sizes_ok probe"
  shows "0 < fuel \<Longrightarrow> ofs mod mtd_erasesize m = 0 \<Longrightarrow> none_fits m probe ofs
    \<Longrightarrow> (ofs < mtd_size m \<longrightarrow> mtd_size m div mtd_erasesize m + 2 \<le> fuel + ofs div mtd_erasesize m)
    \<Longrightarrow> (fst l = 0 \<or> mtd_size m \<le> ofs \<longrightarrow> fst l = 0 \<or> off_the_end m probe ofs (fst l) (snd l))
    \<Longrightarrow> \<exists>ofs' s h. scan_blocks fuel p m probe ofs l = Ret (ofs', s, h) \<and>
        (first_image m probe ofs' s h \<or> s = 0 \<or> off_the_end m probe ofs' s h)"
proof (induction fuel arbitrary: ofs l)
  case (Suc fuel)
  let ?e = "mtd_erasesize m"
  have e: "0 < ?e" "mtd_size m + ?e \<le> 2 ^ 32" using ok by (simp_all add: mtd_ok_def)
  show ?case
  proof (cases "ofs < mtd_size m")
    case lt: True
    have nxt: "sz p (int (ofs + ?e)) = ofs + ?e"
      using e lt by (intro sz64[OF ok(2)]) auto
    have "ofs div ?e \<le> mtd_size m div ?e" using lt by (simp add: div_le_mono)
    then have step: "0 < fuel" "(ofs + ?e) mod ?e = 0"
      "ofs + ?e < mtd_size m \<longrightarrow> mtd_size m div ?e + 2 \<le> fuel + (ofs + ?e) div ?e"
      using Suc.prems lt e by auto
    note skip = none_fits_next[OF Suc.prems(3,2) e(1)]
    show ?thesis
    proof (cases "probe ofs")
      case None
      then have "none_fits m probe (ofs + ?e)" using skip by (simp add: image_fits_def)
      from Suc.IH[OF step(1,2) this step(3), of "(0, [])"] show ?thesis
        using lt nxt None by (simp add: Let_def del: of_nat_add)
    next
      case (Some a)
      obtain s h where a: "a = (s, h)" by (cases a)
      have "s < 2 ^ 63" using sizes Some a unfolding sizes_ok_def by blast
      then have w: "sz p (int (ofs + s)) = ofs + s" using lt e by (intro sz64[OF ok(2)]) simp
      show ?thesis
      proof (cases "mtd_size m < ofs + s")
        case True
        then have nf: "none_fits m probe (ofs + ?e)" using skip Some a by (simp add: image_fits_def)
        have "mtd_size m \<le> ofs + ?e \<longrightarrow> off_the_end m probe (ofs + ?e) s h"
          using nf True lt Some a step(2) by (auto simp: off_the_end_def)
        then show ?thesis
          using Suc.IH[OF step(1,2) nf step(3), of "(s, h)"] True lt nxt Some a w by (auto simp: Let_def simp del: of_nat_add)
      next
        case False
        then show ?thesis
          using lt Some a Suc.prems w by (auto simp: Let_def first_image_def simp del: of_nat_add)
      qed
    qed
  next
    case False
    then show ?thesis using Suc.prems(5) by (cases l) auto
  qed
qed simp

lemma find_image_spec:
  assumes "mtd_ok p m" "pf_size_bits p = 64" "sizes_ok probe"
  obtains ofs s h where "find_image p m probe = Ret (ofs, s, h)"
    "first_image m probe ofs s h \<or> s = 0 \<or> off_the_end m probe ofs s h"
  using scan_blocks_spec [OF assms, of "mtd_size m div mtd_erasesize m + 2" 0 "(0, [])"]
  unfolding find_image_def by (auto simp: none_fits_def)

section \<open>Partitions around an image\<close>

text \<open>
  The two layouts: the kernel in front, then it holds the whole image and the partitions divide
  the device; or the root file system in front and the kernel at the image.
\<close>

definition image_split_sound ::
  "platform \<Rightarrow> mtd_info \<Rightarrow> (nat \<Rightarrow> (nat \<times> bytes) option) \<Rightarrow> mtd_partition list \<Rightarrow> bool" where
  "image_split_sound p m probe parts =
     (case parts of
        [a, b] \<Rightarrow>
          part_name a = KERNEL_PART_NAME \<and> split_sound p m parts
             \<and> (\<exists>s h. first_image m probe 0 s h \<and> s \<le> part_size a)
          \<or> part_name b = KERNEL_PART_NAME \<and> part_offset a = 0 \<and> part_size a = part_offset b
             \<and> has_rootfs p m 0 \<and> 0 < part_offset b \<and> (\<exists>h. first_image m probe (part_offset b) (part_size b) h)
      | _ \<Rightarrow> False)"

definition ran_off_end ::
  "platform \<Rightarrow> mtd_info \<Rightarrow> (nat \<Rightarrow> (nat \<times> bytes) option) \<Rightarrow> mtd_partition list \<Rightarrow> bool" where
  "ran_off_end p m probe parts =
     (case parts of
        [a, b] \<Rightarrow> part_name b = KERNEL_PART_NAME \<and> part_offset a = 0 \<and> part_size a = part_offset b
          \<and> has_rootfs p m 0 \<and> (\<exists>h. off_the_end m probe (part_offset b) (part_size b) h)
      | _ \<Rightarrow> False)"

lemma split_around_front:
  assumes ok: "mtd_ok p m" and "split_around e p m 0 s = Ret parts" "sz p (int s) = s"
  shows "\<exists>a b. parts = [a, b] \<and> part_name a = KERNEL_PART_NAME \<and> split_sound p m parts \<and> s \<le> part_size a"
proof -
  obtain r t where rt: "find_rootfs p m s = Ret (r, t)"
    and parts: "parts = [\<lparr>part_name = KERNEL_PART_NAME, part_offset = 0, part_size = sz p (int r)\<rparr>,
         \<lparr>part_name = rootfs_name t, part_offset = r, part_size = sz p (int (mtd_size m) - int r)\<rparr>]"
    using assms(2,3) by (auto simp: split_around_def parse_simps)
  have r: "s \<le> r" "r < mtd_size m" "mtd_check_rootfs_magic p m r = Ret t"
    using find_rootfs_Ret [OF ok rt] by auto
  have "32 \<le> pf_size_bits p" "r < 2 ^ 32" "mtd_size m - r < 2 ^ 32"
    using ok r(2) unfolding mtd_ok_def by linarith+
  then have "sz p (int r) = r" "sz p (int (mtd_size m - r)) = mtd_size m - r"
    by (simp_all only: sz_id)
  then show ?thesis
    using r parts by (simp add: split_sound_def has_rootfs_def of_nat_diff less_imp_le)
qed

lemma split_around_behind:
  assumes "split_around e p m ofs s = Ret parts" "ofs \<noteq> 0"
  shows "\<exists>t. mtd_check_rootfs_magic p m 0 = Ret t \<and>
     parts = [\<lparr>part_name = rootfs_name t, part_offset = 0, part_size = ofs\<rparr>,
              \<lparr>part_name = KERNEL_PART_NAME, part_offset = ofs, part_size = s\<rparr>]"
  using assms by (auto simp: split_around_def split: option.splits)

lemma split_around_image:
  assumes ok: "mtd_ok p m" "pf_size_bits p = 64" "sizes_ok probe"
    and img: "first_image m probe ofs s h" and "split_around e p m ofs s = Ret parts"
  shows "image_split_sound p m probe parts"
proof (cases "ofs = 0")
  case True
  have "s < 2 ^ 63" using img ok(3) by (auto simp: first_image_def sizes_ok_def)
  then have "sz p (int s) = s" by (intro sz64[OF ok(2)]) simp
  then obtain a b where "parts = [a, b]" "part_name a = KERNEL_PART_NAME" "split_sound p m parts" "s \<le> part_size a"
    using split_around_front [OF ok(1), of e s parts] assms(5) True by auto
  then show ?thesis using img True unfolding image_split_sound_def by auto
next
  case False
  then obtain t where "mtd_check_rootfs_magic p m 0 = Ret t"
    "parts = [\<lparr>part_name = rootfs_name t, part_offset = 0, part_size = ofs\<rparr>,
              \<lparr>part_name = KERNEL_PART_NAME, part_offset = ofs, part_size = s\<rparr>]"
    using split_around_behind [OF assms(5)] by blast
  then show ?thesis using img False by (auto simp: image_split_sound_def has_rootfs_def)
qed

lemma split_around_off_end:
  assumes ok: "mtd_ok p m" and img: "off_the_end m probe ofs s h" and "split_around e p m ofs s = Ret parts"
  shows "ran_off_end p m probe parts"
proof -
  have "ofs \<noteq> 0" using img ok by (auto simp: off_the_end_def mtd_ok_def)
  then obtain t where "mtd_check_rootfs_magic p m 0 = Ret t"
    "parts = [\<lparr>part_name = rootfs_name t, part_offset = 0, part_size = ofs\<rparr>,
              \<lparr>part_name = KERNEL_PART_NAME, part_offset = ofs, part_size = s\<rparr>]"
    using split_around_behind [OF assms(3)] by blast
  then show ?thesis using img by (auto simp: ran_off_end_def has_rootfs_def)
qed

lemma jimage_sizes: "pf_size_bits p = 64 \<Longrightarrow> sizes_ok (jimage_probe p m)"
  unfolding sizes_ok_def
proof (intro allI impI)
  fix b s h assume p: "pf_size_bits p = 64" and "jimage_probe p m b = Some (s, h)"
  then have s: "s = sz p (int (56 + get_cpu32 p h 24))" by (auto simp: jimage_probe_def split: res.splits if_splits)
  have "get_cpu32 p h 24 < 2 ^ 32"
    unfolding get_cpu32_def by (cases "pf_big_endian p") (simp_all only: if_True if_False get_32_lt)
  then show "s < 2 ^ 63" unfolding s using p by (subst sz64) simp_all
qed

text \<open>
  The properties of the device tree for U-Boot images: an offset is a 32 bit number, and a
  negative padding takes away no more than the header.
\<close>

definition uimage_dt_ok :: "mtd_info \<Rightarrow> bool" where
  "uimage_dt_ok m \<longleftrightarrow> ui_header_offset (uimage_parse_dt m) < 2 ^ 32 \<and>
     0 \<le> 64 + int (ui_header_offset (uimage_parse_dt m)) + ui_extralen (uimage_parse_dt m)"

lemma uimage_sizes: "pf_size_bits p = 64 \<Longrightarrow> uimage_dt_ok m \<Longrightarrow> sizes_ok (uimage_probe p m (uimage_parse_dt m))"
  unfolding sizes_ok_def
proof (intro allI impI)
  let ?dt = "uimage_parse_dt m"
  fix b s h assume p: "pf_size_bits p = 64" and dt: "uimage_dt_ok m" and "uimage_probe p m ?dt b = Some (s, h)"
  then have s: "s = sz p (int (64 + get_be32 h 12 + ui_header_offset ?dt) + ui_extralen ?dt)"
    by (auto simp: uimage_probe_def Let_def split: res.splits if_splits)
  have x: "ui_extralen ?dt < 2147483648"
    using to_s32_range by (auto simp: uimage_parse_dt_def Let_def split: option.splits)
  define n where "n = nat (int (64 + get_be32 h 12 + ui_header_offset ?dt) + ui_extralen ?dt)"
  have "int (64 + get_be32 h 12 + ui_header_offset ?dt) + ui_extralen ?dt = int n"
    using dt unfolding uimage_dt_ok_def n_def by simp
  moreover have "n < 2 ^ 63"
    using dt x get_32_lt(2)[of h 12] unfolding uimage_dt_ok_def n_def by (simp add: nat_less_iff del: get_32_lt)
  ultimately show "s < 2 ^ 63" unfolding s using p by (simp add: sz64)
qed

text \<open>
  C23. The scanning splitters end, and what they return is sound. On a 64 bit machine, with a
  padding in the device tree that is not negative beyond the header, if a uImage or jImage
  splitter returns partitions, then either the first image that fits into the device is at its
  start, the kernel partition holds the whole image and the two partitions divide the device, the
  second starting with a root file system; or the root file system is in front and the kernel
  partition is exactly the first image that fits, inside the device; or no image fits at all, the
  last block scanned holds a header whose image exceeds the device, and the kernel partition
  starts behind the end of the device with the size that header announces.
\<close>

theorem image_splitters_sound:
  assumes "mtd_ok p m" "pf_size_bits p = 64" "uimage_dt_ok m"
  shows "mtdsplit_parse_uimage p m \<noteq> Diverges \<and> mtdsplit_parse_jimage p m \<noteq> Diverges
    \<and> (\<forall>parts. mtdsplit_parse_uimage p m = Ret parts \<longrightarrow>
         parts = [] \<or> image_split_sound p m (uimage_probe p m (uimage_parse_dt m)) parts
         \<or> ran_off_end p m (uimage_probe p m (uimage_parse_dt m)) parts)
    \<and> (\<forall>parts. mtdsplit_parse_jimage p m = Ret parts \<longrightarrow>
         image_split_sound p m (jimage_probe p m) parts \<or> ran_off_end p m (jimage_probe p m) parts)"
proof -
  have check: "mtd_check_rootfs_magic p m 0 \<noteq> Diverges"
    by (simp add: mtd_check_rootfs_magic_def)
  have around: "split_around e p m ofs s \<noteq> Diverges" for e ofs s
    using find_rootfs_ends [OF assms(1)] check
    by (auto simp: split_around_def parse_simps split: option.splits)
  have img: "\<exists>ofs s h. find_image p m probe = Ret (ofs, s, h) \<and>
      (\<forall>e parts. s \<noteq> 0 \<longrightarrow> split_around e p m ofs s = Ret parts \<longrightarrow>
         image_split_sound p m probe parts \<or> ran_off_end p m probe parts)" if ok: "sizes_ok probe" for probe
    using split_around_image [OF assms(1,2) ok] split_around_off_end [OF assms(1)]
    by (rule_tac find_image_spec [OF assms(1,2) ok]) blast
  obtain o1 s1 h1 where u: "find_image p m (uimage_probe p m (uimage_parse_dt m)) = Ret (o1, s1, h1)"
    "\<And>e parts. s1 \<noteq> 0 \<Longrightarrow> split_around e p m o1 s1 = Ret parts \<Longrightarrow>
       image_split_sound p m (uimage_probe p m (uimage_parse_dt m)) parts
       \<or> ran_off_end p m (uimage_probe p m (uimage_parse_dt m)) parts"
    using img [OF uimage_sizes [OF assms(2,3)]] by blast
  obtain o2 s2 h2 where j: "find_image p m (jimage_probe p m) = Ret (o2, s2, h2)"
    "\<And>e parts. s2 \<noteq> 0 \<Longrightarrow> split_around e p m o2 s2 = Ret parts \<Longrightarrow>
       image_split_sound p m (jimage_probe p m) parts \<or> ran_off_end p m (jimage_probe p m) parts"
    using img [OF jimage_sizes [OF assms(2), of m]] by blast
  have "mtdsplit_parse_uimage p m \<noteq> Diverges" "mtdsplit_parse_jimage p m \<noteq> Diverges"
    using u(1) j(1) around by (auto simp: mtdsplit_parse_uimage_def mtdsplit_parse_jimage_def parse_simps split: if_splits)
  moreover have "parts = [] \<or> s1 \<noteq> 0 \<and> split_around (Some (- ENOENT)) p m o1 s1 = Ret parts"
    if "mtdsplit_parse_uimage p m = Ret parts" for parts
    using that u(1) by (auto simp: mtdsplit_parse_uimage_def parse_simps split: if_splits)
  moreover have "s2 \<noteq> 0 \<and> split_around None p m o2 s2 = Ret parts" if "mtdsplit_parse_jimage p m = Ret parts" for parts
    using that j(1) by (auto simp: mtdsplit_parse_jimage_def parse_simps split: if_splits)
  ultimately show ?thesis using u(2) j(2) by blast
qed

lemma scan_blocks_numeral:
  "scan_blocks (numeral k) p m probe ofs l =
     (if ofs < mtd_size m then
        (let next_ofs = sz p (int (ofs + mtd_erasesize m))
         in case probe ofs of
              None \<Rightarrow> scan_blocks (pred_numeral k) p m probe next_ofs (0, [])
            | Some (s, hdr) \<Rightarrow>
                if sz p (int (ofs + s)) > mtd_size m
                then scan_blocks (pred_numeral k) p m probe next_ofs (s, hdr)
                else Ret (ofs, s, hdr))
      else Ret (ofs, l))"
  by (simp add: numeral_eq_Suc)

definition uimage_front :: bytes where
  "uimage_front = [39, 5, 25, 86, 0, 0, 0, 0, 0, 0, 0, 0, 0, 0, 0, 10, 0, 0, 0, 0, 0, 0, 0, 0, 0, 0, 0, 0,
     5, 0, 2, 0, 0, 0, 0, 0, 0, 0, 0, 0, 0, 0, 0, 0, 0, 0, 0, 0, 0, 0, 0, 0, 0, 0, 0, 0,
     0, 0, 0, 0, 0, 0, 0, 0, 7, 7, 7, 7, 7, 7, 7, 7, 7, 7, 7, 7, 7, 7, 7, 7, 7, 7, 7, 7,
     7, 7, 7, 7, 7, 7, 7, 7, 7, 7, 7, 7, 7, 7, 7, 7, 7, 7, 7, 7, 7, 7, 7, 7, 7, 7, 7, 7,
     7, 7, 7, 7, 7, 7, 7, 7, 7, 7, 7, 7, 7, 7, 7, 7, 104, 115, 113, 115, 5, 5, 5, 5, 5, 5, 5, 5,
     5, 5, 5, 5, 5, 5, 5, 5, 5, 5, 5, 5, 5, 5, 5, 5, 5, 5, 5, 5]"

definition uimage_too_large :: bytes where
  "uimage_too_large = [104, 115, 113, 115, 5, 5, 5, 5, 5, 5, 5, 5, 5, 5, 5, 5, 5, 5, 5, 5, 5, 5, 5, 5, 5, 5, 5, 5,
     5, 5, 5, 5, 5, 5, 5, 5, 5, 5, 5, 5, 5, 5, 5, 5, 5, 5, 5, 5, 5, 5, 5, 5, 5, 5, 5, 5,
     5, 5, 5, 5, 5, 5, 5, 5, 39, 5, 25, 86, 0, 0, 0, 0, 0, 0, 0, 0, 0, 1, 0, 0, 0, 0, 0, 0,
     0, 0, 0, 0, 0, 0, 0, 0, 5, 0, 2, 0, 0, 0, 0, 0, 0, 0, 0, 0, 0, 0, 0, 0, 0, 0, 0, 0,
     0, 0, 0, 0, 0, 0, 0, 0, 0, 0, 0, 0, 0, 0, 0, 0]"

abbreviation (input) dt_default :: uimage_dt where
  "dt_default \<equiv> \<lparr>ui_extralen = 0, ui_ih_magic = IH_MAGIC, ui_ih_type = IH_TYPE_KERNEL,
     ui_header_offset = 0, ui_part_magic = 0\<rparr>"

lemma ram_mtd_dt: "uimage_parse_dt (ram_mtd eb data) = dt_default"
  by (simp add: uimage_parse_dt_def ram_mtd_def)

lemma ram_mtd_sel [simp]: "mtd_size (ram_mtd eb data) = length data" "mtd_erasesize (ram_mtd eb data) = eb"
  by (simp_all add: ram_mtd_def)

lemma ram_read: "ofs + len \<le> length data \<Longrightarrow> ofs < 2 ^ 32
    \<Longrightarrow> read_exact (ram_mtd eb data) ofs len = Ret (take len (drop ofs data))"
  by (simp add: read_exact_def ram_mtd_def loff_def)

lemma sz_host64: "n < 2 ^ 64 \<Longrightarrow> sz host64 (int n) = n"
  by (simp add: sz_def host64_def)

lemma length_uimages [simp]: "length uimage_front = 160" "length uimage_too_large = 128"
  by (simp_all add: uimage_front_def uimage_too_large_def)

lemma probe_ram:
  assumes "ofs + 64 \<le> length data" "ofs < 2 ^ 32"
  shows "uimage_probe host64 (ram_mtd eb data) dt_default ofs =
     (let h = take 64 (drop ofs data)
      in if get_be32 h 0 = IH_MAGIC \<and> unat (byte_at h 28) = 5 \<and> unat (byte_at h 30) = 2
         then Some (64 + get_be32 h 12, h) else None)"
proof -
  have "64 + get_be32 h 12 < 2 ^ 64" for h using get_32_lt(2) [of h 12] by simp
  then have "sz host64 (int (64 + get_be32 h 12)) = 64 + get_be32 h 12" for h by (rule sz_host64)
  moreover have "sz host64 64 = 64" using sz_host64 [of 64] by simp
  ultimately show ?thesis
    using assms by (simp add: uimage_probe_def read_uimage_header_def ram_read
        uimage_verify_default_def Let_def)
qed

lemma uimage_front_probe:
  "uimage_probe host64 (ram_mtd 64 uimage_front) dt_default 0 = Some (74, take 64 uimage_front)"
  by (simp add: probe_ram Let_def) (simp add: uimage_front_def field_eval)

lemma uimage_too_large_probe:
  "uimage_probe host64 (ram_mtd 64 uimage_too_large) dt_default 0 = None"
  "uimage_probe host64 (ram_mtd 64 uimage_too_large) dt_default 64 = Some (65600, drop 64 uimage_too_large)"
  by (simp_all add: probe_ram Let_def) (simp_all add: uimage_too_large_def field_eval)

lemma uimage_front_search:
  "find_rootfs host64 (ram_mtd 64 uimage_front) 74 = Ret (128, MTDSPLIT_PART_TYPE_SQUASHFS)"
  by (simp add: find_rootfs_def search_eval ram_mtd_def host64_def uimage_front_def)

lemma uimage_too_large_rootfs:
  "mtd_check_rootfs_magic host64 (ram_mtd 64 uimage_too_large) 0 = Ret MTDSPLIT_PART_TYPE_SQUASHFS"
  by (simp add: search_eval ram_mtd_def host64_def uimage_too_large_def)

lemma host64_alloc: "require (pf_alloc host64 k) e = Ret ()"
  by (simp add: host64_def require_def)

lemma uimage_front_splits:
  "mtdsplit_parse_uimage host64 (ram_mtd 64 uimage_front)
   = Ret [\<lparr>part_name = KERNEL_PART_NAME, part_offset = 0, part_size = 128\<rparr>,
          \<lparr>part_name = ROOTFS_PART_NAME, part_offset = 128, part_size = 32\<rparr>]"
proof -
  have "sz host64 74 = 74" "sz host64 128 = 128" "sz host64 32 = 32" "sz host64 64 = 64"
    by (simp_all add: sz_def host64_def)
  then show ?thesis
    by (simp add: mtdsplit_parse_uimage_def find_image_def scan_blocks_numeral ram_mtd_dt
        uimage_front_probe uimage_front_search split_around_def require_def rootfs_name_def host64_alloc [unfolded require_def])
qed

theorem image_splitters_sound_witness:
  "image_split_sound host64 (ram_mtd 64 uimage_front)
     (uimage_probe host64 (ram_mtd 64 uimage_front) (uimage_parse_dt (ram_mtd 64 uimage_front)))
     [\<lparr>part_name = KERNEL_PART_NAME, part_offset = 0, part_size = 128\<rparr>,
      \<lparr>part_name = ROOTFS_PART_NAME, part_offset = 128, part_size = 32\<rparr>]"
proof -
  have "mtd_ok host64 (ram_mtd 64 uimage_front)" "pf_size_bits host64 = 64" "uimage_dt_ok (ram_mtd 64 uimage_front)"
    by (simp_all add: mtd_ok_def host64_def uimage_dt_ok_def ram_mtd_dt)
  from image_splitters_sound [OF this] uimage_front_splits
  have "image_split_sound host64 (ram_mtd 64 uimage_front)
       (uimage_probe host64 (ram_mtd 64 uimage_front) (uimage_parse_dt (ram_mtd 64 uimage_front)))
       [\<lparr>part_name = KERNEL_PART_NAME, part_offset = 0, part_size = 128\<rparr>,
        \<lparr>part_name = ROOTFS_PART_NAME, part_offset = 128, part_size = 32\<rparr>]
    \<or> ran_off_end host64 (ram_mtd 64 uimage_front)
       (uimage_probe host64 (ram_mtd 64 uimage_front) (uimage_parse_dt (ram_mtd 64 uimage_front)))
       [\<lparr>part_name = KERNEL_PART_NAME, part_offset = 0, part_size = 128\<rparr>,
        \<lparr>part_name = ROOTFS_PART_NAME, part_offset = 128, part_size = 32\<rparr>]"
    by blast
  then show ?thesis by (auto simp: ran_off_end_def off_the_end_def)
qed

text \<open>
  A uImage header in the last erase block whose image does not fit is not rejected: the
  size it announces survives the end of the scan, and with a root file system at the start of
  the device the splitter returns a kernel partition that lies behind the end of the device.
\<close>

theorem uimage_last_block_accepted:
  "mtd_size (ram_mtd 64 uimage_too_large) = 128
   \<and> mtdsplit_parse_uimage host64 (ram_mtd 64 uimage_too_large)
     = Ret [\<lparr>part_name = ROOTFS_PART_NAME, part_offset = 0, part_size = 128\<rparr>,
            \<lparr>part_name = KERNEL_PART_NAME, part_offset = 128, part_size = 65600\<rparr>]"
proof -
  have "sz host64 65664 = 65664" "sz host64 128 = 128" "sz host64 64 = 64"
    by (simp_all add: sz_def host64_def)
  then show ?thesis
    by (simp add: mtdsplit_parse_uimage_def find_image_def scan_blocks_numeral ram_mtd_dt
        uimage_too_large_probe uimage_too_large_rootfs split_around_def rootfs_name_def host64_alloc fail_with_def)
qed

section \<open>TRX and byte order\<close>

definition trx_image :: bytes where
  "trx_image = [72, 68, 82, 48, 100, 0, 0, 0, 0, 0, 0, 0, 0, 0, 0, 0, 32, 0, 0, 0, 64, 0, 0, 0, 0, 0, 0, 0,
     0, 0, 0, 0, 7, 7, 7, 7, 7, 7, 7, 7, 7, 7, 7, 7, 7, 7, 7, 7, 7, 7, 7, 7, 7, 7, 7, 7,
     7, 7, 7, 7, 7, 7, 7, 7, 104, 115, 113, 115, 5, 5, 5, 5, 5, 5, 5, 5, 5, 5, 5, 5, 5, 5, 5, 5,
     5, 5, 5, 5, 5, 5, 5, 5, 5, 5, 5, 5, 5, 5, 5, 5, 5, 5, 5, 5, 5, 5, 5, 5, 5, 5, 5, 5,
     5, 5, 5, 5, 5, 5, 5, 5, 5, 5, 5, 5, 5, 5, 5, 5]"

definition host64_be :: platform where
  "host64_be = host64\<lparr>pf_big_endian := True\<rparr>"

lemma length_trx_image [simp]: "length trx_image = 128"
  by (simp add: trx_image_def)

lemma trx_image_probe: "trx_probe (ram_mtd 64 trx_image) 0 = Some (100, take 32 trx_image)"
  by (simp add: trx_probe_def read_trx_header_def ram_read)
    (simp add: trx_image_def field_eval TRX_MAGIC_def)

lemma trx_image_offsets:
  "get_cpu32 host64 (take 32 trx_image) 16 = 32" "get_cpu32 host64 (take 32 trx_image) 20 = 64"
  "get_cpu32 host64_be (take 32 trx_image) 16 = 0x20000000"
  "get_cpu32 host64_be (take 32 trx_image) 20 = 0x40000000"
  by (simp_all add: trx_image_def field_eval host64_be_def host64_def)

text \<open>
  The offsets of a TRX header are only right on little endian machines: the same flash is
  split into kernel and root file system on a little endian machine, and gives two partitions
  that lie behind the end of the device on a big endian one.
\<close>

theorem trx_offsets_byte_order:
  "mtd_size (ram_mtd 64 trx_image) = 128
   \<and> mtdsplit_parse_trx host64 (ram_mtd 64 trx_image)
     = Ret [\<lparr>part_name = KERNEL_PART_NAME, part_offset = 32, part_size = 32\<rparr>,
            \<lparr>part_name = ROOTFS_PART_NAME, part_offset = 64, part_size = 64\<rparr>]
   \<and> mtdsplit_parse_trx host64_be (ram_mtd 64 trx_image)
     = Ret [\<lparr>part_name = KERNEL_PART_NAME, part_offset = 0x20000000, part_size = 0x20000000\<rparr>,
            \<lparr>part_name = ROOTFS_PART_NAME, part_offset = 0x40000000,
             part_size = 18446744072635809920\<rparr>]"
proof -
  have be: "sz host64_be i = sz host64 i" for i by (simp add: sz_def host64_be_def)
  have "sz host64 100 = 100" "sz host64 64 = 64" "sz host64 32 = 32" "sz host64 128 = 128"
    "sz host64 0x20000000 = 0x20000000" "sz host64 0x40000000 = 0x40000000"
    "sz host64 (- 1073741696) = 18446744072635809920"
    by (simp_all add: sz_def host64_def)
  moreover have "require (pf_alloc host64_be 0) e = Ret ()" for e
    by (simp add: require_def host64_be_def host64_def)
  ultimately show ?thesis
    by (simp add: mtdsplit_parse_trx_def find_image_def scan_blocks_numeral trx_image_probe be
        trx_image_offsets host64_alloc require_def [of "_ \<noteq> _"] Let_def)
qed

section \<open>Splitters that trust a size in a header\<close>

lemma check_inside:
  assumes "reads_inside m" "mtd_check_rootfs_magic p m r = Ret t" "r < 2 ^ 64"
  shows "r + 4 \<le> mtd_size m"
  using assms read_exact_inside [OF assms(1) _ assms(3)] by (auto simp: mtd_check_rootfs_magic_def)

definition kernel_before_rootfs :: "platform \<Rightarrow> mtd_info \<Rightarrow> mtd_partition list \<Rightarrow> bool" where
  "kernel_before_rootfs p m parts =
     (case parts of
        [k, r] \<Rightarrow> part_offset k + part_size k \<le> part_offset r
          \<and> part_offset r + part_size r \<le> mtd_size m \<and> has_rootfs p m (part_offset r)
      | _ \<Rightarrow> False)"

definition both_inside :: "platform \<Rightarrow> mtd_info \<Rightarrow> mtd_partition list \<Rightarrow> bool" where
  "both_inside p m parts =
     (case parts of
        [k, r] \<Rightarrow> part_offset k + part_size k \<le> mtd_size m
          \<and> part_offset r + part_size r \<le> mtd_size m \<and> has_rootfs p m (part_offset r)
      | _ \<Rightarrow> False)"

lemma check_or_find_inside:
  assumes "mtd_ok p m" "reads_inside m" "check_or_find p m ofs start = Ret (r, t)" "ofs < 2 ^ 64"
  shows "r < mtd_size m \<and> has_rootfs p m r \<and> (r = ofs \<or> start \<le> r)"
proof (cases "\<exists>t. mtd_check_rootfs_magic p m ofs = Ret t")
  case True
  then show ?thesis using assms check_inside [OF assms(2) _ assms(4)]
    by (fastforce simp: check_or_find_def has_rootfs_def)
next
  case False
  then have "find_rootfs p m start = Ret (r, t)"
    using assms(3) by (auto simp: check_or_find_def split: res.splits)
  then show ?thesis using find_rootfs_Ret [OF assms(1)] by (auto simp: has_rootfs_def)
qed

lemma tplink_inside:
  assumes "mtd_ok p m" "reads_inside m" "mtdsplit_parse_tplink p m = Ret parts"
  shows "both_inside p m parts"
proof -
  obtain hdr k ofs r t where
    f: "tplink_fields p hdr = Ret (k, ofs)" "k \<le> mtd_size m"
       "check_or_find p m ofs TPLINK_MIN_ROOTFS_OFFS = Ret (r, t)"
    and parts: "parts = [\<lparr>part_name = KERNEL_PART_NAME, part_offset = 0, part_size = k\<rparr>,
            \<lparr>part_name = ROOTFS_PART_NAME, part_offset = r, part_size = u64 (int (mtd_size m) - int r)\<rparr>]"
    using assms(3) by (auto simp: mtdsplit_parse_tplink_def parse_simps)
  have "ofs < 2 ^ 64"
    using f(1) get_32_lt(2) [of hdr 136] get_32_lt(2) [of hdr 124]
    by (auto simp: tplink_fields_def split: if_splits simp del: get_32_lt)
  then have "r < mtd_size m \<and> has_rootfs p m r" using check_or_find_inside [OF assms(1,2) f(3)] by blast
  moreover have "mtd_size m \<le> 2 ^ 32" using assms(1) by (simp add: mtd_ok_def)
  ultimately show ?thesis using f(2) parts by (simp add: both_inside_def u64_diff32)
qed

lemma pow64: "(2 :: nat) ^ 32 + 65564 \<le> 2 ^ 64"
  by simp

lemma round_up_ge:
  assumes "pf_size_bits p = 64" "0 < a" "n + a \<le> 2 ^ 64"
  shows "n \<le> round_up p n a"
proof -
  have "(n + a - 1) div a * a \<le> n + a - 1" by simp
  then have "sz p (int ((n + a - 1) div a * a)) = (n + a - 1) div a * a"
    using assms by (intro sz64) linarith+
  moreover have "n + a - 1 < (n + a - 1) div a * a + a"
    using assms(2) by (metis add.commute dividend_less_div_times)
  ultimately show ?thesis unfolding round_up_def by linarith
qed

lemma kernel_before_rootfsI:
  assumes "mtd_ok p m" "reads_inside m" "mtd_check_rootfs_magic p m r = Ret t" "r < 2 ^ 64"
    and "k \<le> r" "s = u64 (int (mtd_size m) - int r)"
  shows "kernel_before_rootfs p m
     [\<lparr>part_name = n1, part_offset = 0, part_size = k\<rparr>, \<lparr>part_name = n2, part_offset = r, part_size = s\<rparr>]"
proof -
  have "r + 4 \<le> mtd_size m" by (rule check_inside [OF assms(2-4)])
  moreover have "mtd_size m \<le> 2 ^ 32" using assms(1) by (simp add: mtd_ok_def)
  ultimately show ?thesis using assms(3,5,6) by (simp add: kernel_before_rootfs_def has_rootfs_def u64_diff32)
qed

lemma seama_sound:
  assumes ok: "mtd_ok p m" "reads_inside m" "pf_size_bits p = 64" and ret: "mtdsplit_parse_seama p m = Ret parts"
  shows "kernel_before_rootfs p m parts"
proof -
  obtain hdr r t where
    f: "check_or_find p m (sz p (int (28 + get_be32 hdr 8 + get_be16 hdr 6))) SEAMA_MIN_ROOTFS_OFFS = Ret (r, t)"
    and parts: "parts = [\<lparr>part_name = KERNEL_PART_NAME, part_offset = u64 (int (28 + get_be16 hdr 6)),
          part_size = u64 (int r - int (u64 (int (28 + get_be16 hdr 6))))\<rparr>,
        \<lparr>part_name = rootfs_name t, part_offset = r, part_size = u64 (int (mtd_size m) - int r)\<rparr>]"
    using ret by (auto simp: mtdsplit_parse_seama_def parse_simps)
  have lt: "get_be32 hdr 8 < 2 ^ 32" "get_be16 hdr 6 < 65536" by (rule get_32_lt get_16_lt)+
  have "28 + get_be32 hdr 8 + get_be16 hdr 6 < 2 ^ 64" "28 + get_be16 hdr 6 < 2 ^ 64"
    using lt pow64 by linarith+
  note ofs = sz64 [OF ok(3) this(1)] and k = u64_id [OF this(2)] and small = this(1)
  from check_or_find_inside [OF ok(1,2) f [unfolded ofs] small]
  have r: "r < mtd_size m" "has_rootfs p m r" "28 + get_be16 hdr 6 \<le> r"
    using lt(2) unfolding SEAMA_MIN_ROOTFS_OFFS_def by linarith+
  have "mtd_size m \<le> 2 ^ 32" using ok(1) by (simp add: mtd_ok_def)
  then show ?thesis using r parts k
    by (simp add: kernel_before_rootfs_def u64_diff32 del: of_nat_add)
qed

lemma eva_sound:
  assumes ok: "mtd_ok p m" "reads_inside m" "pf_size_bits p = 64" and ret: "mtdsplit_parse_eva p m = Ret parts"
  shows "kernel_before_rootfs p m parts"
proof -
  obtain k r t where k: "k < 2 ^ 32" and r: "r = sz p (int (round_up p k 0x10000 + EVA_DUMMY_SQUASHFS_SIZE))"
    "mtd_check_rootfs_magic p m r = Ret t" "r < mtd_size m"
    and parts: "parts = [\<lparr>part_name = KERNEL_PART_NAME, part_offset = 0, part_size = k\<rparr>,
      \<lparr>part_name = ROOTFS_PART_NAME, part_offset = r, part_size = u64 (int (mtd_size m) - int r)\<rparr>]"
    using ret to_u32_lt by (fastforce simp: mtdsplit_parse_eva_def parse_simps)
  have "(k + 0x10000 - 1) div 0x10000 * 0x10000 \<le> k + 0x10000 - 1" by simp
  then have "round_up p k 0x10000 \<le> k + 0x10000"
    using k sz64 [OF ok(3), of "(k + 0x10000 - 1) div 0x10000 * 0x10000"] by (simp add: round_up_def)
  then have "r = round_up p k 0x10000 + EVA_DUMMY_SQUASHFS_SIZE"
    unfolding r(1) using k by (intro sz64 [OF ok(3)]) (simp add: EVA_DUMMY_SQUASHFS_SIZE_def)
  moreover have "k \<le> round_up p k 0x10000" using k by (intro round_up_ge [OF ok(3)]) auto
  moreover have "r < 2 ^ 64" using r(3) ok(1) by (simp add: mtd_ok_def)
  ultimately show ?thesis
    unfolding parts by (intro kernel_before_rootfsI [OF ok(1,2) r(2)]) auto
qed

text \<open>
  The executable prolog: whatever number it holds, the root file system is inside the device and
  takes the rest of it; the kernel ends before it unless its size is a negative number of type
  \<^verbatim>\<open>long\<close>.
\<close>

definition rootfs_to_end :: "platform \<Rightarrow> mtd_info \<Rightarrow> mtd_partition list \<Rightarrow> bool" where
  "rootfs_to_end p m parts =
     (case parts of
        [k, r] \<Rightarrow> part_offset r + part_size r = mtd_size m \<and> has_rootfs p m (part_offset r)
          \<and> (part_size k < 2 ^ 63 \<longrightarrow> part_offset k + part_size k \<le> part_offset r)
      | _ \<Rightarrow> False)"

lemma prolog_sound:
  assumes ok: "mtd_ok p m" "reads_inside m" "pf_size_bits p = 64"
    and ret: "mtdsplit_parse_owrt_prolog kstrtol p m = Ret parts"
  shows "rootfs_to_end p m parts"
proof -
  define k where "k n = sz p (int (sz p n) + int OWRT_PROLOG_SIZE)" for n
  define r where "r n = round_up p (k n) 0x20000" for n
  obtain n t where r: "r n < mtd_size m" "mtd_check_rootfs_magic p m (r n) = Ret t"
    and parts: "parts = [\<lparr>part_name = KERNEL_PART_NAME, part_offset = 0, part_size = k n\<rparr>,
      \<lparr>part_name = ROOTFS_PART_NAME, part_offset = r n, part_size = u64 (int (mtd_size m) - int (r n))\<rparr>]"
    using ret by (auto simp: mtdsplit_parse_owrt_prolog_def parse_simps r_def k_def)
  have "k n \<le> r n" if "k n < 2 ^ 63" unfolding r_def using that by (intro round_up_ge [OF ok(3)]) auto
  moreover have "mtd_size m \<le> 2 ^ 32" using ok(1) by (simp add: mtd_ok_def)
  ultimately show ?thesis using r parts by (simp add: rootfs_to_end_def has_rootfs_def u64_diff32)
qed

lemma brn_scan_spec:
  assumes "pf_size_bits p = 64" "mtd_size m \<le> 2 ^ 32"
  shows "brn_scan fuel p m ofs ret = Ret (r, x) \<Longrightarrow> r < mtd_size m \<Longrightarrow> ofs mod 1024 = 0
    \<Longrightarrow> r mod 1024 = 0 \<and> (\<exists>t. mtd_check_rootfs_magic p m r = Ret t)"
proof (induction fuel arbitrary: ofs ret)
  case (Suc fuel)
  show ?case
  proof (cases "ofs < mtd_size m \<and> (\<exists>e. mtd_check_rootfs_magic p m ofs = Fail e)")
    case True
    have "sz p (int (ofs + 1024)) = ofs + 1024"
      using True assms by (intro sz64) auto
    then show ?thesis using True Suc by (auto simp: BRNIMAGE_ALIGN_BYTES_def)
  next
    case False
    then show ?thesis using Suc.prems by (auto split: if_splits res.splits)
  qed
qed simp

lemma brnimage_sound:
  assumes ok: "mtd_ok p m" "reads_inside m" "pf_size_bits p = 64" and size: "mtd_size m mod 1024 = 0"
    and ret: "mtdsplit_parse_brnimage p m = Ret parts"
  shows "kernel_before_rootfs p m parts"
proof -
  have le: "mtd_size m \<le> 2 ^ 32" using ok(1) by (simp add: mtd_ok_def)
  obtain fuel r k x buf where scan: "brn_scan fuel p m 0 0 = Ret (r, x)" and r: "r < mtd_size m"
    and buf: "read_exact m (sz p (int r - 12)) 4 = Ret buf" and k: "k \<le> sz p (int r - 12)"
    and parts: "parts = [\<lparr>part_name = KERNEL_PART_NAME, part_offset = 0, part_size = k\<rparr>,
      \<lparr>part_name = ROOTFS_PART_NAME, part_offset = r, part_size = sz p (int (mtd_size m) - int r - 12)\<rparr>]"
    using ret by (auto simp: mtdsplit_parse_brnimage_def parse_simps BRNIMAGE_FOOTER_SIZE_def simp del: brn_scan.simps)
  from brn_scan_spec [OF ok(3) le scan r] obtain t where
    t: "mtd_check_rootfs_magic p m r = Ret t" and al: "r mod 1024 = 0" by auto
  have "sz p (int r - 12) < 2 ^ 64" using sz_lt [of p] ok(3) by simp
  from read_exact_inside [OF ok(2) buf this] have "sz p (int r - 12) + 4 \<le> mtd_size m" .
  moreover have "sz p (int 0 - 12) = 2 ^ 64 - 12" using ok(3) by (simp add: sz_def)
  ultimately have "r \<noteq> 0" using le by (intro notI) simp
  then have "1024 \<le> r" using al by auto
  moreover have "r + 1024 \<le> mtd_size m" using r al size by (metis add.commute add_diff_inverse_nat dvd_minus_mod dvd_imp_le mod_0_imp_dvd dvd_diff_nat less_imp_le nat_add_left_cancel_le not_less zero_less_diff)
  ultimately have "int (r - 12) = int r - 12" "int (mtd_size m - r - 12) = int (mtd_size m) - int r - 12"
    by auto
  moreover have "r - 12 < 2 ^ 64" "mtd_size m - r - 12 < 2 ^ 64" using le r pow64 by linarith+
  ultimately have "sz p (int r - 12) = r - 12" "sz p (int (mtd_size m) - int r - 12) = mtd_size m - r - 12"
    using sz64 [OF ok(3), of "r - 12"] sz64 [OF ok(3), of "mtd_size m - r - 12"] by simp_all
  then show ?thesis
    using k parts t \<open>1024 \<le> r\<close> \<open>r + 1024 \<le> mtd_size m\<close> by (auto simp: kernel_before_rootfs_def has_rootfs_def)
qed

text \<open>
  C24. The splitters that take the position of the root file system from a header never place it
  outside the device, on a 64 bit machine: the second partition starts with the magic number of
  a root file system and lies inside the device. For TP-Link images the kernel partition, whose
  length may cover both, lies inside the device too; for Seama, EVA and brnImage (on a device
  that is a multiple of 1 KiB) the kernel ends before the root file system starts. For the
  executable prolog, with any conversion function, the root file system reaches to the end of the
  device, and the kernel ends before it starts unless its size, taken as a number of type
  \<^verbatim>\<open>long\<close>, is negative.
\<close>

theorem sized_splitters_inside:
  assumes "mtd_ok p m" "reads_inside m" "pf_size_bits p = 64" "mtd_size m mod 1024 = 0"
  shows "(\<forall>parts. mtdsplit_parse_tplink p m = Ret parts \<longrightarrow> both_inside p m parts)
    \<and> (\<forall>parse parts. parse \<in> {mtdsplit_parse_seama, mtdsplit_parse_eva, mtdsplit_parse_brnimage} \<longrightarrow>
         parse p m = Ret parts \<longrightarrow> kernel_before_rootfs p m parts)
    \<and> (\<forall>kstrtol parts. mtdsplit_parse_owrt_prolog kstrtol p m = Ret parts \<longrightarrow> rootfs_to_end p m parts)"
  using assms tplink_inside seama_sound eva_sound brnimage_sound prolog_sound by auto

definition seama_image :: bytes where
  "seama_image = [94, 163, 164, 23, 0, 0, 0, 0, 0, 0, 0, 36, 0, 0, 0, 0, 0, 0, 0, 0, 0, 0, 0, 0, 0, 0, 0, 0,
     7, 7, 7, 7, 7, 7, 7, 7, 7, 7, 7, 7, 7, 7, 7, 7, 7, 7, 7, 7, 7, 7, 7, 7, 7, 7, 7, 7,
     7, 7, 7, 7, 7, 7, 7, 7, 104, 115, 113, 115] @ replicate 956 0"

lemma seama_image_splits:
  "mtdsplit_parse_seama host64 (ram_mtd 64 seama_image)
   = Ret [\<lparr>part_name = KERNEL_PART_NAME, part_offset = 28, part_size = 36\<rparr>,
          \<lparr>part_name = ROOTFS_PART_NAME, part_offset = 64, part_size = 960\<rparr>]"
proof -
  have len: "length seama_image = 1024" by (simp add: seama_image_def)
  have "get_be32 (take 28 seama_image) 0 = SEAMA_MAGIC" "get_be32 (take 28 seama_image) 8 = 36"
    "get_be16 (take 28 seama_image) 6 = 0"
    by (simp_all add: seama_image_def field_eval SEAMA_MAGIC_def)
  moreover have "mtd_check_rootfs_magic host64 (ram_mtd 64 seama_image) 64 = Ret MTDSPLIT_PART_TYPE_SQUASHFS"
    unfolding mtd_check_rootfs_magic_def by (simp add: ram_read len) (simp add: seama_image_def field_eval)
  moreover have "sz host64 64 = 64" "u64 28 = 28" "u64 36 = 36" "u64 960 = 960"
    by (simp_all add: sz_def u64_def host64_def)
  ultimately show ?thesis
    by (simp add: mtdsplit_parse_seama_def ram_read len check_or_find_def host64_alloc rootfs_name_def
        require_def [of "_ = _"] require_def [of "_ \<le> _"] Let_def)
qed

text \<open>A prolog with the kernel size 1000, and a conversion function for decimal numbers.\<close>

definition prolog_image :: bytes where
  "prolog_image = str_bytes ''OPENWRT-PROLOG-512'' @ [10, 49, 48, 48, 48, 10] @ replicate 131048 0 @
     [104, 115, 113, 115] @ replicate 1020 0"

definition digits_of :: "bytes \<Rightarrow> int res" where
  "digits_of b =
     (let ds = takeWhile (\<lambda>c. 48 \<le> c \<and> c \<le> 57) b
      in if ds = [] then Fail (- EINVAL) else Ret (foldl (\<lambda>n c. 10 * n + (uint c - 48)) 0 ds))"

lemma prolog_image_splits:
  "mtdsplit_parse_owrt_prolog digits_of host64 (ram_mtd 64 prolog_image)
   = Ret [\<lparr>part_name = KERNEL_PART_NAME, part_offset = 0, part_size = 1512\<rparr>,
          \<lparr>part_name = ROOTFS_PART_NAME, part_offset = 131072, part_size = 1024\<rparr>]"
proof -
  let ?s = "str_bytes ''OPENWRT-PROLOG-512''"
  have l: "length ?s = 18" "length OWRT_PROLOG_MAGIC = 18" by (simp_all add: str_bytes_def OWRT_PROLOG_MAGIC_def)
  have len: "length prolog_image = 132096" by (simp add: prolog_image_def l)
  have pre: "take 512 prolog_image = ?s @ [10, 49, 48, 48, 48, 10] @ replicate 488 0"
    by (simp add: prolog_image_def l)
  have "find_prolog (Suc 479) (take 512 prolog_image) 0 = Some 0"
    unfolding find_prolog.simps(2) by (simp add: pre l) (simp add: OWRT_PROLOG_MAGIC_def l)
  then have fnd: "find_prolog 480 (take 512 prolog_image) 0 = Some 0" by simp
  have num: "digits_of (drop 19 (take 512 prolog_image)) = Ret 1000"
    by (simp add: pre l digits_of_def)
  have mag: "mtd_check_rootfs_magic host64 (ram_mtd 64 prolog_image) 131072 = Ret MTDSPLIT_PART_TYPE_SQUASHFS"
    unfolding mtd_check_rootfs_magic_def by (simp add: ram_read len) (simp add: prolog_image_def l field_eval)
  have "sz host64 1000 = 1000" "sz host64 1512 = 1512" "sz host64 131072 = 131072" "u64 1024 = 1024"
    by (simp_all add: sz_def u64_def host64_def)
  then show ?thesis
    by (simp add: mtdsplit_parse_owrt_prolog_def ram_read len OWRT_PROLOG_SIZE_def OWRT_PROLOG_MAX_OVERHEAD_def
        fnd l num mag round_up_def host64_alloc require_def [of "_ < _"] Let_def)
qed

theorem sized_splitters_inside_witness:
  "kernel_before_rootfs host64 (ram_mtd 64 seama_image)
     [\<lparr>part_name = KERNEL_PART_NAME, part_offset = 28, part_size = 36\<rparr>,
      \<lparr>part_name = ROOTFS_PART_NAME, part_offset = 64, part_size = 960\<rparr>]
   \<and> rootfs_to_end host64 (ram_mtd 64 prolog_image)
     [\<lparr>part_name = KERNEL_PART_NAME, part_offset = 0, part_size = 1512\<rparr>,
      \<lparr>part_name = ROOTFS_PART_NAME, part_offset = 131072, part_size = 1024\<rparr>]"
proof -
  have len: "length seama_image = 1024" "length prolog_image = 132096"
    by (simp_all add: seama_image_def prolog_image_def str_bytes_def)
  have ok: "mtd_ok host64 (ram_mtd 64 d)" "mtd_size (ram_mtd 64 d) mod 1024 = 0" if "d \<in> {seama_image, prolog_image}" for d
    using that len by (auto simp: mtd_ok_def host64_def)
  have "pf_size_bits host64 = 64" by (simp add: host64_def)
  note inside = sized_splitters_inside [OF ok(1) ram_mtd_reads_inside this ok(2)]
  show ?thesis
    using inside [of seama_image, THEN conjunct2, THEN conjunct1, rule_format, of mtdsplit_parse_seama, OF _ _ _ seama_image_splits]
      inside [of prolog_image, THEN conjunct2, THEN conjunct2, rule_format, OF _ _ prolog_image_splits]
    by simp
qed

end
