(* ===== verification/Routerboot.thy ===== *)
theory Routerboot
  imports Mtdsplit
begin

unbundle bit_operations_syntax

text \<open>
  The configuration data of MikroTik boards, common routines
  (\<^verbatim>\<open>drivers/platform/mikrotik/routerboot.c\<close>): the search for a tag, the decoder for runs,
  and the routines that print a payload. A tag list and a sequence of runs have a specification
  with an encoder, and the routines are shown to invert it.
\<close>

section \<open>Constants and memory\<close>

abbreviation (input) ENODATA :: int where "ENODATA \<equiv> 61"
abbreviation (input) EOPNOTSUPP :: int where "EOPNOTSUPP \<equiv> 95"
abbreviation (input) EACCES :: int where "EACCES \<equiv> 13"
abbreviation (input) EFBIG :: int where "EFBIG \<equiv> 27"
abbreviation (input) ENODEV :: int where "ENODEV \<equiv> 19"

definition RB_MAGIC_HARD :: nat where "RB_MAGIC_HARD = 0x64726148"
definition RB_MAGIC_SOFT :: nat where "RB_MAGIC_SOFT = 0x74666f53"
definition RB_MAGIC_LZOR :: nat where "RB_MAGIC_LZOR = 0x524f5a4c"
definition RB_MAGIC_LZ77 :: nat where "RB_MAGIC_LZ77 = 0x4c5a3737"
definition RB_MAGIC_ERD :: nat where "RB_MAGIC_ERD = 0x455244"
definition RB_ART_SIZE :: nat where "RB_ART_SIZE = 0x10000"

text \<open>A 32 bit integer as it is stored in memory, in the byte order of the machine.\<close>

definition cpu32 :: "platform \<Rightarrow> nat \<Rightarrow> bytes" where
  "cpu32 p n =
     (let bs = [of_nat n, of_nat (n div 256), of_nat (n div 65536), of_nat (n div 16777216)]
      in if pf_big_endian p then rev bs else bs)"

section \<open>Tags\<close>

text \<open>
  The loop of \<^verbatim>\<open>routerboot_tag_find\<close>; \<open>datum\<close> is the position of the pointer in the buffer.
  The length is rounded up in 16 bits. A node of which only a part is inside the buffer is
  read all the same, which is \<open>Fault\<close> here.
\<close>

function tag_walk :: "platform \<Rightarrow> bytes \<Rightarrow> nat \<Rightarrow> nat \<Rightarrow> (nat \<times> nat) res" where
  "tag_walk p buf tag_id datum =
     (if length buf \<le> datum then Fail (- ENOENT)
      else if length buf < datum + 4 then Fault
      else
        (let node = get_cpu32 p buf datum; tg = node mod 65536; len = node div 65536
         in if node = 0 then Fail (- ENOENT)
            else if tag_id = tg then
              if length buf \<le> datum + 4 then Fail (- ENOENT) else Ret ((datum + 4) mod 65536, len)
            else tag_walk p buf tag_id (datum + 4 + ((len + 3) div 4 * 4) mod 65536)))"
  by pat_completeness auto
termination
  by (relation "measure (\<lambda>(p, buf, tag_id, datum). length buf - datum)") auto

declare tag_walk.simps [simp del]

definition routerboot_tag_find :: "platform \<Rightarrow> bytes \<Rightarrow> nat \<Rightarrow> (nat \<times> nat) res" where
  "routerboot_tag_find p buf tag_id =
     (if tag_id = 0 then Fail (- EINVAL) else tag_walk p buf tag_id 0)"

section \<open>Run length decoding\<close>

text \<open>
  The result is the return value, the new value of \<^verbatim>\<open>*outlen\<close>, and the bytes stored in the
  output; their number is \<^verbatim>\<open>nbytes\<close> until the output overflows.
\<close>

function rle_loop :: "bytes \<Rightarrow> nat \<Rightarrow> bytes \<Rightarrow> int \<times> nat \<times> bytes" where
  "rle_loop inp outlen out =
     (if length inp < 2 then (0, length out, out)
      else
        (let run = unat (inp ! 0); rest = drop 1 inp
         in if 128 \<le> run then
              (let run = 255 - run + 1
               in if length rest < run then (- ENOSPC, length out, out)
                  else if outlen < length out + run then (- ENOSPC, length out + run, out)
                  else rle_loop (drop run rest) outlen (out @ take run rest))
            else if outlen < length out + run then (- ENOSPC, length out + run, out)
            else rle_loop (drop 1 rest) outlen (out @ replicate run (rest ! 0))))"
  by pat_completeness auto
termination
  by (relation "measure (\<lambda>(inp, outlen, out). length inp)") auto

declare rle_loop.simps [simp del]

definition routerboot_rle_decode :: "bytes \<Rightarrow> nat \<Rightarrow> int \<times> nat \<times> bytes" where
  "routerboot_rle_decode inp outlen =
     (if length inp < 2 then (- EINVAL, outlen, []) else rle_loop inp outlen [])"

section \<open>Text\<close>

definition chr_of :: "u8 \<Rightarrow> char" where
  "chr_of b = char_of (unat b)"

text \<open>Numbers in decimal, and hexadecimal with a fixed number of digits.\<close>

fun dec :: "nat \<Rightarrow> string" where
  "dec n = (if n < 10 then [char_of (48 + n)] else dec (n div 10) @ [char_of (48 + n mod 10)])"

declare dec.simps [simp del]

definition hex_digit :: "nat \<Rightarrow> char" where
  "hex_digit d = (if d < 10 then char_of (48 + d) else char_of (87 + d))"

fun hex :: "nat \<Rightarrow> nat \<Rightarrow> string" where
  "hex 0 n = []"
| "hex (Suc k) n = hex k (n div 16) @ [hex_digit (n mod 16)]"

abbreviation newline :: string where "newline \<equiv> [char_of (10 :: nat)]"

text \<open>
  \<open>buf\<close> is the whole buffer with the configuration and \<open>ofs\<close> the position of the payload.
  The string is printed up to the first zero, wherever that is, and the output is cut after
  \<open>len\<close> characters.
\<close>

definition routerboot_tag_show_string :: "bytes \<Rightarrow> nat \<Rightarrow> nat \<Rightarrow> string res" where
  "routerboot_tag_show_string buf ofs len =
     (let m = drop ofs buf
      in if 0 \<in> set m then Ret (take len (map chr_of (takeWhile (\<lambda>b. b \<noteq> 0) m) @ newline)) else Fault)"

text \<open>The length is 16 bits wide and is decreased after each number, so 0 means 65536.\<close>

definition routerboot_tag_show_u32s :: "platform \<Rightarrow> bytes \<Rightarrow> nat \<Rightarrow> nat \<Rightarrow> string res" where
  "routerboot_tag_show_u32s p buf ofs len =
     (if len mod 4 \<noteq> 0 then Fail (- EINVAL)
      else
        (let n = (if len = 0 then 16384 else len div 4)
         in if length buf < ofs + 4 * n then Fault
            else Ret (concat (map (\<lambda>i. ''0x'' @ hex 8 (get_cpu32 p buf (ofs + 4 * i)) @ newline) [0..<n]))))"

section \<open>Storing and reading numbers\<close>

lemma length_cpu32 [simp]: "length (cpu32 p n) = 4"
  by (simp add: cpu32_def Let_def)

lemma digits256:
  fixes n :: nat
  assumes "n < 4294967296"
  shows "n mod 256 + 256 * (n div 256 mod 256) + 65536 * (n div 65536 mod 256 + 256 * (n div 16777216 mod 256)) = n"
proof -
  define a b c where "a = n div 256" and "b = a div 256" and "c = b div 256"
  have e: "n div 256 = a" "n div 65536 = b" "n div 16777216 = c"
    by (simp_all add: a_def b_def c_def div_mult2_eq[symmetric])
  have "c < 256" using assms unfolding e(3)[symmetric] by (simp add: less_mult_imp_div_less)
  then have "c mod 256 = c" by (rule mod_less)
  moreover have "n mod 256 + 256 * a = n" unfolding a_def by (rule mod_mult_div_eq)
  moreover have "a mod 256 + 256 * b = a" unfolding b_def by (rule mod_mult_div_eq)
  moreover have "b mod 256 + 256 * c = b" unfolding c_def by (rule mod_mult_div_eq)
  ultimately show ?thesis unfolding e by simp
qed

lemma get_cpu32_shift: "get_cpu32 p (xs @ ys) (length xs + i) = get_cpu32 p ys i"
  by (simp add: get_cpu32_def get_be32_def get_le32_def get_be16_def get_le16_def byte_at_def nth_append
    add.assoc numeral_3_eq_3)

lemma get_cpu32_shift0: "get_cpu32 p (xs @ ys) (length xs) = get_cpu32 p ys 0"
  using get_cpu32_shift[of p xs ys 0] by simp

lemma get_cpu32_cpu32: "n < 4294967296 \<Longrightarrow> get_cpu32 p (cpu32 p n @ ys) 0 = n"
  using digits256[of n]
  by (simp add: get_cpu32_def get_be32_def get_le32_def get_be16_def get_le16_def byte_at_def cpu32_def
    Let_def unat_of_nat add.commute)

lemma get_cpu32_drop: "i + 4 \<le> length buf \<Longrightarrow> get_cpu32 p buf i = get_cpu32 p (take 4 (drop i buf)) 0"
  by (simp add: get_cpu32_def get_be32_def get_le32_def get_be16_def get_le16_def byte_at_def)

lemma get_cpu32_cong:
  assumes "i + 4 \<le> length a" "i + 4 \<le> length b" "\<And>k. i \<le> k \<Longrightarrow> k < i + 4 \<Longrightarrow> a ! k = b ! k"
  shows "get_cpu32 p a i = get_cpu32 p b i"
  using assms by (simp add: get_cpu32_def get_be32_def get_le32_def get_be16_def get_le16_def byte_at_def)

lemma get_cpu32_lt: "get_cpu32 p buf i < 4294967296"
proof -
  have b: "unat (byte_at buf j) \<le> 255" for j using unsigned_less[where ?'a = nat, of "byte_at buf j"] by simp
  show ?thesis
    using b[of i] b[of "i + 1"] b[of "i + 2"] b[of "i + 3"]
    by (simp add: get_cpu32_def get_be32_def get_le32_def get_be16_def get_le16_def add.assoc numeral_3_eq_3)
qed

section \<open>Tag lists\<close>

text \<open>
  The specification: a configuration is a list of tags, each a number and a payload. In memory
  a tag is a node and the payload, filled up to a multiple of four.
\<close>

type_synonym tag = "nat \<times> bytes"

abbreviation align4 :: "nat \<Rightarrow> nat" where "align4 n \<equiv> (n + 3) div 4 * 4"

fun tag_bytes :: "platform \<Rightarrow> tag \<Rightarrow> bytes" where
  "tag_bytes p (tg, pl) =
     cpu32 p (tg + 65536 * length pl) @ pl @ replicate (align4 (length pl) - length pl) 0"

definition tags_bytes :: "platform \<Rightarrow> tag list \<Rightarrow> bytes" where
  "tags_bytes p ts = concat (map (tag_bytes p) ts)"

fun tag_ok :: "tag \<Rightarrow> bool" where
  "tag_ok (tg, pl) \<longleftrightarrow> 0 < tg \<and> tg < 65536 \<and> length pl < 65533"

lemma align4_ge: "n \<le> align4 n" by simp

lemma align4_lt: "n < 65533 \<Longrightarrow> align4 n < 65536"
  using less_mult_imp_div_less[of "n + 3" 16384 4] by (simp add: less_Suc_eq_le)

lemma length_tag_bytes [simp]: "length (tag_bytes p (tg, pl)) = 4 + align4 (length pl)"
  using align4_ge[of "length pl"] by simp

declare tag_bytes.simps [simp del]

lemma tags_bytes_simps [simp]:
  "tags_bytes p [] = []" "tags_bytes p (t # ts) = tag_bytes p t @ tags_bytes p ts"
  by (simp_all add: tags_bytes_def)

lemma tag_walk_null: "tag_walk p (pre @ cpu32 p 0 @ rest) tag_id (length pre) = Fail (- ENOENT)"
  by (subst tag_walk.simps) (simp add: get_cpu32_shift0 get_cpu32_cpu32)

lemma tag_walk_tag:
  assumes "tag_ok (tg, pl)" "rest \<noteq> []"
  shows "tag_walk p (pre @ tag_bytes p (tg, pl) @ rest) tag_id (length pre) =
    (if tag_id = tg then Ret ((length pre + 4) mod 65536, length pl)
     else tag_walk p (pre @ tag_bytes p (tg, pl) @ rest) tag_id (length (pre @ tag_bytes p (tg, pl))))"
proof -
  let ?buf = "pre @ tag_bytes p (tg, pl) @ rest"
  have lt: "tg + 65536 * length pl < 4294967296" and tg: "0 < tg" "tg < 65536" "length pl < 65533"
    using assms(1) by simp_all
  have node: "get_cpu32 p ?buf (length pre) = tg + 65536 * length pl"
    using get_cpu32_cpu32[OF lt] by (simp add: get_cpu32_shift0 tag_bytes.simps)
  have al: "align4 (length pl) mod 65536 = align4 (length pl)"
    using align4_lt[OF tg(3)] by (rule mod_less)
  have len: "\<not> length ?buf \<le> length pre" "\<not> length ?buf < length pre + 4" "\<not> length ?buf \<le> length pre + 4"
    using assms(2) by auto
  have dm: "(tg + 65536 * length pl) mod 65536 = tg" "(tg + 65536 * length pl) div 65536 = length pl"
    "tg + 65536 * length pl \<noteq> 0"
    using tg by simp_all
  have l2: "length (pre @ tag_bytes p (tg, pl)) = length pre + 4 + align4 (length pl)" by simp
  show ?thesis
    by (subst tag_walk.simps) (simp only: len node dm al l2 Let_def if_False)
qed

section \<open>Positions and updates of tags\<close>

text \<open>Position and length of the payload of the first tag with a number, in the list in memory.\<close>

fun tag_at :: "nat \<Rightarrow> tag list \<Rightarrow> (nat \<times> nat) option" where
  "tag_at t [] = None"
| "tag_at t ((i, pl) # ts) =
     (if i = t then Some (4, length pl)
      else map_option (\<lambda>(ofs, len). (4 + align4 (length pl) + ofs, len)) (tag_at t ts))"

fun tag_put :: "nat \<Rightarrow> bytes \<Rightarrow> tag list \<Rightarrow> tag list" where
  "tag_put t new [] = []"
| "tag_put t new ((i, pl) # ts) = (if i = t then (i, new) # ts else (i, pl) # tag_put t new ts)"

lemma tag_walk_at:
  assumes "\<forall>t \<in> set ts. tag_ok t"
  shows "tag_walk p (pre @ tags_bytes p ts @ cpu32 p 0 @ rest) tg (length pre) =
    (case tag_at tg ts of None \<Rightarrow> Fail (- ENOENT) | Some (ofs, len) \<Rightarrow> Ret ((length pre + ofs) mod 65536, len))"
  using assms
proof (induction ts arbitrary: pre)
  case Nil
  then show ?case by (simp add: tag_walk_null)
next
  case (Cons t ts)
  obtain i pl where t: "t = (i, pl)" by (cases t)
  have ne: "tags_bytes p ts @ cpu32 p 0 @ rest \<noteq> []"
    using length_cpu32[of p 0] by (metis append_is_Nil_conv list.size(3) zero_neq_numeral)
  have ok: "tag_ok (i, pl)" "\<forall>t \<in> set ts. tag_ok t" using Cons.prems t by simp_all
  show ?case
    using tag_walk_tag[OF ok(1) ne, of p pre tg] Cons.IH[OF ok(2), of "pre @ tag_bytes p t"]
    by (cases "tag_at tg ts") (auto simp: t add.assoc)
qed

lemma tag_find_at:
  assumes "\<forall>t \<in> set ts. tag_ok t" "0 < tg"
  shows "routerboot_tag_find p (tags_bytes p ts @ cpu32 p 0 @ rest) tg =
    (case tag_at tg ts of None \<Rightarrow> Fail (- ENOENT) | Some (ofs, len) \<Rightarrow> Ret (ofs mod 65536, len))"
  using tag_walk_at[OF assms(1), of p "[]" rest tg] assms(2)
  by (simp add: routerboot_tag_find_def split: option.splits)

lemma tag_at_map_of: "tag_at t ts = Some (ofs, len) \<Longrightarrow> \<exists>pl. map_of ts t = Some pl \<and> len = length pl"
  by (induction ts arbitrary: ofs) (auto split: if_splits)

lemma tag_at_bytes:
  "tag_at t ts = Some (ofs, len) \<Longrightarrow> length new = len \<Longrightarrow>
   4 \<le> ofs \<and> ofs + len \<le> length (tags_bytes p ts) \<and> map_of ts t = Some (take len (drop ofs (tags_bytes p ts))) \<and>
   store_at (tags_bytes p ts) ofs new = tags_bytes p (tag_put t new ts)"
proof (induction ts arbitrary: ofs)
  case (Cons u ts)
  obtain i pl where u: "u = (i, pl)" by (cases u)
  show ?case
  proof (cases "i = t")
    case True
    then show ?thesis using Cons.prems align4_ge[of "length pl"] by (simp add: u tag_bytes.simps store_at_def)
  next
    case False
    then obtain o' where o: "ofs = length (tag_bytes p u) + o'" "tag_at t ts = Some (o', len)"
      using Cons.prems(1) by (auto simp: u)
    then show ?thesis
      using Cons.IH[OF o(2) Cons.prems(2)] False Cons.prems(2) by (simp add: u store_at_def add.assoc[symmetric])
  qed
qed simp

lemma tag_at_put: "tag_at t ts = Some (ofs, length new) \<Longrightarrow> tag_at k (tag_put t new ts) = tag_at k ts"
  by (induction ts arbitrary: ofs) (auto split: if_splits)

lemma tag_put_ok:
  "tag_at t ts = Some (ofs, length new) \<Longrightarrow> \<forall>u \<in> set ts. tag_ok u \<Longrightarrow> \<forall>u \<in> set (tag_put t new ts). tag_ok u"
proof (induction ts arbitrary: ofs)
  case (Cons u ts)
  then show ?case by (cases u) (simp split: if_splits; blast)
qed simp

lemma length_tags_bytes_put:
  "tag_at t ts = Some (ofs, length new) \<Longrightarrow> length (tags_bytes p (tag_put t new ts)) = length (tags_bytes p ts)"
  using tag_at_bytes[of t ts ofs "length new" new p] by (metis length_store_at)

lemma map_of_tag_put:
  "map_of (tag_put t new ts) k = (if k = t \<and> map_of ts t \<noteq> None then Some new else map_of ts k)"
  by (induction ts) auto

lemma tag_at_None_iff: "tag_at t ts = None \<longleftrightarrow> map_of ts t = None"
  by (induction ts) auto

lemma tag_find_tags:
  assumes "\<forall>t \<in> set ts. tag_ok t" "0 < tag_id" "length (tags_bytes p ts) < 65532"
    and "buf = tags_bytes p ts @ cpu32 p 0 @ rest"
  shows "case map_of ts tag_id of
      None \<Rightarrow> routerboot_tag_find p buf tag_id = Fail (- ENOENT)
    | Some pl \<Rightarrow> \<exists>ofs. routerboot_tag_find p buf tag_id = Ret (ofs, length pl) \<and>
        take (length pl) (drop ofs buf) = pl \<and> ofs + length pl \<le> length buf"
proof (cases "tag_at tag_id ts")
  case None
  moreover have "map_of ts tag_id = None" using None by (simp add: tag_at_None_iff)
  ultimately show ?thesis using tag_find_at[OF assms(1,2), of p rest] by (simp add: assms(4))
next
  case (Some r)
  obtain ofs len where r: "r = (ofs, len)" by (cases r)
  have b: "ofs + len \<le> length (tags_bytes p ts)" "map_of ts tag_id = Some (take len (drop ofs (tags_bytes p ts)))"
    using tag_at_bytes[OF Some[unfolded r], of "replicate len 0" p] by simp_all
  have "ofs mod 65536 = ofs" using b assms(3) by (intro mod_less) linarith
  then have "routerboot_tag_find p buf tag_id = Ret (ofs, len)"
    using tag_find_at[OF assms(1,2), of p rest] Some by (simp add: assms(4) r)
  then show ?thesis using b by (auto simp: assms(4))
qed

text \<open>Whatever the buffer holds, a walk over whole words stays inside it.\<close>

lemma tag_walk_sound:
  assumes "4 dvd length buf" "4 dvd datum"
  shows "tag_walk p buf tag_id datum \<noteq> Fault \<and> tag_walk p buf tag_id datum \<noteq> Diverges \<and>
    (\<forall>ofs len. tag_walk p buf tag_id datum = Ret (ofs, len) \<longrightarrow>
       (\<exists>pos. ofs = pos mod 65536 \<and> datum + 4 \<le> pos \<and> pos < length buf \<and> 4 dvd pos \<and>
          get_cpu32 p buf (pos - 4) = tag_id + 65536 * len))"
  using assms
proof (induction p buf tag_id datum rule: tag_walk.induct)
  case (1 p buf tag_id datum)
  let ?node = "get_cpu32 p buf datum"
  have whole: "\<not> length buf < datum + 4" if "\<not> length buf \<le> datum"
  proof -
    obtain a b where "length buf = 4 * a" "datum = 4 * b" using 1(2,3) by (auto elim!: dvdE)
    then show ?thesis using that by auto
  qed
  have d: "4 dvd datum + 4 + (?node div 65536 + 3) div 4 * 4 mod 65536"
    using 1(3) by (intro dvd_add dvd_mod) auto
  have r: "?node mod 65536 + 65536 * (?node div 65536) = ?node" by simp
  consider (off) "length buf \<le> datum" | (null) "\<not> length buf \<le> datum" "?node = 0"
    | (found) "\<not> length buf \<le> datum" "?node \<noteq> 0" "tag_id = ?node mod 65536"
    | (skip) "\<not> length buf \<le> datum" "?node \<noteq> 0" "tag_id \<noteq> ?node mod 65536" by blast
  then show ?case
  proof cases
    case found
    then show ?thesis
      using whole r 1(3) by (subst (1 2 3) tag_walk.simps) (auto simp: Let_def intro!: exI[of _ "datum + 4"])
  next
    case skip
    note IH = "1.IH"[OF skip(1) whole[OF skip(1)] refl refl refl skip(2,3) "1.prems"(1) d]
    have w: "tag_walk p buf tag_id datum =
        tag_walk p buf tag_id (datum + 4 + (?node div 65536 + 3) div 4 * 4 mod 65536)"
      using skip whole by (subst tag_walk.simps) (simp add: Let_def)
    show ?thesis unfolding w using IH by fastforce
  qed (use whole in \<open>(subst (1 2 3) tag_walk.simps, simp)+\<close>)
qed

section \<open>Runs\<close>

datatype rle_run = Repeat nat u8 | Verbatim bytes

fun run_ok :: "rle_run \<Rightarrow> bool" where
  "run_ok (Repeat n b) \<longleftrightarrow> n < 128"
| "run_ok (Verbatim bs) \<longleftrightarrow> 0 < length bs \<and> length bs \<le> 128"

fun run_bytes :: "rle_run \<Rightarrow> bytes" where
  "run_bytes (Repeat n b) = [of_nat n, b]"
| "run_bytes (Verbatim bs) = of_nat (256 - length bs) # bs"

fun run_expand :: "rle_run \<Rightarrow> bytes" where
  "run_expand (Repeat n b) = replicate n b"
| "run_expand (Verbatim bs) = bs"

definition rle_encode :: "rle_run list \<Rightarrow> bytes" where
  "rle_encode rs = concat (map run_bytes rs)"

definition rle_expand :: "rle_run list \<Rightarrow> bytes" where
  "rle_expand rs = concat (map run_expand rs)"

lemma unat_u8_of_nat: "n < 256 \<Longrightarrow> unat (of_nat n :: u8) = n"
  by (simp add: unat_of_nat)

lemma rle_loop_run:
  assumes "run_ok r"
  shows "rle_loop (run_bytes r @ rest) outlen out =
    (if outlen < length out + length (run_expand r)
     then (- ENOSPC, length out + length (run_expand r), out)
     else rle_loop rest outlen (out @ run_expand r))"
proof (cases r)
  case (Repeat n b)
  have "unat (of_nat n :: u8) = n" using assms Repeat by (simp add: unat_of_nat)
  then show ?thesis using assms Repeat by (subst rle_loop.simps) (simp add: Let_def)
next
  case (Verbatim bs)
  have n: "0 < length bs" "length bs \<le> 128" using assms Verbatim by simp_all
  then have u: "unat (of_nat (256 - length bs) :: u8) = 256 - length bs" by (intro unat_u8_of_nat) simp
  have k: "255 - (256 - length bs) + 1 = length bs" "128 \<le> 256 - length bs" using n by auto
  let ?inp = "of_nat (256 - length bs) # bs @ rest :: bytes"
  have i: "\<not> length ?inp < 2" "unat (?inp ! 0) = 256 - length bs" "drop 1 ?inp = bs @ rest"
    "\<not> length (bs @ rest) < length bs" "drop (length bs) (bs @ rest) = rest" "take (length bs) (bs @ rest) = bs"
    using n u by (auto simp: Suc_le_eq)
  have "rle_loop ?inp outlen out =
      (if outlen < length out + length bs then (- ENOSPC, length out + length bs, out)
       else rle_loop rest outlen (out @ bs))"
    by (subst rle_loop.simps) (simp only: i k Let_def if_False if_True)
  then show ?thesis by (simp add: Verbatim)
qed

lemma rle_loop_runs:
  assumes "\<forall>r \<in> set rs. run_ok r" "length tail < 2" "length (out @ rle_expand rs) \<le> outlen"
  shows "rle_loop (rle_encode rs @ tail) outlen out =
    (0, length (out @ rle_expand rs), out @ rle_expand rs)"
  using assms
proof (induction rs arbitrary: out)
  case Nil
  then show ?case by (subst rle_loop.simps) (simp add: rle_encode_def rle_expand_def)
next
  case (Cons r rs)
  then show ?case
    using Cons.IH[of "out @ run_expand r"] rle_loop_run[of r "rle_encode rs @ tail" outlen out]
    by (simp add: rle_encode_def rle_expand_def)
qed

lemma rle_loop_full:
  assumes "\<forall>r \<in> set rs. run_ok r" "length out \<le> outlen" "outlen < length (out @ rle_expand rs)"
  shows "fst (rle_loop (rle_encode rs @ tail) outlen out) = - ENOSPC"
  using assms
proof (induction rs arbitrary: out)
  case Nil
  then show ?case by (simp add: rle_expand_def)
next
  case (Cons r rs)
  then show ?case
    using Cons.IH[of "out @ run_expand r"] rle_loop_run[of r "rle_encode rs @ tail" outlen out]
    by (auto simp: rle_encode_def rle_expand_def)
qed

lemma rle_encode_length: "\<forall>r \<in> set rs. run_ok r \<Longrightarrow> rs \<noteq> [] \<Longrightarrow> 2 \<le> length (rle_encode rs)"
proof (cases rs)
  case (Cons r rs')
  assume "\<forall>r \<in> set rs. run_ok r"
  then have "2 \<le> length (run_bytes r)" using Cons by (cases r) (auto simp: Suc_le_eq)
  then show ?thesis by (simp add: rle_encode_def Cons)
qed simp

lemma rle_loop_bounds:
  "length out \<le> outlen \<Longrightarrow> rle_loop inp outlen out = (ret, n, out') \<Longrightarrow>
   length out' \<le> outlen \<and> (ret = 0 \<longrightarrow> n = length out') \<and> (ret \<noteq> 0 \<longrightarrow> ret = - ENOSPC)"
proof (induction inp outlen out rule: rle_loop.induct)
  case (1 inp outlen out)
  show ?case
    using "1.prems"(2)
    by (subst (asm) rle_loop.simps)
      (use "1.prems"(1) "1.IH"(1)[OF _ refl refl _ refl] "1.IH"(2)[OF _ refl refl] in
        \<open>auto simp: Let_def split: if_splits\<close>)
qed

section \<open>Properties\<close>

text \<open>
  Looking up a tag is looking up a key. For every list of tags in memory, closed by a null
  node, \<^verbatim>\<open>routerboot_tag_find\<close> finds the first tag with the number, and what it returns are the
  position and the length of its payload; it reports \<^verbatim>\<open>-ENOENT\<close> when there is no such tag.
\<close>

theorem routerboot_tag_find_correct:
  assumes "\<forall>t \<in> set ts. tag_ok t" "0 < tag_id" "length (tags_bytes p ts) < 65532"
    and "buf = tags_bytes p ts @ cpu32 p 0 @ rest"
  shows "case map_of ts tag_id of
      None \<Rightarrow> routerboot_tag_find p buf tag_id = Fail (- ENOENT)
    | Some pl \<Rightarrow> \<exists>ofs. routerboot_tag_find p buf tag_id = Ret (ofs, length pl) \<and>
        take (length pl) (drop ofs buf) = pl"
  using tag_find_tags[OF assms] by (auto split: option.splits)

theorem routerboot_tag_find_correct_witness:
  "\<exists>ofs. routerboot_tag_find \<lparr>pf_big_endian = True, pf_size_bits = 32, pf_alloc = \<lambda>_. True\<rparr>
      (tags_bytes \<lparr>pf_big_endian = True, pf_size_bits = 32, pf_alloc = \<lambda>_. True\<rparr> [(3, [1, 2, 3]), (5, [7])] @
       cpu32 \<lparr>pf_big_endian = True, pf_size_bits = 32, pf_alloc = \<lambda>_. True\<rparr> 0 @ []) 5 = Ret (ofs, 1)"
  using routerboot_tag_find_correct[of "[(3, [1, 2, 3]), (5, [7])]" 5
      "\<lparr>pf_big_endian = True, pf_size_bits = 32, pf_alloc = \<lambda>_. True\<rparr>" _ "[]", OF _ _ _ refl]
  by (auto simp: tags_bytes_def tag_bytes.simps)

text \<open>
  C26. Decoding inverts encoding. Every sequence of runs is decoded to the bytes it stands for
  when they fit into the output, and is refused with \<^verbatim>\<open>-ENOSPC\<close> when they do not; a single byte
  behind the last run is ignored.
\<close>

theorem routerboot_rle_decode_correct:
  assumes "\<forall>r \<in> set rs. run_ok r" "rs \<noteq> []" "length tail < 2"
  shows "if length (rle_expand rs) \<le> outlen
     then routerboot_rle_decode (rle_encode rs @ tail) outlen = (0, length (rle_expand rs), rle_expand rs)
     else fst (routerboot_rle_decode (rle_encode rs @ tail) outlen) = - ENOSPC"
  using rle_loop_runs[OF assms(1,3), of "[]" outlen] rle_loop_full[OF assms(1), of "[]" outlen tail]
    rle_encode_length[OF assms(1,2)]
  by (simp add: routerboot_rle_decode_def)

theorem routerboot_rle_decode_correct_witness:
  "routerboot_rle_decode [3, 9, 254, 1, 2, 0] 8 = (0, 5, [9, 9, 9, 1, 2])"
  using routerboot_rle_decode_correct[of "[Repeat 3 9, Verbatim [1, 2]]" "[0]" 8]
  by (simp add: rle_encode_def rle_expand_def numeral_eq_Suc)

text \<open>
  Neither routine leaves its buffer. On every content, a search over whole words does not
  read outside the buffer and what it finds starts inside; decoding never stores more than the
  output holds, and reports the number of bytes stored when it succeeds.
\<close>

theorem routerboot_parsers_bounded:
  assumes "4 dvd length buf"
  shows "routerboot_tag_find p buf tag_id \<noteq> Fault \<and>
    (\<forall>ofs len. routerboot_tag_find p buf tag_id = Ret (ofs, len) \<and> length buf \<le> 65536 \<longrightarrow>
       ofs < length buf \<and> get_cpu32 p buf (ofs - 4) = tag_id + 65536 * len) \<and>
    (\<forall>ret n out. routerboot_rle_decode inp outlen = (ret, n, out) \<longrightarrow>
       length out \<le> outlen \<and> (ret = 0 \<longrightarrow> n = length out))"
proof -
  have "\<forall>ret n out. routerboot_rle_decode inp outlen = (ret, n, out) \<longrightarrow>
       length out \<le> outlen \<and> (ret = 0 \<longrightarrow> n = length out)"
    using rle_loop_bounds[of "[]" outlen inp] by (auto simp: routerboot_rle_decode_def)
  moreover have "ofs < length buf \<and> get_cpu32 p buf (ofs - 4) = tag_id + 65536 * len"
    if f: "routerboot_tag_find p buf tag_id = Ret (ofs, len)" "length buf \<le> 65536" for ofs len
  proof -
    have "tag_walk p buf tag_id 0 = Ret (ofs, len)" using f by (simp add: routerboot_tag_find_def split: if_splits)
    then obtain pos where "ofs = pos mod 65536" "pos < length buf" "get_cpu32 p buf (pos - 4) = tag_id + 65536 * len"
      using tag_walk_sound[OF assms, of 0 p tag_id] by auto
    then show ?thesis using f(2) by simp
  qed
  moreover have "routerboot_tag_find p buf tag_id \<noteq> Fault"
    using tag_walk_sound[OF assms, of 0 p tag_id] by (simp add: routerboot_tag_find_def)
  ultimately show ?thesis by blast
qed

theorem routerboot_parsers_bounded_witness:
  "routerboot_tag_find \<lparr>pf_big_endian = False, pf_size_bits = 32, pf_alloc = \<lambda>_. True\<rparr> [1, 0, 255, 255] 1 \<noteq> Fault"
proof -
  have "4 dvd length ([1, 0, 255, 255] :: bytes)" by (simp add: dvd_def numeral_eq_Suc)
  from routerboot_parsers_bounded[OF this] show ?thesis by blast
qed

end
