(* ===== verification/Rb_Softconfig.thy ===== *)
theory Rb_Softconfig
  imports Routerboot
begin

unbundle bit_operations_syntax

text \<open>
  The driver for the software settings of MikroTik boards
  (\<^verbatim>\<open>drivers/platform/mikrotik/rb_softconfig.c\<close>). The settings are tags in a flash partition;
  the driver keeps a copy in memory, shows and changes them through files, marks the copy dirty
  by a zero checksum, and writes it back on request. The specification is a list of tags; a
  store changes one payload of it, a commit makes it the content of the flash.
\<close>

section \<open>Constants\<close>

definition RB_SCID_UART_SPEED :: nat where "RB_SCID_UART_SPEED = 0x01"
definition RB_SCID_BOOT_DELAY :: nat where "RB_SCID_BOOT_DELAY = 0x02"
definition RB_SCID_BOOT_DEVICE :: nat where "RB_SCID_BOOT_DEVICE = 0x03"
definition RB_SCID_BOOT_KEY :: nat where "RB_SCID_BOOT_KEY = 0x04"
definition RB_SCID_CPU_MODE :: nat where "RB_SCID_CPU_MODE = 0x05"
definition RB_SCID_BIOS_VERSION :: nat where "RB_SCID_BIOS_VERSION = 0x06"
definition RB_SCID_BOOT_PROTOCOL :: nat where "RB_SCID_BOOT_PROTOCOL = 0x09"
definition RB_SCID_CPU_FREQ_IDX :: nat where "RB_SCID_CPU_FREQ_IDX = 0x0C"
definition RB_SCID_BOOTER :: nat where "RB_SCID_BOOTER = 0x0D"
definition RB_SCID_SILENT_BOOT :: nat where "RB_SCID_SILENT_BOOT = 0x0F"
definition RB_SCID_PREBOOT_ETHERBOOT :: nat where "RB_SCID_PREBOOT_ETHERBOOT = 0x24"
definition RB_SCID_PREBOOT_ETHERBOOT_SERVER :: nat where "RB_SCID_PREBOOT_ETHERBOOT_SERVER = 0x25"

definition RB_BOOT_DELAY_MIN :: nat where "RB_BOOT_DELAY_MIN = 1"
definition RB_BOOT_DELAY_MAX :: nat where "RB_BOOT_DELAY_MAX = 9"
definition RB_PREBOOT_ETHERBOOT_MIN :: nat where "RB_PREBOOT_ETHERBOOT_MIN = 0"
definition RB_PREBOOT_ETHERBOOT_MAX :: nat where "RB_PREBOOT_ETHERBOOT_MAX = 30"
definition RB_SC_CFG_SIZE :: nat where "RB_SC_CFG_SIZE = 0x1000"
definition RB_SC_CRC32_OFFSET :: nat where "RB_SC_CRC32_OFFSET = 4"

section \<open>Kernel functions\<close>

text \<open>
  What the driver uses of the kernel: the platform; comparison of a string from user space with
  a keyword (\<^verbatim>\<open>sysfs_streq\<close>); the parsers \<^verbatim>\<open>kstrtou32\<close> with base 10, \<^verbatim>\<open>in4_pton\<close> and
  \<^verbatim>\<open>kstrtobool\<close>; \<^verbatim>\<open>crc32\<close>; \<^verbatim>\<open>capable\<close>. On a machine of the type ATH79, \<open>ev_soc\<close> holds what
  the predicates \<^verbatim>\<open>soc_is_*\<close> answer.
\<close>

record ath79 =
  soc_is_ar7161 :: bool
  soc_is_ar71xx :: bool
  soc_is_ar724x :: bool
  soc_is_ar9344 :: bool
  soc_is_qca953x :: bool
  soc_is_qca9556 :: bool
  soc_is_qca9558 :: bool

record sc_env =
  ev_pf :: platform
  ev_streq :: "string \<Rightarrow> string \<Rightarrow> bool"
  ev_strtou32 :: "string \<Rightarrow> int + nat"
  ev_in4_pton :: "string \<Rightarrow> bytes option"
  ev_strtobool :: "string \<Rightarrow> int + bool"
  ev_crc32 :: "u32 \<Rightarrow> bytes \<Rightarrow> u32"
  ev_capable :: bool
  ev_soc :: "ath79 option"

section \<open>The buffer\<close>

definition sc_put32 :: "platform \<Rightarrow> nat \<Rightarrow> nat \<Rightarrow> bytes \<Rightarrow> bytes" where
  "sc_put32 p ofs n buf = store_at buf ofs (cpu32 p n)"

definition RB_SC_GETCRC :: "platform \<Rightarrow> bytes \<Rightarrow> nat" where
  "RB_SC_GETCRC p buf = get_cpu32 p buf RB_SC_CRC32_OFFSET"

definition RB_SC_SETCRC :: "platform \<Rightarrow> nat \<Rightarrow> bytes \<Rightarrow> bytes" where
  "RB_SC_SETCRC p crc buf = sc_put32 p RB_SC_CRC32_OFFSET crc buf"

definition RB_SC_CLRCRC :: "platform \<Rightarrow> bytes \<Rightarrow> bytes" where
  "RB_SC_CLRCRC p buf = sc_put32 p RB_SC_CRC32_OFFSET 0 buf"

section \<open>Showing and storing\<close>

text \<open>
  A show function gets the buffer and the position and length of the payload; a store function
  also the text and its length, and returns the value of the call and the buffer. An access to
  a payload that is not inside the buffer is \<open>Fault\<close>.
\<close>

type_synonym sc_show = "bytes \<Rightarrow> nat \<Rightarrow> nat \<Rightarrow> string res"
type_synonym sc_store = "string \<Rightarrow> nat \<Rightarrow> bytes \<Rightarrow> nat \<Rightarrow> nat \<Rightarrow> (int \<times> bytes) res"

definition sc_word :: "platform \<Rightarrow> bytes \<Rightarrow> nat \<Rightarrow> nat res" where
  "sc_word p buf ofs = (if ofs + 4 \<le> length buf then Ret (get_cpu32 p buf ofs) else Fault)"

definition sc_set :: "platform \<Rightarrow> bytes \<Rightarrow> nat \<Rightarrow> bytes \<Rightarrow> nat \<Rightarrow> (int \<times> bytes) res" where
  "sc_set p dat count buf ofs =
     (if ofs + length dat \<le> length buf then Ret (int count, RB_SC_CLRCRC p (store_at buf ofs dat)) else Fault)"

definition marked :: "bool \<Rightarrow> string \<Rightarrow> string" where
  "marked b str = (if b then ''['' @ str @ ''] '' else str @ '' '')"

record sc_u32tvs =
  tv_val :: nat
  tv_str :: string

abbreviation RB_SC_TVS :: "nat \<Rightarrow> string \<Rightarrow> sc_u32tvs" where
  "RB_SC_TVS v str \<equiv> \<lparr>tv_val = v, tv_str = str\<rparr>"

definition sc_tag_show_u32tvs :: "platform \<Rightarrow> sc_u32tvs list \<Rightarrow> int \<Rightarrow> sc_show" where
  "sc_tag_show_u32tvs p tvs tvselmts buf ofs len =
     (if tvselmts < 0 then routerboot_tag_show_u32s p buf ofs len
      else if len \<noteq> 4 then Fail (- EINVAL)
      else bind_res (sc_word p buf ofs) (\<lambda>data.
        Ret (concat (map (\<lambda>t. marked (tv_val t = data) (tv_str t)) (take (nat tvselmts) tvs)) @ newline)))"

definition sc_tag_store_u32tvs :: "sc_env \<Rightarrow> sc_u32tvs list \<Rightarrow> int \<Rightarrow> sc_store" where
  "sc_tag_store_u32tvs ev tvs tvselmts txt count buf ofs len =
     (if tvselmts < 0 then Ret (tvselmts, buf)
      else if len \<noteq> 4 then Ret (- EINVAL, buf)
      else case find (\<lambda>t. ev_streq ev txt (tv_str t)) (take (nat tvselmts) tvs) of
             Some t \<Rightarrow> sc_set (ev_pf ev) (cpu32 (ev_pf ev) (tv_val t)) count buf ofs
           | None \<Rightarrow> Ret (- EINVAL, buf))"

record sc_boolts =
  strfalse :: string
  strtrue :: string

definition sc_tag_show_boolts :: "platform \<Rightarrow> sc_boolts \<Rightarrow> sc_show" where
  "sc_tag_show_boolts p bts buf ofs len =
     (if len \<noteq> 4 then Fail (- EINVAL)
      else bind_res (sc_word p buf ofs) (\<lambda>data.
        Ret (if data \<noteq> 0 then strfalse bts @ '' ['' @ strtrue bts @ '']'' @ newline
             else ''['' @ strfalse bts @ ''] '' @ strtrue bts @ newline)))"

definition sc_tag_store_boolts :: "sc_env \<Rightarrow> sc_boolts \<Rightarrow> sc_store" where
  "sc_tag_store_boolts ev bts txt count buf ofs len =
     (if len \<noteq> 4 then Ret (- EINVAL, buf)
      else if ev_streq ev txt (strfalse bts) then sc_set (ev_pf ev) (cpu32 (ev_pf ev) 0) count buf ofs
      else if ev_streq ev txt (strtrue bts) then sc_set (ev_pf ev) (cpu32 (ev_pf ev) 1) count buf ofs
      else Ret (- EINVAL, buf))"

definition sc_uartspeeds :: "sc_u32tvs list" where
  "sc_uartspeeds =
     [RB_SC_TVS 8 ''off'', RB_SC_TVS 7 ''1200'', RB_SC_TVS 6 ''2400'', RB_SC_TVS 5 ''4800'',
      RB_SC_TVS 4 ''9600'', RB_SC_TVS 3 ''19200'', RB_SC_TVS 2 ''38400'', RB_SC_TVS 1 ''57600'',
      RB_SC_TVS 0 ''115200'']"

definition sc_bootdevices :: "sc_u32tvs list" where
  "sc_bootdevices =
     [RB_SC_TVS 0 ''eth'', RB_SC_TVS 1 ''flasheth'', RB_SC_TVS 3 ''ethonce'', RB_SC_TVS 5 ''flash'',
      RB_SC_TVS 7 ''cfg'', RB_SC_TVS 8 ''cfgonce'']"

definition sc_bootkey :: sc_boolts where "sc_bootkey = \<lparr>strfalse = ''any'', strtrue = ''del''\<rparr>"
definition sc_cpumode :: sc_boolts where "sc_cpumode = \<lparr>strfalse = ''powersave'', strtrue = ''regular''\<rparr>"
definition sc_bootproto :: sc_boolts where "sc_bootproto = \<lparr>strfalse = ''bootp'', strtrue = ''dhcp''\<rparr>"
definition sc_booter :: sc_boolts where "sc_booter = \<lparr>strfalse = ''regular'', strtrue = ''backup''\<rparr>"
definition sc_silent_boot :: sc_boolts where "sc_silent_boot = \<lparr>strfalse = ''off'', strtrue = ''on''\<rparr>"

definition sc_show_range :: "platform \<Rightarrow> nat \<Rightarrow> nat \<Rightarrow> sc_show" where
  "sc_show_range p lo hi buf ofs len =
     (if len \<noteq> 4 then Fail (- EINVAL)
      else bind_res (sc_word p buf ofs) (\<lambda>data.
        Ret (concat (map (\<lambda>i. marked (i = data) (dec i)) [lo..<Suc hi]) @ newline)))"

definition sc_tag_show_bootdelays :: "platform \<Rightarrow> sc_show" where
  "sc_tag_show_bootdelays p = sc_show_range p RB_BOOT_DELAY_MIN RB_BOOT_DELAY_MAX"

definition sc_tag_store_bootdelays :: "sc_env \<Rightarrow> sc_store" where
  "sc_tag_store_bootdelays ev txt count buf ofs len =
     (if len \<noteq> 4 then Ret (- EINVAL, buf)
      else case ev_strtou32 ev txt of
             Inl ret \<Rightarrow> Ret (ret, buf)
           | Inr data \<Rightarrow>
               if data < RB_BOOT_DELAY_MIN \<or> RB_BOOT_DELAY_MAX < data then Ret (- EINVAL, buf)
               else sc_set (ev_pf ev) (cpu32 (ev_pf ev) data) count buf ofs)"

text \<open>The address is printed by \<^verbatim>\<open>%pI4\<close>: four decimal numbers.\<close>

definition sc_tag_show_preboot_etherboot_server :: sc_show where
  "sc_tag_show_preboot_etherboot_server buf ofs len =
     (if len \<noteq> 4 then Fail (- EINVAL)
      else if length buf < ofs + 4 then Fault
      else Ret (dec (unat (buf ! ofs)) @ ''.'' @ dec (unat (buf ! (ofs + 1))) @ ''.'' @
                dec (unat (buf ! (ofs + 2))) @ ''.'' @ dec (unat (buf ! (ofs + 3))) @ newline))"

definition sc_tag_store_preboot_etherboot_server :: "sc_env \<Rightarrow> sc_store" where
  "sc_tag_store_preboot_etherboot_server ev txt count buf ofs len =
     (if len \<noteq> 4 then Ret (- EINVAL, buf)
      else case ev_in4_pton ev txt of
             None \<Rightarrow> Ret (- EINVAL, buf)
           | Some data \<Rightarrow> sc_set (ev_pf ev) data count buf ofs)"

definition sc_tag_show_preboot_etherboot :: "platform \<Rightarrow> sc_show" where
  "sc_tag_show_preboot_etherboot p = sc_show_range p RB_PREBOOT_ETHERBOOT_MIN RB_PREBOOT_ETHERBOOT_MAX"

definition sc_tag_store_preboot_etherboot :: "sc_env \<Rightarrow> sc_store" where
  "sc_tag_store_preboot_etherboot ev txt count buf ofs len =
     (if len \<noteq> 4 then Ret (- EINVAL, buf)
      else case ev_strtou32 ev txt of
             Inl ret \<Rightarrow> Ret (ret, buf)
           | Inr data \<Rightarrow>
               if RB_PREBOOT_ETHERBOOT_MAX < data then Ret (- EINVAL, buf)
               else sc_set (ev_pf ev) (cpu32 (ev_pf ev) data) count buf ofs)"

section \<open>CPU frequency\<close>

definition sc_cpufreq_indexes_ath79_9x :: "sc_u32tvs list" where
  "sc_cpufreq_indexes_ath79_9x =
     [RB_SC_TVS 0 ''a'', RB_SC_TVS 8 ''b'', RB_SC_TVS 16 ''c'', RB_SC_TVS 24 ''d'', RB_SC_TVS 32 ''e'',
      RB_SC_TVS 40 ''f'']"

definition sc_cpufreq_indexes_ath79_7x :: "sc_u32tvs list" where
  "sc_cpufreq_indexes_ath79_7x =
     [RB_SC_TVS 0 ''a'', RB_SC_TVS 144 ''b'', RB_SC_TVS 288 ''c'', RB_SC_TVS 432 ''d'', RB_SC_TVS 576 ''e'',
      RB_SC_TVS 720 ''f'', RB_SC_TVS 864 ''g'', RB_SC_TVS 1008 ''h'']"

definition sc_tag_cpufreq_ath79_arraysize :: "ath79 \<Rightarrow> int" where
  "sc_tag_cpufreq_ath79_arraysize soc =
     (if soc_is_ar7161 soc then 7 + 1
      else if soc_is_ar724x soc then 3 + 1
      else if soc_is_ar9344 soc then 5 + 1
      else if soc_is_qca953x soc then 4 + 1
      else if soc_is_qca9556 soc then 2 + 1
      else if soc_is_qca9558 soc then 3 + 1
      else - EOPNOTSUPP)"

definition sc_cpufreq_tvs :: "ath79 \<Rightarrow> sc_u32tvs list" where
  "sc_cpufreq_tvs soc =
     (if soc_is_ar71xx soc \<or> soc_is_ar724x soc then sc_cpufreq_indexes_ath79_7x
      else sc_cpufreq_indexes_ath79_9x)"

definition sc_tag_show_cpufreq_indexes :: "sc_env \<Rightarrow> sc_show" where
  "sc_tag_show_cpufreq_indexes ev =
     (case ev_soc ev of
        Some soc \<Rightarrow> sc_tag_show_u32tvs (ev_pf ev) (sc_cpufreq_tvs soc) (sc_tag_cpufreq_ath79_arraysize soc)
      | None \<Rightarrow> routerboot_tag_show_u32s (ev_pf ev))"

definition sc_tag_store_cpufreq_indexes :: "sc_env \<Rightarrow> sc_store option" where
  "sc_tag_store_cpufreq_indexes ev =
     (case ev_soc ev of
        Some soc \<Rightarrow> Some (sc_tag_store_u32tvs ev (sc_cpufreq_tvs soc) (sc_tag_cpufreq_ath79_arraysize soc))
      | None \<Rightarrow> None)"

section \<open>The attributes\<close>

record sc_attr =
  tag_id :: nat
  attr_name :: string
  tshow :: sc_show
  tstore :: "sc_store option"

definition tvs_attr :: "sc_env \<Rightarrow> nat \<Rightarrow> string \<Rightarrow> sc_u32tvs list \<Rightarrow> sc_attr" where
  "tvs_attr ev tg name tvs =
     \<lparr>tag_id = tg, attr_name = name, tshow = sc_tag_show_u32tvs (ev_pf ev) tvs (int (length tvs)),
      tstore = Some (sc_tag_store_u32tvs ev tvs (int (length tvs)))\<rparr>"

definition boolts_attr :: "sc_env \<Rightarrow> nat \<Rightarrow> string \<Rightarrow> sc_boolts \<Rightarrow> sc_attr" where
  "boolts_attr ev tg name bts =
     \<lparr>tag_id = tg, attr_name = name, tshow = sc_tag_show_boolts (ev_pf ev) bts,
      tstore = Some (sc_tag_store_boolts ev bts)\<rparr>"

definition sc_attrs :: "sc_env \<Rightarrow> sc_attr list" where
  "sc_attrs ev =
     [tvs_attr ev RB_SCID_UART_SPEED ''uart_speed'' sc_uartspeeds,
      \<lparr>tag_id = RB_SCID_BOOT_DELAY, attr_name = ''boot_delay'', tshow = sc_tag_show_bootdelays (ev_pf ev),
       tstore = Some (sc_tag_store_bootdelays ev)\<rparr>,
      tvs_attr ev RB_SCID_BOOT_DEVICE ''boot_device'' sc_bootdevices,
      boolts_attr ev RB_SCID_BOOT_KEY ''boot_key'' sc_bootkey,
      boolts_attr ev RB_SCID_CPU_MODE ''cpu_mode'' sc_cpumode,
      \<lparr>tag_id = RB_SCID_BIOS_VERSION, attr_name = ''bios_version'', tshow = routerboot_tag_show_string,
       tstore = None\<rparr>,
      boolts_attr ev RB_SCID_BOOT_PROTOCOL ''boot_proto'' sc_bootproto,
      \<lparr>tag_id = RB_SCID_CPU_FREQ_IDX, attr_name = ''cpufreq_index'', tshow = sc_tag_show_cpufreq_indexes ev,
       tstore = sc_tag_store_cpufreq_indexes ev\<rparr>,
      boolts_attr ev RB_SCID_BOOTER ''booter'' sc_booter,
      boolts_attr ev RB_SCID_SILENT_BOOT ''silent_boot'' sc_silent_boot,
      \<lparr>tag_id = RB_SCID_PREBOOT_ETHERBOOT, attr_name = ''preboot_etherboot'',
       tshow = sc_tag_show_preboot_etherboot (ev_pf ev), tstore = Some (sc_tag_store_preboot_etherboot ev)\<rparr>,
      \<lparr>tag_id = RB_SCID_PREBOOT_ETHERBOOT_SERVER, attr_name = ''preboot_etherboot_server'',
       tshow = sc_tag_show_preboot_etherboot_server,
       tstore = Some (sc_tag_store_preboot_etherboot_server ev)\<rparr>]"

text \<open>
  The state of the driver: the buffer, the directory in the file system, and the members
  \<^verbatim>\<open>pld_ofs\<close> and \<^verbatim>\<open>pld_len\<close> of the attributes, in their order.
\<close>

record sc_st =
  sc_buf :: "bytes option"
  sc_kobj :: bool
  sc_pld :: "(nat \<times> nat) list"

definition sc_attr_show :: "sc_env \<Rightarrow> nat \<Rightarrow> sc_st \<Rightarrow> string res" where
  "sc_attr_show ev i st =
     (let (ofs, len) = sc_pld st ! i
      in if len = 0 then Fail (- ENOENT)
         else case sc_buf st of None \<Rightarrow> Fault | Some buf \<Rightarrow> tshow (sc_attrs ev ! i) buf ofs len)"

definition sc_attr_store :: "sc_env \<Rightarrow> nat \<Rightarrow> string \<Rightarrow> nat \<Rightarrow> sc_st \<Rightarrow> (int \<times> sc_st) res" where
  "sc_attr_store ev i txt count st =
     (if \<not> ev_capable ev then Ret (- EACCES, st)
      else case tstore (sc_attrs ev ! i) of
             None \<Rightarrow> Ret (- EOPNOTSUPP, st)
           | Some store \<Rightarrow>
               (let (ofs, len) = sc_pld st ! i
                in if len = 0 then Ret (- ENOENT, st)
                   else case sc_buf st of
                          None \<Rightarrow> Fault
                        | Some buf \<Rightarrow> bind_res (store txt count buf ofs len) (\<lambda>(ret, buf').
                            Ret (ret, st\<lparr>sc_buf := Some buf'\<rparr>))))"

definition sc_commit_show :: "sc_env \<Rightarrow> bytes \<Rightarrow> string" where
  "sc_commit_show ev buf = (if RB_SC_GETCRC (ev_pf ev) buf \<noteq> 0 then ''clean'' else ''dirty'') @ newline"

section \<open>The flash\<close>

text \<open>
  The \<^verbatim>\<open>mtd\<close> device of the partition: reading gives an error number and the bytes delivered,
  writing an error number, the number of bytes written and the new content.
\<close>

record 'd sc_dev =
  sd_size :: nat
  sd_get :: bool
  sd_read :: "'d \<Rightarrow> nat \<Rightarrow> nat \<Rightarrow> int \<times> bytes"
  sd_erase :: "'d \<Rightarrow> nat \<Rightarrow> nat \<Rightarrow> int \<times> 'd"
  sd_write :: "'d \<Rightarrow> nat \<Rightarrow> bytes \<Rightarrow> int \<times> nat \<times> 'd"

text \<open>The part of \<^verbatim>\<open>sc_commit_store\<close> under the lock: error, bytes transferred, device, buffer.\<close>

definition sc_reread :: "'d sc_dev \<Rightarrow> 'd \<Rightarrow> bytes \<Rightarrow> int \<times> nat \<times> 'd \<times> bytes" where
  "sc_reread sd d buf = (let (ret, got) = sd_read sd d 0 (length buf) in (ret, length got, d, overlay buf got))"

definition sc_flush :: "sc_env \<Rightarrow> 'd sc_dev \<Rightarrow> 'd \<Rightarrow> bytes \<Rightarrow> int \<times> nat \<times> 'd \<times> bytes" where
  "sc_flush ev sd d buf =
     (let crc = unat (NOT (ev_crc32 ev (NOT 0) buf));
          buf1 = RB_SC_SETCRC (ev_pf ev) crc buf;
          (ret, d1) = sd_erase sd d 0 (sd_size sd)
      in if ret \<noteq> 0 then (ret, 0, d1, buf1)
         else let (ret2, n, d2) = sd_write sd d1 0 buf1 in (ret2, n, d2, buf1))"

definition sc_commit_store ::
  "sc_env \<Rightarrow> 'd sc_dev \<Rightarrow> string \<Rightarrow> nat \<Rightarrow> 'd \<Rightarrow> bytes \<Rightarrow> int \<times> 'd \<times> bytes" where
  "sc_commit_store ev sd txt count d buf =
     (if RB_SC_GETCRC (ev_pf ev) buf \<noteq> 0 then (int count, d, buf)
      else case ev_strtobool ev txt of
             Inl ret \<Rightarrow> (ret, d, buf)
           | Inr flush \<Rightarrow>
               if \<not> sd_get sd then (- ENODEV, d, buf)
               else
                 (let (ret, bytes_rw, d1, buf1) = (if flush then sc_flush ev sd d buf else sc_reread sd d buf)
                  in if ret \<noteq> 0 then (ret, d1, RB_SC_CLRCRC (ev_pf ev) buf1)
                     else if bytes_rw \<noteq> length buf then (- EIO, d1, RB_SC_CLRCRC (ev_pf ev) buf1)
                     else (int count, d1, buf1)))"

section \<open>Initialisation\<close>

text \<open>The loop over the attributes; \<open>buf\<close> starts behind magic and checksum.\<close>

fun locate_tags :: "platform \<Rightarrow> bytes \<Rightarrow> nat \<Rightarrow> nat list \<Rightarrow> (nat \<times> nat) list res" where
  "locate_tags p buf skip [] = Ret []"
| "locate_tags p buf skip (tg # tgs) =
     (case routerboot_tag_find p buf tg of
        Fault \<Rightarrow> Fault
      | Diverges \<Rightarrow> Diverges
      | Fail _ \<Rightarrow> bind_res (locate_tags p buf skip tgs) (\<lambda>r. Ret ((0, 0) # r))
      | Ret (ofs, len) \<Rightarrow> bind_res (locate_tags p buf skip tgs) (\<lambda>r. Ret (((ofs + skip) mod 65536, len) # r)))"

text \<open>
  \<open>alloc_ok\<close>, \<open>kobj_ok\<close> and \<open>commit_ret\<close> are the results of \<^verbatim>\<open>kmalloc\<close>,
  \<^verbatim>\<open>kobject_create_and_add\<close> and of the creation of the file \<^verbatim>\<open>commit\<close>. A partition too small
  for magic and checksum makes the code read outside its buffer.
\<close>

definition rb_softconfig_init ::
  "sc_env \<Rightarrow> 'd sc_dev \<Rightarrow> bool \<Rightarrow> bool \<Rightarrow> int \<Rightarrow> 'd \<Rightarrow> sc_st \<Rightarrow> (int \<times> sc_st) res" where
  "rb_softconfig_init ev sd alloc_ok kobj_ok commit_ret d st =
     (let st0 = st\<lparr>sc_buf := None, sc_kobj := False\<rparr>;
          sc_buflen = min (sd_size sd) RB_SC_CFG_SIZE;
          (ret, buf) = sd_read sd d 0 sc_buflen
      in if \<not> sd_get sd then Ret (- ENODEV, st0)
         else if \<not> alloc_ok then Ret (- ENOMEM, st0)
         else if ret \<noteq> 0 then Ret (ret, st0)
         else if length buf \<noteq> sc_buflen then Ret (- EIO, st0)
         else if sc_buflen < 4 then Fault
         else if get_cpu32 (ev_pf ev) buf 0 \<noteq> RB_MAGIC_SOFT then Ret (- EINVAL, st0)
         else if sc_buflen < 8 then Fault
         else if \<not> kobj_ok then Ret (- ENOMEM, st0)
         else bind_res (locate_tags (ev_pf ev) (drop 8 buf) 8 (map tag_id (sc_attrs ev))) (\<lambda>pld.
           Ret (if commit_ret \<noteq> 0 then (commit_ret, st0\<lparr>sc_pld := pld\<rparr>)
                else (0, \<lparr>sc_buf = Some buf, sc_kobj = True, sc_pld = pld\<rparr>))))"

definition rb_softconfig_exit :: "sc_st \<Rightarrow> sc_st" where
  "rb_softconfig_exit st = st\<lparr>sc_buf := None, sc_kobj := False\<rparr>"

section \<open>The configuration as a list of tags\<close>

definition soft_image :: "platform \<Rightarrow> nat \<Rightarrow> tag list \<Rightarrow> bytes \<Rightarrow> bytes" where
  "soft_image p crc ts rest = cpu32 p RB_MAGIC_SOFT @ cpu32 p crc @ tags_bytes p ts @ cpu32 p 0 @ rest"

definition soft_ok :: "platform \<Rightarrow> tag list \<Rightarrow> bytes \<Rightarrow> bool" where
  "soft_ok p ts rest \<longleftrightarrow> (\<forall>t \<in> set ts. tag_ok t) \<and> length (soft_image p 0 ts rest) \<le> RB_SC_CFG_SIZE"

text \<open>The state of a driver that has loaded the configuration.\<close>

definition sc_loaded :: "sc_env \<Rightarrow> nat \<Rightarrow> tag list \<Rightarrow> bytes \<Rightarrow> sc_st \<Rightarrow> bool" where
  "sc_loaded ev crc ts rest st \<longleftrightarrow>
     soft_ok (ev_pf ev) ts rest \<and> sc_buf st = Some (soft_image (ev_pf ev) crc ts rest) \<and> sc_kobj st \<and>
     sc_pld st = map (\<lambda>a. case tag_at (tag_id a) ts of None \<Rightarrow> (0, 0) | Some (ofs, len) \<Rightarrow> (ofs + 8, len))
                   (sc_attrs ev)"

lemma length_soft_image [simp]: "length (soft_image p crc ts rest) = 12 + length (tags_bytes p ts) + length rest"
  by (simp add: soft_image_def)

lemma soft_image_crc: "RB_SC_SETCRC p crc' (soft_image p crc ts rest) = soft_image p crc' ts rest"
  by (simp add: RB_SC_SETCRC_def RB_SC_CRC32_OFFSET_def sc_put32_def store_at_def soft_image_def)

lemma soft_image_clear: "RB_SC_CLRCRC p (soft_image p crc ts rest) = soft_image p 0 ts rest"
  using soft_image_crc[of p 0] by (simp add: RB_SC_CLRCRC_def RB_SC_SETCRC_def)

lemma soft_image_getcrc: "crc < 4294967296 \<Longrightarrow> RB_SC_GETCRC p (soft_image p crc ts rest) = crc"
  using get_cpu32_shift0[of p "cpu32 p RB_MAGIC_SOFT" "cpu32 p crc @ tags_bytes p ts @ cpu32 p 0 @ rest"]
  by (simp add: RB_SC_GETCRC_def RB_SC_CRC32_OFFSET_def soft_image_def get_cpu32_cpu32)

lemma soft_image_magic: "get_cpu32 p (soft_image p crc ts rest) 0 = RB_MAGIC_SOFT"
  by (simp add: soft_image_def get_cpu32_cpu32 RB_MAGIC_SOFT_def)

lemma soft_image_store:
  assumes "tag_at tg ts = Some (ofs, length new)"
  shows "store_at (soft_image p crc ts rest) (ofs + 8) new = soft_image p crc (tag_put tg new ts) rest"
proof -
  have b: "store_at (tags_bytes p ts) ofs new = tags_bytes p (tag_put tg new ts)"
    "ofs + length new \<le> length (tags_bytes p ts)"
    using tag_at_bytes[OF assms, of new p] by simp_all
  define pre where "pre = cpu32 p RB_MAGIC_SOFT @ cpu32 p crc"
  have pre: "length pre = 8" "soft_image p crc u rest = pre @ tags_bytes p u @ (cpu32 p 0 @ rest)" for u
    by (simp_all add: pre_def soft_image_def)
  show ?thesis
    unfolding pre(2) b(1)[symmetric] using b(2) by (simp add: store_at_def pre(1))
qed

lemma sc_tags_pos: "a \<in> set (sc_attrs ev) \<Longrightarrow> 0 < tag_id a"
  by (auto simp: sc_attrs_def tvs_attr_def boolts_attr_def RB_SCID_UART_SPEED_def RB_SCID_BOOT_DELAY_def
    RB_SCID_BOOT_DEVICE_def RB_SCID_BOOT_KEY_def RB_SCID_CPU_MODE_def RB_SCID_BIOS_VERSION_def
    RB_SCID_BOOT_PROTOCOL_def RB_SCID_CPU_FREQ_IDX_def RB_SCID_BOOTER_def RB_SCID_SILENT_BOOT_def
    RB_SCID_PREBOOT_ETHERBOOT_def RB_SCID_PREBOOT_ETHERBOOT_SERVER_def)

lemma tag_at_le: "tag_at t ts = Some (ofs, len) \<Longrightarrow> ofs + len \<le> length (tags_bytes p ts)"
  using tag_at_bytes[of t ts ofs len "replicate len 0" p] by simp

lemma locate_tags_at:
  assumes "\<forall>t \<in> set ts. tag_ok t" "\<forall>a \<in> set as. 0 < tag_id a" "length (tags_bytes p ts) + skip < 65536"
  shows "locate_tags p (tags_bytes p ts @ cpu32 p 0 @ rest) skip (map tag_id as) =
    Ret (map (\<lambda>a. case tag_at (tag_id a) ts of None \<Rightarrow> (0, 0) | Some (ofs, len) \<Rightarrow> (ofs + skip, len)) as)"
  using assms(2)
proof (induction as)
  case (Cons a as)
  show ?case
  proof (cases "tag_at (tag_id a) ts")
    case None
    then show ?thesis using Cons tag_find_at[OF assms(1), of "tag_id a" p rest] by simp
  next
    case (Some r)
    obtain ofs len where r: "r = (ofs, len)" by (cases r)
    have "ofs < 65536 - skip" using tag_at_le[OF Some[unfolded r], of p] assms(3) by linarith
    then show ?thesis using Cons Some r tag_find_at[OF assms(1), of "tag_id a" p rest] by simp
  qed
qed simp

section \<open>Loading\<close>

lemma sc_init_loads:
  assumes "sd_get sd" "soft_ok (ev_pf ev) ts rest" "min (sd_size sd) RB_SC_CFG_SIZE = length (soft_image (ev_pf ev) crc ts rest)"
    and "sd_read sd d 0 (min (sd_size sd) RB_SC_CFG_SIZE) = (0, soft_image (ev_pf ev) crc ts rest)"
  shows "\<exists>st'. rb_softconfig_init ev sd True True 0 d st = Ret (0, st') \<and> sc_loaded ev crc ts rest st'"
proof -
  have ok: "\<forall>t \<in> set ts. tag_ok t" and len: "length (tags_bytes (ev_pf ev) ts) + 8 < 65536"
    using assms(2) by (simp_all add: soft_ok_def RB_SC_CFG_SIZE_def)
  have "drop 8 (soft_image (ev_pf ev) crc ts rest) = tags_bytes (ev_pf ev) ts @ cpu32 (ev_pf ev) 0 @ rest"
    by (simp add: soft_image_def)
  note loc = locate_tags_at[OF ok _ len, of "sc_attrs ev" rest, folded this]
  show ?thesis
    using assms loc sc_tags_pos by (simp add: rb_softconfig_init_def soft_image_magic sc_loaded_def)
qed

section \<open>Storing\<close>

text \<open>
  A store function is well behaved when it refuses and changes nothing, or replaces the four
  bytes of the payload and clears the checksum.
\<close>

definition store_spec :: "sc_env \<Rightarrow> sc_store \<Rightarrow> bool" where
  "store_spec ev store \<longleftrightarrow>
     (\<forall>txt count buf ofs len. ofs + len \<le> length buf \<longrightarrow>
        (\<exists>ret. store txt count buf ofs len = Ret (ret, buf)) \<or>
        (\<exists>dat. len = 4 \<and> length dat = 4 \<and>
           store txt count buf ofs len = Ret (int count, RB_SC_CLRCRC (ev_pf ev) (store_at buf ofs dat))))"

definition sc_env_ok :: "sc_env \<Rightarrow> bool" where
  "sc_env_ok ev \<longleftrightarrow> (\<forall>txt a. ev_in4_pton ev txt = Some a \<longrightarrow> length a = 4)"

named_theorems sc_stores \<open>the store functions\<close>

lemma sc_set_eq: "ofs + length dat \<le> length buf \<Longrightarrow>
  sc_set p dat count buf ofs = Ret (int count, RB_SC_CLRCRC p (store_at buf ofs dat))"
  by (simp add: sc_set_def)

lemma tvs_store_spec [sc_stores]: "store_spec ev (sc_tag_store_u32tvs ev tvs n)"
  unfolding store_spec_def sc_tag_store_u32tvs_def
  by (auto simp: sc_set_eq split: option.splits intro!: exI[of _ "cpu32 (ev_pf ev) v" for v])

lemma boolts_store_spec [sc_stores]: "store_spec ev (sc_tag_store_boolts ev bts)"
  unfolding store_spec_def sc_tag_store_boolts_def
  by (auto simp: sc_set_eq intro!: exI[of _ "cpu32 (ev_pf ev) v" for v])

lemma bootdelays_store_spec [sc_stores]: "store_spec ev (sc_tag_store_bootdelays ev)"
  unfolding store_spec_def sc_tag_store_bootdelays_def
  by (auto simp: sc_set_eq split: sum.splits intro!: exI[of _ "cpu32 (ev_pf ev) v" for v])

lemma etherboot_store_spec [sc_stores]: "store_spec ev (sc_tag_store_preboot_etherboot ev)"
  unfolding store_spec_def sc_tag_store_preboot_etherboot_def
  by (auto simp: sc_set_eq split: sum.splits intro!: exI[of _ "cpu32 (ev_pf ev) v" for v])

lemma server_store_spec [sc_stores]: "sc_env_ok ev \<Longrightarrow> store_spec ev (sc_tag_store_preboot_etherboot_server ev)"
  unfolding store_spec_def sc_tag_store_preboot_etherboot_server_def sc_env_ok_def
  by (auto simp: sc_set_eq split: option.splits)

lemma sc_attrs_store_spec:
  assumes "sc_env_ok ev" "a \<in> set (sc_attrs ev)" "tstore a = Some store"
  shows "store_spec ev store"
  using assms
  by (auto simp: sc_attrs_def tvs_attr_def boolts_attr_def sc_stores sc_tag_store_cpufreq_indexes_def
    split: option.splits)

lemma sc_store_step:
  assumes "sc_env_ok ev" "sc_loaded ev crc ts rest st" "i < length (sc_attrs ev)"
  shows "\<exists>ret st'. sc_attr_store ev i txt count st = Ret (ret, st') \<and>
    (st' = st \<or>
     ret = int count \<and>
     (\<exists>dat. length dat = 4 \<and> map_of ts (tag_id (sc_attrs ev ! i)) \<noteq> None \<and>
        sc_loaded ev 0 (tag_put (tag_id (sc_attrs ev ! i)) dat ts) rest st'))"
proof (cases "ev_capable ev \<and> tstore (sc_attrs ev ! i) \<noteq> None \<and> snd (sc_pld st ! i) \<noteq> 0")
  case False
  then show ?thesis by (auto simp: sc_attr_store_def split: option.splits prod.splits)
next
  case True
  let ?a = "sc_attrs ev ! i" and ?p = "ev_pf ev"
  obtain store where s: "tstore ?a = Some store" using True by blast
  have pld: "sc_pld st ! i = (case tag_at (tag_id ?a) ts of None \<Rightarrow> (0, 0) | Some (ofs, len) \<Rightarrow> (ofs + 8, len))"
    and buf: "sc_buf st = Some (soft_image ?p crc ts rest)"
    using assms(2,3) by (simp_all add: sc_loaded_def)
  obtain ofs len where t: "tag_at (tag_id ?a) ts = Some (ofs, len)" and p: "sc_pld st ! i = (ofs + 8, len)" "len \<noteq> 0"
    using True pld by (auto split: option.splits)
  have fits: "ofs + 8 + len \<le> length (soft_image ?p crc ts rest)" using tag_at_le[OF t, of ?p] by simp
  have eq: "sc_attr_store ev i txt count st = bind_res (store txt count (soft_image ?p crc ts rest) (ofs + 8) len)
      (\<lambda>(ret, buf'). Ret (ret, st\<lparr>sc_buf := Some buf'\<rparr>))"
    using True s p buf by (simp add: sc_attr_store_def)
  have same: "st\<lparr>sc_buf := Some (soft_image ?p crc ts rest)\<rparr> = st" using buf by simp
  note spec = sc_attrs_store_spec[OF assms(1) nth_mem[OF assms(3)] s]
  from spec[unfolded store_spec_def, rule_format, OF fits, of "txt" count] show ?thesis
  proof
    assume "\<exists>ret. store txt count (soft_image ?p crc ts rest) (ofs + 8) len = Ret (ret, soft_image ?p crc ts rest)"
    then show ?thesis unfolding eq using same by auto
  next
    assume "\<exists>dat. len = 4 \<and> length dat = 4 \<and> store txt count (soft_image ?p crc ts rest) (ofs + 8) len =
        Ret (int count, RB_SC_CLRCRC ?p (store_at (soft_image ?p crc ts rest) (ofs + 8) dat))"
    then obtain dat where d: "len = 4" "length dat = 4" "store txt count (soft_image ?p crc ts rest) (ofs + 8) len =
        Ret (int count, RB_SC_CLRCRC ?p (store_at (soft_image ?p crc ts rest) (ofs + 8) dat))" by blast
    have t': "tag_at (tag_id ?a) ts = Some (ofs, length dat)" using t d by simp
    let ?st = "st\<lparr>sc_buf := Some (soft_image ?p 0 (tag_put (tag_id ?a) dat ts) rest)\<rparr>"
    have "soft_ok ?p (tag_put (tag_id ?a) dat ts) rest"
      using assms(2) tag_put_ok[OF t'] length_tags_bytes_put[OF t', of ?p] by (simp add: sc_loaded_def soft_ok_def)
    then have "sc_loaded ev 0 (tag_put (tag_id ?a) dat ts) rest ?st"
      using assms(2) by (simp add: sc_loaded_def tag_at_put[OF t'])
    moreover have "sc_attr_store ev i txt count st = Ret (int count, ?st)"
      unfolding eq by (simp add: d(3) soft_image_store[OF t'] soft_image_clear)
    moreover have "map_of ts (tag_id ?a) \<noteq> None" using tag_at_map_of[OF t] by auto
    ultimately show ?thesis using d(2) by auto
  qed
qed

section \<open>Committing\<close>

text \<open>
  A flash partition that works: erasing sets all bytes to \<^verbatim>\<open>0xff\<close>, writing to an erased
  partition stores the data, reading returns the content.
\<close>

definition sc_flash_ok :: "'d sc_dev \<Rightarrow> ('d \<Rightarrow> bytes) \<Rightarrow> bool" where
  "sc_flash_ok sd content \<longleftrightarrow>
     sd_get sd \<and> (\<forall>d. length (content d) = sd_size sd) \<and>
     (\<forall>d. \<exists>d'. sd_erase sd d 0 (sd_size sd) = (0, d') \<and> content d' = replicate (sd_size sd) (- 1)) \<and>
     (\<forall>d buf. content d = replicate (sd_size sd) (- 1) \<and> length buf \<le> sd_size sd \<longrightarrow>
        (\<exists>d'. sd_write sd d 0 buf = (0, length buf, d') \<and> content d' = store_at (content d) 0 buf)) \<and>
     (\<forall>d n. n \<le> sd_size sd \<longrightarrow> sd_read sd d 0 n = (0, take n (content d)))"

definition soft_crc :: "sc_env \<Rightarrow> tag list \<Rightarrow> bytes \<Rightarrow> nat" where
  "soft_crc ev ts rest = unat (NOT (ev_crc32 ev (NOT 0) (soft_image (ev_pf ev) 0 ts rest)))"

lemma sc_flush_image:
  "sc_flush ev sd d (soft_image (ev_pf ev) 0 ts rest) =
     (let image = soft_image (ev_pf ev) (soft_crc ev ts rest) ts rest;
          (ret, d1) = sd_erase sd d 0 (sd_size sd)
      in if ret \<noteq> 0 then (ret, 0, d1, image)
         else let (ret2, n, d2) = sd_write sd d1 0 image in (ret2, n, d2, image))"
  by (simp add: sc_flush_def soft_image_crc soft_crc_def Let_def)

lemma sc_commit_dirty:
  assumes "ev_strtobool ev txt = Inr True" "sd_get sd"
  shows "sc_commit_store ev sd txt count d (soft_image (ev_pf ev) 0 ts rest) =
     (let (ret, n, d1, buf1) = sc_flush ev sd d (soft_image (ev_pf ev) 0 ts rest)
      in if ret \<noteq> 0 then (ret, d1, RB_SC_CLRCRC (ev_pf ev) buf1)
         else if n \<noteq> length (soft_image (ev_pf ev) 0 ts rest) then (- EIO, d1, RB_SC_CLRCRC (ev_pf ev) buf1)
         else (int count, d1, buf1))"
  using assms soft_image_getcrc[of 0 "ev_pf ev" ts rest] by (simp add: sc_commit_store_def)

lemma sc_commit_works:
  assumes "sc_flash_ok sd content" "ev_strtobool ev txt = Inr True"
    and "length (soft_image (ev_pf ev) 0 ts rest) \<le> sd_size sd"
  shows "\<exists>d'. sc_commit_store ev sd txt count d (soft_image (ev_pf ev) 0 ts rest) =
      (int count, d', soft_image (ev_pf ev) (soft_crc ev ts rest) ts rest) \<and>
    content d' = store_at (replicate (sd_size sd) (- 1)) 0 (soft_image (ev_pf ev) (soft_crc ev ts rest) ts rest)"
proof -
  let ?image = "soft_image (ev_pf ev) (soft_crc ev ts rest) ts rest"
  obtain d1 where e: "sd_erase sd d 0 (sd_size sd) = (0, d1)" "content d1 = replicate (sd_size sd) (- 1)"
    using assms(1) unfolding sc_flash_ok_def by meson
  have "length ?image \<le> sd_size sd" using assms(3) by simp
  then obtain d2 where w: "sd_write sd d1 0 ?image = (0, length ?image, d2)" "content d2 = store_at (content d1) 0 ?image"
    using assms(1) e(2) unfolding sc_flash_ok_def by meson
  have "sd_get sd" using assms(1) by (simp add: sc_flash_ok_def)
  note commit = sc_commit_dirty[OF assms(2) this, of count d ts rest]
  show ?thesis unfolding commit using e w by (simp add: sc_flush_image Let_def)
qed

section \<open>Samples\<close>

definition mips32 :: platform where
  "mips32 = \<lparr>pf_big_endian = True, pf_size_bits = 32, pf_alloc = \<lambda>_. True\<rparr>"

definition sample_env :: sc_env where
  "sample_env = \<lparr>ev_pf = mips32, ev_streq = (=),
     ev_strtou32 = (\<lambda>s. if s = ''3'' then Inr 3 else Inl (- EINVAL)), ev_in4_pton = (\<lambda>_. None),
     ev_strtobool = (\<lambda>s. if s = ''1'' then Inr True else if s = ''0'' then Inr False else Inl (- EINVAL)),
     ev_crc32 = (\<lambda>c bs. c + of_nat (length bs)), ev_capable = True, ev_soc = None\<rparr>"

definition sample_dev :: "bytes sc_dev" where
  "sample_dev = \<lparr>sd_size = 64, sd_get = True,
     sd_read = (\<lambda>d ofs n. (0, take n (drop ofs (take 64 (d @ replicate 64 (- 1)))))),
     sd_erase = (\<lambda>d ofs n. (0, [])),
     sd_write = (\<lambda>d ofs bs. (0, length bs, bs))\<rparr>"

definition sample_content :: "bytes \<Rightarrow> bytes" where
  "sample_content d = take 64 (d @ replicate 64 (- 1))"

definition sample_tags :: "tag list" where
  "sample_tags = [(2, [0, 0, 0, 1]), (1, [0, 0, 0, 0])]"

definition sample_rest :: bytes where
  "sample_rest = replicate 36 (- 1)"

definition sample_st :: sc_st where
  "sample_st = \<lparr>sc_buf = Some (soft_image mips32 0 sample_tags sample_rest), sc_kobj = True,
     sc_pld = map (\<lambda>a. case tag_at (tag_id a) sample_tags of None \<Rightarrow> (0, 0) | Some (ofs, len) \<Rightarrow> (ofs + 8, len))
                (sc_attrs sample_env)\<rparr>"

lemma sample_ok: "soft_ok mips32 sample_tags sample_rest"
  by (simp add: soft_ok_def sample_tags_def sample_rest_def RB_SC_CFG_SIZE_def tags_bytes_def)

lemma sample_loaded: "sc_loaded sample_env 0 sample_tags sample_rest sample_st"
  using sample_ok by (simp add: sc_loaded_def sample_st_def sample_env_def)

lemma sample_flash: "sc_flash_ok sample_dev sample_content"
  by (auto simp: sc_flash_ok_def sample_dev_def sample_content_def store_at_def take_all)

section \<open>Properties\<close>

text \<open>
  C27. Storing a setting. Seen as a list of tags, the configuration in memory changes in at most
  one payload: a store is refused and changes nothing, or it replaces the four bytes of the tag
  it is meant for and marks the configuration dirty. The positions of all tags stay right, and
  nothing outside the buffer is accessed.
\<close>

theorem sc_store_refines:
  assumes "sc_env_ok ev" "sc_loaded ev crc ts rest st" "i < length (sc_attrs ev)"
  shows "\<exists>ret st'. sc_attr_store ev i txt count st = Ret (ret, st') \<and>
    (st' = st \<or>
     ret = int count \<and>
     (\<exists>dat. length dat = 4 \<and> map_of ts (tag_id (sc_attrs ev ! i)) \<noteq> None \<and>
        sc_loaded ev 0 (tag_put (tag_id (sc_attrs ev ! i)) dat ts) rest st'))"
  by (rule sc_store_step[OF assms])

theorem sc_store_refines_witness:
  "\<exists>ret st'. sc_attr_store sample_env 1 ''3'' 1 sample_st = Ret (ret, st')"
proof -
  have "sc_env_ok sample_env" by (simp add: sc_env_ok_def sample_env_def)
  moreover have "1 < length (sc_attrs sample_env)" by (simp add: sc_attrs_def)
  ultimately show ?thesis using sc_store_refines[OF _ sample_loaded] by blast
qed

text \<open>
  C28. A commit is what the next start reads. On a flash that works, committing a dirty
  configuration writes it with the checksum over the buffer with a zero checksum, and loading
  the partition afterwards gives the same tags.
\<close>

theorem sc_commit_reload:
  assumes "sc_flash_ok sd content" "sc_loaded ev 0 ts rest st" "sc_buf st = Some buf"
    and "ev_strtobool ev txt = Inr True" "length buf = min (sd_size sd) RB_SC_CFG_SIZE"
  shows "\<exists>d' st'. sc_commit_store ev sd txt count d buf =
      (int count, d', soft_image (ev_pf ev) (soft_crc ev ts rest) ts rest) \<and>
    rb_softconfig_init ev sd True True 0 d' st0 = Ret (0, st') \<and> sc_loaded ev (soft_crc ev ts rest) ts rest st'"
proof -
  let ?image = "soft_image (ev_pf ev) (soft_crc ev ts rest) ts rest"
  have b: "buf = soft_image (ev_pf ev) 0 ts rest" and ok: "soft_ok (ev_pf ev) ts rest"
    using assms(2,3) by (simp_all add: sc_loaded_def)
  have len: "min (sd_size sd) RB_SC_CFG_SIZE = length ?image" "length (soft_image (ev_pf ev) 0 ts rest) \<le> sd_size sd"
    using assms(5) unfolding b by simp_all
  obtain d' where c: "sc_commit_store ev sd txt count d buf = (int count, d', ?image)"
      "content d' = store_at (replicate (sd_size sd) (- 1)) 0 ?image"
    using sc_commit_works[OF assms(1,4) len(2)] unfolding b by blast
  have rd: "sd_read sd d' 0 (min (sd_size sd) RB_SC_CFG_SIZE) = (0, ?image)"
  proof -
    have "sd_read sd d' 0 (length ?image) = (0, take (length ?image) (content d'))"
      using assms(1) len(2) unfolding sc_flash_ok_def by simp
    then show ?thesis unfolding len(1) c(2) by (simp add: store_at_def)
  qed
  have "sd_get sd" using assms(1) by (simp add: sc_flash_ok_def)
  then show ?thesis using c(1) sc_init_loads[OF _ ok len(1) rd] by blast
qed

theorem sc_commit_reload_witness:
  "\<exists>d' st'. sc_commit_store sample_env sample_dev ''1'' 1 [] (soft_image mips32 0 sample_tags sample_rest) =
      (1, d', soft_image mips32 (soft_crc sample_env sample_tags sample_rest) sample_tags sample_rest) \<and>
    rb_softconfig_init sample_env sample_dev True True 0 d' sample_st = Ret (0, st')"
proof -
  have buf: "sc_buf sample_st = Some (soft_image mips32 0 sample_tags sample_rest)" by (simp add: sample_st_def)
  have len: "length (soft_image mips32 0 sample_tags sample_rest) = min (sd_size sample_dev) RB_SC_CFG_SIZE"
    by (simp add: sample_tags_def sample_rest_def sample_dev_def RB_SC_CFG_SIZE_def tags_bytes_def)
  have b: "ev_strtobool sample_env ''1'' = Inr True" "ev_pf sample_env = mips32" by (simp_all add: sample_env_def)
  show ?thesis
    using sc_commit_reload[OF sample_flash sample_loaded buf b(1) len, of 1 "[]" sample_st] unfolding b(2) by auto
qed

text \<open>
  A commit that fails loses nothing. Whatever the flash answers, when a commit does not
  report success the configuration in memory is what it was and is still dirty, so that the
  commit can be repeated.
\<close>

theorem sc_commit_failure_keeps_settings:
  assumes "sc_loaded ev 0 ts rest st" "sc_buf st = Some buf" "ev_strtobool ev txt = Inr True"
    and "sc_commit_store ev sd txt count d buf = (ret, d', buf')" "ret \<noteq> int count"
  shows "buf' = buf \<and> sc_commit_show ev buf' = ''dirty'' @ newline"
proof -
  have b: "buf = soft_image (ev_pf ev) 0 ts rest" using assms(1,2) by (simp add: sc_loaded_def)
  have "buf' = buf"
  proof (cases "sd_get sd")
    case True
    then show ?thesis
      using assms(4,5) unfolding b sc_commit_dirty[OF assms(3) True] sc_flush_image
      by (auto simp: soft_image_clear Let_def split: prod.splits if_splits)
  next
    case False
    then show ?thesis
      using assms(3,4) soft_image_getcrc[of 0 "ev_pf ev" ts rest] by (simp add: sc_commit_store_def b)
  qed
  then show ?thesis using soft_image_getcrc[of 0 "ev_pf ev" ts rest] by (simp add: sc_commit_show_def b)
qed

theorem sc_commit_failure_keeps_settings_witness:
  "snd (snd (sc_commit_store sample_env (sample_dev\<lparr>sd_erase := \<lambda>d ofs n. (- EIO, d)\<rparr>) ''1'' 1 []
     (soft_image mips32 0 sample_tags sample_rest))) = soft_image mips32 0 sample_tags sample_rest"
proof -
  let ?dev = "sample_dev\<lparr>sd_erase := \<lambda>d ofs n. (- EIO, d)\<rparr>"
  have buf: "sc_buf sample_st = Some (soft_image mips32 0 sample_tags sample_rest)" by (simp add: sample_st_def)
  have pf: "ev_pf sample_env = mips32" by (simp add: sample_env_def)
  have b: "ev_strtobool sample_env ''1'' = Inr True" by (simp add: sample_env_def)
  obtain ret d' buf' where c: "sc_commit_store sample_env ?dev ''1'' 1 [] (soft_image mips32 0 sample_tags sample_rest) = (ret, d', buf')"
    by (metis prod_cases3)
  have "ret = - EIO"
    using c sc_commit_dirty[OF b, where sd = ?dev and ts = sample_tags and rest = sample_rest and count = 1 and d = "[]"]
    by (simp add: pf sc_flush_image[where ev = sample_env, unfolded pf] sample_dev_def Let_def)
  then have "buf' = soft_image mips32 0 sample_tags sample_rest"
    using sc_commit_failure_keeps_settings[OF sample_loaded buf b c] by simp
  then show ?thesis unfolding c by simp
qed

end
