(* ===== verification/Rb_Lz77.thy ===== *)
theory Rb_Lz77
  imports Prelude
begin

unbundle bit_operations_syntax

text \<open>
  The decompressor for the calibration data of MikroTik boards
  (\<^verbatim>\<open>drivers/platform/mikrotik/rb_lz77.c\<close>).

  The input is a list of bytes, read bit by bit from the least significant bit of each byte.
  The output buffer is a list of fixed length. A read outside the input or a write outside
  the output is the result \<open>LzFault\<close>: the functions of the source do not check everywhere,
  and the model reports an access that leaves a buffer instead of giving it a meaning. The
  counters stay below $2^{31}$, which is proved, so that they are natural numbers here.
\<close>

section \<open>Results\<close>

datatype 'a lz = LzFault | LzErr int | LzOk 'a

abbreviation (input) EFBIG :: int where "EFBIG \<equiv> 27"
abbreviation (input) ESPIPE :: int where "ESPIPE \<equiv> 29"
abbreviation (input) ENODATA :: int where "ENODATA \<equiv> 61"
abbreviation (input) EBADMSG :: int where "EBADMSG \<equiv> 74"
abbreviation (input) EOVERFLOW :: int where "EOVERFLOW \<equiv> 75"
abbreviation (input) ENOBUFS :: int where "ENOBUFS \<equiv> 105"

definition MIKRO_LZ77_MAX_COUNT_BIT_LEN :: nat where
  "MIKRO_LZ77_MAX_COUNT_BIT_LEN = 27"

datatype rb_lz77_instruction = INSTR_LITERAL_BYTE | INSTR_PREVIOUS_OFFSET | INSTR_LONG

record rb_lz77_instr_opcodes =
  oc_instruction :: rb_lz77_instruction
  oc_offset :: nat
  oc_length :: nat
  oc_bits_used :: nat
  oc_in_pos :: nat

section \<open>Reading bits\<close>

definition rb_lz77_get_bit :: "bytes \<Rightarrow> nat \<Rightarrow> bool option" where
  "rb_lz77_get_bit inp i =
     (if i div 8 < length inp then Some (bit (inp ! (i div 8)) (i mod 8)) else None)"

fun get_byte_loop :: "bytes \<Rightarrow> nat \<Rightarrow> nat \<Rightarrow> u8 \<Rightarrow> u8 option" where
  "get_byte_loop inp ofs 0 buf = Some buf"
| "get_byte_loop inp ofs (Suc n) buf =
     (case rb_lz77_get_bit inp (ofs + (7 - n)) of
        None \<Rightarrow> None
      | Some b \<Rightarrow> get_byte_loop inp ofs n (buf + push_bit n (of_bool b)))"

definition rb_lz77_get_byte :: "bytes \<Rightarrow> nat \<Rightarrow> u8 option" where
  "rb_lz77_get_byte inp ofs = get_byte_loop inp ofs 8 0"

text \<open>
  \<^verbatim>\<open>rb_lz77_decode_count\<close>: returns the count and the number of bits it took.
\<close>

function decode_count_loop ::
  "bytes \<Rightarrow> nat \<Rightarrow> nat \<Rightarrow> bool \<Rightarrow> nat \<Rightarrow> nat \<Rightarrow> (nat \<times> nat) lz" where
  "decode_count_loop inp pos max_pos up shift count =
     (if pos \<ge> max_pos then LzErr (- EFBIG)
      else case rb_lz77_get_bit inp pos of
             None \<Rightarrow> LzFault
           | Some b \<Rightarrow>
               (let count' = (if b then count + 2 ^ shift else count);
                    up' = (up \<and> b)
                in if up' then decode_count_loop inp (pos + 1) max_pos up' (shift + 1) count'
                   else if shift = 0 then LzOk (count', pos)
                   else decode_count_loop inp (pos + 1) max_pos up' (shift - 1) count'))"
  by pat_completeness auto
termination
  by (relation "measure (\<lambda>(inp, pos, max_pos, up, shift, count). max_pos - pos)") auto

declare decode_count_loop.simps [simp del]

definition rb_lz77_decode_count ::
  "bytes \<Rightarrow> nat \<Rightarrow> nat \<Rightarrow> nat \<Rightarrow> nat \<Rightarrow> (nat \<times> nat) lz" where
  "rb_lz77_decode_count inp ofs shift count max_bits =
     (case decode_count_loop inp ofs (min (ofs + max_bits) (length inp * 8)) True shift count of
        LzOk (c, pos) \<Rightarrow> LzOk (c, pos - ofs + 1)
      | LzErr e \<Rightarrow> LzErr e
      | LzFault \<Rightarrow> LzFault)"

section \<open>Instructions\<close>

definition rb_lz77_decode_instruction ::
  "bytes \<Rightarrow> nat \<Rightarrow> (rb_lz77_instruction \<times> nat) option" where
  "rb_lz77_decode_instruction inp ofs =
     (case rb_lz77_get_bit inp ofs of
        None \<Rightarrow> None
      | Some False \<Rightarrow> Some (INSTR_LITERAL_BYTE, 1)
      | Some True \<Rightarrow>
          (case rb_lz77_get_bit inp (ofs + 1) of
             None \<Rightarrow> None
           | Some True \<Rightarrow> Some (INSTR_LONG, 2)
           | Some False \<Rightarrow> Some (INSTR_PREVIOUS_OFFSET, 2)))"

definition rb_lz77_decode_instruction_operators ::
  "bytes \<Rightarrow> nat \<Rightarrow> nat \<Rightarrow> rb_lz77_instr_opcodes lz" where
  "rb_lz77_decode_instruction_operators inp ofs previous_offset =
     (case rb_lz77_decode_instruction inp ofs of
        None \<Rightarrow> LzFault
      | Some (INSTR_LITERAL_BYTE, n) \<Rightarrow>
          LzOk \<lparr>oc_instruction = INSTR_LITERAL_BYTE, oc_offset = 0, oc_length = 1,
                oc_bits_used = n, oc_in_pos = ofs\<rparr>
      | Some (INSTR_PREVIOUS_OFFSET, n) \<Rightarrow>
          (case rb_lz77_decode_count inp (ofs + n) 0 1 MIKRO_LZ77_MAX_COUNT_BIT_LEN of
             LzFault \<Rightarrow> LzFault
           | LzErr e \<Rightarrow> LzErr e
           | LzOk (len, k) \<Rightarrow>
               LzOk \<lparr>oc_instruction = INSTR_PREVIOUS_OFFSET, oc_offset = previous_offset,
                     oc_length = len, oc_bits_used = n + k, oc_in_pos = ofs\<rparr>)
      | Some (INSTR_LONG, n) \<Rightarrow>
          (case rb_lz77_decode_count inp (ofs + n) 4 0 MIKRO_LZ77_MAX_COUNT_BIT_LEN of
             LzFault \<Rightarrow> LzFault
           | LzErr e \<Rightarrow> LzErr e
           | LzOk (offset, k) \<Rightarrow>
               (case (if offset = 0
                      then rb_lz77_decode_count inp (ofs + n + k) 4 12 MIKRO_LZ77_MAX_COUNT_BIT_LEN
                      else rb_lz77_decode_count inp (ofs + n + k) 0 2 MIKRO_LZ77_MAX_COUNT_BIT_LEN) of
                  LzFault \<Rightarrow> LzFault
                | LzErr e \<Rightarrow> LzErr e
                | LzOk (len, m) \<Rightarrow>
                    LzOk \<lparr>oc_instruction = INSTR_LONG, oc_offset = offset, oc_length = len,
                          oc_bits_used = n + k + m, oc_in_pos = ofs\<rparr>)))"

section \<open>Copying\<close>

text \<open>
  The bytes of a group without a match: each is read from the input and stored. There is no
  check of the output position here.
\<close>

fun literal_loop :: "bytes \<Rightarrow> nat \<Rightarrow> nat \<Rightarrow> nat \<Rightarrow> bytes \<Rightarrow> (nat \<times> nat \<times> bytes) option" where
  "literal_loop inp 0 input_bit optr out = Some (input_bit, optr, out)"
| "literal_loop inp (Suc n) input_bit optr out =
     (case rb_lz77_get_byte inp input_bit of
        None \<Rightarrow> None
      | Some b \<Rightarrow>
          if optr < length out
          then literal_loop inp n (input_bit + 8) (optr + 1) (out[optr := b])
          else None)"

definition lz_memcpy :: "bytes \<Rightarrow> nat \<Rightarrow> nat \<Rightarrow> nat \<Rightarrow> bytes" where
  "lz_memcpy out dest src n = store_at out dest (take n (drop src out))"

text \<open>
  The copy of a match, in pieces of \<open>offset\<close> bytes while the match overlaps its own source.
\<close>

function match_loop :: "nat \<Rightarrow> nat \<Rightarrow> nat \<Rightarrow> bytes \<Rightarrow> nat \<times> bytes" where
  "match_loop offset match_length optr out =
     (if 0 < offset \<and> offset < match_length
      then match_loop offset (match_length - offset) (optr + offset)
             (lz_memcpy out optr (optr - offset) offset)
      else (optr + match_length, lz_memcpy out optr (optr - offset) match_length))"
  by pat_completeness auto
termination
  by (relation "measure (\<lambda>(offset, match_length, optr, out). match_length)") auto

declare match_loop.simps [simp del]

section \<open>The decompressor\<close>

text \<open>
  One iteration of the main loop. \<open>Inl\<close> leaves the function: with the length of the output,
  an error, or a fault.
\<close>

record lz_st =
  lz_input_bit :: nat
  lz_match_offset :: nat
  lz_optr :: nat
  lz_out :: bytes

definition lz_match :: "rb_lz77_instr_opcodes \<Rightarrow> lz_st \<Rightarrow> nat lz + lz_st" where
  "lz_match oc s =
     (if oc_offset oc = 0 then Inl (LzErr (- EBADMSG))
      else if lz_optr s + oc_length oc > length (lz_out s) then Inl (LzErr (- ENOBUFS))
      else if lz_optr s < oc_offset oc then Inl (LzErr (- ESPIPE))
      else (let (p, out) = match_loop (oc_offset oc) (oc_length oc) (lz_optr s) (lz_out s)
            in Inr (s\<lparr>lz_optr := p, lz_out := out\<rparr>)))"

definition lz_step :: "bytes \<Rightarrow> lz_st \<Rightarrow> nat lz + lz_st" where
  "lz_step inp s =
     (if lz_optr s > length (lz_out s) then Inl (LzErr (- EOVERFLOW))
      else if lz_input_bit s > length inp * 8 then Inl (LzErr (- ENODATA))
      else case rb_lz77_decode_instruction_operators inp (lz_input_bit s) (lz_match_offset s) of
             LzFault \<Rightarrow> Inl LzFault
           | LzErr e \<Rightarrow> Inl (LzErr e)
           | LzOk oc \<Rightarrow>
               (let s1 = s\<lparr>lz_input_bit := lz_input_bit s + oc_bits_used oc\<rparr>
                in if oc_instruction oc = INSTR_PREVIOUS_OFFSET then lz_match oc s1
                   else if oc_offset oc = 0 then
                     (if oc_length oc = 12 \<and> lz_input_bit s1 + oc_length oc * 8 > length inp
                      then Inl (LzOk (lz_optr s1))
                      else case literal_loop inp (oc_length oc) (lz_input_bit s1) (lz_optr s1)
                                  (lz_out s1) of
                             None \<Rightarrow> Inl LzFault
                           | Some (i, p, out) \<Rightarrow>
                               Inr (s1\<lparr>lz_input_bit := i, lz_optr := p, lz_out := out\<rparr>))
                   else lz_match oc (s1\<lparr>lz_match_offset := oc_offset oc\<rparr>)))"

text \<open>
  The loop runs on fuel; every iteration takes at least one bit of the input, so one more
  than the number of bits is enough, which is proved below.
\<close>

fun lz_loop :: "nat \<Rightarrow> bytes \<Rightarrow> lz_st \<Rightarrow> (nat lz \<times> bytes) option" where
  "lz_loop 0 inp s = None"
| "lz_loop (Suc fuel) inp s =
     (case lz_step inp s of
        Inl r \<Rightarrow> Some (r, lz_out s)
      | Inr s' \<Rightarrow> lz_loop fuel inp s')"

text \<open>
  The test that the input has fewer than \<open>SIZE_MAX\<close> bits compares a product of type
  \<^verbatim>\<open>size_t\<close> with the maximum of that type and never fires. \<open>kmalloc_ok\<close> says whether
  the allocation of the opcode structure succeeds. The result carries the value left in
  \<^verbatim>\<open>out_len\<close> and the buffer.
\<close>

definition rb_lz77_decompress :: "bool \<Rightarrow> bytes \<Rightarrow> bytes \<Rightarrow> (nat lz \<times> bytes) option" where
  "rb_lz77_decompress kmalloc_ok inp out =
     (if \<not> kmalloc_ok then Some (LzErr (- ENOMEM), out)
      else lz_loop (length inp * 8 + 2) inp
             \<lparr>lz_input_bit = 0, lz_match_offset = 0, lz_optr = 0, lz_out = out\<rparr>)"

section \<open>The bit stream\<close>

text \<open>
  \<open>reads inp pos bs\<close>: the input holds the bits \<open>bs\<close> from the bit position \<open>pos\<close> on.
\<close>

fun reads :: "bytes \<Rightarrow> nat \<Rightarrow> bool list \<Rightarrow> bool" where
  "reads inp pos [] = True"
| "reads inp pos (b # bs) = (rb_lz77_get_bit inp pos = Some b \<and> reads inp (pos + 1) bs)"

lemma reads_append [simp]:
  "reads inp pos (a @ b) = (reads inp pos a \<and> reads inp (pos + length a) b)"
  by (induction a arbitrary: pos) (simp_all add: add.assoc)

lemma get_bit_Some_lt: "rb_lz77_get_bit inp i = Some b \<Longrightarrow> i < length inp * 8"
  by (auto simp: rb_lz77_get_bit_def less_mult_imp_div_less split: if_splits)

lemma get_bit_lt: "i < length inp * 8 \<Longrightarrow> \<exists>b. rb_lz77_get_bit inp i = Some b"
  by (simp add: rb_lz77_get_bit_def less_mult_imp_div_less)

lemma reads_bound: "reads inp pos bs \<Longrightarrow> bs \<noteq> [] \<Longrightarrow> pos + length bs \<le> length inp * 8"
proof (induction bs arbitrary: pos)
  case (Cons b bs)
  then show ?case
    using get_bit_Some_lt [of inp pos b] Cons.IH [of "Suc pos"] by (cases "bs = []") auto
qed simp

definition byte_bits :: "u8 \<Rightarrow> bool list" where
  "byte_bits b = map (bit b) [7, 6, 5, 4, 3, 2, 1, 0]"

lemma length_byte_bits [simp]: "length (byte_bits b) = 8"
  by (simp add: byte_bits_def)

lemma horner_sum_pushed:
  "(\<Sum>i\<leftarrow>[7, 6, 5, 4, 3, 2, 1, 0]. push_bit i (f i)) = horner_sum f 2 [0, 1, 2, 3, 4, 5, 6, 7]"
  for f :: "nat \<Rightarrow> u8"
  by (simp add: push_bit_eq_mult algebra_simps)

lemma byte_from_bits:
  "(\<Sum>i\<leftarrow>[7, 6, 5, 4, 3, 2, 1, 0]. push_bit i (of_bool (bit b i))) = (b :: u8)"
proof -
  have "horner_sum of_bool 2 (map (bit b) [0..<8]) = b"
    by (simp add: horner_sum_bit_eq_take_bit take_bit_word_eq_self)
  moreover have "[0..<8] = [0, 1, 2, 3, 4, 5, 6, 7 :: nat]"
    by (simp add: upt_rec)
  moreover have "horner_sum of_bool 2 (map (bit b) xs) 
      = (horner_sum (\<lambda>i. of_bool (bit b i)) 2 xs :: u8)" for xs
    by (induction xs) auto
  ultimately show ?thesis
    by (simp only: horner_sum_pushed)
qed

lemma get_byte_reads:
  assumes "reads inp pos (byte_bits b)"
  shows "rb_lz77_get_byte inp pos = Some b"
  using assms byte_from_bits [of b]
  by (simp add: rb_lz77_get_byte_def byte_bits_def eval_nat_numeral add.assoc)

section \<open>Counts\<close>

function encode_count :: "nat \<Rightarrow> nat \<Rightarrow> bool list" where
  "encode_count s n =
     (if n < 2 ^ s then False # map (bit n) (rev [0..<s])
      else True # encode_count (s + 1) (n - 2 ^ s))"
  by pat_completeness auto
termination
proof (relation "measure snd")
  fix s n :: nat
  assume "\<not> n < 2 ^ s"
  moreover have "(0 :: nat) < 2 ^ s" by simp
  ultimately have "n - 2 ^ s < n" by linarith
  then show "((s + 1, n - 2 ^ s), s, n) \<in> measure snd" by simp
qed simp

declare encode_count.simps [simp del]

lemma encode_count_nonempty [simp]: "encode_count s n \<noteq> []"
  by (subst encode_count.simps) simp

lemma decode_count_down:
  assumes "reads inp pos (map (bit n) (rev [0..<Suc s]))" and "pos + s < max_pos"
  shows "decode_count_loop inp pos max_pos False s c = LzOk (c + take_bit (Suc s) n, pos + s)"
  using assms
proof (induction s arbitrary: pos c)
  case 0
  then show ?case
    by (subst decode_count_loop.simps) (simp add: take_bit_Suc take_bit_rec odd_iff_mod_2_eq_one bit_0)
next
  case (Suc s)
  have "decode_count_loop inp (pos + 1) max_pos False s (if bit n (Suc s) then c + 2 ^ Suc s else c)
      = LzOk ((if bit n (Suc s) then c + 2 ^ Suc s else c) + take_bit (Suc s) n, pos + 1 + s)"
    using Suc.prems by (intro Suc.IH) auto
  moreover have "take_bit (Suc (Suc s)) n = take_bit (Suc s) n + (if bit n (Suc s) then 2 ^ Suc s else 0)"
    by (simp add: take_bit_Suc_from_most)
  ultimately show ?case
    using Suc.prems by (subst decode_count_loop.simps) (simp add: Let_def)
qed

lemma decode_count_up:
  assumes "reads inp pos (encode_count s n)" and "pos + length (encode_count s n) \<le> max_pos"
  shows "decode_count_loop inp pos max_pos True s c
       = LzOk (c + n, pos + length (encode_count s n) - 1)"
  using assms
proof (induction s n arbitrary: pos c rule: encode_count.induct)
  case (1 s n)
  show ?case
  proof (cases "n < 2 ^ s")
    case True
    note enc = encode_count.simps [of s n, unfolded if_P [OF True]]
    show ?thesis
    proof (cases s)
      case 0
      then show ?thesis using 1 True enc
        by (subst decode_count_loop.simps) simp
    next
      case (Suc k)
      have "decode_count_loop inp (pos + 1) max_pos False k c = LzOk (c + take_bit (Suc k) n, pos + 1 + k)"
        using 1 enc Suc by (intro decode_count_down) auto
      moreover have "take_bit (Suc k) n = n" using True Suc by (simp add: take_bit_nat_eq_self)
      ultimately show ?thesis using 1(2,3) enc Suc
        by (subst decode_count_loop.simps) simp
    qed
  next
    case False
    note enc = encode_count.simps [of s n, unfolded if_not_P [OF False]]
    have "decode_count_loop inp (pos + 1) max_pos True (s + 1) (c + 2 ^ s)
        = LzOk (c + 2 ^ s + (n - 2 ^ s), pos + 1 + length (encode_count (s + 1) (n - 2 ^ s)) - 1)"
      using 1 enc False by (intro "1.IH") auto
    then show ?thesis using 1(2,3) enc False
      by (subst decode_count_loop.simps) (simp add: not_less)
  qed
qed

lemma decode_count_encode:
  assumes "reads inp pos (encode_count s n)" and "length (encode_count s n) \<le> max_bits"
  shows "rb_lz77_decode_count inp pos s c max_bits = LzOk (c + n, length (encode_count s n))"
proof -
  have "pos + length (encode_count s n) \<le> min (pos + max_bits) (length inp * 8)"
    using assms reads_bound [OF assms(1)] by simp
  from decode_count_up [OF assms(1) this] show ?thesis
    by (cases "encode_count s n") (simp_all add: rb_lz77_decode_count_def)
qed

section \<open>What a compressed file means\<close>

text \<open>
  The format as its comments describe it: a file is a sequence of instructions, written down
  as bits by \<open>encode_instr\<close> and executed by \<open>lz_exec\<close>, which copies a match byte by byte.
\<close>

datatype lz_instr = Literal u8 | LiteralRun bytes | Match nat nat | Again nat

fun encode_instr :: "lz_instr \<Rightarrow> bool list" where
  "encode_instr (Literal b) = False # byte_bits b"
| "encode_instr (LiteralRun bs) =
     [True, True] @ encode_count 4 0 @ encode_count 4 (length bs - 12) @ concat (map byte_bits bs)"
| "encode_instr (Match offset n) = [True, True] @ encode_count 4 offset @ encode_count 0 (n - 2)"
| "encode_instr (Again n) = [True, False] @ encode_count 0 (n - 1)"

definition end_marker :: "bool list" where
  "end_marker = [True, True] @ encode_count 4 0 @ encode_count 4 0"

fun valid_instr :: "lz_instr \<Rightarrow> bool" where
  "valid_instr (Literal b) = True"
| "valid_instr (LiteralRun bs) = (12 < length bs \<and> length (encode_count 4 (length bs - 12)) \<le> 27)"
| "valid_instr (Match offset n) =
     (0 < offset \<and> 2 \<le> n \<and> length (encode_count 4 offset) \<le> 27 \<and> length (encode_count 0 (n - 2)) \<le> 27)"
| "valid_instr (Again n) = (1 \<le> n \<and> length (encode_count 0 (n - 1)) \<le> 27)"

fun lz_copy :: "nat \<Rightarrow> nat \<Rightarrow> bytes \<Rightarrow> bytes" where
  "lz_copy offset 0 out = out"
| "lz_copy offset (Suc n) out = lz_copy offset n (out @ [out ! (length out - offset)])"

fun lz_exec :: "lz_instr \<Rightarrow> nat \<times> bytes \<Rightarrow> (nat \<times> bytes) option" where
  "lz_exec (Literal b) (prev, out) = Some (prev, out @ [b])"
| "lz_exec (LiteralRun bs) (prev, out) = Some (prev, out @ bs)"
| "lz_exec (Match offset n) (prev, out) =
     (if offset \<le> length out then Some (offset, lz_copy offset n out) else None)"
| "lz_exec (Again n) (prev, out) =
     (if 0 < prev \<and> prev \<le> length out then Some (prev, lz_copy prev n out) else None)"

fun lz_run :: "lz_instr list \<Rightarrow> nat \<times> bytes \<Rightarrow> (nat \<times> bytes) option" where
  "lz_run [] st = Some st"
| "lz_run (i # is) st = (case lz_exec i st of None \<Rightarrow> None | Some st' \<Rightarrow> lz_run is st')"

section \<open>Copying a match\<close>

lemma length_lz_copy [simp]: "length (lz_copy offset n out) = length out + n"
  by (induction n arbitrary: out) auto

lemma lz_copy_add: "lz_copy offset (m + n) out = lz_copy offset n (lz_copy offset m out)"
  by (induction m arbitrary: out) auto

lemma lz_copy_piece:
  "n \<le> offset \<Longrightarrow> 0 < offset \<Longrightarrow> offset \<le> length out
    \<Longrightarrow> lz_copy offset n out = out @ take n (drop (length out - offset) out)"
proof (induction n)
  case (Suc n)
  have "lz_copy offset (Suc n) out = lz_copy offset (n + 1) out" by simp
  also have "\<dots> = lz_copy offset n out @ [lz_copy offset n out ! (length out + n - offset)]"
    unfolding lz_copy_add by simp
  also have "\<dots> = out @ take n (drop (length out - offset) out) @ [out ! (length out + n - offset)]"
    using Suc by (simp add: nth_append)
  also have "\<dots> = out @ take (Suc n) (drop (length out - offset) out)"
    using Suc by (simp add: take_Suc_conv_app_nth)
  finally show ?case .
qed simp

lemma memcpy_piece:
  assumes "n \<le> offset" "0 < offset" "offset \<le> length xs" "n \<le> length rest"
  shows "lz_memcpy (xs @ rest) (length xs) (length xs - offset) n = lz_copy offset n xs @ drop n rest"
  using assms by (simp add: lz_memcpy_def lz_copy_piece store_at_def min_def)

lemma match_loop_copies:
  assumes "0 < offset" "offset \<le> length xs" "n \<le> length rest"
  shows "match_loop offset n (length xs) (xs @ rest)
       = (length xs + n, lz_copy offset n xs @ drop n rest)"
  using assms
proof (induction n arbitrary: xs rest rule: less_induct)
  case (less n)
  show ?case
  proof (cases "offset < n")
    case True
    have "match_loop offset (n - offset) (length (lz_copy offset offset xs)) (lz_copy offset offset xs @ drop offset rest)
        = (length (lz_copy offset offset xs) + (n - offset),
           lz_copy offset (n - offset) (lz_copy offset offset xs) @ drop (n - offset) (drop offset rest))"
      using less.prems True by (intro less.IH) auto
    then show ?thesis
      using less.prems True lz_copy_add [of offset offset "n - offset" xs]
      by (subst match_loop.simps) (simp add: memcpy_piece)
  next
    case False
    then show ?thesis
      using less.prems by (subst match_loop.simps) (simp add: memcpy_piece)
  qed
qed

lemma literal_loop_copies:
  assumes "reads inp pos (concat (map byte_bits bs))" "length bs \<le> length rest"
  shows "literal_loop inp (length bs) pos (length xs) (xs @ rest)
       = Some (pos + 8 * length bs, length xs + length bs, (xs @ bs) @ drop (length bs) rest)"
  using assms
proof (induction bs arbitrary: pos xs rest)
  case (Cons b bs)
  obtain r rest' where rest: "rest = r # rest'" using Cons.prems by (cases rest) auto
  have "literal_loop inp (length bs) (pos + 8) (length (xs @ [b])) ((xs @ [b]) @ rest')
      = Some (pos + 8 + 8 * length bs, length (xs @ [b]) + length bs,
          ((xs @ [b]) @ bs) @ drop (length bs) rest')"
    using Cons.prems rest by (intro Cons.IH) auto
  moreover have "rb_lz77_get_byte inp pos = Some b"
    using Cons.prems by (simp add: get_byte_reads)
  ultimately show ?case by (simp add: rest)
qed simp

section \<open>One instruction\<close>

lemma get_bit_decode:
  "reads inp pos [False] \<Longrightarrow> rb_lz77_decode_instruction inp pos = Some (INSTR_LITERAL_BYTE, 1)"
  "reads inp pos [True, False] \<Longrightarrow> rb_lz77_decode_instruction inp pos = Some (INSTR_PREVIOUS_OFFSET, 2)"
  "reads inp pos [True, True] \<Longrightarrow> rb_lz77_decode_instruction inp pos = Some (INSTR_LONG, 2)"
  by (simp_all add: rb_lz77_decode_instruction_def)

lemma operators_literal:
  "reads inp pos [False] \<Longrightarrow> rb_lz77_decode_instruction_operators inp pos prev
     = LzOk \<lparr>oc_instruction = INSTR_LITERAL_BYTE, oc_offset = 0, oc_length = 1, oc_bits_used = 1,
             oc_in_pos = pos\<rparr>"
  by (simp add: rb_lz77_decode_instruction_operators_def get_bit_decode del: reads.simps)

lemma operators_again:
  assumes "reads inp pos ([True, False] @ encode_count 0 n)" "length (encode_count 0 n) \<le> 27"
  shows "rb_lz77_decode_instruction_operators inp pos prev
     = LzOk \<lparr>oc_instruction = INSTR_PREVIOUS_OFFSET, oc_offset = prev, oc_length = 1 + n,
             oc_bits_used = 2 + length (encode_count 0 n), oc_in_pos = pos\<rparr>"
  using assms unfolding reads_append
  by (auto simp: rb_lz77_decode_instruction_operators_def get_bit_decode decode_count_encode
      MIKRO_LZ77_MAX_COUNT_BIT_LEN_def simp del: reads.simps)

lemma operators_long:
  assumes "reads inp pos ([True, True] @ encode_count 4 offset @ encode_count k n)"
    and "length (encode_count 4 offset) \<le> 27" "length (encode_count k n) \<le> 27"
    and "k = (if offset = 0 then 4 else 0)"
  shows "rb_lz77_decode_instruction_operators inp pos prev
     = LzOk \<lparr>oc_instruction = INSTR_LONG, oc_offset = offset,
             oc_length = (if offset = 0 then 12 else 2) + n,
             oc_bits_used = 2 + length (encode_count 4 offset) + length (encode_count k n),
             oc_in_pos = pos\<rparr>"
  using assms unfolding reads_append
  by (auto simp: rb_lz77_decode_instruction_operators_def get_bit_decode decode_count_encode
      MIKRO_LZ77_MAX_COUNT_BIT_LEN_def simp del: reads.simps)

lemma encode_count_4_0: "encode_count 4 0 = replicate 5 False"
  by (subst encode_count.simps) (simp add: eval_nat_numeral)

lemma lz_match_copies:
  assumes "0 < oc_offset oc" "oc_offset oc \<le> length xs" "lz_out s = xs @ rest" "lz_optr s = length xs"
    and "oc_length oc \<le> length rest"
  shows "lz_match oc s = Inr (s\<lparr>lz_optr := length xs + oc_length oc,
           lz_out := lz_copy (oc_offset oc) (oc_length oc) xs @ drop (oc_length oc) rest\<rparr>)"
  using assms by (simp add: lz_match_def match_loop_copies)

text \<open>
  The effect of one instruction on the state of the loop.
\<close>

definition lz_after :: "lz_instr \<Rightarrow> nat \<Rightarrow> bytes \<Rightarrow> bytes \<Rightarrow> bytes \<Rightarrow> lz_st \<Rightarrow> lz_st" where
  "lz_after i prev xs ys rest s =
     \<lparr>lz_input_bit = lz_input_bit s + length (encode_instr i), lz_match_offset = prev,
      lz_optr = length ys, lz_out = ys @ drop (length ys - length xs) rest\<rparr>"

lemma concat_byte_bits_length [simp]: "length (concat (map byte_bits bs)) = 8 * length bs"
  by (induction bs) auto

lemma lz_step_simulates:
  assumes valid: "valid_instr i" and bits: "reads inp (lz_input_bit s) (encode_instr i)"
    and exec: "lz_exec i (lz_match_offset s, xs) = Some (prev, ys)"
    and out: "lz_out s = xs @ rest" "lz_optr s = length xs" and fits: "length ys \<le> length (lz_out s)"
  shows "lz_step inp s = Inr (lz_after i prev xs ys rest s)"
proof -
  have "encode_instr i \<noteq> []" by (cases i) auto
  then have pos: "\<not> length inp * 8 < lz_input_bit s" using reads_bound [OF bits] by simp
  note step = lz_step_def lz_after_def Let_def
  show ?thesis
  proof (cases i)
    case (Literal b)
    have "literal_loop inp (length [b]) (lz_input_bit s + 1) (length xs) (xs @ rest)
        = Some (lz_input_bit s + 1 + 8 * length [b], length xs + length [b], (xs @ [b]) @ drop (length [b]) rest)"
      using bits exec fits out Literal by (intro literal_loop_copies) auto
    moreover have "reads inp (lz_input_bit s) [False]" using bits Literal by simp
    ultimately show ?thesis using exec Literal
      using out pos by (cases s) (auto simp: step operators_literal simp del: reads.simps literal_loop.simps)
  next
    case (LiteralRun bs)
    let ?c = "encode_count 4 (length bs - 12)"
    have "encode_instr i = ([True, True] @ encode_count 4 0 @ ?c) @ concat (map byte_bits bs)"
      using LiteralRun by simp
    then have "reads inp (lz_input_bit s + (7 + length ?c)) (concat (map byte_bits bs))"
      using bits unfolding reads_append by (simp add: encode_count_4_0 ac_simps)
    then have "literal_loop inp (length bs) (lz_input_bit s + (7 + length ?c)) (length xs) (xs @ rest)
        = Some (lz_input_bit s + (7 + length ?c) + 8 * length bs, length xs + length bs, (xs @ bs) @ drop (length bs) rest)"
      using exec fits out LiteralRun by (intro literal_loop_copies) auto
    moreover have "rb_lz77_decode_instruction_operators inp (lz_input_bit s) (lz_match_offset s)
        = LzOk \<lparr>oc_instruction = INSTR_LONG, oc_offset = 0, oc_length = length bs,
                oc_bits_used = 7 + length ?c, oc_in_pos = lz_input_bit s\<rparr>"
      using bits valid LiteralRun operators_long [of inp "lz_input_bit s" 0 4 "length bs - 12" "lz_match_offset s"]
      by (simp add: encode_count_4_0)
    ultimately show ?thesis using exec LiteralRun valid
      using out pos by (cases s) (auto simp: step encode_count_4_0 add.assoc)
  next
    case (Match offset n)
    have "rb_lz77_decode_instruction_operators inp (lz_input_bit s) (lz_match_offset s)
        = LzOk \<lparr>oc_instruction = INSTR_LONG, oc_offset = offset, oc_length = n,
                oc_bits_used = length (encode_instr i), oc_in_pos = lz_input_bit s\<rparr>"
      using bits valid Match operators_long [of inp "lz_input_bit s" offset 0 "n - 2" "lz_match_offset s"]
      by (simp, linarith)
    then show ?thesis using exec Match valid fits
      using out pos by (cases s) (auto simp: step lz_match_copies split: if_splits)
  next
    case (Again n)
    have "rb_lz77_decode_instruction_operators inp (lz_input_bit s) (lz_match_offset s)
        = LzOk \<lparr>oc_instruction = INSTR_PREVIOUS_OFFSET, oc_offset = lz_match_offset s, oc_length = n,
                oc_bits_used = length (encode_instr i), oc_in_pos = lz_input_bit s\<rparr>"
      using bits valid Again operators_again [of inp "lz_input_bit s" "n - 1" "lz_match_offset s"]
      by simp
    then show ?thesis using exec Again valid fits
      using out pos by (cases s) (auto simp: step lz_match_copies split: if_splits)
  qed
qed

section \<open>Whole files\<close>

lemma lz_exec_grows: "lz_exec i (prev, xs) = Some (prev', ys) \<Longrightarrow> length xs \<le> length ys"
  by (cases i) (auto split: if_splits)

lemma lz_run_grows: "lz_run is (prev, xs) = Some (prev', ys) \<Longrightarrow> length xs \<le> length ys"
proof (induction "is" arbitrary: prev xs)
  case (Cons i "is")
  then obtain p zs where "lz_exec i (prev, xs) = Some (p, zs)" "lz_run is (p, zs) = Some (prev', ys)"
    by (auto split: option.splits)
  then show ?case using Cons.IH [of p zs] lz_exec_grows [of i prev xs p zs] by simp
qed simp

lemma lz_step_end:
  assumes "reads inp (lz_input_bit s) end_marker" "lz_optr s \<le> length (lz_out s)"
    and "length inp < lz_input_bit s + length end_marker + 96"
  shows "lz_step inp s = Inl (LzOk (lz_optr s))"
proof -
  have "end_marker \<noteq> []" by (simp add: end_marker_def)
  then have "\<not> length inp * 8 < lz_input_bit s" using reads_bound [OF assms(1)] by simp
  moreover have "rb_lz77_decode_instruction_operators inp (lz_input_bit s) (lz_match_offset s)
      = LzOk \<lparr>oc_instruction = INSTR_LONG, oc_offset = 0, oc_length = 12, oc_bits_used = length end_marker,
              oc_in_pos = lz_input_bit s\<rparr>"
    using assms(1) operators_long [of inp "lz_input_bit s" 0 4 0 "lz_match_offset s"]
    by (simp add: end_marker_def encode_count_4_0)
  ultimately show ?thesis using assms by (simp add: lz_step_def Let_def)
qed

lemma lz_loop_runs:
  assumes "\<forall>i \<in> set is. valid_instr i"
    and "reads inp (lz_input_bit s) (concat (map encode_instr is))"
    and "lz_run is (lz_match_offset s, xs) = Some (prev, ys)"
    and "lz_out s = xs @ rest" "lz_optr s = length xs" "length ys \<le> length (lz_out s)"
  shows "lz_loop (length is + fuel) inp s
       = lz_loop fuel inp \<lparr>lz_input_bit = lz_input_bit s + length (concat (map encode_instr is)),
           lz_match_offset = prev, lz_optr = length ys, lz_out = ys @ drop (length ys - length xs) rest\<rparr>"
  using assms
proof (induction "is" arbitrary: s xs rest)
  case Nil
  then show ?case by (cases s) simp
next
  case (Cons i "is")
  then obtain p zs where exec: "lz_exec i (lz_match_offset s, xs) = Some (p, zs)"
    and run: "lz_run is (p, zs) = Some (prev, ys)"
    by (auto split: option.splits)
  have len: "length xs \<le> length zs" "length zs \<le> length ys"
    using lz_exec_grows [OF exec] lz_run_grows [OF run] by auto
  have "lz_step inp s = Inr (lz_after i p xs zs rest s)"
    using Cons.prems len exec by (intro lz_step_simulates) auto
  moreover have "lz_loop (length is + fuel) inp (lz_after i p xs zs rest s)
     = lz_loop fuel inp \<lparr>lz_input_bit = lz_input_bit (lz_after i p xs zs rest s)
           + length (concat (map encode_instr is)),
           lz_match_offset = prev, lz_optr = length ys,
           lz_out = ys @ drop (length ys - length zs) (drop (length zs - length xs) rest)\<rparr>"
    using Cons.prems run len by (intro Cons.IH) (auto simp: lz_after_def)
  ultimately show ?case using len by (simp add: lz_after_def add.assoc)
qed

text \<open>
  Bits are packed into bytes from the least significant bit on; the last byte is filled with
  zeros.
\<close>

function pack_bits :: "bool list \<Rightarrow> bytes" where
  "pack_bits bs = (if bs = [] then [] else horner_sum of_bool 2 (take 8 bs) # pack_bits (drop 8 bs))"
  by pat_completeness auto
termination
  by (relation "measure length") auto

declare pack_bits.simps [simp del]

definition lz_encode :: "lz_instr list \<Rightarrow> bytes" where
  "lz_encode is = pack_bits (concat (map encode_instr is) @ end_marker)"

lemma length_pack_bits: "length bs \<le> length (pack_bits bs) * 8 \<and> length (pack_bits bs) * 8 < length bs + 8"
proof (induction bs rule: pack_bits.induct)
  case (1 bs)
  show ?case
  proof (cases "length bs \<le> 8")
    case True
    then show ?thesis by (simp add: pack_bits.simps [of bs] pack_bits.simps [of "[]"])
  next
    case False
    then have "length (drop 8 bs) + 8 = length bs" "bs \<noteq> []" by auto
    then show ?thesis using "1.IH" by (simp add: pack_bits.simps [of bs])
  qed
qed

lemma get_bit_pack_bits: "i < length bs \<Longrightarrow> rb_lz77_get_bit (pack_bits bs) i = Some (bs ! i)"
proof (induction bs arbitrary: i rule: pack_bits.induct)
  case (1 bs)
  show ?case
  proof (cases "i < 8")
    case True
    then show ?thesis using "1.prems"
      by (subst pack_bits.simps) (auto simp: rb_lz77_get_bit_def bit_horner_sum_bit_word_iff)
  next
    case False
    then have "rb_lz77_get_bit (pack_bits (drop 8 bs)) (i - 8) = Some (drop 8 bs ! (i - 8))"
      using 1 by (intro "1.IH") auto
    moreover have "i div 8 = Suc ((i - 8) div 8)" "i mod 8 = (i - 8) mod 8"
      using False by (simp_all add: le_div_geq le_mod_geq)
    ultimately show ?thesis using "1.prems" False
      by (subst pack_bits.simps) (auto simp: rb_lz77_get_bit_def split: if_splits)
  qed
qed

lemma reads_iff: "reads inp pos bs = (\<forall>i < length bs. rb_lz77_get_bit inp (pos + i) = Some (bs ! i))"
  by (induction bs arbitrary: pos) (auto simp: less_Suc_eq_0_disj)

lemma reads_pack_bits: "reads (pack_bits bs) 0 bs"
  by (simp add: reads_iff get_bit_pack_bits)

lemma length_concat_encode: "length is \<le> length (concat (map encode_instr is))"
proof (induction "is")
  case (Cons i "is")
  have "1 \<le> length (encode_instr i)" by (cases i) auto
  then show ?case using Cons by simp
qed simp

lemma encode_starts:
  "reads (lz_encode is) 0 (concat (map encode_instr is))"
  "reads (lz_encode is) (length (concat (map encode_instr is))) end_marker"
  "length is \<le> length (lz_encode is) * 8"
  using reads_pack_bits [of "concat (map encode_instr is) @ end_marker"]
    length_pack_bits [of "concat (map encode_instr is) @ end_marker"] length_concat_encode [of "is"]
  by (simp_all add: lz_encode_def)

lemma lz77_decompress_file:
  assumes "\<forall>i \<in> set is. valid_instr i" and "lz_run is (0, []) = Some (prev, ys)"
    and "length ys \<le> length out"
  shows "rb_lz77_decompress True (lz_encode is) out
       = Some (LzOk (length ys), ys @ drop (length ys) out)"
proof -
  let ?inp = "lz_encode is" and ?bits = "concat (map encode_instr is)"
  define fuel where "fuel = length ?inp * 8 + 1 - length is"
  then have fuel: "length ?inp * 8 + 2 = length is + Suc fuel"
    using encode_starts(3) [of "is"] by simp
  let ?s = "\<lparr>lz_input_bit = 0, lz_match_offset = 0, lz_optr = 0, lz_out = out\<rparr>"
  have "lz_loop (length is + Suc fuel) ?inp ?s
      = lz_loop (Suc fuel) ?inp \<lparr>lz_input_bit = 0 + length ?bits, lz_match_offset = prev,
          lz_optr = length ys, lz_out = ys @ drop (length ys) out\<rparr>"
    using assms encode_starts(1) lz_loop_runs [of "is" ?inp ?s "[]" prev ys out "Suc fuel"] by simp
  moreover have "length ?inp * 8 < length ?bits + length end_marker + 8"
    using length_pack_bits [of "?bits @ end_marker"] by (simp add: lz_encode_def)
  then have "lz_loop (Suc fuel) ?inp \<lparr>lz_input_bit = 0 + length ?bits, lz_match_offset = prev,
          lz_optr = length ys, lz_out = ys @ drop (length ys) out\<rparr>
      = Some (LzOk (length ys), ys @ drop (length ys) out)"
    using encode_starts(2) [of "is"] assms by (simp add: lz_step_end)
  ultimately show ?thesis
    unfolding rb_lz77_decompress_def fuel by simp
qed

text \<open>
  C20. The decompressor is right on every compressed file: for every sequence of instructions
  whose counts fit the bits allowed for them, if executing it one byte at a time gives the
  bytes \<open>ys\<close> and they fit the buffer, decompressing its encoding returns the length of \<open>ys\<close>
  with \<open>ys\<close> at the start of the buffer and the rest of the buffer untouched.
\<close>

theorem rb_lz77_decompress_correct:
  assumes "\<forall>i \<in> set is. valid_instr i" and "lz_run is (0, []) = Some (prev, ys)"
    and "length ys \<le> length out"
  shows "rb_lz77_decompress True (lz_encode is) out
       = Some (LzOk (length ys), ys @ drop (length ys) out)"
  by (rule lz77_decompress_file[OF assms])

theorem rb_lz77_decompress_correct_witness:
  "rb_lz77_decompress True
     (lz_encode [Literal 97, Literal 98, Match 2 5, Again 3,
        LiteralRun [1, 2, 3, 4, 5, 6, 7, 8, 9, 10, 11, 12, 13]]) (replicate 24 0)
   = Some (LzOk 23, [97, 98, 97, 98, 97, 98, 97, 98, 97, 98, 1, 2, 3, 4, 5, 6, 7, 8, 9, 10, 11, 12, 13, 0])"
proof -
  let ?is = "[Literal 97, Literal 98, Match 2 5, Again 3,
        LiteralRun [1, 2, 3, 4, 5, 6, 7, 8, 9, 10, 11, 12, 13]]"
  let ?ys = "[97, 98, 97, 98, 97, 98, 97, 98, 97, 98, 1, 2, 3, 4, 5, 6, 7, 8, 9, 10, 11, 12, 13]"
  have "\<forall>i \<in> set ?is. valid_instr i" by code_simp
  moreover have "lz_run ?is (0, []) = Some (2, ?ys)" by code_simp
  ultimately show ?thesis
    using rb_lz77_decompress_correct [of ?is 2 ?ys "replicate 24 0"]
    by (simp add: numeral_eq_Suc)
qed

section \<open>Every input\<close>

lemma decode_count_loop_down_ok:
  "decode_count_loop inp pos max_pos False s c = LzOk (c', p)
    \<Longrightarrow> p = pos + s \<and> p < max_pos \<and> c' < c + 2 ^ Suc s"
proof (induction s arbitrary: pos c)
  case 0
  then show ?case
    by (subst (asm) decode_count_loop.simps) (auto split: if_splits option.splits)
next
  case (Suc s)
  from Suc.prems obtain b where "pos < max_pos"
    "decode_count_loop inp (pos + 1) max_pos False s (if b then c + 2 ^ Suc s else c) = LzOk (c', p)"
    by (subst (asm) decode_count_loop.simps) (auto simp: Let_def split: if_splits option.splits)
  from Suc.IH [OF this(2)] show ?case by (auto split: if_splits)
qed

lemma decode_count_loop_ok:
  "decode_count_loop inp pos max_pos True s c = LzOk (c', p)
    \<Longrightarrow> pos \<le> p \<and> p < max_pos \<and> pos + s < max_pos
      \<and> c' + 2 ^ s + 1 \<le> c + 2 ^ (s + 1 + (max_pos - pos - 1 - s) div 2)"
proof (induction "max_pos - pos" arbitrary: pos s c)
  case 0
  then show ?case by (subst (asm) decode_count_loop.simps) simp
next
  case (Suc n)
  have pos: "pos < max_pos" using Suc.hyps by simp
  obtain b where bit: "rb_lz77_get_bit inp pos = Some b"
    using Suc.prems by (subst (asm) decode_count_loop.simps) (auto split: if_splits option.splits)
  show ?case
  proof (cases b)
    case True
    then have "decode_count_loop inp (pos + 1) max_pos True (s + 1) (c + 2 ^ s) = LzOk (c', p)"
      using Suc.prems bit by (subst (asm) decode_count_loop.simps) (auto simp: Let_def split: if_splits)
    then have ih: "pos + 1 \<le> p \<and> p < max_pos \<and> pos + 1 + (s + 1) < max_pos
      \<and> c' + 2 ^ (s + 1) + 1 \<le> c + 2 ^ s + 2 ^ (s + 1 + 1 + (max_pos - (pos + 1) - 1 - (s + 1)) div 2)"
      using Suc.hyps by (intro Suc.hyps(1)) auto
    then have "max_pos - pos - 1 - s = (max_pos - (pos + 1) - 1 - (s + 1)) + 2" by linarith
    then have "s + 1 + 1 + (max_pos - (pos + 1) - 1 - (s + 1)) div 2 = s + 1 + (max_pos - pos - 1 - s) div 2"
      by simp
    from ih [unfolded this] show ?thesis by auto
  next
    case False
    show ?thesis
    proof (cases s)
      case 0
      then show ?thesis using Suc.prems bit pos False
        by (subst (asm) decode_count_loop.simps) (auto simp: Let_def split: if_splits)
    next
      case (Suc k)
      then have "decode_count_loop inp (pos + 1) max_pos False k c = LzOk (c', p)"
        using Suc.prems bit pos False
        by (subst (asm) decode_count_loop.simps) (auto simp: Let_def split: if_splits)
      from decode_count_loop_down_ok [OF this]
      have p: "p = pos + s" "p < max_pos" and "c' < c + 2 ^ s" using Suc by auto
      then have "c' + 2 ^ s + 1 \<le> c + 2 ^ (s + 1)" by simp
      also have "(2 :: nat) ^ (s + 1) \<le> 2 ^ (s + 1 + (max_pos - pos - 1 - s) div 2)"
        by (intro power_increasing) auto
      finally show ?thesis using p by simp
    qed
  qed
qed

lemma decode_count_loop_no_fault:
  "max_pos \<le> length inp * 8 \<Longrightarrow> decode_count_loop inp pos max_pos up s c \<noteq> LzFault"
proof (induction "max_pos - pos" arbitrary: pos up s c)
  case 0
  then show ?case by (simp add: decode_count_loop.simps)
next
  case (Suc n)
  then have "pos < length inp * 8" by linarith
  then obtain b where "rb_lz77_get_bit inp pos = Some b"
    using get_bit_lt by blast
  moreover have "decode_count_loop inp (Suc pos) max_pos u t d \<noteq> LzFault" for u t d
    using Suc by simp
  ultimately show ?case
    by (subst decode_count_loop.simps) (simp add: Let_def)
qed

text \<open>
  Counts are bounded whatever the input: decoding a count never reads outside the input;
  if it succeeds it used between 1 and 27 bits, all inside the input, and the value added to
  the initial count is at most 65519 for a counter that starts at bit shift 4 (offsets) and
  16382 for one that starts at shift 0 (lengths), so the conversion to a signed
  \<^verbatim>\<open>int\<close> and the 8-bit count of bits of the source lose nothing.
\<close>

theorem rb_lz77_decode_count_bounds:
  "rb_lz77_decode_count inp pos shift c MIKRO_LZ77_MAX_COUNT_BIT_LEN \<noteq> LzFault
   \<and> (\<forall>n k. rb_lz77_decode_count inp pos shift c MIKRO_LZ77_MAX_COUNT_BIT_LEN = LzOk (n, k)
        \<longrightarrow> 1 \<le> k \<and> k \<le> 27 \<and> pos + k \<le> length inp * 8
          \<and> (shift = 4 \<longrightarrow> n \<le> c + 65519) \<and> (shift = 0 \<longrightarrow> n \<le> c + 16382))"
proof (intro conjI allI impI)
  let ?max = "min (pos + 27) (length inp * 8)"
  show "rb_lz77_decode_count inp pos shift c MIKRO_LZ77_MAX_COUNT_BIT_LEN \<noteq> LzFault"
    using decode_count_loop_no_fault [of ?max inp pos True shift c]
    by (auto simp: rb_lz77_decode_count_def MIKRO_LZ77_MAX_COUNT_BIT_LEN_def split: lz.splits)
  fix n k
  assume "rb_lz77_decode_count inp pos shift c MIKRO_LZ77_MAX_COUNT_BIT_LEN = LzOk (n, k)"
  then obtain p where p: "decode_count_loop inp pos ?max True shift c = LzOk (n, p)" "k = p - pos + 1"
    by (auto simp: rb_lz77_decode_count_def MIKRO_LZ77_MAX_COUNT_BIT_LEN_def split: lz.splits)
  from decode_count_loop_ok [OF p(1)]
  have b: "pos \<le> p" "p < ?max" "pos + shift < ?max"
    "n + 2 ^ shift + 1 \<le> c + 2 ^ (shift + 1 + (?max - pos - 1 - shift) div 2)" by blast+
  then show "1 \<le> k" "k \<le> 27" "pos + k \<le> length inp * 8" using p(2) by auto
  have "(2 :: nat) ^ (shift + 1 + (?max - pos - 1 - shift) div 2) \<le> 2 ^ (shift + 1 + (26 - shift) div 2)"
    by (intro power_increasing add_mono div_le_mono) auto
  then have "n + 2 ^ shift + 1 \<le> c + 2 ^ (shift + 1 + (26 - shift) div 2)"
    using b(4) by linarith
  then show "shift = 4 \<Longrightarrow> n \<le> c + 65519" "shift = 0 \<Longrightarrow> n \<le> c + 16382"
    by simp_all
qed


theorem rb_lz77_decode_count_bounds_witness:
  "rb_lz77_decode_count [1, 0] 0 4 0 MIKRO_LZ77_MAX_COUNT_BIT_LEN = LzOk (16, 7)
   \<and> (\<exists>n k. rb_lz77_decode_count [1, 0] 0 4 0 MIKRO_LZ77_MAX_COUNT_BIT_LEN = LzOk (n, k)
      \<and> 1 \<le> k \<and> k \<le> 27 \<and> 0 + k \<le> length [1 :: u8, 0] * 8 \<and> n \<le> 0 + 65519)"
proof -
  have "rb_lz77_decode_count [1, 0] 0 4 0 MIKRO_LZ77_MAX_COUNT_BIT_LEN = LzOk (16, 7)"
    by code_simp
  then show ?thesis
    using rb_lz77_decode_count_bounds [of "[1, 0]" 0 4 0] by blast
qed

lemma decode_count_bits: "rb_lz77_decode_count inp pos shift c m = LzOk (n, k) \<Longrightarrow> 1 \<le> k"
  by (auto simp: rb_lz77_decode_count_def split: lz.splits)

lemma operators_bits:
  "rb_lz77_decode_instruction_operators inp pos prev = LzOk oc \<Longrightarrow> 1 \<le> oc_bits_used oc"
  by (auto simp: rb_lz77_decode_instruction_operators_def rb_lz77_decode_instruction_def
      split: option.splits lz.splits bool.splits if_splits)

lemma length_match_loop:
  assumes "0 < offset" "offset \<le> p" "p + n \<le> length out" "match_loop offset n p out = (p', out')"
  shows "length out' = length out"
proof -
  have "match_loop offset n (length (take p out)) (take p out @ drop p out)
      = (length (take p out) + n, lz_copy offset n (take p out) @ drop n (drop p out))"
    using assms by (intro match_loop_copies) auto
  then show ?thesis using assms by auto
qed

lemma literal_loop_effect:
  "literal_loop inp n ib p out = Some (ib', p', out') \<Longrightarrow> ib \<le> ib' \<and> length out' = length out"
proof (induction n arbitrary: ib p out)
  case (Suc n)
  then obtain b where "literal_loop inp n (ib + 8) (p + 1) (out[p := b]) = Some (ib', p', out')"
    by (auto split: option.splits if_splits)
  from Suc.IH [OF this] show ?case by simp
qed simp

lemma lz_match_effect:
  "lz_match oc s = Inr s' \<Longrightarrow> lz_input_bit s' = lz_input_bit s \<and> length (lz_out s') = length (lz_out s)"
  by (auto simp: lz_match_def Let_def split: if_splits prod.splits dest: length_match_loop [rotated 3])

lemma lz_step_progress:
  assumes "lz_step inp s = Inr s'"
  shows "lz_input_bit s < lz_input_bit s' \<and> lz_input_bit s \<le> length inp * 8
       \<and> length (lz_out s') = length (lz_out s)"
proof -
  have pos: "\<not> length inp * 8 < lz_input_bit s"
    using assms by (auto simp: lz_step_def split: if_splits)
  obtain oc where oc: "rb_lz77_decode_instruction_operators inp (lz_input_bit s) (lz_match_offset s) = LzOk oc"
    using assms by (auto simp: lz_step_def split: if_splits lz.splits)
  show ?thesis
    using assms pos oc operators_bits [OF oc]
    by (auto simp: lz_step_def Let_def split: if_splits option.splits
        dest!: literal_loop_effect lz_match_effect)
qed

lemma lz_loop_returns:
  "length inp * 8 + 1 \<le> lz_input_bit s + fuel
    \<Longrightarrow> \<exists>r out. lz_loop (Suc fuel) inp s = Some (r, out) \<and> length out = length (lz_out s)"
proof (induction fuel arbitrary: s)
  case 0
  then show ?case
    using lz_step_progress [of inp s] by (cases "lz_step inp s") auto
next
  case (Suc fuel)
  show ?case
  proof (cases "lz_step inp s")
    case (Inr s')
    then show ?thesis using lz_step_progress [OF Inr] Suc.IH [of s'] Suc.prems by auto
  qed simp
qed

text \<open>
  The decompressor stops on every input: the fuel of the model, one unit for every bit
  of the input and two more, is never used up, and the buffer keeps its length.
\<close>

theorem rb_lz77_decompress_returns:
  "\<exists>r out'. rb_lz77_decompress kmalloc_ok inp out = Some (r, out') \<and> length out' = length out"
  using lz_loop_returns [of inp "\<lparr>lz_input_bit = 0, lz_match_offset = 0, lz_optr = 0, lz_out = out\<rparr>"
      "length inp * 8 + 1"]
  by (simp add: rb_lz77_decompress_def)

lemma lz_run_literals: "lz_run (map Literal bs) (prev, xs) = Some (prev, xs @ bs)"
  by (induction bs arbitrary: xs) auto

lemma lz_step_literal_full:
  assumes "reads inp (lz_input_bit s) (encode_instr (Literal b))" "lz_optr s = length (lz_out s)"
  shows "lz_step inp s = Inl LzFault"
proof -
  have "\<not> length inp * 8 < lz_input_bit s" using reads_bound [OF assms(1)] by simp
  moreover have "reads inp (lz_input_bit s) [False]" "rb_lz77_get_byte inp (lz_input_bit s + 1) = Some b"
    using assms by (auto simp: get_byte_reads)
  ultimately show ?thesis
    using assms(2) by (simp add: lz_step_def Let_def operators_literal del: reads.simps)
qed

text \<open>
  Literal bytes are stored without a test of the space left: whenever a file of literal
  bytes is longer than the buffer, the decompressor writes behind the end of the buffer
  instead of returning the error that a match in the same place gives.
\<close>

theorem rb_lz77_literal_overruns:
  assumes "length out < length bs"
  shows "\<exists>out'. rb_lz77_decompress True (lz_encode (map Literal bs)) out = Some (LzFault, out')"
proof -
  let ?inp = "lz_encode (map Literal bs)" and ?s = "\<lparr>lz_input_bit = 0, lz_match_offset = 0, lz_optr = 0, lz_out = out\<rparr>"
  obtain b xs ys where bs: "bs = xs @ b # ys" "length xs = length out"
    using assms by (metis id_take_nth_drop length_take min.absorb4)
  let ?bits = "concat (map encode_instr (map Literal xs))"
  have "reads ?inp 0 ?bits \<and> reads ?inp (length ?bits) (encode_instr (Literal b))"
    using encode_starts(1) [of "map Literal bs"] by (simp add: bs(1) del: encode_instr.simps)
  then have r: "reads ?inp 0 ?bits" "reads ?inp (0 + length ?bits) (encode_instr (Literal b))" by auto
  define fuel where "fuel = length ?inp * 8 + 1 - length (map Literal xs)"
  then have fuel: "length ?inp * 8 + 2 = length (map Literal xs) + Suc fuel"
    using encode_starts(3) [of "map Literal bs"] bs(1) by simp
  have "lz_loop (length (map Literal xs) + Suc fuel) ?inp ?s
      = lz_loop (Suc fuel) ?inp \<lparr>lz_input_bit = 0 + length ?bits, lz_match_offset = 0,
          lz_optr = length xs, lz_out = xs @ drop (length xs) out\<rparr>"
    using r lz_run_literals [of xs 0 "[]"] bs(2)
      lz_loop_runs [of "map Literal xs" ?inp ?s "[]" 0 xs out "Suc fuel"] by simp
  also have "\<dots> = Some (LzFault, xs)"
    using r(2) bs(2) by (simp add: lz_step_literal_full del: encode_instr.simps)
  finally show ?thesis
    unfolding rb_lz77_decompress_def fuel by simp
qed

theorem rb_lz77_literal_overruns_witness:
  "length [0 :: u8] < length [1, 2 :: u8]
   \<and> (\<exists>out'. rb_lz77_decompress True (lz_encode (map Literal [1, 2])) [0] = Some (LzFault, out'))"
  using rb_lz77_literal_overruns [of "[0]" "[1, 2]"] by simp

end
