(* ===== verification/Rb_Hardconfig.thy ===== *)
theory Rb_Hardconfig
  imports Routerboot Rb_Lz77
begin

unbundle bit_operations_syntax

text \<open>
  The driver for the hardware description of MikroTik boards
  (\<^verbatim>\<open>drivers/platform/mikrotik/rb_hardconfig.c\<close>), which prints the tags of a flash partition
  and unpacks the calibration data of the radios, and the NVMEM layout driver for the same
  partition (\<^verbatim>\<open>rb_nvmem.c\<close>). Unpacking goes through the decompressor of \<open>Rb_Lz77\<close>, a search,
  the tags and the runs of \<open>Routerboot\<close>.
\<close>

section \<open>Constants\<close>

definition RB_ID_FLASH_INFO :: nat where "RB_ID_FLASH_INFO = 0x03"
definition RB_ID_MAC_ADDRESS_PACK :: nat where "RB_ID_MAC_ADDRESS_PACK = 0x04"
definition RB_ID_BOARD_PRODUCT_CODE :: nat where "RB_ID_BOARD_PRODUCT_CODE = 0x05"
definition RB_ID_BIOS_VERSION :: nat where "RB_ID_BIOS_VERSION = 0x06"
definition RB_ID_SERIAL_NUMBER :: nat where "RB_ID_SERIAL_NUMBER = 0x0B"
definition RB_ID_MEMORY_SIZE :: nat where "RB_ID_MEMORY_SIZE = 0x0D"
definition RB_ID_MAC_ADDRESS_COUNT :: nat where "RB_ID_MAC_ADDRESS_COUNT = 0x0E"
definition RB_ID_HW_OPTIONS :: nat where "RB_ID_HW_OPTIONS = 0x15"
definition RB_ID_WLAN_DATA :: nat where "RB_ID_WLAN_DATA = 0x16"
definition RB_ID_BOARD_IDENTIFIER :: nat where "RB_ID_BOARD_IDENTIFIER = 0x17"
definition RB_ID_PRODUCT_NAME :: nat where "RB_ID_PRODUCT_NAME = 0x21"
definition RB_ID_DEFCONF :: nat where "RB_ID_DEFCONF = 0x26"
definition RB_ID_BOARD_REVISION :: nat where "RB_ID_BOARD_REVISION = 0x27"
definition RB_WLAN_ERD_ID_SOLO :: nat where "RB_WLAN_ERD_ID_SOLO = 0x0001"
definition RB_WLAN_ERD_ID_MULTI_8001 :: nat where "RB_WLAN_ERD_ID_MULTI_8001 = 0x8001"
definition RB_WLAN_ERD_ID_MULTI_8201 :: nat where "RB_WLAN_ERD_ID_MULTI_8201 = 0x8201"

definition hc_lzor_prefix :: bytes where
  "hc_lzor_prefix =
    [0x00, 0x05, 0x4c, 0x4c, 0x44, 0x00, 0x34, 0xfe, 0xfe, 0x34, 0x11, 0x3c, 0x1e, 0x3c, 0x2e, 0x3c,
     0x4c, 0x34, 0x00, 0x52, 0x62, 0x92, 0xa2, 0xb2, 0xc3, 0x2a, 0x14, 0x00, 0x00, 0x05, 0xfe, 0x6a,
     0x3c, 0x16, 0x32, 0x16, 0x11, 0x1e, 0x12, 0x46, 0x32, 0x46, 0x11, 0x4e, 0x12, 0x36, 0x32, 0x36,
     0x11, 0x3e, 0x12, 0x5a, 0x9a, 0x64, 0x00, 0x04, 0xfe, 0x10, 0x3c, 0x00, 0x01, 0x00, 0x00, 0x28,
     0x0c, 0x00, 0x0f, 0xfe, 0x14, 0x00, 0x24, 0x24, 0x23, 0x24, 0x24, 0x23, 0x25, 0x22, 0x21, 0x21,
     0x23, 0x22, 0x21, 0x22, 0x21, 0x2d, 0x38, 0x00, 0x0c, 0x25, 0x25, 0x24, 0x25, 0x25, 0x24, 0x23,
     0x22, 0x21, 0x20, 0x23, 0x21, 0x21, 0x22, 0x21, 0x2d, 0x38, 0x00, 0x28, 0xb0, 0x00, 0x00, 0x22,
     0x00, 0x00, 0xc0, 0xfe, 0x03, 0x00, 0xc0, 0x00, 0x62, 0xff, 0x62, 0xff, 0xfe, 0x06, 0x00, 0xbb,
     0xff, 0xba, 0xff, 0xfe, 0x08, 0x00, 0x9e, 0xff, 0xfe, 0x0a, 0x00, 0x53, 0xff, 0xfe, 0x02, 0x00,
     0x20, 0xff, 0xb1, 0xfe, 0xfe, 0xb2, 0xfe, 0xfe, 0xed, 0xfe, 0xfe, 0xfe, 0x04, 0x00, 0x3a, 0xff,
     0x3a, 0xff, 0xde, 0xfd, 0x5f, 0x04, 0x33, 0xff, 0x4c, 0x74, 0x03, 0x05, 0x05, 0xff, 0x6d, 0xfe,
     0xfe, 0x6d, 0xfe, 0xfe, 0xaf, 0x08, 0x63, 0xff, 0x64, 0x6f, 0x08, 0xac, 0xff, 0xbf, 0x6d, 0x08,
     0x7a, 0x6d, 0x08, 0x96, 0x74, 0x04, 0x00, 0x08, 0x79, 0xff, 0xda, 0xfe, 0xfe, 0xdb, 0xfe, 0xfe,
     0x56, 0xff, 0xfe, 0x04, 0x00, 0x5e, 0xff, 0x5e, 0xff, 0x6c, 0xfe, 0xfe, 0xfe, 0x06, 0x00, 0x41,
     0xff, 0x7f, 0x74, 0x03, 0x00, 0x11, 0x44, 0xff, 0xa9, 0xfe, 0xfe, 0xa9, 0xfe, 0xfe, 0xa5, 0x8f,
     0x01, 0x00, 0x08, 0x01, 0x01, 0x02, 0x04, 0x08, 0x02, 0x04, 0x08, 0x08, 0x01, 0x01, 0xfe, 0x22,
     0x00, 0x4c, 0x60, 0x64, 0x8c, 0x90, 0xd0, 0xd4, 0xd8, 0x5c, 0x10, 0x09, 0xd8, 0xff, 0xb0, 0xff,
     0x00, 0x00, 0xba, 0xff, 0x14, 0x00, 0xba, 0xff, 0x64, 0x00, 0x00, 0x08, 0xfe, 0x06, 0x00, 0x74,
     0xff, 0x42, 0xff, 0xce, 0xff, 0x60, 0xff, 0x0a, 0x00, 0xb4, 0x00, 0xa0, 0x00, 0xa0, 0xfe, 0x07,
     0x00, 0x0a, 0x00, 0xb0, 0xff, 0x96, 0x4d, 0x00, 0x56, 0x57, 0x18, 0xa6, 0xff, 0x92, 0x70, 0x11,
     0x00, 0x12, 0x90, 0x90, 0x76, 0x5a, 0x54, 0x54, 0x4c, 0x46, 0x38, 0x00, 0x10, 0x10, 0x08, 0xfe,
     0x05, 0x00, 0x38, 0x29, 0x25, 0x23, 0x22, 0x22, 0x1f, 0x00, 0x00, 0x00, 0xf6, 0xe1, 0xdd, 0xf8,
     0xfe, 0x00, 0xfe, 0x15, 0x00, 0x00, 0xd0, 0x02, 0x74, 0x02, 0x08, 0xf8, 0xe5, 0xde, 0x02, 0x04,
     0x04, 0xfd, 0x00, 0x00, 0x00, 0x07, 0x50, 0x2d, 0x01, 0x90, 0x90, 0x76, 0x60, 0xb0, 0x07, 0x07,
     0x0c, 0x0c, 0x04, 0xfe, 0x05, 0x00, 0x66, 0x66, 0x5a, 0x56, 0xbc, 0x01, 0x06, 0xfc, 0xfc, 0xf1,
     0xfe, 0x07, 0x00, 0x24, 0x95, 0x70, 0x64, 0x18, 0x06, 0x2c, 0xff, 0xb5, 0xfe, 0xfe, 0xb5, 0xfe,
     0xfe, 0xe2, 0x8c, 0x24, 0x02, 0x2f, 0xff, 0x2f, 0xff, 0xb4, 0x78, 0x02, 0x05, 0x73, 0xff, 0xed,
     0xfe, 0xfe, 0x4f, 0xff, 0x36, 0x74, 0x1e, 0x09, 0x4f, 0xff, 0x50, 0xff, 0xfe, 0x16, 0x00, 0x70,
     0xac, 0x70, 0x8e, 0xac, 0x40, 0x0e, 0x01, 0x70, 0x7f, 0x8e, 0xac, 0x6c, 0x00, 0x0b, 0xfe, 0x02,
     0x00, 0xfe, 0x0a, 0x2c, 0x2a, 0x2a, 0x28, 0x26, 0x1e, 0x1e, 0xfe, 0x02, 0x20, 0x65, 0x20, 0x00,
     0x00, 0x05, 0x12, 0x00, 0x11, 0x1e, 0x11, 0x11, 0x41, 0x1e, 0x41, 0x11, 0x31, 0x1e, 0x31, 0x11,
     0x70, 0x75, 0x7a, 0x7f, 0x84, 0x89, 0x8e, 0x93, 0x98, 0x30, 0x20, 0x00, 0x02, 0x00, 0xfe, 0x06,
     0x3c, 0xbc, 0x32, 0x0c, 0x00, 0x00, 0x2a, 0x12, 0x1e, 0x12, 0x2e, 0x12, 0xcc, 0x12, 0x11, 0x1a,
     0x1e, 0x1a, 0x2e, 0x1a, 0x4c, 0x10, 0x1e, 0x10, 0x11, 0x18, 0x1e, 0x42, 0x1e, 0x42, 0x2e, 0x42,
     0xcc, 0x42, 0x11, 0x4a, 0x1e, 0x4a, 0x2e, 0x4a, 0x4c, 0x40, 0x1e, 0x40, 0x11, 0x48, 0x1e, 0x32,
     0x1e, 0x32, 0x2e, 0x32, 0xcc, 0x32, 0x11, 0x3a, 0x1e, 0x3a, 0x2e, 0x3a, 0x4c, 0x30, 0x1e, 0x30,
     0x11, 0x38, 0x1e, 0x27, 0x9a, 0x01, 0x9d, 0xa2, 0x2f, 0x28, 0x00, 0x00, 0x46, 0xde, 0xc4, 0xbf,
     0xa6, 0x9d, 0x81, 0x7b, 0x5c, 0x61, 0x40, 0xc7, 0xc0, 0xae, 0xa9, 0x8c, 0x83, 0x6a, 0x62, 0x50,
     0x3e, 0xce, 0xc2, 0xae, 0xa3, 0x8c, 0x7b, 0x6a, 0x5a, 0x50, 0x35, 0xd7, 0xc2, 0xb7, 0xa4, 0x95,
     0x7e, 0x72, 0x5a, 0x59, 0x37, 0xfe, 0x02, 0xf8, 0x8c, 0x95, 0x90, 0x8f, 0x00, 0xd7, 0xc0, 0xb7,
     0xa2, 0x95, 0x7b, 0x72, 0x56, 0x59, 0x32, 0xc7, 0xc3, 0xae, 0xad, 0x8c, 0x85, 0x6a, 0x63, 0x50,
     0x3e, 0xce, 0xc3, 0xae, 0xa4, 0x8c, 0x7c, 0x6a, 0x59, 0x50, 0x34, 0xd7, 0xc2, 0xb7, 0xa5, 0x95,
     0x7e, 0x72, 0x59, 0x59, 0x36, 0xfc, 0x05, 0x00, 0x02, 0xce, 0xc5, 0xae, 0xa5, 0x95, 0x83, 0x72,
     0x5c, 0x59, 0x36, 0xbf, 0xc6, 0xa5, 0xab, 0x8c, 0x8c, 0x6a, 0x67, 0x50, 0x41, 0x64, 0x07, 0x00,
     0x02, 0x95, 0x8c, 0x72, 0x65, 0x59, 0x3f, 0xce, 0xc7, 0xae, 0xa8, 0x95, 0x86, 0x72, 0x5f, 0x59,
     0x39, 0xfe, 0x02, 0xf8, 0x8b, 0x7c, 0x0b, 0x09, 0xb7, 0xc2, 0x9d, 0xa4, 0x83, 0x85, 0x6a, 0x6b,
     0x50, 0x44, 0xb7, 0xc1, 0x64, 0x01, 0x00, 0x06, 0x61, 0x5d, 0x48, 0x3d, 0xae, 0xc4, 0x9d, 0xad,
     0x7b, 0x85, 0x61, 0x66, 0x48, 0x46, 0xae, 0xc3, 0x95, 0xa3, 0x72, 0x7c, 0x59, 0x56, 0x38, 0x31,
     0x7c, 0x0b, 0x00, 0x0c, 0x96, 0x91, 0x8f, 0x00, 0xb7, 0xc0, 0xa5, 0xab, 0x8c, 0x8a, 0x6a, 0x64,
     0x50, 0x3c, 0xb7, 0xc0, 0x9d, 0xa0, 0x83, 0x80, 0x6a, 0x64, 0x50, 0x3d, 0xb7, 0xc5, 0x9d, 0xa5,
     0x83, 0x87, 0x6c, 0x08, 0x07, 0xae, 0xc0, 0x9d, 0xa8, 0x83, 0x88, 0x6a, 0x6d, 0x50, 0x46, 0xfc,
     0x05, 0x00, 0x16, 0xbf, 0xc0, 0xa5, 0xa2, 0x8c, 0x7f, 0x6a, 0x57, 0x50, 0x2f, 0xb7, 0xc7, 0xa5,
     0xb1, 0x8c, 0x8e, 0x72, 0x6d, 0x59, 0x45, 0xbf, 0xc6, 0xa5, 0xa8, 0x8c, 0x87, 0x6a, 0x5f, 0x50,
     0x37, 0xbf, 0xc2, 0xa5, 0xa4, 0x8c, 0x83, 0x6a, 0x5c, 0x50, 0x34, 0xbc, 0x05, 0x00, 0x0e, 0x90,
     0x00, 0xc7, 0xc2, 0xae, 0xaa, 0x95, 0x82, 0x7b, 0x60, 0x61, 0x3f, 0xb7, 0xc6, 0xa5, 0xb1, 0x8c,
     0x8d, 0x72, 0x6b, 0x61, 0x51, 0xbf, 0xc4, 0xa5, 0xa5, 0x8c, 0x82, 0x72, 0x61, 0x59, 0x39, 0x6c,
     0x26, 0x03, 0x95, 0x82, 0x7b, 0x61, 0x61, 0x40, 0xfc, 0x05, 0x00, 0x00, 0x7e, 0xd7, 0xc3, 0xb7,
     0xa8, 0x9d, 0x80, 0x83, 0x5d, 0x6a, 0x3f, 0xbf, 0xc7, 0xa5, 0xa8, 0x8c, 0x84, 0x72, 0x60, 0x61,
     0x46, 0xbf, 0xc2, 0xae, 0xb0, 0x9d, 0x92, 0x83, 0x6f, 0x6a, 0x50, 0xd7, 0xc3, 0xb7, 0xa7, 0x9d,
     0x80, 0x83, 0x5e, 0x6a, 0x40, 0xfe, 0x02, 0xf8, 0x8d, 0x96, 0x90, 0x90, 0xfe, 0x05, 0x00, 0x8a,
     0xc4, 0x63, 0xb8, 0x3c, 0xa6, 0x29, 0x97, 0x16, 0x81, 0x84, 0xb7, 0x5b, 0xa9, 0x33, 0x94, 0x1e,
     0x83, 0x11, 0x70, 0xb8, 0xc2, 0x70, 0xb1, 0x4d, 0xa3, 0x2a, 0x8d, 0x1b, 0x7b, 0xa8, 0xbc, 0x68,
     0xab, 0x47, 0x9d, 0x27, 0x87, 0x18, 0x75, 0xae, 0xc6, 0x7d, 0xbb, 0x4d, 0xaa, 0x1c, 0x84, 0x11,
     0x72, 0xa3, 0xbb, 0x6e, 0xad, 0x3c, 0x97, 0x24, 0x85, 0x16, 0x71, 0x80, 0xb2, 0x57, 0xa4, 0x30,
     0x8e, 0x1c, 0x7c, 0x10, 0x68, 0xbb, 0xbd, 0x75, 0xac, 0x4f, 0x9e, 0x2b, 0x87, 0x1a, 0x76, 0x96,
     0xc5, 0x5e, 0xb5, 0x3e, 0xa5, 0x1f, 0x8c, 0x12, 0x7a, 0xc1, 0xc6, 0x42, 0x9f, 0x27, 0x8c, 0x16,
     0x77, 0x0f, 0x67, 0x9d, 0xbc, 0x68, 0xad, 0x36, 0x95, 0x20, 0x83, 0x11, 0x6d, 0x9b, 0xb8, 0x67,
     0xa8, 0x34, 0x90, 0x1f, 0x7c, 0x10, 0x67, 0x9e, 0xc9, 0x6a, 0xbb, 0x37, 0xa4, 0x20, 0x90, 0x11,
     0x7b, 0xc6, 0xc8, 0x47, 0xa4, 0x2a, 0x90, 0x18, 0x7b, 0x10, 0x6c, 0xae, 0xc4, 0x5d, 0xad, 0x37,
     0x9a, 0x1f, 0x85, 0x13, 0x75, 0x70, 0xad, 0x42, 0x99, 0x25, 0x84, 0x17, 0x74, 0x0b, 0x56, 0x87,
     0xc8, 0x57, 0xb8, 0x2b, 0x9e, 0x19, 0x8a, 0x0d, 0x74, 0xa7, 0xc8, 0x6e, 0xb9, 0x36, 0xa0, 0x1f,
     0x8b, 0x11, 0x75, 0x94, 0xbe, 0x4b, 0xa5, 0x2a, 0x92, 0x18, 0x7c, 0x0f, 0x6b, 0xaf, 0xc0, 0x58,
     0xa8, 0x34, 0x94, 0x1d, 0x7d, 0x12, 0x6d, 0x82, 0xc0, 0x52, 0xb0, 0x25, 0x94, 0x14, 0x7f, 0x0c,
     0x68, 0x84, 0xbf, 0x3e, 0xa4, 0x22, 0x8e, 0x10, 0x76, 0x0b, 0x65, 0x88, 0xb6, 0x42, 0x9b, 0x26,
     0x87, 0x14, 0x70, 0x0c, 0x5f, 0xc5, 0xc2, 0x3e, 0x97, 0x23, 0x83, 0x13, 0x6c, 0x0c, 0x5c, 0xb1,
     0xc9, 0x76, 0xbc, 0x4a, 0xaa, 0x20, 0x8d, 0x12, 0x78, 0x93, 0xbf, 0x46, 0xa3, 0x26, 0x8d, 0x14,
     0x74, 0x0c, 0x62, 0xc8, 0xc4, 0x3b, 0x97, 0x21, 0x82, 0x11, 0x6a, 0x0a, 0x59, 0xa3, 0xb9, 0x68,
     0xa9, 0x30, 0x8d, 0x1a, 0x78, 0x0f, 0x61, 0xa0, 0xc9, 0x73, 0xbe, 0x50, 0xb1, 0x30, 0x9f, 0x14,
     0x80, 0x83, 0xb7, 0x3c, 0x9a, 0x20, 0x84, 0x0e, 0x6a, 0x0a, 0x57, 0xac, 0xc2, 0x68, 0xb0, 0x2e,
     0x92, 0x19, 0x7c, 0x0d, 0x63, 0x93, 0xbe, 0x62, 0xb0, 0x3c, 0x9e, 0x1a, 0x80, 0x0e, 0x6b, 0xbb,
     0x02, 0xa0, 0x02, 0xa0, 0x02, 0x6f, 0x00, 0x75, 0x00, 0x75, 0x00, 0x00, 0x00, 0xad, 0x02, 0xb3,
     0x02, 0x6f, 0x00, 0x87, 0x00, 0x85, 0xfe, 0x03, 0x00, 0xc2, 0x02, 0x82, 0x4d, 0x92, 0x6e, 0x4d,
     0xb1, 0xa8, 0x84, 0x01, 0x00, 0x07, 0x7e, 0x00, 0xa8, 0x02, 0xa4, 0x02, 0xa4, 0x02, 0xa2, 0x00,
     0xa6, 0x00, 0xa6, 0x00, 0x00, 0x00, 0xb4, 0x02, 0xb4, 0x02, 0x92, 0x00, 0x96, 0x00, 0x96, 0x46,
     0x04, 0xb0, 0x02, 0x64, 0x02, 0x0a, 0x8c, 0x00, 0x90, 0x02, 0x98, 0x02, 0x98, 0x02, 0x0e, 0x01,
     0x11, 0x01, 0x11, 0x50, 0xc3, 0x08, 0x88, 0x02, 0x88, 0x02, 0x19, 0x01, 0x02, 0x01, 0x02, 0x01,
     0xf3, 0x2d, 0x00, 0x00]"

section \<open>Environment\<close>

text \<open>
  What the driver uses of the kernel: \<^verbatim>\<open>lzo1x_decompress_safe\<close>, which gets the input and the
  size of the output and gives an error, the length and the bytes stored; and the results of
  the allocations: of the temporary buffer, of the opcode structure inside
  \<^verbatim>\<open>rb_lz77_decompress\<close>, of the output buffer, and of the two directories.
\<close>

abbreviation (input) LZO_E_INPUT_NOT_CONSUMED :: int where "LZO_E_INPUT_NOT_CONSUMED \<equiv> - 8"

record hc_env =
  he_pf :: platform
  he_lzo :: "bytes \<Rightarrow> nat \<Rightarrow> int \<times> nat \<times> bytes"
  he_tempbuf :: bool
  he_opcodes :: bool
  he_outbuf :: bool
  he_kobj :: bool
  he_wlan_kobj :: bool

section \<open>Printing\<close>

record hc_hwopt =
  ho_bit :: nat
  ho_str :: string

abbreviation tab :: string where "tab \<equiv> [char_of (9 :: nat)]"

definition hc_hwopts :: "hc_hwopt list" where
  "hc_hwopts =
     [\<lparr>ho_bit = 0, ho_str = ''no UART'' @ tab @ tab\<rparr>, \<lparr>ho_bit = 1, ho_str = ''has Vreg'' @ tab\<rparr>,
      \<lparr>ho_bit = 2, ho_str = ''has usb'' @ tab @ tab\<rparr>, \<lparr>ho_bit = 3, ho_str = ''has ATtiny'' @ tab\<rparr>,
      \<lparr>ho_bit = 14, ho_str = ''no NAND'' @ tab @ tab\<rparr>, \<lparr>ho_bit = 15, ho_str = ''has LCD'' @ tab @ tab\<rparr>,
      \<lparr>ho_bit = 16, ho_str = ''has POE out'' @ tab\<rparr>, \<lparr>ho_bit = 17, ho_str = ''has MicroSD'' @ tab\<rparr>,
      \<lparr>ho_bit = 18, ho_str = ''has SIM'' @ tab @ tab\<rparr>, \<lparr>ho_bit = 20, ho_str = ''has SFP'' @ tab @ tab\<rparr>,
      \<lparr>ho_bit = 21, ho_str = ''has WiFi'' @ tab\<rparr>, \<lparr>ho_bit = 22, ho_str = ''has TS ADC'' @ tab\<rparr>,
      \<lparr>ho_bit = 29, ho_str = ''has PLC'' @ tab @ tab\<rparr>]"

definition hex2 :: "u8 \<Rightarrow> string" where
  "hex2 b = hex 2 (unat b)"

definition hc_tag_show_mac :: "bytes \<Rightarrow> nat \<Rightarrow> nat \<Rightarrow> string res" where
  "hc_tag_show_mac buf ofs len =
     (if len \<noteq> 8 then Fail (- EINVAL)
      else if length buf < ofs + 6 then Fault
      else Ret (hex2 (buf ! ofs) @ concat (map (\<lambda>i. '':'' @ hex2 (buf ! (ofs + i))) [1..<6]) @ newline))"

definition hc_tag_show_hwoptions :: "platform \<Rightarrow> bytes \<Rightarrow> nat \<Rightarrow> nat \<Rightarrow> string res" where
  "hc_tag_show_hwoptions p buf ofs len =
     (if len \<noteq> 4 then Fail (- EINVAL)
      else if length buf < ofs + 4 then Fault
      else
        (let data = get_cpu32 p buf ofs
         in Ret (''raw'' @ tab @ tab @ '': 0x'' @ hex 8 data @ newline @ newline @
              concat (map (\<lambda>o'. ho_str o' @ '': '' @ (if bit data (ho_bit o') then ''true'' else ''false'') @ newline)
                hc_hwopts))))"

section \<open>Calibration data\<close>

text \<open>
  A range of which the code passes the start and the length to a decoder. If the range is not
  inside the data, the decoder reads outside.
\<close>

definition range_of :: "bytes \<Rightarrow> nat \<Rightarrow> nat \<Rightarrow> bytes res" where
  "range_of buf ofs len = (if ofs + len \<le> length buf then Ret (take len (drop ofs buf)) else Fault)"

definition hc_wlan_data_unpack_erd :: "hc_env \<Rightarrow> nat \<Rightarrow> bytes \<Rightarrow> nat \<Rightarrow> bytes res" where
  "hc_wlan_data_unpack_erd he tag_id inbuf outlen =
     bind_res (routerboot_tag_find (he_pf he) inbuf tag_id) (\<lambda>(lzo_ofs, lzo_len).
       if length inbuf < lzo_len then Fail (- EINVAL)
       else bind_res (range_of inbuf lzo_ofs lzo_len) (\<lambda>lzo.
         (let (ret, n, out) = he_lzo he lzo outlen in if ret \<noteq> 0 then Fail ret else Ret (take n out))))"

text \<open>
  The search for the magic number in the decompressed data, word by word; the result is the
  position behind it. A word that is not wholly inside the data is \<open>Fault\<close>.
\<close>

function find_erd :: "platform \<Rightarrow> bytes \<Rightarrow> nat \<Rightarrow> nat res" where
  "find_erd p buf pos =
     (if length buf < pos + 4 then Fault
      else if get_cpu32 p buf pos = RB_MAGIC_ERD then Ret (pos + 4)
      else if length buf \<le> pos + 4 then Fail (- ENODATA)
      else find_erd p buf (pos + 4))"
  by pat_completeness auto
termination
  by (relation "measure (\<lambda>(p, buf, pos). length buf - pos)") auto

declare find_erd.simps [simp del]

text \<open>Decompression into the temporary buffer of \<open>outlen\<close> bytes; the result is what was stored.\<close>

definition decompress_lzor :: "hc_env \<Rightarrow> bytes \<Rightarrow> nat \<Rightarrow> bytes res" where
  "decompress_lzor he inbuf outlen =
     (let (ret, n, out) = he_lzo he (hc_lzor_prefix @ inbuf) outlen
      in if ret \<noteq> 0 \<and> ret \<noteq> LZO_E_INPUT_NOT_CONSUMED then Fail ret else Ret (take n out))"

definition decompress_lz77 :: "hc_env \<Rightarrow> bytes \<Rightarrow> nat \<Rightarrow> bytes res" where
  "decompress_lz77 he inbuf outlen =
     (case rb_lz77_decompress (he_opcodes he) inbuf (replicate outlen 0) of
        None \<Rightarrow> Diverges
      | Some (LzFault, _) \<Rightarrow> Fault
      | Some (LzErr ret, _) \<Rightarrow> Fail ret
      | Some (LzOk n, out) \<Rightarrow> Ret (take n out))"

definition unpack_decompressed :: "platform \<Rightarrow> nat \<Rightarrow> bytes \<Rightarrow> nat \<Rightarrow> bytes res" where
  "unpack_decompressed p tag_id temp outlen =
     bind_res (find_erd p temp 0) (\<lambda>needle.
     bind_res (routerboot_tag_find p (drop needle temp) tag_id) (\<lambda>(rle_ofs, rle_len).
       if length temp - needle < rle_len then Fail (- EINVAL)
       else bind_res (range_of (drop needle temp) rle_ofs rle_len) (\<lambda>rle.
         (let (ret, n, out) = routerboot_rle_decode rle outlen in if ret \<noteq> 0 then Fail ret else Ret out))))"

text \<open>The second component says whether the temporary buffer is still allocated on return.\<close>

definition hc_wlan_data_unpack_lzor_lz77 ::
  "hc_env \<Rightarrow> nat \<Rightarrow> bytes \<Rightarrow> nat \<Rightarrow> nat \<Rightarrow> bytes res \<times> bool" where
  "hc_wlan_data_unpack_lzor_lz77 he tag_id inbuf outlen magic =
     (if \<not> he_tempbuf he then (Fail (- ENOMEM), False)
      else if outlen < length inbuf + (if magic = RB_MAGIC_LZOR then length hc_lzor_prefix else 0)
      then (Fail (- EFBIG), True)
      else if magic = RB_MAGIC_LZOR then
        (bind_res (decompress_lzor he inbuf outlen) (\<lambda>temp. unpack_decompressed (he_pf he) tag_id temp outlen), False)
      else if magic = RB_MAGIC_LZ77 then
        (bind_res (decompress_lz77 he inbuf outlen) (\<lambda>temp. unpack_decompressed (he_pf he) tag_id temp outlen), False)
      else (Fail (- EINVAL), True))"

text \<open>
  A payload shorter than the magic number makes the remaining length wrap around: the copy of an
  LZOR payload then leaves the buffers, an LZ77 payload is too big, and the end of an ERD payload
  lies before its start.
\<close>

definition unpack_short :: "hc_env \<Rightarrow> nat \<Rightarrow> bytes res" where
  "unpack_short he magic =
     (if magic = RB_MAGIC_ERD then Fail (- ENOENT)
      else if \<not> he_tempbuf he then Fail (- ENOMEM)
      else if magic = RB_MAGIC_LZ77 then Fail (- EFBIG) else Fault)"

definition hc_wlan_data_unpack :: "hc_env \<Rightarrow> bytes \<Rightarrow> nat \<Rightarrow> nat \<Rightarrow> nat \<Rightarrow> nat \<Rightarrow> bytes res" where
  "hc_wlan_data_unpack he hc_buf tag_id tofs tlen outlen =
     (if length hc_buf < tofs + tlen then Fail (- EIO)
      else if length hc_buf < tofs + 4 then Fault
      else
        (let magic = get_cpu32 (he_pf he) hc_buf tofs;
             lbuf = take (tlen - 4) (drop (tofs + 4) hc_buf)
         in if magic = RB_MAGIC_LZ77 \<and> tag_id = RB_WLAN_ERD_ID_SOLO then Fail (- ENODATA)
            else if magic = RB_MAGIC_LZ77 \<or> magic = RB_MAGIC_LZOR then
              if tlen < 4 then unpack_short he magic else fst (hc_wlan_data_unpack_lzor_lz77 he tag_id lbuf outlen magic)
            else if magic = RB_MAGIC_ERD then
              if tlen < 4 then unpack_short he magic else hc_wlan_data_unpack_erd he tag_id lbuf outlen
            else if tag_id = RB_WLAN_ERD_ID_SOLO then
              (let (ret, n, out) = routerboot_rle_decode (take tlen (drop tofs hc_buf)) outlen
               in if ret \<noteq> 0 then Fail ret else Ret out)
            else Fail (- ENODATA)))"

section \<open>Attributes\<close>

record hc_attr =
  hc_tag_id :: nat
  hc_name :: string
  hc_tshow :: "(bytes \<Rightarrow> nat \<Rightarrow> nat \<Rightarrow> string res) option"

definition hc_attrs :: "platform \<Rightarrow> hc_attr list" where
  "hc_attrs p =
     (let attr = (\<lambda>tg name show. \<lparr>hc_tag_id = tg, hc_name = name, hc_tshow = Some show\<rparr>)
      in [attr RB_ID_FLASH_INFO ''flash_info'' (routerboot_tag_show_u32s p),
          attr RB_ID_MAC_ADDRESS_PACK ''mac_base'' hc_tag_show_mac,
          attr RB_ID_BOARD_PRODUCT_CODE ''board_product_code'' routerboot_tag_show_string,
          attr RB_ID_BIOS_VERSION ''booter_version'' routerboot_tag_show_string,
          attr RB_ID_SERIAL_NUMBER ''board_serial'' routerboot_tag_show_string,
          attr RB_ID_MEMORY_SIZE ''mem_size'' (routerboot_tag_show_u32s p),
          attr RB_ID_MAC_ADDRESS_COUNT ''mac_count'' (routerboot_tag_show_u32s p),
          attr RB_ID_HW_OPTIONS ''hw_options'' (hc_tag_show_hwoptions p),
          \<lparr>hc_tag_id = RB_ID_WLAN_DATA, hc_name = [], hc_tshow = None\<rparr>,
          attr RB_ID_BOARD_IDENTIFIER ''board_identifier'' routerboot_tag_show_string,
          attr RB_ID_PRODUCT_NAME ''product_name'' routerboot_tag_show_string,
          attr RB_ID_DEFCONF ''defconf'' routerboot_tag_show_string,
          attr RB_ID_BOARD_REVISION ''board_revision'' routerboot_tag_show_string])"

record hc_wlan_attr =
  erd_tag_id :: nat
  wl_ofs :: nat
  wl_len :: nat

record hc_st =
  hc_buf :: "bytes option"
  hc_kobj :: bool
  hc_pld :: "(nat \<times> nat) list"
  hc_wd_solo_battr :: hc_wlan_attr
  hc_wd_multi_battrs :: "hc_wlan_attr list"

definition hc_attr_show :: "platform \<Rightarrow> nat \<Rightarrow> hc_st \<Rightarrow> string res" where
  "hc_attr_show p i st =
     (let (ofs, len) = hc_pld st ! i
      in if len = 0 then Fail (- ENOENT)
         else case (hc_buf st, hc_tshow (hc_attrs p ! i)) of
                (Some buf, Some show) \<Rightarrow> show buf ofs len
              | _ \<Rightarrow> Fault)"

definition hc_wlan_data_bin_read :: "hc_env \<Rightarrow> hc_wlan_attr \<Rightarrow> nat \<Rightarrow> nat \<Rightarrow> hc_st \<Rightarrow> bytes res" where
  "hc_wlan_data_bin_read he wattr off count st =
     (if wl_len wattr = 0 then Fail (- ENOENT)
      else if RB_ART_SIZE < wl_len wattr then Fail (- EFBIG)
      else if \<not> he_outbuf he then Fail (- ENOMEM)
      else case hc_buf st of
             None \<Rightarrow> Fault
           | Some buf \<Rightarrow>
               bind_res (hc_wlan_data_unpack he buf (erd_tag_id wattr) (wl_ofs wattr) (wl_len wattr) RB_ART_SIZE) (\<lambda>out.
                 Ret (if length out \<le> off then [] else take count (drop off out))))"

section \<open>Initialisation\<close>

text \<open>
  The part for the tag \<^verbatim>\<open>RB_ID_WLAN_DATA\<close>. Only errors decide what is published; a fault in an
  attempt to unpack is a fault of the initialisation.
\<close>

definition unpacks :: "hc_env \<Rightarrow> bytes \<Rightarrow> nat \<Rightarrow> nat \<Rightarrow> nat \<Rightarrow> bool res" where
  "unpacks he buf tag_id ofs len =
     (case hc_wlan_data_unpack he buf tag_id ofs len RB_ART_SIZE of
        Ret _ \<Rightarrow> Ret True | Fail _ \<Rightarrow> Ret False | Diverges \<Rightarrow> Diverges | Fault \<Rightarrow> Fault)"

fun publish_multi :: "hc_env \<Rightarrow> bytes \<Rightarrow> nat \<Rightarrow> nat \<Rightarrow> hc_wlan_attr list \<Rightarrow> hc_wlan_attr list res" where
  "publish_multi he buf ofs len [] = Ret []"
| "publish_multi he buf ofs len (w # ws) =
     bind_res (unpacks he buf (erd_tag_id w) ofs len) (\<lambda>ok.
     bind_res (publish_multi he buf ofs len ws) (\<lambda>ws'.
       Ret ((if ok then w\<lparr>wl_ofs := ofs, wl_len := len\<rparr> else w\<lparr>wl_ofs := 0, wl_len := 0\<rparr>) # ws')))"

definition publish_wlan :: "hc_env \<Rightarrow> bytes \<Rightarrow> nat \<Rightarrow> nat \<Rightarrow> hc_st \<Rightarrow> hc_st res" where
  "publish_wlan he buf ofs len st =
     (if \<not> he_outbuf he then Ret st
      else bind_res (unpacks he buf RB_WLAN_ERD_ID_SOLO ofs len) (\<lambda>solo.
        if solo then Ret (st\<lparr>hc_wd_solo_battr := (hc_wd_solo_battr st)\<lparr>wl_ofs := ofs, wl_len := len\<rparr>\<rparr>)
        else if \<not> he_wlan_kobj he then Ret st
        else bind_res (publish_multi he buf ofs len (hc_wd_multi_battrs st)) (\<lambda>ws.
          Ret (st\<lparr>hc_wd_multi_battrs := ws\<rparr>))))"

fun publish_tags :: "hc_env \<Rightarrow> bytes \<Rightarrow> nat list \<Rightarrow> hc_st \<Rightarrow> hc_st res" where
  "publish_tags he buf [] st = Ret st"
| "publish_tags he buf (tg # tgs) st =
     (case routerboot_tag_find (he_pf he) (drop 4 buf) tg of
        Fault \<Rightarrow> Fault
      | Diverges \<Rightarrow> Diverges
      | Fail _ \<Rightarrow> publish_tags he buf tgs (st\<lparr>hc_pld := hc_pld st @ [(0, 0)]\<rparr>)
      | Ret (ofs, len) \<Rightarrow>
          (let pos = (ofs + 4) mod 65536; st1 = st\<lparr>hc_pld := hc_pld st @ [(pos, len)]\<rparr>
           in if tg = RB_ID_WLAN_DATA \<and> len \<noteq> 0
              then bind_res (publish_wlan he buf pos len st1) (publish_tags he buf tgs)
              else publish_tags he buf tgs st1))"

text \<open>\<open>rd\<close> is the result of reading the whole partition of \<open>siz\<close> bytes.\<close>

definition rb_hardconfig_init :: "hc_env \<Rightarrow> bool \<Rightarrow> bool \<Rightarrow> nat \<Rightarrow> int \<times> bytes \<Rightarrow> hc_st \<Rightarrow> (int \<times> hc_st) res" where
  "rb_hardconfig_init he get_ok alloc_ok siz rd st =
     (let st0 = st\<lparr>hc_buf := None, hc_kobj := False\<rparr>; (ret, buf) = rd
      in if \<not> get_ok then Ret (- ENODEV, st0)
         else if \<not> alloc_ok then Ret (- ENOMEM, st0)
         else if ret \<noteq> 0 then Ret (ret, st0)
         else if length buf \<noteq> siz then Ret (- EIO, st0)
         else if siz < 4 then Fault
         else if get_cpu32 (he_pf he) buf 0 \<noteq> RB_MAGIC_HARD then Ret (- EINVAL, st0)
         else if \<not> he_kobj he then Ret (- ENOMEM, st0)
         else bind_res (publish_tags he buf (map hc_tag_id (hc_attrs (he_pf he)))
             (st0\<lparr>hc_buf := Some buf, hc_kobj := True, hc_pld := []\<rparr>)) (\<lambda>st'. Ret (0, st')))"

definition rb_hardconfig_exit :: "hc_st \<Rightarrow> hc_st" where
  "rb_hardconfig_exit st = st\<lparr>hc_buf := None, hc_kobj := False\<rparr>"

section \<open>Unpacking\<close>

lemma find_erd_at:
  assumes "4 dvd length junk" "\<forall>k. 4 * k < length junk \<longrightarrow> get_cpu32 p junk (4 * k) \<noteq> RB_MAGIC_ERD"
    and "4 * k \<le> length junk"
  shows "find_erd p (junk @ cpu32 p RB_MAGIC_ERD @ rest) (4 * k) = Ret (length junk + 4)"
  using assms(3)
proof (induction "length junk - 4 * k" arbitrary: k rule: less_induct)
  case less
  let ?buf = "junk @ cpu32 p RB_MAGIC_ERD @ rest"
  have step: "find_erd p ?buf (4 * k) = (if get_cpu32 p ?buf (4 * k) = RB_MAGIC_ERD then Ret (4 * k + 4)
      else if length ?buf \<le> 4 * k + 4 then Fail (- ENODATA) else find_erd p ?buf (4 * k + 4))"
    using less.prems by (subst find_erd.simps) simp
  show ?case
  proof (cases "4 * k = length junk")
    case True
    have "get_cpu32 p ?buf (4 * k) = RB_MAGIC_ERD"
      unfolding True get_cpu32_shift0 by (rule get_cpu32_cpu32) (simp add: RB_MAGIC_ERD_def)
    then show ?thesis unfolding step using True by simp
  next
    case False
    then have lt: "4 * k + 4 \<le> length junk" using less.prems assms(1) by (auto elim!: dvdE)
    have "get_cpu32 p ?buf (4 * k) = get_cpu32 p junk (4 * k)"
      using lt by (intro get_cpu32_cong) (auto simp: nth_append)
    then have ne: "get_cpu32 p ?buf (4 * k) \<noteq> RB_MAGIC_ERD" using assms(2) lt by simp
    have "find_erd p ?buf (4 * (k + 1)) = Ret (length junk + 4)" using lt by (intro less.hyps) auto
    then show ?thesis unfolding step using ne lt by (simp add: add.commute)
  qed
qed

lemma unpack_decompressed_ok:
  assumes "4 dvd length junk" "\<forall>k. 4 * k < length junk \<longrightarrow> get_cpu32 p junk (4 * k) \<noteq> RB_MAGIC_ERD"
    and "\<forall>t \<in> set ts. tag_ok t" "0 < tg" "length (tags_bytes p ts) < 65532" "map_of ts tg = Some (rle_encode rs)"
    and "\<forall>r \<in> set rs. run_ok r" "rs \<noteq> []" "length (rle_expand rs) \<le> outlen"
  shows "unpack_decompressed p tg (junk @ cpu32 p RB_MAGIC_ERD @ tags_bytes p ts @ cpu32 p 0 @ rest) outlen
    = Ret (rle_expand rs)"
proof -
  let ?tags = "tags_bytes p ts @ cpu32 p 0 @ rest"
  have erd: "find_erd p (junk @ cpu32 p RB_MAGIC_ERD @ ?tags) 0 = Ret (length junk + 4)"
    using find_erd_at[OF assms(1,2), of 0] by simp
  have d: "drop (length junk + 4) (junk @ cpu32 p RB_MAGIC_ERD @ ?tags) = ?tags" by simp
  obtain ofs where f: "routerboot_tag_find p ?tags tg = Ret (ofs, length (rle_encode rs))"
      "take (length (rle_encode rs)) (drop ofs ?tags) = rle_encode rs" "ofs + length (rle_encode rs) \<le> length ?tags"
    using tag_find_tags[OF assms(3,4,5) refl, of rest] assms(6) by auto
  have rng: "range_of ?tags ofs (length (rle_encode rs)) = Ret (rle_encode rs)"
    using f(2,3) by (simp add: range_of_def)
  have rle: "routerboot_rle_decode (rle_encode rs) outlen = (0, length (rle_expand rs), rle_expand rs)"
    using rle_loop_runs[OF assms(7), of "[]" "[]" outlen] rle_encode_length[OF assms(7,8)] assms(9)
    by (simp add: routerboot_rle_decode_def)
  have len: "\<not> length (junk @ cpu32 p RB_MAGIC_ERD @ ?tags) - (length junk + 4) < length (rle_encode rs)"
    using f(3) by simp
  show ?thesis
    unfolding unpack_decompressed_def erd bind_res.simps d f(1) prod.case using len rng rle by simp
qed

lemma decompress_lz77_ok:
  assumes "he_opcodes he" "\<forall>i \<in> set is. valid_instr i" "lz_run is (0, []) = Some (prev, plain)"
    and "length plain \<le> outlen"
  shows "decompress_lz77 he (lz_encode is) outlen = Ret plain"
  using lz77_decompress_file[OF assms(2,3), of "replicate outlen 0"] assms(1,4)
  by (simp add: decompress_lz77_def)

section \<open>Properties\<close>

text \<open>
  C29. Calibration data arrives as it was packed. When the payload of the tag is an LZ77 file
  whose content, behind any words that are not the magic number, is that number and a list of
  tags, and the tag asked for holds an encoding of runs, then unpacking gives the bytes the runs
  stand for.
\<close>

theorem hc_wlan_lz77_roundtrip:
  assumes "he_tempbuf he" "he_opcodes he" "\<forall>i \<in> set is. valid_instr i"
    and "lz_run is (0, []) = Some (prev, junk @ cpu32 (he_pf he) RB_MAGIC_ERD @ tags_bytes (he_pf he) ts @ cpu32 (he_pf he) 0 @ rest)"
    and "4 dvd length junk" "\<forall>k. 4 * k < length junk \<longrightarrow> get_cpu32 (he_pf he) junk (4 * k) \<noteq> RB_MAGIC_ERD"
    and "\<forall>t \<in> set ts. tag_ok t" "0 < tg" "tg \<noteq> RB_WLAN_ERD_ID_SOLO" "length (tags_bytes (he_pf he) ts) < 65532"
    and "map_of ts tg = Some (rle_encode rs)" "\<forall>r \<in> set rs. run_ok r" "rs \<noteq> []"
    and "length (lz_encode is) \<le> outlen" "length (rle_expand rs) \<le> outlen"
    and "length junk + 8 + length (tags_bytes (he_pf he) ts) + length rest \<le> outlen"
  shows "hc_wlan_data_unpack he (before @ cpu32 (he_pf he) RB_MAGIC_LZ77 @ lz_encode is @ after) tg
     (length before) (4 + length (lz_encode is)) outlen = Ret (rle_expand rs)"
proof -
  let ?p = "he_pf he"
  let ?buf = "before @ cpu32 ?p RB_MAGIC_LZ77 @ lz_encode is @ after"
  have magic: "get_cpu32 ?p ?buf (length before) = RB_MAGIC_LZ77"
    unfolding get_cpu32_shift0 by (rule get_cpu32_cpu32) (simp add: RB_MAGIC_LZ77_def)
  have ne: "RB_MAGIC_LZ77 \<noteq> RB_MAGIC_LZOR" "RB_MAGIC_LZ77 \<noteq> RB_MAGIC_ERD"
    by (simp_all add: RB_MAGIC_LZ77_def RB_MAGIC_LZOR_def RB_MAGIC_ERD_def)
  have lbuf: "take (4 + length (lz_encode is) - 4) (drop (length before + 4) ?buf) = lz_encode is" by simp
  have len: "\<not> length ?buf < length before + (4 + length (lz_encode is))" "\<not> length ?buf < length before + 4"
    "\<not> 4 + length (lz_encode is) < 4"
    by simp_all
  have "bind_res (decompress_lz77 he (lz_encode is) outlen) (\<lambda>temp. unpack_decompressed ?p tg temp outlen)
      = Ret (rle_expand rs)"
    using decompress_lz77_ok[OF assms(2,3,4), of outlen] assms(16)
      unpack_decompressed_ok[OF assms(5-8,10-13,15), of rest] by simp
  then have "fst (hc_wlan_data_unpack_lzor_lz77 he tg (lz_encode is) outlen RB_MAGIC_LZ77) = Ret (rle_expand rs)"
    using assms(1,14) ne by (simp add: hc_wlan_data_unpack_lzor_lz77_def)
  then show ?thesis
    unfolding hc_wlan_data_unpack_def Let_def magic lbuf using len assms(9) by simp
qed

definition sample_he :: hc_env where
  "sample_he = \<lparr>he_pf = \<lparr>pf_big_endian = False, pf_size_bits = 64, pf_alloc = \<lambda>_. True\<rparr>,
     he_lzo = (\<lambda>i n. (- 1, 0, [])), he_tempbuf = True, he_opcodes = True, he_outbuf = True, he_kobj = True,
     he_wlan_kobj = True\<rparr>"

definition sample_lz :: "lz_instr list" where
  "sample_lz = map Literal (cpu32 (he_pf sample_he) RB_MAGIC_ERD @ tags_bytes (he_pf sample_he) [(0x8001, [3, 9])] @
     cpu32 (he_pf sample_he) 0)"

theorem hc_wlan_lz77_roundtrip_witness:
  "hc_wlan_data_unpack sample_he (cpu32 (he_pf sample_he) RB_MAGIC_LZ77 @ lz_encode sample_lz) 0x8001 0
     (4 + length (lz_encode sample_lz)) 4096 = Ret [9, 9, 9]"
proof -
  let ?p = "he_pf sample_he"
  have run: "lz_run sample_lz (0, []) = Some (0, [] @ cpu32 ?p RB_MAGIC_ERD @ tags_bytes ?p [(0x8001, [3, 9])] @ cpu32 ?p 0 @ [])"
    using lz_run_literals[of "cpu32 ?p RB_MAGIC_ERD @ tags_bytes ?p [(0x8001, [3, 9])] @ cpu32 ?p 0" 0 "[]"]
    by (simp add: sample_lz_def)
  have valid: "\<forall>i \<in> set sample_lz. valid_instr i" by (auto simp: sample_lz_def)
  have bits: "length (concat (map encode_instr (map Literal bs))) = 9 * length bs" for bs
    by (induction bs) auto
  have small: "length (lz_encode sample_lz) \<le> 4096"
    using length_pack_bits[of "concat (map encode_instr sample_lz) @ end_marker"]
    by (simp add: lz_encode_def sample_lz_def bits end_marker_def encode_count_4_0 tags_bytes_def del: map_append map_map)
  have rle: "rle_encode [Repeat 3 9] = [3, 9]" "rle_expand [Repeat 3 9] = [9, 9, 9]"
    by (simp_all add: rle_encode_def rle_expand_def numeral_3_eq_3)
  have tags: "\<forall>t \<in> set [(0x8001 :: nat, [3, 9 :: u8])]. tag_ok t" "length (tags_bytes ?p [(0x8001, [3, 9])]) = 8"
    by (simp_all add: tags_bytes_def)
  have "hc_wlan_data_unpack sample_he ([] @ cpu32 ?p RB_MAGIC_LZ77 @ lz_encode sample_lz @ []) 0x8001 (length ([] :: bytes))
     (4 + length (lz_encode sample_lz)) 4096 = Ret (rle_expand [Repeat 3 9])"
    by (rule hc_wlan_lz77_roundtrip[OF _ _ valid run])
      (use small tags(1) in \<open>simp_all add: tags(2) rle sample_he_def RB_WLAN_ERD_ID_SOLO_def\<close>)
  then show ?thesis by (simp add: rle)
qed

text \<open>
  The length of an ERD payload is not checked against its position. When the only tag of
  the payload claims up to four bytes more than there are behind its node, the test of the code
  accepts the length and passes a range to the decompressor that ends outside the payload.
\<close>

theorem hc_erd_length_unchecked:
  assumes "0 < tg" "tg < 65536" "pl \<noteq> []" "length pl < len" "len \<le> length pl + 4" "len < 65536"
  shows "hc_wlan_data_unpack_erd he tg (cpu32 (he_pf he) (tg + 65536 * len) @ pl) outlen = Fault"
proof -
  let ?p = "he_pf he" and ?node = "tg + 65536 * len"
  have "get_cpu32 ?p (cpu32 ?p ?node @ pl) 0 = ?node" using assms(2,6) by (intro get_cpu32_cpu32) simp
  moreover have "?node mod 65536 = tg" "?node div 65536 = len" using assms(2) by simp_all
  ultimately have "tag_walk ?p (cpu32 ?p ?node @ pl) tg 0 = Ret (4, len)"
    using assms(1,3) by (subst tag_walk.simps) (simp add: Let_def)
  then show ?thesis
    using assms(1,4,5) by (simp add: hc_wlan_data_unpack_erd_def routerboot_tag_find_def range_of_def)
qed

theorem hc_erd_length_unchecked_witness:
  "hc_wlan_data_unpack_erd sample_he 1 (cpu32 (he_pf sample_he) (1 + 65536 * 5) @ [7]) 65536 = Fault"
  by (rule hc_erd_length_unchecked) simp_all

lemma hc_unpack_leaks_tempbuf:
  "he_tempbuf he \<Longrightarrow> outlen < length inbuf \<Longrightarrow>
   hc_wlan_data_unpack_lzor_lz77 he tg inbuf outlen magic = (Fail (- EFBIG), True)"
  by (simp add: hc_wlan_data_unpack_lzor_lz77_def)

section \<open>The NVMEM layout\<close>

text \<open>
  \<^verbatim>\<open>rb_nvmem.c\<close> presents the same tags as cells. \<open>add\<close> is the result of
  \<^verbatim>\<open>nvmem_add_one_cell\<close>; the model also returns the cells added. Positions are 32 bits wide, so
  the partition is taken to be smaller than 4 GiB.
\<close>

record nvmem_cell =
  cell_name :: string
  cell_offset :: nat
  cell_bytes :: nat
  cell_mac_cb :: bool

definition rb_tlv_cell_name :: "nat \<Rightarrow> string option" where
  "rb_tlv_cell_name tag =
     (if tag = RB_ID_FLASH_INFO then Some ''flash-info''
      else if tag = RB_ID_MAC_ADDRESS_PACK then Some ''base-mac-address''
      else if tag = RB_ID_BOARD_PRODUCT_CODE then Some ''board-product-code''
      else if tag = RB_ID_BIOS_VERSION then Some ''booter-version''
      else if tag = RB_ID_SERIAL_NUMBER then Some ''board-serial''
      else if tag = RB_ID_MEMORY_SIZE then Some ''mem-size''
      else if tag = RB_ID_MAC_ADDRESS_COUNT then Some ''mac-count''
      else if tag = RB_ID_HW_OPTIONS then Some ''hw-options''
      else if tag = RB_ID_WLAN_DATA then Some ''wlan-data''
      else if tag = RB_ID_BOARD_IDENTIFIER then Some ''board-identifier''
      else if tag = RB_ID_PRODUCT_NAME then Some ''product-name''
      else if tag = RB_ID_DEFCONF then Some ''defconf''
      else if tag = RB_ID_BOARD_REVISION then Some ''board-revision''
      else None)"

text \<open>\<open>valid\<close> and \<open>addr_add\<close> are \<^verbatim>\<open>is_valid_ether_addr\<close> and \<^verbatim>\<open>eth_addr_add\<close> of the kernel.\<close>

definition rb_tlv_mac_read_cb ::
  "(bytes \<Rightarrow> bool) \<Rightarrow> (bytes \<Rightarrow> int \<Rightarrow> bytes) \<Rightarrow> int \<Rightarrow> bytes \<Rightarrow> int \<times> bytes" where
  "rb_tlv_mac_read_cb valid addr_add index buf =
     (if index < 0 then (- EINVAL, buf)
      else if \<not> valid buf then (- EINVAL, buf)
      else (0, addr_add buf index))"

definition rb_tlv_read_cb :: "nat \<Rightarrow> bool" where
  "rb_tlv_read_cb tag \<longleftrightarrow> tag = RB_ID_MAC_ADDRESS_PACK"

definition tlv_cell :: "nat \<Rightarrow> string \<Rightarrow> nat \<Rightarrow> nat \<Rightarrow> nvmem_cell" where
  "tlv_cell tag name ofs len =
     \<lparr>cell_name = name, cell_offset = ofs,
      cell_bytes = (if tag = RB_ID_MAC_ADDRESS_PACK then 6 else len), cell_mac_cb = rb_tlv_read_cb tag\<rparr>"

function add_cells_loop ::
  "platform \<Rightarrow> (nvmem_cell \<Rightarrow> int) \<Rightarrow> bytes \<Rightarrow> nat \<Rightarrow> nvmem_cell list \<Rightarrow> int \<times> nvmem_cell list" where
  "add_cells_loop p add dat offset cells =
     (if length dat < offset + 4 then (0, cells)
      else
        (let node = get_cpu32 p dat offset; tag = node mod 65536; len = node div 65536;
             next_ofs = offset + 4 + align4 len
         in if node = 0 then (0, cells)
            else if length dat < offset + 4 + len then (0, cells)
            else case rb_tlv_cell_name tag of
                   None \<Rightarrow> add_cells_loop p add dat next_ofs cells
                 | Some name \<Rightarrow>
                     (let cell = tlv_cell tag name (offset + 4) len; ret = add cell
                      in if ret \<noteq> 0 then (ret, cells)
                         else add_cells_loop p add dat next_ofs (cells @ [cell]))))"
  by pat_completeness auto
termination
  by (relation "measure (\<lambda>(p, add, dat, offset, cells). length dat - offset)") auto

declare add_cells_loop.simps [simp del]

definition rb_add_cells :: "platform \<Rightarrow> bool \<Rightarrow> (nvmem_cell \<Rightarrow> int) \<Rightarrow> bytes \<Rightarrow> int \<times> nvmem_cell list" where
  "rb_add_cells p layout_ok add dat =
     (if \<not> layout_ok then (- ENOENT, []) else add_cells_loop p add dat 4 [])"

text \<open>
  \<open>rd n\<close> is the call \<^verbatim>\<open>nvmem_device_read\<close> of \<open>n\<close> bytes from the start: a negative error or the
  number of bytes, and the bytes.
\<close>

definition rb_parse_table ::
  "platform \<Rightarrow> (nat \<Rightarrow> int \<times> bytes) \<Rightarrow> nat \<Rightarrow> bool \<Rightarrow> bool \<Rightarrow> (nvmem_cell \<Rightarrow> int) \<Rightarrow> int \<times> nvmem_cell list" where
  "rb_parse_table p rd siz alloc_ok layout_ok add =
     (let (ret, hdr) = rd 4
      in if ret < 0 then (ret, [])
         else if get_cpu32 p hdr 0 \<noteq> RB_MAGIC_HARD then (- EINVAL, [])
         else if \<not> alloc_ok then (- ENOMEM, [])
         else
           (let (ret2, dat) = rd siz
            in if ret2 \<noteq> int siz then (ret2, []) else rb_add_cells p layout_ok add dat))"

section \<open>Cells and tags\<close>

lemma rb_tlv_cell_name_inj:
  "rb_tlv_cell_name a = Some n \<Longrightarrow> rb_tlv_cell_name b = Some n \<Longrightarrow> a = b"
  by (auto simp: rb_tlv_cell_name_def split: if_splits)

lemma add_cells_null: "add_cells_loop p add (pre @ cpu32 p 0 @ rest) (length pre) cells = (0, cells)"
  by (subst add_cells_loop.simps) (simp add: get_cpu32_shift0 get_cpu32_cpu32)

lemma add_cells_tag:
  assumes "tag_ok (tg, pl)"
  shows "add_cells_loop p (\<lambda>_. 0) (pre @ tag_bytes p (tg, pl) @ rest) (length pre) cells =
    add_cells_loop p (\<lambda>_. 0) (pre @ tag_bytes p (tg, pl) @ rest) (length (pre @ tag_bytes p (tg, pl)))
      (case rb_tlv_cell_name tg of None \<Rightarrow> cells
       | Some n \<Rightarrow> cells @ [tlv_cell tg n (length pre + 4) (length pl)])"
proof -
  let ?buf = "pre @ tag_bytes p (tg, pl) @ rest"
  have tg: "0 < tg" "tg < 65536" "length pl < 65533" and lt: "tg + 65536 * length pl < 4294967296"
    using assms by simp_all
  have node: "get_cpu32 p ?buf (length pre) = tg + 65536 * length pl"
    using get_cpu32_cpu32[OF lt] by (simp add: get_cpu32_shift0 tag_bytes.simps)
  have len: "\<not> length ?buf < length pre + 4" "\<not> length ?buf < length pre + 4 + length pl"
    using align4_ge[of "length pl"] by auto
  have dm: "(tg + 65536 * length pl) mod 65536 = tg" "(tg + 65536 * length pl) div 65536 = length pl"
    "tg + 65536 * length pl \<noteq> 0"
    using tg by simp_all
  have l2: "length (pre @ tag_bytes p (tg, pl)) = length pre + 4 + align4 (length pl)" by simp
  show ?thesis
    by (subst add_cells_loop.simps)
      (simp only: len node dm l2 Let_def if_False not_not simp_thms split: option.split; simp)
qed

fun cells_of :: "nat \<Rightarrow> tag list \<Rightarrow> nvmem_cell list" where
  "cells_of pos [] = []"
| "cells_of pos ((tg, pl) # ts) =
     (case rb_tlv_cell_name tg of None \<Rightarrow> [] | Some n \<Rightarrow> [tlv_cell tg n (pos + 4) (length pl)]) @
     cells_of (pos + 4 + align4 (length pl)) ts"

lemma add_cells_tags:
  assumes "\<forall>t \<in> set ts. tag_ok t"
  shows "add_cells_loop p (\<lambda>_. 0) (pre @ tags_bytes p ts @ cpu32 p 0 @ rest) (length pre) cells =
    (0, cells @ cells_of (length pre) ts)"
  using assms
proof (induction ts arbitrary: pre cells)
  case Nil
  then show ?case by (simp add: add_cells_null)
next
  case (Cons t ts)
  obtain i pl where t: "t = (i, pl)" by (cases t)
  have ok: "tag_ok (i, pl)" "\<forall>t \<in> set ts. tag_ok t" using Cons.prems t by simp_all
  show ?case
    using add_cells_tag[OF ok(1), of p pre "tags_bytes p ts @ cpu32 p 0 @ rest" cells]
      Cons.IH[OF ok(2), of "pre @ tag_bytes p t"]
    by (simp add: t add.assoc split: option.splits)
qed

lemma find_cells_of:
  assumes "rb_tlv_cell_name tg = Some n"
  shows "find (\<lambda>c. cell_name c = n) (cells_of pos ts) =
    map_option (\<lambda>(ofs, len). tlv_cell tg n (pos + ofs) len) (tag_at tg ts)"
proof (induction ts arbitrary: pos)
  case (Cons t ts)
  obtain i pl where t: "t = (i, pl)" by (cases t)
  have f: "find P (xs @ ys) = (case find P xs of None \<Rightarrow> find P ys | Some x \<Rightarrow> Some x)" for P and xs ys :: "nvmem_cell list"
    by (induction xs) auto
  show ?case
  proof (cases "i = tg")
    case True
    then show ?thesis using assms by (simp add: t tlv_cell_def)
  next
    case False
    then have "rb_tlv_cell_name i \<noteq> Some n" using rb_tlv_cell_name_inj[OF assms, of i] by auto
    then have "find (\<lambda>c. cell_name c = n)
        (case rb_tlv_cell_name i of None \<Rightarrow> [] | Some m \<Rightarrow> [tlv_cell i m (pos + 4) (length pl)]) = None"
      by (auto simp: tlv_cell_def split: option.splits)
    then show ?thesis
      using False Cons.IH[of "pos + 4 + align4 (length pl)"]
      by (cases "tag_at tg ts") (auto simp: t f add.assoc)
  qed
qed simp

text \<open>
  C30. Both drivers see the same configuration. For every list of tags behind the magic number
  and every tag that the NVMEM driver knows, its first cell of that name is the payload that
  \<^verbatim>\<open>routerboot_tag_find\<close> finds, cut to six bytes for the address; if the tag is not there, there is no
  such cell.
\<close>

theorem rb_nvmem_agrees:
  assumes "\<forall>t \<in> set ts. tag_ok t" "length (tags_bytes p ts) < 65532" "rb_tlv_cell_name tg = Some n" "0 < tg"
    and "dat = cpu32 p RB_MAGIC_HARD @ tags_bytes p ts @ cpu32 p 0 @ rest"
  shows "\<exists>cells. rb_add_cells p True (\<lambda>_. 0) dat = (0, cells) \<and>
    find (\<lambda>c. cell_name c = n) cells =
      (case routerboot_tag_find p (drop 4 dat) tg of
         Ret (ofs, len) \<Rightarrow> Some (tlv_cell tg n (ofs + 4) len) | _ \<Rightarrow> None)"
proof -
  have d: "drop 4 dat = tags_bytes p ts @ cpu32 p 0 @ rest" by (simp add: assms(5))
  have c: "rb_add_cells p True (\<lambda>_. 0) dat = (0, cells_of 4 ts)"
    using add_cells_tags[OF assms(1), of p "cpu32 p RB_MAGIC_HARD" rest "[]"]
    by (simp add: rb_add_cells_def assms(5))
  have "find (\<lambda>c. cell_name c = n) (cells_of 4 ts) =
      (case routerboot_tag_find p (drop 4 dat) tg of
         Ret (ofs, len) \<Rightarrow> Some (tlv_cell tg n (ofs + 4) len) | _ \<Rightarrow> None)"
  proof (cases "tag_at tg ts")
    case None
    then show ?thesis unfolding d tag_find_at[OF assms(1,4)] by (simp add: find_cells_of[OF assms(3)])
  next
    case (Some r)
    obtain ofs len where r: "r = (ofs, len)" by (cases r)
    have "ofs + len \<le> length (tags_bytes p ts)"
      using tag_at_bytes[OF Some[unfolded r], of "replicate len 0" p] by simp
    then have "ofs mod 65536 = ofs" using assms(2) by simp
    then show ?thesis unfolding d tag_find_at[OF assms(1,4)] using Some r
      by (simp add: find_cells_of[OF assms(3)] add.commute)
  qed
  then show ?thesis using c by blast
qed

theorem rb_nvmem_agrees_witness:
  "\<exists>cells. rb_add_cells (he_pf sample_he) True (\<lambda>_. 0)
     (cpu32 (he_pf sample_he) RB_MAGIC_HARD @ tags_bytes (he_pf sample_he) [(99, [1]), (0x0D, [0, 0, 0, 4])] @
      cpu32 (he_pf sample_he) 0 @ []) = (0, cells)"
proof -
  have "\<forall>t \<in> set [(99 :: nat, [1 :: u8]), (0x0D, [0, 0, 0, 4])]. tag_ok t"
    "length (tags_bytes (he_pf sample_he) [(99, [1]), (0x0D, [0, 0, 0, 4])]) < 65532"
    by (simp_all add: tags_bytes_def)
  moreover have "rb_tlv_cell_name 0x0D = Some ''mem-size''"
    by (simp add: rb_tlv_cell_name_def RB_ID_FLASH_INFO_def RB_ID_MAC_ADDRESS_PACK_def RB_ID_BOARD_PRODUCT_CODE_def
      RB_ID_BIOS_VERSION_def RB_ID_SERIAL_NUMBER_def RB_ID_MEMORY_SIZE_def)
  ultimately show ?thesis using rb_nvmem_agrees[OF _ _ _ _ refl] by (metis zero_less_numeral)
qed

end
