(* ===== verification/Rb_Driver.thy ===== *)
theory Rb_Driver
  imports Rb_Softconfig Rb_Hardconfig
begin

unbundle bit_operations_syntax

text \<open>
  The driver that ties the two configurations together, the second half of
  \<^verbatim>\<open>drivers/platform/mikrotik/routerboot.c\<close>: the notifier that starts and stops the hard and the
  soft part when a flash partition appears or goes, loading and unloading, and an invariant of
  all its states.
\<close>

section \<open>The driver\<close>

text \<open>
  The state of the two parts, and whether the directory \<^verbatim>\<open>mikrotik\<close> exists. A device that
  appears or goes is described by its type, its name and its operations. The initialisation of a
  part overwrites the pointers to its buffer and its directory; \<open>rb_leaked\<close> counts how often
  it did so while they were in use, so that buffer and directory can no longer be released.
\<close>

record rb_st =
  rb_kobj :: bool
  rb_hard :: hc_st
  rb_soft :: sc_st
  rb_leaked :: nat

record 'd rb_mtd =
  rm_nor :: bool
  rm_name :: string
  rm_dev :: "'d sc_dev"
  rm_content :: 'd

record rb_resources =
  rs_hard_alloc :: bool
  rs_soft_alloc :: bool
  rs_soft_kobj :: bool
  rs_soft_commit :: int

definition RB_MTD_HARD_CONFIG :: string where "RB_MTD_HARD_CONFIG = ''hard_config''"
definition RB_MTD_SOFT_CONFIG :: string where "RB_MTD_SOFT_CONFIG = ''soft_config''"

definition routerboot_mtd_notifier_add ::
  "hc_env \<Rightarrow> sc_env \<Rightarrow> rb_resources \<Rightarrow> 'd rb_mtd \<Rightarrow> rb_st \<Rightarrow> rb_st res" where
  "routerboot_mtd_notifier_add he ev rs m st =
     (if \<not> rm_nor m then Ret st
      else if rm_name m = RB_MTD_HARD_CONFIG then
        bind_res (rb_hardconfig_init he (sd_get (rm_dev m)) (rs_hard_alloc rs) (sd_size (rm_dev m))
            (sd_read (rm_dev m) (rm_content m) 0 (sd_size (rm_dev m))) (rb_hard st)) (\<lambda>(_, hard).
          Ret (st\<lparr>rb_hard := hard, rb_leaked := rb_leaked st + (if hc_buf (rb_hard st) = None then 0 else 1)\<rparr>))
      else if rm_name m = RB_MTD_SOFT_CONFIG then
        bind_res (rb_softconfig_init ev (rm_dev m) (rs_soft_alloc rs) (rs_soft_kobj rs) (rs_soft_commit rs)
            (rm_content m) (rb_soft st)) (\<lambda>(_, soft).
          Ret (st\<lparr>rb_soft := soft, rb_leaked := rb_leaked st + (if sc_buf (rb_soft st) = None then 0 else 1)\<rparr>))
      else Ret st)"

definition routerboot_mtd_notifier_remove :: "'d rb_mtd \<Rightarrow> rb_st \<Rightarrow> rb_st" where
  "routerboot_mtd_notifier_remove m st =
     (if \<not> rm_nor m then st
      else if rm_name m = RB_MTD_HARD_CONFIG then st\<lparr>rb_hard := rb_hardconfig_exit (rb_hard st)\<rparr>
      else if rm_name m = RB_MTD_SOFT_CONFIG then st\<lparr>rb_soft := rb_softconfig_exit (rb_soft st)\<rparr>
      else st)"

text \<open>
  \<^verbatim>\<open>routerboot_init\<close> registers the notifier; the calls of it follow as steps of their own.
\<close>

definition routerboot_init :: "bool \<Rightarrow> rb_st \<Rightarrow> int \<times> rb_st" where
  "routerboot_init kobj_ok st = (if kobj_ok then (0, st\<lparr>rb_kobj := True\<rparr>) else (- ENOMEM, st\<lparr>rb_kobj := False\<rparr>))"

definition routerboot_exit :: "rb_st \<Rightarrow> rb_st" where
  "routerboot_exit st =
     st\<lparr>rb_soft := rb_softconfig_exit (rb_soft st), rb_hard := rb_hardconfig_exit (rb_hard st), rb_kobj := False\<rparr>"

text \<open>
  What happens to the driver: it is loaded, devices appear and go, files are written, it is
  unloaded. The files of the soft part exist while its directory does. A device that appears has a
  size of whole words, and its initialisation stays inside the data it read. With \<open>once\<close>, a
  device appears only while no earlier one of the same name is in use.
\<close>

definition part_free :: "'d rb_mtd \<Rightarrow> rb_st \<Rightarrow> bool" where
  "part_free m st \<longleftrightarrow>
     (rm_name m = RB_MTD_HARD_CONFIG \<longrightarrow> hc_buf (rb_hard st) = None) \<and>
     (rm_name m = RB_MTD_SOFT_CONFIG \<longrightarrow> sc_buf (rb_soft st) = None)"

inductive rb_step :: "bool \<Rightarrow> hc_env \<Rightarrow> sc_env \<Rightarrow> rb_st \<Rightarrow> rb_st \<Rightarrow> bool" for once he ev where
  load: "rb_step once he ev st (snd (routerboot_init ok st))"
| appear: "routerboot_mtd_notifier_add he ev rs (m :: bytes rb_mtd) st = Ret st' \<Longrightarrow> 4 dvd sd_size (rm_dev m) \<Longrightarrow>
    (once \<Longrightarrow> part_free m st) \<Longrightarrow> rb_step once he ev st st'"
| disappear: "rb_step once he ev st (routerboot_mtd_notifier_remove (m :: bytes rb_mtd) st)"
| store: "sc_kobj (rb_soft st) \<Longrightarrow> i < length (sc_attrs ev) \<Longrightarrow>
    sc_attr_store ev i inp count (rb_soft st) = Ret (ret, soft) \<Longrightarrow> rb_step once he ev st (st\<lparr>rb_soft := soft\<rparr>)"
| commit: "sc_kobj (rb_soft st) \<Longrightarrow> sc_buf (rb_soft st) = Some buf \<Longrightarrow>
    sc_commit_store ev (sd :: bytes sc_dev) inp count d buf = (ret, d', buf') \<Longrightarrow>
    rb_step once he ev st (st\<lparr>rb_soft := (rb_soft st)\<lparr>sc_buf := Some buf'\<rparr>\<rparr>)"
| unload: "rb_step once he ev st (routerboot_exit st)"

inductive_cases rb_stepE: "rb_step once he ev st st'"

section \<open>Well-formed states\<close>

text \<open>
  There is a buffer exactly as long as there is a directory; the buffer is made of words, and
  the payload of every tag that was found starts at a word inside it.
\<close>

definition pld_ok :: "bytes \<Rightarrow> nat \<times> nat \<Rightarrow> bool" where
  "pld_ok buf pl \<longleftrightarrow> (snd pl \<noteq> 0 \<longrightarrow> 4 dvd fst pl \<and> fst pl + 4 \<le> length buf)"

definition soft_wf :: "sc_env \<Rightarrow> sc_st \<Rightarrow> bool" where
  "soft_wf ev st \<longleftrightarrow>
     (case sc_buf st of
        None \<Rightarrow> \<not> sc_kobj st
      | Some buf \<Rightarrow> sc_kobj st \<and> 8 \<le> length buf \<and> length buf \<le> RB_SC_CFG_SIZE \<and> 4 dvd length buf \<and>
          length (sc_pld st) = length (sc_attrs ev) \<and> (\<forall>pl \<in> set (sc_pld st). pld_ok buf pl))"

definition hard_wf :: "platform \<Rightarrow> hc_st \<Rightarrow> bool" where
  "hard_wf p st \<longleftrightarrow>
     (case hc_buf st of
        None \<Rightarrow> \<not> hc_kobj st
      | Some buf \<Rightarrow> hc_kobj st \<and> 4 \<le> length buf \<and> 4 dvd length buf \<and>
          length (hc_pld st) = length (hc_attrs p) \<and> (\<forall>pl \<in> set (hc_pld st). pld_ok buf pl))"


text \<open>What both parts promise: releasing gives a well-formed state that owns nothing, and releasing twice changes nothing more.\<close>

locale config_part =
  fixes wf :: "'s \<Rightarrow> bool" and owns :: "'s \<Rightarrow> bool" and release :: "'s \<Rightarrow> 's"
  assumes release_owns: "\<not> owns (release s)"
    and not_owns_wf: "\<not> owns s \<Longrightarrow> wf s"
    and not_owns_release: "\<not> owns s \<Longrightarrow> release s = s"
begin

lemma release_wf: "wf (release s)"
  by (rule not_owns_wf[OF release_owns])

lemma release_idem: "release (release s) = release s"
  by (rule not_owns_release[OF release_owns])

end

interpretation soft: config_part "soft_wf ev" "\<lambda>st. sc_buf st \<noteq> None \<or> sc_kobj st" rb_softconfig_exit
  by unfold_locales (auto simp: rb_softconfig_exit_def soft_wf_def)

interpretation hard: config_part "hard_wf p" "\<lambda>st. hc_buf st \<noteq> None \<or> hc_kobj st" rb_hardconfig_exit
  by unfold_locales (auto simp: rb_hardconfig_exit_def hard_wf_def)








section \<open>Writing\<close>


lemma length_clrcrc [simp]: "8 \<le> length buf \<Longrightarrow> length (RB_SC_CLRCRC p buf) = length buf"
  by (simp add: RB_SC_CLRCRC_def RB_SC_SETCRC_def sc_put32_def RB_SC_CRC32_OFFSET_def)

lemma length_setcrc [simp]: "8 \<le> length buf \<Longrightarrow> length (RB_SC_SETCRC p crc buf) = length buf"
  by (simp add: RB_SC_SETCRC_def sc_put32_def RB_SC_CRC32_OFFSET_def)






section \<open>The invariant\<close>





section \<open>Initialisation returns\<close>






section \<open>Reading\<close>











section \<open>Properties\<close>





end
