(* ===== verification/Routerbootpart.thy ===== *)
theory Routerbootpart
  imports Routerboot
begin

unbundle bit_operations_syntax

text \<open>

  The partition parser for MikroTik RouterBoot devices, \<^verbatim>\<open>drivers/mtd/parsers/routerbootpart.c\<close>:
  the search for the well-known partitions in the flash with the fixups of their sizes, the walk
  over the children of the device tree node, and the growth of \<^verbatim>\<open>soft_config\<close> to an erase block. The
  device tree is a list of nodes with the properties the parser reads; what \<^verbatim>\<open>mtd_read\<close> answers is
  a function of the device, as in the other parsers.

\<close>

section \<open>Well-known partitions\<close>

definition RB_BLOCK_SIZE :: nat where "RB_BLOCK_SIZE = 0x1000"

datatype rb_fixup = NoFixup | HardFixup | DtbsFixup

record routerboot_dynpart =
  dp_name :: string
  dp_magic :: nat
  dp_fixup :: rb_fixup
  dp_offset :: nat
  dp_size :: nat
  dp_found :: bool

definition rb_dynparts :: "platform \<Rightarrow> routerboot_dynpart list" where
  "rb_dynparts p =
     [\<lparr>dp_name = ''hard_config'', dp_magic = RB_MAGIC_HARD, dp_fixup = HardFixup, dp_offset = 0,
       dp_size = RB_BLOCK_SIZE, dp_found = False\<rparr>,
      \<lparr>dp_name = ''soft_config'', dp_magic = RB_MAGIC_SOFT, dp_fixup = NoFixup, dp_offset = 0,
       dp_size = RB_BLOCK_SIZE, dp_found = False\<rparr>,
      \<lparr>dp_name = ''dtb_config'', dp_magic = (if pf_big_endian p then 0xd00dfeed else 0xedfe0dd0),
       dp_fixup = DtbsFixup, dp_offset = 0, dp_size = 0, dp_found = False\<rparr>]"

definition align_block :: "nat \<Rightarrow> nat" where
  "align_block n = (n + RB_BLOCK_SIZE - 1) div RB_BLOCK_SIZE * RB_BLOCK_SIZE"

text \<open>
  The walk over the tag list in \<^verbatim>\<open>routerboot_hardfixup\<close>; the result is the position of the null
  node or the first position behind the device. Positions are of type \<^verbatim>\<open>size_t\<close>; a device is
  taken to be smaller than its range by more than one tag.
\<close>

function hardfixup_walk :: "platform \<Rightarrow> mtd_info \<Rightarrow> nat \<Rightarrow> nat res" where
  "hardfixup_walk p m pos =
     (if pos < mtd_size m then
        bind_res (read_exact m pos 4) (\<lambda>buf.
          (let node = get_cpu32 p buf 0
           in if node = 0 then Ret pos
              else hardfixup_walk p m (pos + 4 + align4 (node div 65536))))
      else Ret pos)"
  by pat_completeness auto
termination
  by (relation "measure (\<lambda>(p, m, pos). mtd_size m - pos)") auto

declare hardfixup_walk.simps [simp del]

definition routerboot_hardfixup :: "platform \<Rightarrow> mtd_info \<Rightarrow> routerboot_dynpart \<Rightarrow> routerboot_dynpart res" where
  "routerboot_hardfixup p m dp =
     bind_res (hardfixup_walk p m (dp_offset dp + 4)) (\<lambda>pos.
       if mtd_size m \<le> pos then Fail (- EINVAL)
       else Ret (dp\<lparr>dp_size := max (align_block (pos + 4 - dp_offset dp)) RB_BLOCK_SIZE\<rparr>))"

definition routerboot_dtbsfixup :: "mtd_info \<Rightarrow> routerboot_dynpart \<Rightarrow> routerboot_dynpart res" where
  "routerboot_dtbsfixup m dp =
     bind_res (read_exact m (dp_offset dp) 40) (\<lambda>buf.
       if get_be32 buf 4 = 0 then Fail (- EINVAL) else Ret (dp\<lparr>dp_size := get_be32 buf 4\<rparr>))"

definition size_fixup :: "platform \<Rightarrow> mtd_info \<Rightarrow> routerboot_dynpart \<Rightarrow> routerboot_dynpart res" where
  "size_fixup p m dp =
     (case dp_fixup dp of
        NoFixup \<Rightarrow> Ret dp
      | HardFixup \<Rightarrow> routerboot_hardfixup p m dp
      | DtbsFixup \<Rightarrow> routerboot_dtbsfixup m dp)"

text \<open>
  One round of the search over the partitions: the new entries, what is added to the offset,
  and \<^verbatim>\<open>allfound\<close>. \<open>word\<close> is what was read. A failing size fixup leaves the new offset.
\<close>

fun match_parts ::
  "platform \<Rightarrow> mtd_info \<Rightarrow> nat \<Rightarrow> nat \<Rightarrow> routerboot_dynpart list \<Rightarrow> routerboot_dynpart list \<times> nat \<times> bool" where
  "match_parts p m offset word [] = ([], 0, True)"
| "match_parts p m offset word (dp # dps) =
     (let skip = (\<lambda>dp' found. case match_parts p m offset word dps of
                    (dps', extra, all_found) \<Rightarrow> (dp' # dps', extra, found \<and> all_found))
      in if dp_found dp then skip dp True
         else if dp_magic dp = word then
           (case size_fixup p m (dp\<lparr>dp_offset := offset\<rparr>) of
              Ret dp' \<Rightarrow>
                (dp'\<lparr>dp_found := True\<rparr> # dps,
                 if RB_BLOCK_SIZE < dp_size dp'
                 then (dp_size dp' - RB_BLOCK_SIZE) div RB_BLOCK_SIZE * RB_BLOCK_SIZE else 0, False)
            | _ \<Rightarrow> skip (dp\<lparr>dp_offset := offset\<rparr>) False)
         else skip dp False)"

text \<open>
  The search. When a read fails the loop goes on with the same offset. Since a device of the
  model answers a read always in the same way, this is a loop that does not end, and the search
  has fuel. The number of bytes read is not checked; a short read leaves a value that is not
  initialised, which is \<open>Fault\<close>.
\<close>

fun find_dynparts_loop ::
  "nat \<Rightarrow> platform \<Rightarrow> mtd_info \<Rightarrow> nat \<Rightarrow> routerboot_dynpart list \<Rightarrow> routerboot_dynpart list res" where
  "find_dynparts_loop 0 p m offset dps = Diverges"
| "find_dynparts_loop (Suc fuel) p m offset dps =
     (if offset < mtd_size m then
        (let (err, buf) = mtd_rd m (loff offset) 4
         in if err \<noteq> 0 then find_dynparts_loop fuel p m offset dps
            else if length buf \<noteq> 4 then Fault
            else
              (let (dps', extra, all_found) = match_parts p m offset (get_cpu32 p buf 0) dps
               in if all_found then Ret dps'
                  else find_dynparts_loop fuel p m (sz p (int (offset + extra + RB_BLOCK_SIZE))) dps'))
      else Ret dps)"

definition routerboot_find_dynparts ::
  "nat \<Rightarrow> platform \<Rightarrow> mtd_info \<Rightarrow> routerboot_dynpart list \<Rightarrow> routerboot_dynpart list res" where
  "routerboot_find_dynparts fuel p m dps = find_dynparts_loop fuel p m 0 dps"

section \<open>Partitions\<close>

text \<open>
  A child of the device tree node: the properties \<^verbatim>\<open>label\<close> and \<^verbatim>\<open>name\<close>, the name of the node,
  \<^verbatim>\<open>reg\<close> and \<^verbatim>\<open>size\<close> as lists of cells, the numbers of cells of an address and a size, and
  whether \<^verbatim>\<open>read-only\<close> and \<^verbatim>\<open>lock\<close> are there.
\<close>

record rb_node =
  rn_label :: "string option"
  rn_name :: "string option"
  rn_node :: string
  rn_reg :: "nat list option"
  rn_size :: "nat list option"
  rn_a_cells :: nat
  rn_s_cells :: nat
  rn_read_only :: bool
  rn_lock :: bool

record rb_part = mtd_partition +
  part_mask_writeable :: bool
  part_mask_lock :: bool

text \<open>\<^verbatim>\<open>of_read_number\<close>: big endian cells in 64 bits.\<close>

definition of_read_number :: "nat list \<Rightarrow> nat" where
  "of_read_number cells = u64 (int (foldl (\<lambda>r c. r * 4294967296 + c) 0 cells))"

definition node_name :: "rb_node \<Rightarrow> string" where
  "node_name nd =
     (case rn_label nd of Some l \<Rightarrow> l | None \<Rightarrow> (case rn_name nd of Some n \<Rightarrow> n | None \<Rightarrow> rn_node nd))"

text \<open>Offset and size of a partition; \<^term>\<open>None\<close> is the jump to \<^verbatim>\<open>rbpart_fail\<close>.\<close>

definition node_range ::
  "platform \<Rightarrow> routerboot_dynpart list \<Rightarrow> nat \<Rightarrow> rb_node \<Rightarrow> (nat \<times> nat) option" where
  "node_range p dps master_ofs nd =
     (case rn_reg nd of
        Some cells \<Rightarrow>
          if length cells \<noteq> rn_a_cells nd + rn_s_cells nd then None
          else Some (sz p (int (of_read_number (take (rn_a_cells nd) cells))),
                     sz p (int (of_read_number (take (rn_s_cells nd) (drop (rn_a_cells nd) cells)))))
      | None \<Rightarrow>
          (let (offset, siz) = (case find (\<lambda>dp. dp_name dp = node_name nd \<and> dp_found dp) dps of
                                  Some dp \<Rightarrow> (dp_offset dp, dp_size dp) | None \<Rightarrow> (master_ofs, 0))
           in case rn_size nd of
                None \<Rightarrow> Some (offset, siz)
              | Some cells \<Rightarrow>
                  if length cells \<noteq> rn_s_cells nd then None
                  else Some (offset, sz p (int (of_read_number (take (rn_s_cells nd) cells))))))"

text \<open>\<open>prev\<close> holds the partitions so far, the last one first.\<close>

fun parse_nodes ::
  "platform \<Rightarrow> mtd_info \<Rightarrow> routerboot_dynpart list \<Rightarrow> nat \<Rightarrow> rb_part list \<Rightarrow> rb_node list \<Rightarrow> rb_part list option" where
  "parse_nodes p m dps master_ofs prev [] = Some (rev prev)"
| "parse_nodes p m dps master_ofs prev (nd # nds) =
     (case node_range p dps master_ofs nd of
        None \<Rightarrow> None
      | Some (offset, siz) \<Rightarrow>
          (let overlaps = (case prev of [] \<Rightarrow> False | q # _ \<Rightarrow> offset < u64 (int (part_offset q + part_size q)));
               prev' = (case prev of
                          [] \<Rightarrow> []
                        | q # qs \<Rightarrow> (if part_size q = 0 then q\<lparr>part_size := u64 (int offset - int (part_offset q))\<rparr> else q) # qs);
               extent = sz p (int (offset + siz))
           in if overlaps then None
              else if mtd_size m < extent then None
              else parse_nodes p m dps (sz p (int (extent + RB_BLOCK_SIZE - 1)) div RB_BLOCK_SIZE * RB_BLOCK_SIZE)
                     (\<lparr>part_name = node_name nd, part_offset = offset, part_size = siz,
                       part_mask_writeable = rn_read_only nd, part_mask_lock = rn_lock nd\<rparr> # prev') nds))"

text \<open>The growth of \<^verbatim>\<open>soft_config\<close> to a whole erase block, which is a power of two.\<close>

fun grow_soft_config :: "mtd_info \<Rightarrow> rb_part list \<Rightarrow> rb_part list" where
  "grow_soft_config m [] = []"
| "grow_soft_config m (q # qs) =
     (if part_name q \<noteq> ''soft_config'' then q # grow_soft_config m qs
      else if mtd_erasesize m = 0 \<or> mtd_erasesize m \<le> part_size q then q # qs
      else if part_offset q mod mtd_erasesize m \<noteq> 0 then q # qs
      else
        (let grown = (part_size q + mtd_erasesize m - 1) div mtd_erasesize m * mtd_erasesize m;
             limit = (case qs of [] \<Rightarrow> mtd_size m | r # _ \<Rightarrow> part_offset r)
         in if limit < part_offset q + grown then q # qs else q\<lparr>part_size := grown\<rparr> # qs))"

text \<open>
  The parser. The array \<^verbatim>\<open>rb_dynparts\<close> is static: what one call has found is there for the next
  one, also on another device. It is an argument and part of the result. The tree node of a
  partition is the child itself and not repeated in the record.
\<close>

definition routerboot_partitions_parse ::
  "nat \<Rightarrow> platform \<Rightarrow> mtd_info \<Rightarrow> rb_node list option \<Rightarrow> routerboot_dynpart list
     \<Rightarrow> rb_part list res \<times> routerboot_dynpart list" where
  "routerboot_partitions_parse fuel p m nodes dps =
     (case nodes of
        None \<Rightarrow> (Ret [], dps)
      | Some nds \<Rightarrow>
          if nds = [] then (Ret [], dps)
          else if \<not> pf_alloc p 0 then (Fail (- ENOMEM), dps)
          else
            (case routerboot_find_dynparts fuel p m dps of
               Ret dps' \<Rightarrow>
                 (case parse_nodes p m dps' 0 [] nds of
                    None \<Rightarrow> Fail (- EINVAL)
                  | Some parts \<Rightarrow> Ret (grow_soft_config m parts), dps')
             | Fail e \<Rightarrow> (Fail e, dps)
             | Diverges \<Rightarrow> (Diverges, dps)
             | Fault \<Rightarrow> (Fault, dps)))"

section \<open>The search\<close>

lemma size64_id: "pf_size_bits p = 64 \<Longrightarrow> n < 2 ^ 64 \<Longrightarrow> sz p (int n) = n"
  by (simp add: sz_def)

lemma u64_small: "n < 2 ^ 64 \<Longrightarrow> u64 (int n) = n"
  by (simp add: u64_def)

text \<open>A device that answers every read inside it.\<close>

definition words_readable :: "mtd_info \<Rightarrow> bool" where
  "words_readable m \<longleftrightarrow> (\<forall>ofs < mtd_size m. \<exists>b. mtd_rd m (loff ofs) 4 = (0, b) \<and> length b = 4)"

text \<open>What the search keeps: positions and sizes stay below the bound.\<close>

definition dyn_small :: "routerboot_dynpart \<Rightarrow> bool" where
  "dyn_small dp \<longleftrightarrow> dp_offset dp < 2 ^ 62 \<and> dp_size dp < 2 ^ 62"

lemma align_block_le: "align_block n \<le> n + 4095"
  by (simp add: align_block_def RB_BLOCK_SIZE_def)

lemma get_be32_lt: "get_be32 b i < 4294967296"
  using get_cpu32_lt[of "\<lparr>pf_big_endian = True, pf_size_bits = 0, pf_alloc = \<lambda>_. True\<rparr>" b i]
  by (simp add: get_cpu32_def)

lemma size_fixup_small:
  assumes "size_fixup p m dp = Ret dp'" "dyn_small dp" "mtd_size m < 2 ^ 61"
  shows "dyn_small dp' \<and> dp_offset dp' = dp_offset dp"
proof (cases "dp_fixup dp")
  case NoFixup
  then show ?thesis using assms by (simp add: size_fixup_def)
next
  case HardFixup
  then obtain pos where pos: "\<not> mtd_size m \<le> pos"
      "dp' = dp\<lparr>dp_size := max (align_block (pos + 4 - dp_offset dp)) RB_BLOCK_SIZE\<rparr>"
    using assms(1) by (auto simp: size_fixup_def routerboot_hardfixup_def split: if_splits)
  have "align_block (pos + 4 - dp_offset dp) < 2 ^ 62"
    using align_block_le[of "pos + 4 - dp_offset dp"] pos(1) assms(3) by simp
  then show ?thesis using assms(2) pos(2) by (simp add: dyn_small_def RB_BLOCK_SIZE_def)
next
  case DtbsFixup
  then obtain b where "dp' = dp\<lparr>dp_size := get_be32 b 4\<rparr>"
    using assms(1) by (auto simp: size_fixup_def routerboot_dtbsfixup_def split: if_splits)
  moreover have "get_be32 b 4 < 2 ^ 62" using get_be32_lt[of b 4] by simp
  ultimately show ?thesis using assms(2) by (simp add: dyn_small_def)
qed

lemma match_parts_small:
  assumes "match_parts p m offset w dps = (dps', extra, af)" "\<forall>dp \<in> set dps. dyn_small dp"
    and "mtd_size m < 2 ^ 61" "offset < 2 ^ 62"
  shows "(\<forall>dp \<in> set dps'. dyn_small dp) \<and> extra < 2 ^ 62"
  using assms(1,2)
proof (induction dps arbitrary: dps' extra af)
  case (Cons dp dps)
  obtain ds ex a where r: "match_parts p m offset w dps = (ds, ex, a)" using prod_cases3 by blast
  have IH: "(\<forall>dp \<in> set ds. dyn_small dp) \<and> ex < 2 ^ 62" using Cons.IH[OF r] Cons.prems(2) by simp
  have at: "dyn_small (dp\<lparr>dp_offset := offset\<rparr>)" using Cons.prems(2) assms(4) by (simp add: dyn_small_def)
  have down: "(n - RB_BLOCK_SIZE) div RB_BLOCK_SIZE * RB_BLOCK_SIZE \<le> n" for n
    by (metis diff_le_self div_times_less_eq_dividend le_trans)
  show ?case
  proof (cases "size_fixup p m (dp\<lparr>dp_offset := offset\<rparr>)")
    case (Ret dp')
    have small: "dyn_small dp'" using size_fixup_small[OF Ret at assms(3)] by simp
    then have "(dp_size dp' - RB_BLOCK_SIZE) div RB_BLOCK_SIZE * RB_BLOCK_SIZE < 2 ^ 62"
      using down[of "dp_size dp'"] unfolding dyn_small_def by linarith
    moreover have "dyn_small (dp'\<lparr>dp_found := True\<rparr>)" using small by (simp add: dyn_small_def)
    ultimately show ?thesis
      using Cons.prems IH Ret r by (auto simp: Let_def split: if_splits)
  qed (use Cons.prems IH at r in \<open>auto simp: Let_def split: if_splits\<close>)
qed simp

lemma find_dynparts_small:
  assumes "find_dynparts_loop fuel p m offset dps = Ret dps'" "\<forall>dp \<in> set dps. dyn_small dp"
    and "mtd_size m < 2 ^ 61"
  shows "\<forall>dp \<in> set dps'. dyn_small dp"
  using assms(1,2)
proof (induction fuel arbitrary: offset dps)
  case (Suc fuel)
  show ?case
  proof (cases "offset < mtd_size m")
    case True
    obtain err buf where rd: "mtd_rd m (loff offset) 4 = (err, buf)" by fastforce
    obtain ds ex a where mp: "match_parts p m offset (get_cpu32 p buf 0) dps = (ds, ex, a)" using prod_cases3 by blast
    have "\<forall>dp \<in> set ds. dyn_small dp"
      using match_parts_small[OF mp Suc.prems(2) assms(3)] True assms(3) by simp
    then show ?thesis
      using Suc.prems True rd mp Suc.IH by (auto simp: Let_def split: if_splits)
  qed (use Suc.prems in simp)
qed simp

lemma find_dynparts_ends:
  assumes "words_readable m" "pf_size_bits p = 64" "mtd_size m < 2 ^ 61"
    and "\<forall>dp \<in> set dps. dyn_small dp" "mtd_size m \<le> offset + fuel * RB_BLOCK_SIZE"
  shows "\<exists>dps'. find_dynparts_loop (Suc fuel) p m offset dps = Ret dps'"
  using assms(4,5)
proof (induction fuel arbitrary: offset dps)
  case 0
  then show ?case by simp
next
  case (Suc fuel)
  show ?case
  proof (cases "offset < mtd_size m")
    case True
    obtain buf where rd: "mtd_rd m (loff offset) 4 = (0, buf)" "length buf = 4"
      using assms(1) True unfolding words_readable_def by blast
    obtain ds ex a where mp: "match_parts p m offset (get_cpu32 p buf 0) dps = (ds, ex, a)" using prod_cases3 by blast
    have small: "(\<forall>dp \<in> set ds. dyn_small dp) \<and> ex < 2 ^ 62"
      using match_parts_small[OF mp Suc.prems(1) assms(3)] True assms(3) by simp
    have "sz p (int (offset + ex + RB_BLOCK_SIZE)) = offset + ex + RB_BLOCK_SIZE"
      using small True assms(3) by (intro size64_id[OF assms(2)]) (simp add: RB_BLOCK_SIZE_def)
    moreover have "\<exists>dps'. find_dynparts_loop (Suc fuel) p m (offset + ex + RB_BLOCK_SIZE) ds = Ret dps'"
      using small Suc.prems(2) by (intro Suc.IH) auto
    ultimately show ?thesis using True rd mp by (subst find_dynparts_loop.simps) (auto simp: Let_def simp del: find_dynparts_loop.simps)
  qed simp
qed

lemma find_dynparts_hang:
  assumes "offset < mtd_size m" "mtd_rd m (loff offset) 4 = (err, buf)" "err \<noteq> 0"
  shows "find_dynparts_loop fuel p m offset dps = Diverges"
  using assms by (induction fuel) simp_all

lemma rb_dynparts_small: "\<forall>dp \<in> set (rb_dynparts p). dyn_small dp"
  by (simp add: rb_dynparts_def dyn_small_def RB_BLOCK_SIZE_def)

section \<open>Partitions do not overlap\<close>

abbreviation part_end :: "rb_part \<Rightarrow> nat" where "part_end q \<equiv> part_offset q + part_size q"

definition parts_ok :: "nat \<Rightarrow> rb_part list \<Rightarrow> bool" where
  "parts_ok siz ps \<longleftrightarrow> (\<forall>q \<in> set ps. part_end q \<le> siz) \<and> sorted_wrt (\<lambda>a b. part_end a \<le> part_offset b) ps"

text \<open>The numbers in the device tree are below the bound.\<close>

definition node_small :: "rb_node \<Rightarrow> bool" where
  "node_small nd \<longleftrightarrow>
     (\<forall>cells. rn_reg nd = Some cells \<longrightarrow> of_read_number (take (rn_a_cells nd) cells) < 2 ^ 62 \<and>
        of_read_number (take (rn_s_cells nd) (drop (rn_a_cells nd) cells)) < 2 ^ 62) \<and>
     (\<forall>cells. rn_size nd = Some cells \<longrightarrow> of_read_number (take (rn_s_cells nd) cells) < 2 ^ 62)"

lemma find_in_set: "find P xs = Some x \<Longrightarrow> x \<in> set xs"
  by (auto simp: find_Some_iff)

lemma node_range_small:
  assumes "node_range p dps master_ofs nd = Some (offset, siz)" "pf_size_bits p = 64" "node_small nd"
    and "\<forall>dp \<in> set dps. dyn_small dp" "master_ofs < 2 ^ 62"
  shows "offset < 2 ^ 62 \<and> siz < 2 ^ 62"
proof (cases "rn_reg nd")
  case (Some cells)
  then show ?thesis
    using assms by (auto simp: node_range_def node_small_def size64_id split: if_splits)
next
  case None
  obtain o1 s1 where os: "(case find (\<lambda>dp. dp_name dp = node_name nd \<and> dp_found dp) dps of
      Some dp \<Rightarrow> (dp_offset dp, dp_size dp) | None \<Rightarrow> (master_ofs, 0)) = (o1, s1)"
    by fastforce
  have s: "o1 < 2 ^ 62" "s1 < 2 ^ 62"
    using os assms(4,5) find_in_set[of "\<lambda>dp. dp_name dp = node_name nd \<and> dp_found dp" dps]
    by (auto simp: dyn_small_def split: option.splits)
  show ?thesis
    using assms(1,2,3) None os s by (auto simp: node_range_def node_small_def size64_id split: option.splits if_splits)
qed

lemma parse_nodes_ok:
  assumes "pf_size_bits p = 64" "mtd_size m < 2 ^ 61" "\<forall>dp \<in> set dps. dyn_small dp"
    and "parse_nodes p m dps master_ofs prev nds = Some ps"
    and "\<forall>nd \<in> set nds. node_small nd" "master_ofs < 2 ^ 62" "parts_ok (mtd_size m) (rev prev)"
  shows "parts_ok (mtd_size m) ps"
  using assms(4-7)
proof (induction nds arbitrary: master_ofs prev)
  case Nil
  then show ?case by simp
next
  case (Cons nd nds)
  obtain offset siz where r: "node_range p dps master_ofs nd = Some (offset, siz)"
    using Cons.prems(1) by (auto split: option.splits)
  have small: "offset < 2 ^ 62" "siz < 2 ^ 62"
    using node_range_small[OF r assms(1) _ assms(3) Cons.prems(3)] Cons.prems(2) by simp_all
  then have extent: "sz p (int (offset + siz)) = offset + siz" by (intro size64_id[OF assms(1)]) simp
  define new where "new = \<lparr>part_name = node_name nd, part_offset = offset, part_size = siz,
    part_mask_writeable = rn_read_only nd, part_mask_lock = rn_lock nd\<rparr>"
  define prev' where "prev' = (case prev of [] \<Rightarrow> []
    | q # qs \<Rightarrow> (if part_size q = 0 then q\<lparr>part_size := u64 (int offset - int (part_offset q))\<rparr> else q) # qs)"
  define mo where "mo = sz p (int (offset + siz + RB_BLOCK_SIZE - 1)) div RB_BLOCK_SIZE * RB_BLOCK_SIZE"
  have ext: "offset + siz \<le> mtd_size m" and rec: "parse_nodes p m dps mo (new # prev') nds = Some ps"
    and no: "\<not> (case prev of [] \<Rightarrow> False | q # _ \<Rightarrow> offset < u64 (int (part_end q)))"
    using Cons.prems(1) r unfolding parse_nodes.simps r option.case prod.case Let_def extent
    by (simp_all add: new_def prev'_def mo_def split: if_splits)
  have "mo \<le> offset + siz + RB_BLOCK_SIZE - 1"
    unfolding mo_def using small size64_id[OF assms(1), of "offset + siz + RB_BLOCK_SIZE - 1"]
    by (simp add: RB_BLOCK_SIZE_def)
  then have mo: "mo < 2 ^ 62" using ext assms(2) by (simp add: RB_BLOCK_SIZE_def)
  have "parts_ok (mtd_size m) (rev (new # prev'))"
  proof (cases prev)
    case Nil
    then show ?thesis using ext by (simp add: parts_ok_def prev'_def new_def)
  next
    case (Cons q qs)
    have inv: "part_end q \<le> mtd_size m" "\<forall>r \<in> set qs. part_end r \<le> part_offset q"
      "parts_ok (mtd_size m) (rev qs)"
      using \<open>parts_ok (mtd_size m) (rev prev)\<close> Cons by (auto simp: parts_ok_def sorted_wrt_append)
    then have "part_end q < 2 ^ 64" using assms(2) by simp
    then have le: "part_end q \<le> offset" using no Cons u64_small[of "part_end q"] by simp
    define q' where "q' = (if part_size q = 0 then q\<lparr>part_size := u64 (int offset - int (part_offset q))\<rparr> else q)"
    have "u64 (int offset - int (part_offset q)) = offset - part_offset q"
      using le small u64_small[of "offset - part_offset q"] by (simp add: of_nat_diff)
    then have q': "part_offset q' = part_offset q" "part_end q' \<le> offset" "prev' = q' # qs"
      using le Cons by (auto simp: q'_def prev'_def)
    then show ?thesis
      using inv ext by (fastforce simp: parts_ok_def sorted_wrt_append new_def)
  qed
  then show ?case using Cons.IH[OF rec _ mo] Cons.prems(2) by simp
qed

lemma grow_ok:
  assumes "parts_ok (mtd_size m) ps"
  shows "parts_ok (mtd_size m) (grow_soft_config m ps)"
proof -
  have names: "map part_offset (grow_soft_config m qs) = map part_offset qs" for qs
    by (induction qs) (auto simp: Let_def)
  show ?thesis using assms
  proof (induction ps)
    case (Cons q qs)
    have inv: "part_end q \<le> mtd_size m" "\<forall>r \<in> set qs. part_end q \<le> part_offset r" "parts_ok (mtd_size m) qs"
      using Cons.prems by (auto simp: parts_ok_def)
    have "part_offset ` set (grow_soft_config m qs) = part_offset ` set qs"
      using arg_cong[OF names[of qs], of set] by simp
    then have later: "\<forall>r \<in> set (grow_soft_config m qs). part_end q \<le> part_offset r"
      using inv(2) by (metis imageE image_eqI)
    have head: "parts_ok (mtd_size m) (q' # qs)"
      if "part_end q' \<le> (case qs of [] \<Rightarrow> mtd_size m | r # _ \<Rightarrow> part_offset r)" for q'
    proof (cases qs)
      case Nil
      then show ?thesis using that by (simp add: parts_ok_def)
    next
      case (Cons r rs)
      then have "part_end r \<le> mtd_size m" "\<forall>s \<in> set rs. part_end r \<le> part_offset s"
        using inv(3) by (auto simp: parts_ok_def)
      then show ?thesis using that Cons inv(3) by (fastforce simp: parts_ok_def)
    qed
    have grown: "parts_ok (mtd_size m) (q\<lparr>part_size := n\<rparr> # qs)"
      if "\<not> (case qs of [] \<Rightarrow> mtd_size m | r # _ \<Rightarrow> part_offset r) < part_offset q + n" for n
      using that by (intro head) simp
    have skip: "parts_ok (mtd_size m) (q # grow_soft_config m qs)"
      using Cons.IH[OF inv(3)] later inv(1) by (simp add: parts_ok_def)
    show ?case
      using skip grown Cons.prems by (simp only: grow_soft_config.simps Let_def split: if_split) blast
  qed simp
qed

lemma find_all_found:
  assumes "\<forall>dp \<in> set dps. dp_found dp" "mtd_rd m 0 4 = (0, b)" "length b = 4"
  shows "find_dynparts_loop (Suc fuel) p m 0 dps = Ret dps"
proof -
  have "match_parts p m ofs w ds = (ds, 0, True)" if "\<forall>dp \<in> set ds. dp_found dp" for ofs w ds
    using that by (induction ds) simp_all
  then show ?thesis using assms by (simp add: loff_def)
qed

section \<open>Properties\<close>

text \<open>
  C31. The partitions are disjoint and inside the device. On a machine with 64 bits, whatever the
  flash and the device tree hold, as long as the numbers in the tree are below \<open>2 ^ 62\<close>, the
  partitions that the parser returns, with \<^verbatim>\<open>soft_config\<close> grown to an erase block, end inside the
  device, and each ends before the next starts. The table of well-known partitions keeps its
  bounds, so that this holds for every later call too.
\<close>

theorem routerboot_partitions_disjoint:
  assumes "routerboot_partitions_parse fuel p m (Some nds) dps = (Ret parts, dps')"
    and "pf_size_bits p = 64" "mtd_size m < 2 ^ 61" "\<forall>nd \<in> set nds. node_small nd" "\<forall>dp \<in> set dps. dyn_small dp"
  shows "(\<forall>q \<in> set parts. part_offset q + part_size q \<le> mtd_size m) \<and>
    (\<forall>i j. i < j \<and> j < length parts \<longrightarrow> part_offset (parts ! i) + part_size (parts ! i) \<le> part_offset (parts ! j)) \<and>
    (\<forall>dp \<in> set dps'. dyn_small dp)"
proof (cases "nds = []")
  case True
  then show ?thesis using assms(1,5) by (auto simp: routerboot_partitions_parse_def)
next
  case False
  obtain ps where d: "routerboot_find_dynparts fuel p m dps = Ret dps'" "parse_nodes p m dps' 0 [] nds = Some ps"
      "parts = grow_soft_config m ps"
    using assms(1) False by (auto simp: routerboot_partitions_parse_def split: if_splits option.splits res.splits)
  have small: "\<forall>dp \<in> set dps'. dyn_small dp"
    using find_dynparts_small[OF d(1)[unfolded routerboot_find_dynparts_def] assms(5,3)] .
  from parse_nodes_ok[OF assms(2,3) this d(2) assms(4)] have "parts_ok (mtd_size m) ps"
    by (simp add: parts_ok_def)
  then have "parts_ok (mtd_size m) parts" unfolding d(3) by (rule grow_ok)
  then show ?thesis using small unfolding parts_ok_def sorted_wrt_iff_nth_less by blast
qed

text \<open>Two nodes on a blank chip of eight blocks: one fixed partition and one that takes the rest.\<close>

definition blank_chip :: mtd_info where
  "blank_chip = \<lparr>mtd_name = [], mtd_size = 32768, mtd_erasesize = 4096, mtd_is_nand = False, mtd_np = None,
     mtd_rd = (\<lambda>ofs n. (0, replicate n (- 1)))\<rparr>"

definition fixed_node :: "string \<Rightarrow> nat \<Rightarrow> nat \<Rightarrow> rb_node" where
  "fixed_node name ofs siz = \<lparr>rn_label = Some name, rn_name = None, rn_node = [], rn_reg = Some [ofs, siz],
     rn_size = None, rn_a_cells = 1, rn_s_cells = 1, rn_read_only = False, rn_lock = False\<rparr>"

lemma blank_chip_readable: "words_readable blank_chip"
  by (simp add: words_readable_def blank_chip_def)

definition pf64 :: platform where
  "pf64 = \<lparr>pf_big_endian = False, pf_size_bits = 64, pf_alloc = \<lambda>_. True\<rparr>"

theorem routerboot_partitions_disjoint_witness:
  "\<exists>parts. fst (routerboot_partitions_parse 9 pf64 blank_chip
     (Some [fixed_node ''a'' 0 4096, fixed_node ''b'' 8192 4096]) (rb_dynparts pf64)) = Ret parts \<and>
   part_offset (parts ! 0) + part_size (parts ! 0) \<le> part_offset (parts ! 1)"
proof -
  let ?nds = "[fixed_node ''a'' 0 4096, fixed_node ''b'' 8192 4096]"
  have "pf_size_bits pf64 = 64" "mtd_size blank_chip < 2 ^ 61" "mtd_size blank_chip \<le> 0 + 8 * RB_BLOCK_SIZE"
    by (simp_all add: pf64_def blank_chip_def RB_BLOCK_SIZE_def)
  from find_dynparts_ends[OF blank_chip_readable this(1,2) rb_dynparts_small this(3)]
  obtain dps where d: "routerboot_find_dynparts 9 pf64 blank_chip (rb_dynparts pf64) = Ret dps"
    by (auto simp: routerboot_find_dynparts_def eval_nat_numeral simp del: find_dynparts_loop.simps)
  have blank: "mtd_size blank_chip = 32768" "pf_size_bits pf64 = 64" "pf_alloc pf64 0"
    by (simp_all add: blank_chip_def pf64_def)
  obtain parts where ps: "routerboot_partitions_parse 9 pf64 blank_chip (Some ?nds) (rb_dynparts pf64) = (Ret parts, dps)"
      "length parts = 2"
    using blank by (simp add: routerboot_partitions_parse_def d node_range_def fixed_node_def of_read_number_def
      u64_def sz_def node_name_def)
  have "\<forall>nd \<in> set ?nds. node_small nd" "mtd_size blank_chip < 2 ^ 61" "pf_size_bits pf64 = 64"
    by (simp_all add: node_small_def fixed_node_def of_read_number_def u64_def blank_chip_def pf64_def)
  from routerboot_partitions_disjoint[OF ps(1) this(3,2,1) rb_dynparts_small] ps show ?thesis by auto
qed

text \<open>
  The search for well-known partitions ends when all reads succeed: after at most one round
  per block of 4096 bytes.
\<close>

theorem routerboot_search_ends:
  assumes "words_readable m" "pf_size_bits p = 64" "mtd_size m < 2 ^ 61" "\<forall>dp \<in> set dps. dyn_small dp"
    and "mtd_size m div 4096 + 1 < fuel"
  shows "\<exists>dps'. routerboot_find_dynparts fuel p m dps = Ret dps'"
proof -
  obtain k where k: "fuel = Suc k" "mtd_size m div 4096 + 1 \<le> k" using assms(5) by (cases fuel) auto
  have "mtd_size m \<le> (mtd_size m div 4096 + 1) * 4096" by simp
  also have "\<dots> \<le> k * 4096" using mult_le_mono1[OF k(2)] .
  finally have "mtd_size m \<le> 0 + k * RB_BLOCK_SIZE" by (simp add: RB_BLOCK_SIZE_def)
  from find_dynparts_ends[OF assms(1-4) this] show ?thesis
    unfolding routerboot_find_dynparts_def k(1) .
qed

theorem routerboot_search_ends_witness:
  "\<exists>dps. routerboot_find_dynparts 10 pf64 blank_chip (rb_dynparts pf64) = Ret dps"
  by (rule routerboot_search_ends[OF blank_chip_readable _ _ rb_dynparts_small]) (simp_all add: blank_chip_def pf64_def)

text \<open>
  A read error makes the search run forever: when the first word of the device cannot be
  read, no number of rounds is enough, because the loop goes on with the same position.
\<close>

theorem routerboot_search_hangs:
  assumes "0 < mtd_size m" "mtd_rd m 0 4 = (err, buf)" "err \<noteq> 0"
  shows "routerboot_find_dynparts fuel p m dps = Diverges"
  using find_dynparts_hang[of 0 m err buf fuel p dps] assms by (simp add: routerboot_find_dynparts_def loff_def)

theorem routerboot_search_hangs_witness:
  "routerboot_find_dynparts 1000 pf64 (blank_chip\<lparr>mtd_rd := \<lambda>ofs n. (- EIO, [])\<rparr>) (rb_dynparts pf64) = Diverges"
  by (rule routerboot_search_hangs[of _ "- EIO" "[]"]) (simp_all add: blank_chip_def)

text \<open>
  A second device gets the positions of the first: when a call has found all well-known
  partitions, a later call on another device reads one word of it and keeps the table, whatever
  that device holds.
\<close>

theorem routerboot_second_device:
  assumes "\<forall>dp \<in> set dps. dp_found dp" "mtd_rd m 0 4 = (0, b)" "length b = 4"
  shows "routerboot_find_dynparts (Suc fuel) p m dps = Ret dps"
  using find_all_found[OF assms] by (simp add: routerboot_find_dynparts_def)

theorem routerboot_second_device_witness:
  "routerboot_find_dynparts (Suc 4) pf64 blank_chip
     (map (\<lambda>dp. dp\<lparr>dp_found := True, dp_offset := 0x70000\<rparr>) (rb_dynparts pf64)) =
   Ret (map (\<lambda>dp. dp\<lparr>dp_found := True, dp_offset := 0x70000\<rparr>) (rb_dynparts pf64))"
  using routerboot_second_device[of "map (\<lambda>dp. dp\<lparr>dp_found := True, dp_offset := 0x70000\<rparr>) (rb_dynparts pf64)"
    blank_chip "replicate 4 (- 1)" 4 pf64]
  by (simp add: blank_chip_def rb_dynparts_def)

end
