(* ===== verification/Spec2Isabelle.thy ===== *)
theory Spec2Isabelle
  imports Bmt_V2 Nmbm_Store En75_Props Mapcalc_Props Mtd_Props Nvram Mtdsplit_Img Rb_Driver Routerbootpart
begin

text \<open>
  A verification library for ImmortalWrt, a distribution of Linux for routers. The tree under
  \<^verbatim>\<open>src/\<close> builds packages from elsewhere and adds its own C code: kernel drivers
  (\<^verbatim>\<open>src/target/linux/*/files*\<close>) and small tools (\<^verbatim>\<open>src/package\<close>). This library models
  the parts of that code whose behaviour is decided by the code itself and not by hardware or
  by a library outside the tree. They are the parts that decide where the bytes of a router
  are: bad block management of the flash, the division of the flash into partitions, and the
  data stored in it.

  \<^bold>\<open>Conventions.\<close> Code that is not in the tree is an argument of the definitions that call it:
  the raw flash driver (record \<open>nand_ops\<close>), the \<^verbatim>\<open>mtd\<close> layer and the machine (record of
  \<open>Mtdsplit\<close>), the checksum \<^verbatim>\<open>crc32_le\<close>, memory allocation. What is relied on is a named
  predicate on that argument and a hypothesis of the theorems that need it: \<open>reliable_chip\<close> (a
  chip that does what it is asked), \<open>local_chip\<close> (a chip that may fail but never touches bytes
  outside the range of a request), \<open>crc_incremental\<close>, \<open>mtd_ok\<close>, \<open>reads_inside\<close>. Every theorem
  with a hypothesis is followed by a witness on a concrete chip, table or flash content. C
  integers are words, or numbers with the conversion written out (\<open>to_u32\<close>, \<open>to_u16\<close>,
  \<open>to_s32\<close>, \<open>sz\<close>) wherever a value can leave its width. Errors are negative \<^verbatim>\<open>errno\<close> values, as
  in the code, or a result type. Messages, locks and the registration of drivers are left out.

  \<^bold>\<open>Theories.\<close>

  \<^item> \<open>Prelude\<close>: widths, byte order, buffers, error numbers, facts on lists; the collections
    \<open>width_simps\<close> and \<open>buf_simps\<close>.

  \<^item> \<open>Bmt_Core\<close>: the common layer of the MediaTek bad block management
    (\<^verbatim>\<open>drivers/mtd/nand/mtk_bmt.c\<close>, \<^verbatim>\<open>mtk_bmt.h\<close>). The state \<open>bmt_st\<close> is the global
    \<^verbatim>\<open>bmtd\<close> with the device; \<open>mtk_bmt_read\<close>, \<open>mtk_bmt_write\<close>, \<open>mtk_bmt_mtd_erase\<close>,
    \<open>mtk_bmt_block_isbad\<close>, \<open>mtk_bmt_block_markbad\<close>, \<open>mtk_bmt_attach\<close>, \<open>mtk_bmt_detach\<close> and the
    debug controls are the functions of the same names. A mapping scheme is a record
    \<open>mtk_bmt_ops\<close>, as in the code. The locale \<open>bmt_backend\<close> is what the layer needs of a scheme
    (an invariant that every operation keeps, and a lookup that is injective); inside it reading,
    writing and erasing are proved to act on the logical device \<open>bmt_logical\<close> the way they act on
    an array of bytes. \<open>bmt_backend_total\<close> adds that the invariant survives every answer of the
    chip.

  \<^item> \<open>Bmt_Bbt\<close> (\<^verbatim>\<open>mtk_bmt_bbt.c\<close>), \<open>Bmt_V2\<close> (\<^verbatim>\<open>mtk_bmt_v2.c\<close>) and \<open>Bmt_Nmbm\<close>
    (\<^verbatim>\<open>mtk_bmt_nmbm.c\<close>) are the three schemes and interpret the locale. Shown are: the lookup
    of the first is a permutation, namely the good blocks followed by the bad ones; the tables of
    the second stay free of collisions, are found again after a restart unless they were moved,
    and are built by a scan that ends; the tables of the third are stored and read back, and
    replacing a block or storing the tables leaves the data of all other blocks alone.

  \<^item> \<open>Nmbm_Tables\<close> has the tables of the third scheme and the code that writes them,
    \<open>Nmbm_Actions\<close> the relation \<open>acts\<close>, an inductive description of what that code may do to the
    chip and to the state table, with the proof that the retry loop \<open>update_info_table_loop\<close> ends
    because a round leaves fewer good blocks or nothing to store, and \<open>Nmbm_Region\<close> the relation
    \<open>manages\<close>, by which all of it happens between the data area and the replacement blocks.
    \<open>Nmbm_Store\<close> shows for a chip without faults that the update leaves both copies of the table
    on the chip, where the loading code finds the current tables. It takes a table of one block;
    with faults a copy may lack the blocks that were found bad while it was written.

  \<^item> \<open>En75_Bmt\<close> (\<^verbatim>\<open>target/linux/econet/files/drivers/mtd/nand/en75_bmt.c\<close>) is a fourth scheme of
    the common layer, with all its operations under their names in the code. \<open>En75_Map\<close> has the
    invariant \<open>en75_inv\<close>, the interpretation of \<open>bmt_backend\<close> and the relation \<open>tends\<close>, which
    describes what storing the tables may do; \<open>En75_Ops\<close> shows that replacing a block and giving a
    replacement back leave all other logical blocks alone; \<open>En75_Props\<close> that the stored tables
    are read back, that the scan of the chip finds the shortest sufficient reserve area, and that
    the shift over factory bad blocks enumerates the good ones. Hypotheses: \<open>local_chip\<close>, and
    \<open>en75_geometry\<close>, by which a block holds the largest table. The branch of \<^verbatim>\<open>mtk_bmt_attach\<close> that
    selects this scheme is in a patch of the target and is not modelled.

  \<^item> \<open>Nvram\<close> (\<^verbatim>\<open>package/utils/nvram/src\<close>): the variable store of Broadcom boards. The hash
    table \<open>nvram_handle\<close> implements a finite map (locale \<open>var_store\<close>), a commit followed by a
    rehash restores the variables, the checksum \<open>hndcrc8\<close> equals its bitwise definition, and no
    command line of the tool breaks the table.

  \<^item> \<open>Rb_Lz77\<close> (\<^verbatim>\<open>drivers/platform/mikrotik/rb_lz77.c\<close>): the decompressor for calibration
    data. The instructions of the format are a datatype with an encoder and a reference meaning;
    the decompressor returns that meaning on every encoded file, and ends on every input.

  \<^item> \<open>Routerboot\<close>, \<open>Rb_Softconfig\<close>, \<open>Rb_Hardconfig\<close>, \<open>Rb_Driver\<close>
    (\<^verbatim>\<open>drivers/platform/mikrotik\<close>): the configuration areas of MikroTik boards. \<open>Routerboot\<close> has
    the search in a list of tags and the run length decoder of \<^verbatim>\<open>routerboot.c\<close>, each proved
    against an encoder; \<open>Rb_Softconfig\<close> the settings (\<^verbatim>\<open>rb_softconfig.c\<close>), where a store changes
    one payload of the list of tags and a commit is what the next start loads; \<open>Rb_Hardconfig\<close>
    the board data and the unpacking of the calibration data (\<^verbatim>\<open>rb_hardconfig.c\<close>), which uses
    \<open>Rb_Lz77\<close>, and the NVMEM layout (\<^verbatim>\<open>rb_nvmem.c\<close>), which finds the same payloads;
    \<open>Rb_Driver\<close> the notifier of \<^verbatim>\<open>routerboot.c\<close> as a step relation \<open>rb_step\<close> with an invariant of
    all reachable states (locale \<open>config_part\<close>). Hypotheses: \<open>sc_flash_ok\<close>, a flash that erases,
    writes and reads as asked; \<open>sc_env_ok\<close>, that a parsed address has four bytes; partitions are
    a multiple of four bytes long.

  \<^item> \<open>Routerbootpart\<close> (\<^verbatim>\<open>drivers/mtd/parsers/routerbootpart.c\<close>): the partition parser of these
    boards. Its partitions are disjoint and inside the device; the search for the configuration
    areas ends when all reads succeed (\<open>words_readable\<close>), and never when a read keeps failing.

  \<^item> \<open>Mapcalc\<close> (\<^verbatim>\<open>package/network/ipv6/map/src/mapcalc.c\<close>): the calculator for MAP-E, MAP-T and
    lightweight 4over6 rules. \<open>Mapcalc_Bits\<close> reads addresses as lists of bits and shows that the
    copying functions cut and paste them; \<open>Mapcalc_Props\<close> shows what the derived addresses and sets
    of ports are, which delegated prefix is chosen, and when the program fails. The C library is
    the record \<open>libc\<close>, of which \<open>libc_ok\<close> is asked: a converted address has 4 or 16 bytes.

  \<^item> \<open>Mtd_Hash\<close>, \<open>Mtd_Tool\<close>, \<open>Mtd_Fix\<close>, \<open>Mtd_Jffs2\<close>, \<open>Mtd_Write\<close> (\<^verbatim>\<open>package/system/mtd/src\<close>): the
    tool that writes firmware images to flash. \<open>Mtd_Hash\<close> has the checksum and the message digest,
    each shown equal to its definition on whole messages; \<open>Mtd_Tool\<close> the opening of partitions and
    the commands unlock, erase, dump and verify; \<open>Mtd_Fix\<close> the corrections of image headers, the
    boot counter and the recovery flag; \<open>Mtd_Jffs2\<close> the generator of file system nodes;
    \<open>Mtd_Write\<close> the writing of an image and the dispatch of the commands. The kernel is the record
    \<open>mtd_sys\<close>; a function is a run on the state \<open>mt\<close> that returns, exits, touches memory outside a
    buffer, or uses up the steps its loops are given. \<open>Mtd_Flash\<close> states as the locale
    \<open>mtd_flash\<close> what a flash device promises and follows the loops over its blocks; \<open>Mtd_Props\<close>
    shows that an image ends up in the good blocks in order, that a dump gives it back, and that
    erasing touches the good blocks only. The number of steps these need is linear in the number
    of blocks and is a hypothesis.

  \<^item> \<open>Mtdsplit\<close>, \<open>Mtdsplit_Fw\<close>, \<open>Mtdsplit_Img\<close> (\<^verbatim>\<open>drivers/mtd/mtdsplit\<close>): the parsers that
    split a firmware partition into kernel and root file system. The first has the common search,
    the second the parsers that check a header and search (locale \<open>rootfs_splitter\<close>), the third
    those that scan for an image or trust sizes of a header.

  \<^bold>\<open>Fuel.\<close> Loops that always end are recursive functions with a termination proof. Where an
  argument counts iterations it is set by the model and theorems show that it is enough:
  \<open>rb_lz77_decompress\<close> has one unit for every bit of the input, the search for a root file system
  one for every erase block, the walk over program headers one per header. Erasing through the
  common layer has the number of logical blocks plus the number of blocks that can still be
  retired, which \<open>bbt_erase_returns\<close> shows to be enough. Three loops of the code may run forever
  and have fuel as an argument of the model: the walk over the nodes of a CFE boot file system,
  the search for the NMBM signature on a chip whose limit is 0, and the search for RouterBoot
  partitions on a device with a read error.

  \<^bold>\<open>Not modelled.\<close> Most of the C code of the tree programs registers, DMA rings and interrupts of
  switches, Ethernet controllers and PHYs; what it does is decided by hardware that is not
  described there. Other parts are vendored (the kernel configuration tools, the SRP
  implementation of \<^verbatim>\<open>ead\<close>) or bindings to libraries that are not in the tree (hostapd, ucode).
  Inside the modelled components, what is left out is file input and output of the \<^verbatim>\<open>nvram\<close> tool
  and everything that only prints.
\<close>

end
